(* ===== verification/Prelude.thy ===== *)
theory Prelude
  imports Main "HOL-Library.Code_Target_Nat"
begin

section \<open>Shared vocabulary: Rust strings, lines, paths of lists\<close>

text \<open>
  A Rust \<open>str\<close> is a sequence of Unicode scalar values; the model keeps it as the list of
  their code points (\<open>ustr\<close>), so that character level operations (\<open>chars\<close>, \<open>trim\<close>,
  \<open>strip_prefix\<close>) act on list elements and byte level quantities (\<open>len\<close>) are computed
  from the UTF-8 width of each code point. \<open>lit\<close> turns an ASCII literal into a \<open>ustr\<close>.
  The theory holds the standard library operations the components share, and the
  lemmas about them that the component proofs use through the collections
  \<open>str_simps\<close> and \<open>bounds_intros\<close>.
\<close>

named_theorems str_simps \<open>unfolding of string literals and string operations\<close>
named_theorems bounds_intros \<open>facts that bound the results of searches and scanners\<close>

type_synonym ustr = "nat list"

definition lit :: "string \<Rightarrow> ustr" where
  "lit s = map of_char s"

lemma lit_Nil [simp]: "lit [] = []"
  by (simp add: lit_def)

lemma lit_eq_Nil [simp]: "lit s = [] \<longleftrightarrow> s = []"
  by (simp add: lit_def)

lemma length_lit [simp]: "length (lit s) = length s"
  by (simp add: lit_def)

lemma lit_append: "lit (s @ t) = lit s @ lit t"
  by (simp add: lit_def)

lemma lit_inject [simp]: "lit s = lit t \<longleftrightarrow> s = t"
  by (simp add: lit_def inj_map_eq_map inj_def)

text \<open>Code points the components name.\<close>

abbreviation nl :: nat where "nl \<equiv> 10"
abbreviation cr :: nat where "cr \<equiv> 13"
abbreviation c_space :: nat where "c_space \<equiv> 32"
abbreviation c_dquote :: nat where "c_dquote \<equiv> 34"
abbreviation c_squote :: nat where "c_squote \<equiv> 39"
abbreviation c_star :: nat where "c_star \<equiv> 42"
abbreviation c_plus :: nat where "c_plus \<equiv> 43"
abbreviation c_minus :: nat where "c_minus \<equiv> 45"
abbreviation c_dot :: nat where "c_dot \<equiv> 46"
abbreviation c_slash :: nat where "c_slash \<equiv> 47"
abbreviation c_colon :: nat where "c_colon \<equiv> 58"
abbreviation c_at :: nat where "c_at \<equiv> 64"

subsection \<open>UTF-8 widths\<close>

text \<open>\<open>char::len_utf8\<close> and \<open>str::len\<close>.\<close>

definition len_utf8 :: "nat \<Rightarrow> nat" where
  "len_utf8 c = (if c < 0x80 then 1 else if c < 0x800 then 2 else if c < 0x10000 then 3 else 4)"

definition str_len :: "ustr \<Rightarrow> nat" where
  "str_len s = sum_list (map len_utf8 s)"

lemma len_utf8_pos [simp]: "0 < len_utf8 c"
  by (simp add: len_utf8_def)

lemma len_utf8_le: "len_utf8 c \<le> 4"
  by (simp add: len_utf8_def)

lemma str_len_Nil [simp]: "str_len [] = 0"
  by (simp add: str_len_def)

lemma str_len_Cons [simp]: "str_len (c # s) = len_utf8 c + str_len s"
  by (simp add: str_len_def)

lemma str_len_append [simp]: "str_len (s @ t) = str_len s + str_len t"
  by (simp add: str_len_def)

lemma str_len_eq_0 [simp]: "str_len s = 0 \<longleftrightarrow> s = []"
  by (cases s) (simp_all add: len_utf8_def)

lemma length_le_str_len: "length s \<le> str_len s"
proof (induction s)
  case (Cons c s)
  have "1 \<le> len_utf8 c" by (simp add: len_utf8_def)
  with Cons show ?case by simp
qed simp

subsection \<open>White space and trimming\<close>

text \<open>\<open>char::is_whitespace\<close>: the Unicode \<open>White_Space\<close> property.\<close>

definition is_whitespace :: "nat \<Rightarrow> bool" where
  "is_whitespace c \<longleftrightarrow> (9 \<le> c \<and> c \<le> 13) \<or> c = 32 \<or> c = 0x85 \<or> c = 0xA0 \<or> c = 0x1680
     \<or> (0x2000 \<le> c \<and> c \<le> 0x200A) \<or> c = 0x2028 \<or> c = 0x2029 \<or> c = 0x202F \<or> c = 0x205F \<or> c = 0x3000"

definition trim_start_matches :: "(nat \<Rightarrow> bool) \<Rightarrow> ustr \<Rightarrow> ustr" where
  "trim_start_matches p s = dropWhile p s"

definition trim_end_matches :: "(nat \<Rightarrow> bool) \<Rightarrow> ustr \<Rightarrow> ustr" where
  "trim_end_matches p s = rev (dropWhile p (rev s))"

definition trim_start :: "ustr \<Rightarrow> ustr" where
  "trim_start s = trim_start_matches is_whitespace s"

definition trim_end :: "ustr \<Rightarrow> ustr" where
  "trim_end s = trim_end_matches is_whitespace s"

definition trim :: "ustr \<Rightarrow> ustr" where
  "trim s = trim_end (trim_start s)"

lemma trim_end_matches_Nil [simp]: "trim_end_matches p [] = []"
  by (simp add: trim_end_matches_def)

lemma trim_end_matches_snoc:
  "trim_end_matches p (s @ [c]) = (if p c then trim_end_matches p s else s @ [c])"
  by (simp add: trim_end_matches_def)

lemma trim_end_matches_id:
  "(s = [] \<or> \<not> p (last s)) \<Longrightarrow> trim_end_matches p s = s"
  by (cases s rule: rev_cases) (auto simp: trim_end_matches_snoc)

lemma trim_start_matches_id:
  "(s = [] \<or> \<not> p (hd s)) \<Longrightarrow> trim_start_matches p s = s"
  by (cases s) (auto simp: trim_start_matches_def)

lemma trim_id:
  assumes "s = [] \<or> \<not> is_whitespace (hd s)" and "s = [] \<or> \<not> is_whitespace (last s)"
  shows "trim s = s"
  using assms by (simp add: trim_def trim_end_def trim_start_def trim_end_matches_id trim_start_matches_id)

lemma trim_Nil [simp]: "trim [] = []"
  by (simp add: trim_id)

lemma length_trim_end_matches: "length (trim_end_matches p s) \<le> length s"
  by (metis length_rev length_dropWhile_le trim_end_matches_def)

lemma length_trim_le: "length (trim s) \<le> length s"
  unfolding trim_def trim_end_def trim_start_def trim_start_matches_def
  by (meson length_trim_end_matches length_dropWhile_le le_trans)

lemma trim_end_matches_last:
  "trim_end_matches p s = [] \<or> \<not> p (last (trim_end_matches p s))"
proof (induction s rule: rev_induct)
  case (snoc c s)
  then show ?case by (auto simp: trim_end_matches_snoc)
qed simp

lemma trim_end_matches_prefix: "\<exists>r. s = trim_end_matches p s @ r \<and> list_all p r"
proof (induction s rule: rev_induct)
  case (snoc c s)
  then obtain r where r: "s = trim_end_matches p s @ r" "list_all p r" by blast
  show ?case
  proof (cases "p c")
    case True
    with r have "s @ [c] = trim_end_matches p (s @ [c]) @ (r @ [c])" "list_all p (r @ [c])"
      by (auto simp: trim_end_matches_snoc)
    then show ?thesis by blast
  next
    case False
    then show ?thesis by (auto simp: trim_end_matches_snoc)
  qed
qed simp

subsection \<open>Prefixes, suffixes, substrings\<close>

fun strip_prefix :: "'a list \<Rightarrow> 'a list \<Rightarrow> 'a list option" where
  "strip_prefix [] s = Some s"
| "strip_prefix (p # ps) [] = None"
| "strip_prefix (p # ps) (c # cs) = (if p = c then strip_prefix ps cs else None)"

definition strip_suffix :: "'a list \<Rightarrow> 'a list \<Rightarrow> 'a list option" where
  "strip_suffix p s = map_option rev (strip_prefix (rev p) (rev s))"

definition starts_with :: "'a list \<Rightarrow> 'a list \<Rightarrow> bool" where
  "starts_with p s \<longleftrightarrow> strip_prefix p s \<noteq> None"

definition ends_with :: "'a list \<Rightarrow> 'a list \<Rightarrow> bool" where
  "ends_with p s \<longleftrightarrow> strip_suffix p s \<noteq> None"

fun contains_str :: "'a list \<Rightarrow> 'a list \<Rightarrow> bool" where
  "contains_str p [] = (p = [])"
| "contains_str p (c # cs) = (starts_with p (c # cs) \<or> contains_str p cs)"

lemma strip_prefix_Some_iff: "strip_prefix p s = Some r \<longleftrightarrow> s = p @ r"
  by (induction p s rule: strip_prefix.induct) auto

lemma strip_prefix_append [simp]: "strip_prefix p (p @ r) = Some r"
  by (simp add: strip_prefix_Some_iff)

lemma strip_suffix_Some_iff: "strip_suffix p s = Some r \<longleftrightarrow> s = r @ p"
proof -
  have "strip_suffix p s = Some r \<longleftrightarrow> strip_prefix (rev p) (rev s) = Some (rev r)"
    by (auto simp: strip_suffix_def)
  also have "\<dots> \<longleftrightarrow> rev s = rev (r @ p)" by (simp add: strip_prefix_Some_iff)
  also have "\<dots> \<longleftrightarrow> s = r @ p" by (simp only: rev_is_rev_conv)
  finally show ?thesis .
qed

lemma strip_suffix_append [simp]: "strip_suffix p (r @ p) = Some r"
  by (simp add: strip_suffix_Some_iff)

lemma starts_with_iff: "starts_with p s \<longleftrightarrow> (\<exists>r. s = p @ r)"
  by (auto simp: starts_with_def strip_prefix_Some_iff)

lemma ends_with_iff: "ends_with p s \<longleftrightarrow> (\<exists>r. s = r @ p)"
  by (auto simp: ends_with_def strip_suffix_Some_iff)

lemma starts_with_Cons_Cons [simp]: "starts_with (p # ps) (c # cs) \<longleftrightarrow> p = c \<and> starts_with ps cs"
  by (simp add: starts_with_def)

lemma starts_with_Cons_Nil [simp]: "\<not> starts_with (p # ps) []"
  by (simp add: starts_with_def)

lemma starts_with_Nil [simp]: "starts_with [] s"
  by (simp add: starts_with_def)

subsection \<open>ASCII case and classes\<close>

definition to_ascii_lowercase :: "ustr \<Rightarrow> ustr" where
  "to_ascii_lowercase s = map (\<lambda>c. if 65 \<le> c \<and> c \<le> 90 then c + 32 else c) s"

definition is_ascii_digit :: "nat \<Rightarrow> bool" where
  "is_ascii_digit c \<longleftrightarrow> 48 \<le> c \<and> c \<le> 57"

definition eq_ignore_ascii_case :: "ustr \<Rightarrow> ustr \<Rightarrow> bool" where
  "eq_ignore_ascii_case s t \<longleftrightarrow> to_ascii_lowercase s = to_ascii_lowercase t"

lemma to_ascii_lowercase_idem [simp]:
  "to_ascii_lowercase (to_ascii_lowercase s) = to_ascii_lowercase s"
  by (auto simp: to_ascii_lowercase_def)

subsection \<open>Splitting and joining\<close>

fun split_on :: "'a \<Rightarrow> 'a list \<Rightarrow> 'a list list" where
  "split_on c [] = [[]]"
| "split_on c (x # xs) =
     (if x = c then [] # split_on c xs
      else case split_on c xs of [] \<Rightarrow> [[x]] | y # ys \<Rightarrow> (x # y) # ys)"

fun join_with :: "'a list \<Rightarrow> 'a list list \<Rightarrow> 'a list" where
  "join_with sep [] = []"
| "join_with sep [x] = x"
| "join_with sep (x # y # ys) = x @ sep @ join_with sep (y # ys)"

lemma split_on_not_Nil [simp]: "split_on c s \<noteq> []"
  by (induction s) (auto split: list.splits)

lemma join_with_Cons: "ys \<noteq> [] \<Longrightarrow> join_with sep (x # ys) = x @ sep @ join_with sep ys"
  by (cases ys) auto

lemma join_split_on [simp]: "join_with [c] (split_on c s) = s"
proof (induction s)
  case (Cons x xs)
  show ?case
  proof (cases "x = c")
    case True
    with Cons show ?thesis by (simp add: join_with_Cons)
  next
    case False
    obtain y ys where "split_on c xs = y # ys" by (cases "split_on c xs") auto
    with False Cons show ?thesis by (cases ys) auto
  qed
qed simp

lemma split_on_append_sep: "c \<notin> set x \<Longrightarrow> split_on c (x @ c # s) = x # split_on c s"
  by (induction x) auto

lemma split_on_no_sep: "c \<notin> set x \<Longrightarrow> split_on c x = [x]"
  by (induction x) auto

lemma split_join_with:
  "\<lbrakk>ls \<noteq> []; \<forall>l\<in>set ls. c \<notin> set l\<rbrakk> \<Longrightarrow> split_on c (join_with [c] ls) = ls"
proof (induction "[c]" ls rule: join_with.induct)
  case (3 x y ys)
  then show ?case by (simp add: split_on_append_sep)
qed (simp_all add: split_on_no_sep)

lemma split_on_sep_free: "l \<in> set (split_on c s) \<Longrightarrow> c \<notin> set l"
proof (induction s arbitrary: l)
  case (Cons x xs)
  then show ?case by (cases "split_on c xs") (fastforce split: if_splits)+
qed simp

lemma join_with_append:
  "\<lbrakk>xs \<noteq> []; ys \<noteq> []\<rbrakk> \<Longrightarrow> join_with sep (xs @ ys) = join_with sep xs @ sep @ join_with sep ys"
  by (induction sep xs rule: join_with.induct) (auto simp: join_with_Cons)

text \<open>
  \<open>str::lines\<close>: pieces ended by a newline lose it and one carriage return before it; an
  unterminated last piece is kept as it is, and an empty one is not a line.
\<close>

definition strip_cr :: "ustr \<Rightarrow> ustr" where
  "strip_cr l = (case strip_suffix [cr] l of Some l' \<Rightarrow> l' | None \<Rightarrow> l)"

definition str_lines :: "ustr \<Rightarrow> ustr list" where
  "str_lines s = (let ps = split_on nl s in
     map strip_cr (butlast ps) @ (if last ps = [] then [] else [last ps]))"

lemma strip_cr_id: "(l = [] \<or> last l \<noteq> cr) \<Longrightarrow> strip_cr l = l"
proof -
  assume "l = [] \<or> last l \<noteq> cr"
  then have "strip_suffix [cr] l = None"
    by (auto simp: strip_suffix_Some_iff simp flip: not_Some_eq)
  then show ?thesis by (simp add: strip_cr_def)
qed

lemma str_lines_join:
  assumes "ls \<noteq> []" and "\<forall>l\<in>set ls. nl \<notin> set l \<and> cr \<notin> set l" and "last ls \<noteq> []"
  shows "str_lines (join_with [nl] ls) = ls"
proof -
  have "map strip_cr (butlast ls) = map id (butlast ls)"
    using assms(2)
    by (intro map_cong refl) (metis id_apply in_set_butlastD last_in_set strip_cr_id)
  moreover have "split_on nl (join_with [nl] ls) = ls"
    using assms(1,2) by (simp add: split_join_with)
  ultimately show ?thesis
    using assms(1,3) by (simp add: str_lines_def)
qed

subsection \<open>Splitting once\<close>

text \<open>\<open>str::split_once\<close> and \<open>str::rsplit_once\<close> with a character.\<close>

definition split_once :: "'a \<Rightarrow> 'a list \<Rightarrow> ('a list \<times> 'a list) option" where
  "split_once c s = (case dropWhile (\<lambda>x. x \<noteq> c) s of
      [] \<Rightarrow> None | _ # rest \<Rightarrow> Some (takeWhile (\<lambda>x. x \<noteq> c) s, rest))"

definition rsplit_once :: "'a \<Rightarrow> 'a list \<Rightarrow> ('a list \<times> 'a list) option" where
  "rsplit_once c s = map_option (\<lambda>(a, b). (rev b, rev a)) (split_once c (rev s))"

lemma split_once_Some_iff: "split_once c s = Some (a, b) \<longleftrightarrow> s = a @ c # b \<and> c \<notin> set a"
proof
  assume "split_once c s = Some (a, b)"
  then obtain x where x: "dropWhile (\<lambda>x. x \<noteq> c) s = x # b" and a: "a = takeWhile (\<lambda>x. x \<noteq> c) s"
    by (auto simp: split_once_def split: list.splits)
  from x have "x = c" using hd_dropWhile [of "\<lambda>x. x \<noteq> c" s] by auto
  with a x show "s = a @ c # b \<and> c \<notin> set a"
    by (metis (full_types) set_takeWhileD takeWhile_dropWhile_id)
next
  assume "s = a @ c # b \<and> c \<notin> set a"
  then have "dropWhile (\<lambda>x. x \<noteq> c) s = c # b" "takeWhile (\<lambda>x. x \<noteq> c) s = a"
    by (induction a arbitrary: s) auto
  then show "split_once c s = Some (a, b)" by (simp add: split_once_def)
qed

lemma split_once_None_iff: "split_once c s = None \<longleftrightarrow> c \<notin> set s"
proof -
  have "split_once c s = None \<longleftrightarrow> dropWhile (\<lambda>x. x \<noteq> c) s = []"
    by (cases "dropWhile (\<lambda>x. x \<noteq> c) s") (simp_all del: dropWhile_eq_Nil_conv add: split_once_def)
  then show ?thesis unfolding dropWhile_eq_Nil_conv by blast
qed

lemma rsplit_once_Some_iff: "rsplit_once c s = Some (a, b) \<longleftrightarrow> s = a @ c # b \<and> c \<notin> set b"
proof -
  have "rsplit_once c s = Some (a, b) \<longleftrightarrow> split_once c (rev s) = Some (rev b, rev a)"
    by (auto simp: rsplit_once_def)
  also have "\<dots> \<longleftrightarrow> rev s = rev (a @ c # b) \<and> c \<notin> set b" by (simp add: split_once_Some_iff)
  finally show ?thesis by (simp only: rev_is_rev_conv)
qed

lemma rsplit_once_None_iff: "rsplit_once c s = None \<longleftrightarrow> c \<notin> set s"
  by (simp add: rsplit_once_def split_once_None_iff)

subsection \<open>Searching an index range\<close>

text \<open>The Rust loop \<open>for i in lo..hi { if p(i) { return Some(i) } }\<close>.\<close>

definition find_index_in :: "(nat \<Rightarrow> bool) \<Rightarrow> nat \<Rightarrow> nat \<Rightarrow> nat option" where
  "find_index_in p lo hi = find p [lo..<hi]"

lemma find_Some_iff_least:
  "find p [lo..<hi] = Some i \<longleftrightarrow> lo \<le> i \<and> i < hi \<and> p i \<and> (\<forall>j. lo \<le> j \<and> j < i \<longrightarrow> \<not> p j)"
proof (induction "hi - lo" arbitrary: lo)
  case 0
  then show ?case by auto
next
  case (Suc n)
  then have lo: "lo < hi" by simp
  then have up: "[lo..<hi] = lo # [Suc lo..<hi]" by (simp add: upt_conv_Cons)
  have IH: "find p [Suc lo..<hi] = Some i \<longleftrightarrow>
      Suc lo \<le> i \<and> i < hi \<and> p i \<and> (\<forall>j. Suc lo \<le> j \<and> j < i \<longrightarrow> \<not> p j)"
    using Suc by (metis Suc_diff_Suc diff_Suc_1 lo)
  show ?case
  proof (cases "p lo")
    case True
    with lo up show ?thesis by (auto simp: not_less_eq_eq)
  next
    case False
    with up IH have "find p [lo..<hi] = Some i \<longleftrightarrow>
      Suc lo \<le> i \<and> i < hi \<and> p i \<and> (\<forall>j. Suc lo \<le> j \<and> j < i \<longrightarrow> \<not> p j)" by simp
    also have "\<dots> \<longleftrightarrow> lo \<le> i \<and> i < hi \<and> p i \<and> (\<forall>j. lo \<le> j \<and> j < i \<longrightarrow> \<not> p j)"
      using False by (metis Suc_leD Suc_leI le_neq_implies_less not_less_eq_eq)
    finally show ?thesis .
  qed
qed

lemma find_index_in_Some_iff:
  "find_index_in p lo hi = Some i \<longleftrightarrow>
     lo \<le> i \<and> i < hi \<and> p i \<and> (\<forall>j. lo \<le> j \<and> j < i \<longrightarrow> \<not> p j)"
  by (simp add: find_index_in_def find_Some_iff_least)

lemma find_index_in_None_iff:
  "find_index_in p lo hi = None \<longleftrightarrow> (\<forall>j. lo \<le> j \<and> j < hi \<longrightarrow> \<not> p j)"
  by (auto simp: find_index_in_def find_None_iff)

lemma find_index_in_bounds [bounds_intros]:
  "find_index_in p lo hi = Some i \<Longrightarrow> lo \<le> i \<and> i < hi"
  by (simp add: find_index_in_Some_iff)

subsection \<open>Greatest elements\<close>

text \<open>\<open>Iterator::max_by_key\<close>: the last of the greatest elements.\<close>

fun max_by_key :: "('a \<Rightarrow> 'k::linorder) \<Rightarrow> 'a list \<Rightarrow> 'a option" where
  "max_by_key key [] = None"
| "max_by_key key (x # xs) = Some (fold (\<lambda>y best. if key best \<le> key y then y else best) xs x)"

lemma max_by_key_eq_None [simp]: "max_by_key key xs = None \<longleftrightarrow> xs = []"
  by (cases xs) simp_all

lemma fold_max_by_key:
  fixes key :: "'a \<Rightarrow> 'k::linorder"
  shows "fold (\<lambda>y best. if key best \<le> key y then y else best) xs b \<in> insert b (set xs)
    \<and> (\<forall>x\<in>insert b (set xs). key x \<le> key (fold (\<lambda>y best. if key best \<le> key y then y else best) xs b))"
    (is "?m xs b \<in> _ \<and> ?greatest xs b")
proof (induction xs arbitrary: b)
  case (Cons x xs)
  show ?case
  proof (cases "key b \<le> key x")
    case True
    then show ?thesis using Cons.IH [of x] by (auto intro: order_trans)
  next
    case False
    then have "key x \<le> key b" by simp
    with False show ?thesis using Cons.IH [of b] by (auto intro: order_trans)
  qed
qed simp

lemma max_by_key_Some:
  "max_by_key key xs = Some m \<Longrightarrow> m \<in> set xs \<and> (\<forall>x\<in>set xs. key x \<le> key m)"
proof (cases xs)
  case (Cons x ys)
  assume "max_by_key key xs = Some m"
  with Cons fold_max_by_key [of key ys x] show ?thesis by auto
qed simp

subsection \<open>Fallible state transformers\<close>

text \<open>
  A call that may fail and changes state returns \<open>(error + value) \<times> state\<close>; \<open>try_then\<close> is
  the \<open>?\<close> operator followed by the rest of the block.
\<close>

type_synonym ('e, 'a, 's) outcome = "('e + 'a) \<times> 's"

fun try_then :: "('e, 'a, 's) outcome \<Rightarrow> ('a \<Rightarrow> 's \<Rightarrow> ('e, 'b, 's) outcome) \<Rightarrow> ('e, 'b, 's) outcome" where
  "try_then (Inl e, s) k = (Inl e, s)"
| "try_then (Inr a, s) k = k a s"

lemma try_then_Inr_iff:
  "try_then r k = (Inr b, s') \<longleftrightarrow> (\<exists>a s. r = (Inr a, s) \<and> k a s = (Inr b, s'))"
  by (cases "(r, k)" rule: try_then.cases) auto

lemma try_then_Inl_iff:
  "try_then r k = (Inl e, s') \<longleftrightarrow> r = (Inl e, s') \<or> (\<exists>a s. r = (Inr a, s) \<and> k a s = (Inl e, s'))"
  by (cases "(r, k)" rule: try_then.cases) auto

lemma try_then_state:
  "\<lbrakk>P (snd r); \<And>a s. P s \<Longrightarrow> P (snd (k a s))\<rbrakk> \<Longrightarrow> P (snd (try_then r k))"
  by (cases "(r, k)" rule: try_then.cases) auto

lemma try_then_error_iff:
  "fst (try_then r k) = Inl e \<longleftrightarrow> fst r = Inl e \<or> (\<exists>a s. r = (Inr a, s) \<and> fst (k a s) = Inl e)"
  by (cases "(r, k)" rule: try_then.cases) auto

lemma try_then_assoc: "try_then (try_then r k) l = try_then r (\<lambda>a s. try_then (k a s) l)"
  by (cases "(r, k)" rule: try_then.cases) auto

text \<open>\<open>map_err\<close> (and \<open>with_context\<close>).\<close>

definition map_err :: "('e \<Rightarrow> 'f) \<Rightarrow> ('e, 'a, 's) outcome \<Rightarrow> ('f, 'a, 's) outcome" where
  "map_err f r = (map_sum f id (fst r), snd r)"

lemma snd_map_err [simp]: "snd (map_err f r) = snd r"
  by (simp add: map_err_def)

lemma map_err_Inr_iff: "map_err f r = (Inr a, s) \<longleftrightarrow> r = (Inr a, s)"
  by (cases r; cases "fst r") (auto simp: map_err_def)

lemma map_err_error_iff: "fst (map_err f r) = Inl e \<longleftrightarrow> (\<exists>x. fst r = Inl x \<and> e = f x)"
  by (cases r; cases "fst r") (auto simp: map_err_def)

text \<open>\<open>iter().map(f).collect::<Result<Vec<_>, _>>()\<close>: all the values, or the first error.\<close>

fun traverse :: "('a \<Rightarrow> 'e + 'b) \<Rightarrow> 'a list \<Rightarrow> 'e + 'b list" where
  "traverse f [] = Inr []"
| "traverse f (x # xs) =
    (case f x of Inl e \<Rightarrow> Inl e
     | Inr y \<Rightarrow> (case traverse f xs of Inl e \<Rightarrow> Inl e | Inr ys \<Rightarrow> Inr (y # ys)))"

lemma traverse_Inr_iff: "traverse f xs = Inr ys \<longleftrightarrow> list_all2 (\<lambda>x y. f x = Inr y) xs ys"
proof (induction xs arbitrary: ys)
  case (Cons x xs)
  show ?case by (cases ys) (auto simp flip: Cons split: sum.splits)
qed auto

lemma list_all2_in1: "list_all2 P xs ys \<Longrightarrow> \<forall>x\<in>set xs. \<exists>y\<in>set ys. P x y"
  by (induction xs ys rule: list_all2_induct) auto

lemma list_all2_in2: "list_all2 P xs ys \<Longrightarrow> \<forall>y\<in>set ys. \<exists>x\<in>set xs. P x y"
  by (induction xs ys rule: list_all2_induct) auto

lemma traverse_total: "(\<And>x. x \<in> set xs \<Longrightarrow> f x = Inr (g x)) \<Longrightarrow> traverse f xs = Inr (map g xs)"
  by (induction xs) auto

text \<open>The decimal rendering of an unsigned integer.\<close>

fun show_nat :: "nat \<Rightarrow> ustr" where
  "show_nat n = (if n < 10 then [48 + n] else show_nat (n div 10) @ [48 + n mod 10])"

declare show_nat.simps [simp del]

lemma length_show_nat: "\<lbrakk>n < 10 ^ k; 0 < k\<rbrakk> \<Longrightarrow> length (show_nat n) \<le> k"
proof (induction k arbitrary: n)
  case (Suc k)
  show ?case
  proof (cases "n < 10")
    case True
    then show ?thesis by (simp add: show_nat.simps [of n])
  next
    case False
    with Suc.prems have "k \<noteq> 0" by (cases k) simp_all
    moreover have "n div 10 < 10 ^ k" using Suc.prems by (simp add: less_mult_imp_div_less mult.commute)
    ultimately have "length (show_nat (n div 10)) \<le> k" using Suc.IH by simp
    with False show ?thesis by (simp add: show_nat.simps [of n])
  qed
qed simp

lemma str_len_show_nat [simp]: "str_len (show_nat n) = length (show_nat n)"
proof (induction n rule: show_nat.induct)
  case (1 n)
  have "len_utf8 (48 + m) = 1" if "m < 10" for m using that by (simp add: len_utf8_def)
  then have "len_utf8 (48 + n mod 10) = 1" "n < 10 \<Longrightarrow> len_utf8 (48 + n) = 1" by simp_all
  with 1 show ?case by (simp add: show_nat.simps [of n])
qed

subsection \<open>Saturating arithmetic\<close>

text \<open>
  \<open>usize\<close> on a 64 bit target, and \<open>u64\<close>. Rust's \<open>saturating_sub\<close> is subtraction on \<open>nat\<close>.
\<close>

definition USIZE_MAX :: nat where
  "USIZE_MAX = 2 ^ 64 - 1"

text \<open>The greatest length of an allocation, hence of a \<open>String\<close>.\<close>

definition ISIZE_MAX :: nat where
  "ISIZE_MAX = 2 ^ 63 - 1"

definition sat_add :: "nat \<Rightarrow> nat \<Rightarrow> nat" where
  "sat_add a b = min (a + b) USIZE_MAX"

definition sat_mul :: "nat \<Rightarrow> nat \<Rightarrow> nat" where
  "sat_mul a b = min (a * b) USIZE_MAX"

lemma sat_add_id: "a + b \<le> USIZE_MAX \<Longrightarrow> sat_add a b = a + b"
  by (simp add: sat_add_def)

lemma sat_add_sat: "sat_add (min a USIZE_MAX) b = min (a + b) USIZE_MAX"
  by (simp add: sat_add_def)

lemma sat_add_le: "sat_add a b \<le> a + b"
  by (simp add: sat_add_def)

end
