(* ===== verification/Seek_Sequence.thy ===== *)
theory Seek_Sequence
  imports Prelude
begin

section \<open>Locating a block of lines (apply-patch/src/seek_sequence.rs)\<close>

text \<open>
  \<open>seek_sequence\<close> looks for a block of lines in a file with four decreasing levels of
  strictness: exact, modulo trailing white space, modulo surrounding white space, and modulo
  typographic punctuation. The loop of each level is \<open>find_index_in\<close> over the same range
  of start indices. \<open>line_seeker\<close> is the contract the patch engine relies on; it is
  interpreted on \<open>seek_sequence\<close> at the end.
\<close>

subsection \<open>Definitions\<close>

definition normalise_char :: "nat \<Rightarrow> nat" where
  "normalise_char c =
    (if c \<in> {0x2010, 0x2011, 0x2012, 0x2013, 0x2014, 0x2015, 0x2212} then c_minus
     else if c \<in> {0x2018, 0x2019, 0x201A, 0x201B} then c_squote
     else if c \<in> {0x201C, 0x201D, 0x201E, 0x201F} then c_dquote
     else if c \<in> {0x00A0, 0x2002, 0x2003, 0x2004, 0x2005, 0x2006, 0x2007, 0x2008, 0x2009, 0x200A,
                  0x202F, 0x205F, 0x3000} then c_space
     else c)"

definition normalise :: "ustr \<Rightarrow> ustr" where
  "normalise s = map normalise_char (trim s)"

text \<open>The slice comparison \<open>lines[i..i + pattern.len()] == pattern\<close>.\<close>

definition slice_eq :: "ustr list \<Rightarrow> ustr list \<Rightarrow> nat \<Rightarrow> bool" where
  "slice_eq ls pat i \<longleftrightarrow> take (length pat) (drop i ls) = pat"

text \<open>The inner loops: every pattern line agrees with its file line under a projection.\<close>

definition lines_match :: "(ustr \<Rightarrow> ustr) \<Rightarrow> ustr list \<Rightarrow> ustr list \<Rightarrow> nat \<Rightarrow> bool" where
  "lines_match f ls pat i \<longleftrightarrow>
     list_all (\<lambda>(p_idx, p). f (ls ! (i + p_idx)) = f p) (enumerate 0 pat)"

definition seek_sequence :: "ustr list \<Rightarrow> ustr list \<Rightarrow> nat \<Rightarrow> bool \<Rightarrow> nat option" where
  "seek_sequence ls pat start eof =
    (if pat = [] then Some start
     else if length pat > length ls then None
     else
       let search_start = (if eof \<and> length pat \<le> length ls then length ls - length pat else start);
           hi = Suc (length ls - length pat)
       in case find_index_in (slice_eq ls pat) search_start hi of
            Some i \<Rightarrow> Some i
          | None \<Rightarrow>
         (case find_index_in (lines_match trim_end ls pat) search_start hi of
            Some i \<Rightarrow> Some i
          | None \<Rightarrow>
         (case find_index_in (lines_match trim ls pat) search_start hi of
            Some i \<Rightarrow> Some i
          | None \<Rightarrow> find_index_in (lines_match normalise ls pat) search_start hi)))"

subsection \<open>The levels of strictness\<close>

lemma lines_match_iff:
  "lines_match f ls pat i \<longleftrightarrow> (\<forall>k<length pat. f (ls ! (i + k)) = f (pat ! k))"
  by (force simp: lines_match_def list_all_iff in_set_enumerate_eq)

lemma slice_eq_iff:
  "i + length pat \<le> length ls \<Longrightarrow> slice_eq ls pat i \<longleftrightarrow> (\<forall>k<length pat. ls ! (i + k) = pat ! k)"
  by (auto simp: slice_eq_def list_eq_iff_nth_eq)

lemma slice_eq_lines_match:
  "i + length pat \<le> length ls \<Longrightarrow> slice_eq ls pat i \<longleftrightarrow> lines_match (\<lambda>l. l) ls pat i"
  by (simp add: slice_eq_iff lines_match_iff)

lemma lines_match_weaken:
  assumes "\<And>a b. f a = f b \<Longrightarrow> g a = g b" and "lines_match f ls pat i"
  shows "lines_match g ls pat i"
  using assms(2) unfolding lines_match_iff by (blast intro: assms(1))

lemma trim_eq_trim_end: "trim_end a = trim_end b \<Longrightarrow> trim a = trim b"
proof -
  have swap: "trim s = trim_start (trim_end s)" for s
  proof (induction s)
    case (Cons c s)
    show ?case
    proof (cases "list_all is_whitespace s")
      case True
      then have ws: "\<forall>x\<in>set s. is_whitespace x" by (simp add: list_all_iff)
      then have "dropWhile is_whitespace s = []" by simp
      moreover have "dropWhile is_whitespace (rev s) = []" using ws by simp
      moreover have "dropWhile is_whitespace (rev s @ [c]) = (if is_whitespace c then [] else [c])"
        using ws by (simp add: dropWhile_append3 dropWhile_eq_Nil_conv)
      ultimately show ?thesis
        using ws
        by (auto simp: trim_def trim_end_def trim_start_def trim_end_matches_def trim_start_matches_def
            dest: set_dropWhileD)
    next
      case False
      then obtain x where x: "x \<in> set s" "\<not> is_whitespace x" by (auto simp: list_all_iff)
      then have "dropWhile is_whitespace (rev s @ [c]) = dropWhile is_whitespace (rev s) @ [c]"
        by (metis dropWhile_append1 set_rev)
      then show ?thesis
        using Cons
        by (simp add: trim_def trim_end_def trim_start_def trim_end_matches_def trim_start_matches_def)
    qed
  qed (simp add: trim_end_def trim_start_def trim_start_matches_def)
  assume "trim_end a = trim_end b"
  then show ?thesis by (simp add: swap)
qed

text \<open>Each level accepts what the stricter one before it accepts.\<close>

lemma lines_match_levels:
  shows "i + length pat \<le> length ls \<Longrightarrow> slice_eq ls pat i \<Longrightarrow> lines_match trim_end ls pat i"
    and "lines_match trim_end ls pat i \<Longrightarrow> lines_match trim ls pat i"
    and "lines_match trim ls pat i \<Longrightarrow> lines_match normalise ls pat i"
  by (auto simp: slice_eq_iff lines_match_iff normalise_def intro: trim_eq_trim_end)

subsection \<open>Results of the search\<close>

lemma seek_sequence_empty [simp]: "seek_sequence ls [] start eof = Some start"
  by (simp add: seek_sequence_def)

definition seek_range_start :: "ustr list \<Rightarrow> ustr list \<Rightarrow> nat \<Rightarrow> bool \<Rightarrow> nat" where
  "seek_range_start ls pat start eof = (if eof then length ls - length pat else start)"

lemma seek_sequence_cases:
  assumes "seek_sequence ls pat start eof = Some i" and "pat \<noteq> []"
  shows "length pat \<le> length ls \<and> seek_range_start ls pat start eof \<le> i \<and> i + length pat \<le> length ls
     \<and> lines_match normalise ls pat i"
proof -
  have len: "length pat \<le> length ls" using assms by (auto simp: seek_sequence_def split: if_splits)
  let ?lo = "seek_range_start ls pat start eof" and ?hi = "Suc (length ls - length pat)"
  have "find_index_in (slice_eq ls pat) ?lo ?hi = Some i
      \<or> find_index_in (lines_match trim_end ls pat) ?lo ?hi = Some i
      \<or> find_index_in (lines_match trim ls pat) ?lo ?hi = Some i
      \<or> find_index_in (lines_match normalise ls pat) ?lo ?hi = Some i"
    using assms len
    by (auto simp: seek_sequence_def Let_def seek_range_start_def split: option.splits if_splits)
  then have b: "?lo \<le> i \<and> i + length pat \<le> length ls
      \<and> (slice_eq ls pat i \<or> lines_match trim_end ls pat i \<or> lines_match trim ls pat i
          \<or> lines_match normalise ls pat i)"
    using len by (auto simp: find_index_in_Some_iff)
  with len show ?thesis using lines_match_levels by blast
qed

lemma seek_sequence_None_iff:
  assumes "pat \<noteq> []"
  shows "seek_sequence ls pat start eof = None \<longleftrightarrow>
    (\<forall>i. seek_range_start ls pat start eof \<le> i \<and> i + length pat \<le> length ls
         \<longrightarrow> \<not> lines_match normalise ls pat i)"
proof (cases "length pat \<le> length ls")
  case False
  then show ?thesis using assms by (auto simp: seek_sequence_def)
next
  case True
  let ?lo = "seek_range_start ls pat start eof" and ?hi = "Suc (length ls - length pat)"
  have none: "seek_sequence ls pat start eof = None \<longleftrightarrow>
      find_index_in (slice_eq ls pat) ?lo ?hi = None
      \<and> find_index_in (lines_match trim_end ls pat) ?lo ?hi = None
      \<and> find_index_in (lines_match trim ls pat) ?lo ?hi = None
      \<and> find_index_in (lines_match normalise ls pat) ?lo ?hi = None"
    using True assms
    by (auto simp: seek_sequence_def Let_def seek_range_start_def split: option.splits)
  have fits: "i < ?hi \<longleftrightarrow> i + length pat \<le> length ls" for i using True by auto
  show ?thesis
    unfolding none find_index_in_None_iff fits using lines_match_levels by blast
qed

text \<open>At the end of the file there is one position to look at.\<close>

lemma seek_sequence_eof:
  assumes "pat \<noteq> []"
  shows "seek_sequence ls pat start True =
    (if length pat \<le> length ls \<and> lines_match normalise ls pat (length ls - length pat)
     then Some (length ls - length pat) else None)"
proof (cases "seek_sequence ls pat start True")
  case None
  with seek_sequence_None_iff [OF assms, of ls start True] show ?thesis by (auto simp: seek_range_start_def)
next
  case (Some i)
  with seek_sequence_cases [OF Some assms] have "i = length ls - length pat" "length pat \<le> length ls"
    "lines_match normalise ls pat i" by (auto simp: seek_range_start_def)
  with Some show ?thesis by simp
qed

lemma seek_sequence_exact:
  assumes "pat \<noteq> []" and "start \<le> i" and "i + length pat \<le> length ls"
    and "take (length pat) (drop i ls) = pat"
    and "\<forall>j. start \<le> j \<and> j < i \<longrightarrow> take (length pat) (drop j ls) \<noteq> pat"
  shows "seek_sequence ls pat start False = Some i"
proof -
  have "find_index_in (slice_eq ls pat) start (Suc (length ls - length pat)) = Some i"
    using assms by (auto simp: find_index_in_Some_iff slice_eq_def)
  with assms show ?thesis by (auto simp: seek_sequence_def Let_def)
qed

lemma seek_sequence_exact_eof:
  assumes "pat \<noteq> []" and "length pat \<le> length ls"
    and "drop (length ls - length pat) ls = pat"
  shows "seek_sequence ls pat start True = Some (length ls - length pat)"
proof -
  let ?i = "length ls - length pat"
  have "find_index_in (slice_eq ls pat) ?i (Suc ?i) = Some ?i"
    using assms by (auto simp: find_index_in_Some_iff slice_eq_def)
  with assms show ?thesis by (auto simp: seek_sequence_def Let_def)
qed

subsection \<open>The contract of a line seeker\<close>

locale line_seeker =
  fixes seek :: "ustr list \<Rightarrow> ustr list \<Rightarrow> nat \<Rightarrow> bool \<Rightarrow> nat option"
  assumes seek_empty: "seek ls [] start eof = Some start"
    and seek_fits: "\<lbrakk>pat \<noteq> []; seek ls pat start eof = Some i\<rbrakk> \<Longrightarrow> i + length pat \<le> length ls"
    and seek_from: "seek ls pat start False = Some i \<Longrightarrow> start \<le> i"
    and seek_at_end: "\<lbrakk>pat \<noteq> []; seek ls pat start True = Some i\<rbrakk> \<Longrightarrow> i + length pat = length ls"
    and seek_exact: "\<lbrakk>pat \<noteq> []; start \<le> i; take (length pat) (drop i ls) = pat;
        \<forall>j. start \<le> j \<and> j < i \<longrightarrow> take (length pat) (drop j ls) \<noteq> pat\<rbrakk>
      \<Longrightarrow> seek ls pat start False = Some i"
begin

text \<open>A hit after an index inside the file stays inside the file.\<close>

lemma seek_le:
  assumes "seek ls pat start eof = Some i" and "start \<le> length ls"
  shows "i + length pat \<le> length ls"
  using assms seek_empty [of ls start eof] seek_fits by (cases "pat = []") auto

lemma seek_line_Suc_le:
  "seek ls [l] start eof = Some i \<Longrightarrow> Suc i \<le> length ls"
  using seek_fits [of "[l]"] by fastforce

lemma seek_at_start:
  "\<lbrakk>pat \<noteq> []; take (length pat) (drop start ls) = pat\<rbrakk> \<Longrightarrow> seek ls pat start False = Some start"
  by (rule seek_exact) auto

end

interpretation seeker: line_seeker seek_sequence
proof unfold_locales
  fix ls pat :: "ustr list" and start i :: nat
  show "seek_sequence ls pat start False = Some i \<Longrightarrow> start \<le> i"
    by (cases "pat = []") (auto simp: seek_range_start_def dest: seek_sequence_cases)
  show "\<lbrakk>pat \<noteq> []; seek_sequence ls pat start True = Some i\<rbrakk> \<Longrightarrow> i + length pat = length ls"
    by (auto simp: seek_range_start_def dest: seek_sequence_cases)
next
  fix ls pat :: "ustr list" and start i :: nat
  assume a: "pat \<noteq> []" "start \<le> i" "take (length pat) (drop i ls) = pat"
    "\<forall>j. start \<le> j \<and> j < i \<longrightarrow> take (length pat) (drop j ls) \<noteq> pat"
  from a(3) have "length pat \<le> length ls - i"
    by (metis length_drop length_take min.cobounded1)
  with a(1) have "i + length pat \<le> length ls" by (cases pat) auto
  with a show "seek_sequence ls pat start False = Some i" by (intro seek_sequence_exact)
qed (auto dest: seek_sequence_cases)

end
