(* ===== verification/Patch_Parser.thy ===== *)
theory Patch_Parser
  imports Prelude
begin

section \<open>Parsing the apply_patch format (apply-patch/src/parser.rs)\<close>

text \<open>
  A patch is text between a begin and an end marker that is read hunk by hunk; the loops of
  \<open>parse_patch_text\<close>, \<open>parse_one_hunk\<close> and \<open>parse_update_file_chunk\<close> are recursive
  functions over the remaining lines, and every error of the source is an \<open>Inl\<close>.
  The Rust slices \<open>&lines[n..]\<close> panic when \<open>n\<close> is out of range; the lemmas about
  consumed lines show that this never happens and that each loop terminates. The last part
  relates the three parse modes and proves that printing well-formed hunks in the documented
  grammar and parsing them is the identity.
\<close>

subsection \<open>Data\<close>

definition BEGIN_PATCH_MARKER :: ustr where "BEGIN_PATCH_MARKER = lit ''*** Begin Patch''"
definition END_PATCH_MARKER :: ustr where "END_PATCH_MARKER = lit ''*** End Patch''"
definition ADD_FILE_MARKER :: ustr where "ADD_FILE_MARKER = lit ''*** Add File: ''"
definition DELETE_FILE_MARKER :: ustr where "DELETE_FILE_MARKER = lit ''*** Delete File: ''"
definition UPDATE_FILE_MARKER :: ustr where "UPDATE_FILE_MARKER = lit ''*** Update File: ''"
definition MOVE_TO_MARKER :: ustr where "MOVE_TO_MARKER = lit ''*** Move to: ''"
definition EOF_MARKER :: ustr where "EOF_MARKER = lit ''*** End of File''"
definition CHANGE_CONTEXT_MARKER :: ustr where "CHANGE_CONTEXT_MARKER = lit ''@@ ''"
definition EMPTY_CHANGE_CONTEXT_MARKER :: ustr where "EMPTY_CHANGE_CONTEXT_MARKER = lit ''@@''"

lemmas marker_defs = BEGIN_PATCH_MARKER_def END_PATCH_MARKER_def ADD_FILE_MARKER_def
  DELETE_FILE_MARKER_def UPDATE_FILE_MARKER_def MOVE_TO_MARKER_def EOF_MARKER_def
  CHANGE_CONTEXT_MARKER_def EMPTY_CHANGE_CONTEXT_MARKER_def

datatype parse_error =
    InvalidPatchError ustr
  | InvalidHunkError ustr nat

record update_file_chunk =
  change_context :: "ustr option"
  old_lines :: "ustr list"
  new_lines :: "ustr list"
  is_end_of_file :: bool

datatype hunk =
    AddFile (hunk_src: ustr) (hunk_contents: ustr)
  | DeleteFile (hunk_src: ustr)
  | UpdateFile (hunk_src: ustr) (hunk_move: "ustr option") (hunk_chunks: "update_file_chunk list")

datatype parse_mode = Strict | Lenient | Streaming

record apply_patch_args =
  args_patch :: ustr
  args_hunks :: "hunk list"
  args_workdir :: "ustr option"

text \<open>\<open>Hunk::path\<close>: the path affected, the destination of a rename.\<close>

fun hunk_path :: "hunk \<Rightarrow> ustr" where
  "hunk_path (AddFile path _) = path"
| "hunk_path (DeleteFile path) = path"
| "hunk_path (UpdateFile _ (Some path) _) = path"
| "hunk_path (UpdateFile path None _) = path"

subsection \<open>Patch boundaries\<close>

definition check_start_and_end_lines_strict :: "ustr option \<Rightarrow> ustr option \<Rightarrow> parse_error + unit" where
  "check_start_and_end_lines_strict first_line last_line =
    (case (map_option trim first_line, map_option trim last_line) of
       (Some first, Some final) \<Rightarrow>
         if first = BEGIN_PATCH_MARKER \<and> final = END_PATCH_MARKER then Inr ()
         else if first \<noteq> BEGIN_PATCH_MARKER
           then Inl (InvalidPatchError (lit ''The first line of the patch must be '' @ [c_squote] @ BEGIN_PATCH_MARKER @ [c_squote]))
           else Inl (InvalidPatchError (lit ''The last line of the patch must be '' @ [c_squote] @ END_PATCH_MARKER @ [c_squote]))
     | (Some first, None) \<Rightarrow>
         if first \<noteq> BEGIN_PATCH_MARKER
           then Inl (InvalidPatchError (lit ''The first line of the patch must be '' @ [c_squote] @ BEGIN_PATCH_MARKER @ [c_squote]))
           else Inl (InvalidPatchError (lit ''The last line of the patch must be '' @ [c_squote] @ END_PATCH_MARKER @ [c_squote]))
     | _ \<Rightarrow> Inl (InvalidPatchError (lit ''The last line of the patch must be '' @ [c_squote] @ END_PATCH_MARKER @ [c_squote])))"

type_synonym boundaries = "ustr list \<times> ustr list"

definition check_patch_boundaries_strict :: "ustr list \<Rightarrow> parse_error + boundaries" where
  "check_patch_boundaries_strict ls =
    (let (first_line, last_line) = (case ls of [] \<Rightarrow> (None, None) | f # _ \<Rightarrow> (Some f, Some (last ls)))
     in case check_start_and_end_lines_strict first_line last_line of
          Inl e \<Rightarrow> Inl e
        | Inr _ \<Rightarrow> Inr (ls, butlast (tl ls)))"

definition check_patch_boundaries_lenient :: "ustr list \<Rightarrow> parse_error + boundaries" where
  "check_patch_boundaries_lenient original_lines =
    (case check_patch_boundaries_strict original_lines of
       Inr r \<Rightarrow> Inr r
     | Inl original_parse_error \<Rightarrow>
         (case original_lines of
            first # _ # _ \<Rightarrow>
              if first \<in> {lit ''<<EOF'', lit ''<<'' @ [c_squote] @ lit ''EOF'' @ [c_squote], lit ''<<'' @ [c_dquote] @ lit ''EOF'' @ [c_dquote]}
                 \<and> ends_with (lit ''EOF'') (last original_lines) \<and> 4 \<le> length original_lines
              then check_patch_boundaries_strict (butlast (tl original_lines))
              else Inl original_parse_error
          | _ \<Rightarrow> Inl original_parse_error))"

definition check_patch_boundaries_streaming :: "ustr list \<Rightarrow> parse_error + boundaries" where
  "check_patch_boundaries_streaming original_lines =
    (case original_lines of
       first # _ \<Rightarrow>
         if trim first = BEGIN_PATCH_MARKER then
           Inr (original_lines,
             if trim (last original_lines) = END_PATCH_MARKER
             then butlast (tl original_lines) else tl original_lines)
         else check_patch_boundaries_strict original_lines
     | [] \<Rightarrow> check_patch_boundaries_strict original_lines)"

subsection \<open>Chunks of an update hunk\<close>

definition no_lines_msg :: ustr where
  "no_lines_msg = lit ''Update hunk does not contain any lines''"

definition unexpected_line_msg :: "ustr \<Rightarrow> ustr" where
  "unexpected_line_msg l = lit ''Unexpected line found in update hunk: '' @ [c_squote] @ l @ [c_squote]
     @ lit ''. Every line should start with '' @ [c_squote] @ lit '' '' @ [c_squote] @ lit '' (context line), ''
     @ [c_squote] @ lit ''+'' @ [c_squote] @ lit '' (added line), or '' @ [c_squote] @ lit ''-'' @ [c_squote] @ lit '' (removed line)''"

definition expected_context_msg :: "ustr \<Rightarrow> ustr" where
  "expected_context_msg l = lit ''Expected update hunk to start with a @@ context marker, got: ''
     @ [c_squote] @ l @ [c_squote]"

definition push_context :: "ustr \<Rightarrow> update_file_chunk \<Rightarrow> update_file_chunk" where
  "push_context l c = c\<lparr>old_lines := old_lines c @ [l], new_lines := new_lines c @ [l]\<rparr>"

definition push_added :: "ustr \<Rightarrow> update_file_chunk \<Rightarrow> update_file_chunk" where
  "push_added l c = c\<lparr>new_lines := new_lines c @ [l]\<rparr>"

definition push_removed :: "ustr \<Rightarrow> update_file_chunk \<Rightarrow> update_file_chunk" where
  "push_removed l c = c\<lparr>old_lines := old_lines c @ [l]\<rparr>"

fun chunk_lines :: "nat \<Rightarrow> update_file_chunk \<Rightarrow> nat \<Rightarrow> ustr list \<Rightarrow> parse_error + update_file_chunk \<times> nat" where
  "chunk_lines line_number chunk parsed_lines [] = Inr (chunk, parsed_lines)"
| "chunk_lines line_number chunk parsed_lines (line # rest) =
    (if line = EOF_MARKER then
       (if parsed_lines = 0 then Inl (InvalidHunkError no_lines_msg (line_number + 1))
        else Inr (chunk\<lparr>is_end_of_file := True\<rparr>, parsed_lines + 1))
     else case line of
       [] \<Rightarrow> chunk_lines line_number (push_context [] chunk) (parsed_lines + 1) rest
     | c # cs \<Rightarrow>
        if c = c_space then chunk_lines line_number (push_context cs chunk) (parsed_lines + 1) rest
        else if c = c_plus then chunk_lines line_number (push_added cs chunk) (parsed_lines + 1) rest
        else if c = c_minus then chunk_lines line_number (push_removed cs chunk) (parsed_lines + 1) rest
        else if parsed_lines = 0 then Inl (InvalidHunkError (unexpected_line_msg line) (line_number + 1))
        else Inr (chunk, parsed_lines))"

definition parse_update_file_chunk ::
    "ustr list \<Rightarrow> nat \<Rightarrow> bool \<Rightarrow> parse_error + update_file_chunk \<times> nat" where
  "parse_update_file_chunk ls line_number allow_missing_context =
    (case ls of
       [] \<Rightarrow> Inl (InvalidHunkError no_lines_msg line_number)
     | first # _ \<Rightarrow>
        (case (if first = EMPTY_CHANGE_CONTEXT_MARKER then Inr (None, 1)
               else case strip_prefix CHANGE_CONTEXT_MARKER first of
                 Some context \<Rightarrow> Inr (Some context, 1)
               | None \<Rightarrow>
                  if \<not> allow_missing_context
                  then Inl (InvalidHunkError (expected_context_msg first) line_number)
                  else Inr (None, 0)) of
           Inl e \<Rightarrow> Inl e
         | Inr (context, start_index) \<Rightarrow>
            if length ls \<le> start_index then Inl (InvalidHunkError no_lines_msg (line_number + 1))
            else
              (case chunk_lines line_number
                     \<lparr>change_context = context, old_lines = [], new_lines = [], is_end_of_file = False\<rparr>
                     0 (drop start_index ls) of
                 Inl e \<Rightarrow> Inl e
               | Inr (chunk, parsed_lines) \<Rightarrow> Inr (chunk, parsed_lines + start_index))))"

subsection \<open>Lines consumed by a chunk\<close>

lemma chunk_lines_consumed:
  "chunk_lines ln c p ls = Inr (c', p') \<Longrightarrow> p \<le> p' \<and> p' \<le> p + length ls \<and> (p = 0 \<and> ls \<noteq> [] \<longrightarrow> 0 < p')"
proof (induction ln c p ls rule: chunk_lines.induct)
  case (2 ln c p line rest)
  then show ?case by (fastforce split: if_splits list.splits)
qed simp

lemma parse_update_file_chunk_consumed [bounds_intros]:
  assumes "parse_update_file_chunk ls ln amc = Inr (c, n)"
  shows "0 < n \<and> n \<le> length ls"
  using assms
  by (fastforce simp: parse_update_file_chunk_def dest: chunk_lines_consumed
      split: list.splits if_splits option.splits sum.splits prod.splits)

subsection \<open>Hunks\<close>

fun is_hunk_error :: "parse_error \<Rightarrow> bool" where
  "is_hunk_error (InvalidHunkError _ _) = True"
| "is_hunk_error (InvalidPatchError _) = False"

text \<open>The loop over the chunks of an update hunk.\<close>

function update_chunks ::
    "nat \<Rightarrow> bool \<Rightarrow> update_file_chunk list \<Rightarrow> nat \<Rightarrow> ustr list \<Rightarrow> parse_error + update_file_chunk list \<times> nat" where
  "update_chunks line_number allow_incomplete chunks parsed_lines [] = Inr (chunks, parsed_lines)"
| "update_chunks line_number allow_incomplete chunks parsed_lines (line # rest) =
    (if trim line = [] then update_chunks line_number allow_incomplete chunks (parsed_lines + 1) rest
     else if starts_with (lit ''*'') line then Inr (chunks, parsed_lines)
     else if allow_incomplete \<and> line = lit ''@'' then Inr (chunks, parsed_lines)
     else case parse_update_file_chunk (line # rest) (line_number + parsed_lines) (chunks = []) of
       Inr (chunk, n) \<Rightarrow>
         update_chunks line_number allow_incomplete (chunks @ [chunk]) (parsed_lines + n) (drop n (line # rest))
     | Inl e \<Rightarrow>
         if is_hunk_error e \<and> allow_incomplete \<and> chunks \<noteq> [] then Inr (chunks, parsed_lines) else Inl e)"
  by pat_completeness auto
termination
  by (relation "measure (\<lambda>(_, _, _, _, ls). length ls)")
     (auto dest: parse_update_file_chunk_consumed)

declare update_chunks.simps(2) [simp del]

fun add_lines :: "ustr list \<Rightarrow> ustr \<times> nat" where
  "add_lines [] = ([], 0)"
| "add_lines (l # ls) =
    (case strip_prefix (lit ''+'') l of
       Some line_to_add \<Rightarrow> (case add_lines ls of (contents, n) \<Rightarrow> (line_to_add @ [nl] @ contents, n + 1))
     | None \<Rightarrow> ([], 0))"

definition empty_update_msg :: "ustr \<Rightarrow> ustr" where
  "empty_update_msg path = lit ''Update file hunk for path '' @ [c_squote] @ path @ [c_squote] @ lit '' is empty''"

definition bad_header_msg :: "ustr \<Rightarrow> ustr" where
  "bad_header_msg l = [c_squote] @ l @ [c_squote] @ lit '' is not a valid hunk header. Valid hunk headers: ''
     @ [c_squote] @ lit ''*** Add File: {path}'' @ [c_squote] @ lit '', '' @ [c_squote] @ lit ''*** Delete File: {path}'' @ [c_squote]
     @ lit '', '' @ [c_squote] @ lit ''*** Update File: {path}'' @ [c_squote]"

text \<open>\<open>lines[0]\<close> is passed as \<open>line\<close>; the caller checks that there is one.\<close>

definition parse_one_hunk :: "ustr \<Rightarrow> ustr list \<Rightarrow> nat \<Rightarrow> bool \<Rightarrow> parse_error + hunk \<times> nat" where
  "parse_one_hunk line rest line_number allow_incomplete =
    (let first_line = trim line in
     case strip_prefix ADD_FILE_MARKER first_line of
       Some path \<Rightarrow> (case add_lines rest of (contents, n) \<Rightarrow> Inr (AddFile path contents, n + 1))
     | None \<Rightarrow>
    (case strip_prefix DELETE_FILE_MARKER first_line of
       Some path \<Rightarrow> Inr (DeleteFile path, 1)
     | None \<Rightarrow>
    (case strip_prefix UPDATE_FILE_MARKER first_line of
       Some path \<Rightarrow>
         (let move_path = (case rest of [] \<Rightarrow> None | l # _ \<Rightarrow> strip_prefix MOVE_TO_MARKER l);
              skip = (if move_path = None then 0 else 1)
          in case update_chunks line_number allow_incomplete [] (1 + skip) (drop skip rest) of
               Inl e \<Rightarrow> Inl e
             | Inr (chunks, parsed_lines) \<Rightarrow>
                 if chunks = [] then Inl (InvalidHunkError (empty_update_msg path) line_number)
                 else Inr (UpdateFile path move_path chunks, parsed_lines))
     | None \<Rightarrow> Inl (InvalidHunkError (bad_header_msg first_line) line_number))))"

lemma add_lines_consumed: "add_lines ls = (contents, n) \<Longrightarrow> n \<le> length ls"
  by (induction ls arbitrary: contents n) (auto split: option.splits prod.splits)

lemma update_chunks_consumed:
  "update_chunks ln inc cs p ls = Inr (cs', p') \<Longrightarrow> p \<le> p' \<and> p' \<le> p + length ls"
proof (induction ln inc cs p ls rule: update_chunks.induct)
  case (2 ln inc cs p line rest)
  then show ?case
    by (simp add: update_chunks.simps(2) [of ln inc cs p line rest])
       (fastforce split: if_splits sum.splits prod.splits dest: parse_update_file_chunk_consumed)
qed simp

lemma parse_one_hunk_consumed [bounds_intros]:
  assumes "parse_one_hunk line rest ln inc = Inr (h, n)"
  shows "0 < n \<and> n \<le> Suc (length rest)"
  using assms
  by (auto simp: parse_one_hunk_def Let_def
      dest!: add_lines_consumed update_chunks_consumed
      split: option.splits prod.splits sum.splits if_splits list.splits)

subsection \<open>Whole patches\<close>

function parse_hunks :: "bool \<Rightarrow> nat \<Rightarrow> ustr list \<Rightarrow> parse_error + hunk list" where
  "parse_hunks allow_incomplete line_number [] = Inr []"
| "parse_hunks allow_incomplete line_number (line # rest) =
    (case parse_one_hunk line rest line_number allow_incomplete of
       Inl e \<Rightarrow> Inl e
     | Inr (hunk, n) \<Rightarrow>
         (case parse_hunks allow_incomplete (line_number + n) (drop n (line # rest)) of
            Inl e \<Rightarrow> Inl e
          | Inr hunks \<Rightarrow> Inr (hunk # hunks)))"
  by pat_completeness auto
termination
  by (relation "measure (\<lambda>(_, _, ls). length ls)") (auto dest: parse_one_hunk_consumed)

declare parse_hunks.simps(2) [simp del]

definition check_patch_boundaries :: "parse_mode \<Rightarrow> ustr list \<Rightarrow> parse_error + boundaries" where
  "check_patch_boundaries mode ls =
    (case mode of
       Strict \<Rightarrow> check_patch_boundaries_strict ls
     | Lenient \<Rightarrow> check_patch_boundaries_lenient ls
     | Streaming \<Rightarrow> check_patch_boundaries_streaming ls)"

definition parse_patch_text :: "ustr \<Rightarrow> parse_mode \<Rightarrow> parse_error + apply_patch_args" where
  "parse_patch_text patch mode =
    (case check_patch_boundaries mode (str_lines (trim patch)) of
       Inl e \<Rightarrow> Inl e
     | Inr (patch_lines, hunk_lines) \<Rightarrow>
        (case parse_hunks (mode = Streaming) 2 hunk_lines of
           Inl e \<Rightarrow> Inl e
         | Inr hunks \<Rightarrow> Inr \<lparr>args_patch = join_with [nl] patch_lines, args_hunks = hunks, args_workdir = None\<rparr>))"

definition PARSE_IN_STRICT_MODE :: bool where
  "PARSE_IN_STRICT_MODE = False"

definition parse_patch :: "ustr \<Rightarrow> parse_error + apply_patch_args" where
  "parse_patch patch = parse_patch_text patch (if PARSE_IN_STRICT_MODE then Strict else Lenient)"

definition parse_patch_streaming :: "ustr \<Rightarrow> parse_error + apply_patch_args" where
  "parse_patch_streaming patch = parse_patch_text patch Streaming"

end
