(* ===== verification/Patch_Replace.thy ===== *)
theory Patch_Replace
  imports Seek_Sequence Patch_Parser
begin

section \<open>From chunks to new file contents (apply-patch/src/lib.rs)\<close>

text \<open>
  \<open>compute_replacements\<close> turns the chunks of an update into index ranges of the old file,
  \<open>apply_replacements\<close> performs them back to front, and \<open>new_contents_from_chunks\<close> is the
  text-to-text part of \<open>derive_new_contents_from_chunks\<close>. \<open>Vec::insert\<close> panics beyond the
  end of the vector, so \<open>apply_replacements\<close> returns an option; the theory shows that it
  always returns, that the ranges lie inside the file, and that for chunks that follow one
  another the in-place updates equal a single left-to-right splice.
  The search for lines is a parameter of the loop, so that its lemmas hold for every
  \<open>line_seeker\<close>; the program's loop is the instance at \<open>seek_sequence\<close>.
\<close>

subsection \<open>Definitions\<close>

type_synonym replacement = "nat \<times> nat \<times> ustr list"

datatype replace_error =
    ContextNotFound ustr
  | LinesNotFound "ustr list"

text \<open>The message of \<open>ApplyPatchError::ComputeReplacements\<close>.\<close>

fun replace_error_msg :: "ustr \<Rightarrow> replace_error \<Rightarrow> ustr" where
  "replace_error_msg path (ContextNotFound ctx_line) =
     lit ''Failed to find context '' @ [c_squote] @ ctx_line @ [c_squote] @ lit '' in '' @ path"
| "replace_error_msg path (LinesNotFound ls) =
     lit ''Failed to find expected lines in '' @ path @ lit '':'' @ [nl] @ join_with [nl] ls"

definition ends_with_empty :: "ustr list \<Rightarrow> bool" where
  "ends_with_empty ls \<longleftrightarrow> ls \<noteq> [] \<and> last ls = []"

type_synonym seeker = "ustr list \<Rightarrow> ustr list \<Rightarrow> nat \<Rightarrow> bool \<Rightarrow> nat option"

text \<open>The search for the old lines of a chunk, with the retry without the final empty line.\<close>

definition locate_chunk :: "seeker \<Rightarrow> ustr list \<Rightarrow> nat \<Rightarrow> update_file_chunk \<Rightarrow> replacement option" where
  "locate_chunk seek original_lines line_index chunk =
    (let pattern = old_lines chunk; new_slice = new_lines chunk in
     case seek original_lines pattern line_index (is_end_of_file chunk) of
       Some start_idx \<Rightarrow> Some (start_idx, length pattern, new_slice)
     | None \<Rightarrow>
        if ends_with_empty pattern then
          (let pattern' = butlast pattern;
               new_slice' = (if ends_with_empty new_slice then butlast new_slice else new_slice)
           in map_option (\<lambda>start_idx. (start_idx, length pattern', new_slice'))
                (seek original_lines pattern' line_index (is_end_of_file chunk)))
        else None)"

text \<open>The step for \<open>change_context\<close>: the index after the context line.\<close>

definition seek_context :: "seeker \<Rightarrow> ustr list \<Rightarrow> nat \<Rightarrow> update_file_chunk \<Rightarrow> replace_error + nat" where
  "seek_context seek original_lines line_index chunk =
    (case change_context chunk of
       None \<Rightarrow> Inr line_index
     | Some ctx_line \<Rightarrow>
        (case seek original_lines [ctx_line] line_index False of
           Some idx \<Rightarrow> Inr (idx + 1)
         | None \<Rightarrow> Inl (ContextNotFound ctx_line)))"

fun replacements_loop ::
    "seeker \<Rightarrow> ustr list \<Rightarrow> nat \<Rightarrow> replacement list \<Rightarrow> update_file_chunk list \<Rightarrow> replace_error + replacement list" where
  "replacements_loop seek original_lines line_index replacements [] = Inr replacements"
| "replacements_loop seek original_lines line_index replacements (chunk # chunks) =
    (case seek_context seek original_lines line_index chunk of
       Inl e \<Rightarrow> Inl e
     | Inr line_index' \<Rightarrow>
        if old_lines chunk = [] then
          (let insertion_idx = (if ends_with_empty original_lines then length original_lines - 1
                                else length original_lines)
           in replacements_loop seek original_lines line_index'
                (replacements @ [(insertion_idx, 0, new_lines chunk)]) chunks)
        else
          (case locate_chunk seek original_lines line_index' chunk of
             None \<Rightarrow> Inl (LinesNotFound (old_lines chunk))
           | Some (start_idx, old_len, new_segment) \<Rightarrow>
               replacements_loop seek original_lines (start_idx + old_len)
                 (replacements @ [(start_idx, old_len, new_segment)]) chunks))"

definition compute_replacements_by ::
    "seeker \<Rightarrow> ustr list \<Rightarrow> update_file_chunk list \<Rightarrow> replace_error + replacement list" where
  "compute_replacements_by seek original_lines chunks =
    map_sum id (sort_key fst) (replacements_loop seek original_lines 0 [] chunks)"

definition compute_replacements ::
    "ustr list \<Rightarrow> update_file_chunk list \<Rightarrow> replace_error + replacement list" where
  "compute_replacements = compute_replacements_by seek_sequence"

text \<open>\<open>Vec::remove\<close> at an index known to be in range, and \<open>Vec::insert\<close>.\<close>

definition vec_remove :: "nat \<Rightarrow> 'a list \<Rightarrow> 'a list" where
  "vec_remove i xs = take i xs @ drop (Suc i) xs"

definition vec_insert :: "nat \<Rightarrow> 'a \<Rightarrow> 'a list \<Rightarrow> 'a list option" where
  "vec_insert i x xs = (if i \<le> length xs then Some (take i xs @ x # drop i xs) else None)"

fun remove_old :: "nat \<Rightarrow> nat \<Rightarrow> 'a list \<Rightarrow> 'a list" where
  "remove_old start_idx 0 xs = xs"
| "remove_old start_idx (Suc n) xs =
     remove_old start_idx n (if start_idx < length xs then vec_remove start_idx xs else xs)"

fun insert_new :: "nat \<Rightarrow> 'a list \<Rightarrow> 'a list \<Rightarrow> 'a list option" where
  "insert_new idx [] xs = Some xs"
| "insert_new idx (y # ys) xs =
     (case vec_insert idx y xs of None \<Rightarrow> None | Some xs' \<Rightarrow> insert_new (Suc idx) ys xs')"

fun apply_replacement :: "replacement \<Rightarrow> ustr list \<Rightarrow> ustr list option" where
  "apply_replacement (start_idx, old_len, new_segment) xs =
     insert_new start_idx new_segment (remove_old start_idx old_len xs)"

text \<open>Last replacement first, as \<open>replacements.iter().rev()\<close>.\<close>

fun apply_replacements :: "ustr list \<Rightarrow> replacement list \<Rightarrow> ustr list option" where
  "apply_replacements xs [] = Some xs"
| "apply_replacements xs (r # rs) =
     (case apply_replacements xs rs of None \<Rightarrow> None | Some xs' \<Rightarrow> apply_replacement r xs')"

definition original_lines_of :: "ustr \<Rightarrow> ustr list" where
  "original_lines_of contents =
    (let ls = split_on nl contents in if ends_with_empty ls then butlast ls else ls)"

definition join_new_lines :: "ustr list \<Rightarrow> ustr" where
  "join_new_lines ls = join_with [nl] (if ends_with_empty ls then ls else ls @ [[]])"

definition new_contents_from_chunks :: "ustr \<Rightarrow> update_file_chunk list \<Rightarrow> replace_error + ustr option" where
  "new_contents_from_chunks original_contents chunks =
    (let original = original_lines_of original_contents in
     case compute_replacements original chunks of
       Inl e \<Rightarrow> Inl e
     | Inr replacements \<Rightarrow> Inr (map_option join_new_lines (apply_replacements original replacements)))"

subsection \<open>Vector updates\<close>

lemma remove_old_eq:
  "i \<le> length xs \<Longrightarrow> remove_old i n xs = take i xs @ drop (i + n) xs"
proof (induction n arbitrary: xs)
  case (Suc n)
  show ?case
  proof (cases "i < length xs")
    case True
    then have "i \<le> length (vec_remove i xs)" by (simp add: vec_remove_def)
    moreover have "drop (i + n) (vec_remove i xs) = drop (Suc (i + n)) xs"
      using True by (simp add: vec_remove_def add.commute)
    moreover have "take i (vec_remove i xs) = take i xs" using True by (simp add: vec_remove_def)
    ultimately show ?thesis using Suc.IH [of "vec_remove i xs"] True by simp
  next
    case False
    with Suc show ?thesis by simp
  qed
qed simp

lemma insert_new_eq:
  "i \<le> length xs \<Longrightarrow> insert_new i ys xs = Some (take i xs @ ys @ drop i xs)"
proof (induction ys arbitrary: i xs)
  case (Cons y ys)
  then have "vec_insert i y xs = Some (take i xs @ y # drop i xs)" by (simp add: vec_insert_def)
  with Cons.IH [of "Suc i" "take i xs @ y # drop i xs"] Cons.prems show ?case by simp
qed simp

lemma apply_replacement_eq:
  "i \<le> length xs \<Longrightarrow> apply_replacement (i, n, ys) xs = Some (take i xs @ ys @ drop (i + n) xs)"
  by (simp add: remove_old_eq insert_new_eq)

lemma insert_new_None:
  "length xs < i \<Longrightarrow> ys \<noteq> [] \<Longrightarrow> insert_new i ys xs = None"
  by (cases ys) (simp_all add: vec_insert_def)

subsection \<open>Applying sorted replacements\<close>

text \<open>The reference: one pass from left to right that copies and splices.\<close>

fun splice :: "nat \<Rightarrow> ustr list \<Rightarrow> replacement list \<Rightarrow> ustr list" where
  "splice k xs [] = drop k xs"
| "splice k xs ((i, n, ys) # rs) = take (i - k) (drop k xs) @ ys @ splice (i + n) xs rs"

text \<open>Ranges that follow one another inside a file of \<open>len\<close> lines, from line \<open>k\<close> on.\<close>

fun follow :: "nat \<Rightarrow> nat \<Rightarrow> replacement list \<Rightarrow> bool" where
  "follow k len [] \<longleftrightarrow> k \<le> len"
| "follow k len ((i, n, ys) # rs) \<longleftrightarrow> k \<le> i \<and> follow (i + n) len rs"

lemma follow_le: "follow k len rs \<Longrightarrow> k \<le> len"
  by (induction k len rs rule: follow.induct) auto

lemma apply_replacements_follow:
  "follow k (length xs) rs \<Longrightarrow> apply_replacements xs rs = Some (take k xs @ splice k xs rs)"
proof (induction k "length xs" rs rule: follow.induct)
  case (2 k i n ys rs)
  then have IH: "apply_replacements xs rs = Some (take (i + n) xs @ splice (i + n) xs rs)" by simp
  have len: "k \<le> i" "i + n \<le> length xs" using 2 follow_le by auto
  then have "take i (take (i + n) xs @ splice (i + n) xs rs) = take i xs"
    and "drop (i + n) (take (i + n) xs @ splice (i + n) xs rs) = splice (i + n) xs rs"
    by (simp_all add: min_def)
  moreover have "take i xs = take k xs @ take (i - k) (drop k xs)"
    using len(1) by (metis le_add_diff_inverse take_add)
  ultimately show ?case
    using IH len by (simp add: apply_replacement_eq del: apply_replacement.simps)
qed simp

lemma splice_no_replacements: "splice 0 xs [] = xs"
  by simp

text \<open>No panic: starts in order and inside the file suffice, even when ranges overlap.\<close>

lemma apply_replacements_returns:
  assumes "sorted (map fst rs)" and "\<forall>r\<in>set rs. fst r \<le> length xs"
  shows "\<exists>ys. apply_replacements xs rs = Some ys \<and> (\<forall>r\<in>set (take 1 rs). fst r \<le> length ys)
     \<and> (rs = [] \<longrightarrow> ys = xs)"
  using assms
proof (induction rs)
  case (Cons r rs)
  obtain i n new where r: "r = (i, n, new)" by (cases r)
  from Cons obtain ys where ys: "apply_replacements xs rs = Some ys"
    "\<forall>r\<in>set (take 1 rs). fst r \<le> length ys" "rs = [] \<longrightarrow> ys = xs" by auto
  have "i \<le> length ys"
  proof (cases rs)
    case Nil
    with ys Cons.prems r show ?thesis by simp
  next
    case (Cons r' rs')
    with ys Cons.prems(1) r have "i \<le> fst r'" "fst r' \<le> length ys" by auto
    then show ?thesis by simp
  qed
  with ys r show ?case by (simp add: apply_replacement_eq del: apply_replacement.simps)
qed simp

subsection \<open>The ranges the chunks select\<close>

definition in_file :: "nat \<Rightarrow> replacement \<Rightarrow> bool" where
  "in_file len r \<longleftrightarrow> fst r + fst (snd r) \<le> len"

text \<open>Chunks that neither append at the end nor are anchored there.\<close>

definition plain_chunk :: "update_file_chunk \<Rightarrow> bool" where
  "plain_chunk c \<longleftrightarrow> old_lines c \<noteq> [] \<and> \<not> is_end_of_file c"

lemma follow_append:
  "follow k len (rs @ [(i, n, ys)]) \<longleftrightarrow>
     follow k (if rs = [] then k else i) rs \<and> (rs = [] \<longrightarrow> k \<le> i) \<and> i + n \<le> len"
proof (induction rs arbitrary: k)
  case (Cons r rs)
  obtain j m zs where "r = (j, m, zs)" by (cases r)
  with Cons show ?case by (cases "rs = []") auto
qed simp

lemma follow_mono: "follow k m rs \<Longrightarrow> m \<le> n \<Longrightarrow> follow k n rs"
  by (induction k m rs rule: follow.induct) auto

lemma follow_sorted: "follow k len rs \<Longrightarrow> sorted (map fst rs) \<and> (\<forall>r\<in>set rs. k \<le> fst r \<and> in_file len r)"
proof (induction k len rs rule: follow.induct)
  case (2 k len i n ys rs)
  then show ?case by (fastforce simp: in_file_def dest: follow_le)
qed simp

context line_seeker
begin

lemma seek_context_le:
  assumes "seek_context seek ls k c = Inr k'" and "k \<le> length ls"
  shows "k' \<le> length ls \<and> k \<le> k'"
proof (cases "change_context c")
  case None
  with assms show ?thesis by (simp add: seek_context_def)
next
  case (Some l)
  with assms(1) obtain i where i: "seek ls [l] k False = Some i" "k' = Suc i"
    by (auto simp: seek_context_def split: option.splits)
  then show ?thesis using seek_line_Suc_le [OF i(1)] seek_from [OF i(1)] by simp
qed

lemma locate_chunk_seek:
  assumes "locate_chunk seek ls k c = Some r"
  shows "\<exists>pat. seek ls pat k (is_end_of_file c) = Some (fst r) \<and> fst (snd r) = length pat"
  using assms by (auto simp: locate_chunk_def Let_def split: option.splits if_splits)

lemma locate_chunk_in_file:
  assumes "locate_chunk seek ls k c = Some r" and "k \<le> length ls"
  shows "in_file (length ls) r"
  using locate_chunk_seek [OF assms(1)] seek_le assms(2) by (fastforce simp: in_file_def)

lemma locate_chunk_from:
  assumes "locate_chunk seek ls k c = Some r" and "\<not> is_end_of_file c"
  shows "k \<le> fst r"
  using locate_chunk_seek [OF assms(1)] seek_from assms(2) by fastforce

lemma replacements_loop_in_file:
  assumes "replacements_loop seek ls k rs cs = Inr rs'" and "k \<le> length ls"
    and "\<forall>r\<in>set rs. in_file (length ls) r"
  shows "\<forall>r\<in>set rs'. in_file (length ls) r"
  using assms
proof (induction cs arbitrary: k rs)
  case (Cons c cs)
  from Cons.prems obtain k' where k': "seek_context seek ls k c = Inr k'" "k' \<le> length ls"
    by (auto split: sum.splits dest: seek_context_le)
  show ?case
  proof (cases "old_lines c = []")
    case True
    let ?idx = "if ends_with_empty ls then length ls - 1 else length ls"
    have "replacements_loop seek ls k' (rs @ [(?idx, 0, new_lines c)]) cs = Inr rs'"
      using Cons.prems(1) True k'(1) by simp
    moreover have "\<forall>r\<in>set (rs @ [(?idx, 0, new_lines c)]). in_file (length ls) r"
      using Cons.prems(3) by (simp add: in_file_def)
    ultimately show ?thesis using k'(2) by (intro Cons.IH)
  next
    case False
    with Cons.prems k' obtain i n ys where l: "locate_chunk seek ls k' c = Some (i, n, ys)"
      by (auto split: option.splits)
    then have "in_file (length ls) (i, n, ys)" using k'(2) by (rule locate_chunk_in_file)
    then have "\<forall>r\<in>set (rs @ [(i, n, ys)]). in_file (length ls) r" and "i + n \<le> length ls"
      using Cons.prems(3) by (simp_all add: in_file_def)
    moreover have "replacements_loop seek ls (i + n) (rs @ [(i, n, ys)]) cs = Inr rs'"
      using Cons.prems(1) False k'(1) l by simp
    ultimately show ?thesis by (intro Cons.IH)
  qed
qed simp

lemma replacements_loop_follow:
  assumes "replacements_loop seek ls k rs cs = Inr rs'" and "list_all plain_chunk cs"
    and "k \<le> length ls" and "follow 0 k rs"
  shows "follow 0 (length ls) rs'"
  using assms
proof (induction cs arbitrary: k rs)
  case Nil
  then show ?case by (auto intro: follow_mono)
next
  case (Cons c cs)
  from Cons.prems obtain k' where k': "seek_context seek ls k c = Inr k'" "k' \<le> length ls" "k \<le> k'"
    by (auto split: sum.splits dest: seek_context_le)
  from Cons.prems have c: "old_lines c \<noteq> []" "\<not> is_end_of_file c" by (simp_all add: plain_chunk_def)
  with Cons.prems k' obtain i n ys where l: "locate_chunk seek ls k' c = Some (i, n, ys)"
    by (auto split: option.splits)
  then have "k' \<le> i" "i + n \<le> length ls"
    using locate_chunk_from c(2) locate_chunk_in_file k'(2) by (fastforce simp: in_file_def)+
  moreover have "follow 0 (i + n) (rs @ [(i, n, ys)])"
    using Cons.prems(4) \<open>k' \<le> i\<close> k'(3) follow_mono [of 0 k rs i]
    by (auto simp: follow_append)
  ultimately show ?case
    using Cons c k' l by simp
qed

lemma compute_replacements_in_file:
  assumes "compute_replacements_by seek ls cs = Inr rs"
  shows "sorted (map fst rs) \<and> (\<forall>r\<in>set rs. in_file (length ls) r)"
  using assms replacements_loop_in_file [of ls 0 "[]" cs]
  by (auto simp: compute_replacements_by_def map_sum_def split: sum.splits)

lemma compute_replacements_follow:
  assumes "compute_replacements_by seek ls cs = Inr rs" and "list_all plain_chunk cs"
  shows "follow 0 (length ls) rs"
proof -
  from assms(1) obtain rs0 where rs0: "replacements_loop seek ls 0 [] cs = Inr rs0" "rs = sort_key fst rs0"
    by (cases "replacements_loop seek ls 0 [] cs") (auto simp: compute_replacements_by_def)
  then have "follow 0 (length ls) rs0" using assms(2) replacements_loop_follow by simp
  moreover from this have "sort_key fst rs0 = rs0"
    by (simp add: follow_sorted sort_key_id_if_sorted)
  ultimately show ?thesis using rs0 by simp
qed

lemma compute_replacements_one:
  assumes "old_lines c \<noteq> []" and "\<not> is_end_of_file c" and "change_context c = None"
    and "take (length (old_lines c)) (drop i ls) = old_lines c"
    and "\<forall>j<i. take (length (old_lines c)) (drop j ls) \<noteq> old_lines c"
  shows "compute_replacements_by seek ls [c] = Inr [(i, length (old_lines c), new_lines c)]"
  using assms seek_exact [of "old_lines c" 0 i ls]
  by (simp add: compute_replacements_by_def seek_context_def locate_chunk_def)

end

lemma compute_replacements_apply:
  assumes "compute_replacements ls cs = Inr rs"
  shows "\<exists>ys. apply_replacements ls rs = Some ys"
proof -
  have "sorted (map fst rs)" "\<forall>r\<in>set rs. in_file (length ls) r"
    using assms seeker.compute_replacements_in_file by (auto simp: compute_replacements_def)
  then have "\<forall>r\<in>set rs. fst r \<le> length ls" by (auto simp: in_file_def)
  then show ?thesis using apply_replacements_returns [of rs ls] \<open>sorted (map fst rs)\<close> by blast
qed

subsection \<open>Contents\<close>

lemma join_new_lines_ends: "\<exists>s. join_new_lines ls = s @ [nl] \<or> join_new_lines ls = []"
proof (cases ls rule: rev_cases)
  case (snoc ls' l)
  show ?thesis
  proof (cases "ls' = []")
    case True
    with snoc show ?thesis by (simp add: join_new_lines_def ends_with_empty_def)
  next
    case False
    with snoc show ?thesis
      by (auto simp: join_new_lines_def ends_with_empty_def join_with_append)
  qed
qed (simp add: join_new_lines_def ends_with_empty_def)

lemma split_on_snoc_sep: "split_on c (s @ [c]) = split_on c s @ [[]]"
proof (induction s)
  case (Cons x xs)
  then show ?case by (cases "split_on c xs") auto
qed simp

lemma original_lines_of_terminated: "original_lines_of (s @ [nl]) = split_on nl s"
  by (simp add: original_lines_of_def ends_with_empty_def split_on_snoc_sep)

end
