(* ===== verification/Patch_Grammar.thy ===== *)
theory Patch_Grammar
  imports Patch_Parser
begin

section \<open>The patch grammar and the parser agree\<close>

text \<open>
  The documented grammar of a patch as a printer (\<open>render_patch\<close>), the well-formedness of
  the hunks it can print, and the facts about the parser: printing and parsing is the
  identity, the three modes agree on complete patches, a heredoc wrapper is transparent,
  and whatever is parsed is well formed.
\<close>

subsection \<open>Printing hunks\<close>

definition content_lines :: "ustr \<Rightarrow> ustr list" where
  "content_lines c = butlast (split_on nl c)"

definition render_chunk :: "update_file_chunk \<Rightarrow> ustr list" where
  "render_chunk c =
    (case change_context c of None \<Rightarrow> EMPTY_CHANGE_CONTEXT_MARKER | Some x \<Rightarrow> CHANGE_CONTEXT_MARKER @ x)
    # map ((#) c_minus) (old_lines c) @ map ((#) c_plus) (new_lines c)
    @ (if is_end_of_file c then [EOF_MARKER] else [])"

fun render_hunk :: "hunk \<Rightarrow> ustr list" where
  "render_hunk (AddFile p c) = (ADD_FILE_MARKER @ p) # map ((#) c_plus) (content_lines c)"
| "render_hunk (DeleteFile p) = [DELETE_FILE_MARKER @ p]"
| "render_hunk (UpdateFile p m cs) = (UPDATE_FILE_MARKER @ p)
     # (case m of None \<Rightarrow> [] | Some q \<Rightarrow> [MOVE_TO_MARKER @ q]) @ concat (map render_chunk cs)"

definition render_patch :: "hunk list \<Rightarrow> ustr" where
  "render_patch hs = join_with [nl]
     (BEGIN_PATCH_MARKER # concat (map render_hunk hs) @ [END_PATCH_MARKER])"

subsection \<open>Well-formed hunks\<close>

definition line_ok :: "ustr \<Rightarrow> bool" where
  "line_ok l \<longleftrightarrow> nl \<notin> set l \<and> cr \<notin> set l"

definition path_ok :: "ustr \<Rightarrow> bool" where
  "path_ok p \<longleftrightarrow> p \<noteq> [] \<and> \<not> is_whitespace (last p)"

definition chunk_nonempty :: "update_file_chunk \<Rightarrow> bool" where
  "chunk_nonempty c \<longleftrightarrow> old_lines c \<noteq> [] \<or> new_lines c \<noteq> []"

definition chunk_ok :: "update_file_chunk \<Rightarrow> bool" where
  "chunk_ok c \<longleftrightarrow> chunk_nonempty c \<and> list_all line_ok (old_lines c) \<and> list_all line_ok (new_lines c)
     \<and> (case change_context c of None \<Rightarrow> True | Some x \<Rightarrow> line_ok x)"

text \<open>\<open>hunk_wf\<close> is what the parser guarantees; \<open>hunk_ok\<close> is what the printer can print.\<close>

fun hunk_wf :: "hunk \<Rightarrow> bool" where
  "hunk_wf (AddFile p c) \<longleftrightarrow> path_ok p \<and> (c = [] \<or> last c = nl)"
| "hunk_wf (DeleteFile p) \<longleftrightarrow> path_ok p"
| "hunk_wf (UpdateFile p m cs) \<longleftrightarrow> path_ok p \<and> cs \<noteq> [] \<and> list_all chunk_nonempty cs"

fun hunk_ok :: "hunk \<Rightarrow> bool" where
  "hunk_ok (AddFile p c) \<longleftrightarrow> path_ok p \<and> line_ok p \<and> (c = [] \<or> last c = nl) \<and> cr \<notin> set c"
| "hunk_ok (DeleteFile p) \<longleftrightarrow> path_ok p \<and> line_ok p"
| "hunk_ok (UpdateFile p m cs) \<longleftrightarrow> path_ok p \<and> line_ok p \<and> (case m of None \<Rightarrow> True | Some q \<Rightarrow> line_ok q)
     \<and> cs \<noteq> [] \<and> list_all chunk_ok cs"

subsection \<open>Parsing what was printed\<close>

text \<open>Lines at which a chunk, or a whole hunk, ends.\<close>

definition ends_chunk :: "ustr list \<Rightarrow> bool" where
  "ends_chunk ls \<longleftrightarrow> ls = [] \<or>
     (hd ls \<noteq> EOF_MARKER \<and> hd ls \<noteq> [] \<and> hd (hd ls) \<in> {c_star, c_at})"

definition ends_hunk :: "ustr list \<Rightarrow> bool" where
  "ends_hunk ls \<longleftrightarrow> ls = [] \<or> (hd ls \<noteq> EOF_MARKER \<and> hd ls \<noteq> [] \<and> hd (hd ls) = c_star)"

lemma ends_hunk_chunk: "ends_hunk ls \<Longrightarrow> ends_chunk ls"
  by (auto simp: ends_hunk_def ends_chunk_def)

lemma trim_nonblank: "l \<noteq> [] \<Longrightarrow> \<not> is_whitespace (hd l) \<Longrightarrow> trim l \<noteq> []"
proof -
  assume l: "l \<noteq> []" "\<not> is_whitespace (hd l)"
  then have "trim l = trim_end l" by (simp add: trim_def trim_start_def trim_start_matches_id)
  moreover have "trim_end_matches is_whitespace l \<noteq> []"
    using l by (auto simp: trim_end_matches_def dropWhile_eq_Nil_conv)
  ultimately show ?thesis by (simp add: trim_end_def)
qed

lemma chunk_lines_removed:
  "chunk_lines ln c p (map ((#) c_minus) os @ ls)
    = chunk_lines ln (c\<lparr>old_lines := old_lines c @ os\<rparr>) (p + length os) ls"
  by (induction os arbitrary: c p) (simp_all add: EOF_MARKER_def lit_def push_removed_def)

lemma chunk_lines_added:
  "chunk_lines ln c p (map ((#) c_plus) ns @ ls)
    = chunk_lines ln (c\<lparr>new_lines := new_lines c @ ns\<rparr>) (p + length ns) ls"
  by (induction ns arbitrary: c p) (simp_all add: EOF_MARKER_def lit_def push_added_def)

lemma chunk_lines_stop: "0 < p \<Longrightarrow> ends_chunk ls \<Longrightarrow> chunk_lines ln c p ls = Inr (c, p)"
  by (cases ls) (auto simp: ends_chunk_def split: list.splits)

lemma parse_rendered_chunk:
  assumes "chunk_ok c" and "ends_chunk ls"
  shows "parse_update_file_chunk (render_chunk c @ ls) ln amc = Inr (c, length (render_chunk c))"
proof -
  let ?c0 = "\<lparr>change_context = change_context c, old_lines = [], new_lines = [], is_end_of_file = False\<rparr>"
  let ?body = "map ((#) c_minus) (old_lines c) @ map ((#) c_plus) (new_lines c)
    @ (if is_end_of_file c then [EOF_MARKER] else []) @ ls"
  let ?n = "length (old_lines c) + length (new_lines c)"
  have pos: "0 < ?n" using assms(1) by (auto simp: chunk_ok_def chunk_nonempty_def)
  then have "chunk_lines ln ?c0 0 ?body = Inr (c, ?n + (if is_end_of_file c then 1 else 0))"
    using assms(2) by (cases c) (auto simp: chunk_lines_removed chunk_lines_added chunk_lines_stop)
  moreover have "0 < length ?body" using pos by auto
  ultimately show ?thesis
    using pos
    by (cases "change_context c")
       (simp_all add: parse_update_file_chunk_def render_chunk_def marker_defs lit_def)
qed

lemma render_chunk_hd: "\<exists>r. render_chunk c = (c_at # c_at # r) # tl (render_chunk c)"
  by (auto simp: render_chunk_def CHANGE_CONTEXT_MARKER_def EMPTY_CHANGE_CONTEXT_MARKER_def lit_def
      split: option.split)

lemma render_chunks_end: "ends_hunk ls \<Longrightarrow> ends_chunk (concat (map render_chunk cs) @ ls)"
proof (cases cs)
  case (Cons c cs')
  obtain r where "render_chunk c = (c_at # c_at # r) # tl (render_chunk c)"
    using render_chunk_hd by blast
  then show ?thesis
    by (cases "render_chunk c") (auto simp: Cons ends_chunk_def EOF_MARKER_def lit_def)
qed (simp add: ends_hunk_chunk)

lemma update_chunks_rendered:
  assumes "list_all chunk_ok ds" and "ends_hunk ls"
  shows "update_chunks ln inc cs p (concat (map render_chunk ds) @ ls)
    = Inr (cs @ ds, p + length (concat (map render_chunk ds)))"
  using assms(1)
proof (induction ds arbitrary: cs p)
  case Nil
  then show ?case
    using assms(2) trim_nonblank [of "hd ls"]
    by (cases ls) (auto simp: ends_hunk_def update_chunks.simps(2) is_whitespace_def lit_def neq_Nil_conv)
next
  case (Cons d ds)
  let ?tail = "concat (map render_chunk ds) @ ls"
  obtain r where r: "render_chunk d = (c_at # c_at # r) # tl (render_chunk d)"
    using render_chunk_hd by blast
  define line where "line = c_at # c_at # r"
  have line: "trim line \<noteq> []" "\<not> starts_with (lit ''*'') line" "line \<noteq> lit ''@''"
    using trim_nonblank [of line] by (auto simp: line_def lit_def is_whitespace_def)
  have split: "render_chunk d @ ?tail = line # tl (render_chunk d) @ ?tail"
    using r by (simp add: line_def)
  have "parse_update_file_chunk (render_chunk d @ ?tail) (ln + p) (cs = []) = Inr (d, length (render_chunk d))"
    using Cons.prems assms(2) by (simp add: parse_rendered_chunk render_chunks_end)
  then have "update_chunks ln inc cs p (render_chunk d @ ?tail)
      = update_chunks ln inc (cs @ [d]) (p + length (render_chunk d)) ?tail"
    unfolding split using line
    by (simp add: update_chunks.simps(2)) (metis append_eq_conv_conj split)
  with Cons show ?case by simp
qed

lemma add_lines_rendered:
  assumes "ends_hunk ls"
  shows "add_lines (map ((#) c_plus) xs @ ls) = (concat (map (\<lambda>l. l @ [nl]) xs), length xs)"
proof (induction xs)
  case Nil
  then show ?case using assms by (cases ls; cases "hd ls") (auto simp: ends_hunk_def lit_def)
qed (simp add: lit_def)

lemma unlines_content_lines:
  assumes "c = [] \<or> last c = nl"
  shows "concat (map (\<lambda>l. l @ [nl]) (content_lines c)) = c"
proof (cases "c = []")
  case False
  with assms obtain d where c: "c = d @ [nl]" by (cases c rule: rev_cases) auto
  have "split_on nl (d @ [nl]) = split_on nl d @ [[]]" for d :: ustr
  proof (induction d)
    case (Cons x xs)
    then show ?case by (cases "split_on nl xs") auto
  qed simp
  moreover have "concat (map (\<lambda>l. l @ [nl]) ys) = join_with [nl] ys @ [nl]" if "ys \<noteq> []" for ys :: "ustr list"
    using that by (induction "[nl]" ys rule: join_with.induct) auto
  ultimately show ?thesis by (simp add: content_lines_def c)
qed (simp add: content_lines_def)

lemma trim_header:
  assumes "path_ok p" and "m \<noteq> []" and "\<not> is_whitespace (hd m)"
  shows "trim (m @ p) = m @ p"
  using assms by (intro trim_id) (auto simp: path_ok_def)

lemma trim_markers:
  assumes "path_ok p"
  shows "trim (ADD_FILE_MARKER @ p) = ADD_FILE_MARKER @ p"
    and "trim (DELETE_FILE_MARKER @ p) = DELETE_FILE_MARKER @ p"
    and "trim (UPDATE_FILE_MARKER @ p) = UPDATE_FILE_MARKER @ p"
  by (rule trim_header [OF assms]; simp add: marker_defs lit_def is_whitespace_def)+

lemma parse_rendered_hunk:
  assumes "hunk_ok h" and "ends_hunk ls" and "render_hunk h = line # rest"
  shows "parse_one_hunk line (rest @ ls) ln inc = Inr (h, length (render_hunk h))"
proof (cases h)
  case (AddFile p c)
  then have "trim line = ADD_FILE_MARKER @ p"
    using assms by (auto simp: trim_markers)
  then show ?thesis
    using assms AddFile by (auto simp: parse_one_hunk_def add_lines_rendered unlines_content_lines)
next
  case (DeleteFile p)
  then have "trim line = DELETE_FILE_MARKER @ p"
    using assms by (auto simp: trim_markers)
  then show ?thesis
    using assms DeleteFile by (auto simp: parse_one_hunk_def marker_defs lit_def)
next
  case (UpdateFile p m cs)
  then have t: "trim line = UPDATE_FILE_MARKER @ p"
    using assms by (auto simp: trim_markers)
  have none: "strip_prefix ADD_FILE_MARKER (UPDATE_FILE_MARKER @ p) = None"
    "strip_prefix DELETE_FILE_MARKER (UPDATE_FILE_MARKER @ p) = None"
    by (simp_all add: marker_defs lit_def)
  have cs: "list_all chunk_ok cs" "cs \<noteq> []" using assms UpdateFile by simp_all
  show ?thesis
  proof (cases m)
    case (Some q)
    then show ?thesis
      using assms(3) UpdateFile t none cs update_chunks_rendered [OF cs(1) assms(2), of ln inc "[]" "Suc (Suc 0)"]
      by (auto simp: parse_one_hunk_def)
  next
    case None
    obtain d ds where ds: "cs = d # ds" using cs(2) by (cases cs) auto
    obtain r where r: "render_chunk d = (c_at # c_at # r) # tl (render_chunk d)"
      using render_chunk_hd by blast
    then have "strip_prefix MOVE_TO_MARKER (hd (render_chunk d)) = None"
      by (cases "render_chunk d") (auto simp: MOVE_TO_MARKER_def lit_def)
    then have mv: "(case rest @ ls of [] \<Rightarrow> None | l # x \<Rightarrow> strip_prefix MOVE_TO_MARKER l) = None"
      using assms(3) UpdateFile None ds r by (cases "render_chunk d") auto
    show ?thesis
      using assms(3) UpdateFile None t none cs mv update_chunks_rendered [OF cs(1) assms(2), of ln inc "[]" "Suc 0"]
      by (auto simp: parse_one_hunk_def)
  qed
qed


lemma render_hunk_Cons: "\<exists>x r. render_hunk h = x # r"
  by (cases h) auto

lemma render_hunk_ends: "ends_hunk (render_hunk h @ ls)"
  by (cases h) (auto simp: ends_hunk_def marker_defs lit_def)

lemma parse_rendered_hunks:
  "list_all hunk_ok hs \<Longrightarrow> parse_hunks inc ln (concat (map render_hunk hs)) = Inr hs"
proof (induction hs arbitrary: ln)
  case (Cons h hs)
  obtain x r where xr: "render_hunk h = x # r" using render_hunk_Cons by blast
  let ?tail = "concat (map render_hunk hs)"
  have "ends_hunk ?tail"
    by (cases hs) (simp_all add: render_hunk_ends, simp add: ends_hunk_def)
  then have "parse_one_hunk x (r @ ?tail) ln inc = Inr (h, length (render_hunk h))"
    using Cons.prems xr by (intro parse_rendered_hunk) simp_all
  moreover have "drop (length (render_hunk h)) (x # r @ ?tail) = ?tail" by (simp add: xr)
  ultimately show ?case
    using Cons xr by (simp add: parse_hunks.simps(2))
qed simp

lemma content_lines_ok: "cr \<notin> set c \<Longrightarrow> l \<in> set (content_lines c) \<Longrightarrow> line_ok l"
proof -
  assume c: "cr \<notin> set c" and "l \<in> set (content_lines c)"
  then have l: "l \<in> set (split_on nl c)" by (auto simp: content_lines_def dest: in_set_butlastD)
  have "set l \<subseteq> set c"
    using l
  proof (induction c arbitrary: l)
    case (Cons x xs)
    then show ?case by (cases "split_on nl xs") (fastforce split: if_splits)+
  qed simp
  with c split_on_sep_free [OF l] show ?thesis by (auto simp: line_ok_def)
qed

lemma line_ok_simps [simp]:
  "line_ok []" "line_ok (x # l) \<longleftrightarrow> x \<noteq> nl \<and> x \<noteq> cr \<and> line_ok l" "line_ok (l @ l') \<longleftrightarrow> line_ok l \<and> line_ok l'"
  by (auto simp: line_ok_def)

lemma markers_ok [simp]:
  "line_ok BEGIN_PATCH_MARKER" "line_ok END_PATCH_MARKER" "line_ok ADD_FILE_MARKER"
  "line_ok DELETE_FILE_MARKER" "line_ok UPDATE_FILE_MARKER" "line_ok MOVE_TO_MARKER" "line_ok EOF_MARKER"
  "line_ok CHANGE_CONTEXT_MARKER" "line_ok EMPTY_CHANGE_CONTEXT_MARKER"
  by (simp_all add: marker_defs lit_def)

lemma render_chunk_ok: "chunk_ok c \<Longrightarrow> list_all line_ok (render_chunk c)"
  by (auto simp: render_chunk_def chunk_ok_def list_all_iff split: option.splits)

lemma render_hunk_ok: "hunk_ok h \<Longrightarrow> list_all line_ok (render_hunk h)"
proof (cases h)
  case (UpdateFile p m cs)
  moreover assume "hunk_ok h"
  ultimately show ?thesis
    using render_chunk_ok by (fastforce simp: list_all_iff split: option.splits)
qed (auto simp: list_all_iff dest: content_lines_ok)

lemma trim_marked:
  assumes "s = BEGIN_PATCH_MARKER @ r" and "s = q @ END_PATCH_MARKER"
  shows "trim s = s"
proof (rule trim_id)
  show "s = [] \<or> \<not> is_whitespace (hd s)"
    using assms(1) by (simp add: BEGIN_PATCH_MARKER_def lit_def is_whitespace_def)
  show "s = [] \<or> \<not> is_whitespace (last s)"
    using assms(2) by (simp add: END_PATCH_MARKER_def lit_def is_whitespace_def)
qed

lemma marker_facts:
  "trim BEGIN_PATCH_MARKER = BEGIN_PATCH_MARKER" "trim END_PATCH_MARKER = END_PATCH_MARKER"
  "BEGIN_PATCH_MARKER \<noteq> END_PATCH_MARKER" "BEGIN_PATCH_MARKER \<noteq> []" "END_PATCH_MARKER \<noteq> []"
  by (auto intro!: trim_id simp: BEGIN_PATCH_MARKER_def END_PATCH_MARKER_def lit_def is_whitespace_def)

lemma boundaries_marked:
  assumes "ls = BEGIN_PATCH_MARKER # body @ [END_PATCH_MARKER]"
  shows "check_patch_boundaries mode ls = Inr (ls, body)"
  using assms
  by (cases mode)
     (simp_all add: check_patch_boundaries_def check_patch_boundaries_strict_def
        check_patch_boundaries_lenient_def check_patch_boundaries_streaming_def
        check_start_and_end_lines_strict_def marker_facts)

lemma parse_render_patch:
  assumes "list_all hunk_ok hs"
  shows "parse_patch_text (render_patch hs) mode
    = Inr \<lparr>args_patch = render_patch hs, args_hunks = hs, args_workdir = None\<rparr>"
proof -
  let ?body = "concat (map render_hunk hs)"
  let ?ls = "BEGIN_PATCH_MARKER # ?body @ [END_PATCH_MARKER]"
  have ok: "\<forall>l\<in>set ?ls. line_ok l"
    using assms render_hunk_ok by (auto simp: list_all_iff)
  have "render_patch hs = BEGIN_PATCH_MARKER @ [nl] @ join_with [nl] (?body @ [END_PATCH_MARKER])"
    by (simp add: render_patch_def join_with_Cons)
  moreover have "render_patch hs = join_with [nl] (BEGIN_PATCH_MARKER # ?body) @ [nl] @ END_PATCH_MARKER"
    using join_with_append [of "BEGIN_PATCH_MARKER # ?body" "[END_PATCH_MARKER]" "[nl]"]
    by (simp add: render_patch_def)
  ultimately have "trim (render_patch hs) = render_patch hs"
    by (metis append.assoc trim_marked)
  moreover have "str_lines (render_patch hs) = ?ls"
    unfolding render_patch_def using ok by (intro str_lines_join) (auto simp: line_ok_def marker_facts)
  ultimately show ?thesis
    using assms
    by (simp add: parse_patch_text_def boundaries_marked [OF refl] parse_rendered_hunks render_patch_def)
qed

subsection \<open>The three modes\<close>

lemma update_chunks_complete:
  "update_chunks ln False cs p ls = Inr r \<Longrightarrow> update_chunks ln True cs p ls = Inr r"
proof (induction ln False cs p ls rule: update_chunks.induct)
  case (2 ln cs p line rest)
  have "line = lit ''@'' \<Longrightarrow> parse_update_file_chunk (line # rest) m b = Inr x \<Longrightarrow> False" for m b x
    by (auto simp: parse_update_file_chunk_def marker_defs lit_def split: if_splits)
  then show ?case
    using "2"
    by (auto simp: update_chunks.simps(2) [of ln _ cs p line rest] split: if_splits sum.splits prod.splits)
qed simp

lemma parse_one_hunk_complete:
  "parse_one_hunk line rest ln False = Inr r \<Longrightarrow> parse_one_hunk line rest ln True = Inr r"
  by (auto simp: parse_one_hunk_def Let_def dest: update_chunks_complete
      split: option.splits sum.splits prod.splits if_splits)

lemma parse_hunks_complete:
  "parse_hunks False ln ls = Inr hs \<Longrightarrow> parse_hunks True ln ls = Inr hs"
proof (induction False ln ls arbitrary: hs rule: parse_hunks.induct)
  case (2 ln line rest)
  from "2.prems" obtain h n hs' where
    h: "parse_one_hunk line rest ln False = Inr (h, n)"
      "parse_hunks False (ln + n) (drop n (line # rest)) = Inr hs'" "hs = h # hs'"
    by (auto simp: parse_hunks.simps(2) [of _ ln line rest] split: sum.splits prod.splits)
  from h(1) have "parse_one_hunk line rest ln True = Inr (h, n)" by (rule parse_one_hunk_complete)
  with "2.hyps" h show ?case by (simp add: parse_hunks.simps(2) [of True ln line rest])
qed simp

lemma strict_boundaries:
  assumes "check_patch_boundaries_strict ls = Inr r"
  shows "\<exists>f b l. ls = f # b @ [l] \<and> trim f = BEGIN_PATCH_MARKER \<and> trim l = END_PATCH_MARKER \<and> r = (ls, b)"
proof (cases ls)
  case (Cons f t)
  have "trim f = BEGIN_PATCH_MARKER" "trim (last ls) = END_PATCH_MARKER" "r = (ls, butlast t)"
    using assms Cons
    by (auto simp: check_patch_boundaries_strict_def check_start_and_end_lines_strict_def split: if_splits)
  moreover from this have "t \<noteq> []" using Cons marker_facts by auto
  ultimately show ?thesis
    using Cons by (metis append_butlast_last_id last_ConsR)
qed (use assms in \<open>simp add: check_patch_boundaries_strict_def check_start_and_end_lines_strict_def\<close>)

lemma parse_modes_agree:
  assumes "parse_patch_text s Strict = Inr a"
  shows "parse_patch_text s mode = Inr a"
proof -
  from assms obtain pl hl hs where
    b: "check_patch_boundaries_strict (str_lines (trim s)) = Inr (pl, hl)"
    and p: "parse_hunks False 2 hl = Inr hs"
    and a: "a = \<lparr>args_patch = join_with [nl] pl, args_hunks = hs, args_workdir = None\<rparr>"
    by (auto simp: parse_patch_text_def check_patch_boundaries_def split: sum.splits prod.splits)
  from strict_boundaries [OF b] have s: "check_patch_boundaries mode (str_lines (trim s)) = Inr (pl, hl)"
    using b
    by (cases mode) (auto simp: check_patch_boundaries_def check_patch_boundaries_lenient_def
        check_patch_boundaries_streaming_def)
  moreover have "parse_hunks (mode = Streaming) 2 hl = Inr hs"
    using p parse_hunks_complete by (cases mode) auto
  ultimately show ?thesis by (simp add: parse_patch_text_def a)
qed


text \<open>
  The heredoc form \<open><<'EOF' .. EOF\<close> that some models send instead of the bare patch.
\<close>

definition heredoc_open :: "ustr set" where
  "heredoc_open = {lit ''<<EOF'', lit ''<<'' @ [c_squote] @ lit ''EOF'' @ [c_squote],
     lit ''<<'' @ [c_dquote] @ lit ''EOF'' @ [c_dquote]}"

definition heredoc_wrap :: "ustr \<Rightarrow> ustr \<Rightarrow> ustr" where
  "heredoc_wrap opener s = opener @ [nl] @ s @ [nl] @ lit ''EOF''"

lemma split_on_append:
  "split_on c (a @ c # b) = split_on c a @ split_on c b"
proof (induction a)
  case (Cons x a)
  then show ?case by (cases "split_on c a") auto
qed simp

lemma last_split_on: "s \<noteq> [] \<Longrightarrow> last s \<noteq> c \<Longrightarrow> last (split_on c s) \<noteq> [] \<and> last (last (split_on c s)) = last s"
proof (induction s)
  case (Cons x s)
  show ?case
  proof (cases "s = []")
    case False
    with Cons have IH: "last (split_on c s) \<noteq> [] \<and> last (last (split_on c s)) = last s" by simp
    with False show ?thesis by (cases "split_on c s") (auto split: if_splits)
  qed (use Cons in simp)
qed simp

lemma str_lines_heredoc:
  assumes o: "nl \<notin> set h" "h = [] \<or> last h \<noteq> cr" and s: "s \<noteq> []" "\<not> is_whitespace (last s)"
    and e: "e \<noteq> []" "nl \<notin> set e"
  shows "str_lines (h @ [nl] @ s @ [nl] @ e) = h # str_lines s @ [e]"
proof -
  have ne: "last s \<noteq> nl" "last s \<noteq> cr" using s by (auto simp: is_whitespace_def)
  note ls = last_split_on [OF s(1) ne(1)]
  have "strip_cr (last (split_on nl s)) = last (split_on nl s)"
    using ls ne(2) by (intro strip_cr_id) simp
  then have "map strip_cr (split_on nl s) = str_lines s"
    using ls map_append [of strip_cr "butlast (split_on nl s)" "[last (split_on nl s)]"]
    by (simp add: str_lines_def Let_def)
  moreover have "split_on nl (h @ [nl] @ s @ [nl] @ e) = h # split_on nl s @ [e]"
    using o e by (simp add: split_on_append_sep split_on_append split_on_no_sep)
  ultimately show ?thesis
    using o e by (simp add: str_lines_def [of "h @ _"] Let_def butlast_append strip_cr_id)
qed

lemma heredoc_open_facts:
  assumes "h \<in> heredoc_open"
  shows "nl \<notin> set h" "h = [] \<or> last h \<noteq> cr" "trim h = h" "h \<noteq> BEGIN_PATCH_MARKER" "h \<noteq> []"
    "\<not> is_whitespace (hd h)"
  using assms
  by (auto simp: heredoc_open_def lit_def BEGIN_PATCH_MARKER_def is_whitespace_def intro!: trim_id)

lemma lenient_heredoc:
  assumes h: "h \<in> heredoc_open" and len: "2 \<le> length ls" and e: "ends_with (lit ''EOF'') e"
  shows "check_patch_boundaries_lenient (h # ls @ [e]) = check_patch_boundaries_strict ls"
proof -
  have fail: "\<exists>er. check_patch_boundaries_strict (h # ls @ [e]) = Inl er"
    using heredoc_open_facts [OF h]
    by (auto simp: check_patch_boundaries_strict_def check_start_and_end_lines_strict_def)
  obtain x y where "ls = x # y" using len by (cases ls) auto
  then show ?thesis
    using fail h len e by (auto simp: check_patch_boundaries_lenient_def heredoc_open_def)
qed

lemma parse_heredoc:
  assumes s: "parse_patch_text s Strict = Inr a" and t: "trim s = s" and h: "h \<in> heredoc_open"
  shows "parse_patch_text (heredoc_wrap h s) Lenient = Inr a"
proof -
  note hf = heredoc_open_facts [OF h]
  from s t obtain pl hl hs where
    b: "check_patch_boundaries_strict (str_lines s) = Inr (pl, hl)"
    and p: "parse_hunks False 2 hl = Inr hs"
    and a: "a = \<lparr>args_patch = join_with [nl] pl, args_hunks = hs, args_workdir = None\<rparr>"
    by (auto simp: parse_patch_text_def check_patch_boundaries_def split: sum.splits prod.splits)
  from strict_boundaries [OF b] have len: "2 \<le> length (str_lines s)" by auto
  then have sne: "s \<noteq> []" by (auto simp: str_lines_def)
  then have "\<not> is_whitespace (last s)"
    using t trim_end_matches_last by (metis trim_def trim_end_def)
  then have lines: "str_lines (heredoc_wrap h s) = h # str_lines s @ [lit ''EOF'']"
    unfolding heredoc_wrap_def using hf sne by (intro str_lines_heredoc) (simp_all add: lit_def)
  have "trim (heredoc_wrap h s) = heredoc_wrap h s"
    using hf by (intro trim_id) (simp_all add: heredoc_wrap_def lit_def is_whitespace_def)
  moreover have "check_patch_boundaries_lenient (h # str_lines s @ [lit ''EOF'']) = Inr (pl, hl)"
    using lenient_heredoc [OF h len, of "lit ''EOF''"] b by (simp add: ends_with_iff)
  ultimately show ?thesis
    by (simp add: parse_patch_text_def lines check_patch_boundaries_def p a)
qed

subsection \<open>Parsed hunks are well formed\<close>

lemma chunk_lines_nonempty:
  "chunk_lines ln c p ls = Inr (c', p') \<Longrightarrow> (0 < p \<Longrightarrow> chunk_nonempty c) \<Longrightarrow> 0 < p' \<Longrightarrow> chunk_nonempty c'"
proof (induction ln c p ls rule: chunk_lines.induct)
  case (2 ln c p line rest)
  have push: "chunk_nonempty (push_context l c)" "chunk_nonempty (push_added l c)"
    "chunk_nonempty (push_removed l c)" for l
    by (simp_all add: chunk_nonempty_def push_context_def push_added_def push_removed_def)
  show ?case
    using "2" push by (fastforce simp: chunk_nonempty_def split: if_splits list.splits)
qed simp

lemma parse_update_file_chunk_nonempty:
  assumes "parse_update_file_chunk ls ln amc = Inr (c, n)"
  shows "chunk_nonempty c"
proof -
  from assms have "\<exists>ls' ctx p. ls' \<noteq> [] \<and> chunk_lines ln
      \<lparr>change_context = ctx, old_lines = [], new_lines = [], is_end_of_file = False\<rparr> 0 ls' = Inr (c, p)"
    by (auto simp: parse_update_file_chunk_def not_le simp del: chunk_lines.simps
        split: list.splits sum.splits prod.splits if_splits option.splits)
  then obtain ls' ctx p where l: "ls' \<noteq> []" "chunk_lines ln
      \<lparr>change_context = ctx, old_lines = [], new_lines = [], is_end_of_file = False\<rparr> 0 ls' = Inr (c, p)"
    by blast
  moreover from l have "0 < p" using chunk_lines_consumed by blast
  ultimately show ?thesis using chunk_lines_nonempty by blast
qed

lemma update_chunks_nonempty:
  "update_chunks ln inc cs p ls = Inr (cs', p') \<Longrightarrow> list_all chunk_nonempty cs \<Longrightarrow> list_all chunk_nonempty cs'"
proof (induction ln inc cs p ls rule: update_chunks.induct)
  case (2 ln inc cs p line rest)
  then show ?case
    by (auto simp: update_chunks.simps(2) [of ln inc cs p line rest] dest: parse_update_file_chunk_nonempty
        split: if_splits sum.splits prod.splits)
qed simp

lemma add_lines_contents: "add_lines ls = (c, n) \<Longrightarrow> c = [] \<or> last c = nl"
proof (induction ls arbitrary: c n)
  case (Cons l ls)
  then show ?case by (cases "add_lines ls") (auto split: option.splits if_splits)
qed simp

lemma header_path_ok:
  assumes "strip_prefix m (trim line) = Some path" and "m \<noteq> []" and "is_whitespace (last m)"
  shows "path_ok path"
proof -
  have t: "trim line = m @ path" using assms(1) by (simp add: strip_prefix_Some_iff)
  have "trim line = [] \<or> \<not> is_whitespace (last (trim line))"
    unfolding trim_def trim_end_def by (rule trim_end_matches_last)
  with t assms(2,3) show ?thesis by (cases path rule: rev_cases) (auto simp: path_ok_def)
qed

lemma header_markers_space:
  "ADD_FILE_MARKER \<noteq> [] \<and> is_whitespace (last ADD_FILE_MARKER)"
  "DELETE_FILE_MARKER \<noteq> [] \<and> is_whitespace (last DELETE_FILE_MARKER)"
  "UPDATE_FILE_MARKER \<noteq> [] \<and> is_whitespace (last UPDATE_FILE_MARKER)"
  by (simp_all add: marker_defs lit_def is_whitespace_def)

lemmas header_paths_ok =
  header_path_ok [OF _ header_markers_space(1) [THEN conjunct1] header_markers_space(1) [THEN conjunct2]]
  header_path_ok [OF _ header_markers_space(2) [THEN conjunct1] header_markers_space(2) [THEN conjunct2]]
  header_path_ok [OF _ header_markers_space(3) [THEN conjunct1] header_markers_space(3) [THEN conjunct2]]

lemma update_chunks_all_nonempty:
  "update_chunks ln inc [] p ls = Inr (cs, n) \<Longrightarrow> list_all chunk_nonempty cs"
  using update_chunks_nonempty [of ln inc "[]" p ls cs n] by simp

lemma parse_one_hunk_wf:
  assumes "parse_one_hunk line rest ln inc = Inr (h, n)"
  shows "hunk_wf h"
  using assms
  by (auto simp: parse_one_hunk_def Let_def
      dest: header_paths_ok add_lines_contents update_chunks_all_nonempty
      split: option.splits prod.splits sum.splits if_splits)

lemma parse_hunks_wf: "parse_hunks inc ln ls = Inr hs \<Longrightarrow> list_all hunk_wf hs"
proof (induction inc ln ls arbitrary: hs rule: parse_hunks.induct)
  case (2 inc ln line rest)
  then show ?case
    by (auto simp: parse_hunks.simps(2) [of inc ln line rest] dest: parse_one_hunk_wf
        split: sum.splits prod.splits)
qed simp

end
