(* ===== verification/Paths.thy ===== *)
theory Paths
  imports Prelude
begin

section \<open>Absolute paths (utils/absolute-path, Unix)\<close>

text \<open>
  A \<open>PathBuf\<close> compares by its components, so the model keeps the list of components that
  \<open>Path::components\<close> yields: the root directory, \<open>..\<close> and normal names, with a \<open>.\<close>
  only in front of a relative path. \<open>normalize_path\<close> is the loop of \<open>absolutize.rs\<close> over
  the components; \<open>resolve_path_against_base\<close> adds the home directory expansion of
  \<open>AbsolutePathBuf\<close>. The home directory (crate \<open>dirs\<close>) is a parameter.
\<close>

datatype component = RootDir | CurDir | ParentDir | Normal ustr

type_synonym path_buf = "component list"

subsection \<open>The part of \<open>std::path\<close> the code uses\<close>

fun component_of :: "ustr \<Rightarrow> component option" where
  "component_of p = (if p = [] \<or> p = lit ''.'' then None
     else if p = lit ''..'' then Some ParentDir else Some (Normal p))"

declare component_of.simps [simp del]

definition path_of :: "ustr \<Rightarrow> path_buf" where
  "path_of s =
    (let ps = split_on c_slash s;
         front = (if starts_with (lit ''/'') s then [RootDir]
                  else if hd ps = lit ''.'' then [CurDir] else [])
     in front @ List.map_filter component_of ps)"

fun is_absolute :: "path_buf \<Rightarrow> bool" where
  "is_absolute (RootDir # _) = True"
| "is_absolute _ = False"

text \<open>\<open>Path::join\<close>: an absolute argument replaces the base; a leading \<open>.\<close> disappears.\<close>

fun path_join :: "path_buf \<Rightarrow> path_buf \<Rightarrow> path_buf" where
  "path_join base (RootDir # p) = RootDir # p"
| "path_join [] p = p"
| "path_join base (CurDir # p) = base @ p"
| "path_join base p = base @ p"

fun path_parent :: "path_buf \<Rightarrow> path_buf option" where
  "path_parent [] = None"
| "path_parent p = (if last p = RootDir then None else Some (butlast p))"

definition path_pop :: "path_buf \<Rightarrow> path_buf" where
  "path_pop p = (case path_parent p of Some q \<Rightarrow> q | None \<Rightarrow> p)"

definition path_push :: "path_buf \<Rightarrow> component \<Rightarrow> path_buf" where
  "path_push p c = path_join p [c]"

definition file_name :: "path_buf \<Rightarrow> ustr option" where
  "file_name p = (if p = [] then None else case last p of Normal n \<Rightarrow> Some n | _ \<Rightarrow> None)"

text \<open>\<open>Path::file_stem\<close>: the file name up to its last dot, unless the dot comes first.\<close>

definition stem_of :: "ustr \<Rightarrow> ustr" where
  "stem_of n =
    (let ps = split_on 46 n in
     if length ps = 1 then n
     else let stem = join_with (lit ''.'') (butlast ps) in if stem = [] then n else stem)"

text \<open>\<open>Path::extension\<close> of a file name: what follows its last dot, unless the dot comes first.\<close>

definition extension_of :: "ustr \<Rightarrow> ustr option" where
  "extension_of n =
    (let ps = split_on 46 n in
     if length ps = 1 \<or> join_with (lit ''.'') (butlast ps) = [] then None else Some (last ps))"

definition path_starts_with :: "path_buf \<Rightarrow> path_buf \<Rightarrow> bool" where
  "path_starts_with p base \<longleftrightarrow> starts_with base p"

fun component_str :: "component \<Rightarrow> ustr" where
  "component_str RootDir = lit ''/''"
| "component_str CurDir = lit ''.''"
| "component_str ParentDir = lit ''..''"
| "component_str (Normal n) = n"

definition path_display :: "path_buf \<Rightarrow> ustr" where
  "path_display p = (case p of
     RootDir # q \<Rightarrow> lit ''/'' @ join_with (lit ''/'') (map component_str q)
   | _ \<Rightarrow> join_with (lit ''/'') (map component_str p))"

subsection \<open>absolutize.rs\<close>

fun normalize_components :: "path_buf \<Rightarrow> path_buf \<Rightarrow> path_buf" where
  "normalize_components normalized [] = normalized"
| "normalize_components normalized (CurDir # cs) = normalize_components normalized cs"
| "normalize_components normalized (ParentDir # cs) = normalize_components (path_pop normalized) cs"
| "normalize_components normalized (c # cs) = normalize_components (path_push normalized c) cs"

definition normalize_path :: "path_buf \<Rightarrow> path_buf" where
  "normalize_path p =
    (let normalized = normalize_components [] p in if normalized = [] then [CurDir] else normalized)"

definition path_with_base :: "path_buf \<Rightarrow> path_buf \<Rightarrow> path_buf" where
  "path_with_base p base = (if is_absolute p then p else path_join base p)"

definition absolutize_from :: "path_buf \<Rightarrow> path_buf \<Rightarrow> path_buf" where
  "absolutize_from p base = normalize_path (path_with_base p base)"

subsection \<open>AbsolutePathBuf\<close>

definition maybe_expand_home_directory :: "path_buf option \<Rightarrow> ustr \<Rightarrow> path_buf" where
  "maybe_expand_home_directory home s =
    (case home of None \<Rightarrow> path_of s
     | Some h \<Rightarrow>
       (case strip_prefix (lit ''~'') s of None \<Rightarrow> path_of s
        | Some rest \<Rightarrow>
          if rest = [] then h
          else (case strip_prefix (lit ''/'') rest of
                  Some rest' \<Rightarrow> path_join h (path_of (trim_start_matches (\<lambda>c. c = c_slash) rest'))
                | None \<Rightarrow> path_of s)))"

definition resolve_path_against_base :: "path_buf option \<Rightarrow> ustr \<Rightarrow> path_buf \<Rightarrow> path_buf" where
  "resolve_path_against_base home s base = absolutize_from (maybe_expand_home_directory home s) base"

text \<open>
  \<open>AbsolutePathBuf::from_absolute_path\<close> and \<open>from_absolute_path_checked\<close>; the current directory
  of the process is a parameter that may be unavailable.
\<close>

definition absolutize :: "path_buf option \<Rightarrow> path_buf \<Rightarrow> path_buf option" where
  "absolutize current_dir p =
    (if is_absolute p then Some (normalize_path p)
     else map_option (absolutize_from p) current_dir)"

definition from_absolute_path :: "path_buf option \<Rightarrow> path_buf option \<Rightarrow> ustr \<Rightarrow> path_buf option" where
  "from_absolute_path home current_dir s = absolutize current_dir (maybe_expand_home_directory home s)"

definition from_absolute_path_checked :: "path_buf option \<Rightarrow> ustr \<Rightarrow> path_buf option" where
  "from_absolute_path_checked home s =
    (let expanded = maybe_expand_home_directory home s
     in if \<not> is_absolute expanded then None else Some (absolutize_from expanded [RootDir]))"

text \<open>What the type \<open>AbsolutePathBuf\<close> promises: a root followed by normal components only.\<close>

definition is_normal :: "component \<Rightarrow> bool" where
  "is_normal c \<longleftrightarrow> (case c of Normal _ \<Rightarrow> True | _ \<Rightarrow> False)"

lemma is_normal_simps [simp]:
  "is_normal (Normal n)" "\<not> is_normal RootDir" "\<not> is_normal CurDir" "\<not> is_normal ParentDir"
  by (simp_all add: is_normal_def)

definition abs_normal :: "path_buf \<Rightarrow> bool" where
  "abs_normal p \<longleftrightarrow> (\<exists>cs. p = RootDir # cs \<and> list_all is_normal cs)"

lemma abs_normal_pop: "abs_normal p \<Longrightarrow> abs_normal (path_pop p)"
proof -
  assume "abs_normal p"
  then obtain cs where p: "p = RootDir # cs" "list_all is_normal cs" by (auto simp: abs_normal_def)
  show ?thesis
  proof (cases cs rule: rev_cases)
    case Nil
    with p show ?thesis by (simp add: path_pop_def abs_normal_def)
  next
    case (snoc ds d)
    with p have "is_normal d" "list_all is_normal ds" by simp_all
    with p snoc show ?thesis by (auto simp: path_pop_def abs_normal_def is_normal_def)
  qed
qed

lemma abs_normal_push: "abs_normal p \<Longrightarrow> abs_normal (path_push p (Normal n))"
  by (auto simp: abs_normal_def path_push_def)

lemma normalize_components_abs:
  "abs_normal acc \<Longrightarrow> RootDir \<notin> set cs \<Longrightarrow> abs_normal (normalize_components acc cs)"
  by (induction acc cs rule: normalize_components.induct) (auto intro: abs_normal_pop abs_normal_push)

lemma normalize_components_normal:
  "\<lbrakk>acc \<noteq> []; list_all is_normal cs\<rbrakk> \<Longrightarrow> normalize_components acc cs = acc @ cs"
proof (induction cs arbitrary: acc)
  case (Cons c cs)
  then obtain n where "c = Normal n" by (cases c) auto
  moreover from Cons.prems(1) have "path_join acc [Normal n] = acc @ [Normal n]" by (cases acc) auto
  ultimately show ?case using Cons by (simp add: path_push_def)
qed simp

lemma component_of_not_root: "component_of p \<noteq> Some RootDir"
  by (simp add: component_of.simps)

lemma map_filter_component_not_root: "RootDir \<notin> set (List.map_filter component_of ps)"
  by (auto simp: List.map_filter_def component_of_not_root)

lemma path_of_root_once: "path_of s = c # cs \<Longrightarrow> RootDir \<notin> set cs"
  using map_filter_component_not_root [of "split_on c_slash s"]
  by (auto simp: path_of_def Let_def split: if_splits)

definition root_once :: "path_buf \<Rightarrow> bool" where
  "root_once p \<longleftrightarrow> RootDir \<notin> set (tl p)"

lemma path_of_root_once': "root_once (path_of s)"
  by (cases "path_of s") (auto simp: root_once_def dest: path_of_root_once)

lemma normalize_path_abs:
  assumes "is_absolute p" and "root_once p"
  shows "abs_normal (normalize_path p)"
proof -
  from assms(1) obtain cs where p: "p = RootDir # cs" by (cases p rule: is_absolute.cases) auto
  with assms(2) have "RootDir \<notin> set cs" by (simp add: root_once_def)
  then have "abs_normal (normalize_components [RootDir] cs)"
    by (intro normalize_components_abs) (simp_all add: abs_normal_def)
  moreover have "normalize_components [] p = normalize_components [RootDir] cs"
    by (simp add: p path_push_def)
  ultimately show ?thesis by (auto simp: normalize_path_def Let_def abs_normal_def)
qed

lemma is_normal_not_root: "list_all is_normal cs \<Longrightarrow> RootDir \<notin> set cs"
  by (induction cs) (auto simp: is_normal_def)

lemma abs_normal_root_once: "abs_normal p \<Longrightarrow> root_once p \<and> is_absolute p"
  by (auto simp: abs_normal_def root_once_def dest: is_normal_not_root)

lemma path_join_abs:
  assumes "abs_normal b" and "root_once p"
  shows "root_once (path_join b p) \<and> is_absolute (path_join b p)"
proof -
  from assms(1) obtain cs where b: "b = RootDir # cs" "RootDir \<notin> set cs"
    by (auto simp: abs_normal_def dest: is_normal_not_root)
  show ?thesis
    using assms(2) b by (cases p; cases "hd p") (auto simp: root_once_def)
qed

lemma absolutize_from_abs:
  "\<lbrakk>abs_normal base; root_once p\<rbrakk> \<Longrightarrow> abs_normal (absolutize_from p base)"
  unfolding absolutize_from_def path_with_base_def
  by (auto intro!: normalize_path_abs dest: path_join_abs)

lemma normalize_path_id: "abs_normal p \<Longrightarrow> normalize_path p = p"
  by (auto simp: abs_normal_def normalize_path_def path_push_def normalize_components_normal)

lemma expand_home_root_once:
  assumes "\<And>h. home = Some h \<Longrightarrow> abs_normal h"
  shows "root_once (maybe_expand_home_directory home s)"
  using assms path_of_root_once' abs_normal_root_once path_join_abs
  by (auto simp: maybe_expand_home_directory_def split: option.splits)

lemma from_absolute_path_abs:
  assumes "\<And>h. home = Some h \<Longrightarrow> abs_normal h" and "\<And>d. current_dir = Some d \<Longrightarrow> abs_normal d"
    and "from_absolute_path home current_dir s = Some p"
  shows "abs_normal p"
  using assms expand_home_root_once [of home s]
  by (auto simp: from_absolute_path_def absolutize_def intro: normalize_path_abs absolutize_from_abs
      split: if_splits)

end
