(* ===== verification/Patch_Apply.thy ===== *)
theory Patch_Apply
  imports Patch_Replace Patch_Grammar Paths
begin

section \<open>Applying patches to a file system (apply-patch/src/lib.rs)\<close>

text \<open>
  The trait \<open>ExecutorFileSystem\<close> is the record \<open>executor_fs\<close> of its operations over a
  state \<open>'s\<close> (at a fixed sandbox argument); the operating system behind it is a parameter.
  \<open>apply_hunks_to_files\<close> is the loop over the hunks, every \<open>?\<close> of the source a branch
  that keeps the state reached so far. Writers (\<open>stdout\<close>, \<open>stderr\<close>) are state
  transformers that may fail. Behaviour of the file system that a theorem needs is the
  named hypothesis \<open>fs_local linked\<close> (a write or a removal at one path changes the text only at
  paths linked to it, hard and symbolic links included) or \<open>fs_durable\<close> (a write is read back,
  a removed file is gone).
\<close>

subsection \<open>Interfaces and errors\<close>

datatype io_kind = NotFound | InvalidInput | InvalidData | OtherKind

record io_error =
  io_kind :: io_kind
  io_msg :: ustr

record file_metadata =
  is_directory :: bool
  is_file :: bool
  is_symlink :: bool
  created_at_ms :: int
  modified_at_ms :: int

record 's executor_fs =
  fs_read_file_text :: "path_buf \<Rightarrow> 's \<Rightarrow> io_error + ustr"
  fs_write_file :: "path_buf \<Rightarrow> ustr \<Rightarrow> 's \<Rightarrow> (io_error + unit) \<times> 's"
  fs_create_directory :: "path_buf \<Rightarrow> 's \<Rightarrow> (io_error + unit) \<times> 's"
  fs_get_metadata :: "path_buf \<Rightarrow> 's \<Rightarrow> io_error + file_metadata"
  fs_remove :: "path_buf \<Rightarrow> 's \<Rightarrow> (io_error + unit) \<times> 's"

text \<open>\<open>InsertPanic\<close> is the panic of \<open>Vec::insert\<close>, which no caller can reach.\<close>

datatype apply_patch_error =
    ParseError parse_error
  | IoError ustr io_error
  | ComputeReplacements ustr
  | ImplicitInvocation
  | InsertPanic

text \<open>\<open>anyhow::Error\<close>: a message, an I/O error with a context, or an \<open>ApplyPatchError\<close>.\<close>

datatype any_error =
    AnyMsg ustr
  | AnyIo ustr io_error
  | AnyPatch apply_patch_error

fun parse_error_display :: "parse_error \<Rightarrow> ustr" where
  "parse_error_display (InvalidPatchError m) = lit ''invalid patch: '' @ m"
| "parse_error_display (InvalidHunkError m n) =
     lit ''invalid hunk at line '' @ show_nat n @ lit '', '' @ m"

fun apply_patch_error_display :: "apply_patch_error \<Rightarrow> ustr" where
  "apply_patch_error_display (ParseError e) = parse_error_display e"
| "apply_patch_error_display (IoError c e) = c @ lit '': '' @ io_msg e"
| "apply_patch_error_display (ComputeReplacements m) = m"
| "apply_patch_error_display ImplicitInvocation =
     lit ''patch detected without explicit call to apply_patch. Rerun as [''
     @ [c_dquote] @ lit ''apply_patch'' @ [c_dquote] @ lit '', ''
     @ [c_dquote] @ lit ''<patch>'' @ [c_dquote] @ lit '']''"
| "apply_patch_error_display InsertPanic = []"

fun any_error_display :: "any_error \<Rightarrow> ustr" where
  "any_error_display (AnyMsg m) = m"
| "any_error_display (AnyIo c _) = c"
| "any_error_display (AnyPatch e) = apply_patch_error_display e"

record affected_paths =
  added :: "ustr list"
  modified :: "ustr list"
  deleted :: "ustr list"

subsection \<open>Operations\<close>

definition hunk_resolve_path :: "path_buf option \<Rightarrow> path_buf \<Rightarrow> hunk \<Rightarrow> path_buf" where
  "hunk_resolve_path home cwd h =
    resolve_path_against_base home (case h of UpdateFile path _ _ \<Rightarrow> path | _ \<Rightarrow> hunk_path h) cwd"

definition derive_new_contents_from_chunks ::
    "'s executor_fs \<Rightarrow> path_buf \<Rightarrow> update_file_chunk list \<Rightarrow> 's \<Rightarrow> apply_patch_error + ustr \<times> ustr" where
  "derive_new_contents_from_chunks fs path_abs chunks s =
    (case fs_read_file_text fs path_abs s of
       Inl err \<Rightarrow> Inl (IoError (lit ''Failed to read file to update '' @ path_display path_abs) err)
     | Inr original_contents \<Rightarrow>
        (case new_contents_from_chunks original_contents chunks of
           Inl e \<Rightarrow> Inl (ComputeReplacements (replace_error_msg (path_display path_abs) e))
         | Inr None \<Rightarrow> Inl InsertPanic
         | Inr (Some new_contents) \<Rightarrow> Inr (original_contents, new_contents)))"

definition write_file_with_missing_parent_retry ::
    "'s executor_fs \<Rightarrow> path_buf \<Rightarrow> ustr \<Rightarrow> 's \<Rightarrow> (any_error, unit, 's) outcome" where
  "write_file_with_missing_parent_retry fs path_abs contents s =
    (let write_ctx = AnyIo (lit ''Failed to write file '' @ path_display path_abs) in
     case fs_write_file fs path_abs contents s of
       (Inr _, s1) \<Rightarrow> (Inr (), s1)
     | (Inl err, s1) \<Rightarrow>
        if io_kind err = NotFound then
          try_then
            (case path_parent path_abs of
               Some parent_abs \<Rightarrow>
                 map_err (AnyIo (lit ''Failed to create parent directories for '' @ path_display path_abs))
                   (fs_create_directory fs parent_abs s1)
             | None \<Rightarrow> (Inr (), s1))
            (\<lambda>_ s2. map_err write_ctx (fs_write_file fs path_abs contents s2))
        else (Inl (write_ctx err), s1))"

text \<open>The inner async block: metadata, the directory check, removal.\<close>

definition remove_regular_file :: "'s executor_fs \<Rightarrow> path_buf \<Rightarrow> 's \<Rightarrow> (io_error, unit, 's) outcome" where
  "remove_regular_file fs path_abs s =
    (case fs_get_metadata fs path_abs s of
       Inl e \<Rightarrow> (Inl e, s)
     | Inr metadata \<Rightarrow>
        if is_directory metadata
        then (Inl \<lparr>io_kind = InvalidInput, io_msg = lit ''path is a directory''\<rparr>, s)
        else fs_remove fs path_abs s)"

definition apply_hunk ::
    "'s executor_fs \<Rightarrow> path_buf option \<Rightarrow> path_buf \<Rightarrow> hunk \<Rightarrow> affected_paths \<Rightarrow> 's
      \<Rightarrow> (any_error, affected_paths, 's) outcome" where
  "apply_hunk fs home cwd h aff s =
    (let affected_path = hunk_path h; path_abs = hunk_resolve_path home cwd h in
     case h of
       AddFile _ contents \<Rightarrow>
         try_then (write_file_with_missing_parent_retry fs path_abs contents s)
           (\<lambda>_ s1. (Inr (aff\<lparr>added := added aff @ [affected_path]\<rparr>), s1))
     | DeleteFile _ \<Rightarrow>
         try_then (map_err (AnyIo (lit ''Failed to delete file '' @ path_display path_abs))
                    (remove_regular_file fs path_abs s))
           (\<lambda>_ s1. (Inr (aff\<lparr>deleted := deleted aff @ [affected_path]\<rparr>), s1))
     | UpdateFile _ move_path chunks \<Rightarrow>
         (case derive_new_contents_from_chunks fs path_abs chunks s of
            Inl e \<Rightarrow> (Inl (AnyPatch e), s)
          | Inr (_, new_contents) \<Rightarrow>
             (case move_path of
                Some dest \<Rightarrow>
                  try_then (write_file_with_missing_parent_retry fs
                              (resolve_path_against_base home dest cwd) new_contents s)
                    (\<lambda>_ s1. try_then
                      (map_err (AnyIo (lit ''Failed to remove original '' @ path_display path_abs))
                        (remove_regular_file fs path_abs s1))
                      (\<lambda>_ s2. (Inr (aff\<lparr>modified := modified aff @ [affected_path]\<rparr>), s2)))
              | None \<Rightarrow>
                  try_then (map_err (AnyIo (lit ''Failed to write file '' @ path_display path_abs))
                             (fs_write_file fs path_abs new_contents s))
                    (\<lambda>_ s1. (Inr (aff\<lparr>modified := modified aff @ [affected_path]\<rparr>), s1)))))"

fun apply_hunk_list ::
    "'s executor_fs \<Rightarrow> path_buf option \<Rightarrow> path_buf \<Rightarrow> hunk list \<Rightarrow> affected_paths \<Rightarrow> 's
      \<Rightarrow> (any_error, affected_paths, 's) outcome" where
  "apply_hunk_list fs home cwd [] aff s = (Inr aff, s)"
| "apply_hunk_list fs home cwd (h # hs) aff s =
     try_then (apply_hunk fs home cwd h aff s) (apply_hunk_list fs home cwd hs)"

definition no_affected :: affected_paths where
  "no_affected = \<lparr>added = [], modified = [], deleted = []\<rparr>"

definition apply_hunks_to_files ::
    "'s executor_fs \<Rightarrow> path_buf option \<Rightarrow> path_buf \<Rightarrow> hunk list \<Rightarrow> 's \<Rightarrow> (any_error + affected_paths) \<times> 's" where
  "apply_hunks_to_files fs home cwd hs s =
    (if hs = [] then (Inl (AnyMsg (lit ''No files were modified.'')), s)
     else apply_hunk_list fs home cwd hs no_affected s)"

type_synonym 'w writer = "ustr \<Rightarrow> 'w \<Rightarrow> (io_error + unit) \<times> 'w"

fun write_lines :: "'w writer \<Rightarrow> ustr list \<Rightarrow> 'w \<Rightarrow> (io_error + unit) \<times> 'w" where
  "write_lines wr [] w = (Inr (), w)"
| "write_lines wr (l # ls) w = try_then (wr (l @ [nl]) w) (\<lambda>_. write_lines wr ls)"

definition print_summary :: "affected_paths \<Rightarrow> 'w writer \<Rightarrow> 'w \<Rightarrow> (io_error + unit) \<times> 'w" where
  "print_summary affected wr w =
    write_lines wr
      (lit ''Success. Updated the following files:''
       # map (\<lambda>p. lit ''A '' @ p) (added affected)
       @ map (\<lambda>p. lit ''M '' @ p) (modified affected)
       @ map (\<lambda>p. lit ''D '' @ p) (deleted affected)) w"

text \<open>\<open>From<&io::Error> for ApplyPatchError\<close>.\<close>

definition from_io_error :: "io_error \<Rightarrow> apply_patch_error" where
  "from_io_error e = IoError (lit ''I/O error'') e"

text \<open>State: the file system and the two writers.\<close>

type_synonym ('s, 'w) patch_world = "'s \<times> 'w \<times> 'w"

definition apply_hunks ::
    "'s executor_fs \<Rightarrow> 'w writer \<Rightarrow> path_buf option \<Rightarrow> path_buf \<Rightarrow> hunk list \<Rightarrow> ('s, 'w) patch_world
      \<Rightarrow> (apply_patch_error, unit, ('s, 'w) patch_world) outcome" where
  "apply_hunks fs wr home cwd hs world =
    (case world of (s, out, err) \<Rightarrow>
      (case apply_hunks_to_files fs home cwd hs s of
         (Inr affected, s1) \<Rightarrow>
           (case map_err from_io_error (print_summary affected wr out) of (r, out1) \<Rightarrow> (r, (s1, out1, err)))
       | (Inl e, s1) \<Rightarrow>
          (let msg = any_error_display e in
           case try_then (map_err from_io_error (wr (msg @ [nl]) err))
                  (\<lambda>_ err1. (Inl (case e of
                      AnyIo _ io \<Rightarrow> from_io_error io
                    | _ \<Rightarrow> IoError msg \<lparr>io_kind = OtherKind, io_msg = msg\<rparr>), err1)) of
             (r, err1) \<Rightarrow> (r, (s1, out, err1)))))"

definition parse_failure_line :: "parse_error \<Rightarrow> ustr" where
  "parse_failure_line e =
    (case e of
       InvalidPatchError message \<Rightarrow> lit ''Invalid patch: '' @ message
     | InvalidHunkError message line_number \<Rightarrow>
         lit ''Invalid patch hunk on line '' @ show_nat line_number @ lit '': '' @ message)"

definition apply_patch ::
    "'s executor_fs \<Rightarrow> 'w writer \<Rightarrow> path_buf option \<Rightarrow> path_buf \<Rightarrow> ustr \<Rightarrow> ('s, 'w) patch_world
      \<Rightarrow> (apply_patch_error, unit, ('s, 'w) patch_world) outcome" where
  "apply_patch fs wr home cwd patch world =
    (case parse_patch patch of
       Inr source \<Rightarrow> apply_hunks fs wr home cwd (args_hunks source) world
     | Inl e \<Rightarrow>
        (case world of (s, out, err) \<Rightarrow>
          (case try_then (map_err from_io_error (wr (parse_failure_line e @ [nl]) err))
                  (\<lambda>_ err1. (Inl (ParseError e), err1)) of
             (r, err1) \<Rightarrow> (r, (s, out, err1)))))"

subsection \<open>Hypotheses about the file system\<close>

text \<open>
  The text a path gives, whatever the error where it gives none. Paths may be links:
  \<open>linked s p q\<close> says that in the state \<open>s\<close> the paths \<open>p\<close> and \<open>q\<close> reach one file, by name, by a
  hard link or through a symbolic link. \<open>fs_local linked\<close> states what is relied on: writing or
  removing at \<open>p\<close> changes the text of a path only when that path is linked to \<open>p\<close>, creating a
  directory changes no text, and none of these operations makes two paths one file that were not
  one before.
\<close>

definition fs_text :: "'s executor_fs \<Rightarrow> path_buf \<Rightarrow> 's \<Rightarrow> ustr option" where
  "fs_text fs p s = (case fs_read_file_text fs p s of Inl _ \<Rightarrow> None | Inr content \<Rightarrow> Some content)"

type_synonym 's links = "'s \<Rightarrow> path_buf \<Rightarrow> path_buf \<Rightarrow> bool"

definition fs_local :: "'s links \<Rightarrow> 's executor_fs \<Rightarrow> bool" where
  "fs_local linked fs \<longleftrightarrow>
    (\<forall>s p. linked s p p) \<and>
    (\<forall>p q c s. \<not> linked s p q \<longrightarrow> fs_text fs q (snd (fs_write_file fs p c s)) = fs_text fs q s) \<and>
    (\<forall>p q s. \<not> linked s p q \<longrightarrow> fs_text fs q (snd (fs_remove fs p s)) = fs_text fs q s) \<and>
    (\<forall>p q s. fs_text fs q (snd (fs_create_directory fs p s)) = fs_text fs q s) \<and>
    (\<forall>p c s. linked (snd (fs_write_file fs p c s)) \<le> linked s) \<and>
    (\<forall>p s. linked (snd (fs_remove fs p s)) \<le> linked s) \<and>
    (\<forall>p s. linked (snd (fs_create_directory fs p s)) \<le> linked s)"

definition fs_durable :: "'s executor_fs \<Rightarrow> bool" where
  "fs_durable fs \<longleftrightarrow>
    (\<forall>p c s s'. fs_write_file fs p c s = (Inr (), s') \<longrightarrow> fs_read_file_text fs p s' = Inr c) \<and>
    (\<forall>p s s'. fs_remove fs p s = (Inr (), s') \<longrightarrow> isl (fs_read_file_text fs p s'))"

text \<open>An in-memory file system without links, and one with hard links: names point to numbered
  files, a write to a new name takes a fresh number and a removal takes the name away.\<close>

definition mem_fs :: "(path_buf \<rightharpoonup> ustr) executor_fs" where
  "mem_fs = \<lparr>
     fs_read_file_text = (\<lambda>p s. case s p of
        Some c \<Rightarrow> Inr c | None \<Rightarrow> Inl \<lparr>io_kind = NotFound, io_msg = lit ''not found''\<rparr>),
     fs_write_file = (\<lambda>p c s. (Inr (), s(p \<mapsto> c))),
     fs_create_directory = (\<lambda>p s. (Inr (), s)),
     fs_get_metadata = (\<lambda>p s. case s p of
        Some c \<Rightarrow> Inr \<lparr>is_directory = False, is_file = True, is_symlink = False,
                      created_at_ms = 0, modified_at_ms = 0\<rparr>
      | None \<Rightarrow> Inl \<lparr>io_kind = NotFound, io_msg = lit ''not found''\<rparr>),
     fs_remove = (\<lambda>p s. (Inr (), s(p := None)))\<rparr>"

definition not_found :: io_error where
  "not_found = \<lparr>io_kind = NotFound, io_msg = lit ''not found''\<rparr>"

type_synonym link_state = "(path_buf \<times> nat) list \<times> (nat \<Rightarrow> ustr)"

definition fresh_file :: "(path_buf \<times> nat) list \<Rightarrow> nat" where
  "fresh_file names = Suc (sum_list (map snd names))"

definition link_fs :: "link_state executor_fs" where
  "link_fs = \<lparr>
     fs_read_file_text = (\<lambda>p (names, files). case map_of names p of Some i \<Rightarrow> Inr (files i) | None \<Rightarrow> Inl not_found),
     fs_write_file = (\<lambda>p c (names, files). (Inr (), case map_of names p of
        Some i \<Rightarrow> (names, files(i := c))
      | None \<Rightarrow> ((p, fresh_file names) # names, files(fresh_file names := c)))),
     fs_create_directory = (\<lambda>p s. (Inr (), s)),
     fs_get_metadata = (\<lambda>p (names, files). case map_of names p of
        Some i \<Rightarrow> Inr \<lparr>is_directory = False, is_file = True, is_symlink = False,
                      created_at_ms = 0, modified_at_ms = 0\<rparr>
      | None \<Rightarrow> Inl not_found),
     fs_remove = (\<lambda>p (names, files). (Inr (), filter (\<lambda>n. fst n \<noteq> p) names, files))\<rparr>"

definition hard_linked :: "link_state links" where
  "hard_linked s p q \<longleftrightarrow> p = q \<or> (\<exists>i. map_of (fst s) p = Some i \<and> map_of (fst s) q = Some i)"

lemma mem_fs_laws: "fs_local (\<lambda>_. (=)) mem_fs" "fs_durable mem_fs"
  by (auto simp: fs_local_def fs_durable_def fs_text_def mem_fs_def)

lemma fresh_file_unused: "map_of names p \<noteq> Some (fresh_file names)"
proof
  assume "map_of names p = Some (fresh_file names)"
  then have "fresh_file names \<in> set (map snd names)" by (force dest: map_of_SomeD)
  then have "fresh_file names \<le> sum_list (map snd names)" by (rule member_le_sum_list) simp
  then show False by (simp add: fresh_file_def)
qed

lemma map_of_without: "map_of (filter (\<lambda>n. fst n \<noteq> p) names) q = (if q = p then None else map_of names q)"
  by (induction names) auto

lemma link_fs_laws: "fs_local hard_linked link_fs" "fs_durable link_fs"
  by (auto simp: fs_local_def fs_durable_def fs_text_def link_fs_def hard_linked_def le_fun_def
      map_of_without fresh_file_unused split: option.splits if_splits)

subsection \<open>What a hunk touches\<close>

definition hunk_targets :: "path_buf option \<Rightarrow> path_buf \<Rightarrow> hunk \<Rightarrow> path_buf list" where
  "hunk_targets home cwd h =
    hunk_resolve_path home cwd h
      # (case h of UpdateFile _ (Some dest) _ \<Rightarrow> [resolve_path_against_base home dest cwd] | _ \<Rightarrow> [])"

text \<open>
  What holds of a path that no operation so far could reach: its text is the same and no link was
  made. Each operation at a path not linked to it keeps this.
\<close>

definition untouched :: "'s links \<Rightarrow> 's executor_fs \<Rightarrow> path_buf \<Rightarrow> 's \<Rightarrow> 's \<Rightarrow> bool" where
  "untouched linked fs q s s' \<longleftrightarrow> fs_text fs q s' = fs_text fs q s \<and> linked s' \<le> linked s"

lemma untouched_refl [simp]: "untouched linked fs q s s"
  by (simp add: untouched_def)

lemma untouched_trans: "untouched linked fs q s s1 \<Longrightarrow> untouched linked fs q s1 s2 \<Longrightarrow> untouched linked fs q s s2"
  by (auto simp: untouched_def)

lemma untouched_unlinked: "untouched linked fs q s s' \<Longrightarrow> \<not> linked s a b \<Longrightarrow> \<not> linked s' a b"
  by (auto simp: untouched_def le_fun_def)

lemma fs_localD:
  assumes "fs_local linked fs" and "untouched linked fs q s s'"
  shows "\<not> linked s p q \<Longrightarrow> untouched linked fs q s (snd (fs_write_file fs p c s'))"
    and "\<not> linked s p q \<Longrightarrow> untouched linked fs q s (snd (fs_remove fs p s'))"
    and "untouched linked fs q s (snd (fs_create_directory fs p s'))"
proof -
  show "untouched linked fs q s (snd (fs_create_directory fs p s'))"
    by (rule untouched_trans [OF assms(2)]) (use assms(1) in \<open>simp add: untouched_def fs_local_def\<close>)
  assume "\<not> linked s p q"
  with assms(2) have "\<not> linked s' p q" by (rule untouched_unlinked)
  then show "untouched linked fs q s (snd (fs_write_file fs p c s'))"
    and "untouched linked fs q s (snd (fs_remove fs p s'))"
    by (intro untouched_trans [OF assms(2)]; use assms(1) in \<open>simp add: untouched_def fs_local_def\<close>)+
qed

lemma fs_local_refl: "fs_local linked fs \<Longrightarrow> linked s p p"
  by (simp add: fs_local_def)

lemma write_retry_frame:
  assumes "fs_local linked fs" and "untouched linked fs q s s'" and "\<not> linked s p q"
  shows "untouched linked fs q s (snd (write_file_with_missing_parent_retry fs p c s'))"
proof -
  let ?P = "untouched linked fs q s"
  note L = fs_localD [OF assms(1)]
  obtain x s1 where w: "fs_write_file fs p c s' = (x, s1)" by fastforce
  have s1: "?P s1" using L(1) [OF assms(2,3), of c] w by simp
  have "?P (snd (try_then
        (case path_parent p of Some d \<Rightarrow> map_err f (fs_create_directory fs d s1) | None \<Rightarrow> (Inr (), s1))
        (\<lambda>_ s2. map_err g (fs_write_file fs p c s2))))" for f :: "io_error \<Rightarrow> any_error" and g
    by (rule try_then_state) (auto simp: L assms(3) s1 split: option.split)
  then show ?thesis
    using w s1 by (cases x) (auto simp: write_file_with_missing_parent_retry_def Let_def)
qed

lemma remove_regular_file_frame:
  assumes "fs_local linked fs" and "untouched linked fs q s s'" and "\<not> linked s p q"
  shows "untouched linked fs q s (snd (remove_regular_file fs p s'))"
  using fs_localD(2) [OF assms] assms(2) by (auto simp: remove_regular_file_def split: sum.splits)

text \<open>\<open>unreached\<close>: no source or destination of the hunk is linked to the path.\<close>

definition unreached :: "'s links \<Rightarrow> path_buf option \<Rightarrow> path_buf \<Rightarrow> hunk \<Rightarrow> 's \<Rightarrow> path_buf \<Rightarrow> bool" where
  "unreached linked home cwd h s q \<longleftrightarrow> (\<forall>p\<in>set (hunk_targets home cwd h). \<not> linked s p q)"

lemma apply_hunk_frame:
  assumes "fs_local linked fs" and "untouched linked fs q s s'" and "unreached linked home cwd h s q"
  shows "untouched linked fs q s (snd (apply_hunk fs home cwd h aff s'))"
proof -
  have q: "\<not> linked s (hunk_resolve_path home cwd h) q"
    using assms(3) by (simp add: unreached_def hunk_targets_def)
  note L = fs_localD [OF assms(1)] remove_regular_file_frame [OF assms(1)] write_retry_frame [OF assms(1)] assms(2)
  note T = try_then_state [where P = "untouched linked fs q s"]
  show ?thesis
  proof (cases h)
    case (UpdateFile p m cs)
    have "\<not> linked s (resolve_path_against_base home dest cwd) q" if "m = Some dest" for dest
      using assms(3) UpdateFile that by (simp add: unreached_def hunk_targets_def)
    then show ?thesis
      using UpdateFile q
      by (auto simp: apply_hunk_def Let_def L intro!: T split: sum.split option.split)
  qed (use q in \<open>auto simp: apply_hunk_def Let_def L intro!: T\<close>)
qed

lemma apply_hunk_list_frame:
  assumes "fs_local linked fs" and "untouched linked fs q s s'" and "\<forall>h\<in>set hs. unreached linked home cwd h s q"
  shows "untouched linked fs q s (snd (apply_hunk_list fs home cwd hs aff s'))"
  using assms(2,3)
proof (induction hs arbitrary: aff s')
  case (Cons h hs)
  have h: "untouched linked fs q s (snd (apply_hunk fs home cwd h aff s'))"
    using assms(1) Cons.prems by (intro apply_hunk_frame) simp_all
  show ?case
    unfolding apply_hunk_list.simps
    by (rule try_then_state [where P = "untouched linked fs q s"]) (use h Cons in auto)
qed simp

subsection \<open>The summary\<close>

text \<open>Which list the path of a hunk is reported in.\<close>

fun record_affected :: "hunk \<Rightarrow> affected_paths \<Rightarrow> affected_paths" where
  "record_affected (AddFile p c) aff = aff\<lparr>added := added aff @ [p]\<rparr>"
| "record_affected (DeleteFile p) aff = aff\<lparr>deleted := deleted aff @ [p]\<rparr>"
| "record_affected h aff = aff\<lparr>modified := modified aff @ [hunk_path h]\<rparr>"

lemma apply_hunk_affected:
  "apply_hunk fs home cwd h aff s = (Inr aff', s') \<Longrightarrow> aff' = record_affected h aff"
  by (cases h) (auto simp: apply_hunk_def Let_def try_then_Inr_iff split: sum.splits option.splits)

lemma apply_hunk_list_affected:
  "apply_hunk_list fs home cwd hs aff s = (Inr aff', s') \<Longrightarrow> aff' = fold record_affected hs aff"
  by (induction hs arbitrary: aff s) (auto simp: try_then_Inr_iff dest!: apply_hunk_affected)

lemma apply_hunk_list_append:
  "apply_hunk_list fs home cwd (hs @ hs') aff s =
    try_then (apply_hunk_list fs home cwd hs aff s) (apply_hunk_list fs home cwd hs')"
proof (induction hs arbitrary: aff s)
  case (Cons h hs)
  then have "apply_hunk_list fs home cwd (hs @ hs') = (\<lambda>aff s.
      try_then (apply_hunk_list fs home cwd hs aff s) (apply_hunk_list fs home cwd hs'))"
    by (intro ext)
  then show ?case by (simp add: try_then_assoc)
qed simp

subsection \<open>No panic\<close>

lemma new_contents_no_panic: "new_contents_from_chunks c cs \<noteq> Inr None"
proof
  assume a: "new_contents_from_chunks c cs = Inr None"
  then obtain rs where rs: "compute_replacements (original_lines_of c) cs = Inr rs"
    by (auto simp: new_contents_from_chunks_def Let_def split: sum.splits)
  with compute_replacements_apply [OF rs] a show False
    by (auto simp: new_contents_from_chunks_def Let_def)
qed

lemma derive_no_panic: "derive_new_contents_from_chunks fs p cs s \<noteq> Inl InsertPanic"
  using new_contents_no_panic
  by (auto simp: derive_new_contents_from_chunks_def split: sum.splits option.splits)

lemma write_retry_no_panic:
  "fst (write_file_with_missing_parent_retry fs p c s) \<noteq> Inl (AnyPatch e)"
  by (auto simp: write_file_with_missing_parent_retry_def Let_def
      try_then_error_iff map_err_error_iff split: sum.split option.split prod.split)

lemma apply_hunk_no_panic: "fst (apply_hunk fs home cwd h aff s) \<noteq> Inl (AnyPatch InsertPanic)"
  by (cases h) (auto simp: apply_hunk_def Let_def try_then_error_iff map_err_error_iff
      derive_no_panic write_retry_no_panic
      split: sum.split option.split)

subsection \<open>What a successful hunk leaves behind\<close>

lemma fs_write_durable: "fs_durable fs \<Longrightarrow> fs_write_file fs p c s = (Inr (), s') \<Longrightarrow> fs_text fs p s' = Some c"
  by (auto simp: fs_durable_def fs_text_def)

lemma fs_remove_durable: "fs_durable fs \<Longrightarrow> fs_remove fs p s = (Inr (), s') \<Longrightarrow> fs_text fs p s' = None"
  unfolding fs_durable_def fs_text_def by (cases "fs_read_file_text fs p s'") fastforce+

lemma write_retry_durable:
  assumes "fs_durable fs" and "write_file_with_missing_parent_retry fs p c s = (Inr (), s')"
  shows "fs_text fs p s' = Some c"
proof -
  have "\<exists>s0. fs_write_file fs p c s0 = (Inr (), s')"
    using assms(2)
    by (auto simp: write_file_with_missing_parent_retry_def Let_def try_then_Inr_iff map_err_Inr_iff
        split: prod.splits sum.splits if_splits)
  with fs_write_durable [OF assms(1)] show ?thesis by blast
qed

lemma remove_regular_file_durable:
  assumes "fs_durable fs" and "remove_regular_file fs p s = (Inr (), s')"
  shows "fs_text fs p s' = None"
  using assms by (auto simp: remove_regular_file_def dest: fs_remove_durable split: sum.splits if_splits)

text \<open>Writing and removing make no links, at any path.\<close>

lemma write_retry_links:
  assumes "fs_local linked fs"
  shows "linked (snd (write_file_with_missing_parent_retry fs p c s)) \<le> linked s"
proof -
  let ?P = "\<lambda>s'. linked s' \<le> linked s"
  have W: "?P s' \<Longrightarrow> ?P (snd (fs_write_file fs p c s'))" and D: "?P s' \<Longrightarrow> ?P (snd (fs_create_directory fs d s'))" for s' d
    using assms unfolding fs_local_def by (meson order_trans)+
  obtain x s1 where w: "fs_write_file fs p c s = (x, s1)" by fastforce
  have s1: "?P s1" using W [of s] w by simp
  have "?P (snd (try_then
        (case path_parent p of Some d \<Rightarrow> map_err f (fs_create_directory fs d s1) | None \<Rightarrow> (Inr (), s1))
        (\<lambda>_ s2. map_err g (fs_write_file fs p c s2))))" for f :: "io_error \<Rightarrow> any_error" and g
    by (rule try_then_state [where P = ?P]) (auto simp: W D s1 split: option.split)
  then show ?thesis
    using w s1 by (cases x) (auto simp: write_file_with_missing_parent_retry_def Let_def)
qed

lemma remove_regular_file_links:
  "fs_local linked fs \<Longrightarrow> linked (snd (remove_regular_file fs p s)) \<le> linked s"
  by (auto simp: remove_regular_file_def fs_local_def split: sum.split)

lemma apply_hunk_links:
  assumes "fs_local linked fs"
  shows "linked (snd (apply_hunk fs home cwd h aff s)) \<le> linked s"
proof -
  obtain P where P: "\<And>s'. P s' \<longleftrightarrow> linked s' \<le> linked s"
    by (rule that [of "\<lambda>s'. linked s' \<le> linked s"]) simp
  have L: "P s" "P (snd (write_file_with_missing_parent_retry fs p c s))" "P (snd (remove_regular_file fs p s))"
    "P (snd (fs_write_file fs p c s))" for p c
    using write_retry_links [OF assms] remove_regular_file_links [OF assms] assms by (simp_all add: P fs_local_def)
  have R: "P (snd (remove_regular_file fs p s1))" if "P s1" for p s1
    using remove_regular_file_links [OF assms] that unfolding P by (rule order_trans)
  have "P (snd (apply_hunk fs home cwd h aff s))"
    by (cases h) (auto simp: apply_hunk_def Let_def L R intro!: try_then_state [where P = P] split: sum.split option.split)
  then show ?thesis by (simp add: P)
qed

text \<open>The effect a hunk promises, relative to the state it starts in.\<close>

definition hunk_effect ::
    "'s links \<Rightarrow> 's executor_fs \<Rightarrow> path_buf option \<Rightarrow> path_buf \<Rightarrow> hunk \<Rightarrow> 's \<Rightarrow> 's \<Rightarrow> bool" where
  "hunk_effect linked fs home cwd h s s' \<longleftrightarrow>
    (let p = hunk_resolve_path home cwd h in
     case h of
       AddFile _ contents \<Rightarrow> fs_text fs p s' = Some contents
     | DeleteFile _ \<Rightarrow> fs_text fs p s' = None
     | UpdateFile _ m cs \<Rightarrow>
         (\<exists>old new. derive_new_contents_from_chunks fs p cs s = Inr (old, new) \<and>
           (case m of
              None \<Rightarrow> fs_text fs p s' = Some new
            | Some dest \<Rightarrow>
                (let d = resolve_path_against_base home dest cwd in
                 fs_text fs p s' = None \<and> (\<not> linked s p d \<longrightarrow> fs_text fs d s' = Some new)))))"

lemma apply_hunk_effect:
  assumes laws: "fs_local linked fs" "fs_durable fs"
    and run: "apply_hunk fs home cwd h aff s = (Inr aff', s')"
  shows "hunk_effect linked fs home cwd h s s'"
proof (cases h)
  case (UpdateFile p m cs)
  let ?p = "hunk_resolve_path home cwd h"
  from run UpdateFile obtain old new where d: "derive_new_contents_from_chunks fs ?p cs s = Inr (old, new)"
    by (auto simp: apply_hunk_def Let_def split: sum.splits)
  show ?thesis
  proof (cases m)
    case None
    with run UpdateFile d laws(2) show ?thesis
      by (auto simp: apply_hunk_def hunk_effect_def Let_def try_then_Inr_iff map_err_Inr_iff
          dest: fs_write_durable)
  next
    case (Some dest)
    let ?d = "resolve_path_against_base home dest cwd"
    from run UpdateFile Some d obtain s1 where
      w: "write_file_with_missing_parent_retry fs ?d new s = (Inr (), s1)"
      and r: "remove_regular_file fs ?p s1 = (Inr (), s')"
      by (auto simp: apply_hunk_def Let_def try_then_Inr_iff map_err_Inr_iff)
    have links: "linked s1 \<le> linked s" using write_retry_links [OF laws(1), of ?d new s] w by simp
    have "fs_text fs ?d s1 = Some new" using laws(2) w by (rule write_retry_durable)
    moreover have "fs_text fs ?d s' = fs_text fs ?d s1" if "\<not> linked s ?p ?d"
    proof -
      have "\<not> linked s1 ?p ?d" using links that by (auto simp: le_fun_def)
      from remove_regular_file_frame [OF laws(1) untouched_refl this] r show ?thesis
        by (simp add: untouched_def)
    qed
    moreover have "fs_text fs ?p s' = None" using laws(2) r by (rule remove_regular_file_durable)
    ultimately show ?thesis
      using UpdateFile Some d by (auto simp: hunk_effect_def Let_def)
  qed
qed (use run laws(2) in \<open>auto simp: apply_hunk_def hunk_effect_def Let_def try_then_Inr_iff map_err_Inr_iff
      dest: write_retry_durable remove_regular_file_durable\<close>)

end
