(* ===== verification/Patch_Invocation.thy ===== *)
theory Patch_Invocation
  imports Patch_Apply
begin

section \<open>Recognising and previewing apply_patch calls (apply-patch/src/invocation.rs)\<close>

text \<open>
  \<open>maybe_parse_apply_patch\<close> decides whether an argument vector is an \<open>apply_patch\<close> call,
  \<open>maybe_parse_apply_patch_verified\<close> computes the file changes it proposes. The Tree-sitter
  query over the bash grammar and the unified diff (crate \<open>similar\<close>) are parameters: the
  matches of the query with their captures, and the diff text. The last part proves that
  the previewed changes are what applying the hunks leaves on disk.
\<close>

subsection \<open>Recognition\<close>

definition APPLY_PATCH_COMMANDS :: "ustr list" where
  "APPLY_PATCH_COMMANDS = [lit ''apply_patch'', lit ''applypatch'']"

datatype apply_patch_shell = Unix | PowerShell | Cmd

datatype extract_heredoc_error =
    CommandDidNotStartWithApplyPatch
  | FailedToLoadBashGrammar ustr
  | HeredocNotUtf8 ustr
  | FailedToParsePatchIntoAst
  | FailedToFindHeredocBody

datatype maybe_apply_patch =
    Body apply_patch_args
  | ShellParseError extract_heredoc_error
  | PatchParseError parse_error
  | NotApplyPatch

definition classify_shell_name :: "ustr \<Rightarrow> ustr option" where
  "classify_shell_name shell = map_option (\<lambda>n. to_ascii_lowercase (stem_of n)) (file_name (path_of shell))"

definition classify_shell :: "ustr \<Rightarrow> ustr \<Rightarrow> apply_patch_shell option" where
  "classify_shell shell flag =
    (case classify_shell_name shell of
       None \<Rightarrow> None
     | Some name \<Rightarrow>
        if name \<in> {lit ''bash'', lit ''zsh'', lit ''sh''} \<and> flag \<in> {lit ''-lc'', lit ''-c''} then Some Unix
        else if name \<in> {lit ''pwsh'', lit ''powershell''} \<and> eq_ignore_ascii_case flag (lit ''-command'')
          then Some PowerShell
        else if name = lit ''cmd'' \<and> eq_ignore_ascii_case flag (lit ''/c'') then Some Cmd
        else None)"

definition can_skip_flag :: "ustr \<Rightarrow> ustr \<Rightarrow> bool" where
  "can_skip_flag shell flag =
    (case classify_shell_name shell of
       None \<Rightarrow> False
     | Some name \<Rightarrow> name \<in> {lit ''pwsh'', lit ''powershell''} \<and> eq_ignore_ascii_case flag (lit ''-noprofile''))"

definition parse_shell_script :: "ustr list \<Rightarrow> (apply_patch_shell \<times> ustr) option" where
  "parse_shell_script argv =
    (case argv of
       [shell, flag, script] \<Rightarrow> map_option (\<lambda>t. (t, script)) (classify_shell shell flag)
     | [shell, skip_flag, flag, script] \<Rightarrow>
         if can_skip_flag shell skip_flag
         then map_option (\<lambda>t. (t, script)) (classify_shell shell flag) else None
     | _ \<Rightarrow> None)"

text \<open>A capture of the query: its name and the text of its node, or a UTF-8 error.\<close>

type_synonym capture = "ustr \<times> (ustr + ustr)"
type_synonym bash_query = "ustr \<Rightarrow> extract_heredoc_error + capture list list"

definition strip_raw_quotes :: "ustr \<Rightarrow> ustr" where
  "strip_raw_quotes raw =
    (case strip_prefix [c_squote] raw of
       None \<Rightarrow> raw
     | Some s \<Rightarrow> (case strip_suffix [c_squote] s of None \<Rightarrow> raw | Some s' \<Rightarrow> s'))"

fun read_captures ::
    "capture list \<Rightarrow> ustr option \<times> ustr option \<Rightarrow> extract_heredoc_error + ustr option \<times> ustr option" where
  "read_captures [] acc = Inr acc"
| "read_captures ((name, node_text) # cs) (heredoc_text, cd_path) =
    (if name = lit ''heredoc'' then
       (case node_text of
          Inl e \<Rightarrow> Inl (HeredocNotUtf8 e)
        | Inr t \<Rightarrow> read_captures cs (Some (trim_end_matches (\<lambda>c. c = nl) t), cd_path))
     else if name = lit ''cd_path'' then
       (case node_text of
          Inl e \<Rightarrow> Inl (HeredocNotUtf8 e)
        | Inr t \<Rightarrow> read_captures cs (heredoc_text, Some t))
     else if name = lit ''cd_raw_string'' then
       (case node_text of
          Inl e \<Rightarrow> Inl (HeredocNotUtf8 e)
        | Inr t \<Rightarrow> read_captures cs (heredoc_text, Some (strip_raw_quotes t)))
     else read_captures cs (heredoc_text, cd_path))"

fun first_heredoc :: "capture list list \<Rightarrow> extract_heredoc_error + ustr \<times> ustr option" where
  "first_heredoc [] = Inl CommandDidNotStartWithApplyPatch"
| "first_heredoc (m # ms) =
    (case read_captures m (None, None) of
       Inl e \<Rightarrow> Inl e
     | Inr (Some heredoc, cd_path) \<Rightarrow> Inr (heredoc, cd_path)
     | Inr (None, _) \<Rightarrow> first_heredoc ms)"

definition extract_apply_patch_from_bash :: "bash_query \<Rightarrow> ustr \<Rightarrow> extract_heredoc_error + ustr \<times> ustr option" where
  "extract_apply_patch_from_bash query src =
    (case query src of Inl e \<Rightarrow> Inl e | Inr matches \<Rightarrow> first_heredoc matches)"

definition extract_apply_patch_from_shell ::
    "bash_query \<Rightarrow> apply_patch_shell \<Rightarrow> ustr \<Rightarrow> extract_heredoc_error + ustr \<times> ustr option" where
  "extract_apply_patch_from_shell query shell script =
    (case shell of Unix \<Rightarrow> extract_apply_patch_from_bash query script
     | PowerShell \<Rightarrow> extract_apply_patch_from_bash query script
     | Cmd \<Rightarrow> extract_apply_patch_from_bash query script)"

definition maybe_parse_apply_patch :: "bash_query \<Rightarrow> ustr list \<Rightarrow> maybe_apply_patch" where
  "maybe_parse_apply_patch query argv =
    (let shell_form =
       (case parse_shell_script argv of
          None \<Rightarrow> NotApplyPatch
        | Some (shell, script) \<Rightarrow>
           (case extract_apply_patch_from_shell query shell script of
              Inr (body, workdir) \<Rightarrow>
                (case parse_patch body of
                   Inr source \<Rightarrow> Body (source\<lparr>args_workdir := workdir\<rparr>)
                 | Inl e \<Rightarrow> PatchParseError e)
            | Inl CommandDidNotStartWithApplyPatch \<Rightarrow> NotApplyPatch
            | Inl e \<Rightarrow> ShellParseError e))
     in case argv of
          [cmd, body] \<Rightarrow>
            if cmd \<in> set APPLY_PATCH_COMMANDS then
              (case parse_patch body of Inr source \<Rightarrow> Body source | Inl e \<Rightarrow> PatchParseError e)
            else shell_form
        | _ \<Rightarrow> shell_form)"

subsection \<open>Preview\<close>

datatype apply_patch_file_change =
    Add ustr
  | Delete ustr
  | Update (unified_diff: ustr) (change_move: "path_buf option") (new_content: ustr)

record apply_patch_action =
  action_changes :: "path_buf \<rightharpoonup> apply_patch_file_change"
  action_patch :: ustr
  action_cwd :: path_buf

datatype maybe_apply_patch_verified =
    VerifiedBody apply_patch_action
  | VerifiedShellParseError extract_heredoc_error
  | CorrectnessError apply_patch_error
  | VerifiedNotApplyPatch

type_synonym text_diff = "ustr \<Rightarrow> ustr \<Rightarrow> nat \<Rightarrow> ustr"

definition unified_diff_from_chunks ::
    "text_diff \<Rightarrow> 's executor_fs \<Rightarrow> path_buf \<Rightarrow> update_file_chunk list \<Rightarrow> 's \<Rightarrow> apply_patch_error + ustr \<times> ustr" where
  "unified_diff_from_chunks diff fs path_abs chunks s =
    (case derive_new_contents_from_chunks fs path_abs chunks s of
       Inl e \<Rightarrow> Inl e
     | Inr (original_contents, new_contents) \<Rightarrow>
         Inr (diff original_contents new_contents 1, new_contents))"

definition hunk_change ::
    "text_diff \<Rightarrow> 's executor_fs \<Rightarrow> path_buf option \<Rightarrow> path_buf \<Rightarrow> 's \<Rightarrow> hunk \<Rightarrow> apply_patch_error + apply_patch_file_change" where
  "hunk_change diff fs home effective_cwd s h =
    (let path = hunk_resolve_path home effective_cwd h in
     case h of
       AddFile _ contents \<Rightarrow> Inr (Add contents)
     | DeleteFile _ \<Rightarrow>
         (case fs_read_file_text fs path s of
            Inr content \<Rightarrow> Inr (Delete content)
          | Inl e \<Rightarrow> Inl (IoError (lit ''Failed to read '' @ path_display path) e))
     | UpdateFile _ move_path chunks \<Rightarrow>
         (case unified_diff_from_chunks diff fs path chunks s of
            Inr (udiff, contents) \<Rightarrow>
              Inr (Update udiff (map_option (\<lambda>p. resolve_path_against_base home p effective_cwd) move_path) contents)
          | Inl e \<Rightarrow> Inl e))"

fun collect_changes ::
    "text_diff \<Rightarrow> 's executor_fs \<Rightarrow> path_buf option \<Rightarrow> path_buf \<Rightarrow> 's \<Rightarrow> hunk list \<Rightarrow> (path_buf \<rightharpoonup> apply_patch_file_change)
      \<Rightarrow> apply_patch_error + (path_buf \<rightharpoonup> apply_patch_file_change)" where
  "collect_changes diff fs home cwd s [] changes = Inr changes"
| "collect_changes diff fs home cwd s (h # hs) changes =
    (case hunk_change diff fs home cwd s h of
       Inl e \<Rightarrow> Inl e
     | Inr c \<Rightarrow> collect_changes diff fs home cwd s hs (changes(hunk_resolve_path home cwd h \<mapsto> c)))"

definition maybe_parse_apply_patch_verified ::
    "bash_query \<Rightarrow> text_diff \<Rightarrow> 's executor_fs \<Rightarrow> path_buf option \<Rightarrow> ustr list \<Rightarrow> path_buf \<Rightarrow> 's \<Rightarrow> maybe_apply_patch_verified" where
  "maybe_parse_apply_patch_verified query diff fs home argv cwd s =
    (if (case argv of [body] \<Rightarrow> \<not> isl (parse_patch body) | _ \<Rightarrow> False)
     then CorrectnessError ImplicitInvocation
     else if (case parse_shell_script argv of Some (_, script) \<Rightarrow> \<not> isl (parse_patch script) | None \<Rightarrow> False)
     then CorrectnessError ImplicitInvocation
     else case maybe_parse_apply_patch query argv of
       Body args \<Rightarrow>
         (let effective_cwd = (case args_workdir args of
                Some dir \<Rightarrow> resolve_path_against_base home dir cwd | None \<Rightarrow> cwd)
          in case collect_changes diff fs home effective_cwd s (args_hunks args) Map.empty of
               Inl e \<Rightarrow> CorrectnessError e
             | Inr changes \<Rightarrow> VerifiedBody \<lparr>action_changes = changes, action_patch = args_patch args,
                                           action_cwd = effective_cwd\<rparr>)
     | ShellParseError e \<Rightarrow> VerifiedShellParseError e
     | PatchParseError e \<Rightarrow> CorrectnessError (ParseError e)
     | NotApplyPatch \<Rightarrow> VerifiedNotApplyPatch)"

subsection \<open>The preview is what applying does\<close>

text \<open>Hunks whose sources and destinations are pairwise different files.\<close>

definition targets_distinct :: "path_buf option \<Rightarrow> path_buf \<Rightarrow> hunk list \<Rightarrow> bool" where
  "targets_distinct home cwd hs \<longleftrightarrow> distinct (concat (map (hunk_targets home cwd) hs))"

text \<open>The same for paths that may be links: no source or destination reaches the file of another.\<close>

definition targets_apart :: "'s links \<Rightarrow> 's \<Rightarrow> path_buf option \<Rightarrow> path_buf \<Rightarrow> hunk list \<Rightarrow> bool" where
  "targets_apart linked s home cwd hs \<longleftrightarrow>
    sorted_wrt (\<lambda>p q. \<not> linked s p q \<and> \<not> linked s q p) (concat (map (hunk_targets home cwd) hs))"

text \<open>A change is realised in a state when the files it names read as it says.\<close>

definition change_realised :: "'s executor_fs \<Rightarrow> 's \<Rightarrow> path_buf \<Rightarrow> apply_patch_file_change \<Rightarrow> bool" where
  "change_realised fs s p c =
    (case c of
       Add content \<Rightarrow> fs_text fs p s = Some content
     | Delete _ \<Rightarrow> fs_text fs p s = None
     | Update _ None content \<Rightarrow> fs_text fs p s = Some content
     | Update _ (Some d) content \<Rightarrow> fs_text fs d s = Some content \<and> fs_text fs p s = None)"

fun changes_of ::
    "text_diff \<Rightarrow> 's executor_fs \<Rightarrow> path_buf option \<Rightarrow> path_buf \<Rightarrow> 's \<Rightarrow> hunk list
      \<Rightarrow> apply_patch_error + (path_buf \<times> apply_patch_file_change) list" where
  "changes_of diff fs home cwd s [] = Inr []"
| "changes_of diff fs home cwd s (h # hs) =
    (case hunk_change diff fs home cwd s h of
       Inl e \<Rightarrow> Inl e
     | Inr c \<Rightarrow> map_sum id ((#) (hunk_resolve_path home cwd h, c)) (changes_of diff fs home cwd s hs))"

lemma collect_changes_list:
  "collect_changes diff fs home cwd s hs m = Inr m' \<Longrightarrow>
     \<exists>cs. changes_of diff fs home cwd s hs = Inr cs \<and> m' = m(map fst cs [\<mapsto>] map snd cs)"
proof (induction hs arbitrary: m)
  case (Cons h hs)
  then obtain c where c: "hunk_change diff fs home cwd s h = Inr c"
    "collect_changes diff fs home cwd s hs (m(hunk_resolve_path home cwd h \<mapsto> c)) = Inr m'"
    by (auto split: sum.splits)
  from Cons.IH [OF c(2)] obtain cs where "changes_of diff fs home cwd s hs = Inr cs"
    "m' = (m(hunk_resolve_path home cwd h \<mapsto> c))(map fst cs [\<mapsto>] map snd cs)" by blast
  with c(1) show ?case
    by (intro exI [of _ "(hunk_resolve_path home cwd h, c) # cs"]) simp
qed simp

lemma fs_text_Inr: "fs_read_file_text fs p s = Inr c \<longleftrightarrow> fs_text fs p s = Some c"
  by (simp add: fs_text_def split: sum.split)

lemma derive_frame:
  "\<lbrakk>fs_text fs p s' = fs_text fs p s; derive_new_contents_from_chunks fs p cs s = Inr r\<rbrakk> \<Longrightarrow>
   derive_new_contents_from_chunks fs p cs s' = Inr r"
  by (cases "fs_read_file_text fs p s"; cases "fs_read_file_text fs p s'")
     (auto simp: derive_new_contents_from_chunks_def fs_text_def)

lemma hunk_change_frame:
  assumes "hunk_change diff fs home cwd s h = Inr c"
    and "\<forall>q\<in>set (hunk_targets home cwd h). fs_text fs q s' = fs_text fs q s"
  shows "hunk_change diff fs home cwd s' h = Inr c"
proof -
  let ?p = "hunk_resolve_path home cwd h"
  have p: "fs_text fs ?p s' = fs_text fs ?p s" using assms(2) by (simp add: hunk_targets_def)
  show ?thesis
  proof (cases h)
    case (UpdateFile p m cs)
    with assms(1) obtain r where "derive_new_contents_from_chunks fs ?p cs s = Inr r"
      by (auto simp: hunk_change_def Let_def unified_diff_from_chunks_def split: sum.splits)
    with derive_frame [OF p this] assms(1) UpdateFile show ?thesis
      by (simp add: hunk_change_def Let_def unified_diff_from_chunks_def)
  next
    case (DeleteFile p)
    with assms(1) obtain content where "fs_read_file_text fs ?p s = Inr content"
      by (auto simp: hunk_change_def Let_def split: sum.splits)
    moreover from this p have "fs_read_file_text fs ?p s' = Inr content" by (simp add: fs_text_Inr)
    ultimately show ?thesis using assms(1) DeleteFile by (simp add: hunk_change_def Let_def)
  qed (use assms(1) in \<open>simp add: hunk_change_def\<close>)
qed

lemma changes_of_frame:
  assumes "changes_of diff fs home cwd s hs = Inr cs"
    and "\<forall>h\<in>set hs. \<forall>q\<in>set (hunk_targets home cwd h). fs_text fs q s' = fs_text fs q s"
  shows "changes_of diff fs home cwd s' hs = Inr cs"
  using assms
proof (induction hs arbitrary: cs)
  case (Cons h hs)
  from Cons.prems(1) obtain c cs' where
    c: "hunk_change diff fs home cwd s h = Inr c" and cs': "changes_of diff fs home cwd s hs = Inr cs'"
    by (auto split: sum.splits) (auto simp: map_sum_def split: sum.splits)
  have "hunk_change diff fs home cwd s' h = Inr c" using hunk_change_frame [OF c] Cons.prems(2) by simp
  moreover have "changes_of diff fs home cwd s' hs = Inr cs'" using Cons.IH [OF cs'] Cons.prems(2) by simp
  ultimately show ?case using Cons.prems(1) c cs' by simp
qed simp

lemma hunk_effect_realised:
  assumes "hunk_effect linked fs home cwd h s s'" and "hunk_change diff fs home cwd s h = Inr c"
    and "targets_apart linked s home cwd [h]"
  shows "change_realised fs s' (hunk_resolve_path home cwd h) c"
  using assms
  by (cases h) (auto simp: hunk_effect_def hunk_change_def change_realised_def Let_def hunk_targets_def
      targets_apart_def unified_diff_from_chunks_def split: sum.splits option.splits prod.splits)

lemma change_realised_frame:
  assumes "hunk_change diff fs home cwd s0 h = Inr c"
    and "\<forall>q\<in>set (hunk_targets home cwd h). fs_text fs q s' = fs_text fs q s"
  shows "change_realised fs s' (hunk_resolve_path home cwd h) c = change_realised fs s (hunk_resolve_path home cwd h) c"
  using assms
  by (cases h) (auto simp: hunk_change_def change_realised_def Let_def hunk_targets_def
      split: sum.splits option.splits prod.splits apply_patch_file_change.splits)

lemma targets_apart_Cons:
  "targets_apart linked s home cwd (h # hs) \<longleftrightarrow> targets_apart linked s home cwd [h] \<and> targets_apart linked s home cwd hs
    \<and> (\<forall>k\<in>set hs. \<forall>p\<in>set (hunk_targets home cwd h). \<forall>q\<in>set (hunk_targets home cwd k). \<not> linked s p q \<and> \<not> linked s q p)"
  by (fastforce simp: targets_apart_def sorted_wrt_append)

lemma targets_apart_mono:
  "targets_apart linked s home cwd hs \<Longrightarrow> linked s' \<le> linked s \<Longrightarrow> targets_apart linked s' home cwd hs"
  unfolding targets_apart_def by (erule sorted_wrt_mono_rel [rotated]) (auto simp: le_fun_def)

lemma apply_hunk_list_realises:
  assumes laws: "fs_local linked fs" "fs_durable fs"
    and "targets_apart linked s home cwd hs"
    and "changes_of diff fs home cwd s hs = Inr cs"
    and "apply_hunk_list fs home cwd hs aff s = (Inr aff', s')"
  shows "\<forall>(p, c)\<in>set cs. change_realised fs s' p c"
  using assms(3-)
proof (induction hs arbitrary: s cs aff)
  case (Cons h hs)
  from Cons.prems(3) obtain aff1 s1 where
    h: "apply_hunk fs home cwd h aff s = (Inr aff1, s1)" and
    hs: "apply_hunk_list fs home cwd hs aff1 s1 = (Inr aff', s')"
    by (auto simp: try_then_Inr_iff)
  from Cons.prems(2) obtain c cs' where
    c: "hunk_change diff fs home cwd s h = Inr c" and
    cs': "changes_of diff fs home cwd s hs = Inr cs'" and
    cs: "cs = (hunk_resolve_path home cwd h, c) # cs'"
    by (auto split: sum.splits) (auto simp: map_sum_def split: sum.splits)
  from Cons.prems(1) have own: "targets_apart linked s home cwd [h]"
    and rest: "targets_apart linked s home cwd hs"
    and apart: "\<forall>k\<in>set hs. \<forall>p\<in>set (hunk_targets home cwd h). \<forall>q\<in>set (hunk_targets home cwd k).
      \<not> linked s p q \<and> \<not> linked s q p"
    unfolding targets_apart_Cons [of linked s home cwd h hs] by blast+
  have links: "linked s1 \<le> linked s" using apply_hunk_links [OF laws(1), of home cwd h aff s] h by simp
  have "\<forall>k\<in>set hs. \<forall>q\<in>set (hunk_targets home cwd k). fs_text fs q s1 = fs_text fs q s"
    using apply_hunk_frame [OF laws(1) untouched_refl, of home cwd h s _ aff] h apart
    by (fastforce simp: unreached_def untouched_def)
  with cs' have "changes_of diff fs home cwd s1 hs = Inr cs'" by (rule changes_of_frame)
  then have tail: "\<forall>(p, c)\<in>set cs'. change_realised fs s' p c"
    using Cons.IH targets_apart_mono [OF rest links] hs by blast
  have "change_realised fs s1 (hunk_resolve_path home cwd h) c"
    using apply_hunk_effect [OF laws h] c own by (rule hunk_effect_realised)
  moreover have "\<forall>q\<in>set (hunk_targets home cwd h). fs_text fs q s' = fs_text fs q s1"
  proof
    fix q assume "q \<in> set (hunk_targets home cwd h)"
    with apart links have "\<forall>k\<in>set hs. unreached linked home cwd k s1 q"
      by (fastforce simp: unreached_def le_fun_def)
    from apply_hunk_list_frame [OF laws(1) untouched_refl this, of aff1] hs
    show "fs_text fs q s' = fs_text fs q s1" by (simp add: untouched_def)
  qed
  ultimately have "change_realised fs s' (hunk_resolve_path home cwd h) c"
    using change_realised_frame [OF c] by blast
  with tail cs show ?case by simp
qed simp

end
