(* ===== verification/Patch_Properties.thy ===== *)
theory Patch_Properties
  imports Patch_Invocation
begin

section \<open>Properties of apply_patch\<close>

text \<open>
  The theorems about the patch engine, each followed by a concrete instance where it has
  hypotheses. They rest on the lemmas of the patch theories and on the interpretation
  \<open>seeker\<close> of \<open>line_seeker\<close>.
\<close>

subsection \<open>Samples used by the instances\<close>

definition sample_hunks :: "hunk list" where
  "sample_hunks =
    [AddFile (lit ''a.txt'') (lit ''x'' @ [nl]),
     UpdateFile (lit ''b.txt'') (Some (lit ''c.txt''))
       [\<lparr>change_context = Some (lit ''fn f''), old_lines = [lit ''1''], new_lines = [lit ''2'', []],
         is_end_of_file = False\<rparr>],
     DeleteFile (lit ''d.txt'')]"

lemma sample_hunks_ok: "list_all hunk_ok sample_hunks"
  by (simp add: sample_hunks_def path_ok_def chunk_ok_def chunk_nonempty_def lit_def is_whitespace_def)

subsection \<open>Parsing\<close>

text \<open>C1: Printing well-formed hunks in the documented grammar and parsing the text returns exactly those
  hunks and the text itself, in every parse mode.\<close>

theorem parse_render_roundtrip:
  assumes "list_all hunk_ok hs"
  shows "parse_patch_text (render_patch hs) mode
    = Inr \<lparr>args_patch = render_patch hs, args_hunks = hs, args_workdir = None\<rparr>"
  using assms by (rule parse_render_patch)

theorem parse_render_roundtrip_witness:
  "parse_patch_text (render_patch sample_hunks) Lenient
    = Inr \<lparr>args_patch = render_patch sample_hunks, args_hunks = sample_hunks, args_workdir = None\<rparr>"
  using parse_render_roundtrip [OF sample_hunks_ok] .

text \<open>A patch that the strict grammar accepts is read the same way by the lenient and the streaming mode.\<close>

lemma parse_modes_conservative:
  assumes "parse_patch_text s Strict = Inr a"
  shows "parse_patch s = Inr a \<and> parse_patch_streaming s = Inr a"
  using parse_modes_agree [OF assms]
  by (simp add: parse_patch_def PARSE_IN_STRICT_MODE_def parse_patch_streaming_def)

text \<open>The heredoc wrapper that some models send around the patch is transparent: the wrapped text parses
  to what the bare text parses to.\<close>

lemma heredoc_transparent:
  assumes "parse_patch_text s Strict = Inr a" and "trim s = s" and "h \<in> heredoc_open"
  shows "parse_patch (h @ [nl] @ s @ [nl] @ lit ''EOF'') = Inr a"
  using parse_heredoc [OF assms]
  by (simp add: parse_patch_def PARSE_IN_STRICT_MODE_def heredoc_wrap_def)

text \<open>Whatever the parser accepts, in any mode, is a list of well-formed hunks: paths are non-empty and do not
  end in white space, added contents end with a newline, every update has a chunk and every chunk a line.\<close>

lemma parsed_hunks_wellformed:
  assumes "parse_patch_text s mode = Inr a"
  shows "list_all hunk_wf (args_hunks a) \<and> args_workdir a = None"
  using assms by (auto simp: parse_patch_text_def dest: parse_hunks_wf split: sum.splits prod.splits)

subsection \<open>Locating and replacing lines\<close>

text \<open>C2: A search for a non-empty block that is not anchored at the end of the file returns a position at or after the
  start where the block lies in the file and matches up to normalised punctuation and surrounding white space, and
  fails exactly when there is none. A search anchored at the end of the file looks at the last position the block
  fits at and at no other: the fall-back search from the start that the comment of \<open>seek_sequence\<close> announces is not
  in the code, whose answer is the same for every start.\<close>

theorem seek_sequence_correct:
  assumes "pat \<noteq> []"
  shows "(case seek_sequence ls pat start False of
      Some i \<Rightarrow> start \<le> i \<and> i + length pat \<le> length ls \<and> lines_match normalise ls pat i
    | None \<Rightarrow> \<forall>i. start \<le> i \<and> i + length pat \<le> length ls \<longrightarrow> \<not> lines_match normalise ls pat i)
    \<and> seek_sequence ls pat start True =
      (if length pat \<le> length ls \<and> lines_match normalise ls pat (length ls - length pat)
       then Some (length ls - length pat) else None)"
proof (rule conjI)
  show "case seek_sequence ls pat start False of
      Some i \<Rightarrow> start \<le> i \<and> i + length pat \<le> length ls \<and> lines_match normalise ls pat i
    | None \<Rightarrow> \<forall>i. start \<le> i \<and> i + length pat \<le> length ls \<longrightarrow> \<not> lines_match normalise ls pat i"
    using seek_sequence_None_iff [OF assms, of ls start False] seek_sequence_cases [of ls pat start False, OF _ assms]
    by (cases "seek_sequence ls pat start False") (simp_all add: seek_range_start_def)
  show "seek_sequence ls pat start True =
      (if length pat \<le> length ls \<and> lines_match normalise ls pat (length ls - length pat)
       then Some (length ls - length pat) else None)"
    using assms by (rule seek_sequence_eof)
qed

theorem seek_sequence_correct_witness:
  "seek_sequence [lit ''a'', lit ''b ''] [lit ''b''] 0 False = Some 1 \<and>
   lines_match normalise [lit ''a'', lit ''b ''] [lit ''b''] 1 \<and>
   seek_sequence [lit ''b'', lit ''a''] [lit ''b''] 0 True = None"
proof -
  have e: "seek_sequence [lit ''a'', lit ''b ''] [lit ''b''] 0 False = Some 1" by code_simp
  have n: "\<not> lines_match normalise [lit ''b'', lit ''a''] [lit ''b''] 1" by code_simp
  show ?thesis
    using seek_sequence_correct [of "[lit ''b'']" 0 "[lit ''a'', lit ''b '']"]
      seek_sequence_correct [of "[lit ''b'']" 0 "[lit ''b'', lit ''a'']"] e n by simp
qed

text \<open>C3: For chunks that are matched in order (none appends at the end or is anchored there), the selected
  line ranges follow one another inside the file and the back-to-front in-place edit equals one
  left-to-right splice.\<close>

theorem replacements_are_a_splice:
  assumes "compute_replacements ls cs = Inr rs" and "list_all plain_chunk cs"
  shows "follow 0 (length ls) rs \<and> apply_replacements ls rs = Some (splice 0 ls rs)"
proof -
  have "follow 0 (length ls) rs"
    using assms by (auto simp: compute_replacements_def intro: seeker.compute_replacements_follow)
  then show ?thesis using apply_replacements_follow [of 0 ls rs] by simp
qed

theorem replacements_are_a_splice_witness:
  "apply_replacements [lit ''a'', lit ''b'', lit ''c''] [(1, 1, [lit ''x'', lit ''y''])]
    = Some [lit ''a'', lit ''x'', lit ''y'', lit ''c'']"
proof -
  let ?ls = "[lit ''a'', lit ''b'', lit ''c'']"
  let ?cs = "[\<lparr>change_context = None, old_lines = [lit ''b''], new_lines = [lit ''x'', lit ''y''], is_end_of_file = False\<rparr>]"
  have c: "compute_replacements ?ls ?cs = Inr [(1, 1, [lit ''x'', lit ''y''])]" by code_simp
  have p: "list_all plain_chunk ?cs" by (simp add: plain_chunk_def)
  show ?thesis using replacements_are_a_splice [OF c p] by simp
qed

text \<open>C4: Updating a file never reaches the panic of \<open>Vec::insert\<close>, for any file and any chunks, and neither does
  any hunk applied to any file system.\<close>

theorem update_never_panics:
  "new_contents_from_chunks contents cs \<noteq> Inr None \<and>
   fst (apply_hunk fs home cwd h aff s) \<noteq> Inl (AnyPatch InsertPanic)"
  by (simp add: new_contents_no_panic apply_hunk_no_panic)

text \<open>A chunk without context whose old lines occur verbatim replaces their first occurrence and nothing else.\<close>

lemma exact_chunk_replaces_first:
  assumes "old_lines c \<noteq> []" and "\<not> is_end_of_file c" and "change_context c = None"
    and "take (length (old_lines c)) (drop i (original_lines_of contents)) = old_lines c"
    and "\<forall>j<i. take (length (old_lines c)) (drop j (original_lines_of contents)) \<noteq> old_lines c"
  shows "new_contents_from_chunks contents [c] = Inr (Some (join_new_lines
     (take i (original_lines_of contents) @ new_lines c
       @ drop (i + length (old_lines c)) (original_lines_of contents))))"
proof -
  let ?ls = "original_lines_of contents"
  have c: "compute_replacements ?ls [c] = Inr [(i, length (old_lines c), new_lines c)]"
    unfolding compute_replacements_def using assms by (rule seeker.compute_replacements_one)
  have "length (old_lines c) \<le> length ?ls - i"
    using assms(4) by (metis length_drop length_take min.cobounded1)
  with assms(1) have "i \<le> length ?ls" by (cases "old_lines c") auto
  with c show ?thesis
    by (simp add: new_contents_from_chunks_def Let_def apply_replacement_eq del: apply_replacement.simps)
qed

text \<open>The anchor at the end of the file overrides the order of the chunks: a second chunk marked with the end of
  file marker may match lines an earlier chunk already replaced, and its new line is lost while the
  update still succeeds.\<close>

lemma eof_chunk_overlap_loses_lines:
  "let ls = [lit ''a'', lit ''b''];
       c1 = \<lparr>change_context = None, old_lines = [lit ''a'', lit ''b''], new_lines = [lit ''x'', lit ''y''], is_end_of_file = False\<rparr>;
       c2 = \<lparr>change_context = None, old_lines = [lit ''b''], new_lines = [lit ''z''], is_end_of_file = True\<rparr>
   in compute_replacements ls [c1, c2] = Inr [(0, 2, [lit ''x'', lit ''y'']), (1, 1, [lit ''z''])]
    \<and> apply_replacements ls [(0, 2, [lit ''x'', lit ''y'']), (1, 1, [lit ''z''])] = Some [lit ''x'', lit ''y'']
    \<and> seek_sequence [lit ''b'', lit ''a''] [lit ''b''] 0 True = None"
  unfolding Let_def by code_simp

subsection \<open>The file system\<close>

text \<open>C5: Applying a patch, whether it succeeds or fails, changes the text of no path that is not linked to a source
  or destination of its hunks, on a file system where writing or removing at a path changes the text only at paths
  linked to it (the same name, a hard link or a symbolic link), creating a directory changes no text and none of
  these operations makes new links.\<close>

theorem patch_touches_only_targets:
  assumes "fs_local linked fs"
    and "\<forall>h\<in>set hs. \<forall>p\<in>set (hunk_targets home cwd h). \<not> linked s p q"
  shows "fs_text fs q (snd (apply_hunks_to_files fs home cwd hs s)) = fs_text fs q s"
proof -
  have "\<forall>h\<in>set hs. unreached linked home cwd h s q" using assms(2) by (simp add: unreached_def)
  from apply_hunk_list_frame [OF assms(1) untouched_refl this] show ?thesis
    by (simp add: apply_hunks_to_files_def untouched_def)
qed

text \<open>The instance has a hard link: overwriting \<open>/a\<close> changes \<open>/b\<close>, which is the same file, and not \<open>/c\<close>.\<close>

definition linked_files :: link_state where
  "linked_files =
    ([([RootDir, Normal (lit ''a'')], 0), ([RootDir, Normal (lit ''b'')], 0), ([RootDir, Normal (lit ''c'')], 1)],
     (\<lambda>_. [])(0 := lit ''x'' @ [nl], 1 := lit ''y''))"

theorem patch_touches_only_targets_witness:
  "let s' = snd (apply_hunks_to_files link_fs None [RootDir] [AddFile (lit ''a'') (lit ''z'')] linked_files) in
   fs_text link_fs [RootDir, Normal (lit ''c'')] s' = fs_text link_fs [RootDir, Normal (lit ''c'')] linked_files \<and>
   fs_text link_fs [RootDir, Normal (lit ''b'')] s' = Some (lit ''z'')"
proof -
  have t: "hunk_targets None [RootDir] (AddFile (lit ''a'') (lit ''z'')) = [[RootDir, Normal (lit ''a'')]]" by code_simp
  have "\<not> hard_linked linked_files [RootDir, Normal (lit ''a'')] [RootDir, Normal (lit ''c'')]"
    by (simp add: hard_linked_def linked_files_def lit_def)
  with t have "\<forall>h\<in>set [AddFile (lit ''a'') (lit ''z'')]. \<forall>p\<in>set (hunk_targets None [RootDir] h).
      \<not> hard_linked linked_files p [RootDir, Normal (lit ''c'')]" by simp
  from patch_touches_only_targets [OF link_fs_laws(1) this]
  have c: "fs_text link_fs [RootDir, Normal (lit ''c'')]
      (snd (apply_hunks_to_files link_fs None [RootDir] [AddFile (lit ''a'') (lit ''z'')] linked_files))
    = fs_text link_fs [RootDir, Normal (lit ''c'')] linked_files" .
  have "fs_text link_fs [RootDir, Normal (lit ''b'')]
      (snd (apply_hunks_to_files link_fs None [RootDir] [AddFile (lit ''a'') (lit ''z'')] linked_files)) = Some (lit ''z'')"
    by code_simp
  with c show ?thesis unfolding Let_def by (rule conjI)
qed

text \<open>C6: The changes shown to the user are the changes made: when applying the hunks of a verified patch succeeds and
  no source or destination of them is linked to another one, every previewed change holds of the files afterwards.
  Relied on of the file system: a write or a removal changes the text only at paths linked to its path, creating a
  directory changes no text, none of them makes new links, a successful write is read back, and a removed path has
  no text.\<close>

theorem preview_is_realised:
  assumes "fs_local linked fs" and "fs_durable fs"
    and "targets_apart linked s home cwd hs"
    and "collect_changes diff fs home cwd s hs Map.empty = Inr changes"
    and "apply_hunks_to_files fs home cwd hs s = (Inr affected, s')"
    and "changes p = Some c"
  shows "change_realised fs s' p c"
proof -
  obtain cs where cs: "changes_of diff fs home cwd s hs = Inr cs"
    and m: "changes = Map.empty(map fst cs [\<mapsto>] map snd cs)"
    using collect_changes_list [OF assms(4)] by blast
  from assms(5) have "apply_hunk_list fs home cwd hs no_affected s = (Inr affected, s')"
    by (auto simp: apply_hunks_to_files_def split: if_splits)
  then have all: "\<forall>(p, c)\<in>set cs. change_realised fs s' p c"
    using apply_hunk_list_realises [OF assms(1-3) cs] by blast
  from m assms(6) have "map_of (rev (zip (map fst cs) (map snd cs))) p = Some c"
    by (simp add: map_upds_def)
  then have "(p, c) \<in> set cs"
    by (auto dest!: map_of_SomeD simp: zip_map_fst_snd)
  with all show ?thesis by auto
qed

text \<open>The instance moves \<open>/a\<close>, which \<open>/b\<close> is a hard link to, to \<open>/d\<close> and deletes \<open>/c\<close>.\<close>

theorem preview_is_realised_witness:
  "\<exists>s'. apply_hunks_to_files link_fs None [RootDir]
        [UpdateFile (lit ''a'') (Some (lit ''d''))
           [\<lparr>change_context = None, old_lines = [lit ''x''], new_lines = [lit ''w''], is_end_of_file = False\<rparr>],
         DeleteFile (lit ''c'')] linked_files
       = (Inr \<lparr>added = [], modified = [lit ''d''], deleted = [lit ''c'']\<rparr>, s')
     \<and> change_realised link_fs s' [RootDir, Normal (lit ''a'')]
         (Update [] (Some [RootDir, Normal (lit ''d'')]) (lit ''w'' @ [nl]))"
proof -
  let ?a = "[RootDir, Normal (lit ''a'')]" and ?c = "[RootDir, Normal (lit ''c'')]" and ?d = "[RootDir, Normal (lit ''d'')]"
  let ?u = "UpdateFile (lit ''a'') (Some (lit ''d''))
           [\<lparr>change_context = None, old_lines = [lit ''x''], new_lines = [lit ''w''], is_end_of_file = False\<rparr>]"
  let ?hs = "[?u, DeleteFile (lit ''c'')]" and ?up = "Update [] (Some ?d) (lit ''w'' @ [nl])"
  have t: "hunk_targets None [RootDir] ?u = [?a, ?d]" "hunk_targets None [RootDir] (DeleteFile (lit ''c'')) = [?c]"
    by code_simp+
  have m: "map_of (fst linked_files) ?a = Some 0" "map_of (fst linked_files) ?c = Some 1"
    "map_of (fst linked_files) ?d = None" "?a \<noteq> ?d" "?d \<noteq> ?a" by code_simp+
  then have "?a \<noteq> ?c" "?c \<noteq> ?a" "?c \<noteq> ?d" "?d \<noteq> ?c" by auto
  with m have d: "targets_apart hard_linked linked_files None [RootDir] ?hs"
    by (simp add: targets_apart_def t hard_linked_def)
  have p: "hunk_resolve_path None [RootDir] ?u = ?a" "hunk_resolve_path None [RootDir] (DeleteFile (lit ''c'')) = ?c"
    by code_simp+
  have c: "hunk_change (\<lambda>_ _ _. []) link_fs None [RootDir] linked_files ?u = Inr ?up"
    "hunk_change (\<lambda>_ _ _. []) link_fs None [RootDir] linked_files (DeleteFile (lit ''c'')) = Inr (Delete (lit ''y''))"
    by code_simp+
  have cs: "collect_changes (\<lambda>_ _ _. []) link_fs None [RootDir] linked_files ?hs Map.empty
      = Inr [?a \<mapsto> ?up, ?c \<mapsto> Delete (lit ''y'')]"
    by (simp add: c p)
  have "fst (apply_hunks_to_files link_fs None [RootDir] ?hs linked_files)
      = Inr \<lparr>added = [], modified = [lit ''d''], deleted = [lit ''c'']\<rparr>" by code_simp
  then obtain s' where r: "apply_hunks_to_files link_fs None [RootDir] ?hs linked_files
      = (Inr \<lparr>added = [], modified = [lit ''d''], deleted = [lit ''c'']\<rparr>, s')" by (metis prod.collapse)
  have "[?a \<mapsto> ?up, ?c \<mapsto> Delete (lit ''y'')] ?a = Some ?up" by (simp add: lit_def)
  from r preview_is_realised [OF link_fs_laws d cs r this] show ?thesis by blast
qed

text \<open>A successful run reports exactly the paths of the hunks, each in the list of its kind and in patch order.\<close>

lemma summary_lists_every_hunk:
  assumes "apply_hunks_to_files fs home cwd hs s = (Inr affected, s')"
  shows "affected = fold record_affected hs no_affected \<and> hs \<noteq> []"
  using assms by (auto simp: apply_hunks_to_files_def dest: apply_hunk_list_affected split: if_splits)

text \<open>Application is not transactional: when a hunk fails after others succeeded, the run fails with the error
  of that hunk and the effects of the earlier hunks stay.\<close>

lemma failing_hunk_keeps_earlier_effects:
  assumes "hs \<noteq> []" and "apply_hunks_to_files fs home cwd hs s = (Inr aff, s1)"
    and "apply_hunk fs home cwd h aff s1 = (Inl e, s2)"
  shows "apply_hunks_to_files fs home cwd (hs @ h # hs') s = (Inl e, s2)"
  using assms by (simp add: apply_hunks_to_files_def apply_hunk_list_append)

text \<open>Resolving any path text against an absolute, normalised base gives an absolute path without \<open>.\<close> and
  \<open>..\<close>, which does not change when it is normalised again.\<close>

lemma resolved_paths_are_absolute:
  assumes "abs_normal base" and "\<And>h. home = Some h \<Longrightarrow> abs_normal h"
  shows "abs_normal (resolve_path_against_base home s base)
    \<and> normalize_path (resolve_path_against_base home s base) = resolve_path_against_base home s base"
  using absolutize_from_abs [OF assms(1) expand_home_root_once [OF assms(2)]] normalize_path_id
  by (simp add: resolve_path_against_base_def)

end
