(* ===== verification/Exec_Rule.thy ===== *)
theory Exec_Rule
  imports Paths
begin

section \<open>Execution policy rules (execpolicy: decision, error, rule, executable\_name)\<close>

text \<open>
  The data of the \<open>execpolicy\<close> crate: the ordered decisions, the tokens and prefix patterns of
  a rule, the matches a rule reports, the network rules with their host normalisation, and the
  error values. The trait \<open>Rule\<close> is the locale \<open>command_rule\<close>; its one implementation in the
  code, \<open>PrefixRule\<close>, is the interpretation \<open>prefix\<close>. Everything is the Unix build of the code.
\<close>

subsection \<open>Decisions\<close>

datatype decision = Allow | Prompt | Forbidden

text \<open>The derived \<open>Ord\<close>: constructors in their order, so \<open>max\<close> is the strictest decision.\<close>

fun strictness :: "decision \<Rightarrow> nat" where
  "strictness Allow = 0"
| "strictness Prompt = 1"
| "strictness Forbidden = 2"

lemma strictness_inject: "strictness a = strictness b \<longleftrightarrow> a = b"
  by (cases a; cases b) auto

instantiation decision :: linorder
begin

definition less_eq_decision :: "decision \<Rightarrow> decision \<Rightarrow> bool" where
  "less_eq_decision a b \<longleftrightarrow> strictness a \<le> strictness b"

definition less_decision :: "decision \<Rightarrow> decision \<Rightarrow> bool" where
  "less_decision a b \<longleftrightarrow> strictness a < strictness b"

instance
  by standard (auto simp: less_eq_decision_def less_decision_def strictness_inject)

end

lemma decision_order [simp]:
  "Allow \<le> d" "d \<le> Forbidden" "\<not> Prompt \<le> Allow" "\<not> Forbidden \<le> Prompt" "\<not> Forbidden \<le> Allow"
  by (cases d; simp add: less_eq_decision_def)+

lemma decision_le_Allow [simp]: "d \<le> Allow \<longleftrightarrow> d = Allow"
  by (cases d) (simp_all add: less_eq_decision_def)

lemma decision_Forbidden_le [simp]: "Forbidden \<le> d \<longleftrightarrow> d = Forbidden"
  by (cases d) (simp_all add: less_eq_decision_def)

subsection \<open>Errors\<close>

record text_position =
  pos_line :: nat
  pos_column :: nat

record text_range =
  range_start :: text_position
  range_end :: text_position

record error_location =
  loc_path :: ustr
  loc_range :: text_range

text \<open>
  An error of the Starlark evaluator is either its own diagnostic, with the span it knows, or
  the error of a builtin that the evaluator has wrapped.
\<close>

datatype policy_error =
    InvalidDecision ustr
  | InvalidPattern ustr
  | InvalidExample ustr
  | InvalidRule ustr
  | ExampleDidNotMatch "ustr list" "ustr list" "error_location option"
  | ExampleDidMatch ustr ustr "error_location option"
  | Starlark starlark_error
and starlark_error =
    Diagnostic ustr "error_location option"
  | FromBuiltin policy_error "error_location option"

fun starlark_span :: "starlark_error \<Rightarrow> error_location option" where
  "starlark_span (Diagnostic _ span) = span"
| "starlark_span (FromBuiltin _ span) = span"

fun with_location :: "policy_error \<Rightarrow> error_location \<Rightarrow> policy_error" where
  "with_location (ExampleDidNotMatch rules examples None) l = ExampleDidNotMatch rules examples (Some l)"
| "with_location (ExampleDidMatch rule ex None) l = ExampleDidMatch rule ex (Some l)"
| "with_location other l = other"

text \<open>The span of a Starlark error, counted from zero, as a location counted from one.\<close>

definition one_based :: "text_position \<Rightarrow> text_position" where
  "one_based p = \<lparr>pos_line = pos_line p + 1, pos_column = pos_column p + 1\<rparr>"

definition error_location_from_file_span :: "error_location \<Rightarrow> error_location" where
  "error_location_from_file_span span =
    \<lparr>loc_path = loc_path span,
     loc_range = \<lparr>range_start = one_based (range_start (loc_range span)),
                  range_end = one_based (range_end (loc_range span))\<rparr>\<rparr>"

fun error_location_of :: "policy_error \<Rightarrow> error_location option" where
  "error_location_of (ExampleDidNotMatch _ _ l) = l"
| "error_location_of (ExampleDidMatch _ _ l) = l"
| "error_location_of (Starlark err) = map_option error_location_from_file_span (starlark_span err)"
| "error_location_of _ = None"

text \<open>\<open>Decision::parse\<close>.\<close>

definition decision_parse :: "ustr \<Rightarrow> policy_error + decision" where
  "decision_parse raw =
    (if raw = lit ''allow'' then Inr Allow
     else if raw = lit ''prompt'' then Inr Prompt
     else if raw = lit ''forbidden'' then Inr Forbidden
     else Inl (InvalidDecision raw))"

subsection \<open>Executable names\<close>

definition executable_lookup_key :: "ustr \<Rightarrow> ustr" where
  "executable_lookup_key raw = raw"

definition executable_path_lookup_key :: "path_buf \<Rightarrow> ustr option" where
  "executable_path_lookup_key p = map_option executable_lookup_key (file_name p)"

subsection \<open>Patterns\<close>

datatype pattern_token = Single ustr | Alts "ustr list"

fun token_matches :: "pattern_token \<Rightarrow> ustr \<Rightarrow> bool" where
  "token_matches (Single expected) token = (expected = token)"
| "token_matches (Alts alternatives) token = (token \<in> set alternatives)"

fun token_alternatives :: "pattern_token \<Rightarrow> ustr list" where
  "token_alternatives (Single expected) = [expected]"
| "token_alternatives (Alts alternatives) = alternatives"

lemma token_matches_alternatives: "token_matches t w \<longleftrightarrow> w \<in> set (token_alternatives t)"
  by (cases t) auto

record prefix_pattern =
  pattern_first :: ustr
  pattern_rest :: "pattern_token list"

definition matches_prefix :: "prefix_pattern \<Rightarrow> ustr list \<Rightarrow> ustr list option" where
  "matches_prefix p cmd =
    (let pattern_length = length (pattern_rest p) + 1 in
     if length cmd < pattern_length \<or> cmd ! 0 \<noteq> pattern_first p then None
     else if list_all (\<lambda>(t, w). token_matches t w) (zip (pattern_rest p) (take (length (pattern_rest p)) (drop 1 cmd)))
     then Some (take pattern_length cmd) else None)"

subsection \<open>Rules and their matches\<close>

datatype rule_match =
    PrefixRuleMatch (matched_prefix: "ustr list") (match_decision: decision)
      (resolved_program: "path_buf option") (match_justification: "ustr option")
  | HeuristicsRuleMatch (heuristic_command: "ustr list") (match_decision: decision)

fun with_resolved_program :: "rule_match \<Rightarrow> path_buf \<Rightarrow> rule_match" where
  "with_resolved_program (PrefixRuleMatch prefix d _ j) program = PrefixRuleMatch prefix d (Some program) j"
| "with_resolved_program other program = other"

lemma with_resolved_program_decision [simp]:
  "match_decision (with_resolved_program m p) = match_decision m"
  by (cases m) auto

record prefix_rule =
  rule_pattern :: prefix_pattern
  rule_decision :: decision
  rule_justification :: "ustr option"

definition rule_program :: "prefix_rule \<Rightarrow> ustr" where
  "rule_program r = pattern_first (rule_pattern r)"

definition rule_matches :: "prefix_rule \<Rightarrow> ustr list \<Rightarrow> rule_match option" where
  "rule_matches r cmd =
    map_option (\<lambda>prefix. PrefixRuleMatch prefix (rule_decision r) None (rule_justification r))
      (matches_prefix (rule_pattern r) cmd)"

text \<open>Whether a match comes from a rule of the policy rather than from the fallback.\<close>

fun is_policy_match :: "rule_match \<Rightarrow> bool" where
  "is_policy_match (PrefixRuleMatch _ _ _ _) = True"
| "is_policy_match (HeuristicsRuleMatch _ _) = False"

lemma with_resolved_program_policy [simp]:
  "is_policy_match (with_resolved_program m p) = is_policy_match m"
  by (cases m) auto

subsection \<open>Network rules\<close>

datatype network_rule_protocol = Http | Https | Socks5Tcp | Socks5Udp

definition protocol_parse :: "ustr \<Rightarrow> policy_error + network_rule_protocol" where
  "protocol_parse raw =
    (if raw = lit ''http'' then Inr Http
     else if raw = lit ''https'' \<or> raw = lit ''https_connect'' \<or> raw = lit ''http-connect'' then Inr Https
     else if raw = lit ''socks5_tcp'' then Inr Socks5Tcp
     else if raw = lit ''socks5_udp'' then Inr Socks5Udp
     else Inl (InvalidRule (lit ''network_rule protocol must be one of http, https, socks5_tcp, socks5_udp (got ''
            @ raw @ lit '')'')))"

fun as_policy_string :: "network_rule_protocol \<Rightarrow> ustr" where
  "as_policy_string Http = lit ''http''"
| "as_policy_string Https = lit ''https''"
| "as_policy_string Socks5Tcp = lit ''socks5_tcp''"
| "as_policy_string Socks5Udp = lit ''socks5_udp''"

lemma protocol_roundtrip: "protocol_parse (as_policy_string p) = Inr p"
  by (cases p) (simp_all add: protocol_parse_def)

record network_rule =
  net_host :: ustr
  net_protocol :: network_rule_protocol
  net_decision :: decision
  net_justification :: "ustr option"

text \<open>The optional port after a bracketed IPv6 literal or a plain host.\<close>

definition is_port :: "ustr \<Rightarrow> bool" where
  "is_port port \<longleftrightarrow> port \<noteq> [] \<and> list_all is_ascii_digit port"

definition strip_host_port :: "ustr \<Rightarrow> ustr \<Rightarrow> policy_error + ustr" where
  "strip_host_port raw host =
    (case strip_prefix (lit ''['') host of
       Some stripped \<Rightarrow>
         (case split_once 93 stripped of
            None \<Rightarrow> Inl (InvalidRule (lit ''network_rule host has an invalid bracketed IPv6 literal''))
          | Some (inside, rest) \<Rightarrow>
              (let port_ok = (case strip_prefix (lit '':'') rest of Some port \<Rightarrow> is_port port | None \<Rightarrow> False)
               in if rest \<noteq> [] \<and> \<not> port_ok
                  then Inl (InvalidRule (lit ''network_rule host contains an unsupported suffix: '' @ raw))
                  else Inr inside))
     | None \<Rightarrow>
         if length (filter (\<lambda>c. c = c_colon) host) = 1
         then (case rsplit_once c_colon host of
                 Some (candidate, port) \<Rightarrow> Inr (if candidate \<noteq> [] \<and> is_port port then candidate else host)
               | None \<Rightarrow> Inr host)
         else Inr host)"

definition host_text :: "ustr \<Rightarrow> ustr" where
  "host_text host = to_ascii_lowercase (trim (trim_end_matches (\<lambda>c. c = c_dot) host))"

definition normalize_network_rule_host :: "ustr \<Rightarrow> policy_error + ustr" where
  "normalize_network_rule_host raw =
    (let host = trim raw in
     if host = [] then Inl (InvalidRule (lit ''network_rule host cannot be empty''))
     else if contains_str (lit ''://'') host \<or> c_slash \<in> set host \<or> 63 \<in> set host \<or> 35 \<in> set host
     then Inl (InvalidRule (lit ''network_rule host must be a hostname or IP literal (without scheme or path)''))
     else case strip_host_port raw host of
       Inl e \<Rightarrow> Inl e
     | Inr host' \<Rightarrow>
        (let normalized = host_text host' in
         if normalized = [] then Inl (InvalidRule (lit ''network_rule host cannot be empty''))
         else if c_star \<in> set normalized
         then Inl (InvalidRule (lit ''network_rule host must be a specific host; wildcards are not allowed''))
         else if list_ex is_whitespace normalized
         then Inl (InvalidRule (lit ''network_rule host cannot contain whitespace''))
         else Inr normalized))"

subsection \<open>What a prefix pattern accepts\<close>

lemma matches_prefix_Some_iff:
  "matches_prefix p cmd = Some m \<longleftrightarrow>
     (\<exists>ws rest. cmd = pattern_first p # ws @ rest \<and> m = pattern_first p # ws
        \<and> list_all2 token_matches (pattern_rest p) ws)"
proof
  let ?n = "length (pattern_rest p)"
  assume m: "matches_prefix p cmd = Some m"
  then have len: "?n + 1 \<le> length cmd" and hd: "cmd ! 0 = pattern_first p" and m': "m = take (?n + 1) cmd"
    and all: "list_all (\<lambda>(t, w). token_matches t w) (zip (pattern_rest p) (take ?n (drop 1 cmd)))"
    by (auto simp: matches_prefix_def Let_def not_less split: if_splits)
  from len hd obtain cs where cmd: "cmd = pattern_first p # cs" by (cases cmd) auto
  let ?ws = "take ?n cs"
  from len cmd have "length ?ws = ?n" by simp
  with all cmd have "list_all2 token_matches (pattern_rest p) ?ws"
    by (auto simp: list_all2_iff list_all_iff)
  moreover have "cmd = pattern_first p # ?ws @ drop ?n cs" by (simp add: cmd)
  moreover have "m = pattern_first p # ?ws" by (simp add: m' cmd)
  ultimately show "\<exists>ws rest. cmd = pattern_first p # ws @ rest \<and> m = pattern_first p # ws
        \<and> list_all2 token_matches (pattern_rest p) ws" by blast
next
  assume "\<exists>ws rest. cmd = pattern_first p # ws @ rest \<and> m = pattern_first p # ws
        \<and> list_all2 token_matches (pattern_rest p) ws"
  then obtain ws rest where cmd: "cmd = pattern_first p # ws @ rest" and m: "m = pattern_first p # ws"
    and all: "list_all2 token_matches (pattern_rest p) ws" by blast
  from all have "length ws = length (pattern_rest p)" by (simp add: list_all2_lengthD)
  with all show "matches_prefix p cmd = Some m"
    by (auto simp: matches_prefix_def Let_def cmd m list_all2_iff list_all_iff)
qed

lemma matches_prefix_singles:
  "matches_prefix \<lparr>pattern_first = f, pattern_rest = map Single ws\<rparr> cmd =
     (if take (Suc (length ws)) cmd = f # ws then Some (f # ws) else None)"
proof -
  have "matches_prefix \<lparr>pattern_first = f, pattern_rest = map Single ws\<rparr> cmd = Some m \<longleftrightarrow>
      m = f # ws \<and> take (Suc (length ws)) cmd = f # ws" for m
  proof -
    have "list_all2 token_matches (map Single ws) vs \<longleftrightarrow> vs = ws" for vs
      by (auto simp: list_all2_map1 list.rel_eq)
    moreover have "take (Suc (length ws)) cmd = f # ws \<longleftrightarrow> (\<exists>rest. cmd = f # ws @ rest)"
      by (metis append_Cons append_take_drop_id length_Cons append_eq_conv_conj)
    ultimately show ?thesis by (auto simp: matches_prefix_Some_iff)
  qed
  then show ?thesis by (cases "matches_prefix \<lparr>pattern_first = f, pattern_rest = map Single ws\<rparr> cmd") auto
qed

subsection \<open>The contract of a rule\<close>

text \<open>
  What \<open>Policy\<close> relies on when it calls a rule: a rule filed under its program only matches
  commands of that program, reports a policy match whose prefix the command has, and keeps
  matching when arguments are added. \<open>filter_rules\<close> is the \<open>filter_map\<close> of the policy.
\<close>

definition filter_rules :: "('r \<Rightarrow> ustr list \<Rightarrow> rule_match option) \<Rightarrow> 'r list \<Rightarrow> ustr list \<Rightarrow> rule_match list" where
  "filter_rules matches rules cmd = List.map_filter (\<lambda>r. matches r cmd) rules"

lemma in_filter_rules: "m \<in> set (filter_rules f rules cmd) \<longleftrightarrow> (\<exists>r\<in>set rules. f r cmd = Some m)"
  by (force simp: filter_rules_def List.map_filter_def)

lemma filter_rules_append [simp]: "filter_rules f (xs @ ys) cmd = filter_rules f xs cmd @ filter_rules f ys cmd"
  by (simp add: filter_rules_def List.map_filter_def)

lemma filter_rules_Nil [simp]: "filter_rules f [] cmd = []"
  by (simp add: filter_rules_def List.map_filter_def)

lemma filter_rules_single: "filter_rules f [r] cmd = (case f r cmd of Some m \<Rightarrow> [m] | None \<Rightarrow> [])"
  by (simp add: filter_rules_def List.map_filter_def split: option.splits)

locale command_rule =
  fixes program :: "'r \<Rightarrow> ustr"
    and matches :: "'r \<Rightarrow> ustr list \<Rightarrow> rule_match option"
  assumes matches_program: "matches r cmd = Some m \<Longrightarrow> cmd \<noteq> [] \<and> hd cmd = program r"
    and matches_policy: "matches r cmd = Some m \<Longrightarrow> is_policy_match m"
    and matches_takes: "matches r cmd = Some m \<Longrightarrow> \<exists>rest. cmd = matched_prefix m @ rest"
    and matches_more: "matches r cmd = Some m \<Longrightarrow> matches r (cmd @ extra) = Some m"
begin

lemma filter_rules_policy: "m \<in> set (filter_rules matches rules cmd) \<Longrightarrow> is_policy_match m"
  by (auto simp: in_filter_rules dest: matches_policy)

lemma filter_rules_program:
  "\<lbrakk>m \<in> set (filter_rules matches rules cmd)\<rbrakk> \<Longrightarrow> \<exists>r\<in>set rules. cmd \<noteq> [] \<and> hd cmd = program r"
  by (auto simp: in_filter_rules dest: matches_program)

lemma filter_rules_prefix:
  "m \<in> set (filter_rules matches rules cmd) \<Longrightarrow> \<exists>rest. cmd = matched_prefix m @ rest"
  by (auto simp: in_filter_rules dest: matches_takes)

lemma filter_rules_more:
  "set (filter_rules matches rules cmd) \<subseteq> set (filter_rules matches rules (cmd @ extra))"
  using matches_more by (fastforce simp: in_filter_rules)

lemma filter_rules_other:
  "\<forall>r\<in>set rules. program r \<noteq> hd cmd \<Longrightarrow> filter_rules matches rules cmd = []"
  using filter_rules_program [of _ rules cmd] by (metis all_not_in_conv set_empty)

end

interpretation prefix: command_rule rule_program rule_matches
proof
  fix r cmd m extra
  assume m: "rule_matches r cmd = Some m"
  then obtain ws rest where cmd: "cmd = pattern_first (rule_pattern r) # ws @ rest"
    and all: "list_all2 token_matches (pattern_rest (rule_pattern r)) ws"
    and m': "m = PrefixRuleMatch (pattern_first (rule_pattern r) # ws) (rule_decision r) None (rule_justification r)"
    by (auto simp: rule_matches_def matches_prefix_Some_iff)
  from cmd show "cmd \<noteq> [] \<and> hd cmd = rule_program r" by (simp add: rule_program_def)
  from m' show "is_policy_match m" by simp
  from cmd m' show "\<exists>rest. cmd = matched_prefix m @ rest" by simp
  from cmd all have "matches_prefix (rule_pattern r) (cmd @ extra) = Some (pattern_first (rule_pattern r) # ws)"
    by (auto simp: matches_prefix_Some_iff)
  with m' show "rule_matches r (cmd @ extra) = Some m" by (simp add: rule_matches_def)
qed

subsection \<open>What host normalisation guarantees\<close>

text \<open>The host names a network rule can hold.\<close>

definition rule_host :: "ustr \<Rightarrow> bool" where
  "rule_host h \<longleftrightarrow> h \<noteq> [] \<and> to_ascii_lowercase h = h \<and> c_star \<notin> set h
     \<and> c_slash \<notin> set h \<and> 63 \<notin> set h \<and> 35 \<notin> set h \<and> list_all (\<lambda>c. \<not> is_whitespace c) h"

lemma set_to_ascii_lowercase:
  "\<lbrakk>c \<notin> set s; c < 65 \<or> 122 < c\<rbrakk> \<Longrightarrow> c \<notin> set (to_ascii_lowercase s)"
  by (auto simp: to_ascii_lowercase_def)

lemma set_trim_end_matches: "set (trim_end_matches p s) \<subseteq> set s"
  using set_dropWhileD by (fastforce simp: trim_end_matches_def)

lemma set_trim: "set (trim s) \<subseteq> set s"
  using set_trim_end_matches set_dropWhileD
  by (fastforce simp: trim_def trim_end_def trim_start_def trim_start_matches_def)

lemma set_host_text: "\<lbrakk>c \<notin> set h; c < 65 \<or> 122 < c\<rbrakk> \<Longrightarrow> c \<notin> set (host_text h)"
  unfolding host_text_def using set_trim set_trim_end_matches
  by (meson set_to_ascii_lowercase subsetD)

lemma strip_host_port_set: "strip_host_port raw host = Inr h \<Longrightarrow> set h \<subseteq> set host"
  by (auto simp: strip_host_port_def Let_def strip_prefix_Some_iff split_once_Some_iff rsplit_once_Some_iff
      split: option.splits if_splits prod.splits)

lemma normalize_rule_host:
  assumes "normalize_network_rule_host raw = Inr h"
  shows "rule_host h"
proof -
  let ?host = "trim raw"
  obtain h' where ok: "c_slash \<notin> set ?host" "63 \<notin> set ?host" "35 \<notin> set ?host"
    and h': "strip_host_port raw ?host = Inr h'" and h: "h = host_text h'"
    and h_ok: "h \<noteq> []" "c_star \<notin> set h" "\<not> list_ex is_whitespace h"
    using assms by (auto simp: normalize_network_rule_host_def Let_def split: if_splits sum.splits)
  from strip_host_port_set [OF h'] ok have "c_slash \<notin> set h'" "63 \<notin> set h'" "35 \<notin> set h'" by auto
  then have "c_slash \<notin> set h" "63 \<notin> set h" "35 \<notin> set h" by (simp_all add: h set_host_text)
  with h_ok show ?thesis
    by (auto simp: rule_host_def h host_text_def list_ex_iff list_all_iff)
qed

text \<open>Normalising again changes nothing unless the host still ends in a dot or holds one colon.\<close>

lemma normalize_rule_host_id:
  assumes "rule_host h" and "last h \<noteq> c_dot" and "hd h \<noteq> 91"
    and "length (filter (\<lambda>c. c = c_colon) h) \<noteq> 1"
  shows "normalize_network_rule_host h = Inr h"
proof -
  from assms(1) have ne: "h \<noteq> []" and low: "to_ascii_lowercase h = h"
    and no: "c_star \<notin> set h" "c_slash \<notin> set h" "63 \<notin> set h" "35 \<notin> set h"
    and ws: "\<forall>c\<in>set h. \<not> is_whitespace c"
    by (auto simp: rule_host_def list_all_iff)
  from ne ws have trim: "trim h = h" by (intro trim_id) auto
  from ne assms(2) have dots: "trim_end_matches (\<lambda>c. c = c_dot) h = h" by (simp add: trim_end_matches_id)
  have port: "strip_host_port h h = Inr h"
    using assms(3,4) ne by (cases h) (auto simp: strip_host_port_def lit_def)
  have "\<not> contains_str (lit ''://'') s" if "c_slash \<notin> set s" for s
    using that by (induction s) (auto simp: lit_def starts_with_iff)
  with no have scheme: "\<not> contains_str (lit ''://'') h" by blast
  show ?thesis
    using ne low no ws scheme
    by (simp add: normalize_network_rule_host_def Let_def trim port host_text_def dots list_ex_iff)
qed

end
