(* ===== verification/Exec_Policy.thy ===== *)
theory Exec_Policy
  imports Exec_Rule "HOL-Library.List_Lexorder"
begin

section \<open>The policy engine (execpolicy: policy, and the example checks of rule)\<close>

text \<open>
  \<open>Policy\<close> with its three tables and every operation on it: adding rules, overlaying another
  policy, compiling the network rules to domain lists, and matching a command, first against
  the rules filed under its program and then, when asked, against those filed under the file
  name of the program. A \<open>MultiMap\<close> is kept as an association list in one iteration order;
  no result depends on it. \<open>expect\<close> in \<open>Evaluation::from_matches\<close> is the value \<open>None\<close>.
  The home and working directory of the process, and the text of the error when the latter is
  unavailable, are parameters.
\<close>

subsection \<open>Multimaps\<close>

type_synonym 'v multimap = "(ustr \<times> 'v list) list"

fun mm_insert :: "ustr \<Rightarrow> 'v \<Rightarrow> 'v multimap \<Rightarrow> 'v multimap" where
  "mm_insert k v [] = [(k, [v])]"
| "mm_insert k v ((k', vs) # m) = (if k = k' then (k', vs @ [v]) # m else (k', vs) # mm_insert k v m)"

definition get_vec :: "'v multimap \<Rightarrow> ustr \<Rightarrow> 'v list option" where
  "get_vec m k = map_of m k"

text \<open>The rules filed under a key, none when the key is absent.\<close>

definition filed :: "'v multimap \<Rightarrow> ustr \<Rightarrow> 'v list" where
  "filed m k = (case get_vec m k of Some vs \<Rightarrow> vs | None \<Rightarrow> [])"

lemma get_vec_insert:
  "get_vec (mm_insert k v m) j = (if j = k then Some (filed m k @ [v]) else get_vec m j)"
  by (induction m) (auto simp: get_vec_def filed_def)

lemma filed_insert [simp]: "filed (mm_insert k v m) j = (if j = k then filed m k @ [v] else filed m j)"
  by (simp add: filed_def get_vec_insert)

lemma filed_Nil [simp]: "filed [] k = []"
  by (simp add: filed_def get_vec_def)

subsection \<open>Policies\<close>

record match_options =
  resolve_host_executables :: bool

record policy =
  rules_by_program :: "prefix_rule multimap"
  network_rules :: "network_rule list"
  host_executables_by_name :: "ustr \<rightharpoonup> path_buf list"

definition from_parts ::
    "prefix_rule multimap \<Rightarrow> network_rule list \<Rightarrow> (ustr \<rightharpoonup> path_buf list) \<Rightarrow> policy" where
  "from_parts rules net execs =
    \<lparr>rules_by_program = rules, network_rules = net, host_executables_by_name = execs\<rparr>"

definition policy_new :: "prefix_rule multimap \<Rightarrow> policy" where
  "policy_new rules = from_parts rules [] Map.empty"

definition policy_empty :: policy where
  "policy_empty = policy_new []"

definition render_pattern_token :: "pattern_token \<Rightarrow> ustr" where
  "render_pattern_token t = (case t of
     Single value \<Rightarrow> value
   | Alts alternatives \<Rightarrow> lit ''['' @ join_with (lit ''|'') alternatives @ lit '']'')"

definition rendered_prefix :: "prefix_rule \<Rightarrow> ustr list" where
  "rendered_prefix r =
    pattern_first (rule_pattern r) # map render_pattern_token (pattern_rest (rule_pattern r))"

definition get_allowed_prefixes :: "policy \<Rightarrow> ustr list list" where
  "get_allowed_prefixes p =
    remdups_adj (sort (concat (map (\<lambda>(_, rules).
      map rendered_prefix (filter (\<lambda>r. rule_decision r = Allow) rules)) (rules_by_program p))))"

definition add_prefix_rule :: "ustr list \<Rightarrow> decision \<Rightarrow> policy \<Rightarrow> policy_error + policy" where
  "add_prefix_rule prefix decision p =
    (case prefix of
       [] \<Rightarrow> Inl (InvalidPattern (lit ''prefix cannot be empty''))
     | first_token # rest \<Rightarrow>
         Inr (p\<lparr>rules_by_program := mm_insert first_token
           \<lparr>rule_pattern = \<lparr>pattern_first = first_token, pattern_rest = map Single rest\<rparr>,
            rule_decision = decision, rule_justification = None\<rparr> (rules_by_program p)\<rparr>))"

definition add_network_rule ::
    "ustr \<Rightarrow> network_rule_protocol \<Rightarrow> decision \<Rightarrow> ustr option \<Rightarrow> policy \<Rightarrow> policy_error + policy" where
  "add_network_rule host protocol decision justification p =
    (case normalize_network_rule_host host of
       Inl e \<Rightarrow> Inl e
     | Inr host' \<Rightarrow>
        if (case justification of Some raw \<Rightarrow> trim raw = [] | None \<Rightarrow> False)
        then Inl (InvalidRule (lit ''justification cannot be empty''))
        else Inr (p\<lparr>network_rules := network_rules p @
          [\<lparr>net_host = host', net_protocol = protocol, net_decision = decision,
            net_justification = justification\<rparr>]\<rparr>))"

definition set_host_executable_paths :: "ustr \<Rightarrow> path_buf list \<Rightarrow> policy \<Rightarrow> policy" where
  "set_host_executable_paths name paths p =
    p\<lparr>host_executables_by_name := (host_executables_by_name p)(name \<mapsto> paths)\<rparr>"

definition merge_overlay :: "policy \<Rightarrow> policy \<Rightarrow> policy" where
  "merge_overlay p overlay = from_parts
     (fold (\<lambda>(program, rules) m. fold (mm_insert program) rules m)
        (rules_by_program overlay) (rules_by_program p))
     (network_rules p @ network_rules overlay)
     (host_executables_by_name p ++ host_executables_by_name overlay)"

subsection \<open>Network rules as domain lists\<close>

definition upsert_domain :: "ustr list \<Rightarrow> ustr \<Rightarrow> ustr list" where
  "upsert_domain entries host = filter (\<lambda>e. e \<noteq> host) entries @ [host]"

definition compile_network_rule :: "network_rule \<Rightarrow> ustr list \<times> ustr list \<Rightarrow> ustr list \<times> ustr list" where
  "compile_network_rule rule acc = (case acc of (allowed, denied) \<Rightarrow>
    (case net_decision rule of
       Allow \<Rightarrow> (upsert_domain allowed (net_host rule), filter (\<lambda>e. e \<noteq> net_host rule) denied)
     | Forbidden \<Rightarrow> (filter (\<lambda>e. e \<noteq> net_host rule) allowed, upsert_domain denied (net_host rule))
     | Prompt \<Rightarrow> (allowed, denied)))"

definition compiled_network_domains :: "policy \<Rightarrow> ustr list \<times> ustr list" where
  "compiled_network_domains p = fold compile_network_rule (network_rules p) ([], [])"

subsection \<open>Matching a command\<close>

record process_env =
  env_home :: "path_buf option"
  env_current_dir :: "path_buf option"
  env_current_dir_error :: ustr

definition match_exact_rules :: "policy \<Rightarrow> ustr list \<Rightarrow> rule_match list option" where
  "match_exact_rules p cmd =
    (case cmd of [] \<Rightarrow> None
     | first # _ \<Rightarrow> Some (case get_vec (rules_by_program p) first of
          Some rules \<Rightarrow> filter_rules rule_matches rules cmd | None \<Rightarrow> []))"

definition match_host_executable_rules :: "process_env \<Rightarrow> policy \<Rightarrow> ustr list \<Rightarrow> rule_match list" where
  "match_host_executable_rules env p cmd =
    (case cmd of [] \<Rightarrow> []
     | first # args \<Rightarrow>
        (case from_absolute_path (env_home env) (env_current_dir env) first of
           None \<Rightarrow> []
         | Some program \<Rightarrow>
          (case executable_path_lookup_key program of
             None \<Rightarrow> []
           | Some basename \<Rightarrow>
            (case get_vec (rules_by_program p) basename of
               None \<Rightarrow> []
             | Some rules \<Rightarrow>
                if (case host_executables_by_name p basename of
                      Some paths \<Rightarrow> program \<notin> set paths | None \<Rightarrow> False)
                then []
                else map (\<lambda>m. with_resolved_program m program)
                       (filter_rules rule_matches rules (basename # args))))))"

definition nonempty :: "'a list \<Rightarrow> 'a list option" where
  "nonempty xs = (if xs = [] then None else Some xs)"

definition matches_for_command_with_options ::
    "process_env \<Rightarrow> policy \<Rightarrow> ustr list \<Rightarrow> (ustr list \<Rightarrow> decision) option \<Rightarrow> match_options \<Rightarrow> rule_match list" where
  "matches_for_command_with_options env p cmd heuristics_fallback options =
    (let matched_rules =
       (case Option.bind (match_exact_rules p cmd) nonempty of
          Some ms \<Rightarrow> ms
        | None \<Rightarrow> if resolve_host_executables options then match_host_executable_rules env p cmd else [])
     in if matched_rules = []
        then (case heuristics_fallback of
                Some fallback \<Rightarrow> [HeuristicsRuleMatch cmd (fallback cmd)] | None \<Rightarrow> [])
        else matched_rules)"

definition default_options :: match_options where
  "default_options = \<lparr>resolve_host_executables = False\<rparr>"

definition resolving :: match_options where
  "resolving = \<lparr>resolve_host_executables = True\<rparr>"

definition matches_for_command ::
    "process_env \<Rightarrow> policy \<Rightarrow> ustr list \<Rightarrow> (ustr list \<Rightarrow> decision) option \<Rightarrow> rule_match list" where
  "matches_for_command env p cmd fallback = matches_for_command_with_options env p cmd fallback default_options"

record evaluation =
  eval_decision :: decision
  eval_matched_rules :: "rule_match list"

definition is_match :: "evaluation \<Rightarrow> bool" where
  "is_match e = list_ex is_policy_match (eval_matched_rules e)"

fun max_decision :: "decision list \<Rightarrow> decision option" where
  "max_decision [] = None"
| "max_decision (d # ds) = Some (fold max ds d)"

definition from_matches :: "rule_match list \<Rightarrow> evaluation option" where
  "from_matches ms =
    map_option (\<lambda>d. \<lparr>eval_decision = d, eval_matched_rules = ms\<rparr>) (max_decision (map match_decision ms))"

definition check_multiple_with_options ::
    "process_env \<Rightarrow> policy \<Rightarrow> ustr list list \<Rightarrow> (ustr list \<Rightarrow> decision) \<Rightarrow> match_options \<Rightarrow> evaluation option" where
  "check_multiple_with_options env p commands fallback options =
    from_matches (concat (map (\<lambda>c. matches_for_command_with_options env p c (Some fallback) options) commands))"

definition check_multiple ::
    "process_env \<Rightarrow> policy \<Rightarrow> ustr list list \<Rightarrow> (ustr list \<Rightarrow> decision) \<Rightarrow> evaluation option" where
  "check_multiple env p commands fallback =
    check_multiple_with_options env p commands fallback default_options"

definition check_with_options ::
    "process_env \<Rightarrow> policy \<Rightarrow> ustr list \<Rightarrow> (ustr list \<Rightarrow> decision) \<Rightarrow> match_options \<Rightarrow> evaluation option" where
  "check_with_options env p cmd fallback options =
    from_matches (matches_for_command_with_options env p cmd (Some fallback) options)"

definition policy_check ::
    "process_env \<Rightarrow> policy \<Rightarrow> ustr list \<Rightarrow> (ustr list \<Rightarrow> decision) \<Rightarrow> evaluation option" where
  "policy_check env p cmd fallback =
    from_matches (matches_for_command_with_options env p cmd (Some fallback) default_options)"

subsection \<open>Checking the examples of a rule\<close>

text \<open>
  The texts of the errors come from the crate \<open>shlex\<close> and from derived \<open>Debug\<close>
  renderings, which are parameters.
\<close>

record rendering =
  shlex_join :: "ustr list \<Rightarrow> ustr option"
  debug_rule :: "prefix_rule \<Rightarrow> ustr"
  debug_match :: "rule_match \<Rightarrow> ustr"

definition render_example :: "rendering \<Rightarrow> ustr list \<Rightarrow> ustr" where
  "render_example rd ex = (case shlex_join rd ex of Some s \<Rightarrow> s | None \<Rightarrow> lit ''unable to render example'')"

definition validate_match_examples ::
    "process_env \<Rightarrow> rendering \<Rightarrow> policy \<Rightarrow> prefix_rule list \<Rightarrow> ustr list list \<Rightarrow> policy_error + unit" where
  "validate_match_examples env rd p rules examples =
    (let unmatched = map (render_example rd)
           (filter (\<lambda>ex. matches_for_command_with_options env p ex None resolving = []) examples)
     in if unmatched = [] then Inr ()
        else Inl (ExampleDidNotMatch (map (debug_rule rd) rules) unmatched None))"

fun validate_not_match_examples ::
    "process_env \<Rightarrow> rendering \<Rightarrow> policy \<Rightarrow> prefix_rule list \<Rightarrow> ustr list list \<Rightarrow> policy_error + unit" where
  "validate_not_match_examples env rd p rules [] = Inr ()"
| "validate_not_match_examples env rd p rules (ex # examples) =
    (case matches_for_command_with_options env p ex None resolving of
       m # _ \<Rightarrow> Inl (ExampleDidMatch (debug_match rd m) (render_example rd ex) None)
     | [] \<Rightarrow> validate_not_match_examples env rd p rules examples)"

subsection \<open>The strictest decision\<close>

lemma max_decision_Some_iff: "max_decision ds = Some d \<longleftrightarrow> ds \<noteq> [] \<and> d = Max (set ds)"
  by (cases ds) (auto simp: Max.set_eq_fold simp del: list.set)

lemma max_decision_None_iff [simp]: "max_decision ds = None \<longleftrightarrow> ds = []"
  by (cases ds) auto

lemma from_matches_Some_iff:
  "from_matches ms = Some e \<longleftrightarrow>
     ms \<noteq> [] \<and> eval_matched_rules e = ms \<and> eval_decision e = Max (match_decision ` set ms)"
  by (cases e) (auto simp: from_matches_def max_decision_Some_iff)

lemma from_matches_defined: "ms \<noteq> [] \<Longrightarrow> \<exists>e. from_matches ms = Some e"
  by (cases ms) (auto simp: from_matches_def)

lemma from_matches_strictest:
  assumes "from_matches ms = Some e"
  shows "\<exists>m\<in>set ms. eval_decision e = match_decision m"
    and "\<forall>m\<in>set ms. match_decision m \<le> eval_decision e"
proof -
  from assms have "set ms \<noteq> {}" and e: "eval_decision e = Max (match_decision ` set ms)"
    by (simp_all add: from_matches_Some_iff)
  then have "Max (match_decision ` set ms) \<in> match_decision ` set ms" by (intro Max_in) auto
  with e show "\<exists>m\<in>set ms. eval_decision e = match_decision m" by auto
  from e show "\<forall>m\<in>set ms. match_decision m \<le> eval_decision e" by simp
qed

lemma from_matches_allow:
  "from_matches ms = Some e \<Longrightarrow> eval_decision e = Allow \<longleftrightarrow> (\<forall>m\<in>set ms. match_decision m = Allow)"
  using from_matches_strictest [of ms e] by (metis decision_le_Allow)

lemma from_matches_forbidden:
  "from_matches ms = Some e \<Longrightarrow> eval_decision e = Forbidden \<longleftrightarrow> (\<exists>m\<in>set ms. match_decision m = Forbidden)"
  using from_matches_strictest [of ms e] by (metis decision_Forbidden_le)

subsection \<open>Which rules match\<close>

lemma match_exact_filed:
  "match_exact_rules p cmd =
     (if cmd = [] then None else Some (filter_rules rule_matches (filed (rules_by_program p) (hd cmd)) cmd))"
  by (cases cmd) (auto simp: match_exact_rules_def filed_def split: option.splits)

lemma match_exact_policy:
  "\<lbrakk>match_exact_rules p cmd = Some ms; m \<in> set ms\<rbrakk> \<Longrightarrow> is_policy_match m"
  by (auto simp: match_exact_filed dest: prefix.filter_rules_policy split: if_splits)

lemma match_host_policy:
  assumes "m \<in> set (match_host_executable_rules env p cmd)"
  shows "is_policy_match m"
proof -
  obtain program rules cs m' where m': "m' \<in> set (filter_rules rule_matches rules cs)"
    and m: "m = with_resolved_program m' program"
    using assms by (auto simp: match_host_executable_rules_def split: list.splits option.splits if_splits)
  from prefix.filter_rules_policy [OF m'] show ?thesis by (simp add: m)
qed

text \<open>The rule matches of a command, before the fallback.\<close>

definition policy_matches :: "process_env \<Rightarrow> policy \<Rightarrow> match_options \<Rightarrow> ustr list \<Rightarrow> rule_match list" where
  "policy_matches env p options cmd =
    (let exact = (case match_exact_rules p cmd of Some ms \<Rightarrow> ms | None \<Rightarrow> []) in
     if exact \<noteq> [] then exact
     else if resolve_host_executables options then match_host_executable_rules env p cmd else [])"

lemma policy_empty_no_match: "policy_matches env policy_empty options cmd = []"
  by (cases cmd)
     (simp_all add: policy_matches_def match_exact_rules_def match_host_executable_rules_def policy_empty_def
        policy_new_def from_parts_def get_vec_def split: option.splits)

lemma matches_for_command_alt:
  "matches_for_command_with_options env p cmd fallback options =
    (let ms = policy_matches env p options cmd in
     if ms \<noteq> [] then ms
     else case fallback of Some f \<Rightarrow> [HeuristicsRuleMatch cmd (f cmd)] | None \<Rightarrow> [])"
  by (cases "match_exact_rules p cmd")
     (auto simp: matches_for_command_with_options_def policy_matches_def nonempty_def Let_def)

lemma matches_without_fallback [simp]:
  "matches_for_command_with_options env p cmd None options = policy_matches env p options cmd"
  by (simp add: matches_for_command_alt Let_def)

lemma policy_matches_policy: "m \<in> set (policy_matches env p options cmd) \<Longrightarrow> is_policy_match m"
  by (auto simp: policy_matches_def Let_def dest: match_exact_policy match_host_policy
      split: if_splits option.splits)

lemma matches_with_fallback_nonempty [simp]:
  "matches_for_command_with_options env p cmd (Some f) options \<noteq> []"
  by (simp add: matches_for_command_alt Let_def)

lemma matches_decision_source:
  "m \<in> set (matches_for_command_with_options env p cmd (Some f) options) \<Longrightarrow>
     (is_policy_match m \<and> m \<in> set (policy_matches env p options cmd)) \<or>
     (policy_matches env p options cmd = [] \<and> m = HeuristicsRuleMatch cmd (f cmd))"
  by (auto simp: matches_for_command_alt Let_def policy_matches_policy split: if_splits)

lemma check_multiple_defined:
  "commands \<noteq> [] \<Longrightarrow> \<exists>e. check_multiple_with_options env p commands f options = Some e"
  unfolding check_multiple_with_options_def
  by (intro from_matches_defined) (cases commands; simp)

lemma check_with_options_single:
  "check_with_options env p cmd f options = check_multiple_with_options env p [cmd] f options"
  by (simp add: check_with_options_def check_multiple_with_options_def)

lemma check_multiple_rules:
  "check_multiple_with_options env p commands f options = Some e \<Longrightarrow>
     set (eval_matched_rules e) =
       (\<Union>c\<in>set commands. set (matches_for_command_with_options env p c (Some f) options))"
  by (simp add: check_multiple_with_options_def from_matches_Some_iff)

text \<open>A list of commands is allowed exactly when each of them is.\<close>

lemma check_multiple_allow:
  assumes "check_multiple_with_options env p commands f options = Some e"
  shows "eval_decision e = Allow \<longleftrightarrow>
    (\<forall>c\<in>set commands. map_option eval_decision (check_with_options env p c f options) = Some Allow)"
proof -
  have each: "map_option eval_decision (check_with_options env p c f options) = Some Allow \<longleftrightarrow>
      (\<forall>m\<in>set (matches_for_command_with_options env p c (Some f) options). match_decision m = Allow)" for c
  proof -
    obtain e' where e': "from_matches (matches_for_command_with_options env p c (Some f) options) = Some e'"
      using from_matches_defined matches_with_fallback_nonempty by blast
    from from_matches_allow [OF this] show ?thesis by (simp add: check_with_options_def e')
  qed
  note each [simp]
  from assms have "eval_decision e = Allow \<longleftrightarrow>
      (\<forall>m\<in>set (concat (map (\<lambda>c. matches_for_command_with_options env p c (Some f) options) commands)).
         match_decision m = Allow)"
    unfolding check_multiple_with_options_def by (rule from_matches_allow)
  then show ?thesis by (simp del: map_option_eq_Some)
qed

subsection \<open>Well formed policies\<close>

definition filed_under :: "('v \<Rightarrow> ustr) \<Rightarrow> 'v multimap \<Rightarrow> bool" where
  "filed_under f m \<longleftrightarrow> distinct (map fst m) \<and> (\<forall>k. \<forall>x\<in>set (filed m k). f x = k)"

definition policy_wf :: "policy \<Rightarrow> bool" where
  "policy_wf p \<longleftrightarrow> filed_under rule_program (rules_by_program p)
     \<and> (\<forall>r\<in>set (network_rules p). rule_host (net_host r))"

lemma policy_wf_empty: "policy_wf policy_empty"
  by (simp add: policy_wf_def filed_under_def policy_empty_def policy_new_def from_parts_def)

lemma mm_insert_keys: "fst ` set (mm_insert k v m) = insert k (fst ` set m)"
proof (induction m)
  case (Cons a m)
  then show ?case by (cases a) auto
qed simp

lemma mm_insert_distinct: "distinct (map fst m) \<Longrightarrow> distinct (map fst (mm_insert k v m))"
proof (induction m)
  case (Cons a m)
  obtain j vs where a: "a = (j, vs)" by fastforce
  with Cons mm_insert_keys [of k v m] show ?case by (cases "k = j") simp_all
qed simp

lemma filed_under_insert: "\<lbrakk>filed_under f m; f v = k\<rbrakk> \<Longrightarrow> filed_under f (mm_insert k v m)"
  by (simp add: filed_under_def mm_insert_distinct)

lemma filed_under_fold_insert:
  "\<lbrakk>filed_under f m; \<forall>x\<in>set vs. f x = k\<rbrakk> \<Longrightarrow> filed_under f (fold (mm_insert k) vs m)"
  by (induction vs arbitrary: m) (simp_all add: filed_under_insert)

lemma policy_wf_add_prefix_rule: "\<lbrakk>policy_wf p; add_prefix_rule prefix d p = Inr p'\<rbrakk> \<Longrightarrow> policy_wf p'"
  by (auto simp: add_prefix_rule_def policy_wf_def rule_program_def intro!: filed_under_insert split: list.splits)

lemma policy_wf_add_network_rule:
  assumes "policy_wf p" and "add_network_rule host proto d j p = Inr p'"
  shows "policy_wf p'"
proof -
  obtain h where h: "normalize_network_rule_host host = Inr h"
    and p': "p' = p\<lparr>network_rules := network_rules p @
      [\<lparr>net_host = h, net_protocol = proto, net_decision = d, net_justification = j\<rparr>]\<rparr>"
    using assms(2) by (auto simp: add_network_rule_def split: sum.splits if_splits)
  from normalize_rule_host [OF h] assms(1) show ?thesis by (simp add: policy_wf_def p')
qed

subsection \<open>Overlays\<close>

lemma filed_fold_insert: "filed (fold (mm_insert k) vs m) j = (if j = k then filed m k @ vs else filed m j)"
  by (induction vs arbitrary: m) auto

definition overlay_rules :: "'v multimap \<Rightarrow> 'v multimap \<Rightarrow> 'v multimap" where
  "overlay_rules m overlay = fold (\<lambda>(program, rules) m. fold (mm_insert program) rules m) overlay m"

lemma filed_Cons: "filed ((j, vs) # m) k = (if k = j then vs else filed m k)"
  by (simp add: filed_def get_vec_def)

lemma filed_absent: "k \<notin> fst ` set m \<Longrightarrow> filed m k = []"
  by (induction m) (auto simp: filed_Cons)

lemma filed_overlay_rules:
  "distinct (map fst overlay) \<Longrightarrow> filed (overlay_rules m overlay) k = filed m k @ filed overlay k"
proof (induction overlay arbitrary: m)
  case (Cons a overlay)
  obtain program rules where a: "a = (program, rules)" by fastforce
  with Cons.prems have "filed overlay program = []" by (simp add: filed_absent)
  with Cons a show ?case by (simp add: overlay_rules_def filed_fold_insert filed_Cons)
qed (simp add: overlay_rules_def)

lemma filed_under_overlay:
  "\<lbrakk>filed_under f m; filed_under f overlay\<rbrakk> \<Longrightarrow> filed_under f (overlay_rules m overlay)"
proof (induction overlay arbitrary: m)
  case (Cons a overlay)
  obtain j vs where a: "a = (j, vs)" by fastforce
  from Cons.prems(2) a have d: "distinct (map fst overlay)" and j: "j \<notin> fst ` set overlay"
    by (simp_all add: filed_under_def)
  have all: "\<forall>k. \<forall>x\<in>set (filed (a # overlay) k). f x = k"
    using Cons.prems(2) by (simp add: filed_under_def)
  from all have vs: "\<forall>x\<in>set vs. f x = j" by (auto simp: a filed_Cons dest: spec [of _ j])
  have "\<forall>k. \<forall>x\<in>set (filed overlay k). f x = k"
  proof (intro allI)
    fix k
    show "\<forall>x\<in>set (filed overlay k). f x = k"
      using all j by (cases "k = j") (auto simp: a filed_Cons filed_absent)
  qed
  with d have "filed_under f overlay" by (simp add: filed_under_def)
  with Cons.IH filed_under_fold_insert [OF Cons.prems(1) vs] show ?case
    by (simp add: overlay_rules_def a)
qed (simp add: overlay_rules_def)

lemma merge_overlay_parts [simp]:
  "rules_by_program (merge_overlay p q) = overlay_rules (rules_by_program p) (rules_by_program q)"
  "network_rules (merge_overlay p q) = network_rules p @ network_rules q"
  "host_executables_by_name (merge_overlay p q) = host_executables_by_name p ++ host_executables_by_name q"
  by (simp_all add: merge_overlay_def from_parts_def overlay_rules_def)

lemma policy_wf_merge: "\<lbrakk>policy_wf p; policy_wf q\<rbrakk> \<Longrightarrow> policy_wf (merge_overlay p q)"
  by (auto simp: policy_wf_def filed_under_overlay)

lemma match_exact_overlay:
  assumes "policy_wf q" and "cmd \<noteq> []"
  shows "match_exact_rules (merge_overlay p q) cmd =
    Some (the (match_exact_rules p cmd) @ the (match_exact_rules q cmd))"
  using assms by (simp add: match_exact_filed filed_overlay_rules policy_wf_def filed_under_def)

subsection \<open>Compiled domains\<close>

text \<open>The decision of the last rule about a host that is not a prompt.\<close>

definition last_verdict :: "network_rule list \<Rightarrow> ustr \<Rightarrow> decision option" where
  "last_verdict rules h =
    (let decisive = filter (\<lambda>r. net_host r = h \<and> net_decision r \<noteq> Prompt) rules
     in if decisive = [] then None else Some (net_decision (last decisive)))"

lemma last_verdict_snoc:
  "last_verdict (rules @ [r]) h =
     (if net_host r = h \<and> net_decision r \<noteq> Prompt then Some (net_decision r) else last_verdict rules h)"
  by (simp add: last_verdict_def Let_def)

lemma compile_fold:
  assumes "fold compile_network_rule rules ([], []) = (allowed, denied)"
  shows "distinct allowed \<and> distinct denied \<and>
    (\<forall>h. (h \<in> set allowed \<longleftrightarrow> last_verdict rules h = Some Allow) \<and>
         (h \<in> set denied \<longleftrightarrow> last_verdict rules h = Some Forbidden))"
  using assms
proof (induction rules arbitrary: allowed denied rule: rev_induct)
  case Nil
  then show ?case by (simp add: last_verdict_def)
next
  case (snoc r rules)
  obtain a d where ad: "fold compile_network_rule rules ([], []) = (a, d)" by fastforce
  from snoc.prems ad have res: "compile_network_rule r (a, d) = (allowed, denied)" by simp
  from snoc.IH [OF ad] have da: "distinct a" and dd: "distinct d"
    and a: "\<And>h. h \<in> set a \<longleftrightarrow> last_verdict rules h = Some Allow"
    and d: "\<And>h. h \<in> set d \<longleftrightarrow> last_verdict rules h = Some Forbidden" by blast+
  have "distinct allowed \<and> distinct denied"
    using res da dd by (cases "net_decision r") (auto simp: compile_network_rule_def upsert_domain_def)
  moreover have "(h \<in> set allowed \<longleftrightarrow> last_verdict (rules @ [r]) h = Some Allow) \<and>
      (h \<in> set denied \<longleftrightarrow> last_verdict (rules @ [r]) h = Some Forbidden)" for h
    using res a [of h] d [of h]
    by (cases "net_decision r"; cases "net_host r = h")
       (auto simp: compile_network_rule_def upsert_domain_def last_verdict_snoc)
  ultimately show ?case by blast
qed

subsection \<open>Allowed prefixes\<close>

lemma get_allowed_prefixes_set:
  "set (get_allowed_prefixes p) =
    {rendered_prefix r | r k rules. (k, rules) \<in> set (rules_by_program p) \<and> r \<in> set rules \<and> rule_decision r = Allow}"
  by (force simp: get_allowed_prefixes_def)

lemma remdups_adj_sorted_distinct: "sorted xs \<Longrightarrow> sorted (remdups_adj xs) \<and> distinct (remdups_adj xs)"
  by (induction xs rule: remdups_adj.induct) auto

lemma get_allowed_prefixes_sorted: "sorted (get_allowed_prefixes p) \<and> distinct (get_allowed_prefixes p)"
  unfolding get_allowed_prefixes_def by (intro remdups_adj_sorted_distinct) simp

subsection \<open>Adding an allow rule\<close>

lemma filed_add_prefix_rule:
  assumes "add_prefix_rule (first # rest) d p = Inr p'"
  shows "filed (rules_by_program p') k =
    filed (rules_by_program p) k @ (if k = first then
      [\<lparr>rule_pattern = \<lparr>pattern_first = first, pattern_rest = map Single rest\<rparr>,
        rule_decision = d, rule_justification = None\<rparr>] else [])"
    and "host_executables_by_name p' = host_executables_by_name p"
    and "network_rules p' = network_rules p"
  using assms by (auto simp: add_prefix_rule_def)

text \<open>The exact matches after adding a rule are the old ones and, for a command that starts
  with the prefix, the new rule.\<close>

lemma match_exact_add_prefix_rule:
  assumes "add_prefix_rule prefix d p = Inr p'" and "cmd \<noteq> []"
  shows "match_exact_rules p' cmd =
    Some (the (match_exact_rules p cmd) @
      (if take (length prefix) cmd = prefix then [PrefixRuleMatch prefix d None None] else []))"
proof -
  obtain first rest where pre: "prefix = first # rest"
    using assms(1) by (cases prefix) (auto simp: add_prefix_rule_def)
  note filed = filed_add_prefix_rule(1) [OF assms(1) [unfolded pre]]
  let ?r = "\<lparr>rule_pattern = \<lparr>pattern_first = first, pattern_rest = map Single rest\<rparr>,
        rule_decision = d, rule_justification = None\<rparr>"
  have new: "rule_matches ?r cmd =
      (if take (length prefix) cmd = prefix then Some (PrefixRuleMatch prefix d None None) else None)"
    unfolding pre rule_matches_def by (simp only: prefix_rule.simps matches_prefix_singles length_Cons) simp
  have other: "take (length prefix) cmd \<noteq> prefix" if "hd cmd \<noteq> first"
    using that assms(2) by (cases cmd) (auto simp: pre)
  show ?thesis
  proof (cases "hd cmd = first")
    case True
    with assms(2) show ?thesis
      by (simp add: match_exact_filed filed new filter_rules_single del: take_Suc_Cons)
  next
    case False
    with assms(2) other show ?thesis by (simp add: match_exact_filed filed)
  qed
qed

end
