(* ===== verification/Exec_Policy_Parser.thy ===== *)
theory Exec_Policy_Parser
  imports Exec_Policy
begin

section \<open>Policy files (execpolicy: parser and amend)\<close>

text \<open>
  A policy file is a Starlark program whose builtins fill a \<open>PolicyBuilder\<close>. The evaluator is
  third-party code and appears as a parameter: a function from a file to its syntax error, or to
  the builtin calls the program makes in order and the error it ends in, if any. The builtins,
  the builder, the checking of the examples and the appending of amendment lines are modelled
  from the code.
\<close>

subsection \<open>Starlark values\<close>

datatype starlark_value = VString ustr | VList "starlark_value list" | VOther ustr

fun get_type :: "starlark_value \<Rightarrow> ustr" where
  "get_type (VString _) = lit ''string''"
| "get_type (VList _) = lit ''list''"
| "get_type (VOther type) = type"

fun unpack_str :: "starlark_value \<Rightarrow> ustr option" where
  "unpack_str (VString s) = Some s"
| "unpack_str _ = None"

text \<open>A list of strings, or the error that names the type of the first other element.\<close>

definition unpack_strings :: "(ustr \<Rightarrow> policy_error) \<Rightarrow> starlark_value list \<Rightarrow> policy_error + ustr list" where
  "unpack_strings err = traverse (\<lambda>v. case unpack_str v of Some s \<Rightarrow> Inr s | None \<Rightarrow> Inl (err (get_type v)))"

definition parse_pattern_token :: "starlark_value \<Rightarrow> policy_error + pattern_token" where
  "parse_pattern_token value = (case value of
     VString s \<Rightarrow> Inr (Single s)
   | VList content \<Rightarrow>
       (case unpack_strings (\<lambda>t. InvalidPattern (lit ''pattern alternative must be a string (got '' @ t @ lit '')'')) content of
          Inl e \<Rightarrow> Inl e
        | Inr tokens \<Rightarrow>
           (case tokens of
              [] \<Rightarrow> Inl (InvalidPattern (lit ''pattern alternatives cannot be empty''))
            | [s] \<Rightarrow> Inr (Single s)
            | _ \<Rightarrow> Inr (Alts tokens)))
   | VOther t \<Rightarrow>
       Inl (InvalidPattern (lit ''pattern element must be a string or list of strings (got '' @ t @ lit '')'')))"

definition parse_pattern :: "starlark_value list \<Rightarrow> policy_error + pattern_token list" where
  "parse_pattern items = (case traverse parse_pattern_token items of
     Inl e \<Rightarrow> Inl e
   | Inr tokens \<Rightarrow> if tokens = [] then Inl (InvalidPattern (lit ''pattern cannot be empty'')) else Inr tokens)"

text \<open>\<open>shlex::split\<close> is a parameter.\<close>

type_synonym shlex_split = "ustr \<Rightarrow> ustr list option"

definition parse_string_example :: "shlex_split \<Rightarrow> ustr \<Rightarrow> policy_error + ustr list" where
  "parse_string_example split raw = (case split raw of
     None \<Rightarrow> Inl (InvalidExample (lit ''example string has invalid shell syntax''))
   | Some tokens \<Rightarrow>
       if tokens = [] then Inl (InvalidExample (lit ''example cannot be an empty string'')) else Inr tokens)"

definition parse_list_example :: "starlark_value list \<Rightarrow> policy_error + ustr list" where
  "parse_list_example content =
    (case unpack_strings (\<lambda>t. InvalidExample (lit ''example tokens must be strings (got '' @ t @ lit '')'')) content of
       Inl e \<Rightarrow> Inl e
     | Inr tokens \<Rightarrow>
         if tokens = [] then Inl (InvalidExample (lit ''example cannot be an empty list'')) else Inr tokens)"

definition parse_example :: "shlex_split \<Rightarrow> starlark_value \<Rightarrow> policy_error + ustr list" where
  "parse_example split value = (case value of
     VString raw \<Rightarrow> parse_string_example split raw
   | VList content \<Rightarrow> parse_list_example content
   | VOther t \<Rightarrow> Inl (InvalidExample (lit ''example must be a string or list of strings (got '' @ t @ lit '')'')))"

definition parse_examples :: "shlex_split \<Rightarrow> starlark_value list \<Rightarrow> policy_error + ustr list list" where
  "parse_examples split items = traverse (parse_example split) items"

definition parse_literal_absolute_path :: "process_env \<Rightarrow> ustr \<Rightarrow> policy_error + path_buf" where
  "parse_literal_absolute_path env raw =
    (if \<not> is_absolute (path_of raw)
     then Inl (InvalidRule (lit ''host_executable paths must be absolute (got '' @ raw @ lit '')''))
     else case from_absolute_path (env_home env) (env_current_dir env) raw of
       Some p \<Rightarrow> Inr p
     | None \<Rightarrow> Inl (InvalidRule (lit ''invalid absolute path `'' @ raw @ lit ''`: '' @ env_current_dir_error env)))"

definition validate_host_executable_name :: "ustr \<Rightarrow> policy_error + unit" where
  "validate_host_executable_name name =
    (if name = [] then Inl (InvalidRule (lit ''host_executable name cannot be empty''))
     else if length (path_of name) \<noteq> 1 \<or> file_name (path_of name) \<noteq> Some name
     then Inl (InvalidRule (lit ''host_executable name must be a bare executable name (got '' @ name @ lit '')''))
     else Inr ())"

definition parse_network_rule_decision :: "ustr \<Rightarrow> policy_error + decision" where
  "parse_network_rule_decision raw = (if raw = lit ''deny'' then Inr Forbidden else decision_parse raw)"

definition attach_validation_location :: "policy_error \<Rightarrow> error_location option \<Rightarrow> policy_error" where
  "attach_validation_location error location =
    (case location of Some l \<Rightarrow> with_location error l | None \<Rightarrow> error)"

subsection \<open>The builder\<close>

record pending_example_validation =
  pending_rules :: "prefix_rule list"
  pending_matches :: "ustr list list"
  pending_not_matches :: "ustr list list"
  pending_location :: "error_location option"

record policy_builder =
  builder_rules :: "prefix_rule multimap"
  builder_network :: "network_rule list"
  builder_executables :: "ustr \<rightharpoonup> path_buf list"
  builder_pending :: "pending_example_validation list"

definition builder_new :: policy_builder where
  "builder_new = \<lparr>builder_rules = [], builder_network = [], builder_executables = Map.empty, builder_pending = []\<rparr>"

definition builder_add_rule :: "prefix_rule \<Rightarrow> policy_builder \<Rightarrow> policy_builder" where
  "builder_add_rule rule b = b\<lparr>builder_rules := mm_insert (rule_program rule) rule (builder_rules b)\<rparr>"

definition builder_add_network_rule :: "network_rule \<Rightarrow> policy_builder \<Rightarrow> policy_builder" where
  "builder_add_network_rule rule b = b\<lparr>builder_network := builder_network b @ [rule]\<rparr>"

definition builder_add_host_executable :: "ustr \<Rightarrow> path_buf list \<Rightarrow> policy_builder \<Rightarrow> policy_builder" where
  "builder_add_host_executable name paths b =
    b\<lparr>builder_executables := (builder_executables b)(name \<mapsto> paths)\<rparr>"

definition add_pending_example_validation :: "pending_example_validation \<Rightarrow> policy_builder \<Rightarrow> policy_builder" where
  "add_pending_example_validation v b = b\<lparr>builder_pending := builder_pending b @ [v]\<rparr>"

definition builder_build :: "policy_builder \<Rightarrow> policy" where
  "builder_build b = from_parts (builder_rules b) (builder_network b) (builder_executables b)"

definition validate_pending ::
    "process_env \<Rightarrow> rendering \<Rightarrow> (ustr \<rightharpoonup> path_buf list) \<Rightarrow> pending_example_validation \<Rightarrow> policy_error + unit" where
  "validate_pending env rd execs v =
    (let p = from_parts (fold (\<lambda>r. mm_insert (rule_program r) r) (pending_rules v) []) [] execs;
         located = (\<lambda>e. attach_validation_location e (pending_location v))
     in case validate_not_match_examples env rd p (pending_rules v) (pending_not_matches v) of
          Inl e \<Rightarrow> Inl (located e)
        | Inr _ \<Rightarrow> map_sum located id (validate_match_examples env rd p (pending_rules v) (pending_matches v)))"

definition validate_pending_examples_from ::
    "process_env \<Rightarrow> rendering \<Rightarrow> nat \<Rightarrow> policy_builder \<Rightarrow> policy_error + unit" where
  "validate_pending_examples_from env rd start b =
    map_sum id (\<lambda>_. ()) (traverse (validate_pending env rd (builder_executables b)) (drop start (builder_pending b)))"

subsection \<open>The builtins\<close>

text \<open>The arguments of a call, as the Starlark module unpacks them, and where it was made.\<close>

datatype builtin_call =
    CallPrefixRule "starlark_value list" "ustr option" "starlark_value list option" "starlark_value list option" "ustr option"
  | CallNetworkRule ustr ustr ustr "ustr option"
  | CallHostExecutable ustr "starlark_value list"

definition checked_justification :: "ustr option \<Rightarrow> policy_error + ustr option" where
  "checked_justification j = (case j of
     Some raw \<Rightarrow> if trim raw = [] then Inl (InvalidRule (lit ''justification cannot be empty'')) else Inr (Some raw)
   | None \<Rightarrow> Inr None)"

definition optional_examples :: "shlex_split \<Rightarrow> starlark_value list option \<Rightarrow> policy_error + ustr list list" where
  "optional_examples split items = (case items of Some vs \<Rightarrow> parse_examples split vs | None \<Rightarrow> Inr [])"

text \<open>One rule per alternative of the first token, all with the same rest.\<close>

definition rules_of_tokens :: "decision \<Rightarrow> ustr option \<Rightarrow> pattern_token list \<Rightarrow> prefix_rule list" where
  "rules_of_tokens decision justification tokens = (case tokens of [] \<Rightarrow> []
    | first_token # rest \<Rightarrow> map (\<lambda>head. \<lparr>rule_pattern = \<lparr>pattern_first = head, pattern_rest = rest\<rparr>,
        rule_decision = decision, rule_justification = justification\<rparr>) (token_alternatives first_token))"

definition builtin_prefix_rule ::
    "shlex_split \<Rightarrow> starlark_value list \<Rightarrow> ustr option \<Rightarrow> starlark_value list option \<Rightarrow> starlark_value list option
      \<Rightarrow> ustr option \<Rightarrow> error_location option \<Rightarrow> policy_builder \<Rightarrow> policy_error + policy_builder" where
  "builtin_prefix_rule split pattern decision match not_match justification span b =
    (case (case decision of Some raw \<Rightarrow> decision_parse raw | None \<Rightarrow> Inr Allow) of Inl e \<Rightarrow> Inl e
     | Inr d \<Rightarrow>
    (case checked_justification justification of Inl e \<Rightarrow> Inl e
     | Inr j \<Rightarrow>
    (case parse_pattern pattern of Inl e \<Rightarrow> Inl e
     | Inr tokens \<Rightarrow>
    (case optional_examples split match of Inl e \<Rightarrow> Inl e
     | Inr matches \<Rightarrow>
    (case optional_examples split not_match of Inl e \<Rightarrow> Inl e
     | Inr not_matches \<Rightarrow>
        let rules = rules_of_tokens d j tokens;
            v = \<lparr>pending_rules = rules, pending_matches = matches, pending_not_matches = not_matches,
                 pending_location = map_option error_location_from_file_span span\<rparr>
        in Inr (fold builder_add_rule rules (add_pending_example_validation v b)))))))"

definition builtin_network_rule ::
    "ustr \<Rightarrow> ustr \<Rightarrow> ustr \<Rightarrow> ustr option \<Rightarrow> policy_builder \<Rightarrow> policy_error + policy_builder" where
  "builtin_network_rule host protocol decision justification b =
    (case protocol_parse protocol of Inl e \<Rightarrow> Inl e
     | Inr proto \<Rightarrow>
    (case parse_network_rule_decision decision of Inl e \<Rightarrow> Inl e
     | Inr d \<Rightarrow>
    (case checked_justification justification of Inl e \<Rightarrow> Inl e
     | Inr j \<Rightarrow>
    (case normalize_network_rule_host host of Inl e \<Rightarrow> Inl e
     | Inr h \<Rightarrow> Inr (builder_add_network_rule
         \<lparr>net_host = h, net_protocol = proto, net_decision = d, net_justification = j\<rparr> b)))))"

text \<open>The paths of a \<open>host_executable\<close> call, each with the right file name, without repetitions.\<close>

fun host_paths :: "process_env \<Rightarrow> ustr \<Rightarrow> path_buf list \<Rightarrow> starlark_value list \<Rightarrow> policy_error + path_buf list" where
  "host_paths env name parsed_paths [] = Inr parsed_paths"
| "host_paths env name parsed_paths (value # rest) =
    (case unpack_str value of
       None \<Rightarrow> Inl (InvalidRule (lit ''host_executable paths must be strings (got '' @ get_type value @ lit '')''))
     | Some raw \<Rightarrow>
        (case parse_literal_absolute_path env raw of
           Inl e \<Rightarrow> Inl e
         | Inr p \<Rightarrow>
            if executable_path_lookup_key p \<noteq> Some (executable_lookup_key name)
            then Inl (InvalidRule (lit ''host_executable path `'' @ raw @ lit ''` must have basename `'' @ name @ lit ''`''))
            else host_paths env name (if p \<in> set parsed_paths then parsed_paths else parsed_paths @ [p]) rest))"

definition builtin_host_executable ::
    "process_env \<Rightarrow> ustr \<Rightarrow> starlark_value list \<Rightarrow> policy_builder \<Rightarrow> policy_error + policy_builder" where
  "builtin_host_executable env name paths b =
    (case validate_host_executable_name name of Inl e \<Rightarrow> Inl e
     | Inr _ \<Rightarrow>
    (case host_paths env name [] paths of Inl e \<Rightarrow> Inl e
     | Inr ps \<Rightarrow> Inr (builder_add_host_executable (executable_lookup_key name) ps b)))"

definition run_builtin ::
    "process_env \<Rightarrow> shlex_split \<Rightarrow> builtin_call \<Rightarrow> error_location option \<Rightarrow> policy_builder \<Rightarrow> policy_error + policy_builder" where
  "run_builtin env split call span b = (case call of
     CallPrefixRule pattern decision match not_match justification \<Rightarrow>
       builtin_prefix_rule split pattern decision match not_match justification span b
   | CallNetworkRule host protocol decision justification \<Rightarrow>
       builtin_network_rule host protocol decision justification b
   | CallHostExecutable name paths \<Rightarrow> builtin_host_executable env name paths b)"

subsection \<open>Parsing a file\<close>

text \<open>
  What the evaluator is taken to be: a syntax error, or the calls the program makes, each with
  its span, and the error it stops with. An error of a builtin stops it too.
\<close>

type_synonym starlark_eval =
  "ustr \<Rightarrow> ustr \<Rightarrow> starlark_error + (builtin_call \<times> error_location option) list \<times> starlark_error option"

fun eval_calls ::
    "process_env \<Rightarrow> shlex_split \<Rightarrow> (builtin_call \<times> error_location option) list \<Rightarrow> starlark_error option
      \<Rightarrow> policy_builder \<Rightarrow> (starlark_error, unit, policy_builder) outcome" where
  "eval_calls env split [] failure b = ((case failure of Some e \<Rightarrow> Inl e | None \<Rightarrow> Inr ()), b)"
| "eval_calls env split ((call, span) # calls) failure b =
    (case run_builtin env split call span b of
       Inl e \<Rightarrow> (Inl (FromBuiltin e span), b)
     | Inr b' \<Rightarrow> eval_calls env split calls failure b')"

definition policy_parse ::
    "starlark_eval \<Rightarrow> process_env \<Rightarrow> shlex_split \<Rightarrow> rendering \<Rightarrow> ustr \<Rightarrow> ustr \<Rightarrow> policy_builder
      \<Rightarrow> (policy_error, unit, policy_builder) outcome" where
  "policy_parse eval env split rd policy_identifier policy_file_contents b =
    (let pending_validation_count = length (builder_pending b) in
     case eval policy_identifier policy_file_contents of
       Inl e \<Rightarrow> (Inl (Starlark e), b)
     | Inr (calls, failure) \<Rightarrow>
         try_then (map_err Starlark (eval_calls env split calls failure b))
           (\<lambda>_ b'. (validate_pending_examples_from env rd pending_validation_count b', b')))"

subsection \<open>Appending an amendment (amend.rs)\<close>

text \<open>\<open>serde_json::to_string\<close> on a string is a parameter: its result, or the text of its error.\<close>

type_synonym json_string = "ustr \<Rightarrow> ustr + ustr"

datatype amend_error =
    EmptyPrefix
  | InvalidNetworkRule ustr
  | MissingParent path_buf
  | CreatePolicyDir path_buf ustr
  | SerializePrefix ustr
  | SerializeNetworkRule ustr
  | OpenPolicyFile path_buf ustr
  | WritePolicyFile path_buf ustr
  | LockPolicyFile path_buf ustr
  | SeekPolicyFile path_buf ustr
  | ReadPolicyFile path_buf ustr
  | PolicyMetadata path_buf ustr

definition allow_prefix_line :: "json_string \<Rightarrow> ustr list \<Rightarrow> amend_error + ustr" where
  "allow_prefix_line json prefix =
    (case traverse json prefix of
       Inl e \<Rightarrow> Inl (SerializePrefix e)
     | Inr tokens \<Rightarrow>
        Inr (lit ''prefix_rule(pattern='' @ (lit ''['' @ join_with (lit '', '') tokens @ lit '']'')
          @ lit '', decision='' @ [c_dquote] @ lit ''allow'' @ [c_dquote] @ lit '')''))"

fun amend_decision :: "decision \<Rightarrow> ustr" where
  "amend_decision Allow = lit ''allow''"
| "amend_decision Prompt = lit ''prompt''"
| "amend_decision Forbidden = lit ''deny''"

text \<open>The display of the errors that carry a message only; host normalisation gives no others.\<close>

fun policy_error_message :: "policy_error \<Rightarrow> ustr" where
  "policy_error_message (InvalidDecision m) = lit ''invalid decision: '' @ m"
| "policy_error_message (InvalidPattern m) = lit ''invalid pattern element: '' @ m"
| "policy_error_message (InvalidExample m) = lit ''invalid example: '' @ m"
| "policy_error_message (InvalidRule m) = lit ''invalid rule: '' @ m"
| "policy_error_message _ = []"

definition network_rule_line ::
    "json_string \<Rightarrow> ustr \<Rightarrow> network_rule_protocol \<Rightarrow> decision \<Rightarrow> ustr option \<Rightarrow> amend_error + ustr" where
  "network_rule_line json host protocol decision justification =
    (case normalize_network_rule_host host of
       Inl e \<Rightarrow> Inl (InvalidNetworkRule (policy_error_message e))
     | Inr h \<Rightarrow>
        if (case justification of Some raw \<Rightarrow> trim raw = [] | None \<Rightarrow> False)
        then Inl (InvalidNetworkRule (lit ''justification cannot be empty''))
        else
          (case traverse (\<lambda>(name, value). map_sum id (\<lambda>v. name @ v) (json value))
             ([(lit ''host='', h), (lit ''protocol='', as_policy_string protocol),
               (lit ''decision='', amend_decision decision)]
              @ (case justification of Some j \<Rightarrow> [(lit ''justification='', j)] | None \<Rightarrow> [])) of
             Inl e \<Rightarrow> Inl (SerializeNetworkRule e)
           | Inr args \<Rightarrow> Inr (lit ''network_rule('' @ join_with (lit '', '') args @ lit '')'')))"

text \<open>
  The operations of the policy file, each with its error text: \<open>create_dir\<close> also tells whether
  the directory was there. \<open>file_write\<close> appends, as the file is opened for appending.
\<close>

record 's policy_file =
  file_create_dir :: "path_buf \<Rightarrow> 's \<Rightarrow> (bool \<times> ustr, unit, 's) outcome"
  file_open :: "path_buf \<Rightarrow> 's \<Rightarrow> (ustr, unit, 's) outcome"
  file_lock :: "path_buf \<Rightarrow> 's \<Rightarrow> (ustr, unit, 's) outcome"
  file_seek_start :: "path_buf \<Rightarrow> 's \<Rightarrow> (ustr, unit, 's) outcome"
  file_read :: "path_buf \<Rightarrow> 's \<Rightarrow> (ustr, ustr, 's) outcome"
  file_write :: "path_buf \<Rightarrow> ustr \<Rightarrow> 's \<Rightarrow> (ustr, unit, 's) outcome"

definition append_locked_line :: "'s policy_file \<Rightarrow> path_buf \<Rightarrow> ustr \<Rightarrow> 's \<Rightarrow> (amend_error, unit, 's) outcome" where
  "append_locked_line ops policy_path line s =
    try_then (map_err (OpenPolicyFile policy_path) (file_open ops policy_path s)) (\<lambda>_ s.
    try_then (map_err (LockPolicyFile policy_path) (file_lock ops policy_path s)) (\<lambda>_ s.
    try_then (map_err (SeekPolicyFile policy_path) (file_seek_start ops policy_path s)) (\<lambda>_ s.
    try_then (map_err (ReadPolicyFile policy_path) (file_read ops policy_path s)) (\<lambda>contents s.
      if line \<in> set (str_lines contents) then (Inr (), s)
      else
        try_then (if contents \<noteq> [] \<and> \<not> ends_with [nl] contents
                  then map_err (WritePolicyFile policy_path) (file_write ops policy_path [nl] s)
                  else (Inr (), s)) (\<lambda>_ s.
          map_err (WritePolicyFile policy_path) (file_write ops policy_path (line @ [nl]) s))))))"

definition append_rule_line :: "'s policy_file \<Rightarrow> path_buf \<Rightarrow> ustr \<Rightarrow> 's \<Rightarrow> (amend_error, unit, 's) outcome" where
  "append_rule_line ops policy_path rule s =
    (case path_parent policy_path of
       None \<Rightarrow> (Inl (MissingParent policy_path), s)
     | Some dir \<Rightarrow>
        (case file_create_dir ops dir s of
           (Inl (already_exists, e), s') \<Rightarrow>
             if already_exists then append_locked_line ops policy_path rule s'
             else (Inl (CreatePolicyDir dir e), s')
         | (Inr _, s') \<Rightarrow> append_locked_line ops policy_path rule s'))"

definition blocking_append_allow_prefix_rule ::
    "json_string \<Rightarrow> 's policy_file \<Rightarrow> path_buf \<Rightarrow> ustr list \<Rightarrow> 's \<Rightarrow> (amend_error, unit, 's) outcome" where
  "blocking_append_allow_prefix_rule json ops policy_path prefix s =
    (if prefix = [] then (Inl EmptyPrefix, s)
     else case allow_prefix_line json prefix of
       Inl e \<Rightarrow> (Inl e, s)
     | Inr rule \<Rightarrow> append_rule_line ops policy_path rule s)"

definition blocking_append_network_rule ::
    "json_string \<Rightarrow> 's policy_file \<Rightarrow> path_buf \<Rightarrow> ustr \<Rightarrow> network_rule_protocol \<Rightarrow> decision \<Rightarrow> ustr option \<Rightarrow> 's
      \<Rightarrow> (amend_error, unit, 's) outcome" where
  "blocking_append_network_rule json ops policy_path host protocol decision justification s =
    (case network_rule_line json host protocol decision justification of
       Inl e \<Rightarrow> (Inl e, s)
     | Inr rule \<Rightarrow> append_rule_line ops policy_path rule s)"

text \<open>What the file holds after a line has been appended.\<close>

definition appended :: "ustr \<Rightarrow> ustr \<Rightarrow> ustr" where
  "appended contents line =
    (if line \<in> set (str_lines contents) then contents
     else contents @ (if contents \<noteq> [] \<and> \<not> ends_with [nl] contents then [nl] else []) @ line @ [nl])"

text \<open>The documented behaviour of a file opened for reading and appending.\<close>

definition policy_file_laws :: "'s policy_file \<Rightarrow> ('s \<Rightarrow> ustr) \<Rightarrow> path_buf \<Rightarrow> bool" where
  "policy_file_laws ops contents p \<longleftrightarrow>
     (\<forall>d s r s'. file_create_dir ops d s = (r, s') \<longrightarrow> contents s' = contents s)
   \<and> (\<forall>s r s'. file_open ops p s = (r, s') \<longrightarrow> contents s' = contents s)
   \<and> (\<forall>s r s'. file_lock ops p s = (r, s') \<longrightarrow> contents s' = contents s)
   \<and> (\<forall>s r s'. file_seek_start ops p s = (r, s') \<longrightarrow> contents s' = contents s)
   \<and> (\<forall>s c s'. file_read ops p s = (Inr c, s') \<longrightarrow> c = contents s \<and> contents s' = contents s)
   \<and> (\<forall>s t u s'. file_write ops p t s = (Inr u, s') \<longrightarrow> contents s' = contents s @ t)"

lemma append_locked_line_appends:
  assumes laws: "policy_file_laws ops contents p" and "append_locked_line ops p line s = (Inr u, s')"
  shows "contents s' = appended (contents s) line"
proof -
  obtain s1 s2 s3 s4 c where s1: "file_open ops p s = (Inr (), s1)" and s2: "file_lock ops p s1 = (Inr (), s2)"
    and s3: "file_seek_start ops p s2 = (Inr (), s3)" and s4: "file_read ops p s3 = (Inr c, s4)"
    and rest: "(if line \<in> set (str_lines c) then (Inr (), s4)
      else try_then (if c \<noteq> [] \<and> \<not> ends_with [nl] c
                  then map_err (WritePolicyFile p) (file_write ops p [nl] s4)
                  else (Inr (), s4)) (\<lambda>_ s. map_err (WritePolicyFile p) (file_write ops p (line @ [nl]) s))) = (Inr u, s')"
    using assms(2) by (auto simp: append_locked_line_def try_then_Inr_iff map_err_Inr_iff)
  have c: "c = contents s" "contents s4 = contents s"
    using laws s1 s2 s3 s4 unfolding policy_file_laws_def by metis+
  have wr2: "contents s'' = contents s @ t @ t'"
    if "file_write ops p t s4 = (Inr u, s0)" "file_write ops p t' s0 = (Inr u', s'')" for t t' u u' s0 s''
    using laws that c unfolding policy_file_laws_def by (metis append_assoc)
  have wr1: "contents s'' = contents s @ t" if "file_write ops p t s4 = (Inr u, s'')" for t u s''
    using laws that c unfolding policy_file_laws_def by metis
  show ?thesis
    using rest wr2 wr1 c(2)
    by (auto simp: appended_def c(1) try_then_Inr_iff map_err_Inr_iff split: if_splits)
qed

lemma append_rule_line_appends:
  assumes laws: "policy_file_laws ops contents p" and ok: "append_rule_line ops p line s = (Inr u, s')"
  shows "contents s' = appended (contents s) line"
proof -
  obtain dir where "path_parent p = Some dir"
    using ok by (auto simp: append_rule_line_def split: option.splits)
  moreover obtain r s1 where "file_create_dir ops dir s = (r, s1)" by fastforce
  ultimately have "append_locked_line ops p line s1 = (Inr u, s')" and "contents s1 = contents s"
    using ok laws by (auto simp: append_rule_line_def policy_file_laws_def split: sum.splits if_splits)
  with append_locked_line_appends [OF laws] show ?thesis by metis
qed

lemma str_lines_snoc_nl: "str_lines (c @ [nl]) = map strip_cr (split_on nl c)"
proof -
  have "split_on nl (c @ [nl]) = split_on nl c @ [[]]"
    by (induction c) (auto split: list.splits)
  then show ?thesis by (simp add: str_lines_def Let_def)
qed

lemma split_on_append_nl: "split_on k (a @ k # b) = split_on k a @ split_on k b"
  by (induction a) (auto split: list.splits)

lemma str_lines_append:
  assumes "c = [] \<or> ends_with [nl] c" and "nl \<notin> set line" and "line = [] \<or> last line \<noteq> cr"
  shows "str_lines (c @ line @ [nl]) = str_lines c @ [line]"
proof (cases "c = []")
  case True
  with assms show ?thesis
    using str_lines_snoc_nl [of line] by (simp add: split_on_no_sep strip_cr_id) (simp add: str_lines_def)
next
  case False
  with assms(1) obtain d where c: "c = d @ [nl]" by (auto simp: ends_with_iff)
  have "str_lines (c @ line @ [nl]) = map strip_cr (split_on nl (d @ nl # line))"
    using str_lines_snoc_nl [of "d @ nl # line"] by (simp add: c)
  also have "\<dots> = str_lines c @ [line]"
    using assms(2,3) by (simp add: split_on_append_nl split_on_no_sep strip_cr_id c str_lines_snoc_nl)
  finally show ?thesis .
qed

lemma appended_has_line:
  assumes "nl \<notin> set line" and "line = [] \<or> last line \<noteq> cr"
  shows "line \<in> set (str_lines (appended c line))"
proof (cases "line \<in> set (str_lines c)")
  case False
  let ?c = "if c \<noteq> [] \<and> \<not> ends_with [nl] c then c @ [nl] else c"
  have "appended c line = ?c @ line @ [nl]" using False by (simp add: appended_def)
  moreover have "?c = [] \<or> ends_with [nl] ?c" by (auto simp: ends_with_iff)
  ultimately show ?thesis using str_lines_append [OF _ assms, of ?c] by simp
qed (simp add: appended_def)

lemma appended_idem:
  "\<lbrakk>nl \<notin> set line; line = [] \<or> last line \<noteq> cr\<rbrakk> \<Longrightarrow> appended (appended c line) line = appended c line"
  using appended_has_line [of line c] by (subst appended_def) simp

lemma allow_prefix_line_shape:
  assumes "allow_prefix_line json prefix = Inr line" and "\<forall>t\<in>set prefix. \<forall>s. json t = Inr s \<longrightarrow> nl \<notin> set s"
  shows "nl \<notin> set line" and "line = [] \<or> last line \<noteq> cr"
proof -
  obtain tokens where t: "traverse json prefix = Inr tokens"
    and line: "line = lit ''prefix_rule(pattern='' @ (lit ''['' @ join_with (lit '', '') tokens @ lit '']'')
      @ lit '', decision='' @ [c_dquote] @ lit ''allow'' @ [c_dquote] @ lit '')''"
    using assms(1) by (auto simp: allow_prefix_line_def split: sum.splits)
  from t have "\<forall>x\<in>set tokens. \<exists>y\<in>set prefix. json y = Inr x"
    by (intro list_all2_in2) (simp add: traverse_Inr_iff)
  with assms(2) have free: "\<forall>x\<in>set tokens. nl \<notin> set x" by blast
  have "nl \<notin> set (join_with (lit '', '') xs)" if "\<forall>x\<in>set xs. nl \<notin> set x" for xs
    using that by (induction "lit '', ''" xs rule: join_with.induct) (auto simp: lit_def)
  with free show "nl \<notin> set line" by (auto simp: line lit_def)
  show "line = [] \<or> last line \<noteq> cr" by (simp add: line lit_def)
qed

lemma blocking_append_allow_appends:
  assumes "policy_file_laws ops contents p" and "blocking_append_allow_prefix_rule json ops p prefix s = (Inr u, s')"
  shows "\<exists>line. prefix \<noteq> [] \<and> allow_prefix_line json prefix = Inr line \<and> contents s' = appended (contents s) line"
  using append_rule_line_appends [OF assms(1)] assms(2)
  by (auto simp: blocking_append_allow_prefix_rule_def split: if_splits sum.splits)

subsection \<open>The builder keeps its rules filed\<close>

definition builder_wf :: "policy_builder \<Rightarrow> bool" where
  "builder_wf b \<longleftrightarrow> policy_wf (builder_build b) \<and>
     (\<forall>v\<in>set (builder_pending b). \<forall>r\<in>set (pending_rules v). r \<in> set (filed (builder_rules b) (rule_program r)))"

lemma builder_build_parts [simp]:
  "rules_by_program (builder_build b) = builder_rules b"
  "network_rules (builder_build b) = builder_network b"
  "host_executables_by_name (builder_build b) = builder_executables b"
  by (simp_all add: builder_build_def from_parts_def)

lemma builder_wf_new: "builder_wf builder_new"
  by (simp add: builder_wf_def builder_new_def policy_wf_def filed_under_def)

lemma builder_add_rule_parts [simp]:
  "builder_rules (builder_add_rule r b) = mm_insert (rule_program r) r (builder_rules b)"
  "builder_network (builder_add_rule r b) = builder_network b"
  "builder_executables (builder_add_rule r b) = builder_executables b"
  "builder_pending (builder_add_rule r b) = builder_pending b"
  by (simp_all add: builder_add_rule_def)

lemma add_rules_parts [simp]:
  "builder_network (fold builder_add_rule rs b) = builder_network b"
  "builder_executables (fold builder_add_rule rs b) = builder_executables b"
  "builder_pending (fold builder_add_rule rs b) = builder_pending b"
  by (induction rs arbitrary: b) auto

lemma filed_add_rules:
  "filed (builder_rules (fold builder_add_rule rs b)) k =
     filed (builder_rules b) k @ filter (\<lambda>r. rule_program r = k) rs"
  by (induction rs arbitrary: b) auto

lemma filed_under_add_rules:
  "filed_under rule_program (builder_rules b) \<Longrightarrow>
     filed_under rule_program (builder_rules (fold builder_add_rule rs b))"
  by (induction rs arbitrary: b) (simp_all add: filed_under_insert)

lemma run_builtin_step:
  assumes "run_builtin env split call span b = Inr b'" and "builder_wf b"
  shows "builder_wf b' \<and> (\<exists>vs. builder_pending b' = builder_pending b @ vs)"
proof (cases call)
  case (CallPrefixRule pattern decision match not_match justification)
  then obtain d j tokens ms ns where "b' = fold builder_add_rule (rules_of_tokens d j tokens)
      (add_pending_example_validation \<lparr>pending_rules = rules_of_tokens d j tokens, pending_matches = ms,
        pending_not_matches = ns, pending_location = map_option error_location_from_file_span span\<rparr> b)"
    using assms(1) by (auto simp: run_builtin_def builtin_prefix_rule_def Let_def split: sum.splits)
  then obtain rs v where v: "pending_rules v = rs"
    and b': "b' = fold builder_add_rule rs (add_pending_example_validation v b)"
    by (metis pending_example_validation.select_convs(1))
  have same: "builder_rules (add_pending_example_validation v b) = builder_rules b"
    "builder_network (add_pending_example_validation v b) = builder_network b"
    "builder_pending (add_pending_example_validation v b) = builder_pending b @ [v]"
    by (simp_all add: add_pending_example_validation_def)
  have "filed_under rule_program (builder_rules b')"
    using assms(2) filed_under_add_rules [of "add_pending_example_validation v b" rs]
    by (simp add: b' builder_wf_def policy_wf_def same)
  with assms(2) show ?thesis
    by (auto simp: builder_wf_def policy_wf_def b' same filed_add_rules v)
next
  case (CallNetworkRule host protocol decision justification)
  then obtain h proto d j where "normalize_network_rule_host host = Inr h" and "b' = builder_add_network_rule
      \<lparr>net_host = h, net_protocol = proto, net_decision = d, net_justification = j\<rparr> b"
    using assms(1) by (auto simp: run_builtin_def builtin_network_rule_def split: sum.splits)
  then obtain r where h: "normalize_network_rule_host host = Inr (net_host r)"
    and b': "b' = builder_add_network_rule r b"
    by (metis network_rule.select_convs(1))
  from assms(2) normalize_rule_host [OF h] show ?thesis
    by (auto simp: builder_wf_def policy_wf_def b' builder_add_network_rule_def)
next
  case (CallHostExecutable name paths)
  with assms show ?thesis
    by (auto simp: run_builtin_def builtin_host_executable_def builder_wf_def policy_wf_def
        builder_add_host_executable_def split: sum.splits)
qed

lemma eval_calls_step:
  assumes "eval_calls env split calls failure b = (r, b')" and "builder_wf b"
  shows "builder_wf b' \<and> (\<exists>vs. builder_pending b' = builder_pending b @ vs)"
  using assms
proof (induction env split calls failure b rule: eval_calls.induct)
  case (2 env split call span calls failure b)
  show ?case
  proof (cases "run_builtin env split call span b")
    case (Inr b1)
    from run_builtin_step [OF this 2(3)] obtain vs where b1: "builder_wf b1" "builder_pending b1 = builder_pending b @ vs"
      by blast
    from 2(1) [OF Inr] 2(2) Inr b1(1) obtain ws where "builder_wf b'" "builder_pending b' = builder_pending b1 @ ws"
      by auto
    with b1(2) show ?thesis by auto
  qed (use 2 in auto)
qed auto

lemma policy_parse_wf:
  assumes "policy_parse eval env split rd ident contents b = (r, b')" and "builder_wf b"
  shows "builder_wf b' \<and> (\<exists>vs. builder_pending b' = builder_pending b @ vs)"
proof (cases "eval ident contents")
  case (Inl e)
  with assms show ?thesis by (simp add: policy_parse_def)
next
  case (Inr cf)
  obtain calls failure where cf: "cf = (calls, failure)" by fastforce
  obtain r1 b1 where ev: "eval_calls env split calls failure b = (r1, b1)" by fastforce
  have "b1 = b'"
    using assms(1) by (cases r1) (auto simp: policy_parse_def Inr cf ev map_err_def Let_def)
  with eval_calls_step [OF ev assms(2)] show ?thesis by simp
qed

subsection \<open>Checked examples match the policy\<close>

lemma match_host_filed:
  "match_host_executable_rules env p (first # args) =
    (case from_absolute_path (env_home env) (env_current_dir env) first of None \<Rightarrow> []
     | Some program \<Rightarrow>
       (case executable_path_lookup_key program of None \<Rightarrow> []
        | Some basename \<Rightarrow>
           if (case host_executables_by_name p basename of Some paths \<Rightarrow> program \<notin> set paths | None \<Rightarrow> False) then []
           else map (\<lambda>m. with_resolved_program m program)
                  (filter_rules rule_matches (filed (rules_by_program p) basename) (basename # args))))"
  by (auto simp: match_host_executable_rules_def filed_def split: option.splits)

lemma filter_rules_nonempty_mono:
  "\<lbrakk>set rs \<subseteq> set rs'; filter_rules f rs cmd \<noteq> []\<rbrakk> \<Longrightarrow> filter_rules f rs' cmd \<noteq> []"
  using in_filter_rules [of _ f] by (metis all_not_in_conv set_empty subsetD)

lemma policy_matches_mono:
  assumes sub: "\<And>k. set (filed (rules_by_program p) k) \<subseteq> set (filed (rules_by_program q) k)"
    and execs: "host_executables_by_name q = host_executables_by_name p"
    and "policy_matches env p resolving cmd \<noteq> []"
  shows "policy_matches env q resolving cmd \<noteq> []"
proof (cases cmd)
  case Nil
  with assms(3) show ?thesis
    by (simp add: policy_matches_def match_exact_filed match_host_executable_rules_def split: if_splits)
next
  case (Cons first args)
  have "match_host_executable_rules env q cmd \<noteq> []" if "match_host_executable_rules env p cmd \<noteq> []"
    using that filter_rules_nonempty_mono [OF sub]
    by (auto simp: match_host_filed Cons execs split: option.splits if_splits)
  moreover have "filter_rules rule_matches (filed (rules_by_program q) first) cmd \<noteq> []"
    if "filter_rules rule_matches (filed (rules_by_program p) first) cmd \<noteq> []"
    using that filter_rules_nonempty_mono [OF sub] by blast
  ultimately show ?thesis
    using assms(3) by (auto simp: policy_matches_def match_exact_filed Cons resolving_def Let_def split: if_splits)
qed

lemma validate_match_ok:
  "validate_match_examples env rd p rules examples = Inr u \<Longrightarrow>
     \<forall>ex\<in>set examples. policy_matches env p resolving ex \<noteq> []"
  by (auto simp: validate_match_examples_def Let_def filter_empty_conv split: if_splits)

lemma validate_not_match_ok:
  "validate_not_match_examples env rd p rules examples = Inr u \<Longrightarrow>
     \<forall>ex\<in>set examples. policy_matches env p resolving ex = []"
  by (induction examples) (auto split: list.splits)

lemma filed_pending_rules:
  "filed (fold (\<lambda>r. mm_insert (rule_program r) r) rs m) k = filed m k @ filter (\<lambda>r. rule_program r = k) rs"
  by (induction rs arbitrary: m) auto

definition own_policy :: "(ustr \<rightharpoonup> path_buf list) \<Rightarrow> pending_example_validation \<Rightarrow> policy" where
  "own_policy execs v = from_parts (fold (\<lambda>r. mm_insert (rule_program r) r) (pending_rules v) []) [] execs"

lemma own_policy_parts [simp]:
  "filed (rules_by_program (own_policy execs v)) k = filter (\<lambda>r. rule_program r = k) (pending_rules v)"
  "host_executables_by_name (own_policy execs v) = execs"
  by (simp_all add: own_policy_def from_parts_def filed_pending_rules)

lemma validate_pending_ok:
  assumes "validate_pending env rd execs v = Inr u"
  shows "\<forall>ex\<in>set (pending_matches v). policy_matches env (own_policy execs v) resolving ex \<noteq> []"
    and "\<forall>ex\<in>set (pending_not_matches v). policy_matches env (own_policy execs v) resolving ex = []"
  using assms validate_match_ok validate_not_match_ok
  by (auto simp: validate_pending_def own_policy_def Let_def map_sum_def split: sum.splits)

lemma validate_from_ok:
  assumes "validate_pending_examples_from env rd n b = Inr u" and "v \<in> set (drop n (builder_pending b))"
  shows "\<exists>u. validate_pending env rd (builder_executables b) v = Inr u"
proof -
  obtain us where "traverse (validate_pending env rd (builder_executables b)) (drop n (builder_pending b)) = Inr us"
    using assms(1) by (auto simp: validate_pending_examples_from_def map_sum_def split: sum.splits)
  with assms(2) show ?thesis by (auto simp: traverse_Inr_iff list_all2_conv_all_nth in_set_conv_nth)
qed

end
