(* ===== verification/Shell_Parse.thy ===== *)
theory Shell_Parse
  imports Paths
begin

section \<open>Reading shell invocations (shell-command: bash, shell\_detect, powershell)\<close>

text \<open>
  Recognition of \<open>bash -lc script\<close> and of PowerShell invocations, and the walk over the syntax
  tree of a script that extracts its plain commands. The tree comes from tree-sitter, which is
  a parameter: a node has a kind, says whether it is named, covers a slice of the source and
  starts at a byte. The two stack loops are recursive functions with their termination proofs.
\<close>

subsection \<open>Shell names\<close>

datatype shell_type = Zsh | Bash | PowerShell | Sh | Cmd

definition shell_name_type :: "ustr \<Rightarrow> shell_type option" where
  "shell_name_type name =
    (if name = lit ''zsh'' then Some Zsh
     else if name = lit ''sh'' then Some Sh
     else if name = lit ''cmd'' then Some Cmd
     else if name = lit ''bash'' then Some Bash
     else if name = lit ''pwsh'' then Some PowerShell
     else if name = lit ''powershell'' then Some PowerShell
     else None)"

definition file_stem :: "path_buf \<Rightarrow> ustr option" where
  "file_stem p = map_option stem_of (file_name p)"

lemma length_join_butlast: "length (join_with [c] (butlast ps)) \<le> length (join_with [c] ps)"
proof (cases ps rule: rev_cases)
  case (snoc qs q)
  then show ?thesis by (cases "qs = []") (simp_all add: join_with_append)
qed simp

lemma length_stem_of: "length (stem_of n) \<le> length n"
proof -
  have "length (join_with (lit ''.'') (butlast (split_on 46 n))) \<le> length (join_with [46] (split_on 46 n))"
    using length_join_butlast [of 46 "split_on 46 n"] by (simp add: lit_def)
  then show ?thesis by (simp add: stem_of_def Let_def)
qed

lemma in_split_length: "l \<in> set (split_on c s) \<Longrightarrow> length l \<le> length s"
proof (induction s arbitrary: l)
  case (Cons x xs)
  obtain y ys where "split_on c xs = y # ys" by (cases "split_on c xs") auto
  with Cons show ?case by (auto split: if_splits simp: le_SucI)
qed simp

lemma join_with_longer:
  "length (join_with [c] (xs @ f # ys)) \<ge> length f + (if xs = [] then 0 else 1) + (if ys = [] then 0 else 1)"
proof -
  have "length (join_with [c] (f # ys)) \<ge> length f + (if ys = [] then 0 else 1)"
    by (cases ys) (auto simp: join_with_Cons)
  then show ?thesis by (cases "xs = []") (auto simp: join_with_append)
qed

lemma split_on_whole: "\<lbrakk>l \<in> set (split_on c s); length l = length s\<rbrakk> \<Longrightarrow> l = s"
proof -
  assume l: "l \<in> set (split_on c s)" "length l = length s"
  then obtain xs ys where xy: "split_on c s = xs @ l # ys" by (auto simp: in_set_conv_decomp)
  then have "s = join_with [c] (xs @ l # ys)" by (metis join_split_on)
  with l(2) join_with_longer [of l xs ys c] have "xs = [] \<and> ys = []" by (auto split: if_splits)
  with xy show "l = s" by (metis append_Nil join_split_on join_with.simps(2))
qed

lemma stem_of_whole: "length (stem_of n) = length n \<Longrightarrow> stem_of n = n"
proof (rule ccontr)
  assume eq: "length (stem_of n) = length n" and "stem_of n \<noteq> n"
  then have st: "stem_of n = join_with (lit ''.'') (butlast (split_on 46 n))" and "length (split_on 46 n) \<noteq> 1"
    by (auto simp: stem_of_def Let_def split: if_splits)
  then obtain qs q where qs: "split_on 46 n = qs @ [q]" and "qs \<noteq> []"
    by (cases "split_on 46 n" rule: rev_cases) auto
  have "n = join_with [46] (qs @ [q])" using join_split_on [of 46 n] by (simp add: qs)
  with \<open>qs \<noteq> []\<close> have "length (join_with [46] qs) < length n" by (simp add: join_with_append)
  with eq st qs show False by (simp add: lit_def)
qed

lemma file_name_in_split: "file_name (path_of s) = Some n \<Longrightarrow> n \<in> set (split_on c_slash s)"
proof -
  assume n: "file_name (path_of s) = Some n"
  then have "Normal n \<in> set (path_of s)"
    by (auto simp: file_name_def split: if_splits component.splits intro: last_in_set dest: sym)
  then obtain p where p: "p \<in> set (split_on c_slash s)" "component_of p = Some (Normal n)"
    by (auto simp: path_of_def Let_def List.map_filter_def split: if_splits)
  then have "p = n" by (auto simp: component_of.simps split: if_splits)
  with p show ?thesis by simp
qed

text \<open>
  \<open>detect_shell_type\<close> looks at the name as it is written and, while this changes the path,
  at its file stem.
\<close>

function detect_shell_type :: "ustr \<Rightarrow> shell_type option" where
  "detect_shell_type shell_path =
    (case shell_name_type shell_path of
       Some t \<Rightarrow> Some t
     | None \<Rightarrow>
        (case file_stem (path_of shell_path) of
           Some shell_name \<Rightarrow>
             if path_of shell_name \<noteq> path_of shell_path then detect_shell_type shell_name else None
         | None \<Rightarrow> None))"
  by pat_completeness auto

lemma file_stem_shorter:
  assumes "file_stem (path_of s) = Some n" and "path_of n \<noteq> path_of s"
  shows "length n < length s"
proof -
  obtain f where f: "f \<in> set (split_on c_slash s)" and n: "n = stem_of f"
    using assms(1) file_name_in_split by (auto simp: file_stem_def)
  have le: "length n \<le> length f" "length f \<le> length s"
    using length_stem_of in_split_length [OF f] by (simp_all add: n)
  have "n = s" if "length n = length s"
  proof -
    from that le have len: "length f = length s" "length (stem_of f) = length f" by (simp_all add: n)
    from stem_of_whole [OF len(2)] split_on_whole [OF f len(1)] show ?thesis by (simp add: n)
  qed
  with le assms(2) show ?thesis by fastforce
qed

termination detect_shell_type
  by (relation "measure length") (auto intro: file_stem_shorter)

declare detect_shell_type.simps [simp del]

subsection \<open>Bash invocations\<close>

definition extract_bash_command :: "ustr list \<Rightarrow> (ustr \<times> ustr) option" where
  "extract_bash_command command = (case command of
     [shell, flag, script] \<Rightarrow>
       if (flag \<noteq> lit ''-lc'' \<and> flag \<noteq> lit ''-c'')
          \<or> detect_shell_type shell \<notin> {Some Zsh, Some Bash, Some Sh}
       then None else Some (shell, script)
   | _ \<Rightarrow> None)"

subsection \<open>Syntax trees\<close>

datatype node = Node (node_kind: ustr) (is_named: bool) (node_text: ustr) (start_byte: nat)
  (node_children: "node list")

record syntax_tree =
  root_node :: node
  has_error :: bool

type_synonym shell_parser = "ustr \<Rightarrow> syntax_tree option"

definition named_children :: "node \<Rightarrow> node list" where
  "named_children n = filter is_named (node_children n)"

definition named_child :: "nat \<Rightarrow> node \<Rightarrow> node option" where
  "named_child i n = (let cs = named_children n in if i < length cs then Some (cs ! i) else None)"

fun nodes_of :: "node \<Rightarrow> node list" where
  "nodes_of (Node k nm t b cs) = Node k nm t b cs # concat (map nodes_of cs)"

text \<open>The nodes reached through named children only.\<close>

fun named_nodes_of :: "node \<Rightarrow> node list" where
  "named_nodes_of (Node k nm t b cs) =
     Node k nm t b cs # concat (map (\<lambda>c. if is_named c then named_nodes_of c else []) cs)"

definition ALLOWED_KINDS :: "ustr list" where
  "ALLOWED_KINDS = [lit ''program'', lit ''list'', lit ''pipeline'', lit ''command'', lit ''command_name'',
     lit ''word'', lit ''string'', lit ''string_content'', lit ''raw_string'', lit ''number'', lit ''concatenation'']"

definition ALLOWED_PUNCT_TOKENS :: "ustr list" where
  "ALLOWED_PUNCT_TOKENS =
    [lit ''&&'', lit ''||'', lit '';'', lit ''|'', [c_dquote], [c_squote]]"

definition node_allowed :: "node \<Rightarrow> bool" where
  "node_allowed n = (let kind = node_kind n in
    if is_named n then kind \<in> set ALLOWED_KINDS
    else \<not> (list_ex (\<lambda>c. c \<in> set (lit ''&;|'')) kind \<and> kind \<notin> set ALLOWED_PUNCT_TOKENS)
       \<and> (kind \<in> set ALLOWED_PUNCT_TOKENS \<or> trim kind = []))"

definition is_command_node :: "node \<Rightarrow> bool" where
  "is_command_node n \<longleftrightarrow> is_named n \<and> node_kind n = lit ''command''"

lemma size_list_rev [simp]: "size_list f (rev xs) = size_list f xs"
  by (induction xs) (auto simp: size_list_append)

text \<open>The stack loop: pop a node, check it, push its children; the head of the list is the top.\<close>

function command_nodes :: "node list \<Rightarrow> node list \<Rightarrow> node list option" where
  "command_nodes [] acc = Some acc"
| "command_nodes (n # stack) acc =
    (if \<not> node_allowed n then None
     else command_nodes (rev (node_children n) @ stack) (if is_command_node n then acc @ [n] else acc))"
  by pat_completeness auto

lemma size_children: "size_list size (node_children n) < size n"
  by (cases n) simp

termination command_nodes
  by (relation "measure (\<lambda>(stack, _). size_list size stack)")
     (auto simp: size_list_append intro: less_SucI size_children)

declare command_nodes.simps(2) [simp del]

subsection \<open>The words of a command\<close>

definition parse_double_quoted_string :: "node \<Rightarrow> ustr option" where
  "parse_double_quoted_string n =
    (if node_kind n \<noteq> lit ''string'' then None
     else if list_ex (\<lambda>part. node_kind part \<noteq> lit ''string_content'') (named_children n) then None
     else Option.bind (strip_prefix [c_dquote] (node_text n)) (strip_suffix [c_dquote]))"

definition parse_raw_string :: "node \<Rightarrow> ustr option" where
  "parse_raw_string n =
    (if node_kind n \<noteq> lit ''raw_string'' then None
     else Option.bind (strip_prefix [c_squote] (node_text n)) (strip_suffix [c_squote]))"

definition concatenation_part :: "node \<Rightarrow> ustr option" where
  "concatenation_part part =
    (if node_kind part = lit ''word'' \<or> node_kind part = lit ''number'' then Some (node_text part)
     else if node_kind part = lit ''string'' then parse_double_quoted_string part
     else if node_kind part = lit ''raw_string'' then parse_raw_string part
     else None)"

text \<open>\<open>map_all\<close> is the loop that pushes results and returns \<open>None\<close> at the first failure.\<close>

fun map_all :: "('a \<Rightarrow> 'b option) \<Rightarrow> 'a list \<Rightarrow> 'b list option" where
  "map_all f [] = Some []"
| "map_all f (x # xs) =
    (case f x of None \<Rightarrow> None | Some y \<Rightarrow> map_option ((#) y) (map_all f xs))"

lemma map_all_Some_iff: "map_all f xs = Some ys \<longleftrightarrow> list_all2 (\<lambda>x y. f x = Some y) xs ys"
proof (induction xs arbitrary: ys)
  case (Cons x xs)
  show ?case by (cases ys) (auto simp flip: Cons split: option.splits)
qed auto

definition parse_word :: "node \<Rightarrow> ustr option" where
  "parse_word child =
    (if node_kind child = lit ''command_name'' then
       (case named_child 0 child of
          None \<Rightarrow> None
        | Some word_node \<Rightarrow> if node_kind word_node \<noteq> lit ''word'' then None else Some (node_text word_node))
     else if node_kind child = lit ''word'' \<or> node_kind child = lit ''number'' then Some (node_text child)
     else if node_kind child = lit ''string'' then parse_double_quoted_string child
     else if node_kind child = lit ''raw_string'' then parse_raw_string child
     else if node_kind child = lit ''concatenation'' then
       (case map_all concatenation_part (named_children child) of
          None \<Rightarrow> None
        | Some parts \<Rightarrow> if concat parts = [] then None else Some (concat parts))
     else None)"

definition parse_plain_command_from_node :: "node \<Rightarrow> ustr list option" where
  "parse_plain_command_from_node cmd =
    (if node_kind cmd \<noteq> lit ''command'' then None else map_all parse_word (named_children cmd))"

definition try_parse_word_only_commands_sequence :: "syntax_tree \<Rightarrow> ustr list list option" where
  "try_parse_word_only_commands_sequence tree =
    (if has_error tree then None
     else case command_nodes [root_node tree] [] of
       None \<Rightarrow> None
     | Some nodes \<Rightarrow> map_all parse_plain_command_from_node (sort_key start_byte nodes))"

definition parse_shell_lc_plain_commands :: "shell_parser \<Rightarrow> ustr list \<Rightarrow> ustr list list option" where
  "parse_shell_lc_plain_commands try_parse_shell command =
    (case extract_bash_command command of
       None \<Rightarrow> None
     | Some (_, script) \<Rightarrow> Option.bind (try_parse_shell script) try_parse_word_only_commands_sequence)"

subsection \<open>The prefix of a here-document command\<close>

definition is_literal_word_or_number :: "node \<Rightarrow> bool" where
  "is_literal_word_or_number n \<longleftrightarrow>
     (node_kind n = lit ''word'' \<or> node_kind n = lit ''number'') \<and> named_children n = []"

definition is_allowed_heredoc_attachment_kind :: "ustr \<Rightarrow> bool" where
  "is_allowed_heredoc_attachment_kind kind \<longleftrightarrow>
     kind \<in> set [lit ''heredoc_body'', lit ''simple_heredoc_body'', lit ''heredoc_redirect'',
       lit ''herestring_redirect'', lit ''file_redirect'', lit ''redirected_statement'']"

text \<open>No word, one word, or a construct the loop rejects.\<close>

definition heredoc_word :: "node \<Rightarrow> ustr list option" where
  "heredoc_word child =
    (if node_kind child = lit ''command_name'' then
       (case named_child 0 child of
          None \<Rightarrow> None
        | Some w \<Rightarrow> if is_literal_word_or_number w then Some [node_text w] else None)
     else if node_kind child = lit ''word'' \<or> node_kind child = lit ''number'' then
       (if is_literal_word_or_number child then Some [node_text child] else None)
     else if node_kind child = lit ''variable_assignment'' \<or> node_kind child = lit ''comment'' then Some []
     else if is_allowed_heredoc_attachment_kind (node_kind child) then Some []
     else None)"

definition parse_heredoc_command_words :: "node \<Rightarrow> ustr list option" where
  "parse_heredoc_command_words cmd =
    (if node_kind cmd \<noteq> lit ''command'' then None
     else case map_all heredoc_word (named_children cmd) of
       None \<Rightarrow> None
     | Some ws \<Rightarrow> if concat ws = [] then None else Some (concat ws))"

lemma size_named_children: "size_list size (named_children n) \<le> size_list size (node_children n)"
proof -
  have "size_list size (filter P xs) \<le> size_list size xs" for P and xs :: "node list"
    by (induction xs) auto
  then show ?thesis by (simp add: named_children_def)
qed

lemma size_named: "size_list size (named_children n) < size n"
  using size_named_children [of n] size_children [of n] by simp

function find_single_command :: "node list \<Rightarrow> node option \<Rightarrow> node option" where
  "find_single_command [] single_command = single_command"
| "find_single_command (n # stack) single_command =
    (if node_kind n = lit ''command'' \<and> single_command \<noteq> None then None
     else find_single_command (rev (named_children n) @ stack)
       (if node_kind n = lit ''command'' then Some n else single_command))"
  by pat_completeness auto
termination find_single_command
  by (relation "measure (\<lambda>(stack, _). size_list size stack)")
     (auto simp: size_list_append intro: less_SucI size_named)

declare find_single_command.simps(2) [simp del]

definition find_single_command_node :: "node \<Rightarrow> node option" where
  "find_single_command_node root = find_single_command [root] None"

function has_named_kind :: "node list \<Rightarrow> ustr \<Rightarrow> bool" where
  "has_named_kind [] kind = False"
| "has_named_kind (n # stack) kind =
    (node_kind n = kind \<or> has_named_kind (rev (named_children n) @ stack) kind)"
  by pat_completeness auto
termination has_named_kind
  by (relation "measure (\<lambda>(stack, _). size_list size stack)")
     (auto simp: size_list_append intro: less_SucI size_named)

declare has_named_kind.simps(2) [simp del]

definition has_named_descendant_kind :: "node \<Rightarrow> ustr \<Rightarrow> bool" where
  "has_named_descendant_kind n kind = has_named_kind [n] kind"

definition parse_shell_lc_single_command_prefix :: "shell_parser \<Rightarrow> ustr list \<Rightarrow> ustr list option" where
  "parse_shell_lc_single_command_prefix try_parse_shell command =
    (case extract_bash_command command of
       None \<Rightarrow> None
     | Some (_, script) \<Rightarrow>
        (case try_parse_shell script of
           None \<Rightarrow> None
         | Some tree \<Rightarrow>
             if has_error tree then None
             else if \<not> has_named_descendant_kind (root_node tree) (lit ''heredoc_redirect'') then None
             else Option.bind (find_single_command_node (root_node tree)) parse_heredoc_command_words))"

subsection \<open>PowerShell invocations\<close>

definition POWERSHELL_FLAGS :: "ustr list" where
  "POWERSHELL_FLAGS = [lit ''-nologo'', lit ''-noprofile'', lit ''-command'', lit ''-c'']"

definition UTF8_OUTPUT_PREFIX :: ustr where
  "UTF8_OUTPUT_PREFIX = lit ''[Console]::OutputEncoding=[System.Text.Encoding]::UTF8;'' @ [nl]"

text \<open>The loop over the flags; it needs a script after the flag it looks at.\<close>

fun powershell_script :: "ustr list \<Rightarrow> ustr option" where
  "powershell_script (flag # script # rest) =
    (if to_ascii_lowercase flag \<notin> set POWERSHELL_FLAGS then None
     else if eq_ignore_ascii_case flag (lit ''-Command'') \<or> eq_ignore_ascii_case flag (lit ''-c'') then Some script
     else powershell_script (script # rest))"
| "powershell_script _ = None"

definition extract_powershell_command :: "ustr list \<Rightarrow> (ustr \<times> ustr) option" where
  "extract_powershell_command command =
    (if length command < 3 then None
     else let shell = command ! 0 in
       if detect_shell_type shell \<noteq> Some PowerShell then None
       else map_option (Pair shell) (powershell_script (drop 1 command)))"

definition prefix_powershell_script_with_utf8 :: "ustr list \<Rightarrow> ustr list" where
  "prefix_powershell_script_with_utf8 command =
    (case extract_powershell_command command of
       None \<Rightarrow> command
     | Some (_, script) \<Rightarrow>
        (let script' = (if starts_with UTF8_OUTPUT_PREFIX (trim_start script) then script
                        else UTF8_OUTPUT_PREFIX @ script)
         in take (length command - 1) command @ [script']))"

subsection \<open>What the tree walks find\<close>

lemma nodes_of_unfold: "nodes_of n = n # concat (map nodes_of (node_children n))"
  by (cases n) simp

text \<open>The walk succeeds when every node of the tree is allowed, and then it returns exactly the
  command nodes, in some order.\<close>

definition stack_nodes :: "node list \<Rightarrow> node set" where
  "stack_nodes stack = (\<Union>n\<in>set stack. set (nodes_of n))"

lemma stack_nodes_pop: "stack_nodes (n # stack) = insert n (stack_nodes (rev (node_children n) @ stack))"
  using nodes_of_unfold [of n] by (auto simp: stack_nodes_def)

lemma command_nodes_Some:
  "command_nodes stack acc = Some res \<Longrightarrow>
     (\<forall>m\<in>stack_nodes stack. node_allowed m) \<and> set res = set acc \<union> {m \<in> stack_nodes stack. is_command_node m}"
proof (induction stack acc rule: command_nodes.induct)
  case (1 acc)
  then show ?case by (simp add: stack_nodes_def)
next
  case (2 n stack acc)
  let ?acc = "if is_command_node n then acc @ [n] else acc"
  from 2(2) have ok: "node_allowed n" and step: "command_nodes (rev (node_children n) @ stack) ?acc = Some res"
    by (auto simp: command_nodes.simps(2) split: if_splits)
  from 2(1) [of, OF _ step] ok
  have "\<forall>m\<in>stack_nodes (rev (node_children n) @ stack). node_allowed m"
    and "set res = set ?acc \<union> {m \<in> stack_nodes (rev (node_children n) @ stack). is_command_node m}" by simp_all
  with ok show ?case unfolding stack_nodes_pop by auto
qed

lemma command_nodes_defined:
  "\<forall>m\<in>stack_nodes stack. node_allowed m \<Longrightarrow> \<exists>res. command_nodes stack acc = Some res"
proof (induction stack acc rule: command_nodes.induct)
  case (2 n stack acc)
  then show ?case unfolding stack_nodes_pop by (simp add: command_nodes.simps(2))
qed simp

lemma command_nodes_Some_iff:
  "(\<exists>res. command_nodes [root] [] = Some res) \<longleftrightarrow> (\<forall>n\<in>set (nodes_of root). node_allowed n)"
proof -
  have "stack_nodes [root] = set (nodes_of root)" by (simp add: stack_nodes_def)
  with command_nodes_Some [of "[root]" "[]"] command_nodes_defined [of "[root]" "[]"] show ?thesis by auto
qed

lemma command_nodes_set:
  "command_nodes [root] [] = Some res \<Longrightarrow> set res = {n \<in> set (nodes_of root). is_command_node n}"
  using command_nodes_Some [of "[root]" "[]" res] by (simp add: stack_nodes_def)

text \<open>A script whose tree has no error yields its commands exactly when every node is allowed and
  every command node consists of plain words.\<close>

lemma word_only_Some:
  assumes "try_parse_word_only_commands_sequence tree = Some cmds"
  shows "\<not> has_error tree" and "\<forall>n\<in>set (nodes_of (root_node tree)). node_allowed n"
    and "\<forall>n\<in>set (nodes_of (root_node tree)). is_command_node n \<longrightarrow>
           (\<exists>ws\<in>set cmds. parse_plain_command_from_node n = Some ws)"
    and "\<forall>ws\<in>set cmds. \<exists>n\<in>set (nodes_of (root_node tree)).
           is_command_node n \<and> parse_plain_command_from_node n = Some ws"
proof -
  obtain ns where ok: "\<not> has_error tree" and ns: "command_nodes [root_node tree] [] = Some ns"
    and cmds: "map_all parse_plain_command_from_node (sort_key start_byte ns) = Some cmds"
    using assms by (auto simp: try_parse_word_only_commands_sequence_def split: if_splits option.splits)
  show "\<not> has_error tree" by fact
  show "\<forall>n\<in>set (nodes_of (root_node tree)). node_allowed n" using ns command_nodes_Some_iff by blast
  from cmds have all2: "list_all2 (\<lambda>n ws. parse_plain_command_from_node n = Some ws) (sort_key start_byte ns) cmds"
    by (simp add: map_all_Some_iff)
  note sets = command_nodes_set [OF ns]
  have left: "\<forall>n\<in>set ns. \<exists>ws\<in>set cmds. parse_plain_command_from_node n = Some ws"
    and right: "\<forall>ws\<in>set cmds. \<exists>n\<in>set ns. parse_plain_command_from_node n = Some ws"
    using list_all2_in1 [OF all2] list_all2_in2 [OF all2] by simp_all
  from left sets show "\<forall>n\<in>set (nodes_of (root_node tree)). is_command_node n \<longrightarrow>
           (\<exists>ws\<in>set cmds. parse_plain_command_from_node n = Some ws)" by blast
  from right sets show "\<forall>ws\<in>set cmds. \<exists>n\<in>set (nodes_of (root_node tree)).
           is_command_node n \<and> parse_plain_command_from_node n = Some ws" by blast
qed

lemma has_named_kind_iff:
  "has_named_kind stack kind \<longleftrightarrow> (\<exists>n\<in>set stack. \<exists>m\<in>set (named_nodes_of n). node_kind m = kind)"
proof (induction stack kind rule: has_named_kind.induct)
  case (2 n stack kind)
  have nn: "set (named_nodes_of n) = insert n (\<Union>c\<in>set (named_children n). set (named_nodes_of c))"
    by (cases n) (auto simp: named_children_def)
  from 2 show ?case by (auto simp: has_named_kind.simps(2) nn)
qed simp

end
