(* ===== verification/Command_Safety.thy ===== *)
theory Command_Safety
  imports Shell_Parse
begin

section \<open>Safe and dangerous commands (shell-command/command\_safety)\<close>

text \<open>
  The two classifiers of a command: \<open>is_known_safe_command\<close>, the commands that are run without
  asking, and \<open>command_might_be_dangerous\<close>, the ones that are never run without asking. The
  Linux build of the code; the PowerShell parser is an external process and a parameter.
\<close>

subsection \<open>Git options\<close>

definition starts_with_any :: "ustr list \<Rightarrow> ustr \<Rightarrow> bool" where
  "starts_with_any prefixes s = list_ex (\<lambda>p. starts_with p s) prefixes"

definition git_value_options :: "ustr list" where
  "git_value_options = [lit ''--config-env='', lit ''--exec-path='', lit ''--git-dir='', lit ''--namespace='',
     lit ''--super-prefix='', lit ''--work-tree='']"

definition is_git_global_option_with_value :: "ustr \<Rightarrow> bool" where
  "is_git_global_option_with_value arg \<longleftrightarrow> arg \<in> set [lit ''-C'', lit ''-c'', lit ''--config-env'',
     lit ''--exec-path'', lit ''--git-dir'', lit ''--namespace'', lit ''--super-prefix'', lit ''--work-tree'']"

definition is_git_global_option_with_inline_value :: "ustr \<Rightarrow> bool" where
  "is_git_global_option_with_inline_value arg \<longleftrightarrow>
     starts_with_any git_value_options arg
     \<or> ((starts_with (lit ''-C'') arg \<or> starts_with (lit ''-c'') arg) \<and> str_len arg > 2)"

definition git_global_option_requires_prompt :: "ustr \<Rightarrow> bool" where
  "git_global_option_requires_prompt arg \<longleftrightarrow>
     arg \<in> set [lit ''-c'', lit ''--config-env'', lit ''--exec-path'', lit ''--git-dir'', lit ''--namespace'',
       lit ''--super-prefix'', lit ''--work-tree'']
     \<or> (starts_with (lit ''-c'') arg \<and> str_len arg > 2)
     \<or> starts_with_any git_value_options arg"

definition executable_name_lookup_key :: "ustr \<Rightarrow> ustr option" where
  "executable_name_lookup_key raw = file_name (path_of raw)"

text \<open>The scan for the subcommand, over the arguments that are left and their index.\<close>

fun git_subcommand_from :: "ustr list \<Rightarrow> bool \<Rightarrow> nat \<Rightarrow> ustr list \<Rightarrow> (nat \<times> ustr) option" where
  "git_subcommand_from subcommands skip_next idx [] = None"
| "git_subcommand_from subcommands skip_next idx (arg # args) =
    (if skip_next then git_subcommand_from subcommands False (idx + 1) args
     else if is_git_global_option_with_inline_value arg then git_subcommand_from subcommands False (idx + 1) args
     else if is_git_global_option_with_value arg then git_subcommand_from subcommands True (idx + 1) args
     else if arg = lit ''--'' \<or> starts_with (lit ''-'') arg then git_subcommand_from subcommands False (idx + 1) args
     else if arg \<in> set subcommands then Some (idx, arg)
     else None)"

definition find_git_subcommand :: "ustr list \<Rightarrow> ustr list \<Rightarrow> (nat \<times> ustr) option" where
  "find_git_subcommand command subcommands = (case command of
     [] \<Rightarrow> None
   | cmd0 # args \<Rightarrow>
       if executable_name_lookup_key cmd0 \<noteq> Some (lit ''git'') then None
       else git_subcommand_from subcommands False 1 args)"

subsection \<open>Dangerous commands\<close>

fun is_dangerous_to_call_with_exec :: "ustr list \<Rightarrow> bool" where
  "is_dangerous_to_call_with_exec [] = False"
| "is_dangerous_to_call_with_exec (cmd0 # args) =
    (if cmd0 = lit ''rm'' then (case args of a # _ \<Rightarrow> a = lit ''-f'' \<or> a = lit ''-rf'' | [] \<Rightarrow> False)
     else if cmd0 = lit ''sudo'' then is_dangerous_to_call_with_exec args
     else False)"

definition command_might_be_dangerous :: "shell_parser \<Rightarrow> ustr list \<Rightarrow> bool" where
  "command_might_be_dangerous try_parse_shell command =
    (if is_dangerous_to_call_with_exec command then True
     else case parse_shell_lc_plain_commands try_parse_shell command of
       Some all_commands \<Rightarrow> list_ex is_dangerous_to_call_with_exec all_commands
     | None \<Rightarrow> False)"

subsection \<open>Safe commands\<close>

definition ALWAYS_SAFE :: "ustr list" where
  "ALWAYS_SAFE = [lit ''cat'', lit ''cd'', lit ''cut'', lit ''echo'', lit ''expr'', lit ''false'', lit ''grep'',
     lit ''head'', lit ''id'', lit ''ls'', lit ''nl'', lit ''paste'', lit ''pwd'', lit ''rev'', lit ''seq'',
     lit ''stat'', lit ''tail'', lit ''tr'', lit ''true'', lit ''uname'', lit ''uniq'', lit ''wc'', lit ''which'',
     lit ''whoami'']"

definition LINUX_SAFE :: "ustr list" where
  "LINUX_SAFE = [lit ''numfmt'', lit ''tac'']"

definition base64_writes :: "ustr \<Rightarrow> bool" where
  "base64_writes arg \<longleftrightarrow> arg \<in> set [lit ''-o'', lit ''--output''] \<or> starts_with (lit ''--output='') arg
     \<or> (starts_with (lit ''-o'') arg \<and> arg \<noteq> lit ''-o'')"

definition UNSAFE_FIND_OPTIONS :: "ustr list" where
  "UNSAFE_FIND_OPTIONS = [lit ''-exec'', lit ''-execdir'', lit ''-ok'', lit ''-okdir'', lit ''-delete'',
     lit ''-fls'', lit ''-fprint'', lit ''-fprint0'', lit ''-fprintf'']"

definition ripgrep_unsafe :: "ustr \<Rightarrow> bool" where
  "ripgrep_unsafe arg \<longleftrightarrow> arg \<in> set [lit ''--search-zip'', lit ''-z'']
     \<or> list_ex (\<lambda>opt. arg = opt \<or> starts_with (opt @ lit ''='') arg) [lit ''--pre'', lit ''--hostname-bin'']"

definition git_has_unsafe_global_option :: "ustr list \<Rightarrow> bool" where
  "git_has_unsafe_global_option command = list_ex git_global_option_requires_prompt (drop 1 command)"

definition git_subcommand_args_are_read_only :: "ustr list \<Rightarrow> bool" where
  "git_subcommand_args_are_read_only args = (\<not> list_ex (\<lambda>arg.
     arg \<in> set [lit ''--output'', lit ''--ext-diff'', lit ''--textconv'', lit ''--exec'', lit ''--paginate'']
     \<or> starts_with (lit ''--output='') arg \<or> starts_with (lit ''--exec='') arg) args)"

definition branch_query_flag :: "ustr \<Rightarrow> bool" where
  "branch_query_flag arg \<longleftrightarrow>
     arg \<in> set [lit ''--list'', lit ''-l'', lit ''--show-current'', lit ''-a'', lit ''--all'', lit ''-r'',
       lit ''--remotes'', lit ''-v'', lit ''-vv'', lit ''--verbose'']
     \<or> starts_with (lit ''--format='') arg"

fun branch_args_loop :: "bool \<Rightarrow> ustr list \<Rightarrow> bool" where
  "branch_args_loop saw_read_only_flag [] = saw_read_only_flag"
| "branch_args_loop saw_read_only_flag (arg # args) =
    (if branch_query_flag arg then branch_args_loop True args else False)"

definition git_branch_is_read_only :: "ustr list \<Rightarrow> bool" where
  "git_branch_is_read_only branch_args =
    (if branch_args = [] then True else branch_args_loop False branch_args)"

definition is_safe_git :: "ustr list \<Rightarrow> bool" where
  "is_safe_git command =
    (if git_has_unsafe_global_option command then False
     else case find_git_subcommand command
            [lit ''status'', lit ''log'', lit ''diff'', lit ''show'', lit ''branch''] of
       None \<Rightarrow> False
     | Some (subcommand_idx, subcommand) \<Rightarrow>
        (let subcommand_args = drop (subcommand_idx + 1) command in
         if subcommand \<in> set [lit ''status'', lit ''log'', lit ''diff'', lit ''show'']
         then git_subcommand_args_are_read_only subcommand_args
         else if subcommand = lit ''branch''
         then git_subcommand_args_are_read_only subcommand_args \<and> git_branch_is_read_only subcommand_args
         else False))"

definition is_number :: "ustr \<Rightarrow> bool" where
  "is_number s \<longleftrightarrow> s \<noteq> [] \<and> list_all is_ascii_digit s"

definition is_valid_sed_n_arg :: "ustr option \<Rightarrow> bool" where
  "is_valid_sed_n_arg arg = (case arg of None \<Rightarrow> False
   | Some s \<Rightarrow>
      (case strip_suffix (lit ''p'') s of None \<Rightarrow> False
       | Some core \<Rightarrow>
          (case split_on 44 core of
             [num] \<Rightarrow> is_number num
           | [a, b] \<Rightarrow> is_number a \<and> is_number b
           | _ \<Rightarrow> False)))"

definition get_arg :: "nat \<Rightarrow> ustr list \<Rightarrow> ustr option" where
  "get_arg i command = (if i < length command then Some (command ! i) else None)"

definition is_safe_to_call_with_exec :: "ustr list \<Rightarrow> bool" where
  "is_safe_to_call_with_exec command = (case command of [] \<Rightarrow> False
   | cmd0 # _ \<Rightarrow>
      (case executable_name_lookup_key cmd0 of None \<Rightarrow> False
       | Some name \<Rightarrow>
          if name \<in> set LINUX_SAFE then True
          else if name \<in> set ALWAYS_SAFE then True
          else if name = lit ''base64'' then \<not> list_ex base64_writes (drop 1 command)
          else if name = lit ''find'' then \<not> list_ex (\<lambda>arg. arg \<in> set UNSAFE_FIND_OPTIONS) command
          else if name = lit ''rg'' then \<not> list_ex ripgrep_unsafe command
          else if name = lit ''git'' then is_safe_git command
          else if name = lit ''sed'' then
            length command \<le> 4 \<and> get_arg 1 command = Some (lit ''-n'') \<and> is_valid_sed_n_arg (get_arg 2 command)
          else False))"

subsection \<open>PowerShell\<close>

type_synonym powershell_parser = "ustr \<Rightarrow> ustr \<Rightarrow> ustr list list option"

definition is_powershell_executable :: "ustr \<Rightarrow> bool" where
  "is_powershell_executable exe =
    (to_ascii_lowercase (case file_name (path_of exe) of Some n \<Rightarrow> n | None \<Rightarrow> exe)
      \<in> set [lit ''powershell'', lit ''powershell.exe'', lit ''pwsh'', lit ''pwsh.exe''])"

definition quote_argument :: "ustr \<Rightarrow> ustr" where
  "quote_argument arg =
    (if arg = [] then [c_squote, c_squote]
     else if list_all (\<lambda>c. \<not> is_whitespace c) arg then arg
     else [c_squote] @ concat (map (\<lambda>c. if c = c_squote then [c_squote, c_squote] else [c]) arg) @ [c_squote])"

definition join_arguments_as_script :: "ustr list \<Rightarrow> ustr" where
  "join_arguments_as_script args = (case args of
     [] \<Rightarrow> [] | first # rest \<Rightarrow> join_with [c_space] (first # map quote_argument rest))"

fun parse_powershell_invocation :: "powershell_parser \<Rightarrow> ustr \<Rightarrow> ustr list \<Rightarrow> ustr list list option" where
  "parse_powershell_invocation parse_script executable [] = None"
| "parse_powershell_invocation parse_script executable (arg # args) =
    (let lower = to_ascii_lowercase arg in
     if lower \<in> set [lit ''-command'', lit ''/command'', lit ''-c''] then
       (case args of [script] \<Rightarrow> parse_script executable script | _ \<Rightarrow> None)
     else if starts_with (lit ''-command:'') lower \<or> starts_with (lit ''/command:'') lower then
       (if args \<noteq> [] then None
        else case split_once c_colon arg of Some (_, script) \<Rightarrow> parse_script executable script | None \<Rightarrow> None)
     else if lower \<in> set [lit ''-nologo'', lit ''-noprofile'', lit ''-noninteractive'', lit ''-mta'', lit ''-sta'']
     then parse_powershell_invocation parse_script executable args
     else if lower \<in> set [lit ''-encodedcommand'', lit ''-ec'', lit ''-file'', lit ''/file'', lit ''-windowstyle'',
       lit ''-executionpolicy'', lit ''-workingdirectory''] then None
     else if starts_with (lit ''-'') lower then None
     else parse_script executable (join_arguments_as_script (arg # args)))"

definition try_parse_powershell_command_sequence :: "powershell_parser \<Rightarrow> ustr list \<Rightarrow> ustr list list option" where
  "try_parse_powershell_command_sequence parse_script command = (case command of [] \<Rightarrow> None
   | exe # rest \<Rightarrow>
      if is_powershell_executable exe then parse_powershell_invocation parse_script exe rest else None)"

definition SIDE_EFFECTING_CMDLETS :: "ustr list" where
  "SIDE_EFFECTING_CMDLETS = [lit ''set-content'', lit ''add-content'', lit ''out-file'', lit ''new-item'',
     lit ''remove-item'', lit ''move-item'', lit ''copy-item'', lit ''rename-item'', lit ''start-process'',
     lit ''stop-process'']"

definition READ_ONLY_CMDLETS :: "ustr list" where
  "READ_ONLY_CMDLETS = [lit ''echo'', lit ''write-output'', lit ''write-host'', lit ''dir'', lit ''ls'',
     lit ''get-childitem'', lit ''gci'', lit ''cat'', lit ''type'', lit ''gc'', lit ''get-content'',
     lit ''select-string'', lit ''sls'', lit ''findstr'', lit ''measure-object'', lit ''measure'',
     lit ''get-location'', lit ''gl'', lit ''pwd'', lit ''test-path'', lit ''tp'', lit ''resolve-path'',
     lit ''rvpa'', lit ''select-object'', lit ''select'', lit ''get-item'']"

definition cmdlet_name :: "ustr \<Rightarrow> ustr" where
  "cmdlet_name w =
    (let paren = (\<lambda>c. c = 40 \<or> c = 41)
     in to_ascii_lowercase (trim_start_matches (\<lambda>c. c = c_minus) (trim_end_matches paren (trim_start_matches paren w))))"

definition is_safe_ripgrep :: "ustr list \<Rightarrow> bool" where
  "is_safe_ripgrep words = (\<not> list_ex (\<lambda>arg. ripgrep_unsafe (to_ascii_lowercase arg)) (drop 1 words))"

fun safe_git_args :: "ustr list \<Rightarrow> bool" where
  "safe_git_args [] = False"
| "safe_git_args (arg # args) =
    (let arg_lc = to_ascii_lowercase arg in
     if starts_with (lit ''-'') arg then
       (if git_global_option_requires_prompt arg_lc \<or> eq_ignore_ascii_case arg (lit ''--config'')
           \<or> starts_with (lit ''--config='') arg_lc
        then False else safe_git_args args)
     else arg_lc \<in> set [lit ''status'', lit ''log'', lit ''show'', lit ''diff'', lit ''cat-file''])"

definition is_safe_git_command :: "ustr list \<Rightarrow> bool" where
  "is_safe_git_command words = safe_git_args (drop 1 words)"

definition is_safe_powershell_command :: "ustr list \<Rightarrow> bool" where
  "is_safe_powershell_command words = (case words of [] \<Rightarrow> False
   | w # _ \<Rightarrow>
      if list_ex (\<lambda>w. cmdlet_name w \<in> set SIDE_EFFECTING_CMDLETS) words then False
      else let command = cmdlet_name w in
        if command \<in> set READ_ONLY_CMDLETS then True
        else if command = lit ''git'' then is_safe_git_command words
        else if command = lit ''rg'' then is_safe_ripgrep words
        else False)"

definition is_safe_command_windows :: "powershell_parser \<Rightarrow> ustr list \<Rightarrow> bool" where
  "is_safe_command_windows parse_script command =
    (case try_parse_powershell_command_sequence parse_script command of
       Some commands \<Rightarrow> list_all is_safe_powershell_command commands
     | None \<Rightarrow> False)"

subsection \<open>The classifier\<close>

definition zsh_as_bash :: "ustr list \<Rightarrow> ustr list" where
  "zsh_as_bash command = map (\<lambda>s. if s = lit ''zsh'' then lit ''bash'' else s) command"

definition is_known_safe_command :: "shell_parser \<Rightarrow> powershell_parser \<Rightarrow> ustr list \<Rightarrow> bool" where
  "is_known_safe_command try_parse_shell parse_script original =
    (let command = zsh_as_bash original in
     if is_safe_command_windows parse_script command then True
     else if is_safe_to_call_with_exec command then True
     else case parse_shell_lc_plain_commands try_parse_shell command of
       Some all_commands \<Rightarrow> all_commands \<noteq> [] \<and> list_all is_safe_to_call_with_exec all_commands
     | None \<Rightarrow> False)"

subsection \<open>Safe and dangerous commands are disjoint\<close>

lemma stem_of_no_dot: "c_dot \<notin> set n \<Longrightarrow> stem_of n = n"
  by (simp add: stem_of_def split_on_no_sep Let_def)

lemma component_of_plain: "\<lbrakk>n \<noteq> []; n \<noteq> lit ''.''; n \<noteq> lit ''..''\<rbrakk> \<Longrightarrow> component_of n = Some (Normal n)"
  by (simp add: component_of.simps)

lemma path_of_plain:
  assumes "c_slash \<notin> set n" and "n \<noteq> []" and "n \<noteq> lit ''.''" and "n \<noteq> lit ''..''"
  shows "path_of n = [Normal n]"
proof -
  from assms(1,2) have "\<not> starts_with (lit ''/'') n" by (cases n) (auto simp: lit_def)
  with assms show ?thesis
    by (simp add: path_of_def split_on_no_sep component_of_plain List.map_filter_simps)
qed

lemma file_name_facts:
  assumes "file_name (path_of s) = Some n"
  shows "c_slash \<notin> set n" and "n \<noteq> []" and "n \<noteq> lit ''.''" and "n \<noteq> lit ''..''"
proof -
  have "n \<in> set (split_on c_slash s)" using file_name_in_split [OF assms] .
  then show "c_slash \<notin> set n" by (rule split_on_sep_free)
  have "Normal n \<in> set (path_of s)"
    using assms by (auto simp: file_name_def split: if_splits component.splits intro: last_in_set dest: sym)
  then obtain p where "component_of p = Some (Normal n)"
    by (auto simp: path_of_def Let_def List.map_filter_def split: if_splits)
  then show "n \<noteq> []" "n \<noteq> lit ''.''" "n \<noteq> lit ''..''"
    by (auto simp: component_of.simps split: if_splits)
qed

lemma file_name_plain: "file_name (path_of s) = Some n \<Longrightarrow> path_of n = [Normal n]"
  using file_name_facts [of s n] by (simp add: path_of_plain)

lemma shell_name_plain:
  "shell_name_type s = Some t \<Longrightarrow> file_name (path_of s) = Some s"
  by (auto simp: shell_name_type_def split: if_splits) code_simp+

text \<open>A program whose file name is not a shell name and has no dot is not taken for a shell.\<close>

lemma detect_shell_none:
  assumes "file_name (path_of s) = Some n" and "c_dot \<notin> set n" and "shell_name_type n = None"
  shows "detect_shell_type s = None"
proof -
  have s: "shell_name_type s = None"
  proof (rule ccontr)
    assume "shell_name_type s \<noteq> None"
    then obtain t where t: "shell_name_type s = Some t" by auto
    with assms show False using shell_name_plain [OF t] by simp
  qed
  have p: "path_of n = [Normal n]" using assms(1) by (rule file_name_plain)
  have "detect_shell_type n = None"
    by (subst detect_shell_type.simps)
       (simp add: assms(2,3) file_stem_def p file_name_def stem_of_no_dot)
  then show ?thesis
    by (subst detect_shell_type.simps) (simp add: s file_stem_def assms(1) stem_of_no_dot assms(2))
qed

text \<open>The names \<open>is_safe_to_call_with_exec\<close> knows.\<close>

definition SAFE_NAMES :: "ustr list" where
  "SAFE_NAMES = LINUX_SAFE @ ALWAYS_SAFE @ [lit ''base64'', lit ''find'', lit ''rg'', lit ''git'', lit ''sed'']"

lemma safe_exec_name:
  "is_safe_to_call_with_exec command \<Longrightarrow>
     \<exists>cmd0 args n. command = cmd0 # args \<and> executable_name_lookup_key cmd0 = Some n \<and> n \<in> set SAFE_NAMES"
  by (cases command) (auto simp: is_safe_to_call_with_exec_def SAFE_NAMES_def split: option.splits if_splits)

lemma safe_names_plain:
  "list_all (\<lambda>n. c_dot \<notin> set n \<and> shell_name_type n = None \<and> n \<noteq> lit ''rm'' \<and> n \<noteq> lit ''sudo'') SAFE_NAMES"
  by code_simp

lemma rm_sudo_names:
  "executable_name_lookup_key (lit ''rm'') = Some (lit ''rm'')"
  "executable_name_lookup_key (lit ''sudo'') = Some (lit ''sudo'')"
  by code_simp+

lemma safe_exec_not_dangerous:
  assumes "is_safe_to_call_with_exec command"
  shows "\<not> is_dangerous_to_call_with_exec command"
proof -
  obtain cmd0 args n where c: "command = cmd0 # args" and n: "executable_name_lookup_key cmd0 = Some n"
    "n \<in> set SAFE_NAMES" using safe_exec_name [OF assms] by blast
  with safe_names_plain have "n \<noteq> lit ''rm''" "n \<noteq> lit ''sudo''" by (auto simp: list_all_iff)
  with n(1) rm_sudo_names have "cmd0 \<noteq> lit ''rm''" "cmd0 \<noteq> lit ''sudo''" by auto
  then show ?thesis by (simp add: c)
qed

lemma safe_exec_not_shell:
  assumes "is_safe_to_call_with_exec command"
  shows "extract_bash_command command = None"
proof -
  obtain cmd0 args n where c: "command = cmd0 # args" and n: "executable_name_lookup_key cmd0 = Some n"
    "n \<in> set SAFE_NAMES" using safe_exec_name [OF assms] by blast
  with safe_names_plain have "c_dot \<notin> set n" "shell_name_type n = None" by (auto simp: list_all_iff)
  with n(1) have "detect_shell_type cmd0 = None"
    by (intro detect_shell_none) (simp_all add: executable_name_lookup_key_def)
  then show ?thesis by (simp add: extract_bash_command_def c split: list.splits)
qed

lemma extract_bash_zsh_as_bash:
  assumes "lit ''zsh'' \<notin> set (tl command)"
  shows "map_option snd (extract_bash_command (zsh_as_bash command)) = map_option snd (extract_bash_command command)"
proof (cases "\<exists>shell flag script. command = [shell, flag, script]")
  case True
  then obtain shell flag script where c: "command = [shell, flag, script]" by blast
  with assms have "flag \<noteq> lit ''zsh''" "script \<noteq> lit ''zsh''" by auto
  then have z: "zsh_as_bash command = [if shell = lit ''zsh'' then lit ''bash'' else shell, flag, script]"
    by (simp add: zsh_as_bash_def c)
  have sh: "detect_shell_type (lit ''zsh'') = Some Zsh" "detect_shell_type (lit ''bash'') = Some Bash"
    by (subst detect_shell_type.simps, simp add: shell_name_type_def)+
  show ?thesis
  proof (cases "shell = lit ''zsh''")
    case True
    with z sh show ?thesis by (simp add: extract_bash_command_def c)
  next
    case False
    with z show ?thesis by (simp add: c)
  qed
next
  case False
  have "extract_bash_command xs = None" if "length xs \<noteq> 3" for xs
    using that by (auto simp: extract_bash_command_def split: list.splits)
  moreover from False have "length command \<noteq> 3"
    by (auto simp: numeral_3_eq_3 length_Suc_conv)
  ultimately show ?thesis by (simp add: zsh_as_bash_def)
qed

lemma plain_commands_zsh_as_bash:
  assumes "lit ''zsh'' \<notin> set (tl command)"
  shows "parse_shell_lc_plain_commands parse (zsh_as_bash command) = parse_shell_lc_plain_commands parse command"
proof -
  have alt: "parse_shell_lc_plain_commands parse c =
      Option.bind (map_option snd (extract_bash_command c)) (\<lambda>s. Option.bind (parse s) try_parse_word_only_commands_sequence)"
    for c by (simp add: parse_shell_lc_plain_commands_def split: option.splits prod.splits)
  show ?thesis by (simp only: alt extract_bash_zsh_as_bash [OF assms])
qed

lemma dangerous_zsh_as_bash: "is_dangerous_to_call_with_exec command \<Longrightarrow> is_dangerous_to_call_with_exec (zsh_as_bash command)"
proof (induction command rule: is_dangerous_to_call_with_exec.induct)
  case (2 cmd0 args)
  show ?case
  proof (cases "cmd0 = lit ''rm''")
    case True
    with 2 show ?thesis by (cases args) (auto simp: zsh_as_bash_def)
  next
    case False
    with 2(2) have "cmd0 = lit ''sudo''" "is_dangerous_to_call_with_exec args" by (auto split: if_splits)
    with 2(1) False show ?thesis by (auto simp: zsh_as_bash_def)
  qed
qed simp

text \<open>PowerShell programs are neither \<open>rm\<close> nor \<open>sudo\<close> nor a POSIX shell.\<close>

lemma powershell_names:
  assumes "is_powershell_executable exe"
  shows "exe \<noteq> lit ''rm''" and "exe \<noteq> lit ''sudo''"
  using assms by (auto simp: is_powershell_executable_def) code_simp+

text \<open>A name without a dot is only taken for a POSIX shell when it is one of the three names.\<close>

lemma detect_shell_plain:
  assumes "path_of n = [Normal n]" and "c_dot \<notin> set n"
  shows "detect_shell_type n = shell_name_type n"
  by (subst detect_shell_type.simps)
     (simp add: file_stem_def assms file_name_def stem_of_no_dot split: option.splits)

lemma lower_eq_lit:
  "to_ascii_lowercase n = a @ c_dot # b \<Longrightarrow>
     \<exists>x y. n = x @ c_dot # y \<and> to_ascii_lowercase x = a \<and> to_ascii_lowercase y = b"
  unfolding to_ascii_lowercase_def
  by (auto simp: map_eq_append_conv map_eq_Cons_conv split: if_splits, blast)

lemma no_dot_lower: "c_dot \<notin> set (to_ascii_lowercase n) \<Longrightarrow> c_dot \<notin> set n"
  by (force simp: to_ascii_lowercase_def)

lemma powershell_stem:
  assumes "to_ascii_lowercase n \<in> set [lit ''powershell'', lit ''powershell.exe'', lit ''pwsh'', lit ''pwsh.exe'']"
  shows "to_ascii_lowercase (stem_of n) \<in> set [lit ''powershell'', lit ''pwsh'']"
proof -
  have dots: "c_dot \<notin> set (lit ''powershell'')" "c_dot \<notin> set (lit ''pwsh'')" "c_dot \<notin> set (lit ''exe'')"
    by code_simp+
  have exe: "lit ''powershell.exe'' = lit ''powershell'' @ c_dot # lit ''exe''"
    "lit ''pwsh.exe'' = lit ''pwsh'' @ c_dot # lit ''exe''" by code_simp+
  have split: "to_ascii_lowercase (stem_of n) = a"
    if low: "to_ascii_lowercase n = a @ c_dot # lit ''exe''" and nd: "c_dot \<notin> set a" and ne: "a \<noteq> []" for a
  proof -
    obtain x y where n: "n = x @ c_dot # y" and x: "to_ascii_lowercase x = a" and y: "to_ascii_lowercase y = lit ''exe''"
      using lower_eq_lit [OF low] by blast
    have "c_dot \<notin> set x" "c_dot \<notin> set y" using x y nd dots(3) no_dot_lower by metis+
    then have "split_on 46 n = [x, y]" by (simp add: n split_on_append_sep split_on_no_sep)
    moreover have "x \<noteq> []" using x ne by (auto simp: to_ascii_lowercase_def)
    ultimately show ?thesis using x by (simp add: stem_of_def Let_def)
  qed
  have same: "stem_of n = n" if "to_ascii_lowercase n = a" "c_dot \<notin> set a" for a
    using that no_dot_lower stem_of_no_dot by metis
  from assms consider "to_ascii_lowercase n = lit ''powershell''" | "to_ascii_lowercase n = lit ''pwsh''"
    | "to_ascii_lowercase n = lit ''powershell.exe''" | "to_ascii_lowercase n = lit ''pwsh.exe''" by auto
  then show ?thesis
  proof cases
    case 1 with same dots show ?thesis by simp
  next
    case 2 with same dots show ?thesis by simp
  next
    case 3 with split [of "lit ''powershell''"] exe dots show ?thesis by simp
  next
    case 4 with split [of "lit ''pwsh''"] exe dots show ?thesis by simp
  qed
qed

lemma posix_names_lower:
  "shell_name_type n \<in> {Some Zsh, Some Bash, Some Sh} \<Longrightarrow>
     to_ascii_lowercase n \<notin> set [lit ''powershell'', lit ''powershell.exe'', lit ''pwsh'', lit ''pwsh.exe'']"
  by (auto simp: shell_name_type_def to_ascii_lowercase_def lit_def split: if_splits)

lemma file_stem_name:
  assumes "file_name (path_of s) = Some n"
  shows "detect_shell_type s = (case shell_name_type s of Some t \<Rightarrow> Some t | None \<Rightarrow>
      if path_of (stem_of n) \<noteq> path_of s then detect_shell_type (stem_of n) else None)"
  by (cases "shell_name_type s"; subst detect_shell_type.simps; simp add: file_stem_def assms)

lemma powershell_not_posix:
  assumes "is_powershell_executable exe"
  shows "detect_shell_type exe \<notin> {Some Zsh, Some Bash, Some Sh}"
proof (cases "file_name (path_of exe)")
  case None
  with assms have low: "to_ascii_lowercase exe \<in> set [lit ''powershell'', lit ''powershell.exe'', lit ''pwsh'', lit ''pwsh.exe'']"
    by (simp add: is_powershell_executable_def)
  have "shell_name_type exe = None" using None shell_name_plain by fastforce
  then show ?thesis by (subst detect_shell_type.simps) (simp add: file_stem_def None)
next
  case (Some n)
  with assms have low: "to_ascii_lowercase n \<in> set [lit ''powershell'', lit ''powershell.exe'', lit ''pwsh'', lit ''pwsh.exe'']"
    by (simp add: is_powershell_executable_def)
  have direct: "shell_name_type exe \<notin> {Some Zsh, Some Bash, Some Sh}"
  proof
    assume sh: "shell_name_type exe \<in> {Some Zsh, Some Bash, Some Sh}"
    then have "n = exe" using shell_name_plain Some by fastforce
    with posix_names_lower [OF sh] low show False by simp
  qed
  let ?m = "stem_of n"
  have low': "to_ascii_lowercase ?m \<in> set [lit ''powershell'', lit ''pwsh'']"
    using low by (rule powershell_stem)
  have "c_dot \<notin> set (to_ascii_lowercase ?m)" "c_slash \<notin> set (to_ascii_lowercase ?m)" "to_ascii_lowercase ?m \<noteq> []"
    using low' by (auto simp: lit_def)
  then have m: "c_dot \<notin> set ?m" "c_slash \<notin> set ?m" "?m \<noteq> []"
    by (force simp: to_ascii_lowercase_def)+
  then have "path_of ?m = [Normal ?m]" by (intro path_of_plain) (auto simp: lit_def)
  then have "detect_shell_type ?m = shell_name_type ?m" using m(1) by (rule detect_shell_plain)
  moreover have "shell_name_type ?m \<notin> {Some Zsh, Some Bash, Some Sh}"
    using posix_names_lower [of ?m] low' by auto
  ultimately show ?thesis
    using direct by (cases "shell_name_type exe") (simp_all add: file_stem_name [OF Some])
qed

lemma powershell_safe_exe:
  assumes "is_safe_command_windows parse command"
  shows "\<exists>exe args. command = exe # args \<and> is_powershell_executable exe"
  using assms by (cases command)
    (auto simp: is_safe_command_windows_def try_parse_powershell_command_sequence_def split: if_splits)

lemma powershell_not_dangerous:
  assumes "is_safe_command_windows parse (zsh_as_bash command)"
  shows "\<not> is_dangerous_to_call_with_exec command" and "extract_bash_command (zsh_as_bash command) = None"
proof -
  obtain exe args where c: "zsh_as_bash command = exe # args" and ps: "is_powershell_executable exe"
    using powershell_safe_exe [OF assms] by blast
  from powershell_names [OF ps] have "\<not> is_dangerous_to_call_with_exec (zsh_as_bash command)" by (simp add: c)
  then show "\<not> is_dangerous_to_call_with_exec command" using dangerous_zsh_as_bash by blast
  from powershell_not_posix [OF ps] show "extract_bash_command (zsh_as_bash command) = None"
    by (auto simp: extract_bash_command_def c split: list.splits)
qed

lemma known_safe_not_dangerous:
  assumes safe: "is_known_safe_command parse ps command" and zsh: "lit ''zsh'' \<notin> set (tl command)"
  shows "\<not> command_might_be_dangerous parse command"
proof -
  let ?c = "zsh_as_bash command"
  note plain = plain_commands_zsh_as_bash [OF zsh, of parse, symmetric]
  have none: "\<not> command_might_be_dangerous parse command"
    if "\<not> is_dangerous_to_call_with_exec command" "extract_bash_command ?c = None"
  proof -
    have "parse_shell_lc_plain_commands parse command = None"
      by (simp only: plain) (simp add: parse_shell_lc_plain_commands_def that(2))
    with that(1) show ?thesis by (simp add: command_might_be_dangerous_def)
  qed
  consider (ps) "is_safe_command_windows ps ?c" | (exec) "is_safe_to_call_with_exec ?c"
    | (script) all where "parse_shell_lc_plain_commands parse ?c = Some all" "list_all is_safe_to_call_with_exec all"
        "extract_bash_command ?c \<noteq> None"
    using safe by (auto simp: is_known_safe_command_def Let_def parse_shell_lc_plain_commands_def
        split: if_splits option.splits)
  then show ?thesis
  proof cases
    case ps
    from powershell_not_dangerous [OF ps] show ?thesis by (rule none)
  next
    case exec
    from safe_exec_not_dangerous [OF exec] dangerous_zsh_as_bash
    have "\<not> is_dangerous_to_call_with_exec command" by blast
    from this safe_exec_not_shell [OF exec] show ?thesis by (rule none)
  next
    case script
    have "\<not> is_dangerous_to_call_with_exec ?c"
    proof
      assume d: "is_dangerous_to_call_with_exec ?c"
      then obtain c0 cs where c: "?c = c0 # cs" and c0: "c0 = lit ''rm'' \<or> c0 = lit ''sudo''"
        by (cases ?c) (auto split: if_splits)
      have "detect_shell_type (lit ''rm'') = None" by (rule detect_shell_none [of _ "lit ''rm''"]; code_simp)
      moreover have "detect_shell_type (lit ''sudo'') = None"
        by (rule detect_shell_none [of _ "lit ''sudo''"]; code_simp)
      ultimately have "detect_shell_type c0 = None" using c0 by auto
      then have "extract_bash_command ?c = None" by (simp add: extract_bash_command_def c split: list.splits)
      with script(3) show False by simp
    qed
    then have "\<not> is_dangerous_to_call_with_exec command" using dangerous_zsh_as_bash by blast
    with script(1,2) safe_exec_not_dangerous show ?thesis
      by (auto simp: command_might_be_dangerous_def plain list_all_iff list_ex_iff)
  qed
qed

text \<open>
  The classifier of safe commands reads the word \<open>zsh\<close> as \<open>bash\<close> wherever it stands, the other one does not; so
  the two see different scripts when the script is the word \<open>zsh\<close>. It is enough that the parser takes this
  script for the command \<open>zsh\<close>.
\<close>

definition reads_zsh_plainly :: "shell_parser \<Rightarrow> bool" where
  "reads_zsh_plainly parse \<longleftrightarrow>
    Option.bind (parse (lit ''zsh'')) try_parse_word_only_commands_sequence \<in> {None, Some [[lit ''zsh'']]}"

lemma known_safe_words_not_dangerous:
  assumes "is_known_safe_command parse ps command"
  shows "\<not> is_dangerous_to_call_with_exec command"
proof
  assume "is_dangerous_to_call_with_exec command"
  then have d: "is_dangerous_to_call_with_exec (zsh_as_bash command)" by (rule dangerous_zsh_as_bash)
  then obtain c0 cs where c: "zsh_as_bash command = c0 # cs" and c0: "c0 = lit ''rm'' \<or> c0 = lit ''sudo''"
    by (cases "zsh_as_bash command") (auto split: if_splits)
  have "detect_shell_type (lit ''rm'') = None" by (rule detect_shell_none [of _ "lit ''rm''"]; code_simp)
  moreover have "detect_shell_type (lit ''sudo'') = None"
    by (rule detect_shell_none [of _ "lit ''sudo''"]; code_simp)
  ultimately have "detect_shell_type c0 = None" using c0 by auto
  then have "extract_bash_command (zsh_as_bash command) = None"
    by (simp add: extract_bash_command_def c split: list.splits)
  with assms have "is_safe_command_windows ps (zsh_as_bash command) \<or> is_safe_to_call_with_exec (zsh_as_bash command)"
    by (auto simp: is_known_safe_command_def Let_def parse_shell_lc_plain_commands_def split: if_splits)
  with powershell_not_dangerous(1) safe_exec_not_dangerous d \<open>is_dangerous_to_call_with_exec command\<close>
  show False by blast
qed

lemma plainly_read_not_dangerous:
  assumes safe: "is_known_safe_command parse ps command" and zsh: "reads_zsh_plainly parse"
  shows "\<not> command_might_be_dangerous parse command"
proof (cases "lit ''zsh'' \<in> set (tl command)")
  case False
  with safe show ?thesis by (rule known_safe_not_dangerous)
next
  case True
  note words = known_safe_words_not_dangerous [OF safe]
  show ?thesis
  proof (cases "extract_bash_command command")
    case None
    with words show ?thesis by (simp add: command_might_be_dangerous_def parse_shell_lc_plain_commands_def)
  next
    case (Some p)
    then obtain shell flag where "command = [shell, flag, snd p]" and "flag \<in> {lit ''-lc'', lit ''-c''}"
      by (auto simp: extract_bash_command_def split: list.splits if_splits option.splits)
    with True have "snd p = lit ''zsh''" by auto
    with Some zsh have "parse_shell_lc_plain_commands parse command \<in> {None, Some [[lit ''zsh'']]}"
      by (cases p) (simp add: parse_shell_lc_plain_commands_def reads_zsh_plainly_def)
    with words show ?thesis by (auto simp: command_might_be_dangerous_def)
  qed
qed

subsection \<open>What a safe git command looks like\<close>

text \<open>Options before the subcommand: each is skipped, \<open>-C\<close> with its value.\<close>

fun skipped_git_options :: "ustr list \<Rightarrow> bool" where
  "skipped_git_options [] = True"
| "skipped_git_options (arg # args) =
    (starts_with (lit ''-'') arg \<and>
      (if \<not> is_git_global_option_with_inline_value arg \<and> is_git_global_option_with_value arg
       then (case args of [] \<Rightarrow> True | _ # rest \<Rightarrow> skipped_git_options rest)
       else skipped_git_options args))"

lemma git_option_dash:
  "is_git_global_option_with_inline_value arg \<or> is_git_global_option_with_value arg \<Longrightarrow> starts_with (lit ''-'') arg"
  by (auto simp: is_git_global_option_with_inline_value_def is_git_global_option_with_value_def
      starts_with_any_def git_value_options_def starts_with_iff lit_def)

lemma git_subcommand_from_Some:
  "git_subcommand_from subs skip idx args = Some (i, sub) \<Longrightarrow>
     \<exists>pre post. args = pre @ sub # post \<and> i = idx + length pre \<and> sub \<in> set subs \<and>
       \<not> starts_with (lit ''-'') sub \<and> (if skip then pre \<noteq> [] \<and> skipped_git_options (tl pre) else skipped_git_options pre)"
proof (induction subs skip idx args rule: git_subcommand_from.induct)
  case (2 subs skip idx arg args)
  show ?case
  proof (cases skip)
    case True
    with 2 obtain pre post where "args = pre @ sub # post" "i = idx + 1 + length pre" "sub \<in> set subs"
      "\<not> starts_with (lit ''-'') sub" "skipped_git_options pre" by auto
    with True show ?thesis by (intro exI [of _ "arg # pre"] exI [of _ post]) auto
  next
    case noskip: False
    show ?thesis
    proof (cases "\<not> is_git_global_option_with_inline_value arg \<and> is_git_global_option_with_value arg")
      case True
      with 2 noskip obtain pre post where "args = pre @ sub # post" "i = idx + 1 + length pre" "sub \<in> set subs"
        "\<not> starts_with (lit ''-'') sub" "pre \<noteq> []" "skipped_git_options (tl pre)" by auto
      with True noskip git_option_dash [of arg] show ?thesis
        by (intro exI [of _ "arg # pre"] exI [of _ post]) (cases pre; auto)
    next
      case noval: False
      show ?thesis
      proof (cases "is_git_global_option_with_inline_value arg \<or> arg = lit ''--'' \<or> starts_with (lit ''-'') arg")
        case True
        then have dash: "starts_with (lit ''-'') arg"
          using git_option_dash [of arg] by (auto simp: lit_def)
        from True noskip noval 2 obtain pre post where "args = pre @ sub # post" "i = idx + 1 + length pre"
          "sub \<in> set subs" "\<not> starts_with (lit ''-'') sub" "skipped_git_options pre" by (auto split: if_splits)
        with dash noval noskip show ?thesis by (intro exI [of _ "arg # pre"] exI [of _ post]) auto
      next
        case False
        with noval noskip 2(5) have "i = idx" "sub = arg" "arg \<in> set subs" by (auto split: if_splits)
        with False noskip show ?thesis by (intro exI [of _ "[]"] exI [of _ args]) auto
      qed
    qed
  qed
qed simp

lemma is_safe_git_shape:
  assumes "is_safe_git command"
  shows "\<exists>cmd0 pre sub post. command = cmd0 # pre @ sub # post \<and> executable_name_lookup_key cmd0 = Some (lit ''git'')
    \<and> skipped_git_options pre \<and> \<not> list_ex git_global_option_requires_prompt (pre @ sub # post)
    \<and> sub \<in> set [lit ''status'', lit ''log'', lit ''diff'', lit ''show'', lit ''branch'']
    \<and> git_subcommand_args_are_read_only post \<and> (sub = lit ''branch'' \<longrightarrow> git_branch_is_read_only post)"
proof -
  let ?subs = "[lit ''status'', lit ''log'', lit ''diff'', lit ''show'', lit ''branch'']"
  obtain i sub where f: "find_git_subcommand command ?subs = Some (i, sub)"
    and no: "\<not> git_has_unsafe_global_option command"
    using assms by (auto simp: is_safe_git_def split: if_splits option.splits)
  obtain cmd0 args where c: "command = cmd0 # args" and git: "executable_name_lookup_key cmd0 = Some (lit ''git'')"
    and sub: "git_subcommand_from ?subs False 1 args = Some (i, sub)"
    using f by (cases command) (auto simp: find_git_subcommand_def split: if_splits)
  from git_subcommand_from_Some [OF sub] obtain pre post where args: "args = pre @ sub # post" "i = 1 + length pre"
    "sub \<in> set ?subs" "skipped_git_options pre" by auto
  have drop: "drop (i + 1) command = post" by (simp add: c args(1,2))
  have "git_subcommand_args_are_read_only post \<and> (sub = lit ''branch'' \<longrightarrow> git_branch_is_read_only post)"
    using assms drop by (auto simp: is_safe_git_def f Let_def split: if_splits)
  moreover have "\<not> list_ex git_global_option_requires_prompt (pre @ sub # post)"
    using no by (simp add: git_has_unsafe_global_option_def c args(1))
  ultimately show ?thesis using c args git by blast
qed

end
