(* ===== verification/Protocol_Types.thy ===== *)
theory Protocol_Types
  imports Paths
begin

section \<open>Settings of a session (protocol: protocol.rs, permissions.rs)\<close>

text \<open>
  The approval and sandbox settings that the approval of commands and of patches both read. An
  absolute path is the list of its components; the fields of \<open>WorkspaceWrite\<close> stand in the order
  of the source: the writable roots, the network access, the exclusion of \<open>TMPDIR\<close> and of
  \<open>/tmp\<close>.
\<close>

record granular_approval_config =
  sandbox_approval :: bool
  rules_approval :: bool
  skill_approval :: bool
  request_permissions :: bool
  mcp_elicitations :: bool

datatype ask_for_approval =
  UnlessTrusted | OnFailure | OnRequest | Granular granular_approval_config | Never

datatype network_access = NetRestricted | NetEnabled

datatype sandbox_policy =
    DangerFullAccess
  | ReadOnly bool
  | ExternalSandbox network_access
  | WorkspaceWrite "path_buf list" bool bool bool

datatype file_system_sandbox_kind = FsRestricted | FsUnrestricted | FsExternalSandbox


datatype network_sandbox_policy = NetworkRestricted | NetworkEnabled

definition network_is_enabled :: "network_sandbox_policy \<Rightarrow> bool" where
  "network_is_enabled n \<longleftrightarrow> n = NetworkEnabled"

definition network_access_is_enabled :: "network_access \<Rightarrow> bool" where
  "network_access_is_enabled n \<longleftrightarrow> n = NetEnabled"

subsection \<open>SandboxPolicy\<close>

definition new_read_only_policy :: sandbox_policy where
  "new_read_only_policy = ReadOnly False"

definition new_workspace_write_policy :: sandbox_policy where
  "new_workspace_write_policy = WorkspaceWrite [] False False False"

definition policy_has_full_disk_read_access :: "sandbox_policy \<Rightarrow> bool" where
  "policy_has_full_disk_read_access p = True"

fun policy_has_full_disk_write_access :: "sandbox_policy \<Rightarrow> bool" where
  "policy_has_full_disk_write_access DangerFullAccess = True"
| "policy_has_full_disk_write_access (ExternalSandbox _) = True"
| "policy_has_full_disk_write_access (ReadOnly _) = False"
| "policy_has_full_disk_write_access (WorkspaceWrite _ _ _ _) = False"

fun has_full_network_access :: "sandbox_policy \<Rightarrow> bool" where
  "has_full_network_access DangerFullAccess = True"
| "has_full_network_access (ExternalSandbox network_access) = network_access_is_enabled network_access"
| "has_full_network_access (ReadOnly network_access) = network_access"
| "has_full_network_access (WorkspaceWrite _ network_access _ _) = network_access"

definition network_policy_of :: "sandbox_policy \<Rightarrow> network_sandbox_policy" where
  "network_policy_of p = (if has_full_network_access p then NetworkEnabled else NetworkRestricted)"

subsection \<open>WritableRoot\<close>

record writable_root =
  wr_root :: path_buf
  read_only_subpaths :: "path_buf list"

definition is_path_writable :: "writable_root \<Rightarrow> path_buf \<Rightarrow> bool" where
  "is_path_writable r p \<longleftrightarrow>
    path_starts_with p (wr_root r) \<and> \<not> list_ex (path_starts_with p) (read_only_subpaths r)"

end
