(* ===== verification/Exec_Manager.thy ===== *)
theory Exec_Manager
  imports Exec_Policy_Parser Command_Safety Protocol_Types
begin

section \<open>Deciding how a command runs (core: exec\_policy, tools/sandboxing)\<close>

text \<open>
  \<open>ExecPolicyManager\<close>: from the command, the approval settings and the policy to the
  requirement the tool runs under, with the amendments it may propose; the two operations that
  extend the policy; and the loading of the policy files. Also the approval cache and the
  default requirement of \<open>tools/sandboxing.rs\<close>. External code is a parameter: the shell and
  PowerShell parsers, \<open>shlex\<close>, the Starlark evaluator, the directory and file reads and
  \<open>spawn_blocking\<close>.
\<close>

subsection \<open>Settings\<close>

datatype sandbox_permissions = UseDefault | RequireEscalated | WithAdditionalPermissions

definition requires_escalated_permissions :: "sandbox_permissions \<Rightarrow> bool" where
  "requires_escalated_permissions p = (p = RequireEscalated)"

definition requests_sandbox_override :: "sandbox_permissions \<Rightarrow> bool" where
  "requests_sandbox_override p = (p \<noteq> UseDefault)"

type_synonym exec_policy_amendment = "ustr list"

datatype exec_approval_requirement =
    Skip (bypass_sandbox: bool) (skip_amendment: "exec_policy_amendment option")
  | NeedsApproval (approval_reason: "ustr option") (proposed_amendment: "exec_policy_amendment option")
  | ForbiddenBy (forbidden_reason: ustr)

fun proposed_execpolicy_amendment :: "exec_approval_requirement \<Rightarrow> exec_policy_amendment option" where
  "proposed_execpolicy_amendment (NeedsApproval _ p) = p"
| "proposed_execpolicy_amendment (Skip _ p) = p"
| "proposed_execpolicy_amendment (ForbiddenBy _) = None"

subsection \<open>The external code\<close>

record tool_env =
  te_process :: process_env
  te_parse_shell :: shell_parser
  te_powershell :: powershell_parser
  te_shlex_join :: "ustr list \<Rightarrow> ustr option"

subsection \<open>Prompts\<close>

definition PROMPT_CONFLICT_REASON :: ustr where
  "PROMPT_CONFLICT_REASON = lit ''approval required by policy, but AskForApproval is set to Never''"

definition REJECT_SANDBOX_APPROVAL_REASON :: ustr where
  "REJECT_SANDBOX_APPROVAL_REASON =
     lit ''approval required by policy, but AskForApproval::Granular.sandbox_approval is false''"

definition REJECT_RULES_APPROVAL_REASON :: ustr where
  "REJECT_RULES_APPROVAL_REASON =
     lit ''approval required by policy rule, but AskForApproval::Granular.rules is false''"

fun prompt_is_rejected_by_policy :: "ask_for_approval \<Rightarrow> bool \<Rightarrow> ustr option" where
  "prompt_is_rejected_by_policy Never prompt_is_rule = Some PROMPT_CONFLICT_REASON"
| "prompt_is_rejected_by_policy OnFailure prompt_is_rule = None"
| "prompt_is_rejected_by_policy OnRequest prompt_is_rule = None"
| "prompt_is_rejected_by_policy UnlessTrusted prompt_is_rule = None"
| "prompt_is_rejected_by_policy (Granular g) prompt_is_rule =
    (if prompt_is_rule then (if \<not> rules_approval g then Some REJECT_RULES_APPROVAL_REASON else None)
     else if \<not> sandbox_approval g then Some REJECT_SANDBOX_APPROVAL_REASON else None)"

subsection \<open>The decision when no rule matches\<close>

definition sandbox_explicitly_disabled :: "sandbox_policy \<Rightarrow> bool" where
  "sandbox_explicitly_disabled sp = (case sp of DangerFullAccess \<Rightarrow> True | ExternalSandbox _ \<Rightarrow> True | _ \<Rightarrow> False)"

definition on_request_decision :: "file_system_sandbox_kind \<Rightarrow> sandbox_permissions \<Rightarrow> decision" where
  "on_request_decision fs_kind perms = (case fs_kind of
     FsUnrestricted \<Rightarrow> Allow
   | FsExternalSandbox \<Rightarrow> Allow
   | FsRestricted \<Rightarrow> if requests_sandbox_override perms then Prompt else Allow)"

definition render_decision_for_unmatched_command ::
    "tool_env \<Rightarrow> ask_for_approval \<Rightarrow> sandbox_policy \<Rightarrow> file_system_sandbox_kind \<Rightarrow> ustr list
      \<Rightarrow> sandbox_permissions \<Rightarrow> bool \<Rightarrow> decision" where
  "render_decision_for_unmatched_command te approval_policy sandbox_policy fs_kind command perms used_complex_parsing =
    (if is_known_safe_command (te_parse_shell te) (te_powershell te) command \<and> \<not> used_complex_parsing then Allow
     else if command_might_be_dangerous (te_parse_shell te) command then
       (case approval_policy of
          Never \<Rightarrow> if sandbox_explicitly_disabled sandbox_policy then Allow else Forbidden
        | _ \<Rightarrow> Prompt)
     else case approval_policy of
       Never \<Rightarrow> Allow
     | OnFailure \<Rightarrow> Allow
     | UnlessTrusted \<Rightarrow> Prompt
     | OnRequest \<Rightarrow> on_request_decision fs_kind perms
     | Granular _ \<Rightarrow> on_request_decision fs_kind perms)"

definition commands_for_exec_policy :: "tool_env \<Rightarrow> ustr list \<Rightarrow> ustr list list \<times> bool" where
  "commands_for_exec_policy te command =
    (let single = (case parse_shell_lc_single_command_prefix (te_parse_shell te) command of
                     Some single_command \<Rightarrow> ([single_command], True) | None \<Rightarrow> ([command], False))
     in case parse_shell_lc_plain_commands (te_parse_shell te) command of
          Some commands \<Rightarrow> if commands \<noteq> [] then (commands, False) else single
        | None \<Rightarrow> single)"

subsection \<open>Amendments\<close>

definition BANNED_PREFIX_SUGGESTIONS :: "ustr list list" where
  "BANNED_PREFIX_SUGGESTIONS = map (map lit)
    [[''python3''], [''python3'', ''-''], [''python3'', ''-c''], [''python''], [''python'', ''-''],
     [''python'', ''-c''], [''py''], [''py'', ''-3''], [''pythonw''], [''pyw''], [''pypy''], [''pypy3''],
     [''git''], [''bash''], [''bash'', ''-lc''], [''sh''], [''sh'', ''-c''], [''sh'', ''-lc''], [''zsh''],
     [''zsh'', ''-lc''], [''/bin/zsh''], [''/bin/zsh'', ''-lc''], [''/bin/bash''], [''/bin/bash'', ''-lc''],
     [''pwsh''], [''pwsh'', ''-Command''], [''pwsh'', ''-c''], [''powershell''],
     [''powershell'', ''-Command''], [''powershell'', ''-c''], [''powershell.exe''],
     [''powershell.exe'', ''-Command''], [''powershell.exe'', ''-c''], [''env''], [''sudo''], [''node''],
     [''node'', ''-e''], [''perl''], [''perl'', ''-e''], [''ruby''], [''ruby'', ''-e''], [''php''],
     [''php'', ''-r''], [''lua''], [''lua'', ''-e''], [''osascript'']]"

fun heuristic_with :: "decision \<Rightarrow> rule_match list \<Rightarrow> exec_policy_amendment option" where
  "heuristic_with d [] = None"
| "heuristic_with d (m # ms) = (case m of
     HeuristicsRuleMatch command d' \<Rightarrow> if d' = d then Some command else heuristic_with d ms
   | _ \<Rightarrow> heuristic_with d ms)"

definition try_derive_execpolicy_amendment_for_prompt_rules :: "rule_match list \<Rightarrow> exec_policy_amendment option" where
  "try_derive_execpolicy_amendment_for_prompt_rules matched_rules =
    (if list_ex (\<lambda>m. is_policy_match m \<and> match_decision m = Prompt) matched_rules then None
     else heuristic_with Prompt matched_rules)"

definition try_derive_execpolicy_amendment_for_allow_rules :: "rule_match list \<Rightarrow> exec_policy_amendment option" where
  "try_derive_execpolicy_amendment_for_allow_rules matched_rules =
    (if list_ex is_policy_match matched_rules then None else heuristic_with Allow matched_rules)"

definition prefix_rule_would_approve_all_commands ::
    "process_env \<Rightarrow> policy \<Rightarrow> ustr list \<Rightarrow> ustr list list \<Rightarrow> (ustr list \<Rightarrow> decision) \<Rightarrow> match_options \<Rightarrow> bool" where
  "prefix_rule_would_approve_all_commands env exec_policy prefix_rule commands fallback options =
    (case add_prefix_rule prefix_rule Allow exec_policy of
       Inl _ \<Rightarrow> False
     | Inr policy_with_prefix_rule \<Rightarrow>
         list_all (\<lambda>c. map_option eval_decision (check_with_options env policy_with_prefix_rule c fallback options)
                         = Some Allow) commands)"

definition derive_requested_execpolicy_amendment_from_prefix_rule ::
    "process_env \<Rightarrow> ustr list option \<Rightarrow> rule_match list \<Rightarrow> policy \<Rightarrow> ustr list list \<Rightarrow> (ustr list \<Rightarrow> decision)
      \<Rightarrow> match_options \<Rightarrow> exec_policy_amendment option" where
  "derive_requested_execpolicy_amendment_from_prefix_rule env prefix_rule matched_rules exec_policy commands fallback options =
    (case prefix_rule of None \<Rightarrow> None
     | Some prefix \<Rightarrow>
        if prefix = [] then None
        else if prefix \<in> set BANNED_PREFIX_SUGGESTIONS then None
        else if list_ex is_policy_match matched_rules then None
        else if prefix_rule_would_approve_all_commands env exec_policy prefix commands fallback options
        then Some prefix else None)"

subsection \<open>Reasons\<close>

definition render_shlex_command :: "tool_env \<Rightarrow> ustr list \<Rightarrow> ustr" where
  "render_shlex_command te args = (case te_shlex_join te args of Some s \<Rightarrow> s | None \<Rightarrow> join_with [c_space] args)"

definition prefix_matches_with :: "decision \<Rightarrow> rule_match list \<Rightarrow> (ustr list \<times> ustr option) list" where
  "prefix_matches_with d ms = List.map_filter (\<lambda>m. case m of
     PrefixRuleMatch prefix d' _ justification \<Rightarrow> if d' = d then Some (prefix, justification) else None
   | _ \<Rightarrow> None) ms"

definition derive_prompt_reason :: "tool_env \<Rightarrow> ustr list \<Rightarrow> evaluation \<Rightarrow> ustr option" where
  "derive_prompt_reason te command_args e =
    (let command = render_shlex_command te command_args in
     case max_by_key (\<lambda>(prefix, _). length prefix) (prefix_matches_with Prompt (eval_matched_rules e)) of
       Some (_, Some justification) \<Rightarrow> Some (lit ''`'' @ command @ lit ''` requires approval: '' @ justification)
     | Some (_, None) \<Rightarrow> Some (lit ''`'' @ command @ lit ''` requires approval by policy'')
     | None \<Rightarrow> None)"

definition derive_forbidden_reason :: "tool_env \<Rightarrow> ustr list \<Rightarrow> evaluation \<Rightarrow> ustr" where
  "derive_forbidden_reason te command_args e =
    (let command = render_shlex_command te command_args in
     case max_by_key (\<lambda>(prefix, _). length prefix) (prefix_matches_with Forbidden (eval_matched_rules e)) of
       Some (_, Some justification) \<Rightarrow> lit ''`'' @ command @ lit ''` rejected: '' @ justification
     | Some (prefix, None) \<Rightarrow>
         lit ''`'' @ command @ lit ''` rejected: policy forbids commands starting with `''
           @ render_shlex_command te prefix @ lit ''`''
     | None \<Rightarrow> lit ''`'' @ command @ lit ''` rejected: blocked by policy'')"

subsection \<open>The requirement of a command\<close>

record exec_approval_request =
  req_command :: "ustr list"
  req_approval_policy :: ask_for_approval
  req_sandbox_policy :: sandbox_policy
  req_fs_kind :: file_system_sandbox_kind
  req_sandbox_permissions :: sandbox_permissions
  req_prefix_rule :: "ustr list option"

definition request_fallback :: "tool_env \<Rightarrow> exec_approval_request \<Rightarrow> bool \<Rightarrow> ustr list \<Rightarrow> decision" where
  "request_fallback te req used_complex_parsing cmd =
    render_decision_for_unmatched_command te (req_approval_policy req) (req_sandbox_policy req) (req_fs_kind req)
      cmd (req_sandbox_permissions req) used_complex_parsing"

definition explicitly_allowed :: "process_env \<Rightarrow> policy \<Rightarrow> ustr list \<Rightarrow> bool" where
  "explicitly_allowed env p command =
    list_ex (\<lambda>m. is_policy_match m \<and> match_decision m = Allow)
      (matches_for_command_with_options env p command None resolving)"

text \<open>\<open>None\<close> would be the panic of \<open>Evaluation::from_matches\<close>.\<close>

definition create_exec_approval_requirement_for_command ::
    "tool_env \<Rightarrow> policy \<Rightarrow> exec_approval_request \<Rightarrow> exec_approval_requirement option" where
  "create_exec_approval_requirement_for_command te exec_policy req =
    (let env = te_process te;
         (commands, used_complex_parsing) = commands_for_exec_policy te (req_command req);
         auto_amendment_allowed = (\<not> used_complex_parsing);
         fallback = request_fallback te req used_complex_parsing
     in case check_multiple_with_options env exec_policy commands fallback resolving of
          None \<Rightarrow> None
        | Some e \<Rightarrow>
           (let matched = eval_matched_rules e;
                requested_amendment = derive_requested_execpolicy_amendment_from_prefix_rule env
                  (req_prefix_rule req) matched exec_policy commands fallback resolving
            in Some (case eval_decision e of
                 Forbidden \<Rightarrow> ForbiddenBy (derive_forbidden_reason te (req_command req) e)
               | Prompt \<Rightarrow>
                  (let prompt_is_rule = list_ex (\<lambda>m. is_policy_match m \<and> match_decision m = Prompt) matched
                   in case prompt_is_rejected_by_policy (req_approval_policy req) prompt_is_rule of
                        Some reason \<Rightarrow> ForbiddenBy reason
                      | None \<Rightarrow> NeedsApproval (derive_prompt_reason te (req_command req) e)
                          (case requested_amendment of Some a \<Rightarrow> Some a
                           | None \<Rightarrow> if auto_amendment_allowed
                                     then try_derive_execpolicy_amendment_for_prompt_rules matched else None))
               | Allow \<Rightarrow> Skip (list_all (explicitly_allowed env exec_policy) commands)
                   (if auto_amendment_allowed
                    then try_derive_execpolicy_amendment_for_allow_rules matched else None))))"

subsection \<open>Extending the policy\<close>

definition RULES_DIR_NAME :: ustr where
  "RULES_DIR_NAME = lit ''rules''"

definition RULE_EXTENSION :: ustr where
  "RULE_EXTENSION = lit ''rules''"

definition DEFAULT_POLICY_FILE :: ustr where
  "DEFAULT_POLICY_FILE = lit ''default.rules''"

definition default_policy_path :: "path_buf \<Rightarrow> path_buf" where
  "default_policy_path codex_home =
    path_join (path_join codex_home (path_of RULES_DIR_NAME)) (path_of DEFAULT_POLICY_FILE)"

datatype exec_policy_update_error =
    AppendRule path_buf amend_error
  | JoinBlockingTask ustr
  | AddRule policy_error

text \<open>
  The manager holds the current policy and a semaphore, which is open or closed; the appended
  file is part of the state the external operations act on. \<open>spawn_blocking\<close> gives the result
  of the task, or a join error.
\<close>

record 's manager_state =
  mgr_policy :: policy
  mgr_lock_closed :: bool
  mgr_files :: 's

type_synonym 's spawner = "('s \<Rightarrow> (amend_error, unit, 's) outcome) \<Rightarrow> 's \<Rightarrow> (ustr + (amend_error + unit)) \<times> 's"

definition run_append ::
    "'s spawner \<Rightarrow> path_buf \<Rightarrow> ('s \<Rightarrow> (amend_error, unit, 's) outcome) \<Rightarrow> 's manager_state
      \<Rightarrow> (exec_policy_update_error, unit, 's manager_state) outcome" where
  "run_append spawn policy_path task m =
    (if mgr_lock_closed m
     then (Inl (AddRule (InvalidRule (lit ''exec policy update semaphore closed''))), m)
     else case spawn task (mgr_files m) of
       (Inl e, s) \<Rightarrow> (Inl (JoinBlockingTask e), m\<lparr>mgr_files := s\<rparr>)
     | (Inr (Inl e), s) \<Rightarrow> (Inl (AppendRule policy_path e), m\<lparr>mgr_files := s\<rparr>)
     | (Inr (Inr u), s) \<Rightarrow> (Inr u, m\<lparr>mgr_files := s\<rparr>))"

definition append_amendment_and_update ::
    "process_env \<Rightarrow> json_string \<Rightarrow> 's policy_file \<Rightarrow> 's spawner \<Rightarrow> path_buf \<Rightarrow> exec_policy_amendment
      \<Rightarrow> 's manager_state \<Rightarrow> (exec_policy_update_error, unit, 's manager_state) outcome" where
  "append_amendment_and_update env json ops spawn codex_home amendment m =
    (let policy_path = default_policy_path codex_home in
     try_then (run_append spawn policy_path (blocking_append_allow_prefix_rule json ops policy_path amendment) m)
       (\<lambda>_ m.
         let current_policy = mgr_policy m;
             already_allowed =
               (case check_multiple_with_options env current_policy [amendment] (\<lambda>_. Forbidden) resolving of
                  Some e \<Rightarrow> eval_decision e = Allow \<and>
                    list_ex (\<lambda>r. is_policy_match r \<and> match_decision r = Allow) (eval_matched_rules e)
                | None \<Rightarrow> False)
         in if already_allowed then (Inr (), m)
            else case add_prefix_rule amendment Allow current_policy of
              Inl e \<Rightarrow> (Inl (AddRule e), m)
            | Inr updated \<Rightarrow> (Inr (), m\<lparr>mgr_policy := updated\<rparr>)))"

definition append_network_rule_and_update ::
    "json_string \<Rightarrow> 's policy_file \<Rightarrow> 's spawner \<Rightarrow> path_buf \<Rightarrow> ustr \<Rightarrow> network_rule_protocol \<Rightarrow> decision
      \<Rightarrow> ustr option \<Rightarrow> 's manager_state \<Rightarrow> (exec_policy_update_error, unit, 's manager_state) outcome" where
  "append_network_rule_and_update json ops spawn codex_home host protocol decision justification m =
    (let policy_path = default_policy_path codex_home in
     try_then (run_append spawn policy_path
         (blocking_append_network_rule json ops policy_path host protocol decision justification) m)
       (\<lambda>_ m. case add_network_rule host protocol decision justification (mgr_policy m) of
          Inl e \<Rightarrow> (Inl (AddRule e), m)
        | Inr updated \<Rightarrow> (Inr (), m\<lparr>mgr_policy := updated\<rparr>)))"

subsection \<open>Loading the policy files\<close>

datatype exec_policy_error =
    ReadDir path_buf ustr
  | ReadFile path_buf ustr
  | ParsePolicy ustr policy_error

text \<open>
  What reading a directory gives: it is missing, it fails, or its entries, each of which may
  fail to be read or to tell its type; \<open>True\<close> stands for a regular file.
\<close>

datatype read_dir = DirNotFound | DirError ustr | DirEntries "(ustr + path_buf \<times> (ustr + bool)) list"

definition is_rules_path :: "path_buf \<Rightarrow> bool" where
  "is_rules_path p = (Option.bind (file_name p) extension_of = Some RULE_EXTENSION)"

fun policy_entries :: "path_buf \<Rightarrow> (ustr + path_buf \<times> (ustr + bool)) list \<Rightarrow> exec_policy_error + path_buf list" where
  "policy_entries dir [] = Inr []"
| "policy_entries dir (Inl e # entries) = Inl (ReadDir dir e)"
| "policy_entries dir (Inr (p, Inl e) # entries) = Inl (ReadDir dir e)"
| "policy_entries dir (Inr (p, Inr is_file) # entries) =
    map_sum id ((@) (if is_rules_path p \<and> is_file then [p] else [])) (policy_entries dir entries)"

text \<open>Paths are ordered by their components, a root before \<open>.\<close>, \<open>..\<close> and names.\<close>

fun component_key :: "component \<Rightarrow> nat \<times> ustr" where
  "component_key RootDir = (0, [])"
| "component_key CurDir = (1, [])"
| "component_key ParentDir = (2, [])"
| "component_key (Normal n) = (3, n)"

lemma component_key_inject: "component_key a = component_key b \<longleftrightarrow> a = b"
  by (cases a; cases b) auto

instantiation component :: linorder
begin

definition less_eq_component :: "component \<Rightarrow> component \<Rightarrow> bool" where
  "less_eq_component a b \<longleftrightarrow> fst (component_key a) < fst (component_key b) \<or>
     (fst (component_key a) = fst (component_key b) \<and> snd (component_key a) \<le> snd (component_key b))"

definition less_component :: "component \<Rightarrow> component \<Rightarrow> bool" where
  "less_component a b \<longleftrightarrow> a \<le> b \<and> a \<noteq> b"

instance
proof
  fix a b c :: component
  show "a < b \<longleftrightarrow> a \<le> b \<and> \<not> b \<le> a"
    using component_key_inject [of a b]
    by (auto simp: less_component_def less_eq_component_def prod_eq_iff)
  show "a \<le> a" by (simp add: less_eq_component_def)
  show "a \<le> b \<Longrightarrow> b \<le> c \<Longrightarrow> a \<le> c" by (auto simp: less_eq_component_def)
  show "a \<le> b \<Longrightarrow> b \<le> a \<Longrightarrow> a = b"
    using component_key_inject [of a b] by (auto simp: less_eq_component_def prod_eq_iff)
  show "a \<le> b \<or> b \<le> a" by (auto simp: less_eq_component_def)
qed

end

definition collect_policy_files :: "(path_buf \<Rightarrow> read_dir) \<Rightarrow> path_buf \<Rightarrow> exec_policy_error + path_buf list" where
  "collect_policy_files read_dir dir = (case read_dir dir of
     DirNotFound \<Rightarrow> Inr []
   | DirError e \<Rightarrow> Inl (ReadDir dir e)
   | DirEntries entries \<Rightarrow> map_sum id sort (policy_entries dir entries))"

text \<open>
  The configuration layers the stack yields, lowest precedence first and without the disabled
  ones, each with its kind and its folder; whether user and project rules are ignored; and the
  policy of the managed requirements.
\<close>

datatype layer_source = UserLayer | ProjectLayer | OtherLayer

record config_layer =
  layer_name :: layer_source
  config_folder :: "path_buf option"

record config_layer_stack =
  stack_layers :: "config_layer list"
  ignore_user_and_project_exec_policy_rules :: bool
  requirements_exec_policy :: "policy option"

fun layer_policy_paths ::
    "(path_buf \<Rightarrow> read_dir) \<Rightarrow> bool \<Rightarrow> config_layer list \<Rightarrow> exec_policy_error + path_buf list" where
  "layer_policy_paths read_dir ignore [] = Inr []"
| "layer_policy_paths read_dir ignore (layer # layers) =
    (if ignore \<and> (layer_name layer = UserLayer \<or> layer_name layer = ProjectLayer)
     then layer_policy_paths read_dir ignore layers
     else case config_folder layer of
       None \<Rightarrow> layer_policy_paths read_dir ignore layers
     | Some folder \<Rightarrow>
        (case collect_policy_files read_dir (path_join folder (path_of RULES_DIR_NAME)) of
           Inl e \<Rightarrow> Inl e
         | Inr paths \<Rightarrow> map_sum id ((@) paths) (layer_policy_paths read_dir ignore layers)))"

record policy_source =
  src_eval :: starlark_eval
  src_split :: shlex_split
  src_rendering :: rendering
  src_env :: process_env
  src_read_dir :: "path_buf \<Rightarrow> read_dir"
  src_read_file :: "path_buf \<Rightarrow> ustr + ustr"

fun parse_policy_files :: "policy_source \<Rightarrow> path_buf list \<Rightarrow> policy_builder \<Rightarrow> exec_policy_error + policy_builder" where
  "parse_policy_files src [] b = Inr b"
| "parse_policy_files src (policy_path # paths) b =
    (case src_read_file src policy_path of
       Inl e \<Rightarrow> Inl (ReadFile policy_path e)
     | Inr contents \<Rightarrow>
        (let identifier = path_display policy_path in
         case policy_parse (src_eval src) (src_env src) (src_split src) (src_rendering src) identifier contents b of
           (Inl e, _) \<Rightarrow> Inl (ParsePolicy identifier e)
         | (Inr _, b') \<Rightarrow> parse_policy_files src paths b'))"

definition load_exec_policy :: "policy_source \<Rightarrow> config_layer_stack \<Rightarrow> exec_policy_error + policy" where
  "load_exec_policy src stack =
    (case layer_policy_paths (src_read_dir src) (ignore_user_and_project_exec_policy_rules stack) (stack_layers stack) of
       Inl e \<Rightarrow> Inl e
     | Inr policy_paths \<Rightarrow>
        (case parse_policy_files src policy_paths builder_new of
           Inl e \<Rightarrow> Inl e
         | Inr b \<Rightarrow>
            (case requirements_exec_policy stack of
               None \<Rightarrow> Inr (builder_build b)
             | Some requirements_policy \<Rightarrow> Inr (merge_overlay (builder_build b) requirements_policy))))"

definition load_exec_policy_with_warning ::
    "policy_source \<Rightarrow> config_layer_stack \<Rightarrow> exec_policy_error + policy \<times> exec_policy_error option" where
  "load_exec_policy_with_warning src stack = (case load_exec_policy src stack of
     Inr p \<Rightarrow> Inr (p, None)
   | Inl (ParsePolicy path e) \<Rightarrow> Inr (policy_empty, Some (ParsePolicy path e))
   | Inl e \<Rightarrow> Inl e)"

subsection \<open>The defaults of the tool runtimes\<close>

definition default_exec_approval_requirement ::
    "ask_for_approval \<Rightarrow> file_system_sandbox_kind \<Rightarrow> exec_approval_requirement" where
  "default_exec_approval_requirement policy fs_kind =
    (let needs_approval = (case policy of
           Never \<Rightarrow> False | OnFailure \<Rightarrow> False
         | OnRequest \<Rightarrow> fs_kind = FsRestricted
         | Granular _ \<Rightarrow> fs_kind = FsRestricted
         | UnlessTrusted \<Rightarrow> True)
     in if needs_approval \<and> (case policy of Granular g \<Rightarrow> \<not> sandbox_approval g | _ \<Rightarrow> False)
        then ForbiddenBy (lit ''approval policy disallowed sandbox approval prompt'')
        else if needs_approval then NeedsApproval None None
        else Skip False None)"

datatype sandbox_override = NoOverride | BypassSandboxFirstAttempt

definition sandbox_override_for_first_attempt ::
    "sandbox_permissions \<Rightarrow> exec_approval_requirement \<Rightarrow> sandbox_override" where
  "sandbox_override_for_first_attempt perms requirement =
    (if requires_escalated_permissions perms \<or> (case requirement of Skip bypass _ \<Rightarrow> bypass | _ \<Rightarrow> False)
     then BypassSandboxFirstAttempt else NoOverride)"

definition should_bypass_approval :: "ask_for_approval \<Rightarrow> bool \<Rightarrow> bool" where
  "should_bypass_approval policy already_approved = (if already_approved then True else policy = Never)"

fun wants_no_sandbox_approval :: "ask_for_approval \<Rightarrow> bool" where
  "wants_no_sandbox_approval OnFailure = True"
| "wants_no_sandbox_approval UnlessTrusted = True"
| "wants_no_sandbox_approval Never = False"
| "wants_no_sandbox_approval OnRequest = False"
| "wants_no_sandbox_approval (Granular g) = sandbox_approval g"

subsection \<open>The approval cache\<close>

text \<open>
  Keys are serialised by \<open>serde_json\<close>, which may fail; \<open>fetch\<close> is the prompt, an external
  step that may itself change the store.
\<close>

datatype network_policy_rule_action = NetworkAllow | NetworkDeny

datatype review_decision =
    Approved
  | ApprovedExecpolicyAmendment exec_policy_amendment
  | ApprovedForSession
  | NetworkPolicyAmendment ustr network_policy_rule_action
  | Denied
  | TimedOut
  | Abort

type_synonym approval_store = "ustr \<rightharpoonup> review_decision"

definition store_get :: "('k \<Rightarrow> ustr option) \<Rightarrow> approval_store \<Rightarrow> 'k \<Rightarrow> review_decision option" where
  "store_get ser store key = (case ser key of Some s \<Rightarrow> store s | None \<Rightarrow> None)"

definition store_put :: "('k \<Rightarrow> ustr option) \<Rightarrow> 'k \<Rightarrow> review_decision \<Rightarrow> approval_store \<Rightarrow> approval_store" where
  "store_put ser key value store = (case ser key of Some s \<Rightarrow> store(s \<mapsto> value) | None \<Rightarrow> store)"

definition with_cached_approval ::
    "('k \<Rightarrow> ustr option) \<Rightarrow> 'k list \<Rightarrow> (approval_store \<Rightarrow> review_decision \<times> approval_store) \<Rightarrow> approval_store
      \<Rightarrow> review_decision \<times> approval_store" where
  "with_cached_approval ser keys fetch store =
    (if keys = [] then fetch store
     else if list_all (\<lambda>k. store_get ser store k = Some ApprovedForSession) keys then (ApprovedForSession, store)
     else case fetch store of
       (decision, store') \<Rightarrow>
         (decision, if decision = ApprovedForSession
                    then fold (\<lambda>k. store_put ser k ApprovedForSession) keys store' else store'))"

end
