(* ===== verification/Exec_Properties.thy ===== *)
theory Exec_Properties
  imports Exec_Manager
begin

section \<open>Properties of the execution policy\<close>

text \<open>
  What the policy engine, the policy files, the command classifiers and the approval logic
  guarantee together, each property with an instance of it at a concrete input.
\<close>

subsection \<open>Shared facts\<close>

lemma fold_max_decision: "fold max ds (d::decision) = Max (insert d (set ds))"
  using Max.set_eq_fold [of d ds] by simp

lemma policy_matches_exact:
  "the (match_exact_rules p cmd) \<noteq> [] \<Longrightarrow> cmd \<noteq> [] \<Longrightarrow>
     policy_matches env p options cmd = the (match_exact_rules p cmd)"
  by (simp add: policy_matches_def match_exact_filed)

lemma check_with_options_rules:
  "check_with_options env p cmd f options = Some e \<Longrightarrow>
     eval_matched_rules e = matches_for_command_with_options env p cmd (Some f) options"
  by (simp add: check_with_options_def from_matches_Some_iff)

lemma check_with_options_exact:
  assumes "check_with_options env p cmd f options = Some e" and "the (match_exact_rules p cmd) \<noteq> []" and "cmd \<noteq> []"
  shows "eval_matched_rules e = the (match_exact_rules p cmd)"
  using assms by (simp add: check_with_options_rules matches_for_command_alt policy_matches_exact Let_def)

lemma check_with_options_strictest:
  "\<lbrakk>check_with_options env p cmd f options = Some e; m \<in> set (eval_matched_rules e)\<rbrakk> \<Longrightarrow>
     match_decision m \<le> eval_decision e"
  using from_matches_strictest(2) by (fastforce simp: check_with_options_def from_matches_Some_iff)

lemma add_prefix_rule_defined: "prefix \<noteq> [] \<Longrightarrow> \<exists>p'. add_prefix_rule prefix d p = Inr p'"
  by (cases prefix) (simp_all add: add_prefix_rule_def)

text \<open>After an allow rule for a whole command without matches, the command is allowed.\<close>

lemma added_allow_decides:
  assumes "add_prefix_rule cmd Allow p = Inr p'" and "policy_matches env p options cmd = []" and "cmd \<noteq> []"
  shows "map_option eval_decision (check_with_options env p' cmd f options) = Some Allow"
proof -
  have "the (match_exact_rules p cmd) = []"
    using assms(2,3) by (auto simp: policy_matches_def match_exact_filed Let_def split: if_splits)
  then have "match_exact_rules p' cmd = Some [PrefixRuleMatch cmd Allow None None]"
    using match_exact_add_prefix_rule [OF assms(1,3)] by simp
  then have "policy_matches env p' options cmd = [PrefixRuleMatch cmd Allow None None]"
    by (simp add: policy_matches_def)
  then show ?thesis
    by (simp add: check_with_options_def matches_for_command_alt from_matches_def)
qed

lemma heuristic_with_Some: "heuristic_with d ms = Some c \<Longrightarrow> HeuristicsRuleMatch c d \<in> set ms"
  by (induction ms) (auto split: rule_match.splits if_splits)

lemma create_requirement_eval:
  assumes "commands_for_exec_policy te (req_command req) = (commands, complex)"
  shows "\<exists>e. check_multiple_with_options (te_process te) p commands (request_fallback te req complex) resolving = Some e"
proof -
  have "commands \<noteq> []"
    using assms by (auto simp: commands_for_exec_policy_def Let_def split: option.splits if_splits)
  then show ?thesis by (rule check_multiple_defined)
qed

lemma create_requirement_defined: "\<exists>r. create_exec_approval_requirement_for_command te p req = Some r"
proof -
  obtain commands complex where c: "commands_for_exec_policy te (req_command req) = (commands, complex)" by fastforce
  obtain e where "check_multiple_with_options (te_process te) p commands (request_fallback te req complex) resolving = Some e"
    using create_requirement_eval [OF c] by blast
  then show ?thesis by (simp add: create_exec_approval_requirement_for_command_def c Let_def)
qed

lemma check_multiple_matches:
  assumes "check_multiple_with_options env p commands f options = Some e" and "c \<in> set commands"
    and "m \<in> set (policy_matches env p options c)"
  shows "m \<in> set (eval_matched_rules e)"
proof -
  from assms(3) have "m \<in> set (matches_for_command_with_options env p c (Some f) options)"
    by (auto simp: matches_for_command_alt Let_def)
  with assms(1,2) show ?thesis by (auto simp: check_multiple_rules)
qed

lemma check_multiple_decides:
  assumes "check_multiple_with_options env p commands f options = Some e" and "m \<in> set (eval_matched_rules e)"
  shows "match_decision m \<le> eval_decision e"
  using assms from_matches_strictest(2) unfolding check_multiple_with_options_def
  by (metis from_matches_Some_iff)

text \<open>What the requirement is, by the decision of the evaluation.\<close>

lemma create_requirement_cases:
  assumes c: "commands_for_exec_policy te (req_command req) = (commands, complex)"
    and e: "check_multiple_with_options (te_process te) p commands (request_fallback te req complex) resolving = Some e"
    and r: "create_exec_approval_requirement_for_command te p req = Some r"
  shows "eval_decision e = Forbidden \<Longrightarrow> \<exists>reason. r = ForbiddenBy reason"
    and "eval_decision e = Prompt \<Longrightarrow> (\<exists>reason. r = ForbiddenBy reason) \<or>
      (prompt_is_rejected_by_policy (req_approval_policy req)
         (list_ex (\<lambda>m. is_policy_match m \<and> match_decision m = Prompt) (eval_matched_rules e)) = None
       \<and> (\<exists>reason a. r = NeedsApproval reason a))"
    and "eval_decision e = Allow \<Longrightarrow> \<exists>a. r = Skip (list_all (explicitly_allowed (te_process te) p) commands) a"
  using r by (auto simp: create_exec_approval_requirement_for_command_def c e Let_def split: option.splits)

lemma match_host_member:
  assumes "m \<in> set (match_host_executable_rules env p (first # args))"
  shows "\<exists>q basename m'. from_absolute_path (env_home env) (env_current_dir env) first = Some q
    \<and> executable_path_lookup_key q = Some basename
    \<and> (\<forall>paths. host_executables_by_name p basename = Some paths \<longrightarrow> q \<in> set paths)
    \<and> m = with_resolved_program m' q
    \<and> m' \<in> set (filter_rules rule_matches (filed (rules_by_program p) basename) (basename # args))"
proof -
  obtain q where q: "from_absolute_path (env_home env) (env_current_dir env) first = Some q"
    using assms by (cases "from_absolute_path (env_home env) (env_current_dir env) first")
      (simp_all add: match_host_filed)
  obtain b where b: "executable_path_lookup_key q = Some b"
    using assms by (cases "executable_path_lookup_key q") (simp_all add: match_host_filed q)
  let ?bad = "case host_executables_by_name p b of Some paths \<Rightarrow> q \<notin> set paths | None \<Rightarrow> False"
  have "\<not> ?bad" and "m \<in> set (map (\<lambda>m. with_resolved_program m q)
      (filter_rules rule_matches (filed (rules_by_program p) b) (b # args)))"
    using assms by (simp_all add: match_host_filed q b split: if_splits)
  with q b show ?thesis by (intro exI [of _ q] exI [of _ b]) (auto split: option.splits)
qed

subsection \<open>Concrete inputs\<close>

definition sample_env :: process_env where
  "sample_env = \<lparr>env_home = None, env_current_dir = Some [RootDir, Normal (lit ''w'')], env_current_dir_error = []\<rparr>"

definition git_allow_rule :: prefix_rule where
  "git_allow_rule = \<lparr>rule_pattern = \<lparr>pattern_first = lit ''git'', pattern_rest = []\<rparr>,
     rule_decision = Allow, rule_justification = None\<rparr>"

definition git_policy :: policy where
  "git_policy = policy_new [(lit ''git'', [git_allow_rule])]"

lemma check_with_options_defined: "\<exists>e. check_with_options env p cmd f options = Some e"
  unfolding check_with_options_single by (rule check_multiple_defined) simp

text \<open>
  A relative program is resolved against the directory of the process as well, so a rule for
  \<open>git\<close> allows \<open>./git\<close> too.
\<close>

lemma relative_program_uses_basename_rule:
  "policy_matches sample_env git_policy resolving [lit ''./git'', lit ''push''] =
     [PrefixRuleMatch [lit ''git''] Allow (Some [RootDir, Normal (lit ''w''), Normal (lit ''git'')]) None]"
  by code_simp

subsection \<open>The policy engine\<close>



lemma added_rule_applies_parts:
  assumes "add_prefix_rule prefix d p = Inr p'" and "take (length prefix) cmd = prefix"
    and "check_with_options env p' cmd f options = Some e"
  shows "eval_matched_rules e = the (match_exact_rules p cmd) @ [PrefixRuleMatch prefix d None None]"
    and "eval_decision e = fold max (map match_decision (the (match_exact_rules p cmd))) d"
    and "\<forall>m\<in>set (the (match_exact_rules p cmd)). match_decision m \<le> eval_decision e"
proof -
  have "prefix \<noteq> []" using assms(1) by (auto simp: add_prefix_rule_def split: list.splits)
  with assms(2) have ne: "cmd \<noteq> []" by auto
  have exact: "the (match_exact_rules p' cmd) = the (match_exact_rules p cmd) @ [PrefixRuleMatch prefix d None None]"
    using match_exact_add_prefix_rule [OF assms(1) ne] assms(2) by simp
  show rules: "eval_matched_rules e = the (match_exact_rules p cmd) @ [PrefixRuleMatch prefix d None None]"
    using check_with_options_exact [OF assms(3) _ ne] exact by simp
  have "from_matches (eval_matched_rules e) = Some e"
    using assms(3) by (simp add: check_with_options_def from_matches_Some_iff)
  then show "eval_decision e = fold max (map match_decision (the (match_exact_rules p cmd))) d"
    unfolding rules by (simp add: from_matches_Some_iff fold_max_decision)
  show "\<forall>m\<in>set (the (match_exact_rules p cmd)). match_decision m \<le> eval_decision e"
    using check_with_options_strictest [OF assms(3)] rules by simp
qed

text \<open>Adding a rule for a prefix takes effect on every command that starts with the prefix and
  loosens nothing: the matches reported for the command are the exact matches it had before, in
  their order, followed by the new rule, and the decision is the strictest of them.\<close>

lemma added_rule_applies:
  assumes "add_prefix_rule prefix d p = Inr p'" and "take (length prefix) cmd = prefix"
    and "check_with_options env p' cmd f options = Some e"
  shows "eval_matched_rules e = the (match_exact_rules p cmd) @ [PrefixRuleMatch prefix d None None]
    \<and> eval_decision e = fold max (map match_decision (the (match_exact_rules p cmd))) d
    \<and> (\<forall>m\<in>set (the (match_exact_rules p cmd)). match_decision m \<le> eval_decision e)"
  using added_rule_applies_parts [OF assms] by blast

text \<open>C8: How an overlay, as the managed requirements are, is joined with the policy it is laid over. A command that a
  rule of either policy matches as it is written is reported with exactly these matches, those of the base first, and
  gets the strictest of their decisions; so of two exact rules neither loosens the other. (The command has a first word,
  and the rules of the overlay are filed under their own programs, as building a policy leaves them.) Only when there is no exact
  match at all do the rules of the merged policy for the file name of an absolute path apply (when such paths are to
  be resolved, and within its merged lists of host executables), and only when these are silent too the fallback.
  So a rule of the overlay for a bare program name is passed over when the base has an exact rule for the path of the
  program, and an allow rule of the overlay replaces a stricter fallback.\<close>

theorem overlay_joins_exact_rules:
  assumes "policy_wf q" and "cmd \<noteq> []"
    and "check_with_options env (merge_overlay p q) cmd f options = Some e"
  shows "let exact = the (match_exact_rules p cmd) @ the (match_exact_rules q cmd);
             host = (if resolve_host_executables options then match_host_executable_rules env (merge_overlay p q) cmd else [])
    in eval_matched_rules e = (if exact \<noteq> [] then exact else if host \<noteq> [] then host else [HeuristicsRuleMatch cmd (f cmd)])
     \<and> eval_decision e = Max (match_decision ` set (eval_matched_rules e))"
proof -
  have exact: "the (match_exact_rules (merge_overlay p q) cmd) =
      the (match_exact_rules p cmd) @ the (match_exact_rules q cmd)"
    using match_exact_overlay [OF assms(1,2)] by simp
  have pm: "policy_matches env (merge_overlay p q) options cmd =
      (let exact = the (match_exact_rules (merge_overlay p q) cmd) in
       if exact \<noteq> [] then exact
       else if resolve_host_executables options then match_host_executable_rules env (merge_overlay p q) cmd else [])"
    using assms(2) by (simp add: policy_matches_def match_exact_filed Let_def)
  have "eval_matched_rules e = matches_for_command_with_options env (merge_overlay p q) cmd (Some f) options"
    using assms(3) by (rule check_with_options_rules)
  moreover have "eval_decision e = Max (match_decision ` set (eval_matched_rules e))"
    using assms(3) by (simp add: check_with_options_def from_matches_Some_iff)
  ultimately show ?thesis by (auto simp: matches_for_command_alt pm exact Let_def)
qed

text \<open>The instances: an overlay that forbids \<open>git\<close> forbids \<open>/bin/git\<close> too, unless the base has an allow rule
  for \<open>/bin/git\<close> as it is written.\<close>

definition no_git :: policy where
  "no_git = (case add_prefix_rule [lit ''git''] Forbidden policy_empty of Inr p \<Rightarrow> p | Inl _ \<Rightarrow> policy_empty)"

definition bin_git_allowed :: policy where
  "bin_git_allowed = (case add_prefix_rule [lit ''/bin/git''] Allow policy_empty of Inr p \<Rightarrow> p | Inl _ \<Rightarrow> policy_empty)"

theorem overlay_joins_exact_rules_witness:
  "map_option eval_decision
     (check_with_options sample_env (merge_overlay policy_empty no_git) [lit ''/bin/git''] (\<lambda>_. Prompt) resolving) = Some Forbidden
   \<and> map_option eval_decision
     (check_with_options sample_env (merge_overlay bin_git_allowed no_git) [lit ''/bin/git''] (\<lambda>_. Prompt) resolving) = Some Allow"
proof -
  let ?cmd = "[lit ''/bin/git'']"
  have r: "resolve_host_executables resolving" by (simp add: resolving_def)
  have wf: "policy_wf no_git"
    using policy_wf_add_prefix_rule [OF policy_wf_empty] by (auto simp: no_git_def policy_wf_empty split: sum.split)
  have m: "match_exact_rules policy_empty ?cmd = Some []" "match_exact_rules no_git ?cmd = Some []"
    "match_exact_rules bin_git_allowed ?cmd = Some [PrefixRuleMatch ?cmd Allow None None]" by code_simp+
  have h: "map match_decision (match_host_executable_rules sample_env (merge_overlay policy_empty no_git) ?cmd) = [Forbidden]"
    by code_simp
  then have d: "match_decision ` set (match_host_executable_rules sample_env (merge_overlay policy_empty no_git) ?cmd) = {Forbidden}"
    unfolding set_map [symmetric] by simp
  from h have n: "match_host_executable_rules sample_env (merge_overlay policy_empty no_git) ?cmd \<noteq> []" by auto
  obtain e where e: "check_with_options sample_env (merge_overlay policy_empty no_git) ?cmd (\<lambda>_. Prompt) resolving = Some e"
    using check_with_options_defined by blast
  obtain e' where e': "check_with_options sample_env (merge_overlay bin_git_allowed no_git) ?cmd (\<lambda>_. Prompt) resolving = Some e'"
    using check_with_options_defined by blast
  show ?thesis
    using overlay_joins_exact_rules [OF wf _ e] overlay_joins_exact_rules [OF wf _ e'] e e' m d n r
    by (simp add: Let_def)
qed

text \<open>A match reported with a resolved program was found through the file name of an absolute
  path: host executables were to be resolved, no rule matched the command as it is written, the
  program is where its first word leads from the process directory, the allow-list of its name,
  when there is one, contains it, and its rule is filed under that name.\<close>

lemma resolved_match_is_listed:
  assumes "m \<in> set (matches_for_command_with_options env p cmd fallback options)"
    and "m = PrefixRuleMatch prefix d (Some program) j"
  shows "resolve_host_executables options" and "the (match_exact_rules p cmd) = []"
    and "from_absolute_path (env_home env) (env_current_dir env) (hd cmd) = Some program"
    and "\<exists>basename. file_name program = Some basename
      \<and> (\<forall>paths. host_executables_by_name p basename = Some paths \<longrightarrow> program \<in> set paths)
      \<and> (\<exists>r\<in>set (filed (rules_by_program p) basename).
            rule_matches r (basename # tl cmd) = Some (PrefixRuleMatch prefix d None j))"
proof -
  have no_exact: "resolved_program x = None" if "x \<in> set (filter_rules rule_matches rs c)" for x rs c
    using that by (auto simp: in_filter_rules rule_matches_def)
  have in_pm: "m \<in> set (policy_matches env p options cmd)"
    using assms by (auto simp: matches_for_command_alt Let_def split: if_splits option.splits)
  then have ne: "cmd \<noteq> []"
    by (auto simp: policy_matches_def match_exact_filed match_host_executable_rules_def split: if_splits)
  then have "m \<notin> set (the (match_exact_rules p cmd))"
    using no_exact [of m] assms(2) by (auto simp: match_exact_filed)
  with in_pm have host: "m \<in> set (match_host_executable_rules env p cmd)" and
    opt: "resolve_host_executables options" and ex: "the (match_exact_rules p cmd) = []"
    using ne by (auto simp: policy_matches_def Let_def match_exact_filed split: if_splits)
  from opt show "resolve_host_executables options" .
  obtain first args where cmd: "cmd = first # args"
    using host by (cases cmd) (auto simp: match_host_executable_rules_def)
  from ex show "the (match_exact_rules p cmd) = []" .
  obtain q basename m' where q: "from_absolute_path (env_home env) (env_current_dir env) first = Some q"
    "executable_path_lookup_key q = Some basename"
    and listed: "\<forall>paths. host_executables_by_name p basename = Some paths \<longrightarrow> q \<in> set paths"
    and m': "m = with_resolved_program m' q"
    "m' \<in> set (filter_rules rule_matches (filed (rules_by_program p) basename) (basename # args))"
    using match_host_member [OF host [unfolded cmd]] by blast
  from m' assms(2) no_exact [OF m'(2)] have "q = program" "m' = PrefixRuleMatch prefix d None j"
    by (cases m'; simp)+
  with q listed m' cmd show "from_absolute_path (env_home env) (env_current_dir env) (hd cmd) = Some program"
    "\<exists>basename. file_name program = Some basename
      \<and> (\<forall>paths. host_executables_by_name p basename = Some paths \<longrightarrow> program \<in> set paths)
      \<and> (\<exists>r\<in>set (filed (rules_by_program p) basename).
            rule_matches r (basename # tl cmd) = Some (PrefixRuleMatch prefix d None j))"
    by (auto simp: executable_path_lookup_key_def executable_lookup_key_def in_filter_rules)
qed

text \<open>The compiled domain lists hold each host at most once, and a host is in the allow list
  (the deny list) exactly when the last network rule about it that is not a prompt allows (forbids) it;
  so no host is in both.\<close>

lemma compiled_domains_last_rule_wins:
  "distinct (fst (compiled_network_domains p)) \<and> distinct (snd (compiled_network_domains p))
   \<and> (h \<in> set (fst (compiled_network_domains p)) \<longleftrightarrow> last_verdict (network_rules p) h = Some Allow)
   \<and> (h \<in> set (snd (compiled_network_domains p)) \<longleftrightarrow> last_verdict (network_rules p) h = Some Forbidden)"
proof -
  obtain a d where "fold compile_network_rule (network_rules p) ([], []) = (a, d)" by fastforce
  from compile_fold [OF this] this show ?thesis by (simp add: compiled_network_domains_def)
qed

lemma network_hosts_stay_normalised_parts:
  assumes "policy_wf p" and "policy_wf q"
    and "add_network_rule host proto d j p = Inr p1" and "add_prefix_rule prefix d' p1 = Inr p2"
  shows "policy_wf p2" and "policy_wf (merge_overlay p2 q)"
    and "\<exists>h. normalize_network_rule_host host = Inr h \<and> rule_host h
      \<and> (last h = c_dot \<or> hd h = 91 \<or> length (filter (\<lambda>c. c = c_colon) h) = 1
         \<or> normalize_network_rule_host h = Inr h)"
proof -
  show wf: "policy_wf p2"
    using assms policy_wf_add_network_rule policy_wf_add_prefix_rule by blast
  with assms(2) show "policy_wf (merge_overlay p2 q)" by (intro policy_wf_merge)
  obtain h where h: "normalize_network_rule_host host = Inr h"
    using assms(3) by (auto simp: add_network_rule_def split: sum.splits)
  from normalize_rule_host [OF this] h normalize_rule_host_id [of h]
  show "\<exists>h. normalize_network_rule_host host = Inr h \<and> rule_host h
      \<and> (last h = c_dot \<or> hd h = 91 \<or> length (filter (\<lambda>c. c = c_colon) h) = 1
         \<or> normalize_network_rule_host h = Inr h)" by blast
qed

text \<open>The host of a network rule is never empty, holds no white space, no upper case letter, no
  wildcard, no path and no query, and normalising it again changes nothing unless it still ends in a
  dot, starts with a bracket or holds exactly one colon. Adding network and prefix rules and
  overlaying keep every host of a policy of this form and every rule filed under its own program.\<close>

lemma network_hosts_stay_normalised:
  assumes "policy_wf p" and "policy_wf q"
    and "add_network_rule host proto d j p = Inr p1" and "add_prefix_rule prefix d' p1 = Inr p2"
  shows "policy_wf p2 \<and> policy_wf (merge_overlay p2 q)
    \<and> (\<exists>h. normalize_network_rule_host host = Inr h \<and> rule_host h
      \<and> (last h = c_dot \<or> hd h = 91 \<or> length (filter (\<lambda>c. c = c_colon) h) = 1
         \<or> normalize_network_rule_host h = Inr h))"
  using network_hosts_stay_normalised_parts [OF assms] by blast

subsection \<open>Policy files\<close>

lemma parsed_examples_hold_parts:
  assumes "builder_wf b" and "policy_parse eval env split rd ident contents b = (Inr u, b')"
    and "v \<in> set (drop (length (builder_pending b)) (builder_pending b'))"
  shows "builder_wf b'"
    and "\<forall>ex\<in>set (pending_matches v). policy_matches env (builder_build b') resolving ex \<noteq> []"
    and "\<forall>ex\<in>set (pending_not_matches v). \<forall>r\<in>set (pending_rules v). rule_matches r ex = None"
proof -
  from policy_parse_wf [OF assms(2,1)] show wf: "builder_wf b'" by blast
  have "validate_pending_examples_from env rd (length (builder_pending b)) b' = Inr ()"
    using assms(2) by (auto simp: policy_parse_def Let_def try_then_Inr_iff map_err_Inr_iff split: sum.splits)
  from validate_from_ok [OF this assms(3)] obtain u where
    ok: "validate_pending env rd (builder_executables b') v = Inr u" by blast
  let ?own = "own_policy (builder_executables b') v"
  have v: "v \<in> set (builder_pending b')" using assms(3) by (rule in_set_dropD)
  have sub: "set (filed (rules_by_program ?own) k) \<subseteq> set (filed (rules_by_program (builder_build b')) k)" for k
    using wf v by (auto simp: builder_wf_def)
  show "\<forall>ex\<in>set (pending_matches v). policy_matches env (builder_build b') resolving ex \<noteq> []"
  proof
    fix ex assume "ex \<in> set (pending_matches v)"
    with validate_pending_ok(1) [OF ok] have own: "policy_matches env ?own resolving ex \<noteq> []" by blast
    have "host_executables_by_name (builder_build b') = host_executables_by_name ?own" by simp
    from policy_matches_mono [OF sub this own]
    show "policy_matches env (builder_build b') resolving ex \<noteq> []" .
  qed
  show "\<forall>ex\<in>set (pending_not_matches v). \<forall>r\<in>set (pending_rules v). rule_matches r ex = None"
  proof (intro ballI, rule ccontr)
    fix ex r assume ex: "ex \<in> set (pending_not_matches v)" and r: "r \<in> set (pending_rules v)"
      and "rule_matches r ex \<noteq> None"
    then obtain m where m: "rule_matches r ex = Some m" by auto
    from prefix.matches_program [OF m] have "ex \<noteq> []" "rule_program r = hd ex" by auto
    with r m have "m \<in> set (filter_rules rule_matches (filed (rules_by_program ?own) (hd ex)) ex)"
      by (auto simp: in_filter_rules)
    then have "policy_matches env ?own resolving ex \<noteq> []"
      using \<open>ex \<noteq> []\<close> by (auto simp: policy_matches_def match_exact_filed Let_def)
    with validate_pending_ok(2) [OF ok] ex show False by blast
  qed
qed

text \<open>A policy file that parses has been checked: every rule of the builder is filed under its
  own program, and for every rule the file adds, each of its positive examples is matched by the
  policy built so far (also through the file name of its program), and none of its negative examples
  is matched by the rule.\<close>

lemma parsed_examples_hold:
  assumes "builder_wf b" and "policy_parse eval env split rd ident contents b = (Inr u, b')"
    and "v \<in> set (drop (length (builder_pending b)) (builder_pending b'))"
  shows "builder_wf b'
    \<and> (\<forall>ex\<in>set (pending_matches v). policy_matches env (builder_build b') resolving ex \<noteq> [])
    \<and> (\<forall>ex\<in>set (pending_not_matches v). \<forall>r\<in>set (pending_rules v). rule_matches r ex = None)"
  using parsed_examples_hold_parts [OF assms] by blast

lemma amendment_line_is_appended_once_parts:
  assumes "policy_file_laws ops contents path"
    and "blocking_append_allow_prefix_rule json ops path prefix s = (Inr u, s1)"
    and "blocking_append_allow_prefix_rule json ops path prefix s1 = (Inr u', s2)"
    and "\<forall>t\<in>set prefix. \<forall>x. json t = Inr x \<longrightarrow> nl \<notin> set x"
  shows "\<exists>more. contents s1 = contents s @ more"
    and "\<exists>line. allow_prefix_line json prefix = Inr line \<and> line \<in> set (str_lines (contents s1))"
    and "contents s2 = contents s1"
proof -
  obtain line where l: "allow_prefix_line json prefix = Inr line" and s1: "contents s1 = appended (contents s) line"
    using blocking_append_allow_appends [OF assms(1,2)] by blast
  have s2: "contents s2 = appended (contents s1) line"
    using blocking_append_allow_appends [OF assms(1,3)] l by auto
  note line = allow_prefix_line_shape [OF l assms(4)]
  show "\<exists>more. contents s1 = contents s @ more" by (auto simp: s1 appended_def)
  have "line \<in> set (str_lines (contents s1))" unfolding s1 using line by (rule appended_has_line)
  with l show "\<exists>line. allow_prefix_line json prefix = Inr line \<and> line \<in> set (str_lines (contents s1))" by blast
  show "contents s2 = contents s1" unfolding s2 s1 using line by (rule appended_idem)
qed

text \<open>Appending an amendment to the policy file adds its line and nothing else: what the file held
  before is a prefix of what it holds after, the line is one of its lines, and appending the same
  amendment again leaves the file as it is. The file obeys the documented behaviour of a file opened
  for appending, and the serialised tokens hold no line break.\<close>

lemma amendment_line_is_appended_once:
  assumes "policy_file_laws ops contents path"
    and "blocking_append_allow_prefix_rule json ops path prefix s = (Inr u, s1)"
    and "blocking_append_allow_prefix_rule json ops path prefix s1 = (Inr u', s2)"
    and "\<forall>t\<in>set prefix. \<forall>x. json t = Inr x \<longrightarrow> nl \<notin> set x"
  shows "(\<exists>more. contents s1 = contents s @ more)
    \<and> (\<exists>line. allow_prefix_line json prefix = Inr line \<and> line \<in> set (str_lines (contents s1)))
    \<and> contents s2 = contents s1"
  using amendment_line_is_appended_once_parts [OF assms] by blast

text \<open>A policy file kept in memory.\<close>

definition memory_file :: "ustr policy_file" where
  "memory_file = \<lparr>file_create_dir = (\<lambda>_ s. (Inl (True, []), s)), file_open = (\<lambda>_ s. (Inr (), s)),
     file_lock = (\<lambda>_ s. (Inr (), s)), file_seek_start = (\<lambda>_ s. (Inr (), s)),
     file_read = (\<lambda>_ s. (Inr s, s)), file_write = (\<lambda>_ t s. (Inr (), s @ t))\<rparr>"

lemma memory_file_laws: "policy_file_laws memory_file id p"
  by (simp add: policy_file_laws_def memory_file_def)

end
