(* ===== verification/Approval_Properties.thy ===== *)
theory Approval_Properties
  imports Exec_Properties
begin

section \<open>Properties of the classifiers and of the approval decision\<close>

text \<open>
  What the safe and dangerous command classifiers exclude, what the requirement computed for a
  command guarantees, what an accepted amendment achieves and how long a session approval lasts.
\<close>

subsection \<open>Concrete inputs\<close>

text \<open>A shell parser that knows two scripts: \<open>rm -f x\<close>, and everything else as \<open>ls\<close>.\<close>

definition word_node :: "ustr \<Rightarrow> node" where
  "word_node w = Node (lit ''word'') True w 0 []"

definition command_node :: "ustr \<Rightarrow> ustr list \<Rightarrow> node" where
  "command_node name args = Node (lit ''command'') True [] 0
     (Node (lit ''command_name'') True name 0 [word_node name] # map word_node args)"

definition sample_shell :: shell_parser where
  "sample_shell script = Some \<lparr>root_node = Node (lit ''program'') True script 0
     [if script = lit ''rm -f x'' then command_node (lit ''rm'') [lit ''-f'', lit ''x'']
      else command_node (lit ''ls'') []], has_error = False\<rparr>"

definition sample_tools :: tool_env where
  "sample_tools = \<lparr>te_process = sample_env, te_parse_shell = sample_shell, te_powershell = (\<lambda>_ _. None),
     te_shlex_join = (\<lambda>_. None)\<rparr>"

definition sample_request :: "ask_for_approval \<Rightarrow> ustr list option \<Rightarrow> ustr list \<Rightarrow> exec_approval_request" where
  "sample_request approval prefix command = \<lparr>req_command = command, req_approval_policy = approval,
     req_sandbox_policy = ReadOnly False, req_fs_kind = FsRestricted, req_sandbox_permissions = UseDefault,
     req_prefix_rule = prefix\<rparr>"

lemma sample_request_fields [simp]:
  "req_command (sample_request approval prefix command) = command"
  "req_approval_policy (sample_request approval prefix command) = approval"
  "req_sandbox_policy (sample_request approval prefix command) = ReadOnly False"
  "req_fs_kind (sample_request approval prefix command) = FsRestricted"
  "req_sandbox_permissions (sample_request approval prefix command) = UseDefault"
  "req_prefix_rule (sample_request approval prefix command) = prefix"
  by (simp_all add: sample_request_def)

lemma sample_tools_fields [simp]:
  "te_process sample_tools = sample_env" "te_parse_shell sample_tools = sample_shell"
  "te_powershell sample_tools = (\<lambda>_ _. None)" "te_shlex_join sample_tools = (\<lambda>_. None)"
  by (simp_all add: sample_tools_def)

subsection \<open>The classifiers\<close>

text \<open>No command is both known to be safe and possibly dangerous, be it run directly, through a
  POSIX shell or through PowerShell (\<open>zsh\<close>, which the classifier reads as \<open>bash\<close>, may only
  be the program itself).\<close>

lemma safe_commands_are_not_dangerous:
  assumes "is_known_safe_command parse ps command" and "lit ''zsh'' \<notin> set (tl command)"
  shows "\<not> command_might_be_dangerous parse command"
  using assms by (rule known_safe_not_dangerous)

text \<open>
  The words of a git command, told apart from the classifier: a long option stands alone or before \<open>=\<close> and its
  value; before the subcommand there are words with a dash, and a directory after \<open>-C\<close>.
\<close>

definition gives_option :: "ustr \<Rightarrow> ustr \<Rightarrow> bool" where
  "gives_option arg name \<longleftrightarrow> arg = name \<or> starts_with (name @ lit ''='') arg"

fun options_or_directories :: "ustr list \<Rightarrow> bool" where
  "options_or_directories [] = True"
| "options_or_directories (arg # args) =
     (if arg = lit ''-C'' then (case args of [] \<Rightarrow> True | _ # rest \<Rightarrow> options_or_directories rest)
      else starts_with (lit ''-'') arg \<and> options_or_directories args)"

lemma no_prompt_words:
  assumes "\<not> git_global_option_requires_prompt arg"
  shows "\<not> starts_with (lit ''-c'') arg"
    and "name \<in> set [lit ''--config-env'', lit ''--exec-path'', lit ''--git-dir'', lit ''--namespace'',
       lit ''--super-prefix'', lit ''--work-tree''] \<Longrightarrow> \<not> gives_option arg name"
proof -
  have len: "str_len arg > 2" if "starts_with (lit ''-c'') arg" "arg \<noteq> lit ''-c''"
  proof -
    from that(1) obtain r where r: "arg = lit ''-c'' @ r" by (auto simp: starts_with_iff)
    with that(2) obtain x xs where "r = x # xs" by (cases r) auto
    with r len_utf8_pos [of x] show ?thesis by (simp add: str_len_def lit_def len_utf8_def split: if_splits)
  qed
  show "\<not> starts_with (lit ''-c'') arg"
    using assms len by (auto simp: git_global_option_requires_prompt_def)
  show "\<not> gives_option arg name" if "name \<in> set [lit ''--config-env'', lit ''--exec-path'', lit ''--git-dir'',
      lit ''--namespace'', lit ''--super-prefix'', lit ''--work-tree'']"
    using assms that
    by (auto simp: git_global_option_requires_prompt_def gives_option_def starts_with_any_def git_value_options_def lit_def)
qed

lemma skipped_options_shape:
  "skipped_git_options pre \<Longrightarrow> \<forall>arg\<in>set pre. \<not> git_global_option_requires_prompt arg \<Longrightarrow> options_or_directories pre"
proof (induction pre rule: options_or_directories.induct)
  case (2 arg args)
  show ?case
  proof (cases "arg = lit ''-C''")
    case True
    have "is_git_global_option_with_value (lit ''-C'')" "\<not> is_git_global_option_with_inline_value (lit ''-C'')" by code_simp+
    with 2(3) True have "case args of [] \<Rightarrow> True | _ # rest \<Rightarrow> skipped_git_options rest" by simp
    with 2(1) [OF True] 2(4) True show ?thesis by (cases args) simp_all
  next
    case False
    then have "\<not> is_git_global_option_with_value arg"
      using 2(4) by (auto simp: is_git_global_option_with_value_def git_global_option_requires_prompt_def)
    with 2(3) have "starts_with (lit ''-'') arg" "skipped_git_options args" by auto
    with 2(2) [OF False] 2(4) False show ?thesis by simp
  qed
qed simp

text \<open>C9: A git command the classifier calls safe is options, one of five subcommands and its arguments. Every word
  before the subcommand starts with a dash or is the directory after \<open>-C\<close>. No word of the command gives \<open>-c\<close>,
  \<open>--config-env\<close>, \<open>--exec-path\<close>, \<open>--git-dir\<close>, \<open>--namespace\<close>, \<open>--super-prefix\<close> or \<open>--work-tree\<close>, alone or with its
  value attached, so configuration, helpers and repository stay as they are. After the subcommand there is no
  \<open>--output\<close> or \<open>--exec\<close>, alone or with a value, and no \<open>--ext-diff\<close>, \<open>--textconv\<close> or \<open>--paginate\<close>; after \<open>branch\<close> there
  are only the flags that list branches. This is about options spelled out: git also takes a unique abbreviation of a
  long option, which the classifier does not look for, and \<open>--paginate\<close> before the subcommand.\<close>

theorem safe_git_is_read_only:
  assumes "is_safe_to_call_with_exec command" and "executable_name_lookup_key (hd command) = Some (lit ''git'')"
  shows "\<exists>cmd0 pre sub post. command = cmd0 # pre @ sub # post
    \<and> options_or_directories pre
    \<and> sub \<in> set [lit ''status'', lit ''log'', lit ''diff'', lit ''show'', lit ''branch'']
    \<and> (\<forall>arg\<in>set (pre @ sub # post). \<not> starts_with (lit ''-c'') arg
        \<and> (\<forall>name\<in>set [lit ''--config-env'', lit ''--exec-path'', lit ''--git-dir'', lit ''--namespace'',
             lit ''--super-prefix'', lit ''--work-tree'']. \<not> gives_option arg name))
    \<and> (\<forall>arg\<in>set post. \<not> gives_option arg (lit ''--output'') \<and> \<not> gives_option arg (lit ''--exec'')
        \<and> arg \<noteq> lit ''--ext-diff'' \<and> arg \<noteq> lit ''--textconv'' \<and> arg \<noteq> lit ''--paginate'')
    \<and> (sub = lit ''branch'' \<longrightarrow> (\<forall>arg\<in>set post. arg \<in> set [lit ''--list'', lit ''-l'', lit ''--show-current'', lit ''-a'',
         lit ''--all'', lit ''-r'', lit ''--remotes'', lit ''-v'', lit ''-vv'', lit ''--verbose''] \<or> starts_with (lit ''--format='') arg))"
proof -
  have names: "lit ''git'' \<notin> set LINUX_SAFE" "lit ''git'' \<notin> set ALWAYS_SAFE" "lit ''git'' \<noteq> lit ''base64''"
    "lit ''git'' \<noteq> lit ''find''" "lit ''git'' \<noteq> lit ''rg''" by code_simp+
  obtain c args where c: "command = c # args" using safe_exec_name [OF assms(1)] by blast
  with assms have "is_safe_git command" by (simp add: is_safe_to_call_with_exec_def names del: lit_inject)
  from is_safe_git_shape [OF this] obtain cmd0 pre sub post where
    shape: "command = cmd0 # pre @ sub # post" "skipped_git_options pre"
      "\<not> list_ex git_global_option_requires_prompt (pre @ sub # post)"
      "sub \<in> set [lit ''status'', lit ''log'', lit ''diff'', lit ''show'', lit ''branch'']"
      "git_subcommand_args_are_read_only post" "sub = lit ''branch'' \<longrightarrow> git_branch_is_read_only post" by blast
  from shape(3) have quiet: "\<forall>arg\<in>set (pre @ sub # post). \<not> git_global_option_requires_prompt arg"
    by (auto simp: list_ex_iff)
  have loop: "branch_args_loop b xs \<Longrightarrow> \<forall>arg\<in>set xs. branch_query_flag arg" for b xs
    by (induction b xs rule: branch_args_loop.induct) (auto split: if_splits)
  then have branch: "git_branch_is_read_only post \<Longrightarrow> \<forall>arg\<in>set post. branch_query_flag arg"
    by (auto simp: git_branch_is_read_only_def split: if_splits)
  have "\<forall>arg\<in>set post. \<not> (arg \<in> set [lit ''--output'', lit ''--ext-diff'', lit ''--textconv'', lit ''--exec'', lit ''--paginate'']
      \<or> starts_with (lit ''--output='') arg \<or> starts_with (lit ''--exec='') arg)"
    using shape(5) by (simp add: git_subcommand_args_are_read_only_def list_ex_iff)
  then have writes: "\<forall>arg\<in>set post. \<not> gives_option arg (lit ''--output'') \<and> \<not> gives_option arg (lit ''--exec'')
        \<and> arg \<noteq> lit ''--ext-diff'' \<and> arg \<noteq> lit ''--textconv'' \<and> arg \<noteq> lit ''--paginate''"
    by (auto simp: gives_option_def lit_def)
  have "options_or_directories pre" using skipped_options_shape [OF shape(2)] quiet by simp
  moreover have "\<forall>arg\<in>set (pre @ sub # post). \<not> starts_with (lit ''-c'') arg
        \<and> (\<forall>name\<in>set [lit ''--config-env'', lit ''--exec-path'', lit ''--git-dir'', lit ''--namespace'',
             lit ''--super-prefix'', lit ''--work-tree'']. \<not> gives_option arg name)"
    using quiet no_prompt_words by blast
  moreover have "sub = lit ''branch'' \<longrightarrow> (\<forall>arg\<in>set post. arg \<in> set [lit ''--list'', lit ''-l'', lit ''--show-current'', lit ''-a'',
         lit ''--all'', lit ''-r'', lit ''--remotes'', lit ''-v'', lit ''-vv'', lit ''--verbose''] \<or> starts_with (lit ''--format='') arg)"
    using shape(6) branch unfolding branch_query_flag_def by blast
  ultimately show ?thesis using shape(1,4) writes by blast
qed

theorem safe_git_is_read_only_witness:
  "\<exists>cmd0 pre sub post. [lit ''git'', lit ''-C'', lit ''d'', lit ''branch'', lit ''-a''] = cmd0 # pre @ sub # post
    \<and> options_or_directories pre \<and> sub \<in> set [lit ''status'', lit ''log'', lit ''diff'', lit ''show'', lit ''branch'']"
proof -
  let ?c = "[lit ''git'', lit ''-C'', lit ''d'', lit ''branch'', lit ''-a'']"
  have "is_safe_to_call_with_exec ?c" and "executable_name_lookup_key (hd ?c) = Some (lit ''git'')" by code_simp+
  from safe_git_is_read_only [OF this] show ?thesis
    by (elim exE conjE) (intro exI conjI, assumption+)
qed

text \<open>
  Commands with side effects the classifiers let through: git takes \<open>--paginate\<close> before the
  subcommand only, where it is not looked for, it takes a unique abbreviation of a long option
  for the option, and the PowerShell list does not look at the arguments of a git subcommand at all.
\<close>

lemma unsafe_git_commands_classified_safe:
  "is_safe_to_call_with_exec [lit ''git'', lit ''--paginate'', lit ''log'']"
  "is_safe_to_call_with_exec [lit ''git'', lit ''diff'', lit ''--ext-dif'']"
  "is_safe_powershell_command [lit ''git'', lit ''diff'', lit ''--output=notes.txt'']"
  "\<not> is_safe_to_call_with_exec [lit ''git'', lit ''diff'', lit ''--output=notes.txt'']"
  by code_simp+

text \<open>
  The UTF-8 prefix goes to the last word of the command, also when the script is another word:
  the last word is lost and the script keeps its encoding.
\<close>

lemma utf8_prefix_replaces_last_word:
  "prefix_powershell_script_with_utf8 [lit ''pwsh'', lit ''-Command'', lit ''dir'', lit ''sub''] =
     [lit ''pwsh'', lit ''-Command'', lit ''dir'', UTF8_OUTPUT_PREFIX @ lit ''dir'']"
proof -
  have sh: "detect_shell_type (lit ''pwsh'') = Some PowerShell"
    by (subst detect_shell_type.simps) (simp add: shell_name_type_def)
  have "powershell_script [lit ''-Command'', lit ''dir'', lit ''sub''] = Some (lit ''dir'')" by code_simp
  moreover have "starts_with UTF8_OUTPUT_PREFIX (trim_start (lit ''dir'')) = False" by code_simp
  ultimately show ?thesis
    by (simp add: prefix_powershell_script_with_utf8_def extract_powershell_command_def sh Let_def)
qed

text \<open>
  One rules file that does not parse leaves the session with the empty policy: a warning is kept,
  and no rule of any other layer applies, those of the managed requirements included.
\<close>

lemma broken_rules_file_drops_the_requirements:
  assumes "load_exec_policy src stack = Inl (ParsePolicy path e)"
  shows "\<exists>w. load_exec_policy_with_warning src stack = Inr (policy_empty, Some w)
    \<and> policy_matches env policy_empty options cmd = []"
  using assms by (simp add: load_exec_policy_with_warning_def policy_empty_no_match)

text \<open>C10: The commands extracted from a shell script cover the script: when a list of commands is
  returned, the syntax tree has no error, every node of it is of an allowed kind (no redirection,
  substitution, grouping or control flow anywhere), and the returned commands are the words of the
  command nodes of the tree, none missing and none added.\<close>

theorem script_commands_cover_the_script:
  assumes "parse_shell_lc_plain_commands parse command = Some cmds"
  shows "\<exists>shell script tree. extract_bash_command command = Some (shell, script) \<and> parse script = Some tree
    \<and> \<not> has_error tree \<and> (\<forall>n\<in>set (nodes_of (root_node tree)). node_allowed n)
    \<and> set (map Some cmds) = parse_plain_command_from_node ` {n \<in> set (nodes_of (root_node tree)). is_command_node n}"
proof -
  obtain shell script tree where sh: "extract_bash_command command = Some (shell, script)" "parse script = Some tree"
    and t: "try_parse_word_only_commands_sequence tree = Some cmds"
    using assms by (auto simp: parse_shell_lc_plain_commands_def bind_eq_Some_conv split: option.splits)
  have "set (map Some cmds) = parse_plain_command_from_node ` {n \<in> set (nodes_of (root_node tree)). is_command_node n}"
  proof (intro set_eqI iffI)
    fix x assume "x \<in> set (map Some cmds)"
    with word_only_Some(4) [OF t] obtain n ws where n: "n \<in> set (nodes_of (root_node tree))" "is_command_node n"
      "parse_plain_command_from_node n = Some ws" "x = Some ws" by auto
    then show "x \<in> parse_plain_command_from_node ` {n \<in> set (nodes_of (root_node tree)). is_command_node n}"
      by (intro image_eqI [of _ _ n]) simp_all
  next
    fix x assume "x \<in> parse_plain_command_from_node ` {n \<in> set (nodes_of (root_node tree)). is_command_node n}"
    with word_only_Some(3) [OF t] show "x \<in> set (map Some cmds)" by fastforce
  qed
  with sh word_only_Some(1,2) [OF t] show ?thesis by blast
qed

theorem script_commands_cover_the_script_witness:
  "\<exists>tree. sample_shell (lit ''rm -f x'') = Some tree
    \<and> set (map Some [[lit ''rm'', lit ''-f'', lit ''x'']]) =
        parse_plain_command_from_node ` {n \<in> set (nodes_of (root_node tree)). is_command_node n}"
proof -
  let ?c = "[lit ''bash'', lit ''-lc'', lit ''rm -f x'']"
  have sh: "detect_shell_type (lit ''bash'') = Some Bash"
    by (subst detect_shell_type.simps) (simp add: shell_name_type_def)
  have ex: "extract_bash_command ?c = Some (lit ''bash'', lit ''rm -f x'')"
    by (simp add: extract_bash_command_def sh)
  have "Option.bind (sample_shell (lit ''rm -f x'')) try_parse_word_only_commands_sequence =
      Some [[lit ''rm'', lit ''-f'', lit ''x'']]" by code_simp
  then have "parse_shell_lc_plain_commands sample_shell ?c = Some [[lit ''rm'', lit ''-f'', lit ''x'']]"
    by (simp add: parse_shell_lc_plain_commands_def ex)
  from script_commands_cover_the_script [OF this] ex show ?thesis by auto
qed

subsection \<open>The approval decision\<close>

text \<open>C11: A command that might be dangerous is never simply allowed by the fallback: it is prompted
  for, or forbidden when prompts are off, unless prompts are off and the sandbox has been disabled
  explicitly. Relied on of the shell parser: the script that is the one word \<open>zsh\<close> is read as the command \<open>zsh\<close> or
  not at all (the two classifiers see different words there, since one reads \<open>zsh\<close> as \<open>bash\<close>).\<close>

theorem dangerous_needs_consent:
  assumes "command_might_be_dangerous (te_parse_shell te) cmd" and "reads_zsh_plainly (te_parse_shell te)"
  shows "render_decision_for_unmatched_command te approval sp fs_kind cmd perms complex =
    (if approval \<noteq> Never then Prompt
     else if sandbox_explicitly_disabled sp then Allow else Forbidden)"
proof -
  have "\<not> is_known_safe_command (te_parse_shell te) (te_powershell te) cmd"
    using assms plainly_read_not_dangerous by blast
  with assms(1) show ?thesis
    by (cases approval) (simp_all add: render_decision_for_unmatched_command_def)
qed

theorem dangerous_needs_consent_witness:
  "render_decision_for_unmatched_command (sample_tools\<lparr>te_parse_shell := sample_shell(lit ''zsh'' := None)\<rparr>) Never (ReadOnly False) FsRestricted
     [lit ''rm'', lit ''-rf'', lit ''zsh''] UseDefault False = Forbidden"
proof -
  let ?tools = "sample_tools\<lparr>te_parse_shell := sample_shell(lit ''zsh'' := None)\<rparr>"
  let ?c = "[lit ''rm'', lit ''-rf'', lit ''zsh'']"
  have "is_dangerous_to_call_with_exec ?c" by code_simp
  then have d: "command_might_be_dangerous (te_parse_shell ?tools) ?c" by (simp add: command_might_be_dangerous_def)
  have "reads_zsh_plainly (te_parse_shell ?tools)" by (simp add: reads_zsh_plainly_def)
  from dangerous_needs_consent [OF d this] show ?thesis by (simp add: sandbox_explicitly_disabled_def)
qed

text \<open>C12: The requirement of a command respects the rules. It always exists (the evaluation never
  panics); one forbidding match of one of its commands makes it forbidden; no prompt is ever issued
  when approvals are off; and the sandbox is bypassed only when every command the script consists of
  is explicitly allowed by a rule and no rule about any of them says otherwise.\<close>

theorem requirement_respects_rules:
  assumes "commands_for_exec_policy te (req_command req) = (commands, complex)"
  shows "\<exists>r. create_exec_approval_requirement_for_command te p req = Some r
    \<and> ((\<exists>c\<in>set commands. \<exists>m\<in>set (policy_matches (te_process te) p resolving c). match_decision m = Forbidden)
         \<longrightarrow> (\<exists>reason. r = ForbiddenBy reason))
    \<and> (req_approval_policy req = Never \<longrightarrow> (\<forall>reason a. r \<noteq> NeedsApproval reason a))
    \<and> (\<forall>a. r = Skip True a \<longrightarrow> (\<forall>c\<in>set commands. explicitly_allowed (te_process te) p c
         \<and> (\<forall>m\<in>set (policy_matches (te_process te) p resolving c). match_decision m = Allow)))"
proof -
  obtain e where e: "check_multiple_with_options (te_process te) p commands (request_fallback te req complex) resolving = Some e"
    using create_requirement_eval [OF assms] by blast
  obtain r where r: "create_exec_approval_requirement_for_command te p req = Some r"
    using create_requirement_defined by blast
  note cases = create_requirement_cases [OF assms e r]
  have le: "match_decision m \<le> eval_decision e"
    if "c \<in> set commands" "m \<in> set (policy_matches (te_process te) p resolving c)" for c m
    using check_multiple_decides [OF e check_multiple_matches [OF e that]] .
  have forb: "\<exists>reason. r = ForbiddenBy reason"
    if "c \<in> set commands" "m \<in> set (policy_matches (te_process te) p resolving c)" "match_decision m = Forbidden" for c m
    using le [OF that(1,2)] that(3) cases(1) by simp
  have never: "r \<noteq> NeedsApproval reason a" if "req_approval_policy req = Never" for reason a
    using cases that by (cases "eval_decision e") auto
  have skip: "explicitly_allowed (te_process te) p c \<and>
      (\<forall>m\<in>set (policy_matches (te_process te) p resolving c). match_decision m = Allow)"
    if "r = Skip True a" "c \<in> set commands" for a c
  proof -
    have allow: "eval_decision e = Allow" using cases that(1) by (cases "eval_decision e") auto
    from cases(3) [OF this] that have "explicitly_allowed (te_process te) p c" by (auto simp: list_all_iff)
    moreover have "match_decision m = Allow" if "m \<in> set (policy_matches (te_process te) p resolving c)" for m
      using le [OF \<open>c \<in> set commands\<close> that] allow by simp
    ultimately show ?thesis by blast
  qed
  show ?thesis
  proof (intro exI [of _ r] conjI impI allI)
    show "create_exec_approval_requirement_for_command te p req = Some r" by (rule r)
  qed (use forb never skip in blast)+
qed

text \<open>The policy of the samples with a rule that forbids \<open>rm\<close>.\<close>

definition rm_forbidden_policy :: policy where
  "rm_forbidden_policy = policy_new [(lit ''rm'',
     [\<lparr>rule_pattern = \<lparr>pattern_first = lit ''rm'', pattern_rest = []\<rparr>, rule_decision = Forbidden,
       rule_justification = None\<rparr>])]"

lemma sample_rm_commands:
  "commands_for_exec_policy sample_tools [lit ''bash'', lit ''-lc'', lit ''rm -f x''] =
     ([[lit ''rm'', lit ''-f'', lit ''x'']], False)"
proof -
  have sh: "detect_shell_type (lit ''bash'') = Some Bash"
    by (subst detect_shell_type.simps) (simp add: shell_name_type_def)
  have "Option.bind (sample_shell (lit ''rm -f x'')) try_parse_word_only_commands_sequence =
      Some [[lit ''rm'', lit ''-f'', lit ''x'']]" by code_simp
  then have "parse_shell_lc_plain_commands sample_shell [lit ''bash'', lit ''-lc'', lit ''rm -f x''] =
      Some [[lit ''rm'', lit ''-f'', lit ''x'']]"
    by (simp add: parse_shell_lc_plain_commands_def extract_bash_command_def sh)
  then show ?thesis by (simp add: commands_for_exec_policy_def Let_def)
qed

theorem requirement_respects_rules_witness:
  "\<exists>reason. create_exec_approval_requirement_for_command sample_tools rm_forbidden_policy
     (sample_request OnRequest None [lit ''bash'', lit ''-lc'', lit ''rm -f x'']) = Some (ForbiddenBy reason)"
proof -
  let ?req = "sample_request OnRequest None [lit ''bash'', lit ''-lc'', lit ''rm -f x'']"
  have c: "commands_for_exec_policy sample_tools (req_command ?req) = ([[lit ''rm'', lit ''-f'', lit ''x'']], False)"
    using sample_rm_commands by simp
  have "list_ex (\<lambda>m. match_decision m = Forbidden)
      (policy_matches (te_process sample_tools) rm_forbidden_policy resolving [lit ''rm'', lit ''-f'', lit ''x''])"
    by code_simp
  with requirement_respects_rules [OF c, of rm_forbidden_policy] show ?thesis by (auto simp: list_ex_iff)
qed

text \<open>A proposed amendment does what it is proposed for. Either it is the prefix the caller asked
  for, which is not one of the banned prefixes, and with it as an allow rule every command of the
  script is allowed; or it is a command of the script (parsed as plain words) that no rule matches and
  the fallback prompts for, and with it as an allow rule that command is allowed.\<close>

lemma proposed_amendment_is_effective:
  assumes "create_exec_approval_requirement_for_command te p req = Some (NeedsApproval reason (Some a))"
    and "commands_for_exec_policy te (req_command req) = (commands, complex)" and "a \<noteq> []"
  shows "\<exists>p'. add_prefix_rule a Allow p = Inr p' \<and>
    ((req_prefix_rule req = Some a \<and> a \<notin> set BANNED_PREFIX_SUGGESTIONS \<and>
       (\<forall>c\<in>set commands. map_option eval_decision
          (check_with_options (te_process te) p' c (request_fallback te req complex) resolving) = Some Allow))
     \<or> (\<not> complex \<and> a \<in> set commands \<and> policy_matches (te_process te) p resolving a = []
        \<and> request_fallback te req complex a = Prompt
        \<and> map_option eval_decision
          (check_with_options (te_process te) p' a (request_fallback te req complex) resolving) = Some Allow))"
proof -
  let ?f = "request_fallback te req complex" and ?env = "te_process te"
  obtain e where e: "check_multiple_with_options ?env p commands ?f resolving = Some e"
    using create_requirement_eval [OF assms(2)] by blast
  obtain p' where p': "add_prefix_rule a Allow p = Inr p'" using add_prefix_rule_defined [OF assms(3)] by blast
  let ?req = "derive_requested_execpolicy_amendment_from_prefix_rule ?env (req_prefix_rule req)
    (eval_matched_rules e) p commands ?f resolving"
  have src: "?req = Some a \<or> (\<not> complex \<and> try_derive_execpolicy_amendment_for_prompt_rules (eval_matched_rules e) = Some a)"
    using assms(1) by (auto simp: create_exec_approval_requirement_for_command_def assms(2) e Let_def
        split: decision.splits option.splits if_splits)
  show ?thesis
  proof (cases "?req = Some a")
    case True
    then have "req_prefix_rule req = Some a" "a \<notin> set BANNED_PREFIX_SUGGESTIONS"
      "prefix_rule_would_approve_all_commands ?env p a commands ?f resolving"
      by (auto simp: derive_requested_execpolicy_amendment_from_prefix_rule_def split: option.splits if_splits)
    with p' show ?thesis
      by (auto simp: prefix_rule_would_approve_all_commands_def list_all_iff)
  next
    case False
    with src have nc: "\<not> complex" and h: "heuristic_with Prompt (eval_matched_rules e) = Some a"
      by (auto simp: try_derive_execpolicy_amendment_for_prompt_rules_def split: if_splits)
    from heuristic_with_Some [OF h] check_multiple_rules [OF e] obtain c where c: "c \<in> set commands"
      "HeuristicsRuleMatch a Prompt \<in> set (matches_for_command_with_options ?env p c (Some ?f) resolving)" by auto
    from matches_decision_source [OF c(2)] have "policy_matches ?env p resolving c = []" "c = a" "?f a = Prompt"
      by auto
    with c(1) nc added_allow_decides [OF p' _ assms(3)] p' show ?thesis by blast
  qed
qed

lemma accepted_amendment_takes_effect_parts:
  assumes "append_amendment_and_update env json ops spawn home a m = (Inr u, m')"
    and "policy_file_laws ops contents (default_policy_path home)"
    and "\<And>task s. spawn task s = (Inr (fst (task s)), snd (task s))"
  shows "\<exists>line. allow_prefix_line json a = Inr line
      \<and> contents (mgr_files m') = appended (contents (mgr_files m)) line"
    and "explicitly_allowed env (mgr_policy m') a"
    and "cmd \<noteq> [] \<Longrightarrow> \<exists>more. match_exact_rules (mgr_policy m') cmd = Some (the (match_exact_rules (mgr_policy m) cmd) @ more)
           \<and> (take (length a) cmd \<noteq> a \<longrightarrow> more = [])"
proof -
  let ?path = "default_policy_path home"
  let ?task = "blocking_append_allow_prefix_rule json ops ?path a"
  obtain s where task: "?task (mgr_files m) = (Inr (), s)"
    and run: "run_append spawn ?path ?task m = (Inr (), m\<lparr>mgr_files := s\<rparr>)"
    using assms(1) by (cases "?task (mgr_files m)"; cases "fst (?task (mgr_files m))")
      (auto simp: append_amendment_and_update_def run_append_def assms(3) Let_def split: if_splits)
  let ?p = "mgr_policy m"
  let ?allowed = "case check_multiple_with_options env ?p [a] (\<lambda>_. Forbidden) resolving of
       Some e \<Rightarrow> eval_decision e = Allow \<and> list_ex (\<lambda>r. is_policy_match r \<and> match_decision r = Allow) (eval_matched_rules e)
     | None \<Rightarrow> False"
  have a: "a \<noteq> []" using blocking_append_allow_appends [OF assms(2) task] by blast
  have rest: "(?allowed \<and> m' = m\<lparr>mgr_files := s\<rparr>) \<or>
      (\<exists>p'. add_prefix_rule a Allow ?p = Inr p' \<and> m' = m\<lparr>mgr_files := s, mgr_policy := p'\<rparr>)"
    using assms(1) by (auto simp: append_amendment_and_update_def run Let_def split: if_splits sum.splits)
  then have files: "mgr_files m' = s" by auto
  show "\<exists>line. allow_prefix_line json a = Inr line
      \<and> contents (mgr_files m') = appended (contents (mgr_files m)) line"
    using blocking_append_allow_appends [OF assms(2) task] by (auto simp: files)
  show "explicitly_allowed env (mgr_policy m') a"
    using rest
  proof
    assume old: "?allowed \<and> m' = m\<lparr>mgr_files := s\<rparr>"
    then obtain e r where e: "check_multiple_with_options env ?p [a] (\<lambda>_. Forbidden) resolving = Some e"
      and r: "r \<in> set (eval_matched_rules e)" "is_policy_match r" "match_decision r = Allow"
      by (auto simp: list_ex_iff split: option.splits)
    from r(1) check_multiple_rules [OF e] have "r \<in> set (matches_for_command_with_options env ?p a (Some (\<lambda>_. Forbidden)) resolving)"
      by simp
    from matches_decision_source [OF this] r(2,3) old show ?thesis
      by (auto simp: explicitly_allowed_def list_ex_iff)
  next
    assume "\<exists>p'. add_prefix_rule a Allow ?p = Inr p' \<and> m' = m\<lparr>mgr_files := s, mgr_policy := p'\<rparr>"
    then obtain p' where p': "add_prefix_rule a Allow ?p = Inr p'" "mgr_policy m' = p'" by auto
    from match_exact_add_prefix_rule [OF p'(1) a] p'(2) a show ?thesis
      by (simp add: explicitly_allowed_def policy_matches_def)
  qed
  show "\<exists>more. match_exact_rules (mgr_policy m') cmd = Some (the (match_exact_rules (mgr_policy m) cmd) @ more)
      \<and> (take (length a) cmd \<noteq> a \<longrightarrow> more = [])" if ne: "cmd \<noteq> []"
    using rest
  proof
    assume "?allowed \<and> m' = m\<lparr>mgr_files := s\<rparr>"
    with ne show ?thesis by (simp add: match_exact_filed)
  next
    assume "\<exists>p'. add_prefix_rule a Allow ?p = Inr p' \<and> m' = m\<lparr>mgr_files := s, mgr_policy := p'\<rparr>"
    then obtain p' where p': "add_prefix_rule a Allow ?p = Inr p'" "mgr_policy m' = p'" by auto
    from match_exact_add_prefix_rule [OF p'(1) ne] p'(2) show ?thesis by simp
  qed
qed

text \<open>C13: Accepting an amendment takes effect and touches nothing else. When the operation succeeds
  (the file is one opened for appending, the blocking task runs to its end), the policy file has got
  the line of the amendment, the command of the amendment is explicitly allowed by the policy in
  memory, every command keeps the exact matches it had, and a command that does not start with the
  amendment has no other exact matches than before.\<close>

theorem accepted_amendment_takes_effect:
  assumes "append_amendment_and_update env json ops spawn home a m = (Inr u, m')"
    and "policy_file_laws ops contents (default_policy_path home)"
    and "\<And>task s. spawn task s = (Inr (fst (task s)), snd (task s))"
  shows "(\<exists>line. allow_prefix_line json a = Inr line
      \<and> contents (mgr_files m') = appended (contents (mgr_files m)) line)
    \<and> explicitly_allowed env (mgr_policy m') a
    \<and> (\<forall>cmd. cmd \<noteq> [] \<longrightarrow> (\<exists>more. match_exact_rules (mgr_policy m') cmd =
           Some (the (match_exact_rules (mgr_policy m) cmd) @ more)
         \<and> (take (length a) cmd \<noteq> a \<longrightarrow> more = [])))"
  using accepted_amendment_takes_effect_parts [OF assms] by blast

text \<open>A manager over the file kept in memory, whose tasks run to their end.\<close>

definition sample_manager :: "ustr manager_state" where
  "sample_manager = \<lparr>mgr_policy = policy_empty, mgr_lock_closed = False, mgr_files = []\<rparr>"

definition run_to_end :: "'s spawner" where
  "run_to_end task s = (Inr (fst (task s)), snd (task s))"

theorem accepted_amendment_takes_effect_witness:
  "\<exists>m'. append_amendment_and_update sample_env Inr memory_file run_to_end [RootDir] [lit ''ls''] sample_manager = (Inr (), m')
    \<and> explicitly_allowed sample_env (mgr_policy m') [lit ''ls'']"
proof -
  let ?run = "append_amendment_and_update sample_env Inr memory_file run_to_end [RootDir] [lit ''ls''] sample_manager"
  have "isl (fst ?run) = False" by code_simp
  then obtain m' where m': "?run = (Inr (), m')" by (cases ?run; cases "fst ?run") auto
  from accepted_amendment_takes_effect [OF m' memory_file_laws] m' show ?thesis by (auto simp: run_to_end_def)
qed

subsection \<open>The approval cache\<close>

text \<open>An approval for the session is remembered key by key: once it has been given for some keys,
  a request for any of them is approved from the store, without asking and without changing the
  store, whatever the answer to the prompt would be. It is never given without asking unless every
  key of the request was approved for the session before.\<close>

lemma session_approval_is_remembered:
  assumes "with_cached_approval ser keys fetch store = (ApprovedForSession, store')"
    and "keys \<noteq> []" and "\<forall>k\<in>set keys. ser k \<noteq> None" and "sub \<noteq> []" and "set sub \<subseteq> set keys"
  shows "with_cached_approval ser sub fetch' store' = (ApprovedForSession, store')"
    and "fst (fetch store) \<noteq> ApprovedForSession \<Longrightarrow> \<forall>k\<in>set keys. store_get ser store k = Some ApprovedForSession"
proof -
  have put: "store_get ser (fold (\<lambda>k. store_put ser k ApprovedForSession) ks st) k = Some ApprovedForSession"
    if "(k \<in> set ks \<and> ser k \<noteq> None) \<or> store_get ser st k = Some ApprovedForSession" for ks k st
    using that by (induction ks arbitrary: st) (auto simp: store_get_def store_put_def split: option.splits)
  have "store_get ser store' k = Some ApprovedForSession" if "k \<in> set keys" for k
  proof (cases "list_all (\<lambda>k. store_get ser store k = Some ApprovedForSession) keys")
    case True
    with assms(1,2) that show ?thesis by (auto simp: with_cached_approval_def list_all_iff)
  next
    case False
    with assms(1,2) have "store' = fold (\<lambda>k. store_put ser k ApprovedForSession) keys (snd (fetch store))"
      by (auto simp: with_cached_approval_def split: prod.splits)
    with put [of k keys] assms(3) that show ?thesis by simp
  qed
  with assms(4,5) show "with_cached_approval ser sub fetch' store' = (ApprovedForSession, store')"
    by (auto simp: with_cached_approval_def list_all_iff)
  show "\<forall>k\<in>set keys. store_get ser store k = Some ApprovedForSession"
    if "fst (fetch store) \<noteq> ApprovedForSession"
    using assms(1,2) that by (auto simp: with_cached_approval_def list_all_iff split: prod.splits if_splits)
qed

end
