(* ===== verification/Stream_Text.thy ===== *)
theory Stream_Text
  imports Prelude
begin

section \<open>Parsers of streamed text (utils/stream-parser/src/stream_text.rs)\<close>

text \<open>
  The result of one pushed chunk, and the contract of the trait \<open>StreamTextParser\<close>. A parser is
  a pair of operations on its state; a push may fail to return (\<open>None\<close>), which each provider
  excludes for the states its constructor can reach. The contract a caller relies on is that the
  cuts between chunks do not matter: pushing two chunks and pushing their concatenation end in
  the same state with the same meaning. What the meaning is, the provider says.
\<close>

subsection \<open>Chunks\<close>

record 'e stream_chunk =
  visible_text :: ustr
  extracted :: "'e list"

definition chunk_default :: "'e stream_chunk" where
  "chunk_default = \<lparr>visible_text = [], extracted = []\<rparr>"

definition chunk_is_empty :: "'e stream_chunk \<Rightarrow> bool" where
  "chunk_is_empty c \<longleftrightarrow> visible_text c = [] \<and> extracted c = []"

text \<open>\<open>out.visible_text.push_str(&tail.visible_text); out.extracted.append(&mut tail.extracted)\<close>.\<close>

definition chunk_append :: "'e stream_chunk \<Rightarrow> 'e stream_chunk \<Rightarrow> 'e stream_chunk" where
  "chunk_append out tail =
    \<lparr>visible_text = visible_text out @ visible_text tail, extracted = extracted out @ extracted tail\<rparr>"

lemma chunk_append_simps [simp]:
  "visible_text (chunk_append a b) = visible_text a @ visible_text b"
  "extracted (chunk_append a b) = extracted a @ extracted b"
  "visible_text chunk_default = []"
  "extracted chunk_default = []"
  by (simp_all add: chunk_append_def chunk_default_def)

lemma chunk_append_default [simp]: "chunk_append chunk_default c = c" "chunk_append c chunk_default = c"
  by (cases c; simp add: chunk_append_def)+

lemma chunk_append_assoc: "chunk_append (chunk_append a b) c = chunk_append a (chunk_append b c)"
  by (simp add: chunk_append_def)

lemma chunk_is_empty_iff: "chunk_is_empty c \<longleftrightarrow> c = chunk_default"
  by (cases c) (simp add: chunk_is_empty_def chunk_default_def)

subsection \<open>Feeding a parser a list of chunks\<close>

fun push_chunks :: "('s \<Rightarrow> 'c \<Rightarrow> ('o \<times> 's) option) \<Rightarrow> ('o \<Rightarrow> 'o \<Rightarrow> 'o) \<Rightarrow> 'o \<Rightarrow> 's \<Rightarrow> 'c list \<Rightarrow> ('o \<times> 's) option" where
  "push_chunks push join out s [] = Some (out, s)"
| "push_chunks push join out s (c # cs) =
    (case push s c of None \<Rightarrow> None | Some (o1, s') \<Rightarrow> push_chunks push join (join out o1) s' cs)"

definition collect_chunks ::
    "('s \<Rightarrow> 'c \<Rightarrow> ('o \<times> 's) option) \<Rightarrow> ('s \<Rightarrow> 'o \<times> 's) \<Rightarrow> ('o \<Rightarrow> 'o \<Rightarrow> 'o) \<Rightarrow> 'o \<Rightarrow> 's \<Rightarrow> 'c list \<Rightarrow> 'o option" where
  "collect_chunks push finish join none s chunks =
    map_option (\<lambda>(out, s'). join out (fst (finish s'))) (push_chunks push join none s chunks)"

text \<open>A push that always returns, as the contract has it.\<close>

definition returning :: "('s \<Rightarrow> 'c \<Rightarrow> 'r) \<Rightarrow> 's \<Rightarrow> 'c \<Rightarrow> 'r option" where
  "returning push s c = Some (push s c)"

subsection \<open>The contract\<close>

locale text_stream =
  fixes push :: "'s \<Rightarrow> ustr \<Rightarrow> ('o \<times> 's) option"
    and finish :: "'s \<Rightarrow> 'o \<times> 's"
    and ok :: "'s \<Rightarrow> bool"
    and none :: 'o
    and join :: "'o \<Rightarrow> 'o \<Rightarrow> 'o"
    and meaning :: "'o \<Rightarrow> 'm"
  assumes join_none: "join none x = x" "join x none = x"
    and join_assoc: "join (join x y) z = join x (join y z)"
    and meaning_join: "\<lbrakk>meaning x = meaning x'; meaning y = meaning y'\<rbrakk> \<Longrightarrow> meaning (join x y) = meaning (join x' y')"
    and push_nil: "ok s \<Longrightarrow> push s [] = Some (none, s)"
    and push_returns: "ok s \<Longrightarrow> \<exists>out s'. push s t = Some (out, s') \<and> ok s'"
    and push_append: "\<lbrakk>ok s; push s t = Some (o1, s1); push s1 u = Some (o2, s2)\<rbrakk> \<Longrightarrow>
      \<exists>out. push s (t @ u) = Some (out, s2) \<and> meaning out = meaning (join o1 o2)"
begin

lemma push_ok: "\<lbrakk>ok s; push s t = Some (out, s')\<rbrakk> \<Longrightarrow> ok s'"
  using push_returns [of s t] by auto

lemma push_chunks_concat:
  "\<lbrakk>ok s; push s t = Some (o1, s1); meaning out = meaning o1\<rbrakk> \<Longrightarrow>
    \<exists>o2 s2 o3. push_chunks push join out s1 chunks = Some (o2, s2) \<and>
      push s (t @ concat chunks) = Some (o3, s2) \<and> meaning o2 = meaning o3 \<and> ok s2"
proof (induction chunks arbitrary: t o1 s1 out)
  case Nil
  then show ?case by (auto intro: push_ok)
next
  case (Cons c cs)
  from push_ok [OF Cons.prems(1,2)] obtain oc sc where c: "push s1 c = Some (oc, sc)"
    using push_returns by blast
  from push_append [OF Cons.prems(1,2) c] obtain o12
    where tc: "push s (t @ c) = Some (o12, sc)" and m: "meaning o12 = meaning (join o1 oc)" by blast
  from m meaning_join [OF Cons.prems(3) refl] have "meaning (join out oc) = meaning o12" by simp
  from Cons.IH [OF Cons.prems(1) tc this] c show ?case by simp
qed

text \<open>How the text is cut into chunks does not matter.\<close>

lemma collect_independent:
  assumes "ok s"
  shows "\<exists>o1 o2. collect_chunks push finish join none s chunks = Some o1 \<and>
    collect_chunks push finish join none s [concat chunks] = Some o2 \<and> meaning o1 = meaning o2"
proof -
  from push_chunks_concat [OF assms push_nil [OF assms] refl, of chunks] obtain o2 s2 o3
    where p: "push_chunks push join none s chunks = Some (o2, s2)"
      and w: "push s (concat chunks) = Some (o3, s2)" and m: "meaning o2 = meaning o3" by auto
  from p have "collect_chunks push finish join none s chunks = Some (join o2 (fst (finish s2)))"
    by (simp add: collect_chunks_def)
  moreover from w have "collect_chunks push finish join none s [concat chunks] = Some (join o3 (fst (finish s2)))"
    by (simp add: collect_chunks_def join_none)
  ultimately show ?thesis using meaning_join [OF m refl] by blast
qed

lemma collect_same_text:
  assumes "ok s" and "concat chunks = concat chunks'"
  shows "\<exists>o1 o2. collect_chunks push finish join none s chunks = Some o1 \<and>
    collect_chunks push finish join none s chunks' = Some o2 \<and> meaning o1 = meaning o2"
proof -
  from collect_independent [OF assms(1), of chunks] collect_independent [OF assms(1), of chunks']
  show ?thesis unfolding assms(2) by fastforce
qed

end

text \<open>The contract for the chunks of the trait.\<close>

locale stream_text_parser = text_stream push finish ok chunk_default chunk_append meaning
  for push :: "'s \<Rightarrow> ustr \<Rightarrow> ('e stream_chunk \<times> 's) option"
    and finish :: "'s \<Rightarrow> 'e stream_chunk \<times> 's"
    and ok :: "'s \<Rightarrow> bool"
    and meaning :: "'e stream_chunk \<Rightarrow> 'm"

end
