(* ===== verification/Tag_Search.thy ===== *)
theory Tag_Search
  imports Prelude
begin

section \<open>Searching for delimiters in streamed text\<close>

text \<open>
  The searches of \<open>inline_hidden_tag.rs\<close>: the next opener of a text, and the longest end of the
  text that may still grow into a delimiter. Their characterisations, and how both behave when
  text is appended, carry the proofs about the parser.
\<close>

subsection \<open>Searching\<close>

text \<open>\<open>str::find\<close>.\<close>

definition str_find :: "'a list \<Rightarrow> 'a list \<Rightarrow> nat option" where
  "str_find needle s = find_index_in (\<lambda>i. starts_with needle (drop i s)) 0 (Suc (length s))"

text \<open>\<open>Iterator::min_by\<close>: the first minimal element.\<close>

definition min_by :: "('a \<Rightarrow> 'a \<Rightarrow> bool) \<Rightarrow> 'a list \<Rightarrow> 'a option" where
  "min_by lt xs = (case xs of [] \<Rightarrow> None
     | x # ys \<Rightarrow> Some (fold (\<lambda>y best. if lt y best then y else best) ys x))"

definition open_before :: "nat \<times> nat \<times> nat \<Rightarrow> nat \<times> nat \<times> nat \<Rightarrow> bool" where
  "open_before a b = (case (a, b) of ((pos_a, len_a, idx_a), (pos_b, len_b, idx_b)) \<Rightarrow>
     pos_a < pos_b \<or> (pos_a = pos_b \<and> (len_b < len_a \<or> (len_a = len_b \<and> idx_a < idx_b))))"

definition open_candidates :: "ustr list \<Rightarrow> ustr \<Rightarrow> (nat \<times> nat \<times> nat) list" where
  "open_candidates opens s =
    List.map_filter (\<lambda>(idx, op). map_option (\<lambda>pos. (pos, str_len op, idx)) (str_find op s))
      (enumerate 0 opens)"

definition next_open :: "ustr list \<Rightarrow> ustr \<Rightarrow> (nat \<times> nat) option" where
  "next_open opens s = map_option (\<lambda>(pos, _, idx). (pos, idx)) (min_by open_before (open_candidates opens s))"

definition longest_suffix_prefix_len :: "ustr \<Rightarrow> ustr \<Rightarrow> nat" where
  "longest_suffix_prefix_len s needle =
    (case find (\<lambda>k. ends_with (take k needle) s) (rev [1..<Suc (min (length s) (length needle - 1))]) of
       Some k \<Rightarrow> k | None \<Rightarrow> 0)"

definition max_suffix_len :: "ustr list \<Rightarrow> ustr \<Rightarrow> nat" where
  "max_suffix_len opens s =
    (case map (longest_suffix_prefix_len s) opens of [] \<Rightarrow> 0 | l # ls \<Rightarrow> fold max ls l)"

subsection \<open>What the searches find\<close>

lemma fold_min_by:
  assumes lin: "\<And>a b c. lt a b \<Longrightarrow> lt b c \<Longrightarrow> lt a c" "\<And>a b. a = b \<or> lt a b \<or> lt b a"
  shows "fold (\<lambda>y best. if lt y best then y else best) ys x = m \<Longrightarrow>
    m \<in> insert x (set ys) \<and> (\<forall>z\<in>insert x (set ys). z = m \<or> lt m z)"
proof (induction ys arbitrary: x)
  case (Cons y ys)
  define b where "b = (if lt y x then y else x)"
  from Cons.prems have "fold (\<lambda>y best. if lt y best then y else best) ys b = m" by (simp add: b_def)
  from Cons.IH [OF this] have m: "m \<in> insert b (set ys)" "\<forall>z\<in>insert b (set ys). z = m \<or> lt m z"
    by simp_all
  have b: "b = x \<or> b = y" "x = b \<or> lt b x" "y = b \<or> lt b y"
    using lin(2) [of x y] by (auto simp: b_def)
  from m(2) b(2,3) have "x = m \<or> lt m x" "y = m \<or> lt m y"
    using lin(1) [of m b x] lin(1) [of m b y] by auto
  with m b(1) show ?case by auto
qed simp

lemma min_by_Some_iff:
  assumes lin: "\<And>a b c. lt a b \<Longrightarrow> lt b c \<Longrightarrow> lt a c" "\<And>a b. a = b \<or> lt a b \<or> lt b a" "\<And>a. \<not> lt a a"
  shows "min_by lt xs = Some m \<longleftrightarrow> m \<in> set xs \<and> (\<forall>z\<in>set xs. z = m \<or> lt m z)"
proof (cases xs)
  case (Cons x ys)
  define m' where "m' = fold (\<lambda>y best. if lt y best then y else best) ys x"
  have m': "m' \<in> set xs" "\<forall>z\<in>set xs. z = m' \<or> lt m' z"
    using fold_min_by [of lt ys x, OF lin(1,2) refl] by (auto simp: m'_def Cons)
  have "min_by lt xs = Some m'" by (simp add: min_by_def Cons m'_def)
  then show ?thesis using m' lin by (metis option.inject)
qed (simp add: min_by_def)

lemma min_by_None_iff [simp]: "min_by lt xs = None \<longleftrightarrow> xs = []"
  by (simp add: min_by_def split: list.splits)

lemma open_before_trans: "open_before a b \<Longrightarrow> open_before b c \<Longrightarrow> open_before a c"
  by (cases a; cases b; cases c) (auto simp: open_before_def)

lemma open_before_total: "a = b \<or> open_before a b \<or> open_before b a"
  by (cases a; cases b) (auto simp: open_before_def)

lemma open_before_irrefl: "\<not> open_before a a"
  by (cases a) (auto simp: open_before_def)

lemma min_open_iff:
  "min_by open_before xs = Some m \<longleftrightarrow> m \<in> set xs \<and> (\<forall>z\<in>set xs. z = m \<or> open_before m z)"
  by (rule min_by_Some_iff) (erule (1) open_before_trans, rule open_before_total, rule open_before_irrefl)

lemma str_find_Some_iff:
  "str_find p s = Some i \<longleftrightarrow>
     i \<le> length s \<and> starts_with p (drop i s) \<and> (\<forall>j<i. \<not> starts_with p (drop j s))"
  by (auto simp: str_find_def find_index_in_Some_iff)

lemma str_find_None_iff:
  "p \<noteq> [] \<Longrightarrow> str_find p s = None \<longleftrightarrow> (\<forall>j. \<not> starts_with p (drop j s))"
proof -
  assume "p \<noteq> []"
  then have "starts_with p (drop j s) \<Longrightarrow> j < Suc (length s)" for j
    by (cases p; cases "j \<le> length s") auto
  then show ?thesis unfolding str_find_def find_index_in_None_iff by blast
qed

lemma starts_with_drop_bound:
  "starts_with p (drop i s) \<Longrightarrow> p = [] \<or> i + length p \<le> length s"
proof -
  assume "starts_with p (drop i s)"
  then obtain r where "drop i s = p @ r" by (auto simp: starts_with_iff)
  then have "length s - i = length p + length r" by (metis length_append length_drop)
  then show ?thesis by (cases p) auto
qed

lemma open_candidates_iff:
  "(pos, len, idx) \<in> set (open_candidates opens s) \<longleftrightarrow>
     idx < length opens \<and> len = str_len (opens ! idx) \<and> str_find (opens ! idx) s = Some pos"
  by (force simp: open_candidates_def List.map_filter_def in_set_enumerate_eq image_iff)

lemma open_candidates_Nil: "open_candidates opens s = [] \<longleftrightarrow> (\<forall>q\<in>set opens. str_find q s = None)"
proof -
  have "open_candidates opens s = [] \<longleftrightarrow> (\<forall>pos len idx. (pos, len, idx) \<notin> set (open_candidates opens s))"
    by (metis empty_iff hd_in_set list.set(1) prod_cases3)
  also have "\<dots> \<longleftrightarrow> (\<forall>idx<length opens. str_find (opens ! idx) s = None)"
    unfolding open_candidates_iff by (metis not_None_eq)
  also have "\<dots> \<longleftrightarrow> (\<forall>q\<in>set opens. str_find q s = None)"
    by (metis in_set_conv_nth)
  finally show ?thesis .
qed

definition no_match :: "ustr list \<Rightarrow> ustr \<Rightarrow> bool" where
  "no_match opens s \<longleftrightarrow> (\<forall>j. \<forall>q\<in>set opens. \<not> starts_with q (drop j s))"

definition first_at :: "ustr list \<Rightarrow> ustr \<Rightarrow> nat \<Rightarrow> nat \<Rightarrow> bool" where
  "first_at opens s i k \<longleftrightarrow> k < length opens \<and> starts_with (opens ! k) (drop i s) \<and>
     (\<forall>j<i. \<forall>q\<in>set opens. \<not> starts_with q (drop j s)) \<and>
     (\<forall>k'<length opens. starts_with (opens ! k') (drop i s) \<longrightarrow>
        str_len (opens ! k') < str_len (opens ! k) \<or> (str_len (opens ! k') = str_len (opens ! k) \<and> k \<le> k'))"

lemma next_open_None_iff:
  "[] \<notin> set opens \<Longrightarrow> next_open opens s = None \<longleftrightarrow> no_match opens s"
proof -
  assume ne: "[] \<notin> set opens"
  have "next_open opens s = None \<longleftrightarrow> (\<forall>q\<in>set opens. str_find q s = None)"
    by (simp add: next_open_def open_candidates_Nil)
  also have "\<dots> \<longleftrightarrow> no_match opens s"
    using ne by (auto simp: no_match_def) (metis str_find_None_iff)+
  finally show ?thesis .
qed

lemma next_open_Some:
  assumes ne: "[] \<notin> set opens" and n: "next_open opens s = Some (i, k)"
  shows "first_at opens s i k"
proof -
  from n obtain len where m: "min_by open_before (open_candidates opens s) = Some (i, len, k)"
    by (auto simp: next_open_def)
  have c: "(i, len, k) \<in> set (open_candidates opens s)"
    and least: "\<forall>z\<in>set (open_candidates opens s). z = (i, len, k) \<or> open_before (i, len, k) z"
    using m min_open_iff by blast+
  from c have k: "k < length opens" "len = str_len (opens ! k)" "str_find (opens ! k) s = Some i"
    by (simp_all add: open_candidates_iff)
  have early: "\<not> starts_with q (drop j s)" if "j < i" "q \<in> set opens" for j q
  proof
    assume sw: "starts_with q (drop j s)"
    from that obtain k' where k': "k' < length opens" "q = opens ! k'" by (auto simp: in_set_conv_nth)
    from sw ne that obtain pos where pos: "str_find q s = Some pos"
      using str_find_None_iff [of q s] by fastforce
    with sw have "pos \<le> j" by (auto simp: str_find_Some_iff) (meson linorder_not_less)
    moreover from pos k' have "(pos, str_len q, k') \<in> set (open_candidates opens s)"
      by (simp add: open_candidates_iff)
    with least have "(pos, str_len q, k') = (i, len, k) \<or> open_before (i, len, k) (pos, str_len q, k')"
      by blast
    ultimately show False using \<open>j < i\<close> by (auto simp: open_before_def)
  qed
  have "str_len (opens ! k') < str_len (opens ! k) \<or> (str_len (opens ! k') = str_len (opens ! k) \<and> k \<le> k')"
    if "k' < length opens" "starts_with (opens ! k') (drop i s)" for k'
  proof -
    from k(3) have "i \<le> length s" by (simp add: str_find_Some_iff)
    with that early have "str_find (opens ! k') s = Some i" by (simp add: str_find_Some_iff)
    with that have "(i, str_len (opens ! k'), k') \<in> set (open_candidates opens s)"
      by (simp add: open_candidates_iff)
    with least k(2) have "(i, str_len (opens ! k'), k') = (i, str_len (opens ! k), k) \<or>
        open_before (i, str_len (opens ! k), k) (i, str_len (opens ! k'), k')" by blast
    then show ?thesis by (auto simp: open_before_def)
  qed
  with k early show ?thesis by (auto simp: first_at_def str_find_Some_iff)
qed

lemma first_at_unique: "first_at opens s i k \<Longrightarrow> first_at opens s i' k' \<Longrightarrow> i = i' \<and> k = k'"
  unfolding first_at_def by (metis nth_mem linorder_less_linear order_less_asym le_antisym less_imp_neq)

lemma next_open_Some_iff:
  "[] \<notin> set opens \<Longrightarrow> next_open opens s = Some (i, k) \<longleftrightarrow> first_at opens s i k"
proof
  assume ne: "[] \<notin> set opens" and f: "first_at opens s i k"
  then have "\<not> no_match opens s" unfolding first_at_def no_match_def using nth_mem by blast
  with ne obtain i' k' where n: "next_open opens s = Some (i', k')"
    using next_open_None_iff [of opens s] by fastforce
  from first_at_unique [OF next_open_Some [OF ne n] f] n show "next_open opens s = Some (i, k)" by simp
qed (rule next_open_Some)


lemma next_open_eqI:
  assumes "[] \<notin> set opens" and "\<And>i k. first_at opens s i k \<longleftrightarrow> first_at opens' s' i k" and "[] \<notin> set opens'"
    and "no_match opens s \<longleftrightarrow> no_match opens' s'"
  shows "next_open opens s = next_open opens' s'"
proof (cases "next_open opens s")
  case None
  with assms show ?thesis by (metis next_open_None_iff)
next
  case (Some a)
  with assms show ?thesis by (cases a) (metis next_open_Some_iff)
qed

subsection \<open>Matches across the end of the pending text\<close>

text \<open>
  No delimiter inside another: then the first match of a text stays the first match when text is
  appended, so a push can act on it at once.
\<close>

definition infix_free :: "ustr list \<Rightarrow> bool" where
  "infix_free opens \<longleftrightarrow> (\<forall>p\<in>set opens. \<forall>q\<in>set opens. contains_str p q \<longrightarrow> p = q)"

lemma infix_free_single [simp]: "infix_free [q]"
  by (simp add: infix_free_def)

lemma starts_with_take: "starts_with p s \<longleftrightarrow> take (length p) s = p"
  by (auto simp: starts_with_iff) (metis append_take_drop_id)

lemma contains_str_at: "starts_with p (drop i s) \<Longrightarrow> contains_str p s"
proof (induction s arbitrary: i)
  case (Cons c s)
  then show ?case by (cases i) auto
qed (cases p; simp)

lemma starts_with_append: "starts_with p (drop i s) \<Longrightarrow> starts_with p (drop i (s @ u))"
  by (auto simp: starts_with_iff)

lemma starts_with_overlap:
  assumes "starts_with q (drop j (s @ u))" and "\<not> starts_with q (drop j s)" and "j \<le> length s"
  shows "length s < j + length q" and "drop j s = take (length s - j) q"
proof -
  from assms(1) have t: "take (length q) (drop j s @ u) = q" using assms(3) by (simp add: starts_with_take)
  show l: "length s < j + length q"
  proof (rule ccontr)
    assume "\<not> length s < j + length q"
    with t have "take (length q) (drop j s) = q" by simp
    with assms(2) show False by (simp add: starts_with_take)
  qed
  from t have "take (length s - j) (take (length q) (drop j s @ u)) = take (length s - j) q" by simp
  with l show "drop j s = take (length s - j) q" by (simp add: min_def)
qed

lemma match_inside:
  assumes p: "starts_with p (drop i s)" and q: "starts_with q (drop j (s @ u))"
    and "j \<le> i" "i \<le> length s" "p \<noteq> []" "length s < j + length q"
  shows "starts_with p (drop (i - j) q)"
proof -
  from p \<open>p \<noteq> []\<close> have l: "i + length p \<le> length s" using starts_with_drop_bound by blast
  from q have "take (length q) (drop j (s @ u)) = q" by (simp add: starts_with_take)
  then have "drop (i - j) q = drop (i - j) (take (length q) (drop j (s @ u)))" by simp
  also have "\<dots> = take (length q - (i - j)) (drop i (s @ u))"
    using \<open>j \<le> i\<close> by (simp add: drop_take del: drop_append)
  finally have "take (length p) (drop (i - j) q) = take (length p) (drop i (s @ u))"
    using l assms(3,6) by (simp add: min_def del: drop_append)
  with starts_with_append [OF p] show ?thesis by (simp add: starts_with_take)
qed

lemma first_at_append:
  assumes f: "first_at opens s i k" and free: "infix_free opens" and ne: "[] \<notin> set opens"
  shows "first_at opens (s @ u) i k"
proof -
  let ?p = "opens ! k"
  from f have k: "k < length opens" and p: "starts_with ?p (drop i s)" and pm: "?p \<in> set opens"
    by (auto simp: first_at_def)
  from pm ne have pne: "?p \<noteq> []" by metis
  with p have il: "i + length ?p \<le> length s" using starts_with_drop_bound by blast
  have new: "starts_with q (drop j s)" if q: "starts_with q (drop j (s @ u))" and "j \<le> i" and qm: "q \<in> set opens" for j q
  proof (rule ccontr)
    assume n: "\<not> starts_with q (drop j s)"
    from starts_with_overlap [OF q n] il \<open>j \<le> i\<close> have l: "length s < j + length q" by simp
    from match_inside [OF p q \<open>j \<le> i\<close> _ pne l] il have "starts_with ?p (drop (i - j) q)" by simp
    then have "?p = q" using free qm pm contains_str_at unfolding infix_free_def by blast
    with l il \<open>j \<le> i\<close> show False by simp
  qed
  have "\<not> starts_with q (drop j (s @ u))" if "j < i" "q \<in> set opens" for j q
    using new [of q j] that f by (auto simp: first_at_def)
  moreover have "starts_with (opens ! k') (drop i s)" if "k' < length opens" "starts_with (opens ! k') (drop i (s @ u))" for k'
    using new [of "opens ! k'" i] that by simp
  ultimately show ?thesis using f starts_with_append [OF p] unfolding first_at_def by blast
qed

subsection \<open>The kept suffix\<close>

lemma find_rev_upt:
  "find P (rev [1..<Suc m]) = Some k \<longleftrightarrow> 1 \<le> k \<and> k \<le> m \<and> P k \<and> (\<forall>k'. k < k' \<and> k' \<le> m \<longrightarrow> \<not> P k')"
proof (induction m)
  case (Suc m)
  have "rev [1..<Suc (Suc m)] = Suc m # rev [1..<Suc m]" by simp
  then show ?case using Suc by (cases "P (Suc m)") (auto simp: le_Suc_eq simp del: upt_Suc)
qed simp

lemma find_rev_upt_None: "find P (rev [1..<Suc m]) = None \<longleftrightarrow> (\<forall>k. 1 \<le> k \<and> k \<le> m \<longrightarrow> \<not> P k)"
  by (auto simp: find_None_iff simp del: upt_Suc)

definition cut_off :: "ustr list \<Rightarrow> ustr \<Rightarrow> nat \<Rightarrow> bool" where
  "cut_off opens s k \<longleftrightarrow> k = 0 \<or> (\<exists>q\<in>set opens. k \<le> length s \<and> k < length q \<and> ends_with (take k q) s)"

lemma longest_suffix_prefix_len_is:
  assumes "q \<noteq> []"
  shows "cut_off [q] s (longest_suffix_prefix_len s q) \<and>
    (\<forall>k. cut_off [q] s k \<longrightarrow> k \<le> longest_suffix_prefix_len s q)"
proof -
  let ?P = "\<lambda>k. ends_with (take k q) s" and ?m = "min (length s) (length q - 1)"
  have m: "k \<le> ?m \<longleftrightarrow> k \<le> length s \<and> k < length q" for k using assms by (cases q) auto
  show ?thesis
  proof (cases "find ?P (rev [1..<Suc ?m])")
    case None
    then have l: "longest_suffix_prefix_len s q = 0"
      by (simp add: longest_suffix_prefix_len_def del: upt_Suc)
    from None [unfolded find_rev_upt_None m] have "k = 0" if "cut_off [q] s k" for k
      using that by (cases k) (auto simp: cut_off_def)
    then show ?thesis unfolding l by (auto simp: cut_off_def)
  next
    case (Some k)
    then have l: "longest_suffix_prefix_len s q = k"
      by (simp add: longest_suffix_prefix_len_def del: upt_Suc)
    from Some [unfolded find_rev_upt m] show ?thesis unfolding l
      by (auto simp: cut_off_def) (meson not_le_imp_less)+
  qed
qed

lemma cut_off_Cons: "cut_off (q # opens) s k \<longleftrightarrow> cut_off [q] s k \<or> cut_off opens s k"
  by (auto simp: cut_off_def)

lemma max_suffix_len_Max:
  "opens \<noteq> [] \<Longrightarrow> max_suffix_len opens s = Max (longest_suffix_prefix_len s ` set opens)"
  by (cases opens) (simp_all add: max_suffix_len_def Max.set_eq_fold [symmetric])

lemma max_suffix_len_is:
  assumes "[] \<notin> set opens"
  shows "cut_off opens s (max_suffix_len opens s) \<and> (\<forall>k. cut_off opens s k \<longrightarrow> k \<le> max_suffix_len opens s)"
proof (cases "opens = []")
  case True
  then show ?thesis by (simp add: max_suffix_len_def cut_off_def)
next
  case False
  let ?l = "longest_suffix_prefix_len s"
  from False have M: "max_suffix_len opens s = Max (?l ` set opens)" by (rule max_suffix_len_Max)
  from False have "Max (?l ` set opens) \<in> ?l ` set opens" by (intro Max_in) auto
  with M obtain q where q: "q \<in> set opens" "max_suffix_len opens s = ?l q" by auto
  have ub: "?l q' \<le> max_suffix_len opens s" if "q' \<in> set opens" for q'
    using that M by simp
  have one: "cut_off opens s k \<longleftrightarrow> k = 0 \<or> (\<exists>q\<in>set opens. cut_off [q] s k)" for k
    by (auto simp: cut_off_def)
  from assms have "\<forall>q\<in>set opens. q \<noteq> []" by metis
  with longest_suffix_prefix_len_is one q ub show ?thesis by (metis le_trans le0)
qed

lemma cut_off_le: "cut_off opens s k \<Longrightarrow> k \<le> length s"
  by (auto simp: cut_off_def)

lemma cut_off_iff: "cut_off opens s k \<longleftrightarrow>
    k = 0 \<or> (\<exists>q\<in>set opens. k \<le> length s \<and> k < length q \<and> take k q = drop (length s - k) s)"
proof -
  have "ends_with (take k q) s \<longleftrightarrow> take k q = drop (length s - k) s" if "k \<le> length s" "k < length q" for q
    using that by (auto simp: ends_with_iff) (metis append_take_drop_id)
  then show ?thesis by (auto simp: cut_off_def)
qed

subsection \<open>Appending to a text without a match\<close>

lemma no_early_match:
  assumes nm: "no_match opens s" and ne: "[] \<notin> set opens" and q: "q \<in> set opens"
    and j: "j < length s - max_suffix_len opens s"
  shows "\<not> starts_with q (drop j (s @ u))"
proof
  assume sw: "starts_with q (drop j (s @ u))"
  from nm q have "\<not> starts_with q (drop j s)" by (simp add: no_match_def)
  with sw j have o: "length s < j + length q" "drop j s = take (length s - j) q"
    using starts_with_overlap [of q j s u] by simp_all
  have "cut_off opens s (length s - j)"
    unfolding cut_off_iff using o q j by (auto intro!: bexI [of _ q])
  with max_suffix_len_is [OF ne] have "length s - j \<le> max_suffix_len opens s" by blast
  with j show False by simp
qed

lemma drop_kept:
  fixes s u :: ustr
  assumes d: "d = length s - max_suffix_len opens s"
  shows "drop j (drop d s @ u) = drop (j + d) (s @ u)"
  using d by (metis drop_append drop_drop diff_is_0_eq diff_le_self drop0)

lemma next_open_after:
  assumes nm: "no_match opens s" and ne: "[] \<notin> set opens"
    and d: "d = length s - max_suffix_len opens s"
  shows "next_open opens (s @ u) = map_option (\<lambda>(i, k). (i + d, k)) (next_open opens (drop d s @ u))"
proof -
  have nm': "no_match opens (s @ u) \<longleftrightarrow> no_match opens (drop d s @ u)"
    unfolding no_match_def drop_kept [OF d]
    using no_early_match [OF nm ne] d by (metis le_add_diff_inverse2 not_less)
  have f: "first_at opens (s @ u) (i + d) k" if "first_at opens (drop d s @ u) i k" for i k
  proof -
    have "\<not> starts_with q (drop j (s @ u))" if j: "j < i + d" and q: "q \<in> set opens" for j q
    proof (cases "j < d")
      case True
      then show ?thesis using no_early_match [OF nm ne q] d by simp
    next
      case False
      with j \<open>first_at opens (drop d s @ u) i k\<close> q have "\<not> starts_with q (drop (j - d) (drop d s @ u))"
        by (auto simp: first_at_def simp del: drop_append)
      with False show ?thesis by (simp add: drop_kept [OF d] del: drop_append)
    qed
    with that show ?thesis by (auto simp: first_at_def drop_kept [OF d] simp del: drop_append)
  qed
  show ?thesis
  proof (cases "next_open opens (drop d s @ u)")
    case None
    with nm' ne have "next_open opens (s @ u) = None" by (simp add: next_open_None_iff)
    with None show ?thesis by simp
  next
    case (Some a)
    then obtain i k where ik: "next_open opens (drop d s @ u) = Some (i, k)" by (cases a) simp
    with ne have "first_at opens (drop d s @ u) i k" by (simp add: next_open_Some_iff)
    from f [OF this] ne have "next_open opens (s @ u) = Some (i + d, k)" by (simp add: next_open_Some_iff)
    with ik show ?thesis by simp
  qed
qed

lemma cut_off_after:
  assumes ne: "[] \<notin> set opens" and d: "d = length s - max_suffix_len opens s"
  shows "cut_off opens (drop d s @ u) k \<longleftrightarrow> cut_off opens (s @ u) k"
proof
  assume c: "cut_off opens (s @ u) k"
  show "cut_off opens (drop d s @ u) k"
  proof (cases "k = 0")
    case False
    with c obtain q where q: "q \<in> set opens" "k \<le> length (s @ u)" "k < length q"
        and t: "take k q = drop (length (s @ u) - k) (s @ u)"
      unfolding cut_off_iff by blast
    have "k \<le> length (drop d s @ u)"
    proof (cases "k \<le> length u")
      case False
      let ?k = "k - length u"
      have "take ?k q = take ?k (take k q)" by (simp add: min_def)
      also have "\<dots> = drop (length s - ?k) s" unfolding t using False q(2) by simp
      finally have "cut_off opens s ?k"
        unfolding cut_off_iff using q False by (auto intro!: bexI [of _ q])
      with max_suffix_len_is [OF ne] have "?k \<le> max_suffix_len opens s" by blast
      then show ?thesis using d False q(2) by (simp add: min_def) 
    qed simp
    moreover have "drop (length (drop d s @ u) - k) (drop d s @ u) = take k q"
    proof -
      from \<open>k \<le> length (drop d s @ u)\<close> d have "length (drop d s @ u) - k + d = length (s @ u) - k" by simp
      then show ?thesis unfolding drop_kept [OF d] t by (rule arg_cong)
    qed
    ultimately show ?thesis unfolding cut_off_iff using q by metis
  qed (simp add: cut_off_def)
next
  assume c: "cut_off opens (drop d s @ u) k"
  then have "k \<le> length (s @ u)" using cut_off_le [OF c] by simp
  moreover have "ends_with p (drop d s @ u) \<Longrightarrow> ends_with p (s @ u)" for p
    by (metis append.assoc append_take_drop_id ends_with_iff)
  ultimately show "cut_off opens (s @ u) k" using c unfolding cut_off_def by blast
qed

lemma max_suffix_len_after:
  assumes ne: "[] \<notin> set opens" and d: "d = length s - max_suffix_len opens s"
  shows "max_suffix_len opens (drop d s @ u) = max_suffix_len opens (s @ u)"
  using max_suffix_len_is [OF ne] cut_off_after [OF assms] by (metis le_antisym)

text \<open>The search for one closing delimiter is the search for openers with that one.\<close>

lemma str_find_single: "q \<noteq> [] \<Longrightarrow> next_open [q] s = map_option (\<lambda>i. (i, 0)) (str_find q s)"
proof -
  assume q: "q \<noteq> []"
  show ?thesis
  proof (cases "str_find q s")
    case None
    with q have "next_open [q] s = None" by (simp add: next_open_None_iff no_match_def str_find_None_iff)
    with None show ?thesis by simp
  next
    case (Some i)
    with q have "next_open [q] s = Some (i, 0)"
      by (simp add: next_open_Some_iff first_at_def str_find_Some_iff)
    with Some show ?thesis by simp
  qed
qed

lemma max_suffix_len_single [simp]: "max_suffix_len [q] s = longest_suffix_prefix_len s q"
  by (simp add: max_suffix_len_def)

lemma max_suffix_len_le: "[] \<notin> set opens \<Longrightarrow> max_suffix_len opens s \<le> length s"
  using max_suffix_len_is cut_off_le by blast

end
