(* ===== verification/Inline_Tags.thy ===== *)
theory Inline_Tags
  imports Stream_Text Tag_Search
begin

section \<open>Hidden inline tags (utils/stream-parser/src/inline_hidden_tag.rs)\<close>

text \<open>
  The streaming parser that hides configured inline tags and extracts their contents: its specs,
  the text not decided yet and the open tag are the state, the loop of \<open>push_str\<close> is iterated
  by \<open>inline_loop\<close>. Positions are counted in characters where the code counts bytes of UTF-8;
  lengths that the code compares are byte lengths (\<open>str_len\<close>). The loop does not return when an
  opener and its closer are both empty; the constructor rejects those.
\<close>

record 'a inline_tag_spec =
  spec_tag :: 'a
  spec_open :: ustr
  spec_close :: ustr

record 'a extracted_inline_tag =
  extracted_tag :: 'a
  extracted_content :: ustr

record 'a active_tag =
  active_tag :: 'a
  active_close :: ustr
  active_content :: ustr

record 'a inline_parser =
  specs :: "'a inline_tag_spec list"
  pending :: ustr
  active :: "'a active_tag option"

text \<open>The asserts of \<open>new\<close> panic (\<open>None\<close>).\<close>

definition inline_new :: "'a inline_tag_spec list \<Rightarrow> 'a inline_parser option" where
  "inline_new ss =
    (if ss \<noteq> [] \<and> list_all (\<lambda>s. spec_open s \<noteq> [] \<and> spec_close s \<noteq> []) ss
     then Some \<lparr>specs = ss, pending = [], active = None\<rparr> else None)"

subsection \<open>Searching the pending text\<close>

definition find_next_open :: "'a inline_parser \<Rightarrow> (nat \<times> nat) option" where
  "find_next_open p = next_open (map spec_open (specs p)) (pending p)"

definition max_open_prefix_suffix_len :: "'a inline_parser \<Rightarrow> nat" where
  "max_open_prefix_suffix_len p = max_suffix_len (map spec_open (specs p)) (pending p)"

subsection \<open>Pushing and finishing\<close>

definition push_visible_prefix :: "'e stream_chunk \<Rightarrow> ustr \<Rightarrow> 'e stream_chunk" where
  "push_visible_prefix out s = (if s \<noteq> [] then out\<lparr>visible_text := visible_text out @ s\<rparr> else out)"

definition drain_visible_to_suffix_match ::
    "'a inline_parser \<Rightarrow> 'e stream_chunk \<Rightarrow> nat \<Rightarrow> 'e stream_chunk \<times> 'a inline_parser" where
  "drain_visible_to_suffix_match p out keep_suffix_len =
    (let taken = length (pending p) - keep_suffix_len in
     if taken = 0 then (out, p)
     else (push_visible_prefix out (take taken (pending p)), p\<lparr>pending := drop taken (pending p)\<rparr>))"

datatype 'a inline_flow =
    Again "'a extracted_inline_tag stream_chunk" "'a inline_parser"
  | Done "'a extracted_inline_tag stream_chunk" "'a inline_parser"

text \<open>One round of the loop of \<open>push_str\<close>: \<open>continue\<close> or \<open>break\<close>.\<close>

definition inline_step :: "'a inline_parser \<Rightarrow> 'a extracted_inline_tag stream_chunk \<Rightarrow> 'a inline_flow" where
  "inline_step p out = (case active p of
     Some a \<Rightarrow>
      (case str_find (active_close a) (pending p) of
         Some close_idx \<Rightarrow>
           Again (out\<lparr>extracted := extracted out @
                   [\<lparr>extracted_tag = active_tag a,
                     extracted_content = active_content a @ take close_idx (pending p)\<rparr>]\<rparr>)
                 (p\<lparr>pending := drop (close_idx + length (active_close a)) (pending p), active := None\<rparr>)
       | None \<Rightarrow>
          (let keep = longest_suffix_prefix_len (pending p) (active_close a);
               taken = length (pending p) - keep
           in if taken > 0
              then Done out (p\<lparr>pending := drop taken (pending p),
                     active := Some (a\<lparr>active_content := active_content a @ take taken (pending p)\<rparr>)\<rparr>)
              else Done out p))
   | None \<Rightarrow>
      (case find_next_open p of
         Some (open_idx, spec_idx) \<Rightarrow>
          (let spec = specs p ! spec_idx in
           Again (push_visible_prefix out (take open_idx (pending p)))
             (p\<lparr>pending := drop (open_idx + length (spec_open spec)) (pending p),
                active := Some \<lparr>active_tag = spec_tag spec, active_close = spec_close spec,
                                active_content = []\<rparr>\<rparr>))
       | None \<Rightarrow>
          (case drain_visible_to_suffix_match p out (max_open_prefix_suffix_len p) of
             (out', p') \<Rightarrow> Done out' p')))"

partial_function (option) inline_loop ::
    "'a inline_parser \<Rightarrow> 'a extracted_inline_tag stream_chunk \<Rightarrow>
     ('a extracted_inline_tag stream_chunk \<times> 'a inline_parser) option" where
  "inline_loop p out =
    (case inline_step p out of Again out' p' \<Rightarrow> inline_loop p' out' | Done out' p' \<Rightarrow> Some (out', p'))"

declare inline_loop.simps [code]

definition inline_push_str ::
    "'a inline_parser \<Rightarrow> ustr \<Rightarrow> ('a extracted_inline_tag stream_chunk \<times> 'a inline_parser) option" where
  "inline_push_str p chunk = inline_loop (p\<lparr>pending := pending p @ chunk\<rparr>) chunk_default"

definition inline_finish :: "'a inline_parser \<Rightarrow> 'a extracted_inline_tag stream_chunk \<times> 'a inline_parser" where
  "inline_finish p = (case active p of
     Some a \<Rightarrow>
      (\<lparr>visible_text = [],
        extracted = [\<lparr>extracted_tag = active_tag a, extracted_content = active_content a @ pending p\<rparr>]\<rparr>,
       p\<lparr>pending := [], active := None\<rparr>)
   | None \<Rightarrow> (\<lparr>visible_text = pending p, extracted = []\<rparr>, p\<lparr>pending := []\<rparr>))"

subsection \<open>The round of the loop by what is searched for\<close>

definition targets :: "'a inline_parser \<Rightarrow> ustr list" where
  "targets p = (case active p of Some a \<Rightarrow> [active_close a] | None \<Rightarrow> map spec_open (specs p))"

definition inline_wf :: "'a inline_parser \<Rightarrow> bool" where
  "inline_wf p \<longleftrightarrow> specs p \<noteq> [] \<and> list_all (\<lambda>s. spec_open s \<noteq> [] \<and> spec_close s \<noteq> []) (specs p) \<and>
     (case active p of Some a \<Rightarrow> active_close a \<noteq> [] | None \<Rightarrow> True)"

definition inline_free :: "'a inline_parser \<Rightarrow> bool" where
  "inline_free p \<longleftrightarrow> infix_free (map spec_open (specs p))"

definition feed :: "'a inline_parser \<Rightarrow> ustr \<Rightarrow> 'a inline_parser" where
  "feed p u = p\<lparr>pending := pending p @ u\<rparr>"

definition match_out :: "'a inline_parser \<Rightarrow> nat \<Rightarrow> 'a extracted_inline_tag stream_chunk" where
  "match_out p i = (case active p of
     Some a \<Rightarrow> \<lparr>visible_text = [], extracted = [\<lparr>extracted_tag = active_tag a,
                 extracted_content = active_content a @ take i (pending p)\<rparr>]\<rparr>
   | None \<Rightarrow> \<lparr>visible_text = take i (pending p), extracted = []\<rparr>)"

definition match_state :: "'a inline_parser \<Rightarrow> nat \<Rightarrow> nat \<Rightarrow> 'a inline_parser" where
  "match_state p i k = p\<lparr>pending := drop (i + length (targets p ! k)) (pending p),
     active := (case active p of Some _ \<Rightarrow> None
       | None \<Rightarrow> Some \<lparr>active_tag = spec_tag (specs p ! k), active_close = spec_close (specs p ! k),
                        active_content = []\<rparr>)\<rparr>"

definition skip_out :: "'a inline_parser \<Rightarrow> nat \<Rightarrow> 'a extracted_inline_tag stream_chunk" where
  "skip_out p d = (case active p of Some _ \<Rightarrow> chunk_default
     | None \<Rightarrow> \<lparr>visible_text = take d (pending p), extracted = []\<rparr>)"

definition skip_state :: "'a inline_parser \<Rightarrow> nat \<Rightarrow> 'a inline_parser" where
  "skip_state p d = p\<lparr>pending := drop d (pending p),
     active := map_option (\<lambda>a. a\<lparr>active_content := active_content a @ take d (pending p)\<rparr>) (active p)\<rparr>"

definition surplus :: "'a inline_parser \<Rightarrow> nat" where
  "surplus p = length (pending p) - max_suffix_len (targets p) (pending p)"

lemma targets_ne: "inline_wf p \<Longrightarrow> [] \<notin> set (targets p)"
  by (auto simp: inline_wf_def targets_def list_all_iff split: option.splits)

lemma targets_free: "inline_free p \<Longrightarrow> infix_free (targets p)"
  by (auto simp: inline_free_def targets_def split: option.splits)

lemma feed_simps [simp]:
  "active (feed p u) = active p" "specs (feed p u) = specs p" "pending (feed p u) = pending p @ u"
  "targets (feed p u) = targets p" "inline_wf (feed p u) = inline_wf p" "inline_free (feed p u) = inline_free p" "feed p [] = p"
  "feed (feed p u) v = feed p (u @ v)"
  by (simp_all add: feed_def targets_def inline_wf_def inline_free_def cong: option.case_cong)

lemma push_visible_prefix_append:
  "push_visible_prefix out s = chunk_append out \<lparr>visible_text = s, extracted = []\<rparr>"
  by (cases out) (simp add: push_visible_prefix_def chunk_append_def)

lemma same_active: "active p = a \<Longrightarrow> p\<lparr>pending := x, active := a\<rparr> = p\<lparr>pending := x\<rparr>"
  by (cases p) simp

lemma same_pending [simp]: "p\<lparr>pending := pending p\<rparr> = p"
  by (cases p) simp

lemma inline_step_closed:
  assumes wf: "inline_wf p" and a: "active p = None"
  shows "inline_step p out = (case next_open (targets p) (pending p) of
      Some (i, k) \<Rightarrow> Again (chunk_append out (match_out p i)) (match_state p i k)
    | None \<Rightarrow> Done (chunk_append out (skip_out p (surplus p))) (skip_state p (surplus p)))"
proof -
  from a have t: "targets p = map spec_open (specs p)" by (simp add: targets_def)
  show ?thesis
  proof (cases "next_open (targets p) (pending p)")
    case None
    define d where "d = surplus p"
    have "drain_visible_to_suffix_match p out (max_open_prefix_suffix_len p) =
        (chunk_append out (skip_out p d), skip_state p d)"
      using a by (simp add: drain_visible_to_suffix_match_def max_open_prefix_suffix_len_def Let_def
          skip_out_def skip_state_def push_visible_prefix_append same_active flip: t surplus_def d_def chunk_default_def)
    with None show ?thesis by (simp add: inline_step_def a find_next_open_def d_def flip: t)
  next
    case (Some ik)
    then obtain i k where ik: "next_open (targets p) (pending p) = Some (i, k)" by (cases ik) simp
    then have "k < length (specs p)"
      using next_open_Some [OF targets_ne [OF wf]] by (auto simp: first_at_def t)
    then have "match_state p i k = p\<lparr>pending := drop (i + length (spec_open (specs p ! k))) (pending p),
        active := Some \<lparr>active_tag = spec_tag (specs p ! k), active_close = spec_close (specs p ! k), active_content = []\<rparr>\<rparr>"
      by (simp add: match_state_def t a)
    with ik show ?thesis
      by (simp add: inline_step_def a find_next_open_def match_out_def push_visible_prefix_append Let_def flip: t)
  qed
qed

lemma inline_step_open:
  assumes wf: "inline_wf p" and a: "active p = Some a"
  shows "inline_step p out = (case next_open (targets p) (pending p) of
      Some (i, k) \<Rightarrow> Again (chunk_append out (match_out p i)) (match_state p i k)
    | None \<Rightarrow> Done (chunk_append out (skip_out p (surplus p))) (skip_state p (surplus p)))"
proof -
  from wf a have t: "targets p = [active_close a]" and ne: "active_close a \<noteq> []"
    by (simp_all add: targets_def inline_wf_def)
  show ?thesis
  proof (cases "str_find (active_close a) (pending p)")
    case None
    have "p = p\<lparr>active := Some a\<rparr>" using a by (cases p) simp
    moreover have "a = a\<lparr>active_content := active_content a\<rparr>" by (cases a) simp
    ultimately
    show ?thesis using None a ne
      by (simp add: inline_step_def t str_find_single surplus_def skip_out_def skip_state_def Let_def)
  next
    case (Some i)
    with a ne show ?thesis
      by (simp add: inline_step_def t str_find_single match_out_def match_state_def)
  qed
qed

lemma inline_step_eq:
  "inline_wf p \<Longrightarrow> inline_step p out = (case next_open (targets p) (pending p) of
      Some (i, k) \<Rightarrow> Again (chunk_append out (match_out p i)) (match_state p i k)
    | None \<Rightarrow> Done (chunk_append out (skip_out p (surplus p))) (skip_state p (surplus p)))"
  by (cases "active p") (rule inline_step_closed, assumption+, rule inline_step_open)

lemma match_bound:
  assumes "inline_wf p" and "next_open (targets p) (pending p) = Some (i, k)"
  shows "i + length (targets p ! k) \<le> length (pending p) \<and> targets p ! k \<noteq> [] \<and> k < length (targets p)"
proof -
  from next_open_Some [OF targets_ne [OF assms(1)] assms(2)]
  have k: "k < length (targets p)" "starts_with (targets p ! k) (drop i (pending p))" by (auto simp: first_at_def)
  with targets_ne [OF assms(1)] show ?thesis using starts_with_drop_bound nth_mem by metis
qed

lemma match_state_wf:
  assumes "inline_wf p" and "next_open (targets p) (pending p) = Some (i, k)"
  shows "inline_wf (match_state p i k) \<and> length (pending (match_state p i k)) < length (pending p)"
proof
  from match_bound [OF assms] show "length (pending (match_state p i k)) < length (pending p)"
    by (cases "targets p ! k") (auto simp: match_state_def)
  from match_bound [OF assms] assms(1) show "inline_wf (match_state p i k)"
    by (cases "active p") (auto simp: inline_wf_def match_state_def targets_def list_all_length)
qed

lemma skip_state_targets [simp]: "targets (skip_state p d) = targets p"
  by (simp add: targets_def skip_state_def split: option.splits)

lemma skip_state_wf [simp]: "inline_wf (skip_state p d) = inline_wf p"
  by (auto simp: inline_wf_def skip_state_def split: option.splits)

lemma skip_state_pending [simp]: "pending (skip_state p d) = drop d (pending p)"
  by (simp add: skip_state_def)

lemma surplus_le [simp]: "surplus p \<le> length (pending p)"
  by (simp add: surplus_def)

text \<open>A match found before text is appended stays; without one, skipping first changes nothing.\<close>

lemma match_feed:
  assumes "inline_wf p" and "next_open (targets p) (pending p) = Some (i, k)" and "inline_free p"
  shows "next_open (targets p) (pending p @ u) = Some (i, k)"
    and "match_out (feed p u) i = match_out p i"
    and "match_state (feed p u) i k = feed (match_state p i k) u"
proof -
  from targets_ne [OF assms(1)] next_open_Some [OF targets_ne [OF assms(1)] assms(2)] targets_free [OF assms(3)]
  show "next_open (targets p) (pending p @ u) = Some (i, k)"
    by (simp add: next_open_Some_iff first_at_append)
  from match_bound [OF assms(1,2)] show "match_out (feed p u) i = match_out p i"
    and "match_state (feed p u) i k = feed (match_state p i k) u"
    by (auto simp: match_out_def match_state_def intro!: inline_parser.equality split: option.splits)
qed

lemma match_skip:
  assumes "d \<le> length (pending p)"
  shows "match_out (feed p u) (i + d) = chunk_append (skip_out p d) (match_out (feed (skip_state p d) u) i)"
    and "match_state (feed p u) (i + d) k = match_state (feed (skip_state p d) u) i k"
proof -
  have t: "take (i + d) (pending p @ u) = take d (pending p) @ take i (drop d (pending p) @ u)"
    using assms by (simp add: take_add add.commute [of i])
  have "drop (i + d + n) (pending p @ u) = drop (i + n) (drop d (pending p) @ u)" for n
    using assms by (simp add: algebra_simps)
  then show "match_state (feed p u) (i + d) k = match_state (feed (skip_state p d) u) i k"
    by (intro inline_parser.equality) (simp_all add: match_state_def, simp_all add: skip_state_def split: option.splits)
  show "match_out (feed p u) (i + d) = chunk_append (skip_out p d) (match_out (feed (skip_state p d) u) i)"
    using t by (cases "active p") (simp_all add: match_out_def skip_out_def chunk_append_def skip_state_def chunk_default_def)
qed

lemma skip_skip:
  assumes "d \<le> length (pending p)"
  shows "skip_out (feed p u) (i + d) = chunk_append (skip_out p d) (skip_out (feed (skip_state p d) u) i)"
    and "skip_state (feed p u) (i + d) = skip_state (feed (skip_state p d) u) i"
proof -
  have t: "take (i + d) (pending p @ u) = take d (pending p) @ take i (drop d (pending p) @ u)"
    using assms by (simp add: take_add add.commute [of i])
  have "drop (i + d) (pending p @ u) = drop i (drop d (pending p) @ u)"
    using assms by (simp add: algebra_simps)
  with t show "skip_state (feed p u) (i + d) = skip_state (feed (skip_state p d) u) i"
    by (intro inline_parser.equality) (simp_all add: skip_state_def option.map_comp comp_def)
  show "skip_out (feed p u) (i + d) = chunk_append (skip_out p d) (skip_out (feed (skip_state p d) u) i)"
    using t by (cases "active p") (simp_all add: skip_out_def chunk_append_def skip_state_def chunk_default_def)
qed


subsection \<open>The loop\<close>

definition settled :: "'a inline_parser \<Rightarrow> bool" where
  "settled p \<longleftrightarrow> next_open (targets p) (pending p) = None \<and> surplus p = 0"

definition inline_ok :: "'a inline_parser \<Rightarrow> bool" where
  "inline_ok p \<longleftrightarrow> inline_wf p \<and> inline_free p \<and> settled p"

lemma skip_state_0 [simp]: "skip_state p 0 = p"
  by (cases p) (auto simp: skip_state_def option.map_ident)

lemma skip_out_0 [simp]: "skip_out p 0 = chunk_default"
  by (simp add: skip_out_def chunk_default_def split: option.splits)

lemma inline_loop_match:
  "\<lbrakk>inline_wf p; next_open (targets p) (pending p) = Some (i, k)\<rbrakk> \<Longrightarrow>
    inline_loop p out = inline_loop (match_state p i k) (chunk_append out (match_out p i))"
  by (subst inline_loop.simps) (simp add: inline_step_eq)

lemma inline_loop_skip:
  "\<lbrakk>inline_wf p; next_open (targets p) (pending p) = None\<rbrakk> \<Longrightarrow>
    inline_loop p out = Some (chunk_append out (skip_out p (surplus p)), skip_state p (surplus p))"
  by (subst inline_loop.simps) (simp add: inline_step_eq)

text \<open>Induction along the rounds of the loop.\<close>

lemma inline_rounds [consumes 1, case_names match skip]:
  assumes "inline_wf p"
    and "\<And>p i k. \<lbrakk>inline_wf p; next_open (targets p) (pending p) = Some (i, k); P (match_state p i k)\<rbrakk> \<Longrightarrow> P p"
    and "\<And>p. \<lbrakk>inline_wf p; next_open (targets p) (pending p) = None\<rbrakk> \<Longrightarrow> P p"
  shows "P p"
  using assms(1)
proof (induction "length (pending p)" arbitrary: p rule: less_induct)
  case less
  show ?case
  proof (cases "next_open (targets p) (pending p)")
    case None
    with less.prems assms(3) show ?thesis by blast
  next
    case (Some ik)
    then obtain i k where ik: "next_open (targets p) (pending p) = Some (i, k)" by (cases ik) simp
    from match_state_wf [OF less.prems ik] less.hyps have "P (match_state p i k)" by blast
    with less.prems ik assms(2) show ?thesis by blast
  qed
qed

lemma settled_skip:
  assumes wf: "inline_wf p" and n: "next_open (targets p) (pending p) = None"
  shows "settled (skip_state p (surplus p))"
proof -
  note ne = targets_ne [OF wf]
  let ?s = "pending p" and ?m = "max_suffix_len (targets p) (pending p)"
  from n ne have nm: "no_match (targets p) ?s" by (simp add: next_open_None_iff)
  from next_open_after [OF nm ne surplus_def, of "[]"] n
  have "next_open (targets p) (drop (surplus p) ?s) = None" by simp
  moreover have "max_suffix_len (targets p) (drop (surplus p) ?s) = ?m"
    using max_suffix_len_after [OF ne surplus_def, of "[]"] by simp
  ultimately show ?thesis
    using max_suffix_len_le [OF ne, of ?s] by (simp add: settled_def surplus_def)
qed

lemma inline_loop_returns:
  assumes "inline_wf p"
  shows "\<exists>out' p'. inline_loop p out = Some (out', p') \<and> inline_wf p' \<and> settled p' \<and> specs p' = specs p"
  using assms
proof (induction arbitrary: out rule: inline_rounds)
  case (match p i k)
  have "specs (match_state p i k) = specs p" by (simp add: match_state_def)
  with match show ?case by (metis inline_loop_match)
next
  case (skip p)
  have "specs (skip_state p (surplus p)) = specs p" by (simp add: skip_state_def)
  with skip show ?case by (simp add: inline_loop_skip settled_skip)
qed

lemma inline_loop_out:
  assumes "inline_wf p"
  shows "inline_loop p (chunk_append a b) = map_option (\<lambda>(out, p'). (chunk_append a out, p')) (inline_loop p b)"
  using assms
proof (induction arbitrary: b rule: inline_rounds)
  case (match p i k)
  then show ?case by (simp add: inline_loop_match chunk_append_assoc)
next
  case (skip p)
  then show ?case by (simp add: inline_loop_skip chunk_append_assoc)
qed

text \<open>Running, feeding the rest and running again is running on the whole.\<close>

lemma skip_feed:
  assumes wf: "inline_wf p" and n: "next_open (targets p) (pending p) = None"
  defines "d \<equiv> surplus p"
  shows "inline_loop (feed p u) out = inline_loop (feed (skip_state p d) u) (chunk_append out (skip_out p d))"
proof -
  note ne = targets_ne [OF wf]
  let ?s = "pending p" and ?q = "feed (skip_state p d) u"
  have dl: "d \<le> length ?s" by (simp add: d_def)
  from n ne have nm: "no_match (targets p) ?s" by (simp add: next_open_None_iff)
  note after = next_open_after [OF nm ne surplus_def, of u, folded d_def]
  have wq: "inline_wf ?q" "inline_wf (feed p u)" using wf by simp_all
  show ?thesis
  proof (cases "next_open (targets p) (drop d ?s @ u)")
    case None
    with after have "next_open (targets p) (?s @ u) = None" by simp
    moreover have "surplus (feed p u) = surplus ?q + d"
      using max_suffix_len_after [OF ne surplus_def, of u, folded d_def] max_suffix_len_le [OF ne, of "drop d ?s @ u"] dl
      by (simp add: surplus_def)
    ultimately show ?thesis using None wq
      by (simp add: inline_loop_skip skip_skip [OF dl] chunk_append_assoc)
  next
    case (Some ik)
    then obtain i k where ik: "next_open (targets p) (drop d ?s @ u) = Some (i, k)" by (cases ik) simp
    with after have "next_open (targets p) (?s @ u) = Some (i + d, k)" by simp
    with wq have "inline_loop (feed p u) out =
        inline_loop (match_state (feed p u) (i + d) k) (chunk_append out (match_out (feed p u) (i + d)))"
      by (simp add: inline_loop_match)
    moreover from ik wq have "inline_loop ?q (chunk_append out (skip_out p d)) =
        inline_loop (match_state ?q i k) (chunk_append (chunk_append out (skip_out p d)) (match_out ?q i))"
      by (simp add: inline_loop_match)
    ultimately show ?thesis by (simp add: match_skip [OF dl] chunk_append_assoc)
  qed
qed

lemma inline_loop_feed:
  assumes "inline_wf p" and "inline_free p" and "inline_loop p out = Some (o1, p1)"
  shows "inline_loop (feed p u) out = inline_loop (feed p1 u) o1"
  using assms
proof (induction arbitrary: out rule: inline_rounds)
  case (match p i k)
  then have "inline_loop (match_state p i k) (chunk_append out (match_out p i)) = Some (o1, p1)"
    and "inline_free (match_state p i k)"
    by (simp add: inline_loop_match) (use match.prems in \<open>simp add: inline_free_def match_state_def\<close>)
  from match.IH [OF this(2,1)] match.hyps match.prems show ?case
    using inline_loop_match [of "feed p u" i k out] by (simp add: match_feed)
next
  case (skip p)
  then show ?case using skip_feed [of p u out] by (simp add: inline_loop_skip)
qed

subsection \<open>The contract\<close>

lemma inline_push_feed: "inline_push_str p chunk = inline_loop (feed p chunk) chunk_default"
  by (simp add: inline_push_str_def feed_def)

lemma inline_push_append:
  assumes "inline_ok p" "inline_push_str p t = Some (o1, p1)" "inline_push_str p1 u = Some (o2, p2)"
  shows "inline_push_str p (t @ u) = Some (chunk_append o1 o2, p2)"
proof -
  from assms(1,2) obtain o' p' where "inline_loop (feed p t) chunk_default = Some (o', p')" "inline_wf p'"
    using inline_loop_returns [of "feed p t" chunk_default] by (auto simp: inline_ok_def)
  with assms(2) have p1: "inline_wf p1" by (simp add: inline_push_feed)
  from assms(1,2) have "inline_loop (feed (feed p t) u) chunk_default = inline_loop (feed p1 u) o1"
    by (intro inline_loop_feed) (simp_all add: inline_push_feed inline_ok_def)
  then have "inline_push_str p (t @ u) = inline_loop (feed p1 u) (chunk_append o1 chunk_default)"
    by (simp add: inline_push_feed)
  also have "\<dots> = Some (chunk_append o1 o2, p2)"
    using assms(3) p1 inline_loop_out [of "feed p1 u" o1 chunk_default] by (simp add: inline_push_feed)
  finally show ?thesis .
qed

interpretation inline: stream_text_parser inline_push_str inline_finish inline_ok id
proof
  fix p :: "'a inline_parser" and t
  show "inline_ok p \<Longrightarrow> inline_push_str p [] = Some (chunk_default, p)"
    by (simp add: inline_push_feed inline_ok_def settled_def inline_loop_skip)
  show "inline_ok p \<Longrightarrow> \<exists>out p'. inline_push_str p t = Some (out, p') \<and> inline_ok p'"
    using inline_loop_returns [of "feed p t" chunk_default]
    by (auto simp: inline_push_feed inline_ok_def inline_free_def)
qed (auto simp: chunk_append_assoc intro: inline_push_append)

lemma inline_new_ok:
  assumes "inline_new ss = Some p" and "infix_free (map spec_open ss)"
  shows "inline_ok p"
proof -
  from assms have wf: "inline_wf p" and p: "pending p = []" "active p = None" "specs p = ss"
    by (auto simp: inline_new_def inline_wf_def split: if_splits)
  from assms(2) p(3) have free: "inline_free p" by (simp add: inline_free_def)
  note ne = targets_ne [OF wf]
  have "no_match (targets p) []"
    using ne by (auto simp: no_match_def) (metis starts_with_Cons_Nil neq_Nil_conv)
  with wf free p ne show ?thesis by (simp add: inline_ok_def settled_def next_open_None_iff surplus_def)
qed

subsection \<open>What a text reads as\<close>

text \<open>
  The declarative reading of a whole text: up to the first opener (the longest one at that
  place, the first spec among equals) the text is visible, from there to the first closer after
  it (or to the end of the text) it is the content of a tag.
\<close>

inductive reads :: "'a inline_tag_spec list \<Rightarrow> ustr \<Rightarrow> ustr \<Rightarrow> 'a extracted_inline_tag list \<Rightarrow> bool" for ss where
  plain: "no_match (map spec_open ss) v \<Longrightarrow> reads ss v v []"
| tagged: "\<lbrakk>first_at (map spec_open ss) s (length v) k; s = v @ spec_open (ss ! k) @ r;
     str_find (spec_close (ss ! k)) r = Some (length c); r = c @ spec_close (ss ! k) @ rest;
     reads ss rest vis ext\<rbrakk> \<Longrightarrow>
     reads ss s (v @ vis) (\<lparr>extracted_tag = spec_tag (ss ! k), extracted_content = c\<rparr> # ext)"
| unclosed: "\<lbrakk>first_at (map spec_open ss) s (length v) k; s = v @ spec_open (ss ! k) @ c;
     str_find (spec_close (ss ! k)) c = None\<rbrakk> \<Longrightarrow>
     reads ss s v [\<lparr>extracted_tag = spec_tag (ss ! k), extracted_content = c\<rparr>]"

inductive_cases readsE: "reads ss s v e"

lemma first_at_not_no_match: "first_at opens s i k \<Longrightarrow> \<not> no_match opens s"
  unfolding first_at_def no_match_def using nth_mem by blast

lemma reads_deterministic: "reads ss s v e \<Longrightarrow> reads ss s v' e' \<Longrightarrow> v = v' \<and> e = e'"
proof (induction arbitrary: v' e' rule: reads.induct)
  case (plain v)
  then show ?case by (auto elim: readsE dest: first_at_not_no_match)
next
  case (tagged s v k r c rest vis ext)
  note f = tagged.hyps(1) and s = tagged.hyps(2) and j = tagged.hyps(3) and r = tagged.hyps(4) and ih = tagged.IH
  from tagged.prems show ?case
  proof (cases rule: reads.cases)
    case plain
    with f show ?thesis by (auto dest: first_at_not_no_match)
  next
    case (tagged v2 k2 r2 c2 rest2 vis2 ext2)
    have k: "length v = length v2" "k2 = k" using first_at_unique [OF f tagged(3)] by auto
    with s tagged(4) have e: "v = v2" "r2 = r" by simp_all
    have "length c = length c2" using j tagged(5) unfolding k e by simp
    then have "c = c2" "rest = rest2" using r tagged(6) unfolding k e by simp_all
    with ih tagged(7) have "vis = vis2 \<and> ext = ext2" by simp
    with tagged(1,2) \<open>c = c2\<close> show ?thesis by (simp add: k e)
  next
    case (unclosed k2 c2)
    from first_at_unique [OF f unclosed(2)] have k: "length v = length v'" "k2 = k" by auto
    with s unclosed(3) have "c2 = r" by simp
    with j unclosed(4) show ?thesis unfolding k by simp
  qed
next
  case (unclosed s v k c)
  note f = unclosed.hyps(1) and s = unclosed.hyps(2) and j = unclosed.hyps(3)
  from unclosed.prems show ?case
  proof (cases rule: reads.cases)
    case plain
    with f show ?thesis by (auto dest: first_at_not_no_match)
  next
    case (tagged v2 k2 r2 c2 rest2 vis2 ext2)
    from first_at_unique [OF f tagged(3)] have k: "length v = length v2" "k2 = k" by auto
    with s tagged(4) have "r2 = c" by simp
    with j tagged(5) show ?thesis unfolding k by simp
  next
    case (unclosed k2 c2)
    from first_at_unique [OF f unclosed(2)] have k: "length v = length v'" "k2 = k" by auto
    with s unclosed(3) have "v = v'" "c2 = c" by simp_all
    with unclosed(1) show ?thesis by (simp add: k)
  qed
qed

definition inline_read :: "'a inline_parser \<Rightarrow> 'a extracted_inline_tag stream_chunk option" where
  "inline_read p = map_option (\<lambda>(out, p'). chunk_append out (fst (inline_finish p'))) (inline_loop p chunk_default)"

lemma inline_read_match:
  assumes "inline_wf p" and "next_open (targets p) (pending p) = Some (i, k)"
  shows "inline_read p = map_option (chunk_append (match_out p i)) (inline_read (match_state p i k))"
  using inline_loop_match [OF assms, of chunk_default] match_state_wf [OF assms]
    inline_loop_out [of "match_state p i k" "match_out p i" chunk_default]
  by (cases "inline_loop (match_state p i k) chunk_default")
     (auto simp: inline_read_def chunk_append_assoc)

lemma inline_read_skip:
  assumes "inline_wf p" and "next_open (targets p) (pending p) = None"
  shows "inline_read p = Some (fst (inline_finish p))"
  using inline_loop_skip [OF assms, of chunk_default]
  by (cases "active p") (auto simp: inline_read_def inline_finish_def skip_out_def skip_state_def chunk_append_def chunk_default_def)

lemma take_match:
  "starts_with q (drop i s) \<Longrightarrow> i \<le> length s \<Longrightarrow> s = take i s @ q @ drop (i + length q) s"
  by (metis append_take_drop_id drop_drop starts_with_take add.commute)

lemma inline_read_reads:
  assumes "inline_wf p"
  shows "\<exists>out. inline_read p = Some out \<and> (case active p of
      None \<Rightarrow> reads (specs p) (pending p) (visible_text out) (extracted out)
    | Some a \<Rightarrow> (case str_find (active_close a) (pending p) of
        None \<Rightarrow> out = \<lparr>visible_text = [],
          extracted = [\<lparr>extracted_tag = active_tag a, extracted_content = active_content a @ pending p\<rparr>]\<rparr>
      | Some j \<Rightarrow> (\<exists>v e. reads (specs p) (drop (j + length (active_close a)) (pending p)) v e \<and>
          out = \<lparr>visible_text = v, extracted = \<lparr>extracted_tag = active_tag a,
            extracted_content = active_content a @ take j (pending p)\<rparr> # e\<rparr>)))"
  using assms
proof (induction rule: inline_rounds)
  case (match p i k)
  note b = match_bound [OF match.hyps]
  from match.IH obtain out where out: "inline_read (match_state p i k) = Some out" by blast
  with inline_read_match [OF match.hyps] have r: "inline_read p = Some (chunk_append (match_out p i) out)" by simp
  show ?case
  proof (cases "active p")
    case (Some a)
    with match.hyps have f: "str_find (active_close a) (pending p) = Some i"
      by (auto simp: targets_def inline_wf_def str_find_single)
    from Some match.IH out have "reads (specs p) (drop (i + length (active_close a)) (pending p)) (visible_text out) (extracted out)"
      using b by (auto simp: match_state_def targets_def)
    with r f Some show ?thesis by (simp add: match_out_def chunk_append_def)
  next
    case None
    let ?s = "pending p" and ?sp = "specs p ! k"
    from None have t: "targets p = map spec_open (specs p)" by (simp add: targets_def)
    with b have k: "k < length (specs p)" and tk: "targets p ! k = spec_open ?sp" by simp_all
    from next_open_Some [OF targets_ne [OF match.hyps(1)] match.hyps(2)]
    have f: "first_at (map spec_open (specs p)) ?s i k" by (simp add: t)
    define r' where "r' = drop (i + length (spec_open ?sp)) ?s"
    from f k b tk have s: "?s = take i ?s @ spec_open ?sp @ r'"
      unfolding r'_def by (intro take_match) (auto simp: first_at_def)
    have li: "length (take i ?s) = i" using b by simp
    from match.IH out None have ih: "case str_find (spec_close ?sp) r' of
        None \<Rightarrow> out = \<lparr>visible_text = [], extracted = [\<lparr>extracted_tag = spec_tag ?sp, extracted_content = r'\<rparr>]\<rparr>
      | Some j \<Rightarrow> (\<exists>v e. reads (specs p) (drop (j + length (spec_close ?sp)) r') v e \<and>
          out = \<lparr>visible_text = v, extracted = \<lparr>extracted_tag = spec_tag ?sp, extracted_content = take j r'\<rparr> # e\<rparr>)"
    proof -
      have "specs (match_state p i k) = specs p" "pending (match_state p i k) = r'"
        "active (match_state p i k) = Some \<lparr>active_tag = spec_tag ?sp, active_close = spec_close ?sp, active_content = []\<rparr>"
        using None by (simp_all add: match_state_def tk r'_def)
      with match.IH out show ?thesis by (cases "str_find (spec_close ?sp) r'") simp_all
    qed
    have "reads (specs p) ?s (take i ?s @ visible_text out) (extracted out)"
    proof (cases "str_find (spec_close ?sp) r'")
      case N: None
      from reads.unclosed [of "specs p" ?s "take i ?s" k r'] f li s N ih show ?thesis by simp
    next
      case S: (Some j)
      with ih obtain v e where ve: "reads (specs p) (drop (j + length (spec_close ?sp)) r') v e"
        "out = \<lparr>visible_text = v, extracted = \<lparr>extracted_tag = spec_tag ?sp, extracted_content = take j r'\<rparr> # e\<rparr>" by auto
      from S have "j \<le> length r'" "starts_with (spec_close ?sp) (drop j r')" by (auto simp: str_find_Some_iff)
      then have "r' = take j r' @ spec_close ?sp @ drop (j + length (spec_close ?sp)) r'" by (intro take_match)
      with reads.tagged [of "specs p" ?s "take i ?s" k r' "take j r'"] f li s S ve \<open>j \<le> length r'\<close>
      show ?thesis by simp
    qed
    with r None show ?thesis by (simp add: match_out_def)
  qed
next
  case (skip p)
  note r = inline_read_skip [OF skip.hyps]
  show ?case
  proof (cases "active p")
    case None
    with skip.hyps have "no_match (map spec_open (specs p)) (pending p)"
      using targets_ne [OF skip.hyps(1)] by (simp add: targets_def next_open_None_iff)
    with r None show ?thesis by (simp add: inline_finish_def reads.plain)
  next
    case (Some a)
    with skip.hyps have "str_find (active_close a) (pending p) = None"
      by (auto simp: targets_def inline_wf_def str_find_single)
    with r Some show ?thesis by (simp add: inline_finish_def)
  qed
qed


text \<open>Every parser the constructor makes returns from every push.\<close>

lemma inline_push_chunks_return:
  "inline_wf p \<Longrightarrow> \<exists>out' p'. push_chunks inline_push_str chunk_append out p chunks = Some (out', p') \<and> inline_wf p'"
proof (induction chunks arbitrary: out p)
  case (Cons c cs)
  then obtain o1 p1 where "inline_push_str p c = Some (o1, p1)" "inline_wf p1"
    using inline_loop_returns [of "feed p c" chunk_default] by (auto simp: inline_push_feed)
  with Cons.IH show ?case by simp
qed simp

lemma inline_new_wf: "inline_new ss = Some p \<Longrightarrow> inline_wf p"
  by (auto simp: inline_new_def inline_wf_def split: if_splits)

lemma inline_collect_reads:
  assumes "inline_new ss = Some p" and "infix_free (map spec_open ss)"
  shows "\<exists>out. collect_chunks inline_push_str inline_finish chunk_append chunk_default p chunks = Some out \<and>
    reads ss (concat chunks) (visible_text out) (extracted out)"
proof -
  from inline.collect_independent [OF inline_new_ok [OF assms], of chunks]
  obtain out where c: "collect_chunks inline_push_str inline_finish chunk_append chunk_default p chunks = Some out"
    and w: "collect_chunks inline_push_str inline_finish chunk_append chunk_default p [concat chunks] = Some out"
    by auto
  from assms(1) have p: "specs p = ss" "active p = None" "pending p = []" by (auto simp: inline_new_def split: if_splits)
  from w have "inline_read (feed p (concat chunks)) = Some out"
    by (simp add: collect_chunks_def inline_read_def inline_push_feed split: option.splits prod.splits)
  with inline_read_reads [of "feed p (concat chunks)"] inline_new_wf [OF assms(1)] p
  have "reads ss (concat chunks) (visible_text out) (extracted out)" by simp
  with c show ?thesis by blast
qed

end
