(* ===== verification/Tagged_Lines.thy ===== *)
theory Tagged_Lines
  imports Stream_Text
begin

section \<open>Tag blocks on lines of their own (utils/stream-parser/src/tagged_line_parser.rs)\<close>

text \<open>
  The line based parser: the characters of a line are held back until the line can no longer be
  a tag line. \<open>tagged_parse\<close> folds \<open>parse_char\<close> over the characters of a chunk, with the run of
  plain text and the segments of the chunk as local state. The proposed plan parser
  (\<open>proposed_plan.rs\<close>) is its instance with one tag.
\<close>

record 'a tag_spec =
  tag_open :: ustr
  tag_close :: ustr
  tag_of :: 'a

datatype 'a tagged_line_segment =
    NormalText ustr
  | TagStart 'a
  | TagDelta 'a ustr
  | TagEnd 'a

record 'a tagged_line_parser =
  line_specs :: "'a tag_spec list"
  line_active_tag :: "'a option"
  detect_tag :: bool
  line_buffer :: ustr

definition tagged_new :: "'a tag_spec list \<Rightarrow> 'a tagged_line_parser" where
  "tagged_new ss = \<lparr>line_specs = ss, line_active_tag = None, detect_tag = True, line_buffer = []\<rparr>"

text \<open>Adjacent texts of one kind are merged, empty ones dropped.\<close>

definition push_segment ::
    "'a tagged_line_segment list \<Rightarrow> 'a tagged_line_segment \<Rightarrow> 'a tagged_line_segment list" where
  "push_segment segments segment = (case segment of
     NormalText delta \<Rightarrow>
       if delta = [] then segments
       else (case rev segments of
               NormalText existing # before \<Rightarrow> rev before @ [NormalText (existing @ delta)]
             | _ \<Rightarrow> segments @ [NormalText delta])
   | TagDelta tag delta \<Rightarrow>
       if delta = [] then segments
       else (case rev segments of
               TagDelta existing_tag existing # before \<Rightarrow>
                 if existing_tag = tag then rev before @ [TagDelta existing_tag (existing @ delta)]
                 else segments @ [TagDelta tag delta]
             | _ \<Rightarrow> segments @ [TagDelta tag delta])
   | TagStart tag \<Rightarrow> segments @ [TagStart tag]
   | TagEnd tag \<Rightarrow> segments @ [TagEnd tag])"

definition push_text ::
    "'a tagged_line_parser \<Rightarrow> ustr \<Rightarrow> 'a tagged_line_segment list \<Rightarrow> 'a tagged_line_segment list" where
  "push_text p s segments = (case line_active_tag p of
     Some tag \<Rightarrow> push_segment segments (TagDelta tag s)
   | None \<Rightarrow> push_segment segments (NormalText s))"

definition is_tag_prefix :: "'a tagged_line_parser \<Rightarrow> ustr \<Rightarrow> bool" where
  "is_tag_prefix p slug = list_ex (\<lambda>spec. starts_with (trim_end slug) (tag_open spec) \<or>
     starts_with (trim_end slug) (tag_close spec)) (line_specs p)"

definition match_open :: "'a tagged_line_parser \<Rightarrow> ustr \<Rightarrow> 'a option" where
  "match_open p slug = map_option tag_of (find (\<lambda>spec. tag_open spec = slug) (line_specs p))"

definition match_close :: "'a tagged_line_parser \<Rightarrow> ustr \<Rightarrow> 'a option" where
  "match_close p slug = map_option tag_of (find (\<lambda>spec. tag_close spec = slug) (line_specs p))"

text \<open>
  The branch \<open>finish_line\<close> and \<open>finish\<close> share: what a held back line turns out to be. It is a
  start tag, an end tag of the open block, or text.
\<close>

definition settle_line ::
    "'a tagged_line_parser \<Rightarrow> ustr \<Rightarrow> 'a tagged_line_segment list \<Rightarrow>
     'a tagged_line_parser \<times> 'a tagged_line_segment list" where
  "settle_line p line segments =
    (let without_newline = (case strip_suffix [nl] line of Some l \<Rightarrow> l | None \<Rightarrow> line);
         slug = trim_end (trim_start without_newline)
     in if match_open p slug \<noteq> None \<and> line_active_tag p = None
        then (p\<lparr>line_active_tag := match_open p slug\<rparr>,
              push_segment segments (TagStart (the (match_open p slug))))
        else if match_close p slug \<noteq> None \<and> line_active_tag p = match_close p slug
        then (p\<lparr>line_active_tag := None\<rparr>, push_segment segments (TagEnd (the (match_close p slug))))
        else (p, push_text p line segments))"

definition finish_line ::
    "'a tagged_line_parser \<Rightarrow> 'a tagged_line_segment list \<Rightarrow>
     'a tagged_line_parser \<times> 'a tagged_line_segment list" where
  "finish_line p segments =
    (case settle_line (p\<lparr>line_buffer := []\<rparr>) (line_buffer p) segments of
       (p', segments') \<Rightarrow> (p'\<lparr>detect_tag := True\<rparr>, segments'))"

definition parse_char ::
    "nat \<Rightarrow> 'a tagged_line_parser \<times> ustr \<times> 'a tagged_line_segment list \<Rightarrow>
     'a tagged_line_parser \<times> ustr \<times> 'a tagged_line_segment list" where
  "parse_char ch st = (case st of (p, run, segments) \<Rightarrow>
    (if detect_tag p then
       (let segments1 = (if run \<noteq> [] then push_text p run segments else segments);
            p1 = p\<lparr>line_buffer := line_buffer p @ [ch]\<rparr>
        in if ch = nl then
             (case finish_line p1 segments1 of (p2, segments2) \<Rightarrow> (p2, [], segments2))
           else
             (let slug = trim_start (line_buffer p1)
              in if slug = [] \<or> is_tag_prefix p1 slug then (p1, [], segments1)
                 else (p1\<lparr>line_buffer := [], detect_tag := False\<rparr>, [],
                       push_text p1 (line_buffer p1) segments1)))
     else if ch = nl then (p\<lparr>detect_tag := True\<rparr>, [], push_text p (run @ [ch]) segments)
     else (p, run @ [ch], segments)))"

definition tagged_parse ::
    "'a tagged_line_parser \<Rightarrow> ustr \<Rightarrow> 'a tagged_line_segment list \<times> 'a tagged_line_parser" where
  "tagged_parse p delta = (case fold parse_char delta (p, [], []) of (p', run, segments) \<Rightarrow>
     (if run \<noteq> [] then push_text p' run segments else segments, p'))"

definition tagged_finish ::
    "'a tagged_line_parser \<Rightarrow> 'a tagged_line_segment list \<times> 'a tagged_line_parser" where
  "tagged_finish p =
    (let (p1, segments1) =
           (if line_buffer p \<noteq> [] then settle_line (p\<lparr>line_buffer := []\<rparr>) (line_buffer p) [] else (p, []));
         (p2, segments2) = (case line_active_tag p1 of
             Some tag \<Rightarrow> (p1\<lparr>line_active_tag := None\<rparr>, push_segment segments1 (TagEnd tag))
           | None \<Rightarrow> (p1, segments1))
     in (segments2, p2\<lparr>detect_tag := True\<rparr>))"

subsection \<open>The proposed plan parser\<close>

definition PLAN_OPEN_TAG :: ustr where "PLAN_OPEN_TAG = lit ''<proposed_plan>''"
definition PLAN_CLOSE_TAG :: ustr where "PLAN_CLOSE_TAG = lit ''</proposed_plan>''"

datatype plan_tag = ProposedPlan

datatype proposed_plan_segment =
    PlanNormal ustr
  | ProposedPlanStart
  | ProposedPlanDelta ustr
  | ProposedPlanEnd

type_synonym proposed_plan_parser = "plan_tag tagged_line_parser"

definition proposed_plan_new :: proposed_plan_parser where
  "proposed_plan_new = tagged_new [\<lparr>tag_open = PLAN_OPEN_TAG, tag_close = PLAN_CLOSE_TAG, tag_of = ProposedPlan\<rparr>]"

fun map_segment :: "plan_tag tagged_line_segment \<Rightarrow> proposed_plan_segment" where
  "map_segment (NormalText s) = PlanNormal s"
| "map_segment (TagStart ProposedPlan) = ProposedPlanStart"
| "map_segment (TagDelta ProposedPlan s) = ProposedPlanDelta s"
| "map_segment (TagEnd ProposedPlan) = ProposedPlanEnd"

definition push_mapped ::
    "proposed_plan_segment stream_chunk \<Rightarrow> plan_tag tagged_line_segment \<Rightarrow> proposed_plan_segment stream_chunk" where
  "push_mapped out segment =
    (let mapped = map_segment segment;
         shown = (case mapped of PlanNormal s \<Rightarrow> visible_text out @ s | _ \<Rightarrow> visible_text out)
     in out\<lparr>visible_text := shown, extracted := extracted out @ [mapped]\<rparr>)"

definition map_segments ::
    "plan_tag tagged_line_segment list \<Rightarrow> proposed_plan_segment stream_chunk" where
  "map_segments segments = foldl push_mapped chunk_default segments"

definition plan_push_str ::
    "proposed_plan_parser \<Rightarrow> ustr \<Rightarrow> proposed_plan_segment stream_chunk \<times> proposed_plan_parser" where
  "plan_push_str p chunk = map_prod map_segments id (tagged_parse p chunk)"

definition plan_finish ::
    "proposed_plan_parser \<Rightarrow> proposed_plan_segment stream_chunk \<times> proposed_plan_parser" where
  "plan_finish p = map_prod map_segments id (tagged_finish p)"

definition strip_proposed_plan_blocks :: "ustr \<Rightarrow> ustr" where
  "strip_proposed_plan_blocks s = (case plan_push_str proposed_plan_new s of (out, p) \<Rightarrow>
     visible_text out @ visible_text (fst (plan_finish p)))"

fun collect_plan_text :: "proposed_plan_segment \<Rightarrow> ustr \<times> bool \<Rightarrow> ustr \<times> bool" where
  "collect_plan_text ProposedPlanStart (plan_text, saw) = ([], True)"
| "collect_plan_text (ProposedPlanDelta delta) (plan_text, saw) = (plan_text @ delta, saw)"
| "collect_plan_text ProposedPlanEnd acc = acc"
| "collect_plan_text (PlanNormal _) acc = acc"

definition extract_proposed_plan_text :: "ustr \<Rightarrow> ustr option" where
  "extract_proposed_plan_text s = (case plan_push_str proposed_plan_new s of (out, p) \<Rightarrow>
     (case fold collect_plan_text (extracted out @ extracted (fst (plan_finish p))) ([], False) of
        (plan_text, saw) \<Rightarrow> if saw then Some plan_text else None))"

subsection \<open>What segments mean\<close>

text \<open>
  How the text of a line is cut into segments depends on the chunks; what the segments say does
  not: each character with the block it belongs to, and the tags in between.
\<close>

datatype 'a text_event = TextChar "'a option" nat | Opened 'a | Closed 'a

fun seg_events :: "'a tagged_line_segment \<Rightarrow> 'a text_event list" where
  "seg_events (NormalText s) = map (TextChar None) s"
| "seg_events (TagDelta t s) = map (TextChar (Some t)) s"
| "seg_events (TagStart t) = [Opened t]"
| "seg_events (TagEnd t) = [Closed t]"

definition events :: "'a tagged_line_segment list \<Rightarrow> 'a text_event list" where
  "events segments = concat (map seg_events segments)"

lemma events_simps [simp]: "events [] = []" "events (x # xs) = seg_events x @ events xs" "events (xs @ ys) = events xs @ events ys"
  by (simp_all add: events_def)

lemma events_push_segment [simp]: "events (push_segment segs x) = events segs @ seg_events x"
proof (cases x)
  case (NormalText d)
  show ?thesis
  proof (cases segs rule: rev_cases)
    case (snoc ys y)
    then show ?thesis using NormalText by (cases y) (simp_all add: push_segment_def)
  qed (simp add: NormalText push_segment_def)
next
  case (TagDelta t d)
  show ?thesis
  proof (cases segs rule: rev_cases)
    case (snoc ys y)
    then show ?thesis using TagDelta by (cases y) (simp_all add: push_segment_def)
  qed (simp add: TagDelta push_segment_def)
qed (simp_all add: push_segment_def)

lemma events_push_text [simp]:
  "events (push_text p s segs) = events segs @ map (TextChar (line_active_tag p)) s"
  by (simp add: push_text_def split: option.splits)

text \<open>What a settled line is, without the segments.\<close>

definition line_meaning ::
    "'a tag_spec list \<Rightarrow> 'a option \<Rightarrow> ustr \<Rightarrow> 'a option \<times> 'a text_event list" where
  "line_meaning ss active line =
    (let slug = trim line;
         opened = map_option tag_of (find (\<lambda>spec. tag_open spec = slug) ss);
         closed = map_option tag_of (find (\<lambda>spec. tag_close spec = slug) ss)
     in if opened \<noteq> None \<and> active = None then (opened, [Opened (the opened)])
        else if closed \<noteq> None \<and> active = closed then (None, [Closed (the closed)])
        else (active, map (TextChar active) line))"

lemma trim_nl: "trim (l @ [nl]) = trim l"
proof -
  have n: "is_whitespace nl" by (simp add: is_whitespace_def)
  show ?thesis
  proof (cases "dropWhile is_whitespace l = []")
    case True
    then have "\<forall>c\<in>set l. is_whitespace c" by simp
    with n have b: "dropWhile is_whitespace (l @ [nl]) = []" by simp
    show ?thesis by (simp only: trim_def trim_start_def trim_start_matches_def True b)
  next
    case False
    then have "dropWhile is_whitespace (l @ [nl]) = dropWhile is_whitespace l @ [nl]"
      by (auto simp: dropWhile_append dropWhile_eq_Nil_conv)
    with n show ?thesis
      by (simp add: trim_def trim_start_def trim_start_matches_def trim_end_def trim_end_matches_snoc)
  qed
qed

lemma settle_line_eq:
  "settle_line p line segs =
    (p\<lparr>line_active_tag := fst (line_meaning (line_specs p) (line_active_tag p) line)\<rparr>,
     snd (settle_line p line segs)) \<and>
   events (snd (settle_line p line segs)) = events segs @ snd (line_meaning (line_specs p) (line_active_tag p) line)"
proof -
  have "trim_end (trim_start (case strip_suffix [nl] line of Some l \<Rightarrow> l | None \<Rightarrow> line)) = trim line"
    by (cases "strip_suffix [nl] line") (auto simp: strip_suffix_Some_iff trim_nl, simp_all add: trim_def)
  moreover have "p = p\<lparr>line_active_tag := line_active_tag p\<rparr>" by (cases p) simp
  ultimately show ?thesis
    by (auto simp: settle_line_def line_meaning_def Let_def match_open_def match_close_def)
qed

subsection \<open>One character at a time\<close>

definition flushed :: "'a tagged_line_parser \<times> ustr \<times> 'a tagged_line_segment list \<Rightarrow> 'a tagged_line_parser \<times> 'a text_event list" where
  "flushed st = (case st of (p, run, segs) \<Rightarrow> (p, events segs @ map (TextChar (line_active_tag p)) run))"

definition char_step :: "'a tagged_line_parser \<Rightarrow> nat \<Rightarrow> 'a tagged_line_parser \<times> 'a text_event list" where
  "char_step p ch = flushed (parse_char ch (p, [], []))"

fun feed_chars :: "'a tagged_line_parser \<Rightarrow> ustr \<Rightarrow> 'a tagged_line_parser \<times> 'a text_event list" where
  "feed_chars p [] = (p, [])"
| "feed_chars p (c # cs) = (case char_step p c of (p1, e1) \<Rightarrow>
     case feed_chars p1 cs of (p2, e2) \<Rightarrow> (p2, e1 @ e2))"

definition run_ok :: "'a tagged_line_parser \<times> ustr \<times> 'a tagged_line_segment list \<Rightarrow> bool" where
  "run_ok st = (case st of (p, run, segs) \<Rightarrow> run \<noteq> [] \<longrightarrow> \<not> detect_tag p)"

lemma finish_line_eq:
  "\<exists>segs'. finish_line p segs = (p\<lparr>line_buffer := [],
      line_active_tag := fst (line_meaning (line_specs p) (line_active_tag p) (line_buffer p)), detect_tag := True\<rparr>, segs') \<and>
    events segs' = events segs @ snd (line_meaning (line_specs p) (line_active_tag p) (line_buffer p))"
  using settle_line_eq [of "p\<lparr>line_buffer := []\<rparr>" "line_buffer p" segs]
  by (cases "settle_line (p\<lparr>line_buffer := []\<rparr>) (line_buffer p) segs") (auto simp: finish_line_def)

lemma parse_char_step:
  assumes "run_ok (p, run, segs)"
  shows "run_ok (parse_char ch (p, run, segs)) \<and>
    flushed (parse_char ch (p, run, segs)) =
      (fst (char_step p ch), snd (flushed (p, run, segs)) @ snd (char_step p ch))"
proof (cases "detect_tag p")
  case True
  with assms have r: "run = []" by (simp add: run_ok_def)
  let ?p1 = "p\<lparr>line_buffer := line_buffer p @ [ch]\<rparr>"
  obtain s1 where s1: "finish_line ?p1 segs = (fst (finish_line ?p1 []), s1)" "events s1 = events segs @ events (snd (finish_line ?p1 []))"
    using finish_line_eq [of ?p1 segs] finish_line_eq [of ?p1 "[]"] by (metis fst_conv snd_conv append_Nil events_simps(1))
  show ?thesis
  proof (cases "ch = nl")
    case nlc: True
    have "run_ok (parse_char ch (p, run, segs))"
      by (simp add: parse_char_def True nlc r run_ok_def split: prod.split)
    moreover have "parse_char ch (p, run, segs) = (fst (finish_line ?p1 []), [], s1)"
      using s1(1) by (simp add: parse_char_def True nlc r)
    moreover have "parse_char ch (p, [], []) = (fst (finish_line ?p1 []), [], snd (finish_line ?p1 []))"
      by (simp add: parse_char_def True nlc split: prod.split)
    ultimately show ?thesis using s1(2) by (simp add: char_step_def flushed_def r)
  next
    case False
    then show ?thesis
      by (auto simp: parse_char_def True r char_step_def flushed_def run_ok_def Let_def)
  qed
next
  case False
  then show ?thesis by (auto simp: parse_char_def char_step_def flushed_def run_ok_def)
qed

lemma fold_parse_char:
  "run_ok st \<Longrightarrow> run_ok (fold parse_char s st) \<and>
    flushed (fold parse_char s st) = (fst (feed_chars (fst st) s), snd (flushed st) @ snd (feed_chars (fst st) s))"
proof (induction s arbitrary: st)
  case (Cons c s)
  obtain p run segs where st: "st = (p, run, segs)" by (cases st)
  note step = parse_char_step [of p run segs c, folded st, OF Cons.prems]
  then have "fst (parse_char c st) = fst (char_step p c)"
    by (cases "parse_char c st") (simp add: flushed_def)
  with Cons.IH [of "parse_char c st"] step show ?case
    by (simp add: st split: prod.split)
qed (simp add: flushed_def split: prod.split)

lemma tagged_parse_feed:
  "snd (tagged_parse p s) = fst (feed_chars p s) \<and> events (fst (tagged_parse p s)) = snd (feed_chars p s)"
proof -
  obtain p' run segs where f: "fold parse_char s (p, [], []) = (p', run, segs)" by (metis prod_cases3)
  with fold_parse_char [of "(p, [], [])" s] show ?thesis
    by (cases "feed_chars p s") (auto simp: run_ok_def flushed_def tagged_parse_def)
qed

lemma feed_chars_append:
  "feed_chars p (s @ t) = (fst (feed_chars (fst (feed_chars p s)) t),
     snd (feed_chars p s) @ snd (feed_chars (fst (feed_chars p s)) t))"
  by (induction s arbitrary: p) (simp_all split: prod.split)

lemma tagged_parse_append:
  assumes "tagged_parse p s = (o1, p1)" and "tagged_parse p1 t = (o2, p2)"
  shows "snd (tagged_parse p (s @ t)) = p2 \<and> events (fst (tagged_parse p (s @ t))) = events o1 @ events o2"
  using tagged_parse_feed [of p s] tagged_parse_feed [of p1 t] tagged_parse_feed [of p "s @ t"] assms
  by (simp add: feed_chars_append)


subsection \<open>The reading of a whole text, line by line\<close>

fun split_inclusive :: "ustr \<Rightarrow> ustr list" where
  "split_inclusive [] = []"
| "split_inclusive (c # cs) = (if c = nl then [nl] # split_inclusive cs
     else case split_inclusive cs of [] \<Rightarrow> [[c]] | l # ls \<Rightarrow> (c # l) # ls)"

fun read_lines :: "'a tag_spec list \<Rightarrow> 'a option \<Rightarrow> ustr list \<Rightarrow> 'a text_event list" where
  "read_lines ss active [] = (case active of Some t \<Rightarrow> [Closed t] | None \<Rightarrow> [])"
| "read_lines ss active (l # ls) =
    snd (line_meaning ss active l) @ read_lines ss (fst (line_meaning ss active l)) ls"

lemma split_inclusive_line: "nl \<notin> set l \<Longrightarrow> split_inclusive (l @ nl # s) = (l @ [nl]) # split_inclusive s"
  by (induction l) auto

lemma split_inclusive_rest: "nl \<notin> set l \<Longrightarrow> l \<noteq> [] \<Longrightarrow> split_inclusive l = [l]"
proof (induction l)
  case (Cons c l)
  then show ?case by (cases l) auto
qed simp

lemma concat_split_inclusive: "concat (split_inclusive s) = s"
  by (induction s) (auto split: list.splits)

lemma trim_end_grows: "\<exists>z. trim_end (x @ y) = trim_end x @ z"
proof (induction y rule: rev_induct)
  case Nil
  show ?case by (rule exI [of _ "[]"]) simp
next
  case (snoc c y)
  obtain r where r: "x = trim_end x @ r"
    using trim_end_matches_prefix [of x is_whitespace] unfolding trim_end_def by blast
  show ?case
  proof (cases "is_whitespace c")
    case True
    then have "trim_end (x @ y @ [c]) = trim_end (x @ y)"
      using trim_end_matches_snoc [of is_whitespace "x @ y" c] by (simp add: trim_end_def)
    with snoc show ?thesis by simp
  next
    case False
    then have "trim_end (x @ y @ [c]) = x @ y @ [c]"
      using trim_end_matches_snoc [of is_whitespace "x @ y" c] by (simp add: trim_end_def)
    with r have "trim_end (x @ y @ [c]) = trim_end x @ r @ y @ [c]" by (metis append.assoc)
    then show ?thesis by blast
  qed
qed

definition undecided :: "'a tagged_line_parser \<Rightarrow> ustr \<Rightarrow> bool" where
  "undecided p l \<longleftrightarrow> trim_start l = [] \<or> is_tag_prefix p (trim_start l)"

definition held :: "'a tagged_line_parser \<Rightarrow> ustr \<Rightarrow> bool" where
  "held p l \<longleftrightarrow> (\<forall>l' r. l = l' @ r \<longrightarrow> undecided p l')"

lemma held_snoc: "held p (l @ [c]) \<longleftrightarrow> held p l \<and> undecided p (l @ [c])"
  by (auto simp: held_def) (metis append_Nil2 append_assoc butlast_append butlast_snoc)+

lemma trim_start_grows: "trim_start l \<noteq> [] \<Longrightarrow> trim_start (l @ r) = trim_start l @ r"
  by (auto simp: trim_start_def trim_start_matches_def dropWhile_append dropWhile_eq_Nil_conv)

lemma tag_line_undecided:
  assumes "trim (l @ r) = d" and "spec \<in> set (line_specs p)" and "d = tag_open spec \<or> d = tag_close spec"
  shows "undecided p l"
proof (cases "trim_start l = []")
  case False
  then have "d = trim_end (trim_start l @ r)"
    using assms(1) by (simp add: trim_def trim_start_grows)
  with trim_end_grows [of "trim_start l" r] have "starts_with (trim_end (trim_start l)) d"
    by (auto simp: starts_with_iff)
  with assms(2,3) show ?thesis by (auto simp: undecided_def is_tag_prefix_def list_ex_iff)
qed (simp add: undecided_def)

lemma decided_is_text:
  assumes "\<not> held p l"
  shows "line_meaning (line_specs p) a (l @ r) = (a, map (TextChar a) (l @ r))"
proof -
  from assms obtain l' r' where l: "l = l' @ r'" and u: "\<not> undecided p l'" by (auto simp: held_def)
  have "tag_open spec \<noteq> trim (l @ r) \<and> tag_close spec \<noteq> trim (l @ r)" if "spec \<in> set (line_specs p)" for spec
    using tag_line_undecided [of l' "r' @ r" "trim (l @ r)" spec p] u that by (simp add: l) metis
  then have "find (\<lambda>spec. tag_open spec = trim (l @ r)) (line_specs p) = None"
    and "find (\<lambda>spec. tag_close spec = trim (l @ r)) (line_specs p) = None"
    by (auto simp: find_None_iff)
  then show ?thesis by (simp add: line_meaning_def Let_def)
qed

lemma feed_line_start:
  assumes "detect_tag p" and "line_buffer p = []" and "nl \<notin> set l"
  shows "feed_chars p l = (if held p l then (p\<lparr>line_buffer := l\<rparr>, [])
    else (p\<lparr>detect_tag := False\<rparr>, map (TextChar (line_active_tag p)) l))"
  using assms(3)
proof (induction l rule: rev_induct)
  case Nil
  have "p = p\<lparr>line_buffer := []\<rparr>" using assms(2) by (cases p) simp
  then show ?case by (auto simp: held_def undecided_def trim_start_def trim_start_matches_def)
next
  case (snoc c l)
  have same: "p\<lparr>line_buffer := [], detect_tag := False\<rparr> = p\<lparr>detect_tag := False\<rparr>"
    using assms(2) by (cases p) simp
  have hold: "char_step (p\<lparr>line_buffer := l\<rparr>) c = (if undecided p (l @ [c]) then (p\<lparr>line_buffer := l @ [c]\<rparr>, [])
      else (p\<lparr>detect_tag := False\<rparr>, map (TextChar (line_active_tag p)) (l @ [c])))"
    using assms(1) snoc.prems same
    by (auto simp: char_step_def parse_char_def flushed_def undecided_def is_tag_prefix_def Let_def)
  have chr: "char_step (p\<lparr>detect_tag := False\<rparr>) c = (p\<lparr>detect_tag := False\<rparr>, [TextChar (line_active_tag p) c])"
    using snoc.prems by (simp add: char_step_def parse_char_def flushed_def)
  show ?case
  proof (cases "held p l")
    case True
    with snoc have "feed_chars p l = (p\<lparr>line_buffer := l\<rparr>, [])" by simp
    with True hold show ?thesis by (simp add: feed_chars_append held_snoc split: prod.split)
  next
    case False
    with snoc have "feed_chars p l = (p\<lparr>detect_tag := False\<rparr>, map (TextChar (line_active_tag p)) l)" by simp
    with False chr show ?thesis by (simp add: feed_chars_append held_snoc)
  qed
qed

lemma feed_whole_line:
  assumes "detect_tag p" and "line_buffer p = []" and "nl \<notin> set l"
  shows "feed_chars p (l @ [nl]) =
    (p\<lparr>line_active_tag := fst (line_meaning (line_specs p) (line_active_tag p) (l @ [nl]))\<rparr>,
     snd (line_meaning (line_specs p) (line_active_tag p) (l @ [nl])))"
proof (cases "held p l")
  case True
  let ?p = "p\<lparr>line_buffer := l @ [nl]\<rparr>"
  have same: "p\<lparr>line_buffer := [], line_active_tag := a, detect_tag := True\<rparr> = p\<lparr>line_active_tag := a\<rparr>" for a
    using assms(1,2) by (cases p) simp
  have "char_step (p\<lparr>line_buffer := l\<rparr>) nl =
      (p\<lparr>line_active_tag := fst (line_meaning (line_specs p) (line_active_tag p) (l @ [nl]))\<rparr>,
       snd (line_meaning (line_specs p) (line_active_tag p) (l @ [nl])))"
    using finish_line_eq [of ?p "[]"] assms(1) same
    by (auto simp: char_step_def parse_char_def flushed_def)
  with True feed_line_start [OF assms] show ?thesis by (simp add: feed_chars_append)
next
  case False
  have same: "p\<lparr>detect_tag := True\<rparr> = p" "p\<lparr>line_active_tag := line_active_tag p\<rparr> = p"
    using assms(1) by (cases p; simp)+
  have "char_step (p\<lparr>detect_tag := False\<rparr>) nl = (p, [TextChar (line_active_tag p) nl])"
    using same by (simp add: char_step_def parse_char_def flushed_def)
  with False feed_line_start [OF assms] decided_is_text [OF False, of "line_active_tag p" "[nl]"] same
  show ?thesis by (simp add: feed_chars_append)
qed

lemma finish_events:
  "events (fst (tagged_finish p)) = (if line_buffer p = [] then read_lines (line_specs p) (line_active_tag p) []
     else read_lines (line_specs p) (line_active_tag p) [line_buffer p])"
  using settle_line_eq [of "p\<lparr>line_buffer := []\<rparr>" "line_buffer p" "[]"]
  by (cases "settle_line (p\<lparr>line_buffer := []\<rparr>) (line_buffer p) []")
     (auto simp: tagged_finish_def split: option.split)

lemma feed_last_line:
  assumes "detect_tag p" and "line_buffer p = []" and "nl \<notin> set l" and "l \<noteq> []"
  shows "snd (feed_chars p l) @ events (fst (tagged_finish (fst (feed_chars p l)))) =
    read_lines (line_specs p) (line_active_tag p) [l]"
proof (cases "held p l")
  case True
  with feed_line_start [OF assms(1-3)] assms(4) show ?thesis by (simp add: finish_events)
next
  case False
  with feed_line_start [OF assms(1-3)] decided_is_text [OF False, of "line_active_tag p" "[]"] assms(2)
  show ?thesis by (simp add: finish_events)
qed

lemma feed_reads_lines:
  "\<lbrakk>detect_tag p; line_buffer p = []\<rbrakk> \<Longrightarrow>
    snd (feed_chars p s) @ events (fst (tagged_finish (fst (feed_chars p s)))) =
    read_lines (line_specs p) (line_active_tag p) (split_inclusive s)"
proof (induction "length s" arbitrary: p s rule: less_induct)
  case less
  show ?case
  proof (cases "nl \<in> set s")
    case True
    then obtain l r where s: "s = l @ nl # r" "nl \<notin> set l" by (metis split_list_first)
    let ?m = "line_meaning (line_specs p) (line_active_tag p) (l @ [nl])"
    let ?p = "p\<lparr>line_active_tag := fst ?m\<rparr>"
    have "feed_chars p s = (fst (feed_chars ?p r), snd ?m @ snd (feed_chars ?p r))"
      using feed_whole_line [OF less.prems s(2)] feed_chars_append [of p "l @ [nl]" r] by (simp add: s(1))
    moreover have "snd (feed_chars ?p r) @ events (fst (tagged_finish (fst (feed_chars ?p r)))) =
        read_lines (line_specs ?p) (line_active_tag ?p) (split_inclusive r)"
      using less.prems s(1) by (intro less.hyps) simp_all
    ultimately show ?thesis by (simp add: s split_inclusive_line)
  next
    case False
    show ?thesis
    proof (cases "s = []")
      case True
      with less.prems show ?thesis by (simp add: finish_events)
    next
      case ne: False
      with feed_last_line [OF less.prems False] show ?thesis by (simp add: split_inclusive_rest False)
    qed
  qed
qed

subsection \<open>The contract of the plan parser\<close>

fun tagged_of_plan :: "proposed_plan_segment \<Rightarrow> plan_tag tagged_line_segment" where
  "tagged_of_plan (PlanNormal s) = NormalText s"
| "tagged_of_plan ProposedPlanStart = TagStart ProposedPlan"
| "tagged_of_plan (ProposedPlanDelta s) = TagDelta ProposedPlan s"
| "tagged_of_plan ProposedPlanEnd = TagEnd ProposedPlan"

definition plan_events :: "proposed_plan_segment list \<Rightarrow> plan_tag text_event list" where
  "plan_events segments = events (map tagged_of_plan segments)"

fun outside_char :: "'a text_event \<Rightarrow> ustr" where
  "outside_char (TextChar None c) = [c]"
| "outside_char _ = []"

definition outside :: "'a text_event list \<Rightarrow> ustr" where
  "outside evs = concat (map outside_char evs)"

lemma outside_simps [simp]: "outside [] = []" "outside (e # es) = outside_char e @ outside es" "outside (xs @ ys) = outside xs @ outside ys"
  by (simp_all add: outside_def)

lemma plan_events_append [simp]: "plan_events (xs @ ys) = plan_events xs @ plan_events ys" "plan_events [] = []"
  by (simp_all add: plan_events_def)

lemma tagged_of_map_segment [simp]: "tagged_of_plan (map_segment x) = x"
  by (cases x rule: map_segment.cases) simp_all

lemma outside_TextChar [simp]:
  "outside (map (TextChar None) s) = s" "outside (map (TextChar (Some t)) s) = []"
  by (induction s) simp_all

lemma map_segments_from:
  "visible_text (foldl push_mapped out segs) = visible_text out @ outside (events segs) \<and>
   extracted (foldl push_mapped out segs) = extracted out @ map map_segment segs"
proof (induction segs arbitrary: out)
  case (Cons x segs)
  then show ?case by (cases x rule: map_segment.cases) (simp_all add: push_mapped_def)
qed simp

definition plan_meaning :: "proposed_plan_segment stream_chunk \<Rightarrow> ustr \<times> plan_tag text_event list" where
  "plan_meaning c = (visible_text c, plan_events (extracted c))"

lemma plan_meaning_map_segments [simp]: "plan_meaning (map_segments segs) = (outside (events segs), events segs)"
  using map_segments_from [of chunk_default segs]
  by (simp add: plan_meaning_def plan_events_def map_segments_def comp_def)

lemma plan_meaning_append [simp]:
  "plan_meaning (chunk_append a b) =
    (fst (plan_meaning a) @ fst (plan_meaning b), snd (plan_meaning a) @ snd (plan_meaning b))"
  by (simp add: plan_meaning_def)

interpretation plan: stream_text_parser "returning plan_push_str" plan_finish "\<lambda>_. True" plan_meaning
proof
  fix p t u o1 o2 p1 p2
  show "returning plan_push_str p [] = Some (chunk_default, p)"
    by (simp add: returning_def plan_push_str_def tagged_parse_def map_segments_def)
  show "\<exists>out p'. returning plan_push_str p t = Some (out, p') \<and> True" by (simp add: returning_def)
  assume "returning plan_push_str p t = Some (o1, p1)" "returning plan_push_str p1 u = Some (o2, p2)"
  then obtain s1 s2 where "tagged_parse p t = (s1, p1)" "tagged_parse p1 u = (s2, p2)"
    and "o1 = map_segments s1" "o2 = map_segments s2"
    by (cases "tagged_parse p t"; cases "tagged_parse p1 u") (auto simp: returning_def plan_push_str_def)
  with tagged_parse_append [of p t s1 p1 u s2 p2]
  show "\<exists>out. returning plan_push_str p (t @ u) = Some (out, p2) \<and> plan_meaning out = plan_meaning (chunk_append o1 o2)"
    by (cases "tagged_parse p (t @ u)") (auto simp: returning_def plan_push_str_def)
qed (auto simp: chunk_append_assoc plan_meaning_def)

text \<open>The whole text, read line by line.\<close>

lemma plan_whole_text:
  "\<exists>out. collect_chunks (returning plan_push_str) plan_finish chunk_append chunk_default p [text] = Some out \<and>
    plan_meaning out = (outside (snd (feed_chars p text) @ events (fst (tagged_finish (fst (feed_chars p text))))),
      snd (feed_chars p text) @ events (fst (tagged_finish (fst (feed_chars p text)))))"
proof -
  obtain segs p' where tp: "tagged_parse p text = (segs, p')" by fastforce
  then have "feed_chars p text = (p', events segs)"
    using tagged_parse_feed [of p "text"] by (cases "feed_chars p text") simp
  with tp show ?thesis
    by (cases "tagged_finish p'") (auto simp: collect_chunks_def returning_def plan_push_str_def plan_finish_def)
qed

definition plan_spec :: "plan_tag tag_spec" where
  "plan_spec = \<lparr>tag_open = PLAN_OPEN_TAG, tag_close = PLAN_CLOSE_TAG, tag_of = ProposedPlan\<rparr>"

text \<open>What a text says in plan mode.\<close>

definition plan_reading :: "ustr \<Rightarrow> plan_tag text_event list" where
  "plan_reading text = read_lines [plan_spec] None (split_inclusive text)"

lemma plan_collect:
  "\<exists>out. collect_chunks (returning plan_push_str) plan_finish chunk_append chunk_default proposed_plan_new chunks = Some out \<and>
    plan_meaning out = (outside (plan_reading (concat chunks)), plan_reading (concat chunks))"
proof -
  have "detect_tag proposed_plan_new" "line_buffer proposed_plan_new = []" "line_active_tag proposed_plan_new = None"
    "line_specs proposed_plan_new = [plan_spec]"
    by (simp_all add: proposed_plan_new_def tagged_new_def plan_spec_def)
  with plan_whole_text [of proposed_plan_new "concat chunks"] feed_reads_lines [of proposed_plan_new "concat chunks"]
    plan.collect_independent [OF TrueI, of proposed_plan_new chunks]
  show ?thesis unfolding plan_reading_def by fastforce
qed

end
