(* ===== verification/Utf8.thy ===== *)
theory Utf8
  imports Prelude "HOL-Library.Word"
begin

section \<open>UTF-8\<close>

text \<open>
  \<open>std::str::from_utf8\<close> on bytes (\<open>8 word\<close>) as the standard library documents it: the scalar
  values of valid text, or the offset up to which the bytes are valid and the length of the
  malformed sequence there (\<open>None\<close> when the bytes end inside a sequence). The encoder is the
  inverse; the lemmas relate the decoder on a cut of encoded text to the decoder on the whole.
\<close>

type_synonym byte = "8 word"

definition is_scalar :: "nat \<Rightarrow> bool" where
  "is_scalar c \<longleftrightarrow> c < 0x110000 \<and> \<not> (0xD800 \<le> c \<and> c \<le> 0xDFFF)"

definition byte_of :: "nat \<Rightarrow> byte" where
  "byte_of n = of_nat n"

definition encode_char :: "nat \<Rightarrow> byte list" where
  "encode_char c =
    (if c < 0x80 then [byte_of c]
     else if c < 0x800 then [byte_of (0xC0 + c div 64), byte_of (0x80 + c mod 64)]
     else if c < 0x10000 then
       [byte_of (0xE0 + c div 4096), byte_of (0x80 + c div 64 mod 64), byte_of (0x80 + c mod 64)]
     else [byte_of (0xF0 + c div 262144), byte_of (0x80 + c div 4096 mod 64),
           byte_of (0x80 + c div 64 mod 64), byte_of (0x80 + c mod 64)])"

definition utf8_encode :: "ustr \<Rightarrow> byte list" where
  "utf8_encode s = concat (map encode_char s)"

subsection \<open>Decoding\<close>

datatype utf8_head = Scalar nat nat | Cut | Malformed nat

definition is_cont :: "byte \<Rightarrow> bool" where
  "is_cont b \<longleftrightarrow> 0x80 \<le> b \<and> b \<le> 0xBF"

text \<open>The second byte of sequences of three and four bytes excludes overlong forms, surrogates and
  values past the last scalar.\<close>

definition second3 :: "byte \<Rightarrow> byte \<Rightarrow> bool" where
  "second3 b c \<longleftrightarrow> (if b = 0xE0 then 0xA0 \<le> c \<and> c \<le> 0xBF
     else if b = 0xED then 0x80 \<le> c \<and> c \<le> 0x9F else is_cont c)"

definition second4 :: "byte \<Rightarrow> byte \<Rightarrow> bool" where
  "second4 b c \<longleftrightarrow> (if b = 0xF0 then 0x90 \<le> c \<and> c \<le> 0xBF
     else if b = 0xF4 then 0x80 \<le> c \<and> c \<le> 0x8F else is_cont c)"

definition low6 :: "byte \<Rightarrow> nat" where
  "low6 b = unat b - 0x80"

fun decode_tail :: "nat \<Rightarrow> nat \<Rightarrow> nat \<Rightarrow> byte list \<Rightarrow> utf8_head" where
  "decode_tail 0 width acc bs = Scalar acc width"
| "decode_tail (Suc n) width acc [] = Cut"
| "decode_tail (Suc n) width acc (b # bs) =
    (if is_cont b then decode_tail n width (acc * 64 + low6 b) bs else Malformed (width - Suc n))"

lemma decode_tail_code [code]:
  "decode_tail n width acc bs = (if n = 0 then Scalar acc width
     else (case bs of [] \<Rightarrow> Cut
       | b # bs' \<Rightarrow> if is_cont b then decode_tail (n - 1) width (acc * 64 + low6 b) bs' else Malformed (width - n)))"
  by (cases n; cases bs) simp_all

text \<open>The first sequence of the bytes.\<close>

fun decode_head :: "byte list \<Rightarrow> utf8_head" where
  "decode_head [] = Cut"
| "decode_head (b # bs) =
    (if b < 0x80 then Scalar (unat b) 1
     else if 0xC2 \<le> b \<and> b \<le> 0xDF then decode_tail 1 2 (unat b - 0xC0) bs
     else if 0xE0 \<le> b \<and> b \<le> 0xEF then
       (case bs of [] \<Rightarrow> Cut
        | c # cs \<Rightarrow> if second3 b c then decode_tail 1 3 ((unat b - 0xE0) * 64 + low6 c) cs else Malformed 1)
     else if 0xF0 \<le> b \<and> b \<le> 0xF4 then
       (case bs of [] \<Rightarrow> Cut
        | c # cs \<Rightarrow> if second4 b c then decode_tail 2 4 ((unat b - 0xF0) * 64 + low6 c) cs else Malformed 1)
     else Malformed 1)"

lemma decode_tail_width: "decode_tail n w acc bs = Scalar c k \<Longrightarrow> k = w"
  by (induction n w acc bs rule: decode_tail.induct) (auto split: if_splits)

lemma decode_head_width: "decode_head bs = Scalar c k \<Longrightarrow> 0 < k"
  by (cases bs) (auto split: if_splits list.splits dest: decode_tail_width)

function from_utf8_at :: "nat \<Rightarrow> byte list \<Rightarrow> (nat \<times> nat option) + ustr" where
  "from_utf8_at i [] = Inr []"
| "from_utf8_at i (b # bs) = (case decode_head (b # bs) of
     Scalar c k \<Rightarrow> map_sum id (\<lambda>s. c # s) (from_utf8_at (i + k) (drop k (b # bs)))
   | Cut \<Rightarrow> Inl (i, None)
   | Malformed k \<Rightarrow> Inl (i, Some k))"
  by pat_completeness auto
termination
  by (relation "measure (\<lambda>(i, bs). length bs)") (auto dest!: decode_head_width simp del: decode_head.simps)

declare from_utf8_at.simps(2) [simp del]

definition from_utf8 :: "byte list \<Rightarrow> (nat \<times> nat option) + ustr" where
  "from_utf8 bs = from_utf8_at 0 bs"

subsection \<open>Decoding what was encoded\<close>

lemma unat_byte_of [simp]: "n < 256 \<Longrightarrow> unat (byte_of n) = n"
  by (simp add: byte_of_def unat_of_nat)

lemmas byte_arith = word_le_nat_alt word_less_nat_alt word_unat_eq_iff

lemma is_cont_byte_of [simp]: "b < 64 \<Longrightarrow> is_cont (byte_of (0x80 + b))"
  by (simp add: is_cont_def byte_arith)

lemma low6_byte_of [simp]: "b < 64 \<Longrightarrow> low6 (byte_of (0x80 + b)) = b"
  by (simp add: low6_def)

lemma decode_tail_Suc: "b < 64 \<Longrightarrow> decode_tail (Suc n) w acc (byte_of (0x80 + b) # bs) = decode_tail n w (acc * 64 + b) bs"
  by simp

lemma decode_1: "c < 0x80 \<Longrightarrow> decode_head (byte_of c # bs) = Scalar c 1"
  by (simp add: byte_arith)

lemma decode_2: "\<lbrakk>2 \<le> a; a < 32\<rbrakk> \<Longrightarrow> decode_head (byte_of (0xC0 + a) # bs) = decode_tail 1 2 a bs"
  by (simp add: byte_arith)

lemma second3_byte_of:
  "\<lbrakk>a < 16; b < 64\<rbrakk> \<Longrightarrow> second3 (byte_of (0xE0 + a)) (byte_of (0x80 + b)) \<longleftrightarrow>
    (a = 0 \<longrightarrow> 32 \<le> b) \<and> (a = 13 \<longrightarrow> b < 32)"
  by (auto simp: second3_def is_cont_def byte_arith)

lemma second4_byte_of:
  "\<lbrakk>a \<le> 4; b < 64\<rbrakk> \<Longrightarrow> second4 (byte_of (0xF0 + a)) (byte_of (0x80 + b)) \<longleftrightarrow>
    (a = 0 \<longrightarrow> 16 \<le> b) \<and> (a = 4 \<longrightarrow> b < 16)"
  by (auto simp: second4_def is_cont_def byte_arith)

lemma decode_3:
  "\<lbrakk>a < 16; b < 64; a = 0 \<longrightarrow> 32 \<le> b; a = 13 \<longrightarrow> b < 32\<rbrakk> \<Longrightarrow>
    decode_head (byte_of (0xE0 + a) # byte_of (0x80 + b) # bs) = decode_tail 1 3 (a * 64 + b) bs"
  by (simp add: second3_byte_of) (simp add: byte_arith)

lemma decode_4:
  "\<lbrakk>a \<le> 4; b < 64; a = 0 \<longrightarrow> 16 \<le> b; a = 4 \<longrightarrow> b < 16\<rbrakk> \<Longrightarrow>
    decode_head (byte_of (0xF0 + a) # byte_of (0x80 + b) # bs) = decode_tail 2 4 (a * 64 + b) bs"
  by (simp add: second4_byte_of) (simp add: byte_arith)

lemma decode_cut:
  "\<lbrakk>2 \<le> a; a < 32\<rbrakk> \<Longrightarrow> decode_head [byte_of (0xC0 + a)] = Cut"
  "a < 16 \<Longrightarrow> decode_head [byte_of (0xE0 + a)] = Cut"
  "a \<le> 4 \<Longrightarrow> decode_head [byte_of (0xF0 + a)] = Cut"
  by (simp_all add: byte_arith)

text \<open>The digits of a scalar value.\<close>

lemma digits:
  fixes c :: nat
  shows "c div 4096 * 64 + c div 64 mod 64 = c div 64" "c div 64 * 64 + c mod 64 = c"
    "c div 262144 * 64 + c div 4096 mod 64 = c div 4096"
proof -
  show "c div 4096 * 64 + c div 64 mod 64 = c div 64"
    using div_mult_mod_eq [of "c div 64" 64] by (simp add: div_mult2_eq [of c 64 64, simplified])
  show "c div 262144 * 64 + c div 4096 mod 64 = c div 4096"
    using div_mult_mod_eq [of "c div 4096" 64] by (simp add: div_mult2_eq [of c 4096 64, simplified])
qed simp

lemma scalar_ranges:
  assumes "is_scalar c"
  obtains (one) "c < 0x80" "encode_char c = [byte_of c]"
  | (two) "0x80 \<le> c" "c < 0x800" "2 \<le> c div 64" "c div 64 < 32"
      "encode_char c = [byte_of (0xC0 + c div 64), byte_of (0x80 + c mod 64)]"
  | (three) "0x800 \<le> c" "c < 0x10000" "c div 4096 < 16" "c div 4096 = 0 \<longrightarrow> 32 \<le> c div 64 mod 64"
      "c div 4096 = 13 \<longrightarrow> c div 64 mod 64 < 32"
      "encode_char c = [byte_of (0xE0 + c div 4096), byte_of (0x80 + c div 64 mod 64), byte_of (0x80 + c mod 64)]"
  | (four) "0x10000 \<le> c" "c div 262144 \<le> 4" "c div 262144 = 0 \<longrightarrow> 16 \<le> c div 4096 mod 64"
      "c div 262144 = 4 \<longrightarrow> c div 4096 mod 64 < 16"
      "encode_char c = [byte_of (0xF0 + c div 262144), byte_of (0x80 + c div 4096 mod 64),
         byte_of (0x80 + c div 64 mod 64), byte_of (0x80 + c mod 64)]"
proof -
  consider "c < 0x80" | "0x80 \<le> c" "c < 0x800" | "0x800 \<le> c" "c < 0x10000" | "0x10000 \<le> c" by linarith
  then show thesis
  proof cases
    case 1
    then show ?thesis by (intro one) (simp_all add: encode_char_def)
  next
    case 2
    then show ?thesis by (intro two) (simp_all add: encode_char_def div_less_iff_less_mult less_eq_div_iff_mult_less_eq)
  next
    case 3
    have q: "c div 64 = c div 4096 * 64 + c div 64 mod 64" by (simp only: digits)
    from 3 have "32 \<le> c div 64" "c div 4096 < 16" by (simp_all add: div_less_iff_less_mult less_eq_div_iff_mult_less_eq)
    moreover have "c div 64 < 864 \<or> 896 \<le> c div 64"
      using assms by (auto simp: is_scalar_def div_less_iff_less_mult less_eq_div_iff_mult_less_eq)
    ultimately show ?thesis using q 3
      by (intro three) ((simp add: encode_char_def; fail) | linarith)+
  next
    case 4
    have q: "c div 4096 = c div 262144 * 64 + c div 4096 mod 64" by (simp only: digits)
    from 4 assms have "16 \<le> c div 4096" "c div 4096 < 272"
      by (simp_all add: is_scalar_def div_less_iff_less_mult less_eq_div_iff_mult_less_eq)
    with q 4 show ?thesis by (intro four) ((simp add: encode_char_def; fail) | linarith)+
  qed
qed

lemma decode_encode_char:
  assumes "is_scalar c"
  shows "decode_head (encode_char c @ bs) = Scalar c (length (encode_char c))"
  using assms
proof (cases rule: scalar_ranges)
  case one
  then show ?thesis by (simp add: decode_1 del: decode_head.simps)
next
  case two
  then show ?thesis
    by (simp add: decode_2 digits decode_tail_Suc [of _ 0, simplified] del: decode_head.simps)
next
  case three
  then show ?thesis
    by (simp add: decode_3 digits decode_tail_Suc [of _ 0, simplified] del: decode_head.simps)
next
  case four
  then show ?thesis
    by (simp add: decode_4 digits numeral_2_eq_2 decode_tail_Suc del: decode_head.simps)
qed

lemma decode_tail_append:
  "decode_tail n w acc bs \<noteq> Cut \<Longrightarrow> decode_tail n w acc (bs @ r) = decode_tail n w acc bs"
  by (induction n w acc bs rule: decode_tail.induct) auto

lemma decode_head_append:
  assumes "decode_head bs \<noteq> Cut"
  shows "decode_head (bs @ r) = decode_head bs"
proof (cases bs)
  case (Cons b cs)
  with assms show ?thesis by (cases cs) (auto simp: decode_tail_append)
qed (use assms in simp)

subsection \<open>Decoding is sound\<close>

lemma byte_of_unat [simp]: "byte_of (unat b) = b"
  by (simp add: byte_of_def)

lemma byte_shift: "n \<le> unat b \<Longrightarrow> b = byte_of (n + (unat b - n))"
  by simp

lemma cont_byte: "is_cont b \<Longrightarrow> b = byte_of (0x80 + low6 b) \<and> low6 b < 64"
  by (auto simp: is_cont_def low6_def byte_arith)

lemma second3_cont: "second3 b c \<Longrightarrow> is_cont c"
  by (auto simp: second3_def is_cont_def byte_arith split: if_splits)

lemma second4_cont: "second4 b c \<Longrightarrow> is_cont c"
  by (auto simp: second4_def is_cont_def byte_arith split: if_splits)

lemma decode_tail_1:
  "decode_tail (Suc 0) w acc bs = Scalar c k \<longleftrightarrow>
    (\<exists>d ds. bs = d # ds \<and> is_cont d \<and> c = acc * 64 + low6 d \<and> k = w)"
  by (cases bs) auto

lemma decode_tail_2:
  "decode_tail 2 w acc bs = Scalar c k \<longleftrightarrow>
    (\<exists>d e ds. bs = d # e # ds \<and> is_cont d \<and> is_cont e \<and> c = (acc * 64 + low6 d) * 64 + low6 e \<and> k = w)"
  by (cases bs) (auto simp: numeral_2_eq_2 decode_tail_1)

lemma encode_2:
  assumes "2 \<le> a" "a < 32" "m < 64"
  shows "encode_char (a * 64 + m) = [byte_of (0xC0 + a), byte_of (0x80 + m)] \<and> is_scalar (a * 64 + m)"
  using assms by (simp add: encode_char_def is_scalar_def)

lemma encode_3:
  assumes "a < 16" "b < 64" "m < 64" "a = 0 \<longrightarrow> 32 \<le> b" "a = 13 \<longrightarrow> b < 32"
  shows "encode_char ((a * 64 + b) * 64 + m) = [byte_of (0xE0 + a), byte_of (0x80 + b), byte_of (0x80 + m)] \<and>
    is_scalar ((a * 64 + b) * 64 + m)"
proof -
  let ?c = "(a * 64 + b) * 64 + m"
  from assms have r: "0x800 \<le> ?c" "?c < 0x10000" by (cases "a = 0"; simp)+
  have d: "?c div 64 = a * 64 + b" using assms(3) by simp
  have "?c div 4096 = ?c div 64 div 64" by (simp add: div_mult2_eq [of ?c 64 64, simplified])
  also have "\<dots> = a" unfolding d using assms(2) by simp
  finally have "?c div 4096 = a" .
  moreover have "?c div 64 mod 64 = b" unfolding d using assms(2) by simp
  moreover have "?c mod 64 = m" using assms(3) by (metis mod_less mod_mult_self3)
  ultimately have "encode_char ?c = [byte_of (0xE0 + a), byte_of (0x80 + b), byte_of (0x80 + m)]"
    using r by (simp only: encode_char_def) simp
  moreover have "?c < 0xD800 \<or> 0xDFFF < ?c"
  proof -
    have lin: "?c = 4096 * a + 64 * b + m" by simp
    consider "a < 13" | "a = 13" | "13 < a" by linarith
    then show ?thesis
    proof cases
      case 1
      with assms(2,3) have "?c < 0xD800" unfolding lin by linarith
      then show ?thesis ..
    next
      case 2
      with assms(3,5) have "?c < 0xD800" by simp
      then show ?thesis ..
    next
      case 3
      then have "0xDFFF < ?c" unfolding lin by linarith
      then show ?thesis ..
    qed
  qed
  then have "is_scalar ?c" using r unfolding is_scalar_def by linarith
  ultimately show ?thesis by blast
qed

lemma encode_4:
  assumes "a \<le> 4" "b < 64" "m < 64" "n < 64" "a = 0 \<longrightarrow> 16 \<le> b" "a = 4 \<longrightarrow> b < 16"
  shows "encode_char (((a * 64 + b) * 64 + m) * 64 + n) =
      [byte_of (0xF0 + a), byte_of (0x80 + b), byte_of (0x80 + m), byte_of (0x80 + n)] \<and>
    is_scalar (((a * 64 + b) * 64 + m) * 64 + n)"
proof -
  let ?c = "((a * 64 + b) * 64 + m) * 64 + n"
  have r1: "0x10000 \<le> ?c" using assms by (cases "a = 0") simp_all
  have r2: "?c < 0x110000" using assms by (cases "a = 4") simp_all
  note r = r1 r2
  have d: "?c div 64 = (a * 64 + b) * 64 + m" using assms(4) by simp
  have "?c div 4096 = ?c div 64 div 64" using div_mult2_eq [of ?c 64 64] by simp
  then have d2: "?c div 4096 = a * 64 + b" unfolding d using assms(3) by simp
  have "?c div 262144 = ?c div 4096 div 64" using div_mult2_eq [of ?c 4096 64] by simp
  then have d3: "?c div 262144 = a" unfolding d2 using assms(2) by simp
  have "?c div 4096 mod 64 = b" unfolding d2 using assms(2) by simp
  moreover have "?c div 64 mod 64 = m" unfolding d using assms(3) by (metis mod_less mod_mult_self3)
  moreover have "?c mod 64 = n" using assms(4) by (metis mod_less mod_mult_self3)
  ultimately have "encode_char ?c = [byte_of (0xF0 + a), byte_of (0x80 + b), byte_of (0x80 + m), byte_of (0x80 + n)]"
    using r d3 by (simp only: encode_char_def) simp
  moreover have "is_scalar ?c" using r unfolding is_scalar_def by linarith
  ultimately show ?thesis by blast
qed

lemma decode_head_sound:
  assumes h: "decode_head bs = Scalar c k"
  shows "is_scalar c \<and> k = length (encode_char c) \<and> (\<exists>r. bs = encode_char c @ r)"
proof (cases bs)
  case (Cons b cs)
  consider "b < 0x80" | "0xC2 \<le> b \<and> b \<le> 0xDF" | "0xE0 \<le> b \<and> b \<le> 0xEF" | "0xF0 \<le> b \<and> b \<le> 0xF4"
    using h by (auto simp: Cons split: if_splits)
  then show ?thesis
  proof cases
    case 1
    then show ?thesis using h by (auto simp: Cons encode_char_def is_scalar_def byte_arith)
  next
    case 2
    define a where "a = unat b - 0xC0"
    from 2 have a: "2 \<le> a" "a < 32" "b = byte_of (0xC0 + a)" by (auto simp: a_def byte_arith)
    from h Cons a have "decode_tail (Suc 0) 2 a cs = Scalar c k" by (simp add: decode_2 del: decode_head.simps)
    then obtain d ds where "cs = d # ds" "is_cont d" "c = a * 64 + low6 d" "k = 2" by (auto simp: decode_tail_1)
    with a cont_byte [of d] encode_2 [of a "low6 d"] show ?thesis by (auto simp: Cons)
  next
    case 3
    define a where "a = unat b - 0xE0"
    from 3 have a: "a < 16" "b = byte_of (0xE0 + a)" by (auto simp: a_def byte_arith)
    from h 3 obtain e es where cs: "cs = e # es" "second3 b e"
      by (cases cs) (auto simp: Cons byte_arith split: if_splits)
    let ?m = "low6 e"
    from second3_cont [OF cs(2)] cont_byte have e: "e = byte_of (0x80 + ?m)" "?m < 64" by blast+
    from cs(2) have v: "a = 0 \<longrightarrow> 32 \<le> ?m" "a = 13 \<longrightarrow> ?m < 32"
      using second3_byte_of [OF a(1) e(2)] a(2) e(1) by metis+
    have "decode_tail 1 3 (a * 64 + ?m) es = Scalar c k"
      using h decode_3 [OF a(1) e(2) v, of es] a(2) e(1) unfolding Cons cs(1) by metis
    then obtain d ds where "es = d # ds" "is_cont d" "c = (a * 64 + ?m) * 64 + low6 d" "k = 3"
      by (auto simp: decode_tail_1)
    with a e v cont_byte [of d] encode_3 [of a ?m "low6 d"] show ?thesis by (auto simp: Cons cs(1))
  next
    case 4
    define a where "a = unat b - 0xF0"
    from 4 have a: "a \<le> 4" "b = byte_of (0xF0 + a)" by (auto simp: a_def byte_arith)
    from h 4 obtain e es where cs: "cs = e # es" "second4 b e"
      by (cases cs) (auto simp: Cons byte_arith split: if_splits)
    let ?m = "low6 e"
    from second4_cont [OF cs(2)] cont_byte have e: "e = byte_of (0x80 + ?m)" "?m < 64" by blast+
    from cs(2) have v: "a = 0 \<longrightarrow> 16 \<le> ?m" "a = 4 \<longrightarrow> ?m < 16"
      using second4_byte_of [OF a(1) e(2)] a(2) e(1) by metis+
    have "decode_tail 2 4 (a * 64 + ?m) es = Scalar c k"
      using h decode_4 [OF a(1) e(2) v, of es] a(2) e(1) unfolding Cons cs(1) by metis
    then obtain d g ds where "es = d # g # ds" "is_cont d" "is_cont g"
        "c = ((a * 64 + ?m) * 64 + low6 d) * 64 + low6 g" "k = 4"
      by (auto simp: decode_tail_2)
    with a e v cont_byte [of d] cont_byte [of g] encode_4 [of a ?m "low6 d" "low6 g"] show ?thesis
      by (auto simp: Cons cs(1))
  qed
qed (use h in simp)

text \<open>A proper part of the encoding of one character is a cut.\<close>

lemma decode_cut_char:
  assumes s: "is_scalar c" and e: "encode_char c = a @ b" and b: "b \<noteq> []"
  shows "decode_head a = Cut"
proof (rule ccontr)
  assume "decode_head a \<noteq> Cut"
  then have "decode_head (a @ b) = decode_head a" by (rule decode_head_append)
  with decode_encode_char [OF s, of "[]"] e have h: "decode_head a = Scalar c (length (a @ b))" by simp
  from decode_head_sound [OF this] e have "length a \<ge> length (a @ b)" by (metis length_append le_add1)
  with b show False by simp
qed

subsection \<open>Decoding a text\<close>

definition scalars :: "ustr \<Rightarrow> bool" where
  "scalars s \<longleftrightarrow> list_all is_scalar s"

lemma encode_char_ne [simp]: "encode_char c \<noteq> []"
  by (simp add: encode_char_def)

lemma utf8_encode_simps [simp]: "utf8_encode [] = []" "utf8_encode (c # s) = encode_char c @ utf8_encode s"
  "utf8_encode (s @ t) = utf8_encode s @ utf8_encode t"
  by (simp_all add: utf8_encode_def)

lemma from_utf8_at_encode:
  "scalars s \<Longrightarrow> from_utf8_at i (utf8_encode s @ q) =
     map_sum id (\<lambda>t. s @ t) (from_utf8_at (i + length (utf8_encode s)) q)"
proof (induction s arbitrary: i)
  case Nil
  show ?case by (cases "from_utf8_at i q") simp_all
next
  case (Cons c s)
  obtain b bs where b: "encode_char c = b # bs" by (cases "encode_char c") simp_all
  from Cons.prems have c: "is_scalar c" and s: "scalars s" by (simp_all add: scalars_def)
  have "from_utf8_at i (encode_char c @ utf8_encode s @ q) =
      map_sum id (\<lambda>t. c # t) (from_utf8_at (i + length (encode_char c)) (utf8_encode s @ q))"
    using decode_encode_char [OF c, of "utf8_encode s @ q"] by (simp add: b from_utf8_at.simps(2) del: decode_head.simps)
  with Cons.IH [OF s] show ?case
    by (cases "from_utf8_at (i + length (encode_char c) + length (utf8_encode s)) q") (simp_all add: add.assoc)
qed

lemma from_utf8_at_shift: "from_utf8_at (i + j) bs = map_sum (apfst ((+) i)) id (from_utf8_at j bs)"
proof (induction j bs rule: from_utf8_at.induct)
  case (2 j b bs)
  show ?case
  proof (cases "decode_head (b # bs)")
    case (Scalar c k)
    with 2 show ?thesis
      by (cases "from_utf8_at (j + k) (drop k (b # bs))")
         (simp_all add: from_utf8_at.simps(2) add.assoc del: decode_head.simps)
  qed (simp_all add: from_utf8_at.simps(2) del: decode_head.simps)
qed simp

lemma from_utf8_encode:
  "scalars s \<Longrightarrow> from_utf8 (utf8_encode s @ q) =
    map_sum (apfst ((+) (length (utf8_encode s)))) (\<lambda>t. s @ t) (from_utf8 q)"
  using from_utf8_at_encode [of s 0 q] from_utf8_at_shift [of "length (utf8_encode s)" 0 q]
  by (cases "from_utf8_at 0 q") (simp_all add: from_utf8_def)

lemma from_utf8_round_trip: "scalars s \<Longrightarrow> from_utf8 (utf8_encode s) = Inr s"
  using from_utf8_encode [of s "[]"] by (simp add: from_utf8_def)

text \<open>Any bytes are the encoding of a text and a rest that does not start with a character.\<close>

lemma decode_parts:
  "\<exists>s q. bs = utf8_encode s @ q \<and> scalars s \<and> (q = [] \<or> (\<forall>c k. decode_head q \<noteq> Scalar c k))"
proof (induction "length bs" arbitrary: bs rule: less_induct)
  case less
  show ?case
  proof (cases "bs = [] \<or> (\<forall>c k. decode_head bs \<noteq> Scalar c k)")
    case True
    then show ?thesis by (intro exI [of _ "[]"] exI [of _ bs]) (simp add: scalars_def)
  next
    case False
    then obtain c k r where c: "is_scalar c" "bs = encode_char c @ r" using decode_head_sound by blast
    then have "length r < length bs" by (cases "encode_char c") simp_all
    from less [OF this] obtain s q where "r = utf8_encode s @ q" "scalars s" "q = [] \<or> (\<forall>c k. decode_head q \<noteq> Scalar c k)"
      by blast
    with c show ?thesis by (intro exI [of _ "c # s"] exI [of _ q]) (simp add: scalars_def)
  qed
qed

lemma from_utf8_rest:
  "q \<noteq> [] \<Longrightarrow> decode_head q = Cut \<Longrightarrow> from_utf8 q = Inl (0, None)"
  "q \<noteq> [] \<Longrightarrow> decode_head q = Malformed k \<Longrightarrow> from_utf8 q = Inl (0, Some k)"
  by (cases q; simp add: from_utf8_def from_utf8_at.simps(2) del: decode_head.simps)+

text \<open>The three answers of \<open>from_utf8\<close>.\<close>

lemma from_utf8_cases:
  obtains (valid) s where "bs = utf8_encode s" "scalars s" "from_utf8 bs = Inr s"
  | (cut) s q where "bs = utf8_encode s @ q" "scalars s" "q \<noteq> []" "decode_head q = Cut"
      "from_utf8 bs = Inl (length (utf8_encode s), None)"
  | (malformed) s q k where "bs = utf8_encode s @ q" "scalars s" "q \<noteq> []" "decode_head q = Malformed k"
      "from_utf8 bs = Inl (length (utf8_encode s), Some k)"
proof -
  from decode_parts obtain s q where b: "bs = utf8_encode s @ q" "scalars s"
    and q: "q = [] \<or> (\<forall>c k. decode_head q \<noteq> Scalar c k)" by blast
  show thesis
  proof (cases "q = []")
    case True
    with b show ?thesis by (intro valid) (simp_all add: from_utf8_round_trip)
  next
    case False
    with q b show ?thesis
      using cut malformed from_utf8_encode [OF b(2), of q] from_utf8_rest [OF False]
      by (cases "decode_head q") simp_all
  qed
qed

end
