(* ===== verification/Utf8_Stream.thy ===== *)
theory Utf8_Stream
  imports Stream_Text Utf8
begin

section \<open>Parsers of streamed bytes (utils/stream-parser/src/utf8_stream.rs)\<close>

text \<open>
  \<open>Utf8StreamParser\<close> wraps any parser of streamed text: it keeps the bytes of a character that
  is not complete yet and rolls a chunk back that is not UTF-8. The wrapped parser's operations
  are arguments; a push returns \<open>None\<close> when the wrapped push does. What the wrapper promises is
  proved once, under the contract of the wrapped parser.
\<close>

datatype utf8_stream_error =
    InvalidUtf8 nat nat
  | IncompleteUtf8AtEof

record 'p utf8_stream_parser =
  inner_parser :: 'p
  pending_utf8 :: "byte list"

definition utf8_new :: "'p \<Rightarrow> 'p utf8_stream_parser" where
  "utf8_new inner = \<lparr>inner_parser = inner, pending_utf8 = []\<rparr>"

definition unwrap_or_zero :: "nat option \<Rightarrow> nat" where
  "unwrap_or_zero o' = (case o' of Some n \<Rightarrow> n | None \<Rightarrow> 0)"

definition push_bytes ::
    "('p \<Rightarrow> ustr \<Rightarrow> ('e stream_chunk \<times> 'p) option) \<Rightarrow> 'p utf8_stream_parser \<Rightarrow> byte list \<Rightarrow>
     ((utf8_stream_error + 'e stream_chunk) \<times> 'p utf8_stream_parser) option" where
  "push_bytes push p chunk =
    (let old_len = length (pending_utf8 p);
         buffered = pending_utf8 p @ chunk
     in case from_utf8 buffered of
          Inr decoded \<Rightarrow>
            (case push (inner_parser p) decoded of
               None \<Rightarrow> None
             | Some (out, inner) \<Rightarrow> Some (Inr out, \<lparr>inner_parser = inner, pending_utf8 = []\<rparr>))
        | Inl (valid_up_to, Some error_len) \<Rightarrow>
            Some (Inl (InvalidUtf8 valid_up_to error_len), p\<lparr>pending_utf8 := take old_len buffered\<rparr>)
        | Inl (valid_up_to, None) \<Rightarrow>
            if valid_up_to = 0 then Some (Inr chunk_default, p\<lparr>pending_utf8 := buffered\<rparr>)
            else (case from_utf8 (take valid_up_to buffered) of
                Inl (prefix_valid, prefix_len) \<Rightarrow>
                  Some (Inl (InvalidUtf8 prefix_valid (unwrap_or_zero prefix_len)),
                        p\<lparr>pending_utf8 := take old_len buffered\<rparr>)
              | Inr decoded \<Rightarrow>
                  (case push (inner_parser p) decoded of
                     None \<Rightarrow> None
                   | Some (out, inner) \<Rightarrow>
                       Some (Inr out, \<lparr>inner_parser = inner, pending_utf8 = drop valid_up_to buffered\<rparr>))))"

text \<open>The error of bytes that are buffered at the end.\<close>

definition undecoded :: "byte list \<Rightarrow> utf8_stream_error option" where
  "undecoded bs = (case from_utf8 bs of
     Inr _ \<Rightarrow> None
   | Inl (valid_up_to, Some error_len) \<Rightarrow> Some (InvalidUtf8 valid_up_to error_len)
   | Inl (_, None) \<Rightarrow> Some IncompleteUtf8AtEof)"

definition finish_bytes ::
    "('p \<Rightarrow> ustr \<Rightarrow> ('e stream_chunk \<times> 'p) option) \<Rightarrow> ('p \<Rightarrow> 'e stream_chunk \<times> 'p) \<Rightarrow>
     'p utf8_stream_parser \<Rightarrow> ((utf8_stream_error + 'e stream_chunk) \<times> 'p utf8_stream_parser) option" where
  "finish_bytes push finish p =
    (case (if pending_utf8 p \<noteq> [] then undecoded (pending_utf8 p) else None) of
       Some e \<Rightarrow> Some (Inl e, p)
     | None \<Rightarrow>
         (case (if pending_utf8 p = [] then Some (Inr chunk_default, p)
                else (case from_utf8 (pending_utf8 p) of
                    Inl (valid_up_to, error_len) \<Rightarrow> Some (Inl (InvalidUtf8 valid_up_to (unwrap_or_zero error_len)), p)
                  | Inr decoded \<Rightarrow>
                      (case push (inner_parser p) decoded of
                         None \<Rightarrow> None
                       | Some (out, inner) \<Rightarrow> Some (Inr out, \<lparr>inner_parser = inner, pending_utf8 = []\<rparr>)))) of
            None \<Rightarrow> None
          | Some (Inl e, p') \<Rightarrow> Some (Inl e, p')
          | Some (Inr out, p') \<Rightarrow>
              (case finish (inner_parser p') of
                 (tail, inner) \<Rightarrow> Some (Inr (chunk_append out tail), p'\<lparr>inner_parser := inner\<rparr>))))"

definition into_inner :: "'p utf8_stream_parser \<Rightarrow> utf8_stream_error + 'p" where
  "into_inner p = (if pending_utf8 p = [] then Inr (inner_parser p)
     else (case undecoded (pending_utf8 p) of None \<Rightarrow> Inr (inner_parser p) | Some e \<Rightarrow> Inl e))"

definition into_inner_lossy :: "'p utf8_stream_parser \<Rightarrow> 'p" where
  "into_inner_lossy p = inner_parser p"

text \<open>Pushing chunks up to the first error, and finishing.\<close>

fun push_all_bytes ::
    "('p \<Rightarrow> ustr \<Rightarrow> ('e stream_chunk \<times> 'p) option) \<Rightarrow> 'e stream_chunk \<Rightarrow> 'p utf8_stream_parser \<Rightarrow>
     byte list list \<Rightarrow> ((utf8_stream_error + 'e stream_chunk) \<times> 'p utf8_stream_parser) option" where
  "push_all_bytes push out p [] = Some (Inr out, p)"
| "push_all_bytes push out p (c # cs) = (case push_bytes push p c of
     None \<Rightarrow> None
   | Some (Inl e, p') \<Rightarrow> Some (Inl e, p')
   | Some (Inr o1, p') \<Rightarrow> push_all_bytes push (chunk_append out o1) p' cs)"

definition collect_bytes ::
    "('p \<Rightarrow> ustr \<Rightarrow> ('e stream_chunk \<times> 'p) option) \<Rightarrow> ('p \<Rightarrow> 'e stream_chunk \<times> 'p) \<Rightarrow>
     'p utf8_stream_parser \<Rightarrow> byte list list \<Rightarrow> (utf8_stream_error + 'e stream_chunk) option" where
  "collect_bytes push finish p chunks = (case push_all_bytes push chunk_default p chunks of
     None \<Rightarrow> None
   | Some (Inl e, _) \<Rightarrow> Some (Inl e)
   | Some (Inr out, p') \<Rightarrow> (case finish_bytes push finish p' of
        None \<Rightarrow> None
      | Some (Inl e, _) \<Rightarrow> Some (Inl e)
      | Some (Inr tail, _) \<Rightarrow> Some (Inr (chunk_append out tail))))"

subsection \<open>One push\<close>

text \<open>A push either rolls back, or hands on the complete characters and keeps a cut one.\<close>

lemma push_bytes_cases:
  obtains (decoded) s q where "pending_utf8 p @ chunk = utf8_encode s @ q" "scalars s" "q = [] \<or> decode_head q = Cut"
      "push_bytes push p chunk = (if s = [] \<and> q \<noteq> [] then Some (Inr chunk_default, p\<lparr>pending_utf8 := q\<rparr>)
         else map_option (\<lambda>(out, inner). (Inr out, \<lparr>inner_parser = inner, pending_utf8 = q\<rparr>)) (push (inner_parser p) s))"
  | (rejected) v k where "from_utf8 (pending_utf8 p @ chunk) = Inl (v, Some k)"
      "push_bytes push p chunk = Some (Inl (InvalidUtf8 v k), p)"
proof (cases rule: from_utf8_cases [of "pending_utf8 p @ chunk"])
  case (valid s)
  show ?thesis
    by (rule decoded [of s "[]"])
       (use valid in \<open>auto simp: push_bytes_def Let_def split: option.split\<close>)
next
  case (cut s q)
  have "from_utf8 (take (length (utf8_encode s)) (pending_utf8 p @ chunk)) = Inr s"
    using cut by (simp add: from_utf8_round_trip)
  moreover have "utf8_encode s = [] \<longleftrightarrow> s = []" by (cases s) simp_all
  ultimately show ?thesis using cut
    by (intro decoded [of s q]) (auto simp: push_bytes_def Let_def split: option.split)
next
  case (malformed s q k)
  have "p\<lparr>pending_utf8 := take (length (pending_utf8 p)) (pending_utf8 p @ chunk)\<rparr> = p" by simp
  with malformed(5) have "push_bytes push p chunk = Some (Inl (InvalidUtf8 (length (utf8_encode s)) k), p)"
    by (simp add: push_bytes_def Let_def)
  with malformed show ?thesis by (intro rejected [of "length (utf8_encode s)" k]) simp_all
qed

lemma push_bytes_rollback:
  "push_bytes push p chunk = Some (Inl e, p') \<Longrightarrow> p' = p \<and>
     (\<exists>v k. e = InvalidUtf8 v k \<and> from_utf8 (pending_utf8 p @ chunk) = Inl (v, Some k))"
proof (cases rule: push_bytes_cases [of p chunk push])
  case (decoded s q)
  moreover assume "push_bytes push p chunk = Some (Inl e, p')"
  ultimately show ?thesis by (cases "push (inner_parser p) s") (auto split: if_splits)
qed simp

lemma from_utf8_malformed_append:
  assumes "from_utf8 bs = Inl (v, Some k)"
  shows "from_utf8 (bs @ r) = Inl (v, Some k)"
proof (cases rule: from_utf8_cases [of bs])
  case (malformed s q k')
  with assms have k: "k' = k" "v = length (utf8_encode s)" by simp_all
  from malformed(4) have "decode_head (q @ r) = Malformed k'" using decode_head_append [of q r] by simp
  with malformed(3) have "from_utf8 (q @ r) = Inl (0, Some k')" by (intro from_utf8_rest) simp_all
  with malformed(1) from_utf8_encode [OF malformed(2), of "q @ r"] k show ?thesis by simp
qed (use assms in simp_all)

lemma from_utf8_split:
  assumes "scalars s" and "from_utf8 q = Inl (v, e)"
  shows "from_utf8 (utf8_encode s @ q) = Inl (length (utf8_encode s) + v, e)"
  using from_utf8_encode [OF assms(1), of q] assms(2) by simp

lemma scalars_append [simp]: "scalars (s @ t) \<longleftrightarrow> scalars s \<and> scalars t"
  by (simp add: scalars_def)

lemma scalars_Nil [simp]: "scalars []"
  by (simp add: scalars_def)

subsection \<open>The wrapper is transparent\<close>

context stream_text_parser
begin

definition bytes_inv :: "'s \<Rightarrow> byte list \<Rightarrow> 's utf8_stream_parser \<Rightarrow> 'e stream_chunk \<Rightarrow> bool" where
  "bytes_inv p0 b p out \<longleftrightarrow> (\<exists>s o1. b = utf8_encode s @ pending_utf8 p \<and> scalars s \<and>
     (pending_utf8 p = [] \<or> decode_head (pending_utf8 p) = Cut) \<and>
     push p0 s = Some (o1, inner_parser p) \<and> meaning out = meaning o1)"

lemma bytes_inv_step:
  assumes "ok p0" and inv: "bytes_inv p0 b p out"
  shows "(\<exists>o1 p'. push_bytes push p chunk = Some (Inr o1, p') \<and> bytes_inv p0 (b @ chunk) p' (chunk_append out o1)) \<or>
    (\<exists>v v' k. push_bytes push p chunk = Some (Inl (InvalidUtf8 v k), p) \<and> from_utf8 (b @ chunk) = Inl (v', Some k))"
proof -
  from inv obtain s on where b: "b = utf8_encode s @ pending_utf8 p" and s: "scalars s"
    and p0: "push p0 s = Some (on, inner_parser p)" and m: "meaning out = meaning on"
    unfolding bytes_inv_def by blast
  show ?thesis
  proof (cases rule: push_bytes_cases [of p chunk push])
    case (decoded t q)
    have bc: "b @ chunk = utf8_encode (s @ t) @ q" using b decoded(1) by simp
    show ?thesis
    proof (cases "t = [] \<and> q \<noteq> []")
      case True
      with decoded bc s p0 m have "push_bytes push p chunk = Some (Inr chunk_default, p\<lparr>pending_utf8 := q\<rparr>)"
        and "bytes_inv p0 (b @ chunk) (p\<lparr>pending_utf8 := q\<rparr>) out"
        by (auto simp: bytes_inv_def)
      then show ?thesis by auto
    next
      case False
      from push_returns [OF push_ok [OF assms(1) p0], of t] obtain o2 p2
        where t: "push (inner_parser p) t = Some (o2, p2)" by blast
      from push_append [OF assms(1) p0 t] obtain on' where st: "push p0 (s @ t) = Some (on', p2)"
        and "meaning on' = meaning (chunk_append on o2)" by blast
      with meaning_join [OF m refl, of o2] have "meaning (chunk_append out o2) = meaning on'" by simp
      with st bc s decoded(2,3) have "bytes_inv p0 (b @ chunk) \<lparr>inner_parser = p2, pending_utf8 = q\<rparr> (chunk_append out o2)"
        unfolding bytes_inv_def by (intro exI [of _ "s @ t"] exI [of _ on']) simp
      moreover from False decoded(4) t have "push_bytes push p chunk = Some (Inr o2, \<lparr>inner_parser = p2, pending_utf8 = q\<rparr>)"
        by auto
      ultimately show ?thesis by blast
    qed
  next
    case (rejected v k)
    from from_utf8_split [OF s rejected(1)] b rejected(2) show ?thesis by auto
  qed
qed

lemma push_all_bytes_inv:
  assumes "ok p0"
  shows "bytes_inv p0 b p out \<Longrightarrow>
    (\<exists>out' p'. push_all_bytes push out p chunks = Some (Inr out', p') \<and> bytes_inv p0 (b @ concat chunks) p' out') \<or>
    (\<exists>v v' k p'. push_all_bytes push out p chunks = Some (Inl (InvalidUtf8 v k), p') \<and>
       from_utf8 (b @ concat chunks) = Inl (v', Some k))"
proof (induction chunks arbitrary: b p out)
  case (Cons c cs)
  from bytes_inv_step [OF assms Cons.prems, of c] show ?case
  proof (elim disjE exE conjE)
    fix o1 p' assume s: "push_bytes push p c = Some (Inr o1, p')" and i: "bytes_inv p0 (b @ c) p' (chunk_append out o1)"
    from Cons.IH [OF i] s show ?case by simp
  next
    fix v v' k assume s: "push_bytes push p c = Some (Inl (InvalidUtf8 v k), p)" and f: "from_utf8 (b @ c) = Inl (v', Some k)"
    from from_utf8_malformed_append [OF f, of "concat cs"] s show ?case by simp
  qed
qed simp

lemma collect_bytes_decodes:
  assumes "ok p0"
  shows "case from_utf8 (concat chunks) of
      Inr s \<Rightarrow> (\<exists>o1 o2. collect_bytes push finish (utf8_new p0) chunks = Some (Inr o1) \<and>
        collect_chunks push finish chunk_append chunk_default p0 [s] = Some o2 \<and> meaning o1 = meaning o2)
    | Inl (v, Some k) \<Rightarrow> (\<exists>v'. collect_bytes push finish (utf8_new p0) chunks = Some (Inl (InvalidUtf8 v' k)))
    | Inl (v, None) \<Rightarrow> collect_bytes push finish (utf8_new p0) chunks = Some (Inl IncompleteUtf8AtEof)"
proof -
  have "bytes_inv p0 [] (utf8_new p0) chunk_default"
    using push_nil [OF assms] by (auto simp: bytes_inv_def utf8_new_def intro!: exI [of _ "[]"])
  from push_all_bytes_inv [OF assms this, of chunks] show ?thesis
  proof (elim disjE exE conjE)
    fix out p' assume pb: "push_all_bytes push chunk_default (utf8_new p0) chunks = Some (Inr out, p')"
      and "bytes_inv p0 ([] @ concat chunks) p' out"
    then obtain s on where c: "concat chunks = utf8_encode s @ pending_utf8 p'" and s: "scalars s"
      and q: "pending_utf8 p' = [] \<or> decode_head (pending_utf8 p') = Cut"
      and p0: "push p0 s = Some (on, inner_parser p')" and m: "meaning out = meaning on"
      unfolding bytes_inv_def by auto
    show ?thesis
    proof (cases "pending_utf8 p' = []")
      case True
      with c s have "from_utf8 (concat chunks) = Inr s" by (simp add: from_utf8_round_trip)
      moreover from pb True have "collect_bytes push finish (utf8_new p0) chunks =
          Some (Inr (chunk_append out (fst (finish (inner_parser p')))))"
        by (simp add: collect_bytes_def finish_bytes_def split: prod.split)
      moreover from p0 have "collect_chunks push finish chunk_append chunk_default p0 [s] =
          Some (chunk_append on (fst (finish (inner_parser p'))))"
        by (simp add: collect_chunks_def)
      ultimately show ?thesis using meaning_join [OF m refl] by simp
    next
      case False
      with q have f: "from_utf8 (pending_utf8 p') = Inl (0, None)" by (simp add: from_utf8_rest)
      from from_utf8_split [OF s f] c have "from_utf8 (concat chunks) = Inl (length (utf8_encode s), None)" by simp
      moreover from pb False f have "collect_bytes push finish (utf8_new p0) chunks = Some (Inl IncompleteUtf8AtEof)"
        by (simp add: collect_bytes_def finish_bytes_def undecoded_def)
      ultimately show ?thesis by simp
    qed
  next
    fix v v' k p' assume "push_all_bytes push chunk_default (utf8_new p0) chunks = Some (Inl (InvalidUtf8 v k), p')"
      and "from_utf8 ([] @ concat chunks) = Inl (v', Some k)"
    then show ?thesis by (auto simp: collect_bytes_def)
  qed
qed

end

end
