(* ===== verification/Assistant_Text.thy ===== *)
theory Assistant_Text
  imports Inline_Tags Tagged_Lines Utf8_Stream
begin

section \<open>Citations and the assistant's text (citation.rs, assistant_text.rs)\<close>

text \<open>
  \<open>CitationStreamParser\<close> is the inline tag parser with one tag; \<open>AssistantTextStreamParser\<close> runs
  it first and, in plan mode, the plan parser on what it leaves visible. Both keep the contract
  of the streamed text parsers, the second from the contracts of its two parts.
\<close>

subsection \<open>Citations\<close>

datatype citation_tag = Citation

definition CITATION_OPEN :: ustr where "CITATION_OPEN = lit ''<oai-mem-citation>''"
definition CITATION_CLOSE :: ustr where "CITATION_CLOSE = lit ''</oai-mem-citation>''"

definition citation_spec :: "citation_tag inline_tag_spec" where
  "citation_spec = \<lparr>spec_tag = Citation, spec_open = CITATION_OPEN, spec_close = CITATION_CLOSE\<rparr>"

type_synonym citation_parser = "citation_tag inline_parser"

definition citation_new :: "citation_parser option" where
  "citation_new = inline_new [citation_spec]"

definition contents_of :: "citation_tag extracted_inline_tag stream_chunk \<Rightarrow> ustr stream_chunk" where
  "contents_of inner =
    \<lparr>visible_text = visible_text inner, extracted = map extracted_content (extracted inner)\<rparr>"

definition citation_push_str :: "citation_parser \<Rightarrow> ustr \<Rightarrow> (ustr stream_chunk \<times> citation_parser) option" where
  "citation_push_str p chunk = map_option (map_prod contents_of id) (inline_push_str p chunk)"

definition citation_finish :: "citation_parser \<Rightarrow> ustr stream_chunk \<times> citation_parser" where
  "citation_finish p = map_prod contents_of id (inline_finish p)"

definition strip_citations :: "ustr \<Rightarrow> (ustr \<times> ustr list) option" where
  "strip_citations s = (case citation_new of None \<Rightarrow> None
     | Some p \<Rightarrow> (case citation_push_str p s of None \<Rightarrow> None
         | Some (out, p') \<Rightarrow> (case citation_finish p' of (tail, _) \<Rightarrow>
             Some (visible_text out @ visible_text tail, extracted out @ extracted tail))))"

lemma contents_of_simps [simp]:
  "contents_of (chunk_append a b) = chunk_append (contents_of a) (contents_of b)"
  "contents_of chunk_default = chunk_default"
  "visible_text (contents_of c) = visible_text c"
  "extracted (contents_of c) = map extracted_content (extracted c)"
  by (simp_all add: contents_of_def chunk_append_def chunk_default_def)

interpretation citation: stream_text_parser citation_push_str citation_finish inline_ok id
proof
  fix p t u o1 o2 p1 p2
  show "inline_ok p \<Longrightarrow> citation_push_str p [] = Some (chunk_default, p)"
    by (simp add: citation_push_str_def inline.push_nil)
  show "inline_ok p \<Longrightarrow> \<exists>out p'. citation_push_str p t = Some (out, p') \<and> inline_ok p'"
    using inline.push_returns [of p t] by (auto simp: citation_push_str_def)
  assume "inline_ok p" "citation_push_str p t = Some (o1, p1)" "citation_push_str p1 u = Some (o2, p2)"
  then show "\<exists>out. citation_push_str p (t @ u) = Some (out, p2) \<and> id out = id (chunk_append o1 o2)"
    using inline_push_append [of p t _ p1 u _ p2] by (auto simp: citation_push_str_def)
qed (auto simp: chunk_append_assoc)

definition citation_init :: citation_parser where
  "citation_init = \<lparr>specs = [citation_spec], pending = [], active = None\<rparr>"

lemma citation_new_init: "citation_new = Some citation_init"
  by (simp add: citation_new_def inline_new_def citation_init_def citation_spec_def CITATION_OPEN_def CITATION_CLOSE_def)

lemma citation_init_ok: "inline_ok citation_init"
  using citation_new_init unfolding citation_new_def by (rule inline_new_ok) simp

subsection \<open>The assistant's text\<close>

record assistant_text_chunk =
  shown_text :: ustr
  citations :: "ustr list"
  plan_segments :: "proposed_plan_segment list"

record assistant_parser =
  plan_mode :: bool
  citation_state :: citation_parser
  plan_state :: proposed_plan_parser

definition assistant_default :: assistant_text_chunk where
  "assistant_default = \<lparr>shown_text = [], citations = [], plan_segments = []\<rparr>"

definition assistant_is_empty :: "assistant_text_chunk \<Rightarrow> bool" where
  "assistant_is_empty c \<longleftrightarrow> shown_text c = [] \<and> citations c = [] \<and> plan_segments c = []"

definition assistant_new :: "bool \<Rightarrow> assistant_parser option" where
  "assistant_new mode = map_option (\<lambda>c. \<lparr>plan_mode = mode, citation_state = c, plan_state = proposed_plan_new\<rparr>) citation_new"

definition parse_visible_text :: "assistant_parser \<Rightarrow> ustr \<Rightarrow> assistant_text_chunk \<times> assistant_parser" where
  "parse_visible_text p s =
    (if \<not> plan_mode p then (assistant_default\<lparr>shown_text := s\<rparr>, p)
     else (case plan_push_str (plan_state p) s of (plan_chunk, plan') \<Rightarrow>
       (assistant_default\<lparr>shown_text := visible_text plan_chunk, plan_segments := extracted plan_chunk\<rparr>,
        p\<lparr>plan_state := plan'\<rparr>)))"

definition assistant_push_str ::
    "assistant_parser \<Rightarrow> ustr \<Rightarrow> (assistant_text_chunk \<times> assistant_parser) option" where
  "assistant_push_str p chunk = (case citation_push_str (citation_state p) chunk of
     None \<Rightarrow> None
   | Some (citation_chunk, c') \<Rightarrow>
       (case parse_visible_text (p\<lparr>citation_state := c'\<rparr>) (visible_text citation_chunk) of
          (out, p') \<Rightarrow> Some (out\<lparr>citations := extracted citation_chunk\<rparr>, p')))"

definition assistant_finish :: "assistant_parser \<Rightarrow> assistant_text_chunk \<times> assistant_parser" where
  "assistant_finish p = (case citation_finish (citation_state p) of (citation_chunk, c') \<Rightarrow>
     (case parse_visible_text (p\<lparr>citation_state := c'\<rparr>) (visible_text citation_chunk) of (out, p1) \<Rightarrow>
       (let (out', p2) =
          (if plan_mode p1 then
             (case plan_finish (plan_state p1) of (tail, plan') \<Rightarrow>
                (if \<not> chunk_is_empty tail
                 then out\<lparr>shown_text := shown_text out @ visible_text tail,
                          plan_segments := plan_segments out @ extracted tail\<rparr>
                 else out, p1\<lparr>plan_state := plan'\<rparr>))
           else (out, p1))
        in (out'\<lparr>citations := extracted citation_chunk\<rparr>, p2))))"

definition assistant_append :: "assistant_text_chunk \<Rightarrow> assistant_text_chunk \<Rightarrow> assistant_text_chunk" where
  "assistant_append a b = \<lparr>shown_text = shown_text a @ shown_text b, citations = citations a @ citations b,
     plan_segments = plan_segments a @ plan_segments b\<rparr>"

subsection \<open>The contract of the two parsers in sequence\<close>

definition assistant_meaning :: "assistant_text_chunk \<Rightarrow> ustr \<times> ustr list \<times> plan_tag text_event list" where
  "assistant_meaning c = (shown_text c, citations c, plan_events (plan_segments c))"

definition assistant_ok :: "assistant_parser \<Rightarrow> bool" where
  "assistant_ok p \<longleftrightarrow> inline_ok (citation_state p)"

lemma assistant_meaning_append [simp]:
  "assistant_meaning (assistant_append a b) =
    (fst (assistant_meaning a) @ fst (assistant_meaning b),
     fst (snd (assistant_meaning a)) @ fst (snd (assistant_meaning b)),
     snd (snd (assistant_meaning a)) @ snd (snd (assistant_meaning b)))"
  by (simp add: assistant_meaning_def assistant_append_def)

lemma parse_visible_text_nil: "parse_visible_text p [] = (assistant_default, p)"
  using plan.push_nil [of "plan_state p"]
  by (cases p) (simp add: parse_visible_text_def returning_def assistant_default_def chunk_default_def)

lemma parse_visible_text_append:
  assumes "parse_visible_text p s = (o1, p1)" and "parse_visible_text p1 t = (o2, p2)"
  shows "\<exists>out. parse_visible_text p (s @ t) = (out, p2) \<and>
    assistant_meaning out = assistant_meaning (assistant_append o1 o2)"
proof (cases "plan_mode p")
  case False
  with assms show ?thesis
    by (auto simp: parse_visible_text_def assistant_meaning_def assistant_append_def assistant_default_def)
next
  case True
  obtain c1 q1 where c1: "plan_push_str (plan_state p) s = (c1, q1)" by fastforce
  obtain c2 q2 where c2: "plan_push_str q1 t = (c2, q2)" by fastforce
  from c1 c2 plan.push_append [of "plan_state p" s c1 q1 t c2 q2]
  obtain c where "plan_push_str (plan_state p) (s @ t) = (c, q2)" "plan_meaning c = plan_meaning (chunk_append c1 c2)"
    by (auto simp: returning_def)
  with True c1 c2 assms show ?thesis
    by (auto simp: parse_visible_text_def assistant_meaning_def assistant_append_def assistant_default_def plan_meaning_def)
qed

lemma parse_visible_text_citation:
  "parse_visible_text (p\<lparr>citation_state := c\<rparr>) s = map_prod id (\<lambda>p'. p'\<lparr>citation_state := c\<rparr>) (parse_visible_text p s)"
  by (cases p) (simp add: parse_visible_text_def split: prod.split)

lemma parse_visible_text_citations: "citations (fst (parse_visible_text p s)) = []"
  by (simp add: parse_visible_text_def assistant_default_def split: prod.split)

interpretation assistant: text_stream assistant_push_str assistant_finish assistant_ok assistant_default
  assistant_append assistant_meaning
proof
  fix p t u o1 o2 p1 p2
  show "assistant_ok p \<Longrightarrow> assistant_push_str p [] = Some (assistant_default, p)"
    by (simp add: assistant_push_str_def assistant_ok_def citation.push_nil parse_visible_text_nil)
       (simp add: assistant_default_def)
  show "assistant_ok p \<Longrightarrow> \<exists>out p'. assistant_push_str p t = Some (out, p') \<and> assistant_ok p'"
  proof -
    assume "assistant_ok p"
    then obtain c s where c: "citation_push_str (citation_state p) t = Some (c, s)" "inline_ok s"
      using citation.push_returns [of "citation_state p" t] by (auto simp: assistant_ok_def)
    then show "\<exists>out p'. assistant_push_str p t = Some (out, p') \<and> assistant_ok p'"
      by (cases "parse_visible_text p (visible_text c)")
         (simp add: assistant_push_str_def assistant_ok_def parse_visible_text_citation)
  qed
  assume ok: "assistant_ok p" and 1: "assistant_push_str p t = Some (o1, p1)" and 2: "assistant_push_str p1 u = Some (o2, p2)"
  from ok obtain c1 s1 where c1: "citation_push_str (citation_state p) t = Some (c1, s1)" "inline_ok s1"
    using citation.push_returns [of "citation_state p" t] by (auto simp: assistant_ok_def)
  obtain v1 q1 where v1: "parse_visible_text p (visible_text c1) = (v1, q1)" by fastforce
  from 1 c1 v1 have o1: "o1 = v1\<lparr>citations := extracted c1\<rparr>" and p1: "p1 = q1\<lparr>citation_state := s1\<rparr>"
    by (auto simp: assistant_push_str_def parse_visible_text_citation)
  from c1(2) obtain c2 s2 where c2: "citation_push_str s1 u = Some (c2, s2)" using citation.push_returns [of s1 u] by auto
  obtain v2 q2 where v2: "parse_visible_text q1 (visible_text c2) = (v2, q2)" by fastforce
  from 2 c2 v2 p1 have o2: "o2 = v2\<lparr>citations := extracted c2\<rparr>" and p2: "p2 = q2\<lparr>citation_state := s2\<rparr>"
    by (auto simp: assistant_push_str_def parse_visible_text_citation)
  from citation.push_append [of "citation_state p" t c1 s1 u c2 s2] ok c1 c2
  have c: "citation_push_str (citation_state p) (t @ u) = Some (chunk_append c1 c2, s2)"
    by (simp add: assistant_ok_def)
  from parse_visible_text_append [OF v1 v2] obtain v where v: "parse_visible_text p (visible_text c1 @ visible_text c2) = (v, q2)"
    and m: "assistant_meaning v = assistant_meaning (assistant_append v1 v2)" by blast
  from c v have "assistant_push_str p (t @ u) = Some (v\<lparr>citations := extracted c1 @ extracted c2\<rparr>, p2)"
    by (simp add: assistant_push_str_def parse_visible_text_citation p2)
  moreover from m have "assistant_meaning (v\<lparr>citations := extracted c1 @ extracted c2\<rparr>) =
      assistant_meaning (assistant_append o1 o2)"
    by (simp add: o1 o2 assistant_meaning_def assistant_append_def)
  ultimately show "\<exists>out. assistant_push_str p (t @ u) = Some (out, p2) \<and>
      assistant_meaning out = assistant_meaning (assistant_append o1 o2)" by blast
qed (auto simp: assistant_append_def assistant_default_def assistant_meaning_def)


subsection \<open>What the assistant's text reads as\<close>

lemma citation_whole:
  "citation_push_str citation_init s = Some (c1, p1) \<Longrightarrow>
    \<exists>ext. reads [citation_spec] s (visible_text c1 @ visible_text (fst (citation_finish p1))) ext \<and>
      extracted c1 @ extracted (fst (citation_finish p1)) = map extracted_content ext"
proof -
  assume "citation_push_str citation_init s = Some (c1, p1)"
  then obtain i1 where i1: "inline_push_str citation_init s = Some (i1, p1)" and c1: "c1 = contents_of i1"
    by (auto simp: citation_push_str_def)
  then have c: "collect_chunks inline_push_str inline_finish chunk_append chunk_default citation_init [s] =
      Some (chunk_append i1 (fst (inline_finish p1)))"
    by (simp add: collect_chunks_def)
  have "inline_new [citation_spec] = Some citation_init" using citation_new_init by (simp add: citation_new_def)
  from inline_collect_reads [OF this, of "[s]"] c have "reads [citation_spec] s
      (visible_text i1 @ visible_text (fst (inline_finish p1))) (extracted i1 @ extracted (fst (inline_finish p1)))" by simp
  then show ?thesis by (auto simp: c1 citation_finish_def)
qed

definition assistant_init :: "bool \<Rightarrow> assistant_parser" where
  "assistant_init mode = \<lparr>plan_mode = mode, citation_state = citation_init, plan_state = proposed_plan_new\<rparr>"

lemma assistant_new_init: "assistant_new mode = Some (assistant_init mode)"
  by (simp add: assistant_new_def citation_new_init assistant_init_def)

lemma parse_then_finish:
  assumes "parse_visible_text (assistant_init mode) v = (out, p)"
  shows "p = (assistant_init mode)\<lparr>plan_state := plan_state p\<rparr> \<and>
    (if mode then
       shown_text out @ visible_text (fst (plan_finish (plan_state p))) = outside (plan_reading v) \<and>
       plan_events (plan_segments out @ extracted (fst (plan_finish (plan_state p)))) = plan_reading v
     else out = assistant_default\<lparr>shown_text := v\<rparr>)"
proof (cases mode)
  case False
  with assms show ?thesis by (auto simp: parse_visible_text_def assistant_init_def)
next
  case True
  obtain c q where c: "plan_push_str proposed_plan_new v = (c, q)" by fastforce
  then have "collect_chunks (returning plan_push_str) plan_finish chunk_append chunk_default proposed_plan_new [v] =
      Some (chunk_append c (fst (plan_finish q)))"
    by (simp add: collect_chunks_def returning_def)
  with plan_collect [of "[v]"] have "plan_meaning (chunk_append c (fst (plan_finish q))) = (outside (plan_reading v), plan_reading v)"
    by simp
  with True c assms show ?thesis
    by (auto simp: parse_visible_text_def assistant_init_def plan_meaning_def assistant_default_def)
qed

lemma assistant_collect_reads:
  "\<exists>out v ext. collect_chunks assistant_push_str assistant_finish assistant_append assistant_default (assistant_init mode) chunks = Some out
    \<and> reads [citation_spec] (concat chunks) v ext \<and> citations out = map extracted_content ext
    \<and> (if mode then shown_text out = outside (plan_reading v) \<and> plan_events (plan_segments out) = plan_reading v
       else shown_text out = v \<and> plan_events (plan_segments out) = [])"
proof -
  let ?p = "assistant_init mode" and ?s = "concat chunks"
  have ok: "assistant_ok ?p" by (simp add: assistant_ok_def assistant_init_def citation_init_ok)
  from citation.push_returns [OF citation_init_ok, of ?s] obtain c1 s1
    where c1: "citation_push_str citation_init ?s = Some (c1, s1)" by auto
  obtain v1 q1 where v1: "parse_visible_text ?p (visible_text c1) = (v1, q1)" by fastforce
  obtain c2 s2 where c2: "citation_finish s1 = (c2, s2)" by fastforce
  obtain v2 q2 where v2: "parse_visible_text q1 (visible_text c2) = (v2, q2)" by fastforce
  let ?v = "visible_text c1 @ visible_text c2"
  from citation_whole [OF c1] c2 obtain ext where ext: "reads [citation_spec] ?s ?v ext"
    "extracted c1 @ extracted c2 = map extracted_content ext" by auto
  from parse_visible_text_append [OF v1 v2] obtain v where v: "parse_visible_text ?p ?v = (v, q2)"
    and m: "assistant_meaning v = assistant_meaning (assistant_append v1 v2)" by blast
  have cs: "citation_state ?p = citation_init" "plan_mode ?p = mode" by (simp_all add: assistant_init_def)
  from parse_then_finish [OF v] have mode: "plan_mode q2 = mode" using cs by (metis assistant_parser.select_convs(1) assistant_parser.surjective assistant_parser.update_convs(3))
  obtain t z where t: "plan_finish (plan_state q2) = (t, z)" by fastforce
  have push: "assistant_push_str ?p ?s = Some (v1\<lparr>citations := extracted c1\<rparr>, q1\<lparr>citation_state := s1\<rparr>)"
    by (simp add: assistant_push_str_def cs c1 parse_visible_text_citation v1)
  have fin: "\<exists>out. fst (assistant_finish (q1\<lparr>citation_state := s1\<rparr>)) = out \<and> citations out = extracted c2 \<and>
      shown_text out = shown_text v2 @ (if mode then visible_text t else []) \<and>
      plan_segments out = plan_segments v2 @ (if mode then extracted t else [])"
    using v2 c2 mode t
    by (auto simp: assistant_finish_def parse_visible_text_citation chunk_is_empty_iff)
  let ?out = "assistant_append (v1\<lparr>citations := extracted c1\<rparr>) (fst (assistant_finish (q1\<lparr>citation_state := s1\<rparr>)))"
  have whole: "collect_chunks assistant_push_str assistant_finish assistant_append assistant_default ?p [?s] = Some ?out"
    by (simp add: collect_chunks_def push assistant.join_none)
  have cit: "citations ?out = map extracted_content ext" using fin ext(2) by (auto simp: assistant_append_def)
  have shown: "shown_text ?out = shown_text v @ (if mode then visible_text t else [])"
    and segs: "plan_events (plan_segments ?out) = plan_events (plan_segments v @ (if mode then extracted t else []))"
    using fin m by (auto simp: assistant_append_def assistant_meaning_def)
  from parse_then_finish [OF v] t shown segs have res: "if mode then shown_text ?out = outside (plan_reading ?v) \<and> plan_events (plan_segments ?out) = plan_reading ?v
       else shown_text ?out = ?v \<and> plan_events (plan_segments ?out) = []"
    by (auto simp: assistant_default_def)
  from assistant.collect_independent [OF ok, of chunks] whole obtain out
    where c: "collect_chunks assistant_push_str assistant_finish assistant_append assistant_default ?p chunks = Some out"
      and mo: "assistant_meaning out = assistant_meaning ?out" by auto
  with res cit have "citations out = map extracted_content ext \<and> (if mode then shown_text out = outside (plan_reading ?v) \<and> plan_events (plan_segments out) = plan_reading ?v
       else shown_text out = ?v \<and> plan_events (plan_segments out) = [])"
    by (auto simp: assistant_meaning_def)
  with c ext(1) show ?thesis by blast
qed

end
