(* ===== verification/Stream_Properties.thy ===== *)
theory Stream_Properties
  imports Assistant_Text
begin

section \<open>Properties of the streaming parsers\<close>

text \<open>
  What the parsers of \<open>utils/stream-parser\<close> make of a text does not depend on how it arrives: each
  is equivalent to a declarative reading of the whole text, whatever the chunks are.
\<close>

definition two_tags :: "nat inline_tag_spec list" where
  "two_tags = [\<lparr>spec_tag = 0, spec_open = lit ''<a>'', spec_close = lit ''</a>''\<rparr>,
               \<lparr>spec_tag = 1, spec_open = lit ''<b>'', spec_close = lit ''</b>''\<rparr>]"

text \<open>
  The condition on the openers is needed: with one opener inside another, a chunk border after
  the shorter one decides for it, although the longer one stands at the same place.
\<close>

definition overlapping_tags :: "nat inline_tag_spec list" where
  "overlapping_tags = [\<lparr>spec_tag = 0, spec_open = lit ''<a'', spec_close = lit ''>''\<rparr>,
                       \<lparr>spec_tag = 1, spec_open = lit ''<ab'', spec_close = lit ''>''\<rparr>]"

lemma overlapping_openers_depend_on_chunks:
  "collect_chunks inline_push_str inline_finish chunk_append chunk_default (the (inline_new overlapping_tags))
     [lit ''<a'', lit ''b>''] =
   Some \<lparr>visible_text = [], extracted = [\<lparr>extracted_tag = 0, extracted_content = lit ''b''\<rparr>]\<rparr>"
  "collect_chunks inline_push_str inline_finish chunk_append chunk_default (the (inline_new overlapping_tags))
     [lit ''<ab>''] =
   Some \<lparr>visible_text = [], extracted = [\<lparr>extracted_tag = 1, extracted_content = []\<rparr>]\<rparr>"
  by code_simp+

text \<open>C14: The inline tag parser implements the reading of a text by leftmost, longest openers:
  when no opener is part of another, the visible text and the tags it returns for any list of
  chunks are the ones of the declarative reading of the concatenated text, and that reading is
  unique.\<close>

theorem streamed_tags_are_read:
  assumes "inline_new ss = Some p" and "infix_free (map spec_open ss)"
  shows "\<exists>out. collect_chunks inline_push_str inline_finish chunk_append chunk_default p chunks = Some out \<and>
    reads ss (concat chunks) (visible_text out) (extracted out) \<and>
    (\<forall>v e. reads ss (concat chunks) v e \<longrightarrow> v = visible_text out \<and> e = extracted out)"
  using inline_collect_reads [OF assms] reads_deterministic by blast

theorem streamed_tags_are_read_witness:
  "reads two_tags (lit ''1<a>x</a>2<b>y'') (lit ''12'')
     [\<lparr>extracted_tag = 0, extracted_content = lit ''x''\<rparr>, \<lparr>extracted_tag = 1, extracted_content = lit ''y''\<rparr>]"
proof -
  have p: "inline_new two_tags = Some \<lparr>specs = two_tags, pending = [], active = None\<rparr>" by code_simp
  have "infix_free (map spec_open two_tags)" by code_simp
  from streamed_tags_are_read [OF p this, of "[lit ''1<a'', lit ''>x</'', lit ''a>2<b>y'']"]
  obtain out where out: "collect_chunks inline_push_str inline_finish chunk_append chunk_default
      \<lparr>specs = two_tags, pending = [], active = None\<rparr> [lit ''1<a'', lit ''>x</'', lit ''a>2<b>y''] = Some out"
    and r: "reads two_tags (concat [lit ''1<a'', lit ''>x</'', lit ''a>2<b>y'']) (visible_text out) (extracted out)"
    by blast
  have "collect_chunks inline_push_str inline_finish chunk_append chunk_default
      \<lparr>specs = two_tags, pending = [], active = None\<rparr> [lit ''1<a'', lit ''>x</'', lit ''a>2<b>y''] =
      Some \<lparr>visible_text = lit ''12'', extracted =
        [\<lparr>extracted_tag = 0, extracted_content = lit ''x''\<rparr>, \<lparr>extracted_tag = 1, extracted_content = lit ''y''\<rparr>]\<rparr>"
    by code_simp
  moreover have "concat [lit ''1<a'', lit ''>x</'', lit ''a>2<b>y''] = lit ''1<a>x</a>2<b>y''" by (simp add: lit_def)
  ultimately show ?thesis using out r by simp
qed

text \<open>C15: Every parser of hidden tags that the constructor accepts returns from every sequence of
  pushes and from the final flush: the loop of a push ends, whatever the tags and the text are.\<close>

theorem tag_parser_returns:
  assumes "inline_new ss = Some p"
  shows "\<exists>out. collect_chunks inline_push_str inline_finish chunk_append chunk_default p chunks = Some out"
  using inline_push_chunks_return [OF inline_new_wf [OF assms], of chunk_default chunks]
  by (auto simp: collect_chunks_def)

theorem tag_parser_returns_witness:
  "\<exists>out. collect_chunks inline_push_str inline_finish chunk_append chunk_default
     \<lparr>specs = overlapping_tags, pending = [], active = None\<rparr> [lit ''<'', lit ''a'', lit ''b''] = Some out"
proof -
  have "inline_new overlapping_tags = Some \<lparr>specs = overlapping_tags, pending = [], active = None\<rparr>" by code_simp
  from tag_parser_returns [OF this] show ?thesis .
qed

text \<open>C16: The plan parser is equivalent to reading the text line by line: for any chunks, the
  segments say that a line which is the opening tag (blanks aside) outside a block starts one,
  that a line which is the closing tag inside a block ends it, and that every other line is text
  of the block it stands in; an open block is closed at the end, and the visible text is the text
  outside the blocks. Stripping the blocks of a whole text gives the same.\<close>

theorem plan_text_is_read_by_lines:
  "(\<exists>out. collect_chunks (returning plan_push_str) plan_finish chunk_append chunk_default proposed_plan_new chunks = Some out \<and>
     plan_events (extracted out) = plan_reading (concat chunks) \<and>
     visible_text out = outside (plan_reading (concat chunks))) \<and>
   strip_proposed_plan_blocks (concat chunks) = outside (plan_reading (concat chunks))"
proof
  show "\<exists>out. collect_chunks (returning plan_push_str) plan_finish chunk_append chunk_default proposed_plan_new chunks = Some out \<and>
     plan_events (extracted out) = plan_reading (concat chunks) \<and> visible_text out = outside (plan_reading (concat chunks))"
    using plan_collect [of chunks] by (auto simp: plan_meaning_def)
  obtain c q where "plan_push_str proposed_plan_new (concat chunks) = (c, q)" by fastforce
  with plan_collect [of "[concat chunks]"]
  show "strip_proposed_plan_blocks (concat chunks) = outside (plan_reading (concat chunks))"
    by (auto simp: strip_proposed_plan_blocks_def collect_chunks_def returning_def plan_meaning_def)
qed

text \<open>The assistant's text, in whatever chunks it arrives, gives the citations of the whole
  text in order; what is left is shown as it is, or, in plan mode, is read line by line into the
  text outside the plan blocks and the plan segments.\<close>

lemma assistant_text_is_read:
  "\<exists>out v ext.
     collect_chunks assistant_push_str assistant_finish assistant_append assistant_default
       (assistant_init mode) chunks = Some out \<and>
     reads [citation_spec] (concat chunks) v ext \<and> citations out = map extracted_content ext \<and>
     (if mode then shown_text out = outside (plan_reading v) \<and> plan_events (plan_segments out) = plan_reading v
      else shown_text out = v \<and> plan_events (plan_segments out) = [])"
  by (rule assistant_collect_reads)

text \<open>C17: The UTF-8 wrapper around any parser that keeps the contract is transparent: when the
  bytes of all chunks together are UTF-8, no push or finish fails and the result means what the
  wrapped parser returns for the decoded text; when they contain a malformed sequence, a push
  reports one of its length, and when they end inside a character, the final flush reports that.\<close>

theorem bytes_are_decoded:
  assumes "stream_text_parser push ok meaning" and "ok p"
  shows "case from_utf8 (concat chunks) of
      Inr s \<Rightarrow> (\<exists>o1 o2. collect_bytes push finish (utf8_new p) chunks = Some (Inr o1) \<and>
        collect_chunks push finish chunk_append chunk_default p [s] = Some o2 \<and> meaning o1 = meaning o2)
    | Inl (v, Some k) \<Rightarrow> (\<exists>v'. collect_bytes push finish (utf8_new p) chunks = Some (Inl (InvalidUtf8 v' k)))
    | Inl (v, None) \<Rightarrow> collect_bytes push finish (utf8_new p) chunks = Some (Inl IncompleteUtf8AtEof)"
  using assms by (rule stream_text_parser.collect_bytes_decodes)

theorem bytes_are_decoded_witness:
  "collect_bytes citation_push_str citation_finish (utf8_new citation_init) [[0x61, 0xC3], [0xA9]] =
     Some (Inr \<lparr>visible_text = [0x61, 0xE9], extracted = []\<rparr>)"
proof -
  have f: "from_utf8 (concat [[0x61, 0xC3], [0xA9]]) = Inr [0x61, 0xE9]" by code_simp
  have "collect_chunks citation_push_str citation_finish chunk_append chunk_default citation_init [[0x61, 0xE9]] =
      Some \<lparr>visible_text = [0x61, 0xE9], extracted = []\<rparr>" by code_simp
  with bytes_are_decoded [OF citation.stream_text_parser_axioms citation_init_ok,
      where chunks = "[[0x61, 0xC3], [0xA9]]" and finish = citation_finish]
  show ?thesis unfolding f by simp
qed

text \<open>A chunk that is not UTF-8 is rolled back: an error of a push leaves the wrapper and the
  parser inside it as they were, and reports the offset and length of the first malformed sequence
  of the buffered bytes.\<close>

lemma invalid_chunk_is_rolled_back:
  assumes "push_bytes push p chunk = Some (Inl e, p')"
  shows "p' = p \<and> (\<exists>v k. e = InvalidUtf8 v k \<and> from_utf8 (pending_utf8 p @ chunk) = Inl (v, Some k))"
  using assms by (rule push_bytes_rollback)

end
