(* ===== verification/Fs_Environment.thy ===== *)
theory Fs_Environment
  imports Paths
begin

section \<open>Paths as the file system sees them (utils/absolute-path, protocol: permissions.rs)\<close>

text \<open>
  The permission code calls \<open>AbsolutePathBuf\<close> on values of type \<open>Path\<close>; the operations here
  are those of theory \<open>Paths\<close> on the components of such a value (\<open>expand_home_of\<close> relates the
  two). What the code asks the operating system is the record \<open>fs_env\<close>: the home directory, the
  current directory, \<open>TMPDIR\<close>, the questions about a path, \<open>realpath\<close> and the compiled glob
  patterns of the crate \<open>globset\<close>. A value of \<open>AbsolutePathBuf\<close> satisfies \<open>abs_normal\<close>.
\<close>

record fs_env =
  env_home :: "path_buf option"
  env_current_dir :: "path_buf option"
  env_tmpdir :: "ustr option"
  path_is_dir :: "path_buf \<Rightarrow> bool"
  path_is_file :: "path_buf \<Rightarrow> bool"
  path_exists :: "path_buf \<Rightarrow> bool"
  read_to_string :: "path_buf \<Rightarrow> ustr option"
  symlink_metadata :: "path_buf \<Rightarrow> bool option"
  os_canonicalize :: "path_buf \<Rightarrow> path_buf option"
  compile_glob :: "ustr \<Rightarrow> (path_buf \<Rightarrow> bool) option"

text \<open>\<open>symlink_metadata\<close> gives None when the call fails and otherwise whether the path is a link.\<close>

subsection \<open>AbsolutePathBuf on the components of a path\<close>

fun expand_home :: "path_buf option \<Rightarrow> path_buf \<Rightarrow> path_buf" where
  "expand_home (Some home) (Normal n # rest) =
    (if n = lit ''~'' then path_join home rest else Normal n # rest)"
| "expand_home _ p = p"

definition resolve_against :: "fs_env \<Rightarrow> path_buf \<Rightarrow> path_buf \<Rightarrow> path_buf" where
  "resolve_against env p base = absolutize_from (expand_home (env_home env) p) base"

definition from_absolute :: "fs_env \<Rightarrow> path_buf \<Rightarrow> path_buf option" where
  "from_absolute env p = absolutize (env_current_dir env) (expand_home (env_home env) p)"

definition abs_join :: "fs_env \<Rightarrow> path_buf \<Rightarrow> ustr \<Rightarrow> path_buf" where
  "abs_join env base s = resolve_path_against_base (env_home env) s base"

text \<open>The home expansion on components is the one on the text of the path.\<close>

lemma map_filter_append_Nil: "List.map_filter component_of (split_on c_slash (trim_start_matches (\<lambda>c. c = c_slash) r))
   = List.map_filter component_of (split_on c_slash r)"
  by (induction r) (simp_all add: trim_start_matches_def component_of.simps)

lemma trimmed_not_slash: "\<not> starts_with (lit ''/'') (trim_start_matches (\<lambda>c. c = c_slash) r)"
  by (induction r) (simp_all add: trim_start_matches_def lit_def starts_with_def)

lemma map_filter_component_not_dot: "CurDir \<notin> set (List.map_filter component_of ps)"
  by (auto simp: List.map_filter_def component_of.simps split: if_splits)

lemma path_join_components:
  assumes "h \<noteq> []"
  shows "path_join h (List.map_filter component_of ps) = h @ List.map_filter component_of ps"
  using assms map_filter_component_not_root [of ps] map_filter_component_not_dot [of ps]
  by (cases h; cases "List.map_filter component_of ps"; cases "hd (List.map_filter component_of ps)") auto

lemma path_join_path_of:
  assumes "h \<noteq> []"
  shows "path_join h (path_of (trim_start_matches (\<lambda>c. c = c_slash) r))
    = h @ List.map_filter component_of (split_on c_slash r)"
proof -
  let ?ps = "split_on c_slash (trim_start_matches (\<lambda>c. c = c_slash) r)"
  have "path_join h (path_of (trim_start_matches (\<lambda>c. c = c_slash) r)) = h @ List.map_filter component_of ?ps"
  proof (cases "hd ?ps = lit ''.''")
    case True
    with assms show ?thesis by (cases h) (simp_all add: path_of_def trimmed_not_slash Let_def)
  next
    case False
    with path_join_components [OF assms, of ?ps] show ?thesis by (simp add: path_of_def trimmed_not_slash Let_def)
  qed
  then show ?thesis by (simp add: map_filter_append_Nil)
qed

lemma path_of_tilde:
  "path_of (126 # s) = Normal (126 # hd (split_on c_slash s)) # List.map_filter component_of (tl (split_on c_slash s))"
  by (cases "split_on c_slash s") (simp_all add: path_of_def Let_def lit_def component_of.simps List.map_filter_simps)

lemma path_of_first_tilde:
  assumes "path_of s = Normal (126 # y) # rest" shows "\<exists>s'. s = 126 # s'"
proof (cases s)
  case Nil
  with assms show ?thesis by (simp add: path_of_def lit_def starts_with_def component_of.simps List.map_filter_simps)
next
  case (Cons c s')
  obtain p ps where "split_on c_slash s' = p # ps" by (cases "split_on c_slash s'") auto
  with Cons assms show ?thesis
    by (auto simp: path_of_def Let_def lit_def component_of.simps List.map_filter_simps split: if_splits)
qed

lemma expand_home_of:
  assumes "\<And>h. home = Some h \<Longrightarrow> h \<noteq> []"
  shows "expand_home home (path_of s) = maybe_expand_home_directory home s"
proof (cases home)
  case (Some h)
  with assms have h: "h \<noteq> []" by simp
  show ?thesis
  proof (cases "\<exists>s'. s = 126 # s'")
    case True
    then obtain s' where s: "s = 126 # s'" by blast
    show ?thesis
    proof (cases s')
      case Nil
      with s Some h show ?thesis
        by (cases h) (simp_all add: path_of_tilde maybe_expand_home_directory_def lit_def List.map_filter_simps)
    next
      case (Cons c r)
      show ?thesis
      proof (cases "c = c_slash")
        case True
        with s Some Cons path_join_components [OF h] path_join_path_of [OF h, of r] show ?thesis
          by (simp add: path_of_tilde maybe_expand_home_directory_def lit_def)
      next
        case False
        then have "hd (split_on c_slash s') \<noteq> []" using Cons by (cases "split_on c_slash r") auto
        with False s Some Cons show ?thesis
          by (simp add: path_of_tilde maybe_expand_home_directory_def lit_def)
      qed
    qed
  next
    case False
    then have "strip_prefix (lit ''~'') s = None"
      by (cases s) (simp_all add: lit_def)
    moreover have "expand_home home (path_of s) = path_of s"
      using False path_of_first_tilde [of s "[]"] Some
      by (cases "path_of s"; cases "hd (path_of s)") (auto simp: lit_def)
    ultimately show ?thesis using Some by (simp add: maybe_expand_home_directory_def)
  qed
qed (simp add: maybe_expand_home_directory_def)

subsection \<open>Ancestors\<close>

lemma path_parent_length: "path_parent p = Some q \<Longrightarrow> length q < length p"
  by (cases p) (auto split: if_splits)

function ancestors :: "path_buf \<Rightarrow> path_buf list" where
  "ancestors p = p # (case path_parent p of None \<Rightarrow> [] | Some q \<Rightarrow> ancestors q)"
  by auto
termination by (relation "measure length") (auto dest: path_parent_length)

declare ancestors.simps [simp del]

subsection \<open>Canonical spellings\<close>

definition should_preserve_logical_path :: "fs_env \<Rightarrow> path_buf \<Rightarrow> bool" where
  "should_preserve_logical_path env logical =
    list_ex (\<lambda>ancestor.
      (case symlink_metadata env ancestor of
         None \<Rightarrow> False
       | Some is_symlink \<Rightarrow>
           is_symlink \<and> Option.bind (path_parent ancestor) path_parent \<noteq> None)) (ancestors logical)"

definition canonicalize_preserving_symlinks :: "fs_env \<Rightarrow> path_buf \<Rightarrow> path_buf option" where
  "canonicalize_preserving_symlinks env p =
    (case from_absolute env p of
       None \<Rightarrow> None
     | Some logical \<Rightarrow>
        (let preserve_logical_path = should_preserve_logical_path env logical
         in case os_canonicalize env p of
              Some canonical \<Rightarrow>
                if preserve_logical_path \<and> canonical \<noteq> logical then Some logical else Some canonical
            | None \<Rightarrow> Some logical))"

definition canonicalize_existing_preserving_symlinks :: "fs_env \<Rightarrow> path_buf \<Rightarrow> path_buf option" where
  "canonicalize_existing_preserving_symlinks env p =
    (case from_absolute env p of
       None \<Rightarrow> None
     | Some logical \<Rightarrow>
        (case os_canonicalize env p of
           None \<Rightarrow> None
         | Some canonical \<Rightarrow>
             if should_preserve_logical_path env logical \<and> canonical \<noteq> logical
             then Some logical else Some canonical))"

fun effective_ancestor :: "fs_env \<Rightarrow> path_buf \<Rightarrow> path_buf list \<Rightarrow> path_buf option" where
  "effective_ancestor env raw [] = None"
| "effective_ancestor env raw (ancestor # rest) =
    (if symlink_metadata env ancestor = None then effective_ancestor env raw rest
     else case canonicalize_preserving_symlinks env ancestor of
            None \<Rightarrow> effective_ancestor env raw rest
          | Some normalized_ancestor \<Rightarrow>
             (case strip_prefix ancestor raw of
                None \<Rightarrow> effective_ancestor env raw rest
              | Some suffix \<Rightarrow>
                 (case from_absolute env (path_join normalized_ancestor suffix) of
                    None \<Rightarrow> effective_ancestor env raw rest
                  | Some normalized_path \<Rightarrow> Some normalized_path)))"

definition normalize_effective_absolute_path :: "fs_env \<Rightarrow> path_buf \<Rightarrow> path_buf" where
  "normalize_effective_absolute_path env p =
    (case effective_ancestor env p (ancestors p) of Some q \<Rightarrow> q | None \<Rightarrow> p)"

text \<open>
  Removing duplicates with a \<open>HashSet\<close> of what has been seen: every path keeps its first place.
\<close>

fun dedup_seen :: "'a list \<Rightarrow> 'a list \<Rightarrow> 'a list" where
  "dedup_seen seen [] = []"
| "dedup_seen seen (x # xs) =
    (if x \<in> set seen then dedup_seen seen xs else x # dedup_seen (x # seen) xs)"

definition dedup_absolute_paths :: "fs_env \<Rightarrow> bool \<Rightarrow> path_buf list \<Rightarrow> path_buf list" where
  "dedup_absolute_paths env normalize_effective_paths paths =
    dedup_seen [] (if normalize_effective_paths
                   then map (normalize_effective_absolute_path env) paths else paths)"

subsection \<open>Facts about these operations\<close>

lemma dedup_seen_set: "set (dedup_seen seen xs) = set xs - set seen"
  by (induction seen xs rule: dedup_seen.induct) auto

lemma dedup_seen_distinct: "distinct (dedup_seen seen xs)"
  by (induction seen xs rule: dedup_seen.induct) (auto simp: dedup_seen_set)

lemma dedup_seen_id: "\<lbrakk>distinct xs; set xs \<inter> set seen = {}\<rbrakk> \<Longrightarrow> dedup_seen seen xs = xs"
  by (induction seen xs rule: dedup_seen.induct) auto

lemma dedup_absolute_paths_set:
  "set (dedup_absolute_paths env b paths) =
     (if b then normalize_effective_absolute_path env ` set paths else set paths)"
  by (simp add: dedup_absolute_paths_def dedup_seen_set)

lemma dedup_absolute_paths_id [simp]: "distinct ps \<Longrightarrow> dedup_absolute_paths env False ps = ps"
  by (simp add: dedup_absolute_paths_def dedup_seen_id)

lemma expand_home_abs [simp]: "abs_normal p \<Longrightarrow> expand_home home p = p"
  by (cases home) (auto simp: abs_normal_def)

lemma from_absolute_id [simp]: "abs_normal p \<Longrightarrow> from_absolute env p = Some p"
  using abs_normal_root_once [of p] by (simp add: from_absolute_def absolutize_def normalize_path_id)

lemma path_starts_with_iff: "path_starts_with p base \<longleftrightarrow> (\<exists>r. p = base @ r)"
  by (simp add: path_starts_with_def starts_with_iff)

lemma path_starts_with_refl [simp]: "path_starts_with p p"
  by (simp add: path_starts_with_iff)

lemma path_starts_with_trans:
  "\<lbrakk>path_starts_with p q; path_starts_with q r\<rbrakk> \<Longrightarrow> path_starts_with p r"
  by (auto simp: path_starts_with_iff)

text \<open>Two prefixes of one path are comparable, and the longer one starts with the shorter one.\<close>

lemma path_prefix_comparable:
  "\<lbrakk>path_starts_with p a; path_starts_with p b; length a \<le> length b\<rbrakk> \<Longrightarrow> path_starts_with b a"
  by (auto simp: path_starts_with_iff append_eq_append_conv2)

lemma path_prefix_length: "path_starts_with p a \<Longrightarrow> length a \<le> length p"
  by (auto simp: path_starts_with_iff)

lemma path_prefix_equal: "\<lbrakk>path_starts_with p a; length a = length p\<rbrakk> \<Longrightarrow> a = p"
  by (auto simp: path_starts_with_iff)

text \<open>The root of an absolute path is the last of its ancestors.\<close>

lemma abs_normal_root: "abs_normal [RootDir]"
  by (simp add: abs_normal_def)

lemma abs_normal_prefix:
  "\<lbrakk>abs_normal p; path_starts_with p a; a \<noteq> []\<rbrakk> \<Longrightarrow> abs_normal a"
  by (cases a) (auto simp: abs_normal_def path_starts_with_iff)

lemma abs_normal_parent:
  assumes "abs_normal p"
  shows "path_parent p = (if p = [RootDir] then None else Some (butlast p))"
    and "p \<noteq> [RootDir] \<Longrightarrow> abs_normal (butlast p)"
proof -
  from assms obtain cs where p: "p = RootDir # cs" "list_all is_normal cs" by (auto simp: abs_normal_def)
  show "path_parent p = (if p = [RootDir] then None else Some (butlast p))"
    using p by (cases cs rule: rev_cases) (auto simp: is_normal_def)
  show "abs_normal (butlast p)" if "p \<noteq> [RootDir]"
    using that p by (auto simp: abs_normal_def list_all_iff dest: in_set_butlastD)
qed

lemma last_ancestor: "abs_normal p \<Longrightarrow> last (ancestors p) = [RootDir]"
proof (induction p rule: ancestors.induct)
  case (1 p)
  show ?case
  proof (cases "p = [RootDir]")
    case True
    then show ?thesis by (simp add: ancestors.simps [of "[RootDir]"])
  next
    case False
    then have parent: "path_parent p = Some (butlast p)"
      using abs_normal_parent(1) [OF "1.prems"] by simp
    with "1.IH" abs_normal_parent(2) [OF "1.prems" False]
    have "last (ancestors (butlast p)) = [RootDir]" by blast
    moreover have "ancestors (butlast p) \<noteq> []" by (subst ancestors.simps) simp
    ultimately show ?thesis using parent by (simp add: ancestors.simps [of p])
  qed
qed

lemma ancestors_abs_normal:
  "\<lbrakk>abs_normal p; a \<in> set (ancestors p)\<rbrakk> \<Longrightarrow> abs_normal a \<and> path_starts_with p a"
proof (induction p rule: ancestors.induct)
  case (1 p)
  show ?case
  proof (cases "a = p")
    case False
    with "1.prems"(2) have "\<exists>q. path_parent p = Some q \<and> a \<in> set (ancestors q)"
      by (subst (asm) ancestors.simps) (cases "path_parent p"; simp)
    then obtain q where q: "path_parent p = Some q" "a \<in> set (ancestors q)" by blast
    with abs_normal_parent [OF "1.prems"(1)] have "q = butlast p" "abs_normal q"
      by (auto split: if_splits)
    moreover from \<open>q = butlast p\<close> have "path_starts_with p q"
      by (cases p rule: rev_cases) (auto simp: path_starts_with_iff)
    ultimately show ?thesis using "1.IH" [OF q(1)] q(2) path_starts_with_trans by blast
  qed (use "1.prems"(1) in simp)
qed

text \<open>
  A file system without symbolic links: canonical spellings are the lexical ones, as the
  documentation of \<open>realpath\<close> says.
\<close>

definition no_links :: "fs_env \<Rightarrow> bool" where
  "no_links env \<longleftrightarrow> (\<forall>p. abs_normal p \<longrightarrow>
     symlink_metadata env p \<noteq> Some True \<and> os_canonicalize env p \<in> {None, Some p})"

lemma no_links_canonical:
  "\<lbrakk>no_links env; abs_normal p\<rbrakk> \<Longrightarrow> canonicalize_preserving_symlinks env p = Some p"
  by (auto simp: canonicalize_preserving_symlinks_def no_links_def split: option.splits)

lemma no_links_effective_ancestor:
  "\<lbrakk>no_links env; abs_normal raw; \<forall>a\<in>set as. abs_normal a \<and> path_starts_with raw a\<rbrakk> \<Longrightarrow>
     effective_ancestor env raw as \<in> {None, Some raw}"
proof (induction as)
  case (Cons a as)
  then obtain suffix where s: "raw = a @ suffix" by (auto simp: path_starts_with_iff)
  moreover from Cons.prems have "abs_normal a" by simp
  ultimately have "path_join a suffix = raw"
    using Cons.prems(2) by (cases suffix; cases "hd suffix") (auto simp: abs_normal_def)
  then show ?case using Cons s by (simp add: no_links_canonical)
qed simp

lemma no_links_effective [simp]:
  "\<lbrakk>no_links env; abs_normal p\<rbrakk> \<Longrightarrow> normalize_effective_absolute_path env p = p"
  using no_links_effective_ancestor [of env p "ancestors p"] ancestors_abs_normal [of p]
  by (auto simp: normalize_effective_absolute_path_def)

end
