(* ===== verification/Access_Policy.thy ===== *)
theory Access_Policy
  imports Fs_Environment Protocol_Types "HOL-Library.Product_Lexorder"
begin

section \<open>Who may read and write a path (protocol: permissions.rs)\<close>

text \<open>
  The entries of a \<open>FileSystemSandboxPolicy\<close> and the access they resolve to. The constructors
  carry a prefix where the source's name is one of HOL: \<open>AccessNone\<close> is
  \<open>FileSystemAccessMode::None\<close>, \<open>RootPath\<close> and \<open>UnknownPath\<close> are \<open>Root\<close> and \<open>Unknown\<close>,
  \<open>ExactPath\<close> is \<open>FileSystemPath::Path\<close>. The order of the access modes is the derived one of
  the source: \<open>none\<close> beats \<open>write\<close>, which beats \<open>read\<close>.
\<close>

subsection \<open>Access modes\<close>

datatype file_system_access_mode = AccessRead | AccessWrite | AccessNone

fun access_rank :: "file_system_access_mode \<Rightarrow> nat" where
  "access_rank AccessRead = 0"
| "access_rank AccessWrite = 1"
| "access_rank AccessNone = 2"

instantiation file_system_access_mode :: linorder
begin

definition less_eq_file_system_access_mode :: "file_system_access_mode \<Rightarrow> file_system_access_mode \<Rightarrow> bool" where
  "less_eq_file_system_access_mode a b \<longleftrightarrow> access_rank a \<le> access_rank b"

definition less_file_system_access_mode :: "file_system_access_mode \<Rightarrow> file_system_access_mode \<Rightarrow> bool" where
  "less_file_system_access_mode a b \<longleftrightarrow> access_rank a < access_rank b"

instance
proof
  fix a b c :: file_system_access_mode
  show "a < b \<longleftrightarrow> a \<le> b \<and> \<not> b \<le> a"
    by (auto simp: less_eq_file_system_access_mode_def less_file_system_access_mode_def)
  show "a \<le> a" by (simp add: less_eq_file_system_access_mode_def)
  show "a \<le> b \<Longrightarrow> b \<le> c \<Longrightarrow> a \<le> c" by (simp add: less_eq_file_system_access_mode_def)
  show "a \<le> b \<Longrightarrow> b \<le> a \<Longrightarrow> a = b"
    by (cases a; cases b) (simp_all add: less_eq_file_system_access_mode_def)
  show "a \<le> b \<or> b \<le> a" by (auto simp: less_eq_file_system_access_mode_def)
qed

end

lemmas access_order = less_eq_file_system_access_mode_def less_file_system_access_mode_def

definition access_can_read :: "file_system_access_mode \<Rightarrow> bool" where
  "access_can_read a \<longleftrightarrow> a \<noteq> AccessNone"

definition access_can_write :: "file_system_access_mode \<Rightarrow> bool" where
  "access_can_write a \<longleftrightarrow> a = AccessWrite"

lemma access_simps [simp]:
  "access_can_read AccessRead" "access_can_read AccessWrite" "\<not> access_can_read AccessNone"
  "\<not> access_can_write AccessRead" "access_can_write AccessWrite" "\<not> access_can_write AccessNone"
  by (simp_all add: access_can_read_def access_can_write_def)

lemma access_write_read: "access_can_write a \<Longrightarrow> access_can_read a"
  by (simp add: access_can_write_def)

subsection \<open>Policies\<close>

datatype file_system_special_path =
    RootPath
  | Minimal
  | CurrentWorkingDirectory
  | ProjectRoots "path_buf option"
  | Tmpdir
  | SlashTmp
  | UnknownPath ustr "path_buf option"

datatype file_system_path =
    ExactPath path_buf
  | GlobPattern ustr
  | Special file_system_special_path

record file_system_sandbox_entry =
  entry_path :: file_system_path
  entry_access :: file_system_access_mode

record file_system_sandbox_policy =
  fs_kind :: file_system_sandbox_kind
  glob_scan_max_depth :: "nat option"
  fs_entries :: "file_system_sandbox_entry list"

record resolved_file_system_entry =
  resolved_path :: path_buf
  resolved_access :: file_system_access_mode

definition unrestricted :: file_system_sandbox_policy where
  "unrestricted = \<lparr>fs_kind = FsUnrestricted, glob_scan_max_depth = None, fs_entries = []\<rparr>"

definition external_sandbox :: file_system_sandbox_policy where
  "external_sandbox = \<lparr>fs_kind = FsExternalSandbox, glob_scan_max_depth = None, fs_entries = []\<rparr>"

definition restricted :: "file_system_sandbox_entry list \<Rightarrow> file_system_sandbox_policy" where
  "restricted entries = \<lparr>fs_kind = FsRestricted, glob_scan_max_depth = None, fs_entries = entries\<rparr>"

definition root_entry :: "file_system_access_mode \<Rightarrow> file_system_sandbox_entry" where
  "root_entry a = \<lparr>entry_path = Special RootPath, entry_access = a\<rparr>"

definition default_policy :: file_system_sandbox_policy where
  "default_policy = restricted [root_entry AccessRead]"

subsection \<open>Where an entry points\<close>

definition slash_tmp :: path_buf where
  "slash_tmp = [RootDir, Normal (lit ''tmp'')]"

text \<open>
  The fallbacks of \<open>absolute_root_path_for_cwd\<close> panic; None stands for the panic, and
  \<open>absolute_root_path\<close> below shows that a value of \<open>AbsolutePathBuf\<close> never reaches it.
\<close>

definition absolute_root_path_for_cwd :: "fs_env \<Rightarrow> path_buf \<Rightarrow> path_buf option" where
  "absolute_root_path_for_cwd env cwd = from_absolute env (last (ancestors cwd))"

fun resolve_file_system_special_path ::
    "fs_env \<Rightarrow> file_system_special_path \<Rightarrow> path_buf option \<Rightarrow> path_buf option" where
  "resolve_file_system_special_path env CurrentWorkingDirectory cwd = cwd"
| "resolve_file_system_special_path env (ProjectRoots subpath) cwd =
    (case cwd of
       None \<Rightarrow> None
     | Some cwd \<Rightarrow>
        (case subpath of Some subpath \<Rightarrow> Some (resolve_against env subpath cwd) | None \<Rightarrow> Some cwd))"
| "resolve_file_system_special_path env Tmpdir cwd =
    (case env_tmpdir env of
       None \<Rightarrow> None
     | Some tmpdir \<Rightarrow> if tmpdir = [] then None else from_absolute env (path_of tmpdir))"
| "resolve_file_system_special_path env SlashTmp cwd =
    (if \<not> path_is_dir env slash_tmp then None else Some slash_tmp)"
| "resolve_file_system_special_path env _ cwd = None"

fun resolve_file_system_path :: "fs_env \<Rightarrow> file_system_path \<Rightarrow> path_buf option \<Rightarrow> path_buf option" where
  "resolve_file_system_path env (ExactPath p) cwd = Some p"
| "resolve_file_system_path env (GlobPattern pattern) cwd = None"
| "resolve_file_system_path env (Special v) cwd = resolve_file_system_special_path env v cwd"

definition resolve_entry_path :: "fs_env \<Rightarrow> file_system_path \<Rightarrow> path_buf option \<Rightarrow> path_buf option" where
  "resolve_entry_path env p cwd =
    (if p = Special RootPath then Option.bind cwd (absolute_root_path_for_cwd env)
     else resolve_file_system_path env p cwd)"

definition resolve_candidate_path :: "fs_env \<Rightarrow> path_buf \<Rightarrow> path_buf \<Rightarrow> path_buf option" where
  "resolve_candidate_path env p cwd =
    (if is_absolute p then from_absolute env p else Some (resolve_against env p cwd))"

definition resolved_entries_with_cwd ::
    "fs_env \<Rightarrow> file_system_sandbox_policy \<Rightarrow> path_buf \<Rightarrow> resolved_file_system_entry list" where
  "resolved_entries_with_cwd env policy cwd =
    (let cwd_absolute = from_absolute env cwd
     in List.map_filter (\<lambda>entry. map_option
          (\<lambda>p. \<lparr>resolved_path = p, resolved_access = entry_access entry\<rparr>)
          (resolve_entry_path env (entry_path entry) cwd_absolute)) (fs_entries policy))"

subsection \<open>The access of a path\<close>

definition resolved_entry_precedence :: "resolved_file_system_entry \<Rightarrow> nat \<times> file_system_access_mode" where
  "resolved_entry_precedence e = (length (resolved_path e), resolved_access e)"

definition resolve_access_with_cwd ::
    "fs_env \<Rightarrow> file_system_sandbox_policy \<Rightarrow> path_buf \<Rightarrow> path_buf \<Rightarrow> file_system_access_mode" where
  "resolve_access_with_cwd env policy p cwd =
    (if fs_kind policy \<in> {FsUnrestricted, FsExternalSandbox} then AccessWrite
     else case resolve_candidate_path env p cwd of
            None \<Rightarrow> AccessNone
          | Some p \<Rightarrow>
             (case max_by_key resolved_entry_precedence
                     (filter (\<lambda>e. path_starts_with p (resolved_path e)) (resolved_entries_with_cwd env policy cwd)) of
                Some e \<Rightarrow> resolved_access e
              | None \<Rightarrow> AccessNone))"

definition can_read_path_with_cwd :: "fs_env \<Rightarrow> file_system_sandbox_policy \<Rightarrow> path_buf \<Rightarrow> path_buf \<Rightarrow> bool" where
  "can_read_path_with_cwd env policy p cwd \<longleftrightarrow> access_can_read (resolve_access_with_cwd env policy p cwd)"

definition can_write_path_with_cwd :: "fs_env \<Rightarrow> file_system_sandbox_policy \<Rightarrow> path_buf \<Rightarrow> path_buf \<Rightarrow> bool" where
  "can_write_path_with_cwd env policy p cwd \<longleftrightarrow> access_can_write (resolve_access_with_cwd env policy p cwd)"

subsection \<open>Whole-disk access\<close>

definition has_root_access ::
    "file_system_sandbox_policy \<Rightarrow> (file_system_access_mode \<Rightarrow> bool) \<Rightarrow> bool" where
  "has_root_access policy predicate \<longleftrightarrow> fs_kind policy = FsRestricted
     \<and> list_ex (\<lambda>e. entry_path e = Special RootPath \<and> predicate (entry_access e)) (fs_entries policy)"

definition has_denied_read_restrictions :: "file_system_sandbox_policy \<Rightarrow> bool" where
  "has_denied_read_restrictions policy \<longleftrightarrow> fs_kind policy = FsRestricted
     \<and> list_ex (\<lambda>e. entry_access e = AccessNone) (fs_entries policy)"

fun special_paths_share_target :: "file_system_special_path \<Rightarrow> file_system_special_path \<Rightarrow> bool" where
  "special_paths_share_target RootPath RootPath = True"
| "special_paths_share_target Minimal Minimal = True"
| "special_paths_share_target CurrentWorkingDirectory CurrentWorkingDirectory = True"
| "special_paths_share_target Tmpdir Tmpdir = True"
| "special_paths_share_target SlashTmp SlashTmp = True"
| "special_paths_share_target CurrentWorkingDirectory (ProjectRoots None) = True"
| "special_paths_share_target (ProjectRoots None) CurrentWorkingDirectory = True"
| "special_paths_share_target (ProjectRoots left) (ProjectRoots right) = (left = right)"
| "special_paths_share_target (UnknownPath left left_subpath) (UnknownPath right right_subpath) =
    (left = right \<and> left_subpath = right_subpath)"
| "special_paths_share_target _ _ = False"

fun special_path_matches_absolute_path :: "file_system_special_path \<Rightarrow> path_buf \<Rightarrow> bool" where
  "special_path_matches_absolute_path RootPath p = (path_parent p = None)"
| "special_path_matches_absolute_path SlashTmp p = (p = slash_tmp)"
| "special_path_matches_absolute_path _ p = False"

fun file_system_paths_share_target :: "file_system_path \<Rightarrow> file_system_path \<Rightarrow> bool" where
  "file_system_paths_share_target (ExactPath left) (ExactPath right) = (left = right)"
| "file_system_paths_share_target (Special left) (Special right) = special_paths_share_target left right"
| "file_system_paths_share_target (ExactPath p) (Special v) = special_path_matches_absolute_path v p"
| "file_system_paths_share_target (Special v) (ExactPath p) = special_path_matches_absolute_path v p"
| "file_system_paths_share_target (GlobPattern left) (GlobPattern right) = (left = right)"
| "file_system_paths_share_target _ _ = False"

definition has_same_target_write_override ::
    "file_system_sandbox_policy \<Rightarrow> file_system_sandbox_entry \<Rightarrow> bool" where
  "has_same_target_write_override policy entry \<longleftrightarrow>
    list_ex (\<lambda>candidate. access_can_write (entry_access candidate)
        \<and> entry_access entry < entry_access candidate
        \<and> file_system_paths_share_target (entry_path candidate) (entry_path entry)) (fs_entries policy)"

definition entry_narrows_write :: "file_system_sandbox_policy \<Rightarrow> file_system_sandbox_entry \<Rightarrow> bool" where
  "entry_narrows_write policy entry \<longleftrightarrow>
    (if access_can_write (entry_access entry) then False
     else case entry_path entry of
       ExactPath _ \<Rightarrow> \<not> has_same_target_write_override policy entry
     | GlobPattern _ \<Rightarrow> True
     | Special v \<Rightarrow>
        (case v of
           RootPath \<Rightarrow> entry_access entry = AccessNone
         | Minimal \<Rightarrow> False
         | UnknownPath _ _ \<Rightarrow> False
         | _ \<Rightarrow> \<not> has_same_target_write_override policy entry))"

definition has_write_narrowing_entries :: "file_system_sandbox_policy \<Rightarrow> bool" where
  "has_write_narrowing_entries policy \<longleftrightarrow>
    fs_kind policy = FsRestricted \<and> list_ex (entry_narrows_write policy) (fs_entries policy)"

definition has_full_disk_read_access :: "file_system_sandbox_policy \<Rightarrow> bool" where
  "has_full_disk_read_access policy \<longleftrightarrow>
    (case fs_kind policy of
       FsUnrestricted \<Rightarrow> True | FsExternalSandbox \<Rightarrow> True
     | FsRestricted \<Rightarrow> has_root_access policy access_can_read \<and> \<not> has_denied_read_restrictions policy)"

definition has_full_disk_write_access :: "file_system_sandbox_policy \<Rightarrow> bool" where
  "has_full_disk_write_access policy \<longleftrightarrow>
    (case fs_kind policy of
       FsUnrestricted \<Rightarrow> True | FsExternalSandbox \<Rightarrow> True
     | FsRestricted \<Rightarrow> has_root_access policy access_can_write \<and> \<not> has_write_narrowing_entries policy)"

definition include_platform_defaults :: "file_system_sandbox_policy \<Rightarrow> bool" where
  "include_platform_defaults policy \<longleftrightarrow>
    \<not> has_full_disk_read_access policy \<and> fs_kind policy = FsRestricted
     \<and> list_ex (\<lambda>e. entry_path e = Special Minimal \<and> access_can_read (entry_access e)) (fs_entries policy)"

end
