(* ===== verification/Access_Decision.thy ===== *)
theory Access_Decision
  imports Access_Policy
begin

section \<open>The entry that decides\<close>

text \<open>
  A path's access is the verdict of the greatest entry that covers it. The locale \<open>precedence\<close>
  states what this needs (covering entries of equal rank agree) and proves once what follows:
  the greatest covering entry decides, and only the set of the entries matters. The rest
  transfers this to \<open>resolve_access_with_cwd\<close> and shows that well-formed policies resolve to
  absolute, normalised paths.
\<close>

subsection \<open>The greatest covering candidate\<close>

locale precedence =
  fixes covers :: "'e \<Rightarrow> 'p \<Rightarrow> bool" and rank :: "'e \<Rightarrow> 'k::linorder" and verdict :: "'e \<Rightarrow> 'v"
  assumes rank_decides: "\<lbrakk>covers e p; covers f p; rank e = rank f\<rbrakk> \<Longrightarrow> verdict e = verdict f"
begin

definition decide :: "'e list \<Rightarrow> 'p \<Rightarrow> 'v option" where
  "decide es p = map_option verdict (max_by_key rank (filter (\<lambda>e. covers e p) es))"

lemma undecided: "decide es p = None \<longleftrightarrow> (\<forall>e\<in>set es. \<not> covers e p)"
  by (auto simp: decide_def filter_empty_conv)

lemma decide_cases:
  obtains (uncovered) "\<forall>e\<in>set es. \<not> covers e p" "decide es p = None"
  | (greatest) e where "e \<in> set es" "covers e p" "\<And>f. \<lbrakk>f \<in> set es; covers f p\<rbrakk> \<Longrightarrow> rank f \<le> rank e"
      "decide es p = Some (verdict e)"
proof (cases "max_by_key rank (filter (\<lambda>e. covers e p) es)")
  case None
  then have "decide es p = None" by (simp add: decide_def)
  then show ?thesis using uncovered undecided [of es p] by metis
next
  case (Some m)
  then show ?thesis using greatest [of m] max_by_key_Some [OF Some] by (simp add: decide_def)
qed

lemma decided_by_greatest:
  assumes "e \<in> set es" and "covers e p" and "\<And>f. \<lbrakk>f \<in> set es; covers f p\<rbrakk> \<Longrightarrow> rank f \<le> rank e"
  shows "decide es p = Some (verdict e)"
proof (cases rule: decide_cases [of es p])
  case (greatest m)
  then have "rank m = rank e" using assms by (simp add: antisym)
  with greatest assms(2) show ?thesis using rank_decides by metis
qed (use assms in blast)

text \<open>The order of the candidates and their repetition do not matter.\<close>

lemma decide_by_set:
  assumes "set es = set fs"
  shows "decide es p = decide fs p"
proof (cases rule: decide_cases [of es p])
  case uncovered
  with assms have "decide fs p = None" using undecided by blast
  with uncovered(2) show ?thesis by metis
next
  case (greatest e)
  with assms have "decide fs p = Some (verdict e)" by (intro decided_by_greatest) auto
  with greatest show ?thesis by simp
qed

end

subsection \<open>The access of a path\<close>

definition covers_path :: "resolved_file_system_entry \<Rightarrow> path_buf \<Rightarrow> bool" where
  "covers_path e p \<longleftrightarrow> path_starts_with p (resolved_path e)"

interpretation access: precedence covers_path resolved_entry_precedence resolved_access
  by unfold_locales (simp add: resolved_entry_precedence_def)

lemma resolve_access_restricted:
  assumes "fs_kind policy = FsRestricted" and "resolve_candidate_path env p cwd = Some q"
  shows "resolve_access_with_cwd env policy p cwd =
    (case access.decide (resolved_entries_with_cwd env policy cwd) q of Some a \<Rightarrow> a | None \<Rightarrow> AccessNone)"
  using assms by (simp add: resolve_access_with_cwd_def covers_path_def access.decide_def split: option.split)

lemma resolve_access_cases:
  assumes "fs_kind policy = FsRestricted" and "resolve_candidate_path env p cwd = Some q"
  obtains (uncovered) "\<forall>e\<in>set (resolved_entries_with_cwd env policy cwd). \<not> covers_path e q"
      "resolve_access_with_cwd env policy p cwd = AccessNone"
  | (winner) e where "e \<in> set (resolved_entries_with_cwd env policy cwd)" "covers_path e q"
      "\<And>f. \<lbrakk>f \<in> set (resolved_entries_with_cwd env policy cwd); covers_path f q\<rbrakk>
         \<Longrightarrow> resolved_entry_precedence f \<le> resolved_entry_precedence e"
      "resolve_access_with_cwd env policy p cwd = resolved_access e"
  by (cases rule: access.decide_cases [of "resolved_entries_with_cwd env policy cwd" q])
    (use that in \<open>simp_all add: resolve_access_restricted [OF assms]\<close>)

lemma resolve_access_winner:
  assumes "fs_kind policy = FsRestricted" and "resolve_candidate_path env p cwd = Some q"
    and "e \<in> set (resolved_entries_with_cwd env policy cwd)" and "covers_path e q"
    and "\<And>f. \<lbrakk>f \<in> set (resolved_entries_with_cwd env policy cwd); covers_path f q\<rbrakk>
         \<Longrightarrow> resolved_entry_precedence f \<le> resolved_entry_precedence e"
  shows "resolve_access_with_cwd env policy p cwd = resolved_access e"
  using access.decided_by_greatest [OF assms(3,4)] assms(5)
  by (simp add: resolve_access_restricted [OF assms(1,2)])

lemma abs_normal_candidate [simp]: "abs_normal p \<Longrightarrow> resolve_candidate_path env p cwd = Some p"
  using abs_normal_root_once [of p] by (simp add: resolve_candidate_path_def)

text \<open>The order of precedence: the longer path, then the stronger access.\<close>

lemma precedence_le_iff:
  "resolved_entry_precedence e \<le> resolved_entry_precedence f \<longleftrightarrow>
     length (resolved_path e) < length (resolved_path f)
     \<or> length (resolved_path e) = length (resolved_path f) \<and> resolved_access e \<le> resolved_access f"
  by (auto simp: resolved_entry_precedence_def)

text \<open>An entry that decides about a path below it decides about its own path.\<close>

lemma winner_at_its_path:
  assumes "fs_kind policy = FsRestricted" and "abs_normal (resolved_path e)"
    and "e \<in> set (resolved_entries_with_cwd env policy cwd)" and "covers_path e q"
    and "\<And>f. \<lbrakk>f \<in> set (resolved_entries_with_cwd env policy cwd); covers_path f q\<rbrakk>
         \<Longrightarrow> resolved_entry_precedence f \<le> resolved_entry_precedence e"
  shows "resolve_access_with_cwd env policy (resolved_path e) cwd = resolved_access e"
proof (rule resolve_access_winner [OF assms(1) _ assms(3), of _ "resolved_path e"])
  fix f assume "f \<in> set (resolved_entries_with_cwd env policy cwd)" "covers_path f (resolved_path e)"
  then show "resolved_entry_precedence f \<le> resolved_entry_precedence e"
    using assms(4,5) path_starts_with_trans by (auto simp: covers_path_def)
qed (use assms(2) in \<open>simp_all add: covers_path_def\<close>)

subsection \<open>Well-formed policies\<close>

text \<open>
  What the operating system is documented to answer: the home directory and the current directory
  are absolute, and so is every canonical path.
\<close>

definition env_ok :: "fs_env \<Rightarrow> bool" where
  "env_ok env \<longleftrightarrow> pred_option abs_normal (env_home env) \<and> pred_option abs_normal (env_current_dir env)
     \<and> (\<forall>p q. os_canonicalize env p = Some q \<longrightarrow> abs_normal q)"

definition file_system_path_ok :: "file_system_path \<Rightarrow> bool" where
  "file_system_path_ok p \<longleftrightarrow>
    (case p of ExactPath q \<Rightarrow> abs_normal q | Special (ProjectRoots (Some s)) \<Rightarrow> root_once s | _ \<Rightarrow> True)"

definition policy_ok :: "file_system_sandbox_policy \<Rightarrow> bool" where
  "policy_ok policy \<longleftrightarrow> list_all (\<lambda>e. file_system_path_ok (entry_path e)) (fs_entries policy)"

lemma in_set_tlD: "x \<in> set (tl xs) \<Longrightarrow> x \<in> set xs"
  by (cases xs) auto

lemma expand_home_once:
  assumes "env_ok env" and "root_once p"
  shows "root_once (expand_home (env_home env) p)"
proof (cases "(env_home env, p)" rule: expand_home.cases)
  case (1 home n rest)
  with assms have "abs_normal home" "root_once rest"
    by (auto simp: env_ok_def root_once_def dest: in_set_tlD)
  with 1 assms show ?thesis using path_join_abs by auto
qed (use assms in auto)

lemma from_absolute_abs:
  assumes "env_ok env" and "root_once p" and "from_absolute env p = Some q"
  shows "abs_normal q"
  using assms expand_home_once [OF assms(1,2)]
  by (auto simp: from_absolute_def absolutize_def env_ok_def intro: normalize_path_abs absolutize_from_abs
      split: if_splits)

lemma resolve_against_abs:
  "\<lbrakk>env_ok env; root_once p; abs_normal base\<rbrakk> \<Longrightarrow> abs_normal (resolve_against env p base)"
  by (simp add: resolve_against_def absolutize_from_abs expand_home_once)

lemma absolute_root_path: "abs_normal cwd \<Longrightarrow> absolute_root_path_for_cwd env cwd = Some [RootDir]"
  by (simp add: absolute_root_path_for_cwd_def last_ancestor abs_normal_root)

lemma abs_normal_slash_tmp [simp]: "abs_normal slash_tmp"
  by (simp add: slash_tmp_def abs_normal_def)

lemma resolve_entry_path_abs:
  assumes "env_ok env" and "file_system_path_ok p" and "pred_option abs_normal cwd"
    and "resolve_entry_path env p cwd = Some q"
  shows "abs_normal q"
proof (cases p)
  case (Special v)
  show ?thesis
  proof (cases v)
    case RootPath
    with Special assms show ?thesis
      by (auto simp: resolve_entry_path_def absolute_root_path abs_normal_root split: bind_splits)
  next
    case (ProjectRoots s)
    with Special assms show ?thesis
      by (auto simp: resolve_entry_path_def file_system_path_ok_def intro: resolve_against_abs split: option.splits)
  next
    case Tmpdir
    with Special assms from_absolute_abs [OF assms(1) path_of_root_once'] show ?thesis
      by (auto simp: resolve_entry_path_def split: option.splits if_splits)
  qed (use Special assms in \<open>auto simp: resolve_entry_path_def split: if_splits\<close>)
qed (use assms in \<open>auto simp: resolve_entry_path_def file_system_path_ok_def\<close>)

lemma resolved_entries_iff:
  "r \<in> set (resolved_entries_with_cwd env policy cwd) \<longleftrightarrow>
    (\<exists>e\<in>set (fs_entries policy). resolve_entry_path env (entry_path e) (from_absolute env cwd) = Some (resolved_path r)
        \<and> resolved_access r = entry_access e)"
  by (force simp: resolved_entries_with_cwd_def Let_def map_filter_def image_iff)

lemma resolved_entries_abs:
  assumes "env_ok env" and "policy_ok policy" and "root_once cwd"
    and "e \<in> set (resolved_entries_with_cwd env policy cwd)"
  shows "abs_normal (resolved_path e)"
proof -
  have "pred_option abs_normal (from_absolute env cwd)"
    using from_absolute_abs [OF assms(1,3)] by (cases "from_absolute env cwd") simp_all
  then show ?thesis
    using assms resolve_entry_path_abs by (auto simp: resolved_entries_iff policy_ok_def list_all_iff)
qed

subsection \<open>What decides, stated on the set of entries\<close>

text \<open>
  Among the entries whose path covers the path, the closest ones are those that no other covering
  entry lies below; of their modes, \<open>none\<close> wins over \<open>write\<close> and \<open>write\<close> over \<open>read\<close>, and
  nothing is allowed when no entry covers the path.
\<close>

definition entry_spec :: "resolved_file_system_entry set \<Rightarrow> path_buf \<Rightarrow> file_system_access_mode" where
  "entry_spec E q =
    (let closest = {e \<in> E. path_starts_with q (resolved_path e)
           \<and> (\<forall>f\<in>E. path_starts_with q (resolved_path f) \<longrightarrow> path_starts_with (resolved_path e) (resolved_path f))};
         modes = resolved_access ` closest
     in if AccessNone \<in> modes \<or> modes = {} then AccessNone
        else if AccessWrite \<in> modes then AccessWrite else AccessRead)"

lemma strongest_mode:
  assumes "a \<in> M" and "\<forall>b\<in>M. b \<le> a"
  shows "(if AccessNone \<in> M \<or> M = {} then AccessNone else if AccessWrite \<in> M then AccessWrite else AccessRead) = a"
proof (cases a)
  case AccessRead
  with assms have "AccessNone \<notin> M" "AccessWrite \<notin> M" by (auto simp: access_order)
  with assms(1) AccessRead show ?thesis by auto
next
  case AccessWrite
  with assms have "AccessNone \<notin> M" by (auto simp: access_order)
  with assms(1) AccessWrite show ?thesis by auto
qed (use assms(1) in auto)

lemma access_most_specific:
  assumes "fs_kind policy = FsRestricted" and "resolve_candidate_path env p cwd = Some q"
  shows "resolve_access_with_cwd env policy p cwd = entry_spec (set (resolved_entries_with_cwd env policy cwd)) q"
proof (cases rule: resolve_access_cases [OF assms, case_names uncovered winner])
  case uncovered
  then show ?thesis by (auto simp: entry_spec_def covers_path_def Let_def)
next
  case (winner e)
  let ?E = "set (resolved_entries_with_cwd env policy cwd)"
  define closest where "closest = {e \<in> ?E. path_starts_with q (resolved_path e)
           \<and> (\<forall>f\<in>?E. path_starts_with q (resolved_path f) \<longrightarrow> path_starts_with (resolved_path e) (resolved_path f))}"
  have e: "e \<in> closest"
    using winner(1-3) path_prefix_comparable [of q _ "resolved_path e"]
    by (fastforce simp: closest_def covers_path_def precedence_le_iff)
  have below: "resolved_access f \<le> resolved_access e" if "f \<in> closest" for f
  proof -
    from that winner(1,2) have "f \<in> ?E" "covers_path f q" "path_starts_with (resolved_path f) (resolved_path e)"
      by (auto simp: closest_def covers_path_def)
    with winner(3) [of f] path_prefix_length [of "resolved_path f" "resolved_path e"] show ?thesis
      by (auto simp: precedence_le_iff)
  qed
  have "entry_spec ?E q = resolved_access e"
    unfolding entry_spec_def closest_def [symmetric] Let_def
    using e below by (intro strongest_mode) auto
  with winner(4) show ?thesis by simp
qed

text \<open>Only the set of the entries matters.\<close>

lemma resolve_access_by_set:
  assumes "fs_kind policy = fs_kind policy'" and "set (fs_entries policy) = set (fs_entries policy')"
  shows "resolve_access_with_cwd env policy p cwd = resolve_access_with_cwd env policy' p cwd"
proof (cases "fs_kind policy = FsRestricted \<and> resolve_candidate_path env p cwd \<noteq> None")
  case True
  then obtain q where q: "resolve_candidate_path env p cwd = Some q" by blast
  have "set (resolved_entries_with_cwd env policy cwd) = set (resolved_entries_with_cwd env policy' cwd)"
    using assms(2) by (auto simp: resolved_entries_iff)
  then have "access.decide (resolved_entries_with_cwd env policy cwd) q
      = access.decide (resolved_entries_with_cwd env policy' cwd) q"
    by (rule access.decide_by_set)
  with True assms(1) show ?thesis
    by (simp only: resolve_access_restricted [OF _ q])
next
  case False
  then show ?thesis using assms(1) by (cases "fs_kind policy'") (auto simp: resolve_access_with_cwd_def)
qed

subsection \<open>A system without links\<close>

text \<open>An environment to evaluate examples in: nothing exists besides the root directory.\<close>

definition plain_env :: fs_env where
  "plain_env = \<lparr>env_home = None, env_current_dir = Some [RootDir], env_tmpdir = None, path_is_dir = (\<lambda>_. False),
     path_is_file = (\<lambda>_. False), path_exists = (\<lambda>_. False), read_to_string = (\<lambda>_. None),
     symlink_metadata = (\<lambda>_. Some False), os_canonicalize = (\<lambda>_. None), compile_glob = (\<lambda>_. None)\<rparr>"

lemma plain_env_laws: "env_ok plain_env" "no_links plain_env"
  by (simp_all add: env_ok_def no_links_def plain_env_def abs_normal_def)

end
