(* ===== verification/Sandbox_Roots.thy ===== *)
theory Sandbox_Roots
  imports Access_Decision "HOL-Library.List_Lexorder"
begin

section \<open>The roots handed to the sandbox (protocol: permissions.rs, protocol.rs)\<close>

text \<open>
  The lists of readable, writable and unreadable roots and of unreadable glob patterns that the
  platform sandboxes are built from, the protected paths below a writable root, the deny matcher
  of the file tools, and the conversions from and to the older \<open>SandboxPolicy\<close>. The source has
  two copies of the functions that find the protected paths, one per file; so has the model, and
  \<open>protected_paths_agree\<close> shows that they agree.
\<close>

subsection \<open>Protected paths below a writable root (permissions.rs)\<close>

definition is_git_pointer_file :: "fs_env \<Rightarrow> path_buf \<Rightarrow> bool" where
  "is_git_pointer_file env p \<longleftrightarrow> path_is_file env p \<and> file_name p = Some (lit ''.git'')"

definition resolve_gitdir_from_file :: "fs_env \<Rightarrow> path_buf \<Rightarrow> path_buf option" where
  "resolve_gitdir_from_file env dot_git =
    (case read_to_string env dot_git of
       None \<Rightarrow> None
     | Some contents \<Rightarrow>
        (case split_once c_colon (trim contents) of
           None \<Rightarrow> None
         | Some (_, gitdir_raw) \<Rightarrow>
            (let gitdir_raw = trim gitdir_raw in
             if gitdir_raw = [] then None
             else case path_parent dot_git of
               None \<Rightarrow> None
             | Some base \<Rightarrow>
                (let gitdir_path = resolve_path_against_base (env_home env) gitdir_raw base in
                 if \<not> path_exists env gitdir_path then None else Some gitdir_path))))"

definition default_read_only_subpaths_for_writable_root :: "fs_env \<Rightarrow> path_buf \<Rightarrow> bool \<Rightarrow> path_buf list" where
  "default_read_only_subpaths_for_writable_root env writable_root protect_missing_dot_codex =
    (let top_level_git = abs_join env writable_root (lit ''.git'');
         top_level_git_is_file = path_is_file env top_level_git;
         top_level_git_is_dir = path_is_dir env top_level_git;
         git_subpaths =
           (if top_level_git_is_dir \<or> top_level_git_is_file then
              (if top_level_git_is_file \<and> is_git_pointer_file env top_level_git then
                 (case resolve_gitdir_from_file env top_level_git of Some gitdir \<Rightarrow> [gitdir] | None \<Rightarrow> [])
               else []) @ [top_level_git]
            else []);
         top_level_agents = abs_join env writable_root (lit ''.agents'');
         agents_subpaths = (if path_is_dir env top_level_agents then [top_level_agents] else []);
         top_level_codex = abs_join env writable_root (lit ''.codex'');
         codex_subpaths =
           (if protect_missing_dot_codex \<or> path_is_dir env top_level_codex then [top_level_codex] else [])
     in dedup_absolute_paths env False (git_subpaths @ agents_subpaths @ codex_subpaths))"

definition has_explicit_resolved_path_entry :: "resolved_file_system_entry list \<Rightarrow> path_buf \<Rightarrow> bool" where
  "has_explicit_resolved_path_entry entries p \<longleftrightarrow> list_ex (\<lambda>e. resolved_path e = p) entries"

subsection \<open>The roots of a policy\<close>

definition get_readable_roots_with_cwd :: "fs_env \<Rightarrow> file_system_sandbox_policy \<Rightarrow> path_buf \<Rightarrow> path_buf list" where
  "get_readable_roots_with_cwd env policy cwd =
    (if has_full_disk_read_access policy then []
     else dedup_absolute_paths env True
       (map resolved_path
         (filter (\<lambda>e. can_read_path_with_cwd env policy (resolved_path e) cwd)
           (filter (\<lambda>e. access_can_read (resolved_access e)) (resolved_entries_with_cwd env policy cwd)))))"

definition writable_entries :: "fs_env \<Rightarrow> file_system_sandbox_policy \<Rightarrow> path_buf \<Rightarrow> path_buf list" where
  "writable_entries env policy cwd =
    map resolved_path
      (filter (\<lambda>e. can_write_path_with_cwd env policy (resolved_path e) cwd)
        (filter (\<lambda>e. access_can_write (resolved_access e)) (resolved_entries_with_cwd env policy cwd)))"

fun raw_carveout_below :: "fs_env \<Rightarrow> path_buf \<Rightarrow> path_buf \<Rightarrow> path_buf list \<Rightarrow> path_buf option" where
  "raw_carveout_below env root p [] = None"
| "raw_carveout_below env root p (raw_root # raw_roots) =
    (case strip_prefix raw_root p of
       None \<Rightarrow> raw_carveout_below env root p raw_roots
     | Some suffix \<Rightarrow>
         if suffix = [] then raw_carveout_below env root p raw_roots
         else Some (resolve_against env suffix root))"

text \<open>
  The carve-out of a writable root that one entry makes: the literal path when it lies below the
  root or below one of its other spellings, the effective path otherwise.
\<close>

definition carveout_of ::
    "fs_env \<Rightarrow> path_buf \<Rightarrow> path_buf list \<Rightarrow> path_buf \<Rightarrow> path_buf option" where
  "carveout_of env root raw_writable_roots p =
    (let effective_path = normalize_effective_absolute_path env p;
         preserve_raw_carveout_paths = path_parent root \<noteq> None;
         raw_carveout_path =
           (if preserve_raw_carveout_paths then
              (if p = root then None
               else if path_starts_with p root then Some p
               else raw_carveout_below env root p raw_writable_roots)
            else None)
     in case raw_carveout_path of
          Some raw \<Rightarrow> Some raw
        | None \<Rightarrow>
            if effective_path = root \<or> \<not> path_starts_with effective_path root then None
            else Some effective_path)"

definition writable_root_of ::
    "fs_env \<Rightarrow> file_system_sandbox_policy \<Rightarrow> path_buf \<Rightarrow> path_buf \<Rightarrow> writable_root" where
  "writable_root_of env policy cwd root =
    (let resolved_entries = resolved_entries_with_cwd env policy cwd;
         raw_writable_roots = filter (\<lambda>p. normalize_effective_absolute_path env p = root)
           (writable_entries env policy cwd);
         protect_missing_dot_codex =
           (case from_absolute env cwd of
              None \<Rightarrow> False
            | Some cwd \<Rightarrow> normalize_effective_absolute_path env cwd = root);
         defaults = filter (\<lambda>p. \<not> has_explicit_resolved_path_entry resolved_entries p)
           (default_read_only_subpaths_for_writable_root env root protect_missing_dot_codex);
         carveouts = List.map_filter (\<lambda>e. carveout_of env root raw_writable_roots (resolved_path e))
           (filter (\<lambda>e. \<not> can_write_path_with_cwd env policy (resolved_path e) cwd)
             (filter (\<lambda>e. \<not> access_can_write (resolved_access e)) resolved_entries))
     in \<lparr>wr_root = root, read_only_subpaths = dedup_absolute_paths env False (defaults @ carveouts)\<rparr>)"

definition get_writable_roots_with_cwd ::
    "fs_env \<Rightarrow> file_system_sandbox_policy \<Rightarrow> path_buf \<Rightarrow> writable_root list" where
  "get_writable_roots_with_cwd env policy cwd =
    (if has_full_disk_write_access policy then []
     else map (writable_root_of env policy cwd)
       (dedup_absolute_paths env True (writable_entries env policy cwd)))"

definition get_unreadable_roots_with_cwd :: "fs_env \<Rightarrow> file_system_sandbox_policy \<Rightarrow> path_buf \<Rightarrow> path_buf list" where
  "get_unreadable_roots_with_cwd env policy cwd =
    (if fs_kind policy \<noteq> FsRestricted then []
     else let root = Option.bind (from_absolute env cwd) (absolute_root_path_for_cwd env)
       in dedup_absolute_paths env True
        (map resolved_path
          (filter (\<lambda>e. root \<noteq> Some (resolved_path e))
            (filter (\<lambda>e. \<not> can_read_path_with_cwd env policy (resolved_path e) cwd)
              (filter (\<lambda>e. resolved_access e = AccessNone) (resolved_entries_with_cwd env policy cwd))))))"

definition get_unreadable_globs_with_cwd :: "fs_env \<Rightarrow> file_system_sandbox_policy \<Rightarrow> path_buf \<Rightarrow> ustr list" where
  "get_unreadable_globs_with_cwd env policy cwd =
    (if fs_kind policy \<noteq> FsRestricted then []
     else remdups_adj (sort (map path_display
       (List.map_filter
         (\<lambda>e. case entry_path e of
               GlobPattern pattern \<Rightarrow> Some (resolve_path_against_base (env_home env) pattern cwd)
             | ExactPath _ \<Rightarrow> None | Special _ \<Rightarrow> None)
         (filter (\<lambda>e. entry_access e = AccessNone) (fs_entries policy))))))"

subsection \<open>The deny matcher of the file tools\<close>

record read_deny_matcher =
  denied_candidates :: "path_buf list list"
  deny_read_matchers :: "(path_buf \<Rightarrow> bool) list"
  invalid_pattern :: bool

definition push_unique :: "'a list \<Rightarrow> 'a \<Rightarrow> 'a list" where
  "push_unique candidates candidate = (if candidate \<in> set candidates then candidates else candidates @ [candidate])"

definition normalized_and_canonical_candidates :: "fs_env \<Rightarrow> path_buf \<Rightarrow> path_buf list" where
  "normalized_and_canonical_candidates env p =
    (let candidates = push_unique []
           (case from_absolute env p of Some normalized \<Rightarrow> normalized | None \<Rightarrow> p)
     in case Option.bind (os_canonicalize env p) (from_absolute env) of
          Some canonical_absolute \<Rightarrow> push_unique candidates canonical_absolute
        | None \<Rightarrow> candidates)"

definition build_glob_matcher :: "fs_env \<Rightarrow> ustr \<Rightarrow> (path_buf \<Rightarrow> bool) option" where
  "build_glob_matcher env pattern = compile_glob env pattern"

definition new_read_deny_matcher ::
    "fs_env \<Rightarrow> file_system_sandbox_policy \<Rightarrow> path_buf \<Rightarrow> read_deny_matcher option" where
  "new_read_deny_matcher env policy cwd =
    (if \<not> has_denied_read_restrictions policy then None
     else let globs = get_unreadable_globs_with_cwd env policy cwd in
       Some \<lparr>denied_candidates =
               map (normalized_and_canonical_candidates env) (get_unreadable_roots_with_cwd env policy cwd),
             deny_read_matchers = List.map_filter (build_glob_matcher env) globs,
             invalid_pattern = list_ex (\<lambda>pattern. build_glob_matcher env pattern = None) globs\<rparr>)"

definition is_read_denied :: "fs_env \<Rightarrow> read_deny_matcher \<Rightarrow> path_buf \<Rightarrow> bool" where
  "is_read_denied env m p =
    (if invalid_pattern m then True
     else let path_candidates = normalized_and_canonical_candidates env p in
       if list_ex (\<lambda>denied. list_ex (\<lambda>candidate.
            list_ex (\<lambda>denied_candidate. candidate = denied_candidate \<or> path_starts_with candidate denied_candidate)
              denied) path_candidates) (denied_candidates m)
       then True
       else list_ex (\<lambda>matcher. list_ex matcher path_candidates) (deny_read_matchers m))"

subsection \<open>Widening a policy\<close>

fun add_readable_roots ::
    "fs_env \<Rightarrow> path_buf \<Rightarrow> file_system_sandbox_policy \<Rightarrow> path_buf list \<Rightarrow> file_system_sandbox_policy" where
  "add_readable_roots env cwd policy [] = policy"
| "add_readable_roots env cwd policy (p # ps) =
    (if can_read_path_with_cwd env policy p cwd then add_readable_roots env cwd policy ps
     else add_readable_roots env cwd
       (policy\<lparr>fs_entries := fs_entries policy @ [\<lparr>entry_path = ExactPath p, entry_access = AccessRead\<rparr>]\<rparr>) ps)"

definition with_additional_readable_roots ::
    "fs_env \<Rightarrow> file_system_sandbox_policy \<Rightarrow> path_buf \<Rightarrow> path_buf list \<Rightarrow> file_system_sandbox_policy" where
  "with_additional_readable_roots env policy cwd additional_readable_roots =
    (if has_full_disk_read_access policy then policy
     else add_readable_roots env cwd policy additional_readable_roots)"

fun with_additional_writable_roots ::
    "fs_env \<Rightarrow> file_system_sandbox_policy \<Rightarrow> path_buf \<Rightarrow> path_buf list \<Rightarrow> file_system_sandbox_policy" where
  "with_additional_writable_roots env policy cwd [] = policy"
| "with_additional_writable_roots env policy cwd (p # ps) =
    (if can_write_path_with_cwd env policy p cwd then with_additional_writable_roots env policy cwd ps
     else with_additional_writable_roots env
       (policy\<lparr>fs_entries := fs_entries policy @ [\<lparr>entry_path = ExactPath p, entry_access = AccessWrite\<rparr>]\<rparr>) cwd ps)"

fun push_deny_entries ::
    "file_system_sandbox_entry list \<Rightarrow> file_system_sandbox_entry list \<Rightarrow> file_system_sandbox_entry list" where
  "push_deny_entries entries [] = entries"
| "push_deny_entries entries (deny_entry # rest) =
    push_deny_entries (if deny_entry \<in> set entries then entries else entries @ [deny_entry]) rest"

definition deny_entries :: "file_system_sandbox_policy \<Rightarrow> file_system_sandbox_entry list" where
  "deny_entries policy = filter (\<lambda>e. entry_access e = AccessNone) (fs_entries policy)"

definition preserve_deny_read_restrictions_from ::
    "file_system_sandbox_policy \<Rightarrow> file_system_sandbox_policy \<Rightarrow> file_system_sandbox_policy" where
  "preserve_deny_read_restrictions_from policy existing =
    (let has_deny_read_entries = list_ex (\<lambda>e. entry_access e = AccessNone) (fs_entries existing);
         policy = (if fs_kind policy = FsUnrestricted \<and> has_deny_read_entries
                   then restricted [root_entry AccessWrite] else policy)
     in if fs_kind policy \<noteq> FsRestricted then policy
        else let policy = (if glob_scan_max_depth policy = None
                           then policy\<lparr>glob_scan_max_depth := glob_scan_max_depth existing\<rparr> else policy)
          in policy\<lparr>fs_entries := push_deny_entries (fs_entries policy) (deny_entries existing)\<rparr>)"

end
