(* ===== verification/Legacy_Policy.thy ===== *)
theory Legacy_Policy
  imports Sandbox_Roots
begin

section \<open>The older sandbox policy (protocol: protocol.rs, permissions.rs)\<close>

text \<open>
  \<open>SandboxPolicy\<close> is the setting older clients know. Here: its own writable roots, its projection
  into file system entries (with or without a current directory, keeping deny entries or not), the
  way back, and the comparison that decides whether a policy needs the newer enforcement. The
  loop of \<open>to_legacy_sandbox_policy\<close> collects the five local variables of the source in a record.
\<close>

subsection \<open>Writable roots of the older policy (protocol.rs)\<close>

definition protocol_is_git_pointer_file :: "fs_env \<Rightarrow> path_buf \<Rightarrow> bool" where
  "protocol_is_git_pointer_file env p \<longleftrightarrow> path_is_file env p \<and> file_name p = Some (lit ''.git'')"

definition protocol_resolve_gitdir_from_file :: "fs_env \<Rightarrow> path_buf \<Rightarrow> path_buf option" where
  "protocol_resolve_gitdir_from_file env dot_git =
    (case read_to_string env dot_git of
       None \<Rightarrow> None
     | Some contents \<Rightarrow>
        (case split_once c_colon (trim contents) of
           None \<Rightarrow> None
         | Some (_, gitdir_raw) \<Rightarrow>
            (let gitdir_raw = trim gitdir_raw in
             if gitdir_raw = [] then None
             else case path_parent dot_git of
               None \<Rightarrow> None
             | Some base \<Rightarrow>
                (let gitdir_path = resolve_path_against_base (env_home env) gitdir_raw base in
                 if \<not> path_exists env gitdir_path then None else Some gitdir_path))))"

definition protocol_default_read_only_subpaths :: "fs_env \<Rightarrow> path_buf \<Rightarrow> bool \<Rightarrow> path_buf list" where
  "protocol_default_read_only_subpaths env writable_root protect_missing_dot_codex =
    (let top_level_git = abs_join env writable_root (lit ''.git'');
         top_level_git_is_file = path_is_file env top_level_git;
         top_level_git_is_dir = path_is_dir env top_level_git;
         git_subpaths =
           (if top_level_git_is_dir \<or> top_level_git_is_file then
              (if top_level_git_is_file \<and> protocol_is_git_pointer_file env top_level_git then
                 (case protocol_resolve_gitdir_from_file env top_level_git of
                    Some gitdir \<Rightarrow> [gitdir] | None \<Rightarrow> [])
               else []) @ [top_level_git]
            else []);
         top_level_agents = abs_join env writable_root (lit ''.agents'');
         agents_subpaths = (if path_is_dir env top_level_agents then [top_level_agents] else []);
         top_level_codex = abs_join env writable_root (lit ''.codex'');
         codex_subpaths =
           (if protect_missing_dot_codex \<or> path_is_dir env top_level_codex then [top_level_codex] else [])
     in dedup_seen [] (git_subpaths @ agents_subpaths @ codex_subpaths))"

lemma protected_paths_agree:
  "protocol_default_read_only_subpaths = default_read_only_subpaths_for_writable_root"
proof -
  have "protocol_is_git_pointer_file = is_git_pointer_file"
    by (simp add: fun_eq_iff protocol_is_git_pointer_file_def is_git_pointer_file_def)
  moreover have "protocol_resolve_gitdir_from_file = resolve_gitdir_from_file"
    by (simp add: fun_eq_iff protocol_resolve_gitdir_from_file_def resolve_gitdir_from_file_def)
  ultimately show ?thesis
    by (intro ext) (simp only: protocol_default_read_only_subpaths_def
        default_read_only_subpaths_for_writable_root_def dedup_absolute_paths_def if_False)
qed

text \<open>The value of \<open>TMPDIR\<close>, when it is set, not empty, and can be made absolute.\<close>

definition tmpdir_root :: "fs_env \<Rightarrow> path_buf list" where
  "tmpdir_root env =
    (case env_tmpdir env of
       None \<Rightarrow> []
     | Some tmpdir \<Rightarrow>
         if tmpdir = [] then []
         else (case from_absolute env (path_of tmpdir) of Some p \<Rightarrow> [p] | None \<Rightarrow> []))"

definition slash_tmp_root :: "fs_env \<Rightarrow> path_buf list" where
  "slash_tmp_root env = (if path_is_dir env slash_tmp then [slash_tmp] else [])"

fun legacy_writable_roots_with_cwd :: "fs_env \<Rightarrow> sandbox_policy \<Rightarrow> path_buf \<Rightarrow> writable_root list" where
  "legacy_writable_roots_with_cwd env (WorkspaceWrite writable_roots _ exclude_tmpdir_env_var exclude_slash_tmp) cwd =
    (let cwd_root = from_absolute env cwd;
         roots = writable_roots
           @ (case cwd_root of Some cwd \<Rightarrow> [cwd] | None \<Rightarrow> [])
           @ (if \<not> exclude_slash_tmp then slash_tmp_root env else [])
           @ (if \<not> exclude_tmpdir_env_var then tmpdir_root env else [])
     in map (\<lambda>root. \<lparr>wr_root = root,
          read_only_subpaths = protocol_default_read_only_subpaths env root (cwd_root = Some root)\<rparr>) roots)"
| "legacy_writable_roots_with_cwd env _ cwd = []"

subsection \<open>From the older policy\<close>

definition exact_entry :: "file_system_access_mode \<Rightarrow> path_buf \<Rightarrow> file_system_sandbox_entry" where
  "exact_entry a p = \<lparr>entry_path = ExactPath p, entry_access = a\<rparr>"

definition special_entry :: "file_system_access_mode \<Rightarrow> file_system_special_path \<Rightarrow> file_system_sandbox_entry" where
  "special_entry a v = \<lparr>entry_path = Special v, entry_access = a\<rparr>"

fun policy_of_sandbox_policy :: "sandbox_policy \<Rightarrow> file_system_sandbox_policy" where
  "policy_of_sandbox_policy DangerFullAccess = unrestricted"
| "policy_of_sandbox_policy (ExternalSandbox _) = external_sandbox"
| "policy_of_sandbox_policy (ReadOnly _) = restricted [special_entry AccessRead RootPath]"
| "policy_of_sandbox_policy (WorkspaceWrite writable_roots _ exclude_tmpdir_env_var exclude_slash_tmp) =
    restricted ([special_entry AccessRead RootPath, special_entry AccessWrite CurrentWorkingDirectory]
      @ (if \<not> exclude_slash_tmp then [special_entry AccessWrite SlashTmp] else [])
      @ (if \<not> exclude_tmpdir_env_var then [special_entry AccessWrite Tmpdir] else [])
      @ map (exact_entry AccessWrite) writable_roots)"

definition prune_read_entries_under_writable_roots ::
    "file_system_sandbox_entry list \<Rightarrow> writable_root list \<Rightarrow> file_system_sandbox_entry list" where
  "prune_read_entries_under_writable_roots entries legacy_writable_roots =
    filter (\<lambda>e. if entry_access e \<noteq> AccessRead then True
                else case entry_path e of
                  ExactPath p \<Rightarrow> \<not> list_ex (\<lambda>root. is_path_writable root p) legacy_writable_roots
                | GlobPattern _ \<Rightarrow> True | Special _ \<Rightarrow> True) entries"

definition legacy_non_cwd_writable_roots :: "fs_env \<Rightarrow> path_buf list \<Rightarrow> bool \<Rightarrow> bool \<Rightarrow> writable_root list" where
  "legacy_non_cwd_writable_roots env writable_roots exclude_tmpdir_env_var exclude_slash_tmp =
    (let roots = writable_roots
           @ (if \<not> exclude_slash_tmp then slash_tmp_root env else [])
           @ (if \<not> exclude_tmpdir_env_var then tmpdir_root env else [])
     in map (\<lambda>root. \<lparr>wr_root = root,
          read_only_subpaths = default_read_only_subpaths_for_writable_root env root False\<rparr>)
        (dedup_absolute_paths env True roots))"

definition append_default_read_only_entry_if_no_explicit_rule ::
    "file_system_sandbox_entry list \<Rightarrow> file_system_path \<Rightarrow> file_system_sandbox_entry list" where
  "append_default_read_only_entry_if_no_explicit_rule entries p =
    (if list_ex (\<lambda>e. file_system_paths_share_target (entry_path e) p) entries then entries
     else entries @ [\<lparr>entry_path = p, entry_access = AccessRead\<rparr>])"

definition append_default_read_only_project_root_subpath_if_no_explicit_rule ::
    "file_system_sandbox_entry list \<Rightarrow> ustr \<Rightarrow> file_system_sandbox_entry list" where
  "append_default_read_only_project_root_subpath_if_no_explicit_rule entries subpath =
    append_default_read_only_entry_if_no_explicit_rule entries (Special (ProjectRoots (Some (path_of subpath))))"

definition append_default_read_only_path_if_no_explicit_rule ::
    "path_buf \<Rightarrow> file_system_sandbox_entry list \<Rightarrow> file_system_sandbox_entry list" where
  "append_default_read_only_path_if_no_explicit_rule p entries =
    append_default_read_only_entry_if_no_explicit_rule entries (ExactPath p)"

text \<open>The nested loops that protect the paths below each root.\<close>

definition protect_subpaths :: "path_buf list \<Rightarrow> file_system_sandbox_entry list \<Rightarrow> file_system_sandbox_entry list" where
  "protect_subpaths paths entries = fold append_default_read_only_path_if_no_explicit_rule paths entries"

definition from_legacy_sandbox_policy :: "fs_env \<Rightarrow> sandbox_policy \<Rightarrow> file_system_sandbox_policy" where
  "from_legacy_sandbox_policy env sandbox_policy =
    (let policy = policy_of_sandbox_policy sandbox_policy in
     case sandbox_policy of
       WorkspaceWrite writable_roots _ exclude_tmpdir_env_var exclude_slash_tmp \<Rightarrow>
        (let entries = prune_read_entries_under_writable_roots (fs_entries policy)
               (legacy_non_cwd_writable_roots env writable_roots exclude_tmpdir_env_var exclude_slash_tmp);
             entries = append_default_read_only_project_root_subpath_if_no_explicit_rule entries (lit ''.git'');
             entries = append_default_read_only_project_root_subpath_if_no_explicit_rule entries (lit ''.agents'');
             entries = append_default_read_only_project_root_subpath_if_no_explicit_rule entries (lit ''.codex'');
             entries = fold (\<lambda>root. protect_subpaths (default_read_only_subpaths_for_writable_root env root False))
               writable_roots entries
         in policy\<lparr>fs_entries := entries\<rparr>)
     | _ \<Rightarrow> policy)"

definition from_legacy_sandbox_policy_for_cwd ::
    "fs_env \<Rightarrow> sandbox_policy \<Rightarrow> path_buf \<Rightarrow> file_system_sandbox_policy" where
  "from_legacy_sandbox_policy_for_cwd env sandbox_policy cwd =
    (let policy = policy_of_sandbox_policy sandbox_policy in
     case sandbox_policy of
       WorkspaceWrite writable_roots _ _ _ \<Rightarrow>
        (let entries = prune_read_entries_under_writable_roots (fs_entries policy)
               (legacy_writable_roots_with_cwd env sandbox_policy cwd);
             entries = (case from_absolute env cwd of
                 Some cwd_root \<Rightarrow>
                   protect_subpaths (default_read_only_subpaths_for_writable_root env cwd_root True) entries
               | None \<Rightarrow> entries);
             entries = fold (\<lambda>root. protect_subpaths (default_read_only_subpaths_for_writable_root env root False))
               writable_roots entries
         in policy\<lparr>fs_entries := entries\<rparr>)
     | _ \<Rightarrow> policy)"

definition from_legacy_sandbox_policy_preserving_deny_entries ::
    "fs_env \<Rightarrow> sandbox_policy \<Rightarrow> path_buf \<Rightarrow> file_system_sandbox_policy \<Rightarrow> file_system_sandbox_policy" where
  "from_legacy_sandbox_policy_preserving_deny_entries env sandbox_policy cwd existing =
    (let rebuilt = from_legacy_sandbox_policy_for_cwd env sandbox_policy cwd in
     if fs_kind rebuilt \<noteq> FsRestricted then rebuilt
     else rebuilt\<lparr>glob_scan_max_depth := glob_scan_max_depth existing,
                  fs_entries := push_deny_entries (fs_entries rebuilt) (deny_entries existing)\<rparr>)"

subsection \<open>To the older policy\<close>

record bridge =
  workspace_root_writable :: bool
  bridge_writable_roots :: "path_buf list"
  tmpdir_writable :: bool
  slash_tmp_writable :: bool
  unbridgeable_root_write :: bool

definition no_bridge :: bridge where
  "no_bridge = \<lparr>workspace_root_writable = False, bridge_writable_roots = [], tmpdir_writable = False,
     slash_tmp_writable = False, unbridgeable_root_write = False\<rparr>"

definition bridge_entry :: "fs_env \<Rightarrow> path_buf option \<Rightarrow> file_system_sandbox_entry \<Rightarrow> bridge \<Rightarrow> bridge" where
  "bridge_entry env cwd_absolute entry b =
    (case entry_path entry of
       GlobPattern _ \<Rightarrow> b
     | ExactPath p \<Rightarrow>
         if access_can_write (entry_access entry) then
           if cwd_absolute = Some p then b\<lparr>workspace_root_writable := True\<rparr>
           else b\<lparr>bridge_writable_roots := bridge_writable_roots b @ [p]\<rparr>
         else b
     | Special v \<Rightarrow>
        (case v of
           RootPath \<Rightarrow>
            (case entry_access entry of
               AccessNone \<Rightarrow> b | AccessRead \<Rightarrow> b | AccessWrite \<Rightarrow> b\<lparr>unbridgeable_root_write := True\<rparr>)
         | Minimal \<Rightarrow> b
         | CurrentWorkingDirectory \<Rightarrow>
             if access_can_write (entry_access entry) then b\<lparr>workspace_root_writable := True\<rparr> else b
         | ProjectRoots subpath \<Rightarrow>
             if subpath = None \<and> access_can_write (entry_access entry) then b\<lparr>workspace_root_writable := True\<rparr>
             else (case resolve_file_system_special_path env v cwd_absolute of
                 Some p \<Rightarrow>
                   if access_can_write (entry_access entry)
                   then b\<lparr>bridge_writable_roots := bridge_writable_roots b @ [p]\<rparr> else b
               | None \<Rightarrow> b)
         | Tmpdir \<Rightarrow> if access_can_write (entry_access entry) then b\<lparr>tmpdir_writable := True\<rparr> else b
         | SlashTmp \<Rightarrow> if access_can_write (entry_access entry) then b\<lparr>slash_tmp_writable := True\<rparr> else b
         | UnknownPath _ _ \<Rightarrow> b))"

datatype legacy_error = InvalidInput ustr

definition outside_workspace_error :: legacy_error where
  "outside_workspace_error = InvalidInput (lit ''permissions profile requests filesystem writes outside the workspace root, which is not supported until the runtime enforces FileSystemSandboxPolicy directly'')"

definition to_legacy_sandbox_policy ::
    "fs_env \<Rightarrow> file_system_sandbox_policy \<Rightarrow> network_sandbox_policy \<Rightarrow> path_buf \<Rightarrow> legacy_error + sandbox_policy" where
  "to_legacy_sandbox_policy env policy network_policy cwd =
    (case fs_kind policy of
       FsExternalSandbox \<Rightarrow>
         Inr (ExternalSandbox (if network_is_enabled network_policy then NetEnabled else NetRestricted))
     | FsUnrestricted \<Rightarrow>
         Inr (if network_is_enabled network_policy then DangerFullAccess else ExternalSandbox NetRestricted)
     | FsRestricted \<Rightarrow>
        (let cwd_absolute = from_absolute env cwd;
             b = fold (bridge_entry env cwd_absolute) (fs_entries policy) no_bridge
         in if has_full_disk_write_access policy then
              Inr (if network_is_enabled network_policy then DangerFullAccess else ExternalSandbox NetRestricted)
            else if workspace_root_writable b then
              Inr (WorkspaceWrite (dedup_absolute_paths env False (bridge_writable_roots b))
                (network_is_enabled network_policy) (\<not> tmpdir_writable b) (\<not> slash_tmp_writable b))
            else if unbridgeable_root_write b \<or> bridge_writable_roots b \<noteq> []
                \<or> tmpdir_writable b \<or> slash_tmp_writable b then
              Inl outside_workspace_error
            else Inr (ReadOnly (network_is_enabled network_policy))))"

subsection \<open>What a policy enforces\<close>

record file_system_semantic_signature =
  sig_full_disk_read :: bool
  sig_full_disk_write :: bool
  sig_platform_defaults :: bool
  sig_readable_roots :: "path_buf list"
  sig_writable_roots :: "writable_root list"
  sig_unreadable_roots :: "path_buf list"
  sig_unreadable_globs :: "ustr list"

definition semantic_signature ::
    "fs_env \<Rightarrow> file_system_sandbox_policy \<Rightarrow> path_buf \<Rightarrow> file_system_semantic_signature" where
  "semantic_signature env policy cwd =
    \<lparr>sig_full_disk_read = has_full_disk_read_access policy,
     sig_full_disk_write = has_full_disk_write_access policy,
     sig_platform_defaults = include_platform_defaults policy,
     sig_readable_roots = get_readable_roots_with_cwd env policy cwd,
     sig_writable_roots = get_writable_roots_with_cwd env policy cwd,
     sig_unreadable_roots = get_unreadable_roots_with_cwd env policy cwd,
     sig_unreadable_globs = get_unreadable_globs_with_cwd env policy cwd\<rparr>"

definition needs_direct_runtime_enforcement ::
    "fs_env \<Rightarrow> file_system_sandbox_policy \<Rightarrow> network_sandbox_policy \<Rightarrow> path_buf \<Rightarrow> bool" where
  "needs_direct_runtime_enforcement env policy network_policy cwd =
    (if fs_kind policy \<noteq> FsRestricted then False
     else case to_legacy_sandbox_policy env policy network_policy cwd of
       Inl _ \<Rightarrow> True
     | Inr legacy_policy \<Rightarrow>
         semantic_signature env policy cwd
         \<noteq> semantic_signature env (from_legacy_sandbox_policy_for_cwd env legacy_policy cwd) cwd)"

end
