(* ===== verification/Sandbox_Facts.thy ===== *)
theory Sandbox_Facts
  imports Legacy_Policy
begin

section \<open>What the derived settings allow\<close>

text \<open>
  The facts behind the properties of the sandbox settings: full disk access means every path,
  the writable roots and their carve-outs let nothing through that the policy does not, the deny
  matcher stops what a deny entry decides, the way to the older policy and back, and that every path handed out is absolute.
\<close>

subsection \<open>Full disk access\<close>

lemma covering_resolved:
  "resolve_entry_path env (entry_path e) (from_absolute env cwd) = Some r \<Longrightarrow> e \<in> set (fs_entries policy) \<Longrightarrow>
   \<lparr>resolved_path = r, resolved_access = entry_access e\<rparr> \<in> set (resolved_entries_with_cwd env policy cwd)"
  by (auto simp: resolved_entries_iff)

lemma root_resolves: "abs_normal cwd \<Longrightarrow> resolve_entry_path env (Special RootPath) (from_absolute env cwd) = Some [RootDir]"
  by (simp add: resolve_entry_path_def absolute_root_path)

lemma root_covers: "abs_normal p \<Longrightarrow> path_starts_with p [RootDir]"
  by (auto simp: abs_normal_def path_starts_with_iff)

text \<open>Entries that share a target resolve to the same path.\<close>

lemma special_share_target_resolve:
  assumes "special_paths_share_target v w" and "abs_normal cwd"
  shows "resolve_entry_path env (Special v) (Some cwd) = resolve_entry_path env (Special w) (Some cwd)"
  using assms by (induction v w rule: special_paths_share_target.induct)
    (auto simp: resolve_entry_path_def)

lemma special_match_resolve:
  assumes "special_path_matches_absolute_path v p" and "abs_normal p" and "abs_normal cwd"
    and "resolve_entry_path env (Special v) (Some cwd) = Some q"
  shows "q = p"
  using assms abs_normal_parent(1) [OF assms(2)]
  by (cases v) (auto simp: resolve_entry_path_def absolute_root_path split: if_splits)


lemma shared_target_resolves:
  assumes "file_system_paths_share_target p r" and "file_system_path_ok p" and "file_system_path_ok r"
    and "abs_normal cwd" and "resolve_entry_path env r (Some cwd) = Some q"
    and "p = Special SlashTmp \<longrightarrow> path_is_dir env slash_tmp"
  shows "resolve_entry_path env p (Some cwd) = Some q"
  using assms
proof (induction p r rule: file_system_paths_share_target.induct)
  case (2 left right)
  then show ?case using special_share_target_resolve by simp
next
  case (3 p v)
  then have "abs_normal p" by (simp add: file_system_path_ok_def)
  with 3 special_match_resolve [of v p cwd env q] show ?case by (simp add: resolve_entry_path_def)
next
  case (4 v p)
  then have "p = q" "abs_normal p" by (simp_all add: resolve_entry_path_def file_system_path_ok_def)
  with 4 abs_normal_parent(1) [of p] show ?case
    by (cases v) (auto simp: resolve_entry_path_def absolute_root_path split: if_splits)
qed (auto simp: resolve_entry_path_def)


text \<open>An entry that does not narrow the write access and is no write entry is outranked.\<close>

lemma not_narrowing_outranked:
  assumes "\<not> entry_narrows_write policy e" and "\<not> access_can_write (entry_access e)"
    and "policy_ok policy" and "e \<in> set (fs_entries policy)" and "abs_normal cwd"
    and "resolve_entry_path env (entry_path e) (Some cwd) = Some q" and "path_is_dir env slash_tmp"
    and "r0 \<in> set (fs_entries policy)" and "entry_path r0 = Special RootPath" and "entry_access r0 = AccessWrite"
  shows "\<exists>c\<in>set (fs_entries policy). resolve_entry_path env (entry_path c) (Some cwd) = Some q
    \<and> entry_access e < entry_access c"
proof (cases "has_same_target_write_override policy e")
  case True
  then obtain c where "c \<in> set (fs_entries policy)" "entry_access e < entry_access c"
    "file_system_paths_share_target (entry_path c) (entry_path e)"
    by (auto simp: has_same_target_write_override_def list_ex_iff)
  moreover from this assms(3,4) have "file_system_path_ok (entry_path c)" "file_system_path_ok (entry_path e)"
    by (simp_all add: policy_ok_def list_all_iff)
  ultimately show ?thesis using shared_target_resolves assms(5-7) by blast
next
  case False
  with assms(1,2) have root: "entry_path e = Special RootPath \<and> entry_access e \<noteq> AccessNone
      \<or> resolve_entry_path env (entry_path e) (Some cwd) = None"
    by (auto simp: entry_narrows_write_def resolve_entry_path_def
        split: file_system_path.splits file_system_special_path.splits)
  with assms(2,6) have "entry_access e = AccessRead" by (cases "entry_access e") auto
  with root assms(6,8-10) show ?thesis by (auto simp: access_order intro!: bexI [of _ r0])
qed

lemma full_disk_write_access:
  assumes "has_full_disk_write_access policy" and "policy_ok policy" and "abs_normal cwd" and "abs_normal p"
    and "path_is_dir env slash_tmp"
  shows "can_write_path_with_cwd env policy p cwd"
proof (cases "fs_kind policy = FsRestricted")
  case True
  with assms(1) obtain r0 where r0: "r0 \<in> set (fs_entries policy)" "entry_path r0 = Special RootPath"
    "entry_access r0 = AccessWrite" and quiet: "\<forall>e\<in>set (fs_entries policy). \<not> entry_narrows_write policy e"
    by (auto simp: has_full_disk_write_access_def has_root_access_def has_write_narrowing_entries_def
        list_ex_iff access_can_write_def)
  show ?thesis
  proof (cases rule: resolve_access_cases [OF True abs_normal_candidate [OF assms(4)], case_names uncovered winner,
        of env cwd])
    case uncovered
    with covering_resolved [of env r0 cwd "[RootDir]" policy] r0 root_resolves [OF assms(3), of env] root_covers [OF assms(4)]
    show ?thesis by (auto simp: covers_path_def)
  next
    case (winner w)
    from winner(1) obtain e where e: "e \<in> set (fs_entries policy)" "entry_access e = resolved_access w"
      "resolve_entry_path env (entry_path e) (Some cwd) = Some (resolved_path w)"
      using assms(3) by (auto simp: resolved_entries_iff)
    have "access_can_write (entry_access e)"
    proof (rule ccontr)
      assume no: "\<not> access_can_write (entry_access e)"
      from not_narrowing_outranked [OF _ no assms(2) e(1) assms(3) e(3) assms(5) r0] quiet e(1) obtain c where
        c: "c \<in> set (fs_entries policy)" "resolve_entry_path env (entry_path c) (Some cwd) = Some (resolved_path w)"
        "entry_access e < entry_access c" by blast
      have "\<lparr>resolved_path = resolved_path w, resolved_access = entry_access c\<rparr> \<in> set (resolved_entries_with_cwd env policy cwd)"
        using covering_resolved c assms(3) by simp
      from winner(3) [OF this] winner(2) c(3) e(2) show False
        by (simp add: covers_path_def precedence_le_iff)
    qed
    with winner(4) e(2) show ?thesis by (simp add: can_write_path_with_cwd_def)
  qed
qed (use assms(1) in \<open>cases "fs_kind policy"; simp add: can_write_path_with_cwd_def resolve_access_with_cwd_def\<close>)

lemma in_map_filterI: "\<lbrakk>x \<in> set xs; f x = Some y\<rbrakk> \<Longrightarrow> y \<in> set (List.map_filter f xs)"
  by (force simp: map_filter_def)

lemma carveout_is_read_only:
  assumes "w \<in> set (resolved_entries_with_cwd env policy cwd)" and "\<not> access_can_write (resolved_access w)"
    and "\<not> can_write_path_with_cwd env policy (resolved_path w) cwd"
    and "\<And>raws. carveout_of env root raws (resolved_path w) = Some q"
  shows "q \<in> set (read_only_subpaths (writable_root_of env policy cwd root))"
proof -
  let ?raws = "filter (\<lambda>p. normalize_effective_absolute_path env p = root) (writable_entries env policy cwd)"
  have "q \<in> set (List.map_filter (\<lambda>e. carveout_of env root ?raws (resolved_path e))
           (filter (\<lambda>e. \<not> can_write_path_with_cwd env policy (resolved_path e) cwd)
             (filter (\<lambda>e. \<not> access_can_write (resolved_access e)) (resolved_entries_with_cwd env policy cwd))))"
    by (rule in_map_filterI [where x = w]) (simp_all add: assms)
  then show ?thesis
    by (simp only: writable_root_of_def Let_def dedup_absolute_paths_set writable_root.simps set_append Un_iff if_False simp_thms)
qed

text \<open>A path that some writable root lets through is writable.\<close>

lemma writable_root_within_policy:
  assumes "no_links env" and "env_ok env" and "policy_ok policy" and "abs_normal cwd"
    and "r \<in> set (get_writable_roots_with_cwd env policy cwd)" and "is_path_writable r p" and "abs_normal p"
  shows "can_write_path_with_cwd env policy p cwd"
proof -
  let ?E = "set (resolved_entries_with_cwd env policy cwd)"
  note absE = resolved_entries_abs [OF assms(2,3) conjunct1 [OF abs_normal_root_once [OF assms(4)]]]
  from assms(5) have "fs_kind policy = FsRestricted" "\<not> has_full_disk_write_access policy"
    by (auto simp: get_writable_roots_with_cwd_def has_full_disk_write_access_def
        split: if_splits file_system_sandbox_kind.splits)
  note restricted = this(1)
  have "r \<in> writable_root_of env policy cwd `
      normalize_effective_absolute_path env ` set (writable_entries env policy cwd)"
    using assms(5) by (auto simp: get_writable_roots_with_cwd_def dedup_absolute_paths_set split: if_splits)
  then obtain e where e: "e \<in> ?E" "access_can_write (resolved_access e)"
    "can_write_path_with_cwd env policy (resolved_path e) cwd" and
    r: "r = writable_root_of env policy cwd (normalize_effective_absolute_path env (resolved_path e))"
    by (auto simp: writable_entries_def)
  let ?R = "resolved_path e"
  from r absE [OF e(1)] assms(1) have r: "r = writable_root_of env policy cwd ?R" by simp
  then have root: "wr_root r = ?R" by (simp add: writable_root_of_def Let_def)
  with assms(6) have covered: "covers_path e p" by (simp add: is_path_writable_def covers_path_def)
  show ?thesis
  proof (cases rule: resolve_access_cases [OF restricted abs_normal_candidate [OF assms(7)],
        case_names uncovered winner, of env cwd])
    case uncovered
    with e(1) covered show ?thesis by blast
  next
    case (winner w)
    show ?thesis
    proof (rule ccontr)
      assume "\<not> can_write_path_with_cwd env policy p cwd"
      with winner(4) have no: "\<not> access_can_write (resolved_access w)" by (simp add: can_write_path_with_cwd_def)
      have at_w: "resolve_access_with_cwd env policy (resolved_path w) cwd = resolved_access w"
        by (rule winner_at_its_path [OF restricted absE [OF winner(1)] winner(1,2,3)])
      have differ: "resolved_path w \<noteq> ?R"
      proof
        assume "resolved_path w = ?R"
        with at_w no e(3) show False by (simp add: can_write_path_with_cwd_def)
      qed
      from winner(3) [OF e(1) covered] have "length ?R \<le> length (resolved_path w)"
        unfolding precedence_le_iff by linarith
      then have below: "path_starts_with (resolved_path w) ?R"
        using covered winner(2) path_prefix_comparable unfolding covers_path_def by blast
      with differ have "carveout_of env ?R raws (resolved_path w) = Some (resolved_path w)" for raws
        using absE [OF winner(1)] assms(1) by (simp add: carveout_of_def Let_def)
      moreover have "\<not> can_write_path_with_cwd env policy (resolved_path w) cwd"
        using at_w no by (simp add: can_write_path_with_cwd_def)
      ultimately have "resolved_path w \<in> set (read_only_subpaths r)"
        unfolding r using carveout_is_read_only [OF winner(1) no] by blast
      with assms(6) winner(2) show False
        by (auto simp: is_path_writable_def list_ex_iff covers_path_def)
    qed
  qed
qed

lemma full_disk_read_access:
  assumes "has_full_disk_read_access policy" and "abs_normal cwd" and "abs_normal p"
  shows "can_read_path_with_cwd env policy p cwd"
proof (cases "fs_kind policy = FsRestricted")
  case True
  with assms(1) obtain r0 where r0: "r0 \<in> set (fs_entries policy)" "entry_path r0 = Special RootPath"
    and no_denies: "\<forall>e\<in>set (fs_entries policy). entry_access e \<noteq> AccessNone"
    by (auto simp: has_full_disk_read_access_def has_root_access_def has_denied_read_restrictions_def list_ex_iff)
  show ?thesis
  proof (cases rule: resolve_access_cases [OF True abs_normal_candidate [OF assms(3)], case_names uncovered winner,
        of env cwd])
    case uncovered
    with covering_resolved [of env r0 cwd "[RootDir]" policy] r0 root_resolves [OF assms(2), of env] root_covers [OF assms(3)]
    show ?thesis by (auto simp: covers_path_def)
  next
    case (winner w)
    with no_denies have "resolved_access w \<noteq> AccessNone" unfolding resolved_entries_iff by metis
    with winner(4) show ?thesis by (simp add: can_read_path_with_cwd_def access_can_read_def)
  qed
qed (use assms(1) in \<open>cases "fs_kind policy"; simp add: can_read_path_with_cwd_def resolve_access_with_cwd_def\<close>)

subsection \<open>The deny matcher\<close>

lemma deny_candidates:
  assumes "abs_normal p"
  shows "p \<in> set (normalized_and_canonical_candidates env p)"
  using assms by (simp add: normalized_and_canonical_candidates_def Let_def push_unique_def split: option.split)

lemma deny_entry_is_matched:
  assumes "no_links env" and "env_ok env" and "policy_ok policy" and "abs_normal cwd" and "abs_normal p"
    and "fs_kind policy = FsRestricted" and "w \<in> set (resolved_entries_with_cwd env policy cwd)"
    and "covers_path w p" and "resolved_access w = AccessNone" and "resolved_path w \<noteq> [RootDir]"
    and "\<And>f. \<lbrakk>f \<in> set (resolved_entries_with_cwd env policy cwd); covers_path f p\<rbrakk>
         \<Longrightarrow> resolved_entry_precedence f \<le> resolved_entry_precedence w"
  shows "\<exists>m. new_read_deny_matcher env policy cwd = Some m \<and> is_read_denied env m p"
proof -
  let ?d = "resolved_path w"
  have d: "abs_normal ?d"
    using resolved_entries_abs [OF assms(2,3) _ assms(7)] abs_normal_root_once [OF assms(4)] by blast
  have "resolve_access_with_cwd env policy ?d cwd = AccessNone"
    using winner_at_its_path [OF assms(6) d assms(7,8,11)] assms(9) by simp
  then have "\<not> can_read_path_with_cwd env policy ?d cwd" by (simp add: can_read_path_with_cwd_def)
  then have "?d \<in> set (get_unreadable_roots_with_cwd env policy cwd)"
    using assms(1,4,6,7,9,10) d
    by (force simp: get_unreadable_roots_with_cwd_def Let_def dedup_absolute_paths_set absolute_root_path)
  moreover have "has_denied_read_restrictions policy"
    using assms(6,7,9) unfolding has_denied_read_restrictions_def list_ex_iff resolved_entries_iff by metis
  ultimately show ?thesis
    using deny_candidates [OF d, of env] deny_candidates [OF assms(5), of env] assms(8)
    by (fastforce simp: new_read_deny_matcher_def Let_def is_read_denied_def list_ex_iff covers_path_def)
qed


subsection \<open>To the older policy and back\<close>

definition write_entries :: "file_system_sandbox_entry list \<Rightarrow> file_system_sandbox_entry list" where
  "write_entries = filter (\<lambda>e. access_can_write (entry_access e))"

lemma bridge_entry_not_write: "\<not> access_can_write (entry_access e) \<Longrightarrow> bridge_entry env cwd e b = b"
  by (cases "entry_access e")
    (auto simp: bridge_entry_def split: file_system_path.splits file_system_special_path.splits option.splits)

lemma fold_bridge_writes: "fold (bridge_entry env cwd) es b = fold (bridge_entry env cwd) (write_entries es) b"
  by (induction es arbitrary: b) (auto simp: write_entries_def bridge_entry_not_write)

lemma write_entries_push_deny:
  "\<forall>e\<in>set ds. \<not> access_can_write (entry_access e) \<Longrightarrow> write_entries (push_deny_entries es ds) = write_entries es"
  by (induction es ds rule: push_deny_entries.induct) (simp_all add: write_entries_def)

lemma write_entries_append_read:
  "write_entries (append_default_read_only_entry_if_no_explicit_rule es p) = write_entries es"
  by (simp add: append_default_read_only_entry_if_no_explicit_rule_def write_entries_def)

lemma write_entries_protect: "write_entries (protect_subpaths ps es) = write_entries es"
  by (induction ps arbitrary: es)
    (simp_all add: protect_subpaths_def append_default_read_only_path_if_no_explicit_rule_def write_entries_append_read)

lemma write_entries_protect_roots:
  "write_entries (fold (\<lambda>root. protect_subpaths (f root)) roots es) = write_entries es"
  by (induction roots arbitrary: es) (simp_all add: write_entries_protect)

lemma write_entries_prune: "write_entries (prune_read_entries_under_writable_roots es roots) = write_entries es"
  by (induction es) (auto simp: write_entries_def prune_read_entries_under_writable_roots_def access_can_write_def)

lemma to_legacy_by_writes:
  assumes "fs_kind policy = FsRestricted"
    and "\<forall>e\<in>set (write_entries (fs_entries policy)). entry_path e \<noteq> Special RootPath"
  shows "to_legacy_sandbox_policy env policy n cwd =
    (let b = fold (bridge_entry env (from_absolute env cwd)) (write_entries (fs_entries policy)) no_bridge
     in if workspace_root_writable b then
          Inr (WorkspaceWrite (dedup_absolute_paths env False (bridge_writable_roots b))
            (network_is_enabled n) (\<not> tmpdir_writable b) (\<not> slash_tmp_writable b))
        else if unbridgeable_root_write b \<or> bridge_writable_roots b \<noteq> []
            \<or> tmpdir_writable b \<or> slash_tmp_writable b then Inl outside_workspace_error
        else Inr (ReadOnly (network_is_enabled n)))"
proof -
  have "\<not> has_full_disk_write_access policy"
    using assms by (auto simp: has_full_disk_write_access_def has_root_access_def list_ex_iff write_entries_def)
  with assms(1) show ?thesis
    by (simp add: to_legacy_sandbox_policy_def fold_bridge_writes [of _ _ "fs_entries policy"])
qed

lemma fold_bridge_roots:
  "fold (bridge_entry env cwd) (map (exact_entry AccessWrite) roots) b =
     b\<lparr>workspace_root_writable := workspace_root_writable b \<or> cwd \<in> Some ` set roots,
       bridge_writable_roots := bridge_writable_roots b @ filter (\<lambda>p. cwd \<noteq> Some p) roots\<rparr>"
  by (induction roots arbitrary: b) (auto simp: bridge_entry_def exact_entry_def)

lemma write_entries_of_sandbox_policy:
  "write_entries (fs_entries (policy_of_sandbox_policy p)) =
    (case p of
       WorkspaceWrite roots _ exclude_tmpdir exclude_slash_tmp \<Rightarrow>
         [special_entry AccessWrite CurrentWorkingDirectory]
          @ (if \<not> exclude_slash_tmp then [special_entry AccessWrite SlashTmp] else [])
          @ (if \<not> exclude_tmpdir then [special_entry AccessWrite Tmpdir] else [])
          @ map (exact_entry AccessWrite) roots
     | _ \<Rightarrow> [])"
  by (cases p) (auto simp: write_entries_def restricted_def unrestricted_def external_sandbox_def
      special_entry_def exact_entry_def filter_id_conv)

text \<open>The policies that name no writable root twice, the current directory included.\<close>

definition roots_named_once :: "fs_env \<Rightarrow> path_buf \<Rightarrow> sandbox_policy \<Rightarrow> bool" where
  "roots_named_once env cwd p \<longleftrightarrow>
    (case p of WorkspaceWrite roots _ _ _ \<Rightarrow> distinct roots \<and> from_absolute env cwd \<notin> Some ` set roots | _ \<Rightarrow> True)"

lemma bridge_back:
  assumes "roots_named_once env cwd p" and "fs_kind policy = fs_kind (policy_of_sandbox_policy p)"
    and "write_entries (fs_entries policy) = write_entries (fs_entries (policy_of_sandbox_policy p))"
  shows "to_legacy_sandbox_policy env policy (network_policy_of p) cwd = Inr p"
proof (cases p)
  case DangerFullAccess
  with assms(2) show ?thesis
    by (simp add: to_legacy_sandbox_policy_def unrestricted_def network_policy_of_def network_is_enabled_def)
next
  case (ExternalSandbox a)
  with assms(2) show ?thesis
    by (cases a) (simp_all add: to_legacy_sandbox_policy_def external_sandbox_def network_policy_of_def
        network_is_enabled_def network_access_is_enabled_def)
next
  case (ReadOnly net)
  with assms(2) have "fs_kind policy = FsRestricted" by (simp add: restricted_def)
  moreover have "write_entries (fs_entries policy) = []"
    using assms(3) ReadOnly unfolding write_entries_of_sandbox_policy by simp
  ultimately show ?thesis
    using ReadOnly by (simp add: to_legacy_by_writes no_bridge_def network_policy_of_def network_is_enabled_def)
next
  case (WorkspaceWrite roots net exclude_tmpdir exclude_slash_tmp)
  with assms(1) have roots: "filter (\<lambda>p. from_absolute env cwd \<noteq> Some p) roots = roots" "distinct roots"
    by (auto simp: roots_named_once_def filter_id_conv image_iff)
  from WorkspaceWrite assms(2) have r: "fs_kind policy = FsRestricted" by (simp add: restricted_def)
  have w: "write_entries (fs_entries policy) = [special_entry AccessWrite CurrentWorkingDirectory]
          @ (if \<not> exclude_slash_tmp then [special_entry AccessWrite SlashTmp] else [])
          @ (if \<not> exclude_tmpdir then [special_entry AccessWrite Tmpdir] else [])
          @ map (exact_entry AccessWrite) roots"
    using WorkspaceWrite assms(3) unfolding write_entries_of_sandbox_policy by simp
  have "\<forall>e\<in>set (write_entries (fs_entries policy)). entry_path e \<noteq> Special RootPath"
    by (auto simp: w special_entry_def exact_entry_def)
  from to_legacy_by_writes [OF r this] show ?thesis
    using roots WorkspaceWrite
    by (simp add: w fold_bridge_roots Let_def) (simp add: bridge_entry_def special_entry_def no_bridge_def
        network_policy_of_def network_is_enabled_def)
qed

lemma projections_keep_writes:
  "fs_kind (from_legacy_sandbox_policy env p) = fs_kind (policy_of_sandbox_policy p)"
  "write_entries (fs_entries (from_legacy_sandbox_policy env p)) = write_entries (fs_entries (policy_of_sandbox_policy p))"
  "fs_kind (from_legacy_sandbox_policy_for_cwd env p cwd) = fs_kind (policy_of_sandbox_policy p)"
  "write_entries (fs_entries (from_legacy_sandbox_policy_for_cwd env p cwd)) = write_entries (fs_entries (policy_of_sandbox_policy p))"
  "fs_kind (from_legacy_sandbox_policy_preserving_deny_entries env p cwd existing) = fs_kind (policy_of_sandbox_policy p)"
  "write_entries (fs_entries (from_legacy_sandbox_policy_preserving_deny_entries env p cwd existing))
     = write_entries (fs_entries (policy_of_sandbox_policy p))"
proof -
  show a: "fs_kind (from_legacy_sandbox_policy env p) = fs_kind (policy_of_sandbox_policy p)"
    and b: "fs_kind (from_legacy_sandbox_policy_for_cwd env p cwd) = fs_kind (policy_of_sandbox_policy p)"
    by (simp_all add: from_legacy_sandbox_policy_def from_legacy_sandbox_policy_for_cwd_def Let_def
        split: sandbox_policy.split)
  show "write_entries (fs_entries (from_legacy_sandbox_policy env p)) = write_entries (fs_entries (policy_of_sandbox_policy p))"
    by (simp add: from_legacy_sandbox_policy_def Let_def write_entries_protect_roots write_entries_append_read
        append_default_read_only_project_root_subpath_if_no_explicit_rule_def write_entries_prune split: sandbox_policy.split)
  show c: "write_entries (fs_entries (from_legacy_sandbox_policy_for_cwd env p cwd)) = write_entries (fs_entries (policy_of_sandbox_policy p))"
    by (simp add: from_legacy_sandbox_policy_for_cwd_def Let_def write_entries_protect_roots write_entries_protect
        write_entries_prune split: sandbox_policy.split option.split)
  show "fs_kind (from_legacy_sandbox_policy_preserving_deny_entries env p cwd existing) = fs_kind (policy_of_sandbox_policy p)"
    by (simp add: from_legacy_sandbox_policy_preserving_deny_entries_def Let_def b)
  show "write_entries (fs_entries (from_legacy_sandbox_policy_preserving_deny_entries env p cwd existing))
     = write_entries (fs_entries (policy_of_sandbox_policy p))"
    by (simp add: from_legacy_sandbox_policy_preserving_deny_entries_def Let_def c)
      (simp add: write_entries_push_deny deny_entries_def c)
qed

subsection \<open>Every root is an absolute path\<close>

lemma abs_normal_append: "\<lbrakk>abs_normal p; list_all is_normal cs\<rbrakk> \<Longrightarrow> abs_normal (p @ cs)"
  by (auto simp: abs_normal_def)

lemma abs_normal_suffix:
  "\<lbrakk>abs_normal p; strip_prefix a p = Some s; a \<noteq> []\<rbrakk> \<Longrightarrow> list_all is_normal s \<and> root_once s"
  by (cases a; cases s) (auto simp: abs_normal_def strip_prefix_Some_iff root_once_def dest: is_normal_not_root)

lemma canonical_abs:
  assumes "env_ok env" and "abs_normal p" and "canonicalize_preserving_symlinks env p = Some q"
  shows "abs_normal q"
  using assms by (auto simp: canonicalize_preserving_symlinks_def env_ok_def Let_def split: option.splits if_splits)

lemma effective_ancestor_abs:
  assumes "env_ok env" and "abs_normal raw" and "\<forall>a\<in>set as. abs_normal a"
    and "effective_ancestor env raw as = Some q"
  shows "abs_normal q"
  using assms(3,4)
proof (induction as)
  case (Cons a as)
  show ?case
  proof (cases "symlink_metadata env a = None \<or> canonicalize_preserving_symlinks env a = None \<or> strip_prefix a raw = None")
    case True
    with Cons show ?thesis by (auto split: if_splits option.splits)
  next
    case False
    then obtain n s where n: "canonicalize_preserving_symlinks env a = Some n" and s: "strip_prefix a raw = Some s"
      by auto
    have "abs_normal n" using canonical_abs [OF assms(1) _ n] Cons.prems(1) by simp
    moreover have "root_once s" using abs_normal_suffix [OF assms(2) s] Cons.prems(1) by (auto simp: abs_normal_def)
    ultimately have "root_once (path_join n s)" using path_join_abs by blast
    with False n s Cons from_absolute_abs [OF assms(1)] show ?thesis by (auto split: option.splits)
  qed
qed simp

lemma effective_abs:
  assumes "env_ok env" and "abs_normal p"
  shows "abs_normal (normalize_effective_absolute_path env p)"
  using effective_ancestor_abs [OF assms, of "ancestors p"] ancestors_abs_normal [OF assms(2)] assms(2)
  by (auto simp: normalize_effective_absolute_path_def split: option.split)

lemma abs_join_abs: "\<lbrakk>env_ok env; abs_normal base\<rbrakk> \<Longrightarrow> abs_normal (abs_join env base s)"
  unfolding abs_join_def resolve_path_against_base_def env_ok_def
  by (intro absolutize_from_abs expand_home_root_once) auto

lemma gitdir_abs:
  assumes "env_ok env" and "abs_normal dot_git" and "resolve_gitdir_from_file env dot_git = Some q"
  shows "abs_normal q"
proof -
  from assms(3) obtain raw base where q: "q = resolve_path_against_base (env_home env) raw base"
    and base: "path_parent dot_git = Some base"
    by (auto simp: resolve_gitdir_from_file_def Let_def split: option.splits prod.splits if_splits)
  from base abs_normal_parent [OF assms(2)] have "abs_normal base" by (auto split: if_splits)
  with abs_join_abs [OF assms(1), of base raw] q show ?thesis by (simp add: abs_join_def)
qed

lemma in_optional_list: "q \<in> set (if b then xs else []) \<longleftrightarrow> b \<and> q \<in> set xs"
  by simp

lemma in_option_list: "q \<in> set (case x of Some y \<Rightarrow> [y] | None \<Rightarrow> []) \<longleftrightarrow> x = Some q"
  by (auto split: option.split)

lemma default_read_only_abs:
  assumes "env_ok env" and "abs_normal root" and "q \<in> set (default_read_only_subpaths_for_writable_root env root b)"
  shows "abs_normal q"
proof -
  have "(\<exists>s. q = abs_join env root s) \<or> resolve_gitdir_from_file env (abs_join env root (lit ''.git'')) = Some q"
    using assms(3) unfolding default_read_only_subpaths_for_writable_root_def Let_def dedup_absolute_paths_set
      if_False set_append Un_iff in_optional_list in_option_list by (auto simp del: ex_simps)
  with abs_join_abs [OF assms(1,2)] gitdir_abs [OF assms(1) abs_join_abs [OF assms(1,2)]] show ?thesis by blast
qed

lemma carveout_abs:
  assumes "env_ok env" and "abs_normal root" and "abs_normal p" and "\<forall>r\<in>set raws. abs_normal r"
    and "carveout_of env root raws p = Some q"
  shows "abs_normal q"
proof -
  have raw: "abs_normal q" if "raw_carveout_below env root p raws = Some q" for q
    using that assms(4)
  proof (induction raws)
    case (Cons r raws)
    show ?case
    proof (cases "strip_prefix r p")
      case (Some s)
      moreover have "root_once s" using abs_normal_suffix [OF assms(3) Some] Cons.prems(2) by (auto simp: abs_normal_def)
      ultimately show ?thesis using Cons resolve_against_abs [OF assms(1) _ assms(2)] by (auto split: if_splits)
    qed (use Cons in auto)
  qed simp
  show ?thesis
    using assms(3,5) raw effective_abs [OF assms(1,3)]
    by (auto simp: carveout_of_def Let_def split: if_splits option.splits)
qed

lemma in_map_filterE:
  assumes "y \<in> set (List.map_filter f xs)"
  obtains x where "x \<in> set xs" and "f x = Some y"
  using assms by (auto simp: map_filter_def)

lemma writable_root_paths_abs:
  assumes "env_ok env" and "policy_ok policy" and "root_once cwd"
    and "r \<in> set (get_writable_roots_with_cwd env policy cwd)"
  shows "abs_normal (wr_root r) \<and> (\<forall>q\<in>set (read_only_subpaths r). abs_normal q)"
proof -
  note absE = resolved_entries_abs [OF assms(1-3)]
  have entries: "\<forall>p\<in>set (writable_entries env policy cwd). abs_normal p"
    using absE by (auto simp: writable_entries_def)
  from assms(4) obtain root where r: "r = writable_root_of env policy cwd root" and
    "root \<in> normalize_effective_absolute_path env ` set (writable_entries env policy cwd)"
    by (auto simp: get_writable_roots_with_cwd_def dedup_absolute_paths_set split: if_splits)
  then have root: "abs_normal root" using entries effective_abs [OF assms(1)] by auto
  have "abs_normal q" if "q \<in> set (read_only_subpaths r)" for q
    using that unfolding r writable_root_of_def Let_def writable_root.simps dedup_absolute_paths_set if_False set_append Un_iff
  proof
    assume "q \<in> set (List.map_filter
        (\<lambda>e. carveout_of env root (filter (\<lambda>p. normalize_effective_absolute_path env p = root)
           (writable_entries env policy cwd)) (resolved_path e))
        (filter (\<lambda>e. \<not> can_write_path_with_cwd env policy (resolved_path e) cwd)
          (filter (\<lambda>e. \<not> access_can_write (resolved_access e)) (resolved_entries_with_cwd env policy cwd))))"
    then obtain e where e: "e \<in> set (resolved_entries_with_cwd env policy cwd)" and
      c: "carveout_of env root (filter (\<lambda>p. normalize_effective_absolute_path env p = root)
           (writable_entries env policy cwd)) (resolved_path e) = Some q"
      by (rule in_map_filterE) auto
    show ?thesis by (rule carveout_abs [OF assms(1) root absE [OF e] _ c]) (use entries in simp)
  next
    assume "q \<in> set (filter (\<lambda>p. \<not> has_explicit_resolved_path_entry (resolved_entries_with_cwd env policy cwd) p)
       (default_read_only_subpaths_for_writable_root env root
         (case from_absolute env cwd of None \<Rightarrow> False | Some cwd \<Rightarrow> normalize_effective_absolute_path env cwd = root)))"
    then show ?thesis using default_read_only_abs [OF assms(1) root] unfolding set_filter by blast
  qed
  moreover have "wr_root r = root" by (simp add: r writable_root_of_def Let_def)
  ultimately show ?thesis using root by simp
qed

lemma other_roots_abs:
  assumes "env_ok env" and "policy_ok policy" and "root_once cwd"
    and "q \<in> set (get_readable_roots_with_cwd env policy cwd) \<union> set (get_unreadable_roots_with_cwd env policy cwd)"
  shows "abs_normal q"
  using assms(4) effective_abs [OF assms(1) resolved_entries_abs [OF assms(1-3)]]
  by (auto simp: get_readable_roots_with_cwd_def get_unreadable_roots_with_cwd_def dedup_absolute_paths_set Let_def
      split: if_splits)

subsection \<open>Deny entries survive\<close>

lemma push_deny_entries_set: "set (push_deny_entries es ds) = set es \<union> set ds"
  by (induction es ds rule: push_deny_entries.induct) auto

lemma deny_entries_survive:
  assumes "fs_kind policy \<noteq> FsExternalSandbox" and "e \<in> set (deny_entries existing)"
  shows "e \<in> set (fs_entries (preserve_deny_read_restrictions_from policy existing))
    \<and> fs_kind (preserve_deny_read_restrictions_from policy existing) = FsRestricted"
proof -
  have "list_ex (\<lambda>e. entry_access e = AccessNone) (fs_entries existing)"
    using assms(2) by (auto simp: deny_entries_def list_ex_iff)
  with assms show ?thesis
    by (cases "fs_kind policy")
      (simp_all add: preserve_deny_read_restrictions_from_def Let_def restricted_def push_deny_entries_set)
qed

end
