(* ===== verification/Permission_Profiles.thy ===== *)
theory Permission_Profiles
  imports Legacy_Policy
begin

section \<open>Permission profiles (protocol: models.rs)\<close>

text \<open>
  The requested or granted extra permissions (\<open>AdditionalPermissionProfile\<close>) and the active
  permissions (\<open>PermissionProfile\<close>) with their conversions. A \<open>NonZeroUsize\<close> is a natural
  number that \<open>non_zero\<close> has let pass. The JSON form of \<open>FileSystemPermissions\<close> is the value
  handed to serde: the legacy one with its two lists, or the canonical one.
\<close>

definition non_zero :: "nat \<Rightarrow> nat option" where
  "non_zero n = (if n = 0 then None else Some n)"

subsection \<open>File system permissions\<close>

record file_system_permissions =
  perm_entries :: "file_system_sandbox_entry list"
  perm_glob_depth :: "nat option"

definition fs_permissions_is_empty :: "file_system_permissions \<Rightarrow> bool" where
  "fs_permissions_is_empty p \<longleftrightarrow> perm_entries p = []"

definition from_read_write_roots :: "path_buf list option \<Rightarrow> path_buf list option \<Rightarrow> file_system_permissions" where
  "from_read_write_roots read_roots write_roots =
    \<lparr>perm_entries = (case read_roots of Some ps \<Rightarrow> map (exact_entry AccessRead) ps | None \<Rightarrow> [])
       @ (case write_roots of Some ps \<Rightarrow> map (exact_entry AccessWrite) ps | None \<Rightarrow> []),
     perm_glob_depth = None\<rparr>"

definition explicit_path_entries :: "file_system_permissions \<Rightarrow> (path_buf \<times> file_system_access_mode) list" where
  "explicit_path_entries p = List.map_filter
    (\<lambda>e. case entry_path e of ExactPath q \<Rightarrow> Some (q, entry_access e) | GlobPattern _ \<Rightarrow> None | Special _ \<Rightarrow> None)
    (perm_entries p)"

record legacy_file_system_permissions =
  legacy_read :: "path_buf list option"
  legacy_write :: "path_buf list option"

fun split_legacy_entries ::
    "file_system_sandbox_entry list \<Rightarrow> path_buf list \<Rightarrow> path_buf list \<Rightarrow> (path_buf list \<times> path_buf list) option" where
  "split_legacy_entries [] reads writes = Some (reads, writes)"
| "split_legacy_entries (e # es) reads writes =
    (case entry_path e of
       ExactPath p \<Rightarrow>
        (case entry_access e of
           AccessRead \<Rightarrow> split_legacy_entries es (reads @ [p]) writes
         | AccessWrite \<Rightarrow> split_legacy_entries es reads (writes @ [p])
         | AccessNone \<Rightarrow> None)
     | GlobPattern _ \<Rightarrow> None
     | Special _ \<Rightarrow> None)"

definition as_legacy_permissions :: "file_system_permissions \<Rightarrow> legacy_file_system_permissions option" where
  "as_legacy_permissions p =
    (if perm_glob_depth p \<noteq> None then None
     else map_option (\<lambda>(reads, writes).
            \<lparr>legacy_read = (if reads = [] then None else Some reads),
             legacy_write = (if writes = [] then None else Some writes)\<rparr>)
       (split_legacy_entries (perm_entries p) [] []))"

definition legacy_read_write_roots :: "file_system_permissions \<Rightarrow> (path_buf list option \<times> path_buf list option) option" where
  "legacy_read_write_roots p = map_option (\<lambda>l. (legacy_read l, legacy_write l)) (as_legacy_permissions p)"

datatype file_system_permissions_json =
    CanonicalJson "file_system_sandbox_entry list" "nat option"
  | LegacyJson legacy_file_system_permissions

definition serialize_fs_permissions :: "file_system_permissions \<Rightarrow> file_system_permissions_json" where
  "serialize_fs_permissions p =
    (case as_legacy_permissions p of
       Some legacy \<Rightarrow> LegacyJson legacy
     | None \<Rightarrow> CanonicalJson (perm_entries p) (perm_glob_depth p))"

fun deserialize_fs_permissions :: "file_system_permissions_json \<Rightarrow> file_system_permissions" where
  "deserialize_fs_permissions (CanonicalJson entries depth) = \<lparr>perm_entries = entries, perm_glob_depth = depth\<rparr>"
| "deserialize_fs_permissions (LegacyJson l) = from_read_write_roots (legacy_read l) (legacy_write l)"

subsection \<open>Additional permissions\<close>

record network_permissions =
  net_enabled :: "bool option"

definition network_permissions_is_empty :: "network_permissions \<Rightarrow> bool" where
  "network_permissions_is_empty n \<longleftrightarrow> net_enabled n = None"

record additional_permission_profile =
  ap_network :: "network_permissions option"
  ap_file_system :: "file_system_permissions option"

definition profile_is_empty :: "additional_permission_profile \<Rightarrow> bool" where
  "profile_is_empty p \<longleftrightarrow> ap_network p = None \<and> ap_file_system p = None"

subsection \<open>Active permissions\<close>

datatype sandbox_enforcement = EnforceManaged | EnforceDisabled | EnforceExternal

fun enforcement_of_sandbox_policy :: "sandbox_policy \<Rightarrow> sandbox_enforcement" where
  "enforcement_of_sandbox_policy DangerFullAccess = EnforceDisabled"
| "enforcement_of_sandbox_policy (ExternalSandbox _) = EnforceExternal"
| "enforcement_of_sandbox_policy (ReadOnly _) = EnforceManaged"
| "enforcement_of_sandbox_policy (WorkspaceWrite _ _ _ _) = EnforceManaged"

datatype managed_file_system_permissions =
    ManagedRestricted "file_system_sandbox_entry list" "nat option"
  | ManagedUnrestricted

text \<open>The branch for external policies is \<open>unreachable!\<close>; None is its panic.\<close>

definition managed_of_sandbox_policy :: "file_system_sandbox_policy \<Rightarrow> managed_file_system_permissions option" where
  "managed_of_sandbox_policy p =
    (case fs_kind p of
       FsRestricted \<Rightarrow> Some (ManagedRestricted (fs_entries p) (Option.bind (glob_scan_max_depth p) non_zero))
     | FsUnrestricted \<Rightarrow> Some ManagedUnrestricted
     | FsExternalSandbox \<Rightarrow> None)"

fun managed_to_sandbox_policy :: "managed_file_system_permissions \<Rightarrow> file_system_sandbox_policy" where
  "managed_to_sandbox_policy (ManagedRestricted entries depth) =
    \<lparr>fs_kind = FsRestricted, glob_scan_max_depth = depth, fs_entries = entries\<rparr>"
| "managed_to_sandbox_policy ManagedUnrestricted = unrestricted"

datatype permission_profile =
    ProfileManaged managed_file_system_permissions network_sandbox_policy
  | ProfileDisabled
  | ProfileExternal network_sandbox_policy

definition default_profile :: permission_profile where
  "default_profile = ProfileManaged (ManagedRestricted [] None) NetworkRestricted"

definition from_runtime_permissions_with_enforcement ::
    "sandbox_enforcement \<Rightarrow> file_system_sandbox_policy \<Rightarrow> network_sandbox_policy \<Rightarrow> permission_profile option" where
  "from_runtime_permissions_with_enforcement enforcement policy network =
    (case fs_kind policy of
       FsExternalSandbox \<Rightarrow> Some (ProfileExternal network)
     | _ \<Rightarrow>
         if fs_kind policy = FsUnrestricted \<and> enforcement = EnforceDisabled \<and> network_is_enabled network
         then Some ProfileDisabled
         else map_option (\<lambda>m. ProfileManaged m network) (managed_of_sandbox_policy policy))"

definition from_runtime_permissions ::
    "file_system_sandbox_policy \<Rightarrow> network_sandbox_policy \<Rightarrow> permission_profile option" where
  "from_runtime_permissions policy network =
    from_runtime_permissions_with_enforcement
      (case fs_kind policy of FsExternalSandbox \<Rightarrow> EnforceExternal | _ \<Rightarrow> EnforceManaged) policy network"

definition profile_of_sandbox_policy :: "fs_env \<Rightarrow> sandbox_policy \<Rightarrow> permission_profile option" where
  "profile_of_sandbox_policy env sandbox_policy =
    from_runtime_permissions_with_enforcement (enforcement_of_sandbox_policy sandbox_policy)
      (from_legacy_sandbox_policy env sandbox_policy) (network_policy_of sandbox_policy)"

fun profile_enforcement :: "permission_profile \<Rightarrow> sandbox_enforcement" where
  "profile_enforcement (ProfileManaged _ _) = EnforceManaged"
| "profile_enforcement ProfileDisabled = EnforceDisabled"
| "profile_enforcement (ProfileExternal _) = EnforceExternal"

fun profile_file_system_policy :: "permission_profile \<Rightarrow> file_system_sandbox_policy" where
  "profile_file_system_policy (ProfileManaged file_system _) = managed_to_sandbox_policy file_system"
| "profile_file_system_policy ProfileDisabled = unrestricted"
| "profile_file_system_policy (ProfileExternal _) = external_sandbox"

fun profile_network_policy :: "permission_profile \<Rightarrow> network_sandbox_policy" where
  "profile_network_policy (ProfileManaged _ network) = network"
| "profile_network_policy (ProfileExternal network) = network"
| "profile_network_policy ProfileDisabled = NetworkEnabled"

fun profile_to_legacy_sandbox_policy ::
    "fs_env \<Rightarrow> permission_profile \<Rightarrow> path_buf \<Rightarrow> legacy_error + sandbox_policy" where
  "profile_to_legacy_sandbox_policy env (ProfileManaged file_system network) cwd =
    to_legacy_sandbox_policy env (managed_to_sandbox_policy file_system) network cwd"
| "profile_to_legacy_sandbox_policy env ProfileDisabled cwd = Inr DangerFullAccess"
| "profile_to_legacy_sandbox_policy env (ProfileExternal network) cwd =
    Inr (ExternalSandbox (if network_is_enabled network then NetEnabled else NetRestricted))"

definition to_runtime_permissions :: "permission_profile \<Rightarrow> file_system_sandbox_policy \<times> network_sandbox_policy" where
  "to_runtime_permissions p = (profile_file_system_policy p, profile_network_policy p)"

definition permissions_of_policy :: "file_system_sandbox_policy \<Rightarrow> file_system_permissions" where
  "permissions_of_policy p =
    \<lparr>perm_entries = (case fs_kind p of
         FsRestricted \<Rightarrow> fs_entries p
       | FsUnrestricted \<Rightarrow> [special_entry AccessWrite RootPath]
       | FsExternalSandbox \<Rightarrow> [special_entry AccessWrite RootPath]),
     perm_glob_depth = Option.bind (glob_scan_max_depth p) non_zero\<rparr>"

definition policy_of_permissions :: "file_system_permissions \<Rightarrow> file_system_sandbox_policy" where
  "policy_of_permissions p = (restricted (perm_entries p))\<lparr>glob_scan_max_depth := perm_glob_depth p\<rparr>"

definition network_permissions_of_policy :: "network_sandbox_policy \<Rightarrow> network_permissions" where
  "network_permissions_of_policy n = \<lparr>net_enabled = Some (network_is_enabled n)\<rparr>"

text \<open>\<open>LegacyPermissionProfile\<close> has the fields of an additional profile.\<close>

definition profile_of_legacy_profile :: "additional_permission_profile \<Rightarrow> permission_profile option" where
  "profile_of_legacy_profile v =
    from_runtime_permissions
      (case ap_file_system v of None \<Rightarrow> restricted [] | Some fs \<Rightarrow> policy_of_permissions fs)
      (if Option.bind (ap_network v) net_enabled = Some True then NetworkEnabled else NetworkRestricted)"

end
