(* ===== verification/Policy_Transforms.thy ===== *)
theory Policy_Transforms
  imports Permission_Profiles
begin

section \<open>Combining permissions (sandboxing: policy\_transforms.rs)\<close>

text \<open>
  Normalising, merging and intersecting permission profiles, the policies a command runs under
  once its extra permissions are added, and whether it needs the platform sandbox. A vector that
  is pushed to when it does not contain the value is \<open>push_unique\<close>.
\<close>

subsection \<open>Normalising\<close>

definition canonical_entry_path :: "fs_env \<Rightarrow> file_system_path \<Rightarrow> file_system_path" where
  "canonical_entry_path env p =
    (case p of
       ExactPath q \<Rightarrow>
        ExactPath (case Option.bind (canonicalize_preserving_symlinks env q) (from_absolute env) of
                     Some r \<Rightarrow> r | None \<Rightarrow> q)
     | GlobPattern pattern \<Rightarrow> GlobPattern pattern
     | Special v \<Rightarrow> Special v)"

definition glob_grant_error :: ustr where
  "glob_grant_error = lit ''glob file system permissions only support deny-read entries''"

fun normalize_entries ::
    "fs_env \<Rightarrow> file_system_sandbox_entry list \<Rightarrow> file_system_sandbox_entry list \<Rightarrow> ustr + file_system_sandbox_entry list" where
  "normalize_entries env acc [] = Inr acc"
| "normalize_entries env acc (e # es) =
    (if (case entry_path e of GlobPattern _ \<Rightarrow> True | _ \<Rightarrow> False) \<and> entry_access e \<noteq> AccessNone
     then Inl glob_grant_error
     else normalize_entries env
       (push_unique acc \<lparr>entry_path = canonical_entry_path env (entry_path e), entry_access = entry_access e\<rparr>) es)"

definition filter_option :: "('a \<Rightarrow> bool) \<Rightarrow> 'a option \<Rightarrow> 'a option" where
  "filter_option keep x = (case x of None \<Rightarrow> None | Some a \<Rightarrow> if keep a then Some a else None)"

definition normalize_additional_permissions ::
    "fs_env \<Rightarrow> additional_permission_profile \<Rightarrow> ustr + additional_permission_profile" where
  "normalize_additional_permissions env additional =
    (let network = filter_option (\<lambda>n. \<not> network_permissions_is_empty n) (ap_network additional) in
     case ap_file_system additional of
       None \<Rightarrow> Inr \<lparr>ap_network = network, ap_file_system = None\<rparr>
     | Some file_system \<Rightarrow>
        (case normalize_entries env [] (perm_entries file_system) of
           Inl e \<Rightarrow> Inl e
         | Inr entries \<Rightarrow>
            (let file_system' = \<lparr>perm_entries = entries, perm_glob_depth = perm_glob_depth file_system\<rparr>
             in Inr \<lparr>ap_network = network,
                     ap_file_system = (if fs_permissions_is_empty file_system' then None else Some file_system')\<rparr>)))"

subsection \<open>Merging\<close>

datatype glob_scan_depth = Bounded nat | Unbounded

definition effective_glob_scan_depth ::
    "file_system_sandbox_entry list \<Rightarrow> nat option \<Rightarrow> glob_scan_depth option" where
  "effective_glob_scan_depth entries depth =
    (if list_ex (\<lambda>e. entry_access e = AccessNone \<and> (case entry_path e of GlobPattern _ \<Rightarrow> True | _ \<Rightarrow> False)) entries
     then Some (case depth of Some depth \<Rightarrow> Bounded depth | None \<Rightarrow> Unbounded) else None)"

definition merge_glob_scan_max_depth ::
    "file_system_sandbox_entry list \<Rightarrow> nat option \<Rightarrow> file_system_sandbox_entry list \<Rightarrow> nat option \<Rightarrow> nat option" where
  "merge_glob_scan_max_depth left_entries left_depth right_entries right_depth =
    (case (effective_glob_scan_depth left_entries left_depth, effective_glob_scan_depth right_entries right_depth) of
       (Some Unbounded, _) \<Rightarrow> None
     | (_, Some Unbounded) \<Rightarrow> None
     | (Some (Bounded left), Some (Bounded right)) \<Rightarrow> Some (max left right)
     | (Some (Bounded depth), None) \<Rightarrow> Some depth
     | (None, Some (Bounded depth)) \<Rightarrow> Some depth
     | (None, None) \<Rightarrow> None)"

definition merge_permission_entries ::
    "file_system_sandbox_entry list \<Rightarrow> file_system_sandbox_entry list \<Rightarrow> file_system_sandbox_entry list" where
  "merge_permission_entries base permissions = fold (\<lambda>e merged. push_unique merged e) (base @ permissions) []"

definition asks_for_network :: "network_permissions option \<Rightarrow> bool" where
  "asks_for_network n \<longleftrightarrow> Option.bind n net_enabled = Some True"

definition merge_permission_profiles ::
    "additional_permission_profile option \<Rightarrow> additional_permission_profile option
      \<Rightarrow> additional_permission_profile option" where
  "merge_permission_profiles base permissions =
    (case permissions of
       None \<Rightarrow> base
     | Some permissions \<Rightarrow>
        (case base of
           Some base \<Rightarrow>
            (let network = (if asks_for_network (ap_network base) \<or> asks_for_network (ap_network permissions)
                            then Some \<lparr>net_enabled = Some True\<rparr> else None);
                 file_system =
                   (case (ap_file_system base, ap_file_system permissions) of
                      (Some base, Some permissions) \<Rightarrow>
                        filter_option (\<lambda>f. \<not> fs_permissions_is_empty f) (Some
                          \<lparr>perm_entries = merge_permission_entries (perm_entries base) (perm_entries permissions),
                           perm_glob_depth = Option.bind
                             (merge_glob_scan_max_depth (perm_entries base) (perm_glob_depth base)
                               (perm_entries permissions) (perm_glob_depth permissions)) non_zero\<rparr>)
                    | (Some base, None) \<Rightarrow> Some base
                    | (None, Some permissions) \<Rightarrow> Some permissions
                    | (None, None) \<Rightarrow> None)
             in filter_option (\<lambda>p. \<not> profile_is_empty p) (Some \<lparr>ap_network = network, ap_file_system = file_system\<rparr>))
         | None \<Rightarrow> filter_option (\<lambda>p. \<not> profile_is_empty p) (Some permissions)))"

subsection \<open>Intersecting a grant with a request\<close>

fun access_covers :: "file_system_access_mode \<Rightarrow> file_system_access_mode \<Rightarrow> bool" where
  "access_covers requested AccessRead = access_can_read requested"
| "access_covers requested AccessWrite = access_can_write requested"
| "access_covers requested AccessNone = False"

definition paths_overlap :: "path_buf \<Rightarrow> path_buf \<Rightarrow> bool" where
  "paths_overlap left right \<longleftrightarrow> path_starts_with left right \<or> path_starts_with right left"

fun resolve_permission_path :: "fs_env \<Rightarrow> file_system_path \<Rightarrow> path_buf \<Rightarrow> path_buf option" where
  "resolve_permission_path env (ExactPath p) cwd = Some p"
| "resolve_permission_path env (GlobPattern _) cwd = None"
| "resolve_permission_path env (Special v) cwd =
    (case v of
       RootPath \<Rightarrow> from_absolute env (last (ancestors cwd))
     | CurrentWorkingDirectory \<Rightarrow> from_absolute env cwd
     | ProjectRoots subpath \<Rightarrow>
        (case from_absolute env cwd of
           None \<Rightarrow> None
         | Some cwd \<Rightarrow>
            Some (case subpath of Some subpath \<Rightarrow> resolve_against env subpath cwd | None \<Rightarrow> cwd))
     | Tmpdir \<Rightarrow>
        (case env_tmpdir env of
           None \<Rightarrow> None
         | Some tmpdir \<Rightarrow> if tmpdir = [] then None else from_absolute env (path_of tmpdir))
     | SlashTmp \<Rightarrow> if path_is_dir env slash_tmp then Some slash_tmp else None
     | Minimal \<Rightarrow> None
     | UnknownPath _ _ \<Rightarrow> None)"

definition materialize_cwd_dependent_entry ::
    "fs_env \<Rightarrow> file_system_sandbox_entry \<Rightarrow> path_buf \<Rightarrow> file_system_sandbox_entry" where
  "materialize_cwd_dependent_entry env entry cwd =
    (let cwd_dependent =
           (case resolve_permission_path env (entry_path entry) cwd of
              Some p \<Rightarrow> \<lparr>entry_path = ExactPath p, entry_access = entry_access entry\<rparr>
            | None \<Rightarrow> entry)
     in case entry_path entry of
          Special CurrentWorkingDirectory \<Rightarrow> cwd_dependent
        | Special (ProjectRoots _) \<Rightarrow> cwd_dependent
        | GlobPattern pattern \<Rightarrow>
            \<lparr>entry_path = GlobPattern (path_display (resolve_path_against_base (env_home env) pattern cwd)),
             entry_access = entry_access entry\<rparr>
        | _ \<Rightarrow> entry)"

text \<open>
  The part of a pattern in front of its first glob character, up to the last separator; the text
  starts with a slash, so the first match is never at the start.
\<close>

definition glob_static_prefix_path :: "fs_env \<Rightarrow> ustr \<Rightarrow> path_buf \<Rightarrow> path_buf option" where
  "glob_static_prefix_path env pattern cwd =
    (let resolved_pattern = path_display (resolve_path_against_base (env_home env) pattern cwd);
         is_glob = (\<lambda>c. c \<in> {c_star, 63, 91, 93});
         prefix = takeWhile (\<lambda>c. \<not> is_glob c) resolved_pattern
     in if \<not> list_ex is_glob resolved_pattern then from_absolute env (path_of resolved_pattern)
        else if prefix = [] then None
        else if last prefix = c_slash \<or> last prefix = 92 then from_absolute env (path_of prefix)
        else Option.bind (path_parent (path_of prefix)) (from_absolute env))"

definition deny_entry_constrains_accepted_grant ::
    "fs_env \<Rightarrow> file_system_sandbox_entry \<Rightarrow> file_system_sandbox_entry list \<Rightarrow> path_buf \<Rightarrow> bool" where
  "deny_entry_constrains_accepted_grant env deny_entry accepted_entries cwd \<longleftrightarrow>
    list_ex (\<lambda>entry.
      (case resolve_permission_path env (entry_path entry) cwd of
         None \<Rightarrow> False
       | Some grant_path \<Rightarrow>
          (case entry_path deny_entry of
             GlobPattern pattern \<Rightarrow>
              (case glob_static_prefix_path env pattern cwd of
                 None \<Rightarrow> False | Some prefix \<Rightarrow> paths_overlap prefix grant_path)
           | _ \<Rightarrow>
              (case resolve_permission_path env (entry_path deny_entry) cwd of
                 None \<Rightarrow> False | Some deny_path \<Rightarrow> paths_overlap deny_path grant_path))))
      (filter (\<lambda>e. access_can_read (entry_access e)) accepted_entries)"

text \<open>The retained entries and the entries pushed to the output.\<close>

definition constraining_deny_entries ::
    "fs_env \<Rightarrow> file_system_sandbox_entry list \<Rightarrow> file_system_sandbox_entry list \<Rightarrow> path_buf
      \<Rightarrow> file_system_sandbox_entry list" where
  "constraining_deny_entries env source_entries accepted_entries cwd =
    map (\<lambda>e. materialize_cwd_dependent_entry env e cwd)
      (filter (\<lambda>e. deny_entry_constrains_accepted_grant env e accepted_entries cwd)
        (filter (\<lambda>e. entry_access e = AccessNone) source_entries))"

definition retain_constraining_deny_entries ::
    "fs_env \<Rightarrow> file_system_sandbox_entry list \<Rightarrow> file_system_sandbox_entry list \<Rightarrow> path_buf
      \<Rightarrow> file_system_sandbox_entry list \<Rightarrow> file_system_sandbox_entry list \<times> file_system_sandbox_entry list" where
  "retain_constraining_deny_entries env source_entries accepted_entries cwd output_entries =
    (let retained = constraining_deny_entries env source_entries accepted_entries cwd
     in (retained, fold (\<lambda>e out. push_unique out e) retained output_entries))"

definition granted_file_system_entry_within_request ::
    "fs_env \<Rightarrow> file_system_permissions \<Rightarrow> file_system_sandbox_policy \<Rightarrow> read_deny_matcher option
      \<Rightarrow> file_system_sandbox_entry \<Rightarrow> path_buf \<Rightarrow> bool" where
  "granted_file_system_entry_within_request env requested requested_policy matcher granted_entry cwd \<longleftrightarrow>
    (if \<not> access_can_read (entry_access granted_entry) then False
     else case resolve_permission_path env (entry_path granted_entry) cwd of
       Some p \<Rightarrow>
         if (case matcher of None \<Rightarrow> False | Some m \<Rightarrow> is_read_denied env m p) then False
         else access_covers (resolve_access_with_cwd env requested_policy p cwd) (entry_access granted_entry)
     | None \<Rightarrow>
         list_ex (\<lambda>requested_entry. access_covers (entry_access requested_entry) (entry_access granted_entry)
             \<and> entry_path requested_entry = entry_path granted_entry) (perm_entries requested))"

definition accept_granted_entries ::
    "fs_env \<Rightarrow> file_system_permissions \<Rightarrow> file_system_permissions \<Rightarrow> path_buf \<Rightarrow> file_system_sandbox_entry list" where
  "accept_granted_entries env requested granted cwd =
    (let requested_policy = restricted (perm_entries requested);
         matcher = new_read_deny_matcher env requested_policy cwd
     in fold (\<lambda>e accepted. push_unique accepted (materialize_cwd_dependent_entry env e cwd))
          (filter (\<lambda>e. granted_file_system_entry_within_request env requested requested_policy matcher e cwd)
            (perm_entries granted)) [])"

definition intersect_file_system ::
    "fs_env \<Rightarrow> file_system_permissions \<Rightarrow> file_system_permissions \<Rightarrow> path_buf \<Rightarrow> file_system_permissions" where
  "intersect_file_system env requested granted cwd =
    (let accepted = accept_granted_entries env requested granted cwd;
         (requested_retained, entries) =
           retain_constraining_deny_entries env (perm_entries requested) accepted cwd accepted;
         (granted_retained, entries) =
           retain_constraining_deny_entries env (perm_entries granted) accepted cwd entries
     in \<lparr>perm_entries = entries,
         perm_glob_depth = Option.bind
           (merge_glob_scan_max_depth requested_retained (perm_glob_depth requested)
             granted_retained (perm_glob_depth granted)) non_zero\<rparr>)"

definition no_fs_permissions :: file_system_permissions where
  "no_fs_permissions = \<lparr>perm_entries = [], perm_glob_depth = None\<rparr>"

definition intersect_permission_profiles ::
    "fs_env \<Rightarrow> additional_permission_profile \<Rightarrow> additional_permission_profile \<Rightarrow> path_buf
      \<Rightarrow> additional_permission_profile" where
  "intersect_permission_profiles env requested granted cwd =
    \<lparr>ap_network =
       (if asks_for_network (ap_network requested) \<and> asks_for_network (ap_network granted)
        then Some \<lparr>net_enabled = Some True\<rparr> else None),
     ap_file_system = filter_option (\<lambda>f. \<not> fs_permissions_is_empty f)
       (map_option (\<lambda>requested_file_system.
          intersect_file_system env requested_file_system
            (case ap_file_system granted of Some g \<Rightarrow> g | None \<Rightarrow> no_fs_permissions) cwd)
         (ap_file_system requested))\<rparr>"

subsection \<open>Effective policies\<close>

definition transforms_dedup_absolute_paths :: "path_buf list \<Rightarrow> path_buf list" where
  "transforms_dedup_absolute_paths paths = dedup_seen [] paths"

definition additional_permission_roots :: "additional_permission_profile \<Rightarrow> path_buf list \<times> path_buf list" where
  "additional_permission_roots additional =
    (let explicit = (case ap_file_system additional of Some f \<Rightarrow> explicit_path_entries f | None \<Rightarrow> [])
     in (transforms_dedup_absolute_paths (map fst (filter (\<lambda>(_, a). access_can_read a) explicit)),
         transforms_dedup_absolute_paths (map fst (filter (\<lambda>(_, a). access_can_write a) explicit))))"

definition merge_file_system_policy_with_additional_permissions ::
    "file_system_sandbox_policy \<Rightarrow> file_system_permissions \<Rightarrow> file_system_sandbox_policy" where
  "merge_file_system_policy_with_additional_permissions policy additional =
    (case fs_kind policy of
       FsRestricted \<Rightarrow>
         policy\<lparr>fs_entries := fold (\<lambda>e merged. push_unique merged e) (perm_entries additional) (fs_entries policy),
                glob_scan_max_depth := merge_glob_scan_max_depth (fs_entries policy) (glob_scan_max_depth policy)
                  (perm_entries additional) (perm_glob_depth additional)\<rparr>
     | _ \<Rightarrow> policy)"

definition effective_file_system_sandbox_policy ::
    "file_system_sandbox_policy \<Rightarrow> additional_permission_profile option \<Rightarrow> file_system_sandbox_policy" where
  "effective_file_system_sandbox_policy policy additional =
    (case additional of
       None \<Rightarrow> policy
     | Some additional \<Rightarrow>
        (case ap_file_system additional of
           None \<Rightarrow> policy
         | Some permissions \<Rightarrow>
             if fs_permissions_is_empty permissions then policy
             else merge_file_system_policy_with_additional_permissions policy permissions))"

definition merge_network_access :: "bool \<Rightarrow> additional_permission_profile \<Rightarrow> bool" where
  "merge_network_access base_network_access additional \<longleftrightarrow>
    base_network_access \<or>
      (case Option.bind (ap_network additional) net_enabled of Some b \<Rightarrow> b | None \<Rightarrow> False)"

definition effective_network_sandbox_policy ::
    "network_sandbox_policy \<Rightarrow> additional_permission_profile option \<Rightarrow> network_sandbox_policy" where
  "effective_network_sandbox_policy network_policy additional =
    (if (case additional of None \<Rightarrow> False
         | Some permissions \<Rightarrow> merge_network_access (network_is_enabled network_policy) permissions)
     then NetworkEnabled
     else if additional \<noteq> None then NetworkRestricted
     else network_policy)"

fun add_permissions_to_sandbox_policy ::
    "sandbox_policy \<Rightarrow> additional_permission_profile \<Rightarrow> path_buf list \<Rightarrow> sandbox_policy" where
  "add_permissions_to_sandbox_policy DangerFullAccess additional extra_writes = DangerFullAccess"
| "add_permissions_to_sandbox_policy (ExternalSandbox network_access) additional extra_writes =
    ExternalSandbox (if merge_network_access (network_access_is_enabled network_access) additional
      then NetEnabled else NetRestricted)"
| "add_permissions_to_sandbox_policy
      (WorkspaceWrite writable_roots network_access exclude_tmpdir_env_var exclude_slash_tmp) additional extra_writes =
    WorkspaceWrite (transforms_dedup_absolute_paths (writable_roots @ extra_writes))
      (merge_network_access network_access additional) exclude_tmpdir_env_var exclude_slash_tmp"
| "add_permissions_to_sandbox_policy (ReadOnly network_access) additional extra_writes =
    (if extra_writes = [] then ReadOnly (merge_network_access network_access additional)
     else WorkspaceWrite (transforms_dedup_absolute_paths extra_writes)
       (merge_network_access network_access additional) False False)"

definition sandbox_policy_with_additional_permissions ::
    "sandbox_policy \<Rightarrow> additional_permission_profile \<Rightarrow> sandbox_policy" where
  "sandbox_policy_with_additional_permissions sandbox_policy additional =
    (if profile_is_empty additional then sandbox_policy
     else add_permissions_to_sandbox_policy sandbox_policy additional (snd (additional_permission_roots additional)))"

definition effective_sandbox_policy ::
    "sandbox_policy \<Rightarrow> additional_permission_profile option \<Rightarrow> sandbox_policy" where
  "effective_sandbox_policy sandbox_policy additional =
    (case additional of None \<Rightarrow> sandbox_policy
     | Some permissions \<Rightarrow> sandbox_policy_with_additional_permissions sandbox_policy permissions)"

definition should_require_platform_sandbox ::
    "file_system_sandbox_policy \<Rightarrow> network_sandbox_policy \<Rightarrow> bool \<Rightarrow> bool" where
  "should_require_platform_sandbox policy network_policy has_managed_network_requirements =
    (if has_managed_network_requirements then True
     else if \<not> network_is_enabled network_policy then fs_kind policy \<noteq> FsExternalSandbox
     else case fs_kind policy of
       FsRestricted \<Rightarrow> \<not> has_full_disk_write_access policy
     | FsUnrestricted \<Rightarrow> False
     | FsExternalSandbox \<Rightarrow> False)"

end
