(* ===== verification/Grant_Facts.thy ===== *)
theory Grant_Facts
  imports Sandbox_Facts Policy_Transforms
begin

section \<open>What profiles and grants allow\<close>

text \<open>
  Profiles keep the older policy they were made from; stored permissions mean what they meant;
  and what \<open>intersect_permission_profiles\<close> keeps of a grant stays within the request.
\<close>

subsection \<open>Profiles\<close>

lemma profile_of_sandbox_policy_back:
  assumes "roots_named_once env cwd p"
  shows "\<exists>profile. profile_of_sandbox_policy env p = Some profile
    \<and> profile_to_legacy_sandbox_policy env profile cwd = Inr p"
proof (cases p)
  case (ReadOnly net)
  with assms show ?thesis
    using bridge_back [OF assms, of "managed_to_sandbox_policy (ManagedRestricted (fs_entries (from_legacy_sandbox_policy env p)) d)" for d]
      projections_keep_writes(1,2) [of env p]
    by (simp add: profile_of_sandbox_policy_def from_runtime_permissions_with_enforcement_def
        managed_of_sandbox_policy_def restricted_def)
next
  case (WorkspaceWrite roots net exclude_tmpdir exclude_slash_tmp)
  with assms show ?thesis
    using bridge_back [OF assms, of "managed_to_sandbox_policy (ManagedRestricted (fs_entries (from_legacy_sandbox_policy env p)) d)" for d]
      projections_keep_writes(1,2) [of env p]
    by (simp add: profile_of_sandbox_policy_def from_runtime_permissions_with_enforcement_def
        managed_of_sandbox_policy_def restricted_def)
next
  case (ExternalSandbox a)
  then show ?thesis
    by (cases a) (simp_all add: profile_of_sandbox_policy_def from_runtime_permissions_with_enforcement_def
        from_legacy_sandbox_policy_def external_sandbox_def network_policy_of_def network_is_enabled_def
        network_access_is_enabled_def)
qed (simp add: profile_of_sandbox_policy_def from_runtime_permissions_with_enforcement_def
        from_legacy_sandbox_policy_def unrestricted_def network_policy_of_def network_is_enabled_def)

subsection \<open>Grants\<close>

lemma push_unique_set [simp]: "set (push_unique xs x) = insert x (set xs)"
  by (auto simp: push_unique_def)

lemma fold_push_unique_set: "set (fold (\<lambda>e out. push_unique out (f e)) xs out) = set out \<union> f ` set xs"
  by (induction xs arbitrary: out) auto

lemma resolve_permission_path_eq:
  "abs_normal cwd \<Longrightarrow> resolve_permission_path env p cwd = resolve_entry_path env p (Some cwd)"
  by (cases p) (auto simp: resolve_entry_path_def absolute_root_path last_ancestor abs_normal_root
      split: file_system_special_path.split option.split)

lemma materialize_resolves:
  assumes "abs_normal cwd"
  shows "resolve_entry_path env (entry_path (materialize_cwd_dependent_entry env e cwd)) (Some cwd)
     = resolve_entry_path env (entry_path e) (Some cwd)"
  using assms
  by (auto simp: materialize_cwd_dependent_entry_def Let_def resolve_entry_path_def
      split: file_system_path.split file_system_special_path.split option.split)

lemma materialize_access [simp]: "entry_access (materialize_cwd_dependent_entry env e cwd) = entry_access e"
  by (auto simp: materialize_cwd_dependent_entry_def Let_def
      split: file_system_path.split file_system_special_path.split option.split)

lemma intersect_entries:
  "set (perm_entries (intersect_file_system env requested granted cwd)) =
     set (accept_granted_entries env requested granted cwd)
     \<union> set (constraining_deny_entries env (perm_entries requested) (accept_granted_entries env requested granted cwd) cwd)
     \<union> set (constraining_deny_entries env (perm_entries granted) (accept_granted_entries env requested granted cwd) cwd)"
  by (simp add: intersect_file_system_def retain_constraining_deny_entries_def Let_def
      fold_push_unique_set [of "\<lambda>e. e", simplified])

lemma accepted_entry:
  assumes "e' \<in> set (accept_granted_entries env requested granted cwd)"
  shows "\<exists>e\<in>set (perm_entries granted). e' = materialize_cwd_dependent_entry env e cwd
    \<and> granted_file_system_entry_within_request env requested (restricted (perm_entries requested))
        (new_read_deny_matcher env (restricted (perm_entries requested)) cwd) e cwd"
  using assms by (auto simp: accept_granted_entries_def Let_def fold_push_unique_set)

lemma constraining_deny_access:
  "e \<in> set (constraining_deny_entries env source accepted cwd) \<Longrightarrow> entry_access e = AccessNone"
  by (auto simp: constraining_deny_entries_def)

text \<open>A readable entry of the intersection points where the request allows what it grants.\<close>

lemma readable_entry_within_request:
  assumes "abs_normal cwd" and "e' \<in> set (perm_entries (intersect_file_system env requested granted cwd))"
    and "access_can_read (entry_access e')" and "resolve_entry_path env (entry_path e') (Some cwd) = Some p"
  shows "e' \<in> set (accept_granted_entries env requested granted cwd)
    \<and> access_covers (resolve_access_with_cwd env (restricted (perm_entries requested)) p cwd) (entry_access e')"
proof -
  from assms(2,3) have accepted: "e' \<in> set (accept_granted_entries env requested granted cwd)"
    by (auto simp: intersect_entries dest: constraining_deny_access)
  then obtain e where e: "e' = materialize_cwd_dependent_entry env e cwd"
    "granted_file_system_entry_within_request env requested (restricted (perm_entries requested))
        (new_read_deny_matcher env (restricted (perm_entries requested)) cwd) e cwd"
    using accepted_entry by blast
  with assms(4) have "resolve_permission_path env (entry_path e) cwd = Some p"
    by (simp add: materialize_resolves [OF assms(1)] resolve_permission_path_eq [OF assms(1)])
  with e accepted show ?thesis by (auto simp: granted_file_system_entry_within_request_def split: if_splits)
qed

text \<open>A deny entry of the request above a path that an accepted entry covers is retained.\<close>

lemma deny_entry_retained:
  assumes "abs_normal cwd" and "d \<in> set (perm_entries requested)" and "entry_access d = AccessNone"
    and "resolve_entry_path env (entry_path d) (Some cwd) = Some a"
    and "e' \<in> set (accept_granted_entries env requested granted cwd)" and "access_can_read (entry_access e')"
    and "resolve_entry_path env (entry_path e') (Some cwd) = Some b"
    and "path_starts_with q a" and "path_starts_with q b"
  shows "materialize_cwd_dependent_entry env d cwd \<in> set (perm_entries (intersect_file_system env requested granted cwd))"
proof -
  have "paths_overlap a b"
    using path_prefix_comparable [OF assms(8,9)] path_prefix_comparable [OF assms(9,8)] linear
    unfolding paths_overlap_def by blast
  moreover have "resolve_permission_path env (entry_path d) cwd = Some a" "resolve_permission_path env (entry_path e') cwd = Some b"
    using assms(4,7) by (simp_all only: resolve_permission_path_eq [OF assms(1)])
  moreover from this(1) have "\<not> (\<exists>g. entry_path d = GlobPattern g)" by auto
  ultimately have "(case resolve_permission_path env (entry_path e') cwd of None \<Rightarrow> False
       | Some grant_path \<Rightarrow>
          (case entry_path d of
             GlobPattern pattern \<Rightarrow>
              (case glob_static_prefix_path env pattern cwd of None \<Rightarrow> False | Some prefix \<Rightarrow> paths_overlap prefix grant_path)
           | _ \<Rightarrow>
              (case resolve_permission_path env (entry_path d) cwd of None \<Rightarrow> False
               | Some deny_path \<Rightarrow> paths_overlap deny_path grant_path)))"
    by (cases "entry_path d") simp_all
  moreover have "e' \<in> set (filter (\<lambda>e. access_can_read (entry_access e)) (accept_granted_entries env requested granted cwd))"
    using assms(5,6) by simp
  ultimately have "deny_entry_constrains_accepted_grant env d (accept_granted_entries env requested granted cwd) cwd"
    unfolding deny_entry_constrains_accepted_grant_def list_ex_iff by blast
  with assms(2,3) show ?thesis by (simp add: intersect_entries constraining_deny_entries_def)
qed

lemma readable_within_request:
  assumes "env_ok env" and "abs_normal cwd" and "abs_normal q"
    and "policy_ok (restricted (perm_entries requested))" and "policy_ok (restricted (perm_entries granted))"
    and "can_read_path_with_cwd env (restricted (perm_entries (intersect_file_system env requested granted cwd))) q cwd"
  shows "can_read_path_with_cwd env (restricted (perm_entries requested)) q cwd"
proof -
  let ?P = "restricted (perm_entries requested)"
  let ?I = "restricted (perm_entries (intersect_file_system env requested granted cwd))"
  let ?E = "\<lambda>P. set (resolved_entries_with_cwd env P cwd)"
  have kinds: "fs_kind ?P = FsRestricted" "fs_kind ?I = FsRestricted" by (simp_all add: restricted_def)
  have cwd: "from_absolute env cwd = Some cwd" using assms(2) by simp
  note q = abs_normal_candidate [OF assms(3)]
  show ?thesis
  proof (cases rule: resolve_access_cases [OF kinds(2) q, case_names uncovered winner, of env cwd])
    case uncovered
    with assms(6) show ?thesis by (simp add: can_read_path_with_cwd_def)
  next
    case (winner w)
    let ?p = "resolved_path w"
    from winner(1) obtain e' where e': "e' \<in> set (perm_entries (intersect_file_system env requested granted cwd))"
      "resolve_entry_path env (entry_path e') (Some cwd) = Some ?p" "resolved_access w = entry_access e'"
      by (auto simp: resolved_entries_iff cwd restricted_def)
    have readable: "access_can_read (entry_access e')"
      using assms(6) winner(4) e'(3) by (simp add: can_read_path_with_cwd_def)
    from readable_entry_within_request [OF assms(2) e'(1) readable e'(2)]
    have accepted: "e' \<in> set (accept_granted_entries env requested granted cwd)"
      and "access_can_read (resolve_access_with_cwd env ?P ?p cwd)"
      using readable by (auto dest: access_write_read elim!: access_covers.elims)
    from accepted_entry [OF accepted] obtain e where e: "e \<in> set (perm_entries granted)"
      "e' = materialize_cwd_dependent_entry env e cwd" by blast
    then have p: "abs_normal ?p"
      using resolve_entry_path_abs [OF assms(1), of "entry_path e" "Some cwd" ?p] assms(2,5) e'(2)
      by (simp add: materialize_resolves [OF assms(2)] policy_ok_def list_all_iff restricted_def)
    obtain s where s: "s \<in> ?E ?P" "covers_path s ?p" "access_can_read (resolved_access s)"
      "\<And>f. \<lbrakk>f \<in> ?E ?P; covers_path f ?p\<rbrakk> \<Longrightarrow> resolved_entry_precedence f \<le> resolved_entry_precedence s"
      using \<open>access_can_read (resolve_access_with_cwd env ?P ?p cwd)\<close>
      by (cases rule: resolve_access_cases [OF kinds(1) abs_normal_candidate [OF p], case_names uncovered winner, of env cwd])
        auto
    have s_q: "covers_path s q" using s(2) winner(2) path_starts_with_trans unfolding covers_path_def by blast
    show ?thesis
    proof (cases rule: resolve_access_cases [OF kinds(1) q, case_names uncovered winner, of env cwd])
      case uncovered
      with s(1) s_q show ?thesis by blast
    next
      case r: (winner r)
      show ?thesis
      proof (rule ccontr)
        assume "\<not> ?thesis"
        with r(4) have none: "resolved_access r = AccessNone" by (simp add: can_read_path_with_cwd_def access_can_read_def)
        from r(1) obtain d where d: "d \<in> set (perm_entries requested)"
          "resolve_entry_path env (entry_path d) (Some cwd) = Some (resolved_path r)" "entry_access d = AccessNone"
          using none by (auto simp: resolved_entries_iff cwd restricted_def)
        have "materialize_cwd_dependent_entry env d cwd \<in> set (perm_entries (intersect_file_system env requested granted cwd))"
          using deny_entry_retained [OF assms(2) d(1,3,2) accepted readable e'(2)] r(2) winner(2)
          unfolding covers_path_def by blast
        then have "\<lparr>resolved_path = resolved_path r, resolved_access = AccessNone\<rparr> \<in> ?E ?I"
          using d(2,3) materialize_resolves [OF assms(2)]
          by (auto simp: resolved_entries_iff cwd restricted_def intro!: bexI [of _ "materialize_cwd_dependent_entry env d cwd"])
        from winner(3) [OF this] r(2) have "length (resolved_path r) < length ?p"
          using readable e'(3) by (cases "entry_access e'") (auto simp: covers_path_def precedence_le_iff access_order)
        then have "covers_path r ?p"
          using r(2) winner(2) path_prefix_comparable unfolding covers_path_def by (meson less_imp_le)
        then have "resolved_entry_precedence r \<le> resolved_entry_precedence s" using s(4) r(1) by blast
        moreover have "resolved_entry_precedence s \<le> resolved_entry_precedence r" using r(3) s(1) s_q by blast
        ultimately have "resolved_entry_precedence r = resolved_entry_precedence s" by (rule antisym)
        then have "resolved_access r = resolved_access s" by (simp add: resolved_entry_precedence_def)
        with none s(3) show False by simp
      qed
    qed
  qed
qed

text \<open>Writes only reach below a path that the request may write.\<close>

lemma writable_below_request:
  assumes "env_ok env" and "abs_normal cwd" and "abs_normal q"
    and "can_write_path_with_cwd env (restricted (perm_entries (intersect_file_system env requested granted cwd))) q cwd"
  shows "\<exists>p. path_starts_with q p \<and> can_write_path_with_cwd env (restricted (perm_entries requested)) p cwd"
proof -
  let ?I = "restricted (perm_entries (intersect_file_system env requested granted cwd))"
  have kind: "fs_kind ?I = FsRestricted" by (simp add: restricted_def)
  show ?thesis
  proof (cases rule: resolve_access_cases [OF kind abs_normal_candidate [OF assms(3)], case_names uncovered winner, of env cwd])
    case uncovered
    with assms(4) show ?thesis by (simp add: can_write_path_with_cwd_def)
  next
    case (winner w)
    from winner(1) obtain e' where e': "e' \<in> set (perm_entries (intersect_file_system env requested granted cwd))"
      "resolve_entry_path env (entry_path e') (Some cwd) = Some (resolved_path w)" "resolved_access w = entry_access e'"
      using assms(2) by (auto simp: resolved_entries_iff restricted_def)
    with assms(4) winner(4) have "entry_access e' = AccessWrite"
      by (simp add: can_write_path_with_cwd_def access_can_write_def)
    with readable_entry_within_request [OF assms(2) e'(1) _ e'(2)]
    have "can_write_path_with_cwd env (restricted (perm_entries requested)) (resolved_path w) cwd"
      by (simp add: can_write_path_with_cwd_def)
    with winner(2) show ?thesis unfolding covers_path_def by blast
  qed
qed

subsection \<open>Stored permissions\<close>

lemma split_legacy_entries_set:
  "split_legacy_entries es rs ws = Some (rs', ws') \<Longrightarrow>
     exact_entry AccessRead ` set rs' \<union> exact_entry AccessWrite ` set ws'
     = exact_entry AccessRead ` set rs \<union> exact_entry AccessWrite ` set ws \<union> set es"
proof (induction es rs ws rule: split_legacy_entries.induct)
  case (2 e es rs ws)
  then obtain p where p: "entry_path e = ExactPath p" by (cases "entry_path e") auto
  have e: "e = exact_entry (entry_access e) p" by (simp add: exact_entry_def p [symmetric])
  show ?case
  proof (cases "entry_access e")
    case AccessRead
    with 2 p have "exact_entry AccessRead ` set rs' \<union> exact_entry AccessWrite ` set ws'
     = exact_entry AccessRead ` set (rs @ [p]) \<union> exact_entry AccessWrite ` set ws \<union> set es" by simp
    with e AccessRead show ?thesis by auto
  next
    case AccessWrite
    with 2 p have "exact_entry AccessRead ` set rs' \<union> exact_entry AccessWrite ` set ws'
     = exact_entry AccessRead ` set rs \<union> exact_entry AccessWrite ` set (ws @ [p]) \<union> set es" by simp
    with e AccessWrite show ?thesis by auto
  qed (use 2 p in simp)
qed simp

lemma stored_permissions_same:
  "set (perm_entries (deserialize_fs_permissions (serialize_fs_permissions p))) = set (perm_entries p)
   \<and> perm_glob_depth (deserialize_fs_permissions (serialize_fs_permissions p)) = perm_glob_depth p"
proof (cases "as_legacy_permissions p")
  case (Some l)
  then obtain rs ws where s: "split_legacy_entries (perm_entries p) [] [] = Some (rs, ws)"
    and depth: "perm_glob_depth p = None"
    and l: "l = \<lparr>legacy_read = (if rs = [] then None else Some rs), legacy_write = (if ws = [] then None else Some ws)\<rparr>"
    by (auto simp: as_legacy_permissions_def split: if_splits)
  have "set (perm_entries (from_read_write_roots (legacy_read l) (legacy_write l)))
      = exact_entry AccessRead ` set rs \<union> exact_entry AccessWrite ` set ws"
    by (simp add: from_read_write_roots_def l)
  with split_legacy_entries_set [OF s] Some depth show ?thesis
    by (simp add: serialize_fs_permissions_def from_read_write_roots_def)
qed (simp add: serialize_fs_permissions_def)

lemma stored_permissions_resolve_alike:
  "resolve_access_with_cwd env (policy_of_permissions (deserialize_fs_permissions (serialize_fs_permissions p))) q cwd
   = resolve_access_with_cwd env (policy_of_permissions p) q cwd"
  by (rule resolve_access_by_set) (simp_all add: policy_of_permissions_def restricted_def stored_permissions_same)

subsection \<open>Merging\<close>

lemma merge_permission_entries_set: "set (merge_permission_entries a b) = set a \<union> set b"
  by (simp add: merge_permission_entries_def fold_push_unique_set [of "\<lambda>e. e", simplified] Un_commute)

lemma effective_entries_set:
  assumes "fs_kind policy = FsRestricted" and "ap_file_system additional = Some permissions"
  shows "set (fs_entries (effective_file_system_sandbox_policy policy (Some additional)))
    = set (fs_entries policy) \<union> set (perm_entries permissions)"
  using assms by (auto simp: effective_file_system_sandbox_policy_def fs_permissions_is_empty_def
      merge_file_system_policy_with_additional_permissions_def fold_push_unique_set [of "\<lambda>e. e", simplified])

text \<open>Permissions granted one after the other take effect like the merged permissions.\<close>

lemma merged_permissions_take_effect:
  assumes "fs_kind policy = FsRestricted" and "ap_file_system a = Some f" and "ap_file_system b = Some g"
    and "merge_permission_profiles (Some a) (Some b) = Some m"
  shows "resolve_access_with_cwd env (effective_file_system_sandbox_policy policy (Some m)) p cwd
    = resolve_access_with_cwd env (effective_file_system_sandbox_policy
        (effective_file_system_sandbox_policy policy (Some a)) (Some b)) p cwd"
proof -
  have kind: "fs_kind (effective_file_system_sandbox_policy q x) = fs_kind q" for q x
    by (auto simp: effective_file_system_sandbox_policy_def merge_file_system_policy_with_additional_permissions_def
        split: option.split file_system_sandbox_kind.split)
  have both: "set (fs_entries (effective_file_system_sandbox_policy (effective_file_system_sandbox_policy policy (Some a)) (Some b)))
      = set (fs_entries policy) \<union> set (perm_entries f) \<union> set (perm_entries g)"
    using effective_entries_set [OF _ assms(3)] effective_entries_set [OF assms(1,2)] assms(1) kind by simp
  have merged: "set (fs_entries (effective_file_system_sandbox_policy policy (Some m)))
      = set (fs_entries policy) \<union> set (perm_entries f) \<union> set (perm_entries g)"
  proof (cases "ap_file_system m")
    case None
    with assms have "merge_permission_entries (perm_entries f) (perm_entries g) = []"
      by (auto simp: merge_permission_profiles_def filter_option_def fs_permissions_is_empty_def Let_def split: if_splits)
    then have "set (perm_entries f) \<union> set (perm_entries g) = {}"
      using merge_permission_entries_set [of "perm_entries f" "perm_entries g"] by simp
    with None show ?thesis by (simp add: effective_file_system_sandbox_policy_def)
  next
    case (Some h)
    with assms have "perm_entries h = merge_permission_entries (perm_entries f) (perm_entries g)"
      by (auto simp: merge_permission_profiles_def filter_option_def Let_def split: if_splits)
    with effective_entries_set [OF assms(1) Some] show ?thesis by (auto simp: merge_permission_entries_set)
  qed
  show ?thesis by (rule resolve_access_by_set) (simp_all add: kind both merged)
qed

text \<open>A carve-out that only forbids writing is not retained: the intersection may be wider than the request there.\<close>

lemma read_only_carveout_is_lost:
  "let a = path_of (lit ''/a''); b = path_of (lit ''/a/b''); cwd = [RootDir];
       requested = \<lparr>perm_entries = [exact_entry AccessWrite a, exact_entry AccessRead b], perm_glob_depth = None\<rparr>;
       granted = \<lparr>perm_entries = [exact_entry AccessWrite a], perm_glob_depth = None\<rparr>
   in resolve_access_with_cwd plain_env (restricted (perm_entries requested)) b cwd = AccessRead
    \<and> resolve_access_with_cwd plain_env
        (restricted (perm_entries (intersect_file_system plain_env requested granted cwd))) b cwd = AccessWrite"
  unfolding Let_def by code_simp

text \<open>The override of a read entry for the temporary directory counts even where that directory does not exist.\<close>

lemma slash_tmp_override_needs_the_directory:
  "let policy = restricted [root_entry AccessWrite, exact_entry AccessRead slash_tmp, special_entry AccessWrite SlashTmp]
   in has_full_disk_write_access policy \<and> \<not> can_write_path_with_cwd plain_env policy slash_tmp [RootDir]"
  unfolding Let_def by code_simp

end
