(* ===== verification/Patch_Safety.thy ===== *)
theory Patch_Safety
  imports Patch_Invocation Access_Decision
begin

section \<open>Whether a patch needs the user's consent (core: safety.rs)\<close>

text \<open>
  \<open>assess_patch_safety\<close> over the changes that the preview of a patch computed. The operating
  system the program is built for (\<open>cfg!(target_os)\<close>) is an argument. The loop over the changes
  stops at the first path that is not writable; a hash map has no order, so the model asks for all
  of them at once.
\<close>

datatype target_os = MacOs | Linux | Windows | OtherOs

datatype windows_sandbox_level = WindowsDisabled | WindowsRestrictedTokenLevel | WindowsElevated

datatype sandbox_type = SandboxNone | MacosSeatbelt | LinuxSeccomp | WindowsRestrictedToken

definition get_platform_sandbox :: "target_os \<Rightarrow> bool \<Rightarrow> sandbox_type option" where
  "get_platform_sandbox os windows_sandbox_enabled =
    (case os of
       MacOs \<Rightarrow> Some MacosSeatbelt
     | Linux \<Rightarrow> Some LinuxSeccomp
     | Windows \<Rightarrow> if windows_sandbox_enabled then Some WindowsRestrictedToken else None
     | OtherOs \<Rightarrow> None)"

datatype safety_check =
    AutoApprove sandbox_type bool
  | AskUser
  | RejectPatch ustr

definition PATCH_REJECTED_OUTSIDE_PROJECT_REASON :: ustr where
  "PATCH_REJECTED_OUTSIDE_PROJECT_REASON = lit ''writing outside of the project; rejected by user approval settings''"

definition PATCH_REJECTED_READ_ONLY_REASON :: ustr where
  "PATCH_REJECTED_READ_ONLY_REASON = lit ''writing is blocked by read-only sandbox; rejected by user approval settings''"

fun patch_rejection_reason :: "sandbox_policy \<Rightarrow> ustr" where
  "patch_rejection_reason (ReadOnly _) = PATCH_REJECTED_READ_ONLY_REASON"
| "patch_rejection_reason (WorkspaceWrite _ _ _ _) = PATCH_REJECTED_OUTSIDE_PROJECT_REASON"
| "patch_rejection_reason DangerFullAccess = PATCH_REJECTED_OUTSIDE_PROJECT_REASON"
| "patch_rejection_reason (ExternalSandbox _) = PATCH_REJECTED_OUTSIDE_PROJECT_REASON"

definition util_resolve_path :: "path_buf \<Rightarrow> path_buf \<Rightarrow> path_buf" where
  "util_resolve_path base p = (if is_absolute p then p else path_join base p)"

fun safety_normalize :: "path_buf \<Rightarrow> path_buf \<Rightarrow> path_buf" where
  "safety_normalize out [] = out"
| "safety_normalize out (ParentDir # cs) = safety_normalize (path_pop out) cs"
| "safety_normalize out (CurDir # cs) = safety_normalize out cs"
| "safety_normalize out (other # cs) = safety_normalize (path_push out other) cs"

definition patch_path_is_writable :: "fs_env \<Rightarrow> file_system_sandbox_policy \<Rightarrow> path_buf \<Rightarrow> path_buf \<Rightarrow> bool" where
  "patch_path_is_writable env policy cwd p =
    can_write_path_with_cwd env policy (safety_normalize [] (util_resolve_path cwd p)) cwd"

fun change_is_constrained ::
    "fs_env \<Rightarrow> file_system_sandbox_policy \<Rightarrow> path_buf \<Rightarrow> path_buf \<Rightarrow> apply_patch_file_change \<Rightarrow> bool" where
  "change_is_constrained env policy cwd p (Add _) = patch_path_is_writable env policy cwd p"
| "change_is_constrained env policy cwd p (Delete _) = patch_path_is_writable env policy cwd p"
| "change_is_constrained env policy cwd p (Update _ move_path _) =
    (if \<not> patch_path_is_writable env policy cwd p then False
     else case move_path of None \<Rightarrow> True | Some dest \<Rightarrow> patch_path_is_writable env policy cwd dest)"

definition is_write_patch_constrained_to_writable_paths ::
    "fs_env \<Rightarrow> apply_patch_action \<Rightarrow> file_system_sandbox_policy \<Rightarrow> path_buf \<Rightarrow> bool" where
  "is_write_patch_constrained_to_writable_paths env action policy cwd \<longleftrightarrow>
    (\<forall>p c. action_changes action p = Some c \<longrightarrow> change_is_constrained env policy cwd p c)"

definition action_is_empty :: "apply_patch_action \<Rightarrow> bool" where
  "action_is_empty action \<longleftrightarrow> dom (action_changes action) = {}"

definition assess_patch_safety ::
    "fs_env \<Rightarrow> target_os \<Rightarrow> apply_patch_action \<Rightarrow> ask_for_approval \<Rightarrow> sandbox_policy
      \<Rightarrow> file_system_sandbox_policy \<Rightarrow> path_buf \<Rightarrow> windows_sandbox_level \<Rightarrow> safety_check" where
  "assess_patch_safety env os action policy sandbox_policy fs_policy cwd windows_sandbox_level =
    (if action_is_empty action then RejectPatch (lit ''empty patch'')
     else if policy = UnlessTrusted then AskUser
     else
       (let rejects_sandbox_approval =
              (case policy of Never \<Rightarrow> True
               | Granular granular_config \<Rightarrow> \<not> sandbox_approval granular_config | _ \<Rightarrow> False)
        in if is_write_patch_constrained_to_writable_paths env action fs_policy cwd \<or> policy = OnFailure then
             (case sandbox_policy of
                DangerFullAccess \<Rightarrow> AutoApprove SandboxNone False
              | ExternalSandbox _ \<Rightarrow> AutoApprove SandboxNone False
              | _ \<Rightarrow>
                 (case get_platform_sandbox os (windows_sandbox_level \<noteq> WindowsDisabled) of
                    Some sandbox_type \<Rightarrow> AutoApprove sandbox_type False
                  | None \<Rightarrow>
                      if rejects_sandbox_approval then RejectPatch (patch_rejection_reason sandbox_policy)
                      else AskUser))
           else if rejects_sandbox_approval then RejectPatch (patch_rejection_reason sandbox_policy)
           else AskUser))"

subsection \<open>An approved patch stays inside the writable paths\<close>

lemma safety_normalize_eq: "safety_normalize out cs = normalize_components out cs"
  by (induction out cs rule: safety_normalize.induct) simp_all

lemma safety_normalize_id: "abs_normal p \<Longrightarrow> safety_normalize [] (util_resolve_path cwd p) = p"
  using normalize_path_id [of p] abs_normal_root_once [of p]
  by (auto simp: safety_normalize_eq util_resolve_path_def normalize_path_def Let_def abs_normal_def split: if_splits)

lemma auto_approved_constrained:
  assumes "assess_patch_safety env os action policy sandbox_policy fs_policy cwd level = AutoApprove st explicit"
    and "policy \<noteq> OnFailure"
  shows "is_write_patch_constrained_to_writable_paths env action fs_policy cwd"
  using assms unfolding assess_patch_safety_def Let_def by (simp split: if_splits)

lemma auto_approved_sandbox:
  assumes "assess_patch_safety env os action policy sandbox_policy fs_policy cwd level = AutoApprove st explicit"
  shows "\<not> explicit \<and> (st = SandboxNone \<longleftrightarrow> sandbox_policy = DangerFullAccess \<or> (\<exists>n. sandbox_policy = ExternalSandbox n))"
  using assms
  by (cases sandbox_policy; cases os)
    (auto simp: assess_patch_safety_def get_platform_sandbox_def Let_def split: if_splits)

text \<open>With pairwise different files, the change recorded for a hunk's source is that hunk's.\<close>

lemma collect_changes_frame:
  "\<lbrakk>collect_changes diff fs home wd s hs m = Inr m'; q \<notin> hunk_resolve_path home wd ` set hs\<rbrakk> \<Longrightarrow> m' q = m q"
  by (induction hs arbitrary: m) (auto split: sum.splits)

lemma targets_distinct_Cons:
  "targets_distinct home wd (h # hs) \<Longrightarrow>
     hunk_resolve_path home wd h \<notin> hunk_resolve_path home wd ` set hs \<and> targets_distinct home wd hs"
  by (auto simp: targets_distinct_def hunk_targets_def)

lemma collected_change:
  "\<lbrakk>targets_distinct home wd hs; collect_changes diff fs home wd s hs m = Inr changes; h \<in> set hs\<rbrakk> \<Longrightarrow>
     \<exists>c. hunk_change diff fs home wd s h = Inr c \<and> changes (hunk_resolve_path home wd h) = Some c"
proof (induction hs arbitrary: m)
  case (Cons k hs)
  then obtain c where c: "hunk_change diff fs home wd s k = Inr c"
    "collect_changes diff fs home wd s hs (m(hunk_resolve_path home wd k \<mapsto> c)) = Inr changes"
    by (auto split: sum.splits)
  from targets_distinct_Cons [OF Cons.prems(1)] have
    fresh: "hunk_resolve_path home wd k \<notin> hunk_resolve_path home wd ` set hs" and "targets_distinct home wd hs"
    by blast+
  with Cons.IH [OF _ c(2)] Cons.prems(3) collect_changes_frame [OF c(2) fresh] c(1) show ?case by auto
qed simp

lemma hunk_path_abs:
  assumes "\<And>h. home = Some h \<Longrightarrow> abs_normal h" and "abs_normal wd"
  shows "abs_normal (resolve_path_against_base home s wd)"
  unfolding resolve_path_against_base_def
  using assms by (intro absolutize_from_abs expand_home_root_once)

text \<open>Every target of a hunk whose change was found to be constrained is writable.\<close>

lemma constrained_target_writable:
  assumes "pred_option abs_normal home" and "abs_normal wd"
    and "hunk_change diff fs home wd s h = Inr c"
    and "change_is_constrained env policy cwd (hunk_resolve_path home wd h) c"
    and "q \<in> set (hunk_targets home wd h)"
  shows "can_write_path_with_cwd env policy q cwd"
proof -
  have home: "\<And>h. home = Some h \<Longrightarrow> abs_normal h" using assms(1) by auto
  have source: "abs_normal (hunk_resolve_path home wd h)"
    unfolding hunk_resolve_path_def using hunk_path_abs [OF home assms(2)] by (cases h) auto
  have ok: "can_write_path_with_cwd env policy p cwd" if "abs_normal p" "patch_path_is_writable env policy cwd p" for p
    using that by (simp add: patch_path_is_writable_def safety_normalize_id)
  show ?thesis
  proof (cases "q = hunk_resolve_path home wd h")
    case True
    with assms(4) ok [OF source] show ?thesis by (cases c) (auto split: if_splits)
  next
    case False
    with assms(5) obtain p dest chunks where h: "h = UpdateFile p (Some dest) chunks"
      and q: "q = resolve_path_against_base home dest wd"
      by (cases h) (auto simp: hunk_targets_def split: option.splits)
    with assms(3) obtain d content where "c = Update d (Some q) content"
      by (auto simp: hunk_change_def Let_def split: sum.splits prod.splits)
    with assms(4) ok [of q] q hunk_path_abs [OF home assms(2)] show ?thesis by (auto split: if_splits)
  qed
qed

lemma changed_text_is_linked:
  assumes "fs_local linked fs"
    and "fs_text fs q (snd (apply_hunks_to_files fs home cwd hs s)) \<noteq> fs_text fs q s"
  shows "\<exists>h\<in>set hs. \<exists>p\<in>set (hunk_targets home cwd h). linked s p q"
proof (rule ccontr)
  assume "\<not> ?thesis"
  then have "\<forall>h\<in>set hs. unreached linked home cwd h s q" by (auto simp: unreached_def)
  from apply_hunk_list_frame [OF assms(1) untouched_refl this] assms(2) show False
    unfolding apply_hunks_to_files_def by (cases "hs = []") (auto simp: untouched_def)
qed

lemma approved_patch_is_contained:
  assumes "fs_local linked fs" and "pred_option abs_normal home" and "abs_normal wd"
    and "targets_distinct home wd hs"
    and "collect_changes diff fs home wd s hs Map.empty = Inr (action_changes action)"
    and "assess_patch_safety env os action policy sandbox_policy fs_policy cwd level = AutoApprove st explicit"
    and "policy \<noteq> OnFailure"
    and "fs_text fs q (snd (apply_hunks_to_files fs home wd hs s)) \<noteq> fs_text fs q s"
  shows "\<exists>h\<in>set hs. \<exists>p\<in>set (hunk_targets home wd h). can_write_path_with_cwd env fs_policy p cwd \<and> linked s p q"
proof -
  from changed_text_is_linked [OF assms(1,8)]
  obtain h p where h: "h \<in> set hs" "p \<in> set (hunk_targets home wd h)" "linked s p q" by blast
  from collected_change [OF assms(4,5) h(1)] obtain c where
    c: "hunk_change diff fs home wd s h = Inr c" "action_changes action (hunk_resolve_path home wd h) = Some c" by blast
  from auto_approved_constrained [OF assms(6,7)] c(2)
  have "change_is_constrained env fs_policy cwd (hunk_resolve_path home wd h) c"
    by (simp add: is_write_patch_constrained_to_writable_paths_def)
  then show ?thesis using constrained_target_writable [OF assms(2,3) c(1) _ h(2)] h by blast
qed

text \<open>
  Without that condition the check can be passed over: the changes are a map from source paths, so
  a later hunk for the same source hides the destination of an earlier move.
\<close>

lemma overwritten_change_hides_a_destination:
  fixes hs defines "hs \<equiv> [UpdateFile (lit ''a'') (Some (lit ''/out''))
       [\<lparr>change_context = None, old_lines = [lit ''x''], new_lines = [lit ''y''], is_end_of_file = False\<rparr>],
     AddFile (lit ''a'') []]"
  shows "\<exists>changes. collect_changes (\<lambda>_ _ _. []) mem_fs None (path_of (lit ''/w'')) [path_of (lit ''/w/a'') \<mapsto> lit ''x'' @ [nl]]
        hs Map.empty = Inr changes
    \<and> assess_patch_safety plain_env Linux \<lparr>action_changes = changes, action_patch = [], action_cwd = path_of (lit ''/w'')\<rparr> Never
        (WorkspaceWrite [] False True True)
        (restricted [\<lparr>entry_path = ExactPath (path_of (lit ''/w'')), entry_access = AccessWrite\<rparr>])
        (path_of (lit ''/w'')) WindowsDisabled = AutoApprove LinuxSeccomp False
    \<and> \<not> can_write_path_with_cwd plain_env
        (restricted [\<lparr>entry_path = ExactPath (path_of (lit ''/w'')), entry_access = AccessWrite\<rparr>])
        (path_of (lit ''/out'')) (path_of (lit ''/w''))
    \<and> fs_read_file_text mem_fs (path_of (lit ''/out''))
        (snd (apply_hunks_to_files mem_fs None (path_of (lit ''/w'')) hs [path_of (lit ''/w/a'') \<mapsto> lit ''x'' @ [nl]]))
      = Inr (lit ''y'' @ [nl])"
proof -
  let ?wd = "[RootDir, Normal (lit ''w'')]" and ?a = "[RootDir, Normal (lit ''w''), Normal (lit ''a'')]"
    and ?out = "[RootDir, Normal (lit ''out'')]"
  let ?s = "[?a \<mapsto> lit ''x'' @ [nl]]"
  have paths: "path_of (lit ''/w'') = ?wd" "path_of (lit ''/w/a'') = ?a" "path_of (lit ''/out'') = ?out"
    by code_simp+
  have "resolve_path_against_base None (lit ''a'') ?wd = ?a" by code_simp
  then have r: "hunk_resolve_path None ?wd h = ?a" if "h \<in> set hs" for h
    using that unfolding hs_def by (auto simp: hunk_resolve_path_def)
  have c1: "hunk_change (\<lambda>_ _ _. []) mem_fs None ?wd ?s (hs ! 0) = Inr (Update [] (Some ?out) (lit ''y'' @ [nl]))"
    unfolding hs_def by code_simp
  have c: "collect_changes (\<lambda>_ _ _. []) mem_fs None ?wd ?s hs Map.empty = Inr [?a \<mapsto> Add []]"
    using c1 r by (simp add: hs_def) (simp add: hunk_change_def)
  have w: "patch_path_is_writable plain_env (restricted [\<lparr>entry_path = ExactPath ?wd, entry_access = AccessWrite\<rparr>]) ?wd ?a"
    by code_simp
  have "assess_patch_safety plain_env Linux \<lparr>action_changes = [?a \<mapsto> Add []], action_patch = [], action_cwd = ?wd\<rparr> Never
        (WorkspaceWrite [] False True True) (restricted [\<lparr>entry_path = ExactPath ?wd, entry_access = AccessWrite\<rparr>])
        ?wd WindowsDisabled = AutoApprove LinuxSeccomp False"
    by (simp add: assess_patch_safety_def action_is_empty_def is_write_patch_constrained_to_writable_paths_def w
        get_platform_sandbox_def)
  moreover have "\<not> can_write_path_with_cwd plain_env
        (restricted [\<lparr>entry_path = ExactPath ?wd, entry_access = AccessWrite\<rparr>]) ?out ?wd" by code_simp
  moreover have "fs_read_file_text mem_fs ?out (snd (apply_hunks_to_files mem_fs None ?wd hs ?s)) = Inr (lit ''y'' @ [nl])"
    unfolding hs_def by code_simp
  ultimately show ?thesis unfolding paths using c by blast
qed

end
