(* ===== verification/Permission_Properties.thy ===== *)
theory Permission_Properties
  imports Grant_Facts Patch_Safety
begin

section \<open>Properties of the permissions\<close>

text \<open>
  The claims about file system permissions: who may read and write a path, what the sandbox is
  handed, what a grant gives, and what an approved patch can touch. The witnesses evaluate them
  on small policies in \<open>plain_env\<close>.
\<close>

subsection \<open>Access\<close>

text \<open>C18: The access a restricted policy gives to a path is that of the closest entries that cover it: of their modes
  none wins over write and write over read, whatever the order of the entries, and a path that no entry covers
  is denied.\<close>

theorem access_is_most_specific:
  assumes "fs_kind policy = FsRestricted" and "resolve_candidate_path env p cwd = Some q"
  shows "resolve_access_with_cwd env policy p cwd = entry_spec (set (resolved_entries_with_cwd env policy cwd)) q"
  by (rule access_most_specific [OF assms])

theorem access_is_most_specific_witness:
  "let policy = restricted [exact_entry AccessRead (path_of (lit ''/a/b'')), exact_entry AccessWrite (path_of (lit ''/a''))];
       q = path_of (lit ''/a/b/c'')
   in entry_spec (set (resolved_entries_with_cwd plain_env policy [RootDir])) q = AccessRead"
proof -
  let ?policy = "restricted [exact_entry AccessRead (path_of (lit ''/a/b'')), exact_entry AccessWrite (path_of (lit ''/a''))]"
  let ?q = "path_of (lit ''/a/b/c'')"
  have "fs_kind ?policy = FsRestricted" by (simp add: restricted_def)
  moreover have "resolve_candidate_path plain_env ?q [RootDir] = Some ?q" by code_simp
  moreover have "resolve_access_with_cwd plain_env ?policy ?q [RootDir] = AccessRead" by code_simp
  ultimately show ?thesis
    using access_is_most_specific [of ?policy plain_env ?q "[RootDir]" ?q] by (simp add: Let_def)
qed

text \<open>Full disk access means every path: a policy that reports full write access (in any of its forms, narrowing
  entries and their overrides included) lets every absolute path be written, and one that reports full read
  access lets every absolute path be read.\<close>

lemma full_disk_access_means_every_path:
  assumes "policy_ok policy" and "abs_normal cwd" and "abs_normal p" and "path_is_dir env slash_tmp"
  shows "(has_full_disk_write_access policy \<longrightarrow> can_write_path_with_cwd env policy p cwd)
    \<and> (has_full_disk_read_access policy \<longrightarrow> can_read_path_with_cwd env policy p cwd)"
  using full_disk_write_access [OF _ assms] full_disk_read_access [OF _ assms(2,3)] by blast

subsection \<open>What the sandbox is handed\<close>

text \<open>C19: The writable roots handed to the platform sandbox, with their carve-outs, allow nothing that the policy
  forbids: on a file system without links, a path that one of the roots lets through is a path the policy lets be
  written.\<close>

theorem writable_roots_stay_within_policy:
  assumes "no_links env" and "env_ok env" and "policy_ok policy" and "abs_normal cwd" and "abs_normal p"
    and "r \<in> set (get_writable_roots_with_cwd env policy cwd)" and "is_path_writable r p"
  shows "can_write_path_with_cwd env policy p cwd"
  by (rule writable_root_within_policy [OF assms(1-4,6,7,5)])

theorem writable_roots_stay_within_policy_witness:
  "let policy = restricted [special_entry AccessWrite CurrentWorkingDirectory, exact_entry AccessRead (path_of (lit ''/w/keep''))];
       cwd = path_of (lit ''/w'')
   in get_writable_roots_with_cwd plain_env policy cwd
        = [\<lparr>wr_root = cwd, read_only_subpaths = [path_of (lit ''/w/.codex''), path_of (lit ''/w/keep'')]\<rparr>]
    \<and> can_write_path_with_cwd plain_env policy (path_of (lit ''/w/x'')) cwd"
proof -
  let ?policy = "restricted [special_entry AccessWrite CurrentWorkingDirectory, exact_entry AccessRead (path_of (lit ''/w/keep''))]"
  let ?cwd = "path_of (lit ''/w'')" and ?p = "path_of (lit ''/w/x'')"
  let ?r = "\<lparr>wr_root = ?cwd, read_only_subpaths = [path_of (lit ''/w/.codex''), path_of (lit ''/w/keep'')]\<rparr>"
  have roots: "get_writable_roots_with_cwd plain_env ?policy ?cwd = [?r]" by code_simp
  have paths: "?cwd = [RootDir, Normal (lit ''w'')]" "?p = [RootDir, Normal (lit ''w''), Normal (lit ''x'')]"
    "path_of (lit ''/w/keep'') = [RootDir, Normal (lit ''w''), Normal (lit ''keep'')]" by code_simp+
  have "abs_normal ?cwd" "abs_normal ?p" "policy_ok ?policy"
    by (simp_all add: paths abs_normal_def policy_ok_def restricted_def exact_entry_def special_entry_def file_system_path_ok_def)
  moreover have "is_path_writable ?r ?p" by code_simp
  ultimately show ?thesis
    using writable_roots_stay_within_policy [of plain_env ?policy ?cwd ?p ?r] plain_env_laws roots
    by (simp add: Let_def)
qed

text \<open>C20: The older policy survives every projection: turned into file system entries with or without a current
  directory, with the deny entries of another policy kept, or into a permission profile, and turned back with its
  own network setting, it is the policy it was (when it names no writable root twice).\<close>

theorem older_policy_survives_projection:
  assumes "roots_named_once env cwd p"
  shows "to_legacy_sandbox_policy env (from_legacy_sandbox_policy env p) (network_policy_of p) cwd = Inr p
    \<and> to_legacy_sandbox_policy env (from_legacy_sandbox_policy_for_cwd env p cwd) (network_policy_of p) cwd = Inr p
    \<and> to_legacy_sandbox_policy env (from_legacy_sandbox_policy_preserving_deny_entries env p cwd existing)
        (network_policy_of p) cwd = Inr p
    \<and> (\<exists>profile. profile_of_sandbox_policy env p = Some profile
        \<and> profile_to_legacy_sandbox_policy env profile cwd = Inr p)"
  using bridge_back [OF assms] profile_of_sandbox_policy_back [OF assms] by (simp add: projections_keep_writes)

theorem older_policy_survives_projection_witness:
  "to_legacy_sandbox_policy plain_env
     (from_legacy_sandbox_policy plain_env (WorkspaceWrite [path_of (lit ''/x'')] True True False)) NetworkEnabled [RootDir]
   = Inr (WorkspaceWrite [path_of (lit ''/x'')] True True False)"
proof -
  let ?p = "WorkspaceWrite [path_of (lit ''/x'')] True True False"
  have "roots_named_once plain_env [RootDir] ?p" by code_simp
  moreover have "network_policy_of ?p = NetworkEnabled" by code_simp
  ultimately show ?thesis using older_policy_survives_projection [of plain_env "[RootDir]" ?p] by simp
qed

text \<open>The file tools' deny matcher misses nothing that a deny entry decides: on a file system without links, a path
  that the policy does not let be read although an entry below the root covers it is denied by the matcher.\<close>

lemma denied_path_is_matched:
  assumes "no_links env" and "env_ok env" and "policy_ok policy" and "abs_normal cwd" and "abs_normal p"
    and "fs_kind policy = FsRestricted" and "\<not> can_read_path_with_cwd env policy p cwd"
    and "e \<in> set (resolved_entries_with_cwd env policy cwd)" and "covers_path e p" and "resolved_path e \<noteq> [RootDir]"
  shows "\<exists>m. new_read_deny_matcher env policy cwd = Some m \<and> is_read_denied env m p"
proof (cases rule: resolve_access_cases [OF assms(6) abs_normal_candidate [OF assms(5)], case_names uncovered winner, of env cwd])
  case uncovered
  with assms(8,9) show ?thesis by blast
next
  case (winner w)
  have "resolved_path w \<noteq> [RootDir]"
  proof
    assume root: "resolved_path w = [RootDir]"
    have "abs_normal (resolved_path e)"
      using resolved_entries_abs [OF assms(2,3) _ assms(8)] abs_normal_root_once [OF assms(4)] by blast
    with assms(10) have "1 < length (resolved_path e)" by (auto simp: abs_normal_def neq_Nil_conv)
    with winner(3) [OF assms(8,9)] root show False by (simp add: precedence_le_iff)
  qed
  moreover have "resolved_access w = AccessNone"
    using assms(7) winner(4) by (simp add: can_read_path_with_cwd_def access_can_read_def)
  ultimately show ?thesis
    using deny_entry_is_matched [OF assms(1-6) winner(1,2) _ _ winner(3)] by blast
qed

text \<open>C21: Every path the sandbox is handed is absolute and normalised: the roots that may be read, written or not read,
  and the carve-outs of the writable ones, git directories named by pointer files included.\<close>

theorem sandbox_paths_are_absolute:
  assumes "env_ok env" and "policy_ok policy" and "root_once cwd"
    and "q \<in> set (get_readable_roots_with_cwd env policy cwd) \<union> set (get_unreadable_roots_with_cwd env policy cwd)
      \<union> (\<Union>r\<in>set (get_writable_roots_with_cwd env policy cwd). insert (wr_root r) (set (read_only_subpaths r)))"
  shows "abs_normal q"
  using other_roots_abs [OF assms(1-3)] writable_root_paths_abs [OF assms(1-3)] assms(4) by blast

theorem sandbox_paths_are_absolute_witness:
  "abs_normal (hd (get_readable_roots_with_cwd plain_env (restricted [special_entry AccessRead CurrentWorkingDirectory]) [ParentDir]))"
proof -
  let ?policy = "restricted [special_entry AccessRead CurrentWorkingDirectory]"
  have "get_readable_roots_with_cwd plain_env ?policy [ParentDir] = [[RootDir]]" by code_simp
  moreover have "policy_ok ?policy" by (simp add: policy_ok_def restricted_def special_entry_def file_system_path_ok_def)
  moreover have "root_once [ParentDir]" by (simp add: root_once_def)
  ultimately show ?thesis
    using sandbox_paths_are_absolute [OF plain_env_laws(1), of ?policy "[ParentDir]" "[RootDir]"] by simp
qed

subsection \<open>What a grant gives\<close>

text \<open>C22: A grant stays within the request: whatever the intersection of a grant with a request lets be read, the
  request itself lets be read, its deny entries included, and what it lets be written lies below a path that the
  request lets be written.\<close>

theorem granted_permissions_stay_within_request:
  assumes "env_ok env" and "abs_normal cwd" and "abs_normal q"
    and "policy_ok (restricted (perm_entries requested))" and "policy_ok (restricted (perm_entries granted))"
  defines "kept \<equiv> restricted (perm_entries (intersect_file_system env requested granted cwd))"
  shows "(can_read_path_with_cwd env kept q cwd
      \<longrightarrow> can_read_path_with_cwd env (restricted (perm_entries requested)) q cwd)
    \<and> (can_write_path_with_cwd env kept q cwd
      \<longrightarrow> (\<exists>p. path_starts_with q p \<and> can_write_path_with_cwd env (restricted (perm_entries requested)) p cwd))"
  unfolding kept_def
  using readable_within_request [OF assms(1-5)] writable_below_request [OF assms(1-3)] by blast

theorem granted_permissions_stay_within_request_witness:
  "let requested = \<lparr>perm_entries = [exact_entry AccessWrite (path_of (lit ''/a'')), exact_entry AccessNone (path_of (lit ''/a/k''))],
         perm_glob_depth = None\<rparr>;
       granted = \<lparr>perm_entries = [root_entry AccessWrite, exact_entry AccessRead (path_of (lit ''/a''))], perm_glob_depth = None\<rparr>;
       kept = restricted (perm_entries (intersect_file_system plain_env requested granted [RootDir]))
   in can_read_path_with_cwd plain_env kept (path_of (lit ''/a/x'')) [RootDir]
    \<and> can_read_path_with_cwd plain_env (restricted (perm_entries requested)) (path_of (lit ''/a/x'')) [RootDir]"
proof -
  let ?requested = "\<lparr>perm_entries = [exact_entry AccessWrite (path_of (lit ''/a'')), exact_entry AccessNone (path_of (lit ''/a/k''))],
         perm_glob_depth = None\<rparr>"
  let ?granted = "\<lparr>perm_entries = [root_entry AccessWrite, exact_entry AccessRead (path_of (lit ''/a''))], perm_glob_depth = None\<rparr>"
  let ?q = "path_of (lit ''/a/x'')"
  have paths: "?q = [RootDir, Normal (lit ''a''), Normal (lit ''x'')]" "path_of (lit ''/a'') = [RootDir, Normal (lit ''a'')]"
    "path_of (lit ''/a/k'') = [RootDir, Normal (lit ''a''), Normal (lit ''k'')]" by code_simp+
  have ok: "abs_normal ?q" "policy_ok (restricted (perm_entries ?requested))" "policy_ok (restricted (perm_entries ?granted))"
    by (simp_all add: paths abs_normal_def policy_ok_def restricted_def exact_entry_def root_entry_def file_system_path_ok_def)
  have "can_read_path_with_cwd plain_env
      (restricted (perm_entries (intersect_file_system plain_env ?requested ?granted [RootDir]))) ?q [RootDir]" by code_simp
  with granted_permissions_stay_within_request [OF plain_env_laws(1) abs_normal_root ok] show ?thesis
    unfolding Let_def by blast
qed

subsection \<open>Patches\<close>

text \<open>C23: A patch that is applied without asking is aimed inside the writable paths: when a verified patch whose hunks
  name pairwise different paths is approved automatically (and the settings do not approve everything), every file
  whose text applying it changes, successfully or not, is reached through a source or destination of the patch that the
  policy lets be written, as that path itself or as a path linked to it; and it runs in the platform sandbox unless the
  settings turn sandboxing off. So a file outside the writable paths can change only when a writable path of the patch
  is a hard or symbolic link to it, the case the sandbox is kept for. The file system is relied on as for C5, the home
  and working directories are absolute.\<close>

theorem auto_approved_patch_is_contained:
  assumes "fs_local linked fs" and "pred_option abs_normal home" and "abs_normal wd"
    and "targets_distinct home wd hs"
    and "collect_changes diff fs home wd s hs Map.empty = Inr (action_changes action)"
    and "assess_patch_safety env os action policy sandbox_policy fs_policy cwd level = AutoApprove st explicit"
    and "policy \<noteq> OnFailure"
    and "fs_text fs q (snd (apply_hunks_to_files fs home wd hs s)) \<noteq> fs_text fs q s"
  shows "(\<exists>h\<in>set hs. \<exists>p\<in>set (hunk_targets home wd h). can_write_path_with_cwd env fs_policy p cwd \<and> linked s p q)
    \<and> (st = SandboxNone \<longleftrightarrow> sandbox_policy = DangerFullAccess \<or> (\<exists>n. sandbox_policy = ExternalSandbox n))"
  using approved_patch_is_contained [OF assms] auto_approved_sandbox [OF assms(6)] by blast

text \<open>The instance has the hard link: \<open>/w/a\<close> and \<open>/out\<close> are one file, and only \<open>/w\<close> may be written.\<close>

theorem auto_approved_patch_is_contained_witness:
  "let policy = restricted [exact_entry AccessWrite (path_of (lit ''/w''))];
       s = ([(path_of (lit ''/w/a''), 0), (path_of (lit ''/out''), 0)], \<lambda>_. []) in
   (\<exists>p. can_write_path_with_cwd plain_env policy p (path_of (lit ''/w'')) \<and> hard_linked s p (path_of (lit ''/out'')))
   \<and> \<not> can_write_path_with_cwd plain_env policy (path_of (lit ''/out'')) (path_of (lit ''/w''))"
proof -
  let ?wd = "[RootDir, Normal (lit ''w'')]" and ?a = "[RootDir, Normal (lit ''w''), Normal (lit ''a'')]"
    and ?out = "[RootDir, Normal (lit ''out'')]"
  let ?hs = "[AddFile (lit ''a'') (lit ''x'' @ [nl])]" and ?policy = "restricted [exact_entry AccessWrite ?wd]"
  let ?action = "\<lparr>action_changes = [?a \<mapsto> Add (lit ''x'' @ [nl])], action_patch = [], action_cwd = ?wd\<rparr>"
  let ?s = "([(?a, 0), (?out, 0)], \<lambda>_. []) :: link_state"
  have paths: "path_of (lit ''/w'') = ?wd" "path_of (lit ''/w/a'') = ?a" "path_of (lit ''/out'') = ?out" by code_simp+
  have p: "hunk_resolve_path None ?wd (AddFile (lit ''a'') (lit ''x'' @ [nl])) = ?a" by code_simp
  have d: "targets_distinct None ?wd ?hs" by (simp add: targets_distinct_def hunk_targets_def)
  have c: "collect_changes (\<lambda>_ _ _. []) link_fs None ?wd ?s ?hs Map.empty = Inr (action_changes ?action)"
    by (simp add: hunk_change_def p)
  have w: "patch_path_is_writable plain_env ?policy ?wd ?a" by code_simp
  have a: "assess_patch_safety plain_env Linux ?action Never (WorkspaceWrite [] False True True) ?policy ?wd WindowsDisabled
      = AutoApprove LinuxSeccomp False"
    by (simp add: assess_patch_safety_def action_is_empty_def is_write_patch_constrained_to_writable_paths_def w
        get_platform_sandbox_def)
  have changed: "fs_text link_fs ?out (snd (apply_hunks_to_files link_fs None ?wd ?hs ?s)) \<noteq> fs_text link_fs ?out ?s"
    by code_simp
  have out: "\<not> can_write_path_with_cwd plain_env ?policy ?out ?wd" by code_simp
  have "abs_normal ?wd" by (simp add: abs_normal_def)
  from auto_approved_patch_is_contained [OF link_fs_laws(1) _ this d c a _ changed]
  have "\<exists>p. can_write_path_with_cwd plain_env ?policy p ?wd \<and> hard_linked ?s p ?out" by auto
  with out show ?thesis unfolding Let_def paths by blast
qed

end
