(* ===== verification/Head_Tail_Buffer.thy ===== *)
theory Head_Tail_Buffer
  imports Prelude
begin

section \<open>The output of a running command (core: unified\_exec/head\_tail\_buffer.rs)\<close>

text \<open>
  The buffer that keeps the first and the last bytes of an output. The counters are \<open>usize\<close>
  values of the 64 bit build with the saturating operations of the source; the elements of the
  chunks do not matter. The buffer refines the plain log of everything pushed since it was last
  drained: \<open>holds\<close> says which parts of the log it keeps.
\<close>

subsection \<open>HeadTailBuffer\<close>

record 'a head_tail_buffer =
  max_bytes :: nat
  head_budget :: nat
  tail_budget :: nat
  buf_head :: "'a list list"
  buf_tail :: "'a list list"
  head_bytes :: nat
  tail_bytes :: nat
  omitted_bytes :: nat

definition UNIFIED_EXEC_OUTPUT_MAX_BYTES :: nat where
  "UNIFIED_EXEC_OUTPUT_MAX_BYTES = 1024 * 1024"

definition buffer_new :: "nat \<Rightarrow> 'a head_tail_buffer" where
  "buffer_new limit =
    (let head_part = limit div 2; tail_part = limit - head_part
     in \<lparr>max_bytes = limit, head_budget = head_part, tail_budget = tail_part,
         buf_head = [], buf_tail = [], head_bytes = 0, tail_bytes = 0, omitted_bytes = 0\<rparr>)"

definition buffer_default :: "'a head_tail_buffer" where
  "buffer_default = buffer_new UNIFIED_EXEC_OUTPUT_MAX_BYTES"

definition retained_bytes :: "'a head_tail_buffer \<Rightarrow> nat" where
  "retained_bytes b = sat_add (head_bytes b) (tail_bytes b)"

fun trim_loop :: "nat \<Rightarrow> 'a list list \<Rightarrow> nat \<Rightarrow> nat \<Rightarrow> 'a list list \<times> nat \<times> nat" where
  "trim_loop excess [] bytes omitted = ([], bytes, omitted)"
| "trim_loop excess (front # rest) bytes omitted =
    (if excess = 0 then (front # rest, bytes, omitted)
     else if length front \<le> excess then
       trim_loop (excess - length front) rest (bytes - length front) (sat_add omitted (length front))
     else (drop excess front # rest, bytes - excess, sat_add omitted excess))"

definition trim_tail_to_budget :: "'a head_tail_buffer \<Rightarrow> 'a head_tail_buffer" where
  "trim_tail_to_budget b =
    (case trim_loop (tail_bytes b - tail_budget b) (buf_tail b) (tail_bytes b) (omitted_bytes b) of
       (tail, bytes, omitted) \<Rightarrow> b\<lparr>buf_tail := tail, tail_bytes := bytes, omitted_bytes := omitted\<rparr>)"

definition push_to_tail :: "'a list \<Rightarrow> 'a head_tail_buffer \<Rightarrow> 'a head_tail_buffer" where
  "push_to_tail chunk b =
    (if tail_budget b = 0 then b\<lparr>omitted_bytes := sat_add (omitted_bytes b) (length chunk)\<rparr>
     else if tail_budget b \<le> length chunk then
       (let kept = drop (length chunk - tail_budget b) chunk;
            dropped = length chunk - length kept
        in b\<lparr>omitted_bytes := sat_add (sat_add (omitted_bytes b) (tail_bytes b)) dropped,
             buf_tail := [kept], tail_bytes := length kept\<rparr>)
     else trim_tail_to_budget
       (b\<lparr>tail_bytes := sat_add (tail_bytes b) (length chunk), buf_tail := buf_tail b @ [chunk]\<rparr>))"

definition push_chunk :: "'a list \<Rightarrow> 'a head_tail_buffer \<Rightarrow> 'a head_tail_buffer" where
  "push_chunk chunk b =
    (if max_bytes b = 0 then b\<lparr>omitted_bytes := sat_add (omitted_bytes b) (length chunk)\<rparr>
     else if head_bytes b < head_budget b then
       (let remaining_head = head_budget b - head_bytes b in
        if length chunk \<le> remaining_head then
          b\<lparr>head_bytes := sat_add (head_bytes b) (length chunk), buf_head := buf_head b @ [chunk]\<rparr>
        else
          (let head_part = take remaining_head chunk; tail_part = drop remaining_head chunk;
               b' = (if head_part \<noteq> [] then
                       b\<lparr>head_bytes := sat_add (head_bytes b) (length head_part), buf_head := buf_head b @ [head_part]\<rparr>
                     else b)
           in push_to_tail tail_part b'))
     else push_to_tail chunk b)"

definition snapshot_chunks :: "'a head_tail_buffer \<Rightarrow> 'a list list" where
  "snapshot_chunks b = buf_head b @ buf_tail b"

definition to_bytes :: "'a head_tail_buffer \<Rightarrow> 'a list" where
  "to_bytes b = concat (buf_head b) @ concat (buf_tail b)"

definition drain_chunks :: "'a head_tail_buffer \<Rightarrow> 'a list list \<times> 'a head_tail_buffer" where
  "drain_chunks b = (buf_head b @ buf_tail b,
     b\<lparr>buf_head := [], buf_tail := [], head_bytes := 0, tail_bytes := 0, omitted_bytes := 0\<rparr>)"

subsection \<open>The log behind the buffer\<close>

definition last_bytes :: "nat \<Rightarrow> 'a list \<Rightarrow> 'a list" where
  "last_bytes n xs = drop (length xs - n) xs"

lemma last_bytes_append:
  "last_bytes n (last_bytes n xs @ ys) = last_bytes n (xs @ ys)"
  by (cases "length xs \<le> n") (auto simp: last_bytes_def add.commute)

lemma length_last_bytes [simp]: "length (last_bytes n xs) = min n (length xs)"
  by (simp add: last_bytes_def)

definition holds :: "nat \<Rightarrow> 'a list \<Rightarrow> 'a head_tail_buffer \<Rightarrow> bool" where
  "holds m log b \<longleftrightarrow>
     max_bytes b = m \<and> head_budget b = m div 2 \<and> tail_budget b = m - m div 2
   \<and> concat (buf_head b) = take (m div 2) log
   \<and> concat (buf_tail b) = last_bytes (m - m div 2) (drop (m div 2) log)
   \<and> head_bytes b = length (concat (buf_head b)) \<and> tail_bytes b = length (concat (buf_tail b))
   \<and> omitted_bytes b = min (length log - m) USIZE_MAX"

lemma trim_loop_drops:
  "\<lbrakk>excess \<le> length (concat tail); trim_loop excess tail bytes omitted = (tail', bytes', omitted')\<rbrakk> \<Longrightarrow>
     concat tail' = drop excess (concat tail) \<and> bytes' = bytes - excess
     \<and> min omitted' USIZE_MAX = min (omitted + excess) USIZE_MAX \<and> (omitted \<le> USIZE_MAX \<longrightarrow> omitted' \<le> USIZE_MAX)"
proof (induction excess tail bytes omitted rule: trim_loop.induct)
  case (2 excess front rest bytes omitted)
  show ?case
  proof (cases "length front \<le> excess \<and> excess \<noteq> 0")
    case False
    show ?thesis
    proof (cases "excess = 0")
      case True
      with "2.prems" show ?thesis by simp
    next
      case False': False
      with False have "excess < length front" by auto
      with False' "2.prems" show ?thesis by (auto simp: sat_add_def)
    qed
  next
    case True
    with "2.prems" "2.IH" have "concat tail' = drop (excess - length front) (concat rest)"
      "bytes' = bytes - length front - (excess - length front)"
      "min omitted' USIZE_MAX = min (sat_add omitted (length front) + (excess - length front)) USIZE_MAX"
      "sat_add omitted (length front) \<le> USIZE_MAX \<longrightarrow> omitted' \<le> USIZE_MAX" by auto
    with True show ?thesis by (auto simp: sat_add_def)
  qed
qed simp

lemma push_to_tail_spec:
  assumes "buf_tail b = tail" and "concat tail = last_bytes t rest" and "tail_bytes b = min t (length rest)"
    and "omitted_bytes b = min (length rest - t) USIZE_MAX" and "tail_budget b = t" and "0 < t" and "2 * t \<le> USIZE_MAX + 1"
  shows "\<exists>tail'. concat tail' = last_bytes t (rest @ chunk)
    \<and> push_to_tail chunk b = b\<lparr>buf_tail := tail', tail_bytes := min t (length rest + length chunk),
        omitted_bytes := min (length rest + length chunk - t) USIZE_MAX\<rparr>"
proof (cases "t \<le> length chunk")
  case True
  let ?kept = "drop (length chunk - t) chunk"
  have "sat_add (sat_add (omitted_bytes b) (tail_bytes b)) (length chunk - t)
      = min (length rest - t + min t (length rest) + (length chunk - t)) USIZE_MAX"
    by (simp only: assms sat_add_sat)
  also have "length rest - t + min t (length rest) + (length chunk - t) = length rest + length chunk - t"
    using True by simp
  finally have o: "sat_add (sat_add (omitted_bytes b) (tail_bytes b)) (length chunk - t)
      = min (length rest + length chunk - t) USIZE_MAX" .
  have "length chunk - length ?kept = length chunk - t" "length ?kept = min t (length rest + length chunk)"
    using True by simp_all
  with o True assms(5,6) have "push_to_tail chunk b = b\<lparr>buf_tail := [?kept], tail_bytes := min t (length rest + length chunk),
        omitted_bytes := min (length rest + length chunk - t) USIZE_MAX\<rparr>"
    by (simp add: push_to_tail_def Let_def)
  moreover have "concat [?kept] = last_bytes t (rest @ chunk)" using True by (simp add: last_bytes_def)
  ultimately show ?thesis by blast
next
  case False
  define bytes where "bytes = min t (length rest) + length chunk"
  have sum: "sat_add (tail_bytes b) (length chunk) = bytes"
    unfolding bytes_def assms(3) using False assms(7) by (intro sat_add_id) linarith
  obtain tail' bytes' omitted' where trim:
    "trim_loop (bytes - t) (tail @ [chunk]) bytes (omitted_bytes b) = (tail', bytes', omitted')"
    by (metis prod_cases3)
  have len: "length (concat (tail @ [chunk])) = bytes" by (simp add: assms(2) bytes_def)
  have d: "concat tail' = drop (bytes - t) (last_bytes t rest @ chunk)" and n: "bytes' = bytes - (bytes - t)"
    and o: "min omitted' USIZE_MAX = min (omitted_bytes b + (bytes - t)) USIZE_MAX" "omitted' \<le> USIZE_MAX"
    using trim_loop_drops [OF _ trim] len assms(2,4) by simp_all
  have "concat tail' = last_bytes t (last_bytes t rest @ chunk)"
    unfolding d by (simp add: last_bytes_def [of t "last_bytes t rest @ chunk"] bytes_def)
  then have "concat tail' = last_bytes t (rest @ chunk)" by (simp only: last_bytes_append)
  moreover have "bytes' = min t (length rest + length chunk)" unfolding n bytes_def by linarith
  moreover have "omitted' = min (length rest + length chunk - t) USIZE_MAX"
    using o False unfolding assms(4) bytes_def by linarith
  ultimately show ?thesis
    using False assms(1,5,6) trim sum
    by (intro exI [of _ tail']) (simp add: push_to_tail_def trim_tail_to_budget_def)
qed

lemma holds_push_to_tail:
  assumes "holds m log b" and "m \<le> USIZE_MAX" and "m div 2 \<le> length log" and "m \<noteq> 0"
  shows "holds m (log @ chunk) (push_to_tail chunk b)"
proof -
  define h where "h = m div 2"
  define t where "t = m - h"
  define R where "R = drop h log"
  have t: "0 < t" "2 * t \<le> USIZE_MAX + 1" "m = h + t"
    using assms(2,4) unfolding t_def h_def by linarith+
  have hl: "h \<le> length log" using assms(3) by (simp add: h_def)
  then have len: "length log = h + length R" by (simp add: R_def)
  note b = assms(1) [unfolded holds_def, folded h_def, folded t_def, folded R_def]
  have "length log - m = length R - t" unfolding len t(3) by simp
  with b have "concat (buf_tail b) = last_bytes t R" "tail_bytes b = min t (length R)"
    "omitted_bytes b = min (length R - t) USIZE_MAX" "tail_budget b = t" by simp_all
  from push_to_tail_spec [OF refl this t(1,2), of chunk]
  obtain tail' where c: "concat tail' = last_bytes t (R @ chunk)" and
    p: "push_to_tail chunk b = b\<lparr>buf_tail := tail', tail_bytes := min t (length R + length chunk),
        omitted_bytes := min (length R + length chunk - t) USIZE_MAX\<rparr>" by blast
  have d: "drop h (log @ chunk) = R @ chunk" "take h (log @ chunk) = take h log" using hl by (simp_all add: R_def)
  have o: "length (log @ chunk) - m = length R + length chunk - t" unfolding t(3) by (simp add: len)
  show ?thesis
    unfolding holds_def h_def [symmetric] t_def [symmetric] d o p using b c by simp
qed

lemma holds_push_chunk:
  assumes "holds m log b" and "m \<le> USIZE_MAX"
  shows "holds m (log @ chunk) (push_chunk chunk b)"
proof (cases "m = 0")
  case True
  have "sat_add (min (length log) USIZE_MAX) (length chunk) = min (length log + length chunk) USIZE_MAX"
    by (rule sat_add_sat)
  with assms(1) True show ?thesis by (simp add: holds_def push_chunk_def last_bytes_def)
next
  case m: False
  define h where "h = m div 2"
  define t where "t = m - h"
  have h: "h \<le> m" "h \<le> USIZE_MAX" "t \<noteq> 0" using m assms(2) unfolding h_def t_def by linarith+
  note b = assms(1) [unfolded holds_def, folded h_def, folded t_def]
  have bm: "max_bytes b = m" and bh: "head_budget b = h" using b by blast+
  have c: "concat (buf_head b) = take h log" and "head_bytes b = length (concat (buf_head b))" using b by blast+
  then have hb: "head_bytes b = min (length log) h" by (simp only: length_take)
  have o: "omitted_bytes b = min (length log - m) USIZE_MAX" using b by blast
  show ?thesis
  proof (cases "length log < h")
    case False
    have "max_bytes b \<noteq> 0" "\<not> head_bytes b < head_budget b" unfolding hb bh bm using False m by simp_all
    then have "push_chunk chunk b = push_to_tail chunk b" by (simp add: push_chunk_def)
    with holds_push_to_tail [OF assms _ m] False show ?thesis by (simp add: h_def)
  next
    case short: True
    then have hb': "head_bytes b = length log" "head_bytes b < head_budget b" unfolding hb bh by simp_all
    show ?thesis
    proof (cases "length chunk \<le> h - length log")
      case True
      with short h have "sat_add (length log) (length chunk) = length log + length chunk"
        by (intro sat_add_id) linarith
      with True hb' m bm bh have p: "push_chunk chunk b
          = b\<lparr>head_bytes := length log + length chunk, buf_head := buf_head b @ [chunk]\<rparr>"
        by (simp add: push_chunk_def Let_def)
      from True short h have "length log - m = 0" "length (log @ chunk) - m = 0" by simp_all
      with True short b show ?thesis
        unfolding p holds_def h_def [symmetric] t_def [symmetric] by (simp add: last_bytes_def)
    next
      case False
      define k where "k = h - length log"
      define b' where "b' = b\<lparr>head_bytes := h, buf_head := buf_head b @ [take k chunk]\<rparr>"
      have k: "0 < k" "length log + k = h" "k < length chunk" using short False unfolding k_def by simp_all
      have "sat_add (length log) (length (take k chunk)) = h"
        using k h by (subst sat_add_id) simp_all
      with k bm bh hb' m have p: "push_chunk chunk b = push_to_tail (drop k chunk) b'"
        by (auto simp add: push_chunk_def Let_def b'_def)
      have "length log - m = 0" "length (log @ take k chunk) - m = 0" using k h by simp_all
      with k b have "holds m (log @ take k chunk) b'"
        unfolding b'_def holds_def h_def [symmetric] t_def [symmetric] by (simp add: last_bytes_def k_def)
      moreover have "m div 2 \<le> length (log @ take k chunk)" using k by (simp add: h_def [symmetric])
      ultimately have "holds m ((log @ take k chunk) @ drop k chunk) (push_to_tail (drop k chunk) b')"
        using assms(2) m by (intro holds_push_to_tail)
      then show ?thesis unfolding p by simp
    qed
  qed
qed

lemma holds_new: "holds m [] (buffer_new m)"
  by (simp add: holds_def buffer_new_def Let_def last_bytes_def)

lemma holds_drain:
  assumes "holds m log b"
  shows "holds m [] (snd (drain_chunks b))"
  using assms by (simp add: holds_def drain_chunks_def last_bytes_def)

subsection \<open>Histories of pushes and drains\<close>

datatype 'a buffer_op = Push "'a list" | Drain

fun run_op :: "'a buffer_op \<Rightarrow> 'a head_tail_buffer \<Rightarrow> 'a head_tail_buffer" where
  "run_op (Push chunk) b = push_chunk chunk b"
| "run_op Drain b = snd (drain_chunks b)"

fun log_after :: "'a buffer_op \<Rightarrow> 'a list \<Rightarrow> 'a list" where
  "log_after (Push chunk) log = log @ chunk"
| "log_after Drain log = []"

definition run_ops :: "nat \<Rightarrow> 'a buffer_op list \<Rightarrow> 'a head_tail_buffer" where
  "run_ops m ops = fold run_op ops (buffer_new m)"

definition log_of :: "'a buffer_op list \<Rightarrow> 'a list" where
  "log_of ops = fold log_after ops []"

lemma holds_fold:
  "\<lbrakk>holds m log b; m \<le> USIZE_MAX\<rbrakk> \<Longrightarrow> holds m (fold log_after ops log) (fold run_op ops b)"
proof (induction ops arbitrary: log b)
  case (Cons op ops)
  then have "holds m (log_after op log) (run_op op b)"
    by (cases op) (simp_all add: holds_push_chunk holds_drain)
  with Cons show ?case by simp
qed simp

lemma holds_run_ops: "m \<le> USIZE_MAX \<Longrightarrow> holds m (log_of ops) (run_ops m ops)"
  by (simp add: holds_fold holds_new log_of_def run_ops_def)

lemma holds_to_bytes:
  assumes "holds m log b"
  shows "to_bytes b = (if length log \<le> m then log else take (m div 2) log @ last_bytes (m - m div 2) log)"
proof -
  define h where "h = m div 2"
  define t where "t = m - h"
  have t: "m = h + t" unfolding t_def h_def by simp
  have e: "to_bytes b = take h log @ last_bytes t (drop h log)"
    using assms by (simp add: to_bytes_def holds_def h_def t_def)
  show ?thesis
  proof (cases "length log \<le> m")
    case True
    then have "length (drop h log) - t = 0" by (simp add: t)
    then have "last_bytes t (drop h log) = drop h log" by (simp add: last_bytes_def)
    with True e show ?thesis by simp
  next
    case False
    then have "length (drop h log) - t + h = length log - t" by (simp add: t)
    then have "last_bytes t (drop h log) = last_bytes t log" by (simp add: last_bytes_def add.commute)
    with False e show ?thesis by (simp add: t_def h_def)
  qed
qed

lemma holds_counts:
  assumes "holds m log b" and "m \<le> USIZE_MAX"
  shows "retained_bytes b = length (to_bytes b) \<and> retained_bytes b \<le> m
    \<and> omitted_bytes b = min (length log - m) USIZE_MAX"
proof -
  define h where "h = m div 2"
  define t where "t = m - h"
  have t: "m = h + t" unfolding t_def h_def by simp
  note b = assms(1) [unfolded holds_def, folded h_def, folded t_def]
  from b have l: "head_bytes b + tail_bytes b = length (to_bytes b)" by (simp add: to_bytes_def)
  from b have "head_bytes b \<le> h" "tail_bytes b \<le> t" by simp_all
  then have "head_bytes b + tail_bytes b \<le> m" by (simp add: t)
  with l b assms(2) show ?thesis by (simp add: retained_bytes_def sat_add_id)
qed

lemma concat_snapshot: "concat (snapshot_chunks b) = to_bytes b"
  by (simp add: snapshot_chunks_def to_bytes_def)

end
