(* ===== verification/Response_Items.thy ===== *)
theory Response_Items
  imports Prelude
begin

section \<open>Items of a conversation (protocol/src/models.rs)\<close>

text \<open>
  The items a thread's history holds and the payloads of tool outputs. A JSON value of a tool
  (\<open>serde_json::Value\<close>) is of a type \<open>'j\<close> the model does not look into.
\<close>

datatype image_detail = AutoDetail | LowDetail | HighDetail | OriginalDetail

datatype content_item =
    InputText ustr
  | InputImage ustr "image_detail option"
  | OutputText ustr

datatype output_content_item =
    ItemText ustr
  | ItemImage ustr "image_detail option"

datatype output_body = BodyText ustr | BodyItems "output_content_item list"

record output_payload =
  body :: output_body
  success :: "bool option"

definition payload_from_text :: "ustr \<Rightarrow> output_payload" where
  "payload_from_text content = \<lparr>body = BodyText content, success = None\<rparr>"

definition payload_from_content_items :: "output_content_item list \<Rightarrow> output_payload" where
  "payload_from_content_items content_items = \<lparr>body = BodyItems content_items, success = None\<rparr>"

fun content_items_text :: "output_content_item list \<Rightarrow> ustr list" where
  "content_items_text [] = []"
| "content_items_text (ItemText t # items) = t # content_items_text items"
| "content_items_text (ItemImage u d # items) = content_items_text items"

definition function_call_output_content_items_to_text :: "output_content_item list \<Rightarrow> ustr option" where
  "function_call_output_content_items_to_text items =
    (let text_segments = filter (\<lambda>t. trim t \<noteq> []) (content_items_text items)
     in if text_segments = [] then None else Some (join_with [nl] text_segments))"

fun body_to_text :: "output_body \<Rightarrow> ustr option" where
  "body_to_text (BodyText content) = Some content"
| "body_to_text (BodyItems items) = function_call_output_content_items_to_text items"

definition text_content :: "output_payload \<Rightarrow> ustr option" where
  "text_content p = (case body p of BodyText content \<Rightarrow> Some content | BodyItems _ \<Rightarrow> None)"

definition content_items :: "output_payload \<Rightarrow> output_content_item list option" where
  "content_items p = (case body p of BodyText _ \<Rightarrow> None | BodyItems items \<Rightarrow> Some items)"

datatype message_phase = Commentary | FinalAnswer

datatype local_shell_status = ShellCompleted | ShellInProgress | ShellIncomplete

record local_shell_exec_action =
  shell_command :: "ustr list"
  shell_timeout_ms :: "nat option"
  shell_working_directory :: "ustr option"
  shell_env :: "(ustr \<rightharpoonup> ustr) option"
  shell_user :: "ustr option"

datatype local_shell_action = ExecAction local_shell_exec_action

datatype web_search_action =
    SearchAction "ustr option" "ustr list option"
  | OpenPage "ustr option"
  | FindInPage "ustr option" "ustr option"
  | OtherAction

datatype reasoning_summary = SummaryText ustr

datatype reasoning_content = ReasoningText ustr | PlainText ustr

record ghost_commit =
  ghost_id :: ustr
  ghost_parent :: "ustr option"
  preexisting_untracked_files :: "ustr list"
  preexisting_untracked_dirs :: "ustr list"

text \<open>
  The fields are in the order of the source: \<open>Message id role content end_turn phase\<close>,
  \<open>Reasoning id summary content encrypted_content\<close>, \<open>LocalShellCall id call_id status action\<close>,
  \<open>FunctionCall id name namespace arguments call_id\<close>, \<open>ToolSearchCall id call_id status execution
  arguments\<close>, \<open>CustomToolCall id status call_id name input\<close>, \<open>CustomToolCallOutput call_id name
  output\<close>, \<open>ToolSearchOutput call_id status execution tools\<close>, \<open>ImageGenerationCall id status
  revised_prompt result\<close>.
\<close>

datatype 'j response_item =
    Message "ustr option" ustr "content_item list" "bool option" "message_phase option"
  | Reasoning ustr "reasoning_summary list" "reasoning_content list option" "ustr option"
  | LocalShellCall "ustr option" "ustr option" local_shell_status local_shell_action
  | FunctionCall "ustr option" ustr "ustr option" ustr ustr
  | ToolSearchCall "ustr option" "ustr option" "ustr option" ustr 'j
  | FunctionCallOutput ustr output_payload
  | CustomToolCall "ustr option" "ustr option" ustr ustr ustr
  | CustomToolCallOutput ustr "ustr option" output_payload
  | ToolSearchOutput "ustr option" ustr ustr "'j list"
  | WebSearchCall "ustr option" "ustr option" "web_search_action option"
  | ImageGenerationCall ustr ustr "ustr option" ustr
  | GhostSnapshot ghost_commit
  | Compaction ustr
  | OtherItem

datatype input_modality = TextModality | ImageModality

end
