(* ===== verification/Context_Normalize.thy ===== *)
theory Context_Normalize
  imports Response_Items
begin

section \<open>Calls and their outputs (core: context\_manager/normalize.rs)\<close>

text \<open>
  The pass that makes a history acceptable to the model: every call has an output, every output a
  call. \<open>error_or_panic\<close> panics in debug builds and only logs in release builds: \<open>debug\<close> is
  \<open>cfg!(debug_assertions)\<close>, and a panic is \<open>None\<close>.
\<close>

definition error_or_panic :: "bool \<Rightarrow> unit option" where
  "error_or_panic debug = (if debug then None else Some ())"

subsection \<open>Missing outputs\<close>

fun is_function_output :: "ustr \<Rightarrow> 'j response_item \<Rightarrow> bool" where
  "is_function_output call_id (FunctionCallOutput existing _) = (existing = call_id)"
| "is_function_output call_id _ = False"

fun is_search_output :: "ustr \<Rightarrow> 'j response_item \<Rightarrow> bool" where
  "is_search_output call_id (ToolSearchOutput (Some existing) _ _ _) = (existing = call_id)"
| "is_search_output call_id _ = False"

fun is_custom_output :: "ustr \<Rightarrow> 'j response_item \<Rightarrow> bool" where
  "is_custom_output call_id (CustomToolCallOutput existing _ _) = (existing = call_id)"
| "is_custom_output call_id _ = False"

text \<open>What the loop's body pushes for one item, if anything.\<close>

fun missing_output :: "bool \<Rightarrow> 'j response_item list \<Rightarrow> 'j response_item \<Rightarrow> 'j response_item option option" where
  "missing_output debug items (FunctionCall _ _ _ _ call_id) =
    (if list_ex (is_function_output call_id) items then Some None
     else Some (Some (FunctionCallOutput call_id (payload_from_text (lit ''aborted'')))))"
| "missing_output debug items (ToolSearchCall _ (Some call_id) _ _ _) =
    (if list_ex (is_search_output call_id) items then Some None
     else Some (Some (ToolSearchOutput (Some call_id) (lit ''completed'') (lit ''client'') [])))"
| "missing_output debug items (CustomToolCall _ _ call_id _ _) =
    (if list_ex (is_custom_output call_id) items then Some None
     else map_option (\<lambda>_. Some (CustomToolCallOutput call_id None (payload_from_text (lit ''aborted''))))
       (error_or_panic debug))"
| "missing_output debug items (LocalShellCall _ (Some call_id) _ _) =
    (if list_ex (is_function_output call_id) items then Some None
     else map_option (\<lambda>_. Some (FunctionCallOutput call_id (payload_from_text (lit ''aborted''))))
       (error_or_panic debug))"
| "missing_output debug items _ = Some None"

fun collect_missing :: "bool \<Rightarrow> 'j response_item list \<Rightarrow> nat \<Rightarrow> 'j response_item list \<Rightarrow> (nat \<times> 'j response_item) list option" where
  "collect_missing debug items idx [] = Some []"
| "collect_missing debug items idx (item # rest) =
    (case missing_output debug items item of
       None \<Rightarrow> None
     | Some missing \<Rightarrow>
         map_option (\<lambda>more. (case missing of None \<Rightarrow> [] | Some output_item \<Rightarrow> [(idx, output_item)]) @ more)
           (collect_missing debug items (Suc idx) rest))"

definition insert_at :: "nat \<Rightarrow> 'a \<Rightarrow> 'a list \<Rightarrow> 'a list" where
  "insert_at i x xs = take i xs @ x # drop i xs"

definition ensure_call_outputs_present :: "bool \<Rightarrow> 'j response_item list \<Rightarrow> 'j response_item list option" where
  "ensure_call_outputs_present debug items =
    map_option (\<lambda>missing. fold (\<lambda>(idx, output_item) xs. insert_at (idx + 1) output_item xs) (rev missing) items)
      (collect_missing debug items 0 items)"

subsection \<open>Orphan outputs\<close>

fun function_call_id :: "'j response_item \<Rightarrow> ustr option" where
  "function_call_id (FunctionCall _ _ _ _ call_id) = Some call_id"
| "function_call_id _ = None"

fun tool_search_call_id :: "'j response_item \<Rightarrow> ustr option" where
  "tool_search_call_id (ToolSearchCall _ (Some call_id) _ _ _) = Some call_id"
| "tool_search_call_id _ = None"

fun local_shell_call_id :: "'j response_item \<Rightarrow> ustr option" where
  "local_shell_call_id (LocalShellCall _ (Some call_id) _ _) = Some call_id"
| "local_shell_call_id _ = None"

fun custom_tool_call_id :: "'j response_item \<Rightarrow> ustr option" where
  "custom_tool_call_id (CustomToolCall _ _ call_id _ _) = Some call_id"
| "custom_tool_call_id _ = None"

definition ids_of :: "('j response_item \<Rightarrow> ustr option) \<Rightarrow> 'j response_item list \<Rightarrow> ustr list" where
  "ids_of f items = List.map_filter f items"

definition has_match_or_panic :: "bool \<Rightarrow> bool \<Rightarrow> bool option" where
  "has_match_or_panic debug has_match =
    (if has_match then Some True else map_option (\<lambda>_. False) (error_or_panic debug))"

fun retain_item :: "bool \<Rightarrow> 'j response_item list \<Rightarrow> 'j response_item \<Rightarrow> bool option" where
  "retain_item debug items (FunctionCallOutput call_id _) =
    has_match_or_panic debug
      (call_id \<in> set (ids_of function_call_id items) \<or> call_id \<in> set (ids_of local_shell_call_id items))"
| "retain_item debug items (CustomToolCallOutput call_id _ _) =
    has_match_or_panic debug (call_id \<in> set (ids_of custom_tool_call_id items))"
| "retain_item debug items (ToolSearchOutput call_id _ execution _) =
    (if execution = lit ''server'' then Some True
     else (case call_id of
             Some call_id \<Rightarrow> has_match_or_panic debug (call_id \<in> set (ids_of tool_search_call_id items))
           | None \<Rightarrow> Some True))"
| "retain_item debug items _ = Some True"

fun retain_all :: "('a \<Rightarrow> bool option) \<Rightarrow> 'a list \<Rightarrow> 'a list option" where
  "retain_all f [] = Some []"
| "retain_all f (x # xs) =
    (case f x of None \<Rightarrow> None | Some keep \<Rightarrow> map_option (\<lambda>ys. if keep then x # ys else ys) (retain_all f xs))"

definition remove_orphan_outputs :: "bool \<Rightarrow> 'j response_item list \<Rightarrow> 'j response_item list option" where
  "remove_orphan_outputs debug items = retain_all (retain_item debug items) items"

subsection \<open>Removing the counterpart of an item\<close>

fun remove_first_matching :: "('a \<Rightarrow> bool) \<Rightarrow> 'a list \<Rightarrow> 'a list" where
  "remove_first_matching p [] = []"
| "remove_first_matching p (x # xs) = (if p x then xs else x # remove_first_matching p xs)"

fun remove_corresponding_for :: "'j response_item list \<Rightarrow> 'j response_item \<Rightarrow> 'j response_item list" where
  "remove_corresponding_for items (FunctionCall _ _ _ _ call_id) =
    remove_first_matching (is_function_output call_id) items"
| "remove_corresponding_for items (FunctionCallOutput call_id _) =
    (if list_ex (\<lambda>i. function_call_id i = Some call_id) items then
       remove_first_matching (\<lambda>i. function_call_id i = Some call_id) items
     else if list_ex (\<lambda>i. local_shell_call_id i = Some call_id) items then
       remove_first_matching (\<lambda>i. local_shell_call_id i = Some call_id) items
     else items)"
| "remove_corresponding_for items (ToolSearchCall _ (Some call_id) _ _ _) =
    remove_first_matching (is_search_output call_id) items"
| "remove_corresponding_for items (ToolSearchOutput (Some call_id) _ _ _) =
    remove_first_matching (\<lambda>i. tool_search_call_id i = Some call_id) items"
| "remove_corresponding_for items (CustomToolCall _ _ call_id _ _) =
    remove_first_matching (is_custom_output call_id) items"
| "remove_corresponding_for items (CustomToolCallOutput call_id _ _) =
    remove_first_matching (\<lambda>i. custom_tool_call_id i = Some call_id) items"
| "remove_corresponding_for items (LocalShellCall _ (Some call_id) _ _) =
    remove_first_matching (is_function_output call_id) items"
| "remove_corresponding_for items _ = items"

subsection \<open>Images the model does not accept\<close>

definition IMAGE_CONTENT_OMITTED_PLACEHOLDER :: ustr where
  "IMAGE_CONTENT_OMITTED_PLACEHOLDER = lit ''image content omitted because you do not support image input''"

fun strip_content_item :: "content_item \<Rightarrow> content_item" where
  "strip_content_item (InputImage _ _) = InputText IMAGE_CONTENT_OMITTED_PLACEHOLDER"
| "strip_content_item item = item"

fun strip_output_item :: "output_content_item \<Rightarrow> output_content_item" where
  "strip_output_item (ItemImage _ _) = ItemText IMAGE_CONTENT_OMITTED_PLACEHOLDER"
| "strip_output_item item = item"

definition strip_payload :: "output_payload \<Rightarrow> output_payload" where
  "strip_payload p = (case body p of BodyItems items \<Rightarrow> p\<lparr>body := BodyItems (map strip_output_item items)\<rparr> | BodyText _ \<Rightarrow> p)"

fun strip_item :: "'j response_item \<Rightarrow> 'j response_item" where
  "strip_item (Message i role content end_turn phase) = Message i role (map strip_content_item content) end_turn phase"
| "strip_item (FunctionCallOutput call_id p) = FunctionCallOutput call_id (strip_payload p)"
| "strip_item (CustomToolCallOutput call_id name p) = CustomToolCallOutput call_id name (strip_payload p)"
| "strip_item (ImageGenerationCall i status revised_prompt result) = ImageGenerationCall i status revised_prompt []"
| "strip_item item = item"

definition strip_images_when_unsupported :: "input_modality list \<Rightarrow> 'j response_item list \<Rightarrow> 'j response_item list" where
  "strip_images_when_unsupported input_modalities items =
    (if ImageModality \<in> set input_modalities then items else map strip_item items)"

definition normalize_items :: "bool \<Rightarrow> input_modality list \<Rightarrow> 'j response_item list \<Rightarrow> 'j response_item list option" where
  "normalize_items debug input_modalities items =
    (case ensure_call_outputs_present debug items of
       None \<Rightarrow> None
     | Some items \<Rightarrow> map_option (strip_images_when_unsupported input_modalities) (remove_orphan_outputs debug items))"

subsection \<open>Pairs\<close>

text \<open>A call and its output share a key: the kind of output that answers it, and the call id.\<close>

datatype call_kind = FunctionKind | SearchKind | CustomKind

fun call_key :: "'j response_item \<Rightarrow> (call_kind \<times> ustr) option" where
  "call_key (FunctionCall _ _ _ _ call_id) = Some (FunctionKind, call_id)"
| "call_key (LocalShellCall _ (Some call_id) _ _) = Some (FunctionKind, call_id)"
| "call_key (ToolSearchCall _ (Some call_id) _ _ _) = Some (SearchKind, call_id)"
| "call_key (CustomToolCall _ _ call_id _ _) = Some (CustomKind, call_id)"
| "call_key _ = None"

fun output_key :: "'j response_item \<Rightarrow> (call_kind \<times> ustr) option" where
  "output_key (FunctionCallOutput call_id _) = Some (FunctionKind, call_id)"
| "output_key (ToolSearchOutput (Some call_id) _ _ _) = Some (SearchKind, call_id)"
| "output_key (CustomToolCallOutput call_id _ _) = Some (CustomKind, call_id)"
| "output_key _ = None"

text \<open>The outputs of searches the server ran need no call.\<close>

fun from_server :: "'j response_item \<Rightarrow> bool" where
  "from_server (ToolSearchOutput _ _ execution _) = (execution = lit ''server'')"
| "from_server _ = False"

definition answered :: "'j response_item list \<Rightarrow> 'j response_item \<Rightarrow> bool" where
  "answered items i \<longleftrightarrow> (\<forall>k. call_key i = Some k \<longrightarrow> (\<exists>out\<in>set items. output_key out = Some k))"

definition called :: "'j response_item list \<Rightarrow> 'j response_item \<Rightarrow> bool" where
  "called items i \<longleftrightarrow> (\<forall>k. output_key i = Some k \<and> \<not> from_server i \<longrightarrow> (\<exists>c\<in>set items. call_key c = Some k))"

definition paired :: "'j response_item list \<Rightarrow> bool" where
  "paired items \<longleftrightarrow> (\<forall>i\<in>set items. answered items i \<and> called items i)"

lemma output_key_simps [simp]:
  "is_function_output k i \<longleftrightarrow> output_key i = Some (FunctionKind, k)"
  "is_search_output k i \<longleftrightarrow> output_key i = Some (SearchKind, k)"
  "is_custom_output k i \<longleftrightarrow> output_key i = Some (CustomKind, k)"
  by (cases i rule: output_key.cases; simp)+

lemma output_key_fun:
  "is_function_output k = (\<lambda>i. output_key i = Some (FunctionKind, k))"
  "is_search_output k = (\<lambda>i. output_key i = Some (SearchKind, k))"
  "is_custom_output k = (\<lambda>i. output_key i = Some (CustomKind, k))"
  by (simp_all add: fun_eq_iff)

lemma not_both: "call_key i = Some k \<Longrightarrow> output_key i = None"
  by (cases i rule: call_key.cases) simp_all

text \<open>What the synthetic output of an unanswered call is.\<close>

fun aborted_output :: "call_kind \<times> ustr \<Rightarrow> 'j response_item" where
  "aborted_output (FunctionKind, call_id) = FunctionCallOutput call_id (payload_from_text (lit ''aborted''))"
| "aborted_output (SearchKind, call_id) = ToolSearchOutput (Some call_id) (lit ''completed'') (lit ''client'') []"
| "aborted_output (CustomKind, call_id) = CustomToolCallOutput call_id None (payload_from_text (lit ''aborted''))"

lemma aborted_keys [simp]: "output_key (aborted_output k) = Some k" "call_key (aborted_output k) = None"
  "\<not> from_server (aborted_output k)"
  by (cases k rule: aborted_output.cases; simp)+

definition fills :: "'j response_item list \<Rightarrow> 'j response_item \<Rightarrow> 'j response_item list" where
  "fills items i = (case call_key i of
      Some k \<Rightarrow> if list_ex (\<lambda>out. output_key out = Some k) items then [] else [aborted_output k]
    | None \<Rightarrow> [])"

lemma missing_release:
  "missing_output False items i = Some (case fills items i of [] \<Rightarrow> None | out # _ \<Rightarrow> Some out)"
  by (cases i rule: call_key.cases) (simp_all add: fills_def error_or_panic_def output_key_fun)

lemma missing_debug:
  "missing_output True items i = None \<or> missing_output True items i = missing_output False items i"
  by (cases i rule: call_key.cases) (simp_all add: error_or_panic_def)

lemma fills_cases: "fills items i = [] \<or> (\<exists>k. call_key i = Some k \<and> fills items i = [aborted_output k])"
  by (auto simp: fills_def split: option.splits)

text \<open>Inserting from the back puts each output right after its call.\<close>

lemma fold_insert_at:
  assumes "\<forall>(i, x)\<in>set ms. length pre \<le> i"
  shows "fold (\<lambda>(i, x) xs. insert_at (Suc i) x xs) ms (pre @ zs)
    = pre @ fold (\<lambda>(i, x) xs. insert_at (Suc i) x xs) (map (\<lambda>(i, x). (i - length pre, x)) ms) zs"
  using assms
proof (induction ms arbitrary: zs)
  case (Cons m ms)
  obtain i x where m: "m = (i, x)" by (cases m)
  with Cons.prems have "insert_at (Suc i) x (pre @ zs) = pre @ insert_at (Suc (i - length pre)) x zs"
    by (simp add: insert_at_def Suc_diff_le)
  with Cons m show ?case by simp
qed simp

lemma collect_missing_release:
  "\<exists>ms. collect_missing False items idx rest = Some ms \<and> (\<forall>(i, x)\<in>set ms. idx \<le> i)
    \<and> (\<forall>pre. length pre = idx \<longrightarrow> fold (\<lambda>(i, x) xs. insert_at (Suc i) x xs) (rev ms) (pre @ rest)
        = pre @ concat (map (\<lambda>i. i # fills items i) rest))"
proof (induction rest arbitrary: idx)
  case (Cons item rest)
  obtain ms where ms: "collect_missing False items (Suc idx) rest = Some ms" "\<forall>(i, x)\<in>set ms. Suc idx \<le> i"
    "\<And>pre. length pre = Suc idx \<Longrightarrow> fold (\<lambda>(i, x) xs. insert_at (Suc i) x xs) (rev ms) (pre @ rest)
        = pre @ concat (map (\<lambda>i. i # fills items i) rest)"
    using Cons.IH [of "Suc idx"] by blast
  let ?new = "case fills items item of [] \<Rightarrow> [] | out # _ \<Rightarrow> [(idx, out)]"
  have c: "collect_missing False items idx (item # rest) = Some (?new @ ms)"
    using ms(1) by (simp add: missing_release split: list.splits)
  have "fold (\<lambda>(i, x) xs. insert_at (Suc i) x xs) (rev (?new @ ms)) (pre @ item # rest)
      = pre @ concat (map (\<lambda>i. i # fills items i) (item # rest))" if "length pre = idx" for pre
  proof -
    have f: "fold (\<lambda>(i, x) xs. insert_at (Suc i) x xs) (rev ms) (pre @ item # rest)
      = pre @ item # concat (map (\<lambda>i. i # fills items i) rest)"
      using ms(3) [of "pre @ [item]"] that by simp
    show ?thesis
      using fills_cases [of items item] that f by (auto simp: insert_at_def)
  qed
  moreover have "\<forall>(i, x)\<in>set (?new @ ms). idx \<le> i" using ms(2) by (auto split: list.splits)
  ultimately show ?case using c by blast
qed simp

lemma ensure_release:
  "ensure_call_outputs_present False items = Some (concat (map (\<lambda>i. i # fills items i) items))"
proof -
  obtain ms where "collect_missing False items 0 items = Some ms"
    "fold (\<lambda>(i, x) xs. insert_at (Suc i) x xs) (rev ms) ([] @ items) = [] @ concat (map (\<lambda>i. i # fills items i) items)"
    using collect_missing_release [of items 0 items] by (metis list.size(3))
  then show ?thesis by (simp add: ensure_call_outputs_present_def)
qed

lemma collect_missing_debug:
  "collect_missing True items idx rest = None \<or> collect_missing True items idx rest = collect_missing False items idx rest"
proof (induction rest arbitrary: idx)
  case (Cons item rest)
  show ?case
  proof (cases "missing_output True items item")
    case (Some m)
    then have "missing_output False items item = Some m" using missing_debug [of items item] by simp
    with Some Cons.IH [of "Suc idx"] show ?thesis by auto
  qed simp
qed simp

lemma ensure_debug:
  "ensure_call_outputs_present True items = None
   \<or> ensure_call_outputs_present True items = ensure_call_outputs_present False items"
  using collect_missing_debug [of items 0 items] by (auto simp: ensure_call_outputs_present_def)

subsection \<open>Orphans\<close>

lemma in_ids_of: "k \<in> set (ids_of f items) \<longleftrightarrow> (\<exists>i\<in>set items. f i = Some k)"
  by (force simp: ids_of_def List.map_filter_def)

lemma call_key_iff:
  "call_key i = Some (FunctionKind, k) \<longleftrightarrow> function_call_id i = Some k \<or> local_shell_call_id i = Some k"
  "call_key i = Some (SearchKind, k) \<longleftrightarrow> tool_search_call_id i = Some k"
  "call_key i = Some (CustomKind, k) \<longleftrightarrow> custom_tool_call_id i = Some k"
  by (cases i rule: call_key.cases; simp)+

lemma retain_release: "retain_item False items i = Some (called items i)"
proof -
  have "has_match_or_panic False b = Some b" for b by (simp add: has_match_or_panic_def error_or_panic_def)
  then show ?thesis
    by (cases i rule: output_key.cases) (auto simp: called_def in_ids_of call_key_iff)
qed

lemma retain_debug: "retain_item True items i = None \<or> retain_item True items i = retain_item False items i"
  by (cases "(True, items, i)" rule: retain_item.cases)
    (auto simp: has_match_or_panic_def error_or_panic_def split: option.splits)

lemma retain_all_filter: "(\<And>x. f x = Some (p x)) \<Longrightarrow> retain_all f xs = Some (filter p xs)"
  by (induction xs) simp_all

lemma retain_all_debug:
  "(\<And>x. f x = None \<or> f x = g x) \<Longrightarrow> retain_all f xs = None \<or> retain_all f xs = retain_all g xs"
proof (induction xs)
  case (Cons x xs)
  show ?case
  proof (cases "f x")
    case (Some keep)
    with Cons.prems [of x] have "g x = Some keep" by simp
    with Some Cons.IH [OF Cons.prems] show ?thesis by auto
  qed simp
qed simp

lemma remove_orphans_release: "remove_orphan_outputs False items = Some (filter (called items) items)"
  unfolding remove_orphan_outputs_def by (rule retain_all_filter) (rule retain_release)

lemma remove_orphans_debug:
  "remove_orphan_outputs True items = None \<or> remove_orphan_outputs True items = remove_orphan_outputs False items"
  unfolding remove_orphan_outputs_def by (rule retain_all_debug) (rule retain_debug)

lemma strip_keys [simp]: "call_key (strip_item i) = call_key i" "output_key (strip_item i) = output_key i"
  "from_server (strip_item i) = from_server i"
  by (cases i rule: strip_item.cases; simp)+

lemma strip_idem [simp]: "strip_item (strip_item i) = strip_item i"
proof -
  have "strip_content_item (strip_content_item c) = strip_content_item c" for c by (cases c) simp_all
  moreover have "strip_output_item (strip_output_item c) = strip_output_item c" for c by (cases c) simp_all
  ultimately show ?thesis
    by (cases i rule: strip_item.cases) (auto simp: strip_payload_def split: output_body.splits)
qed

lemma strip_images_idem [simp]:
  "strip_images_when_unsupported m (strip_images_when_unsupported m items) = strip_images_when_unsupported m items"
  by (simp add: strip_images_when_unsupported_def)

lemma paired_strip [simp]: "paired (strip_images_when_unsupported m items) = paired items"
  by (simp add: strip_images_when_unsupported_def paired_def answered_def called_def)

subsection \<open>The normal form\<close>

definition completed :: "'j response_item list \<Rightarrow> 'j response_item list" where
  "completed items = concat (map (\<lambda>i. if called items i then i # fills items i else []) items)"

lemma called_filled: "called (concat (map (\<lambda>i. i # fills items i) items)) i = called items i"
proof -
  have "(\<exists>c\<in>set (concat (map (\<lambda>i. i # fills items i) items)). call_key c = Some k) \<longleftrightarrow> (\<exists>c\<in>set items. call_key c = Some k)" for k
  proof
    assume "\<exists>c\<in>set (concat (map (\<lambda>i. i # fills items i) items)). call_key c = Some k"
    then obtain c i where c: "c \<in> set (i # fills items i)" "i \<in> set items" "call_key c = Some k" by auto
    with fills_cases [of items i] show "\<exists>c\<in>set items. call_key c = Some k" by auto
  qed auto
  then show ?thesis by (simp only: called_def)
qed

lemma called_fills: "i \<in> set items \<Longrightarrow> out \<in> set (fills items i) \<Longrightarrow> called items out"
  using fills_cases [of items i] by (auto simp: called_def)

lemma called_call: "call_key i = Some k \<Longrightarrow> called items i"
  by (simp add: called_def not_both)

lemma normalize_release:
  "normalize_items False m items = Some (strip_images_when_unsupported m (completed items))"
proof -
  define filled where "filled = concat (map (\<lambda>i. i # fills items i) items)"
  have e: "filter (called items) (i # fills items i) = (if called items i then i # fills items i else [])"
    if "i \<in> set items" for i
  proof -
    have "filter (called items) (fills items i) = fills items i" using called_fills [OF that] by (simp add: filter_id_conv)
    moreover have "\<not> called items i \<Longrightarrow> fills items i = []" using fills_cases [of items i] called_call by auto
    ultimately show ?thesis by simp
  qed
  have "called filled = called items" by (simp add: fun_eq_iff filled_def called_filled)
  then have "filter (called filled) filled = filter (called items) filled" by simp
  also have "\<dots> = concat (map (\<lambda>i. filter (called items) (i # fills items i)) items)"
    by (simp add: filled_def filter_concat o_def)
  also have "map (\<lambda>i. filter (called items) (i # fills items i)) items
      = map (\<lambda>i. if called items i then i # fills items i else []) items"
    by (rule map_cong [OF refl e])
  also have "concat \<dots> = completed items" by (simp only: completed_def)
  finally show ?thesis
    by (simp add: normalize_items_def ensure_release remove_orphans_release filled_def)
qed

lemma normalize_debug: "normalize_items True m items = None \<or> normalize_items True m items = normalize_items False m items"
proof (cases "ensure_call_outputs_present True items")
  case (Some xs)
  then have "ensure_call_outputs_present False items = Some xs" using ensure_debug [of items] by simp
  with Some remove_orphans_debug [of xs] show ?thesis by (auto simp: normalize_items_def)
qed (simp add: normalize_items_def)

lemma in_completed:
  "x \<in> set (completed items) \<longleftrightarrow> (\<exists>i\<in>set items. called items i \<and> (x = i \<or> x \<in> set (fills items i)))"
  by (auto simp: completed_def)

lemma paired_completed: "paired (completed items)"
  unfolding paired_def
proof (intro ballI conjI)
  fix x assume x: "x \<in> set (completed items)"
  show "answered (completed items) x"
    unfolding answered_def
  proof (intro allI impI)
    fix k assume k: "call_key x = Some k"
    from x obtain i where "i \<in> set items" "x = i \<or> x \<in> set (fills items i)" unfolding in_completed by blast
    with k fills_cases [of items i] have i: "i \<in> set items" "x = i" by auto
    show "\<exists>out\<in>set (completed items). output_key out = Some k"
    proof (cases "list_ex (\<lambda>out. output_key out = Some k) items")
      case True
      then obtain out where out: "out \<in> set items" "output_key out = Some k" by (auto simp: list_ex_iff)
      have "called items out" using i k out by (auto simp: called_def)
      with out(1) have "out \<in> set (completed items)" unfolding in_completed by blast
      with out(2) show ?thesis by blast
    next
      case False
      with i k have "aborted_output k \<in> set (fills items i)" by (simp add: fills_def)
      moreover have "called items i" using i k called_call by blast
      ultimately have "aborted_output k \<in> set (completed items)" unfolding in_completed using i by blast
      then show ?thesis by (rule bexI [rotated]) simp
    qed
  qed
  show "called (completed items) x"
    unfolding called_def
  proof (intro allI impI)
    fix k assume k: "output_key x = Some k \<and> \<not> from_server x"
    have "called items x" using x called_fills unfolding in_completed by blast
    with k obtain c where c: "c \<in> set items" "call_key c = Some k" by (auto simp: called_def)
    moreover have "called items c" using c(2) called_call by blast
    ultimately have "c \<in> set (completed items)" unfolding in_completed by blast
    with c show "\<exists>c\<in>set (completed items). call_key c = Some k" by blast
  qed
qed

lemma completed_id: "paired items \<Longrightarrow> completed items = items"
proof -
  assume p: "paired items"
  have "(if called items i then i # fills items i else []) = [i]" if "i \<in> set items" for i
    using p that fills_cases [of items i] by (auto simp: paired_def answered_def fills_def list_ex_iff split: option.splits)
  then have "map (\<lambda>i. if called items i then i # fills items i else []) items = map (\<lambda>i. [i]) items"
    by (intro map_cong refl)
  then have "completed items = concat (map (\<lambda>i. [i]) items)" unfolding completed_def by (rule arg_cong)
  then show ?thesis by simp
qed

lemma normalize_idem:
  "normalize_items False m items = Some out \<Longrightarrow> normalize_items False m out = Some out"
  by (auto simp: normalize_release completed_id paired_completed)

end
