(* ===== verification/Text_Truncation.thy ===== *)
theory Text_Truncation
  imports Prelude "HOL-Library.Word"
begin

section \<open>Truncated texts (utils/string, utils/output-truncation, protocol: TruncationPolicy)\<close>

text \<open>
  Cutting a text to a byte budget at character boundaries, with a marker in the place of what was
  removed, and the same for the list of content items of a tool's output. A slice
  \<open>&s[a..b]\<close> panics when an end is not a character boundary: the slices return an option here,
  and the lemmas show that the code never takes a slice that panics.
\<close>

subsection \<open>Slices at byte offsets\<close>

fun char_indices :: "nat \<Rightarrow> ustr \<Rightarrow> (nat \<times> nat) list" where
  "char_indices i [] = []"
| "char_indices i (c # s) = (i, c) # char_indices (i + len_utf8 c) s"

fun split_at_byte :: "nat \<Rightarrow> ustr \<Rightarrow> (ustr \<times> ustr) option" where
  "split_at_byte n [] = (if n = 0 then Some ([], []) else None)"
| "split_at_byte n (c # s) =
    (if n = 0 then Some ([], c # s)
     else if n < len_utf8 c then None
     else map_option (apfst ((#) c)) (split_at_byte (n - len_utf8 c) s))"

definition slice_to :: "nat \<Rightarrow> ustr \<Rightarrow> ustr option" where
  "slice_to n s = map_option fst (split_at_byte n s)"

definition slice_from :: "nat \<Rightarrow> ustr \<Rightarrow> ustr option" where
  "slice_from n s = map_option snd (split_at_byte n s)"

lemma split_at_byte_0 [simp]: "split_at_byte 0 s = Some ([], s)"
  by (cases s) simp_all

lemma split_at_byte_append [simp]: "split_at_byte (str_len a) (a @ b) = Some (a, b)"
  by (induction a) simp_all

lemma slice_to_append: "n = str_len a \<Longrightarrow> slice_to n (a @ b) = Some a"
  by (simp add: slice_to_def)

lemma slice_from_append: "n = str_len a \<Longrightarrow> slice_from n (a @ b) = Some b"
  by (simp add: slice_from_def)

subsection \<open>truncate.rs\<close>

definition APPROX_BYTES_PER_TOKEN :: nat where
  "APPROX_BYTES_PER_TOKEN = 4"

definition approx_token_count :: "ustr \<Rightarrow> nat" where
  "approx_token_count s = sat_add (str_len s) (APPROX_BYTES_PER_TOKEN - 1) div APPROX_BYTES_PER_TOKEN"

definition approx_bytes_for_tokens :: "nat \<Rightarrow> nat" where
  "approx_bytes_for_tokens tokens = sat_mul tokens APPROX_BYTES_PER_TOKEN"

definition approx_tokens_from_byte_count :: "nat \<Rightarrow> nat" where
  "approx_tokens_from_byte_count bytes = sat_add bytes (APPROX_BYTES_PER_TOKEN - 1) div APPROX_BYTES_PER_TOKEN"

definition split_budget :: "nat \<Rightarrow> nat \<times> nat" where
  "split_budget budget = (let left = budget div 2 in (left, budget - left))"

text \<open>The body of the loop over \<open>char_indices\<close>, on (prefix end, suffix start, removed, started).\<close>

definition split_step :: "nat \<Rightarrow> nat \<Rightarrow> nat \<times> nat \<Rightarrow> nat \<times> nat \<times> nat \<times> bool \<Rightarrow> nat \<times> nat \<times> nat \<times> bool" where
  "split_step beginning_bytes tail_start_target = (\<lambda>(idx, ch) (prefix_end, suffix_start, removed_chars, suffix_started).
    let char_end = idx + len_utf8 ch in
    if char_end \<le> beginning_bytes then (char_end, suffix_start, removed_chars, suffix_started)
    else if tail_start_target \<le> idx then
      (if suffix_started then (prefix_end, suffix_start, removed_chars, suffix_started)
       else (prefix_end, idx, removed_chars, True))
    else (prefix_end, suffix_start, sat_add removed_chars 1, suffix_started))"

definition split_string :: "ustr \<Rightarrow> nat \<Rightarrow> nat \<Rightarrow> (nat \<times> ustr \<times> ustr) option" where
  "split_string s beginning_bytes end_bytes =
    (if s = [] then Some (0, [], [])
     else
       (case fold (split_step beginning_bytes (str_len s - end_bytes)) (char_indices 0 s) (0, str_len s, 0, False) of
          (prefix_end, suffix_start, removed_chars, suffix_started) \<Rightarrow>
            (let suffix_start = (if suffix_start < prefix_end then prefix_end else suffix_start) in
             (case slice_to prefix_end s of
                None \<Rightarrow> None
              | Some before \<Rightarrow>
                  (case slice_from suffix_start s of
                     None \<Rightarrow> None
                   | Some after \<Rightarrow> Some (removed_chars, before, after))))))"

definition c_ellipsis :: nat where
  "c_ellipsis = 0x2026"

definition format_truncation_marker :: "bool \<Rightarrow> nat \<Rightarrow> ustr" where
  "format_truncation_marker use_tokens removed_count =
    (if use_tokens then [c_ellipsis] @ show_nat removed_count @ lit '' tokens truncated'' @ [c_ellipsis]
     else [c_ellipsis] @ show_nat removed_count @ lit '' chars truncated'' @ [c_ellipsis])"

text \<open>\<open>u64::try_from(removed_chars).unwrap_or(u64::MAX)\<close> keeps a \<open>usize\<close> as it is.\<close>

definition removed_units :: "bool \<Rightarrow> nat \<Rightarrow> nat \<Rightarrow> nat" where
  "removed_units use_tokens removed_bytes removed_chars =
    (if use_tokens then approx_tokens_from_byte_count removed_bytes else min removed_chars USIZE_MAX)"

definition assemble_truncated_output :: "ustr \<Rightarrow> ustr \<Rightarrow> ustr \<Rightarrow> ustr" where
  "assemble_truncated_output prefix suffix marker = prefix @ marker @ suffix"

definition truncate_with_byte_estimate :: "ustr \<Rightarrow> nat \<Rightarrow> bool \<Rightarrow> ustr option" where
  "truncate_with_byte_estimate s limit use_tokens =
    (if s = [] then Some []
     else
       (let total_chars = length s in
        if limit = 0 then
          Some (format_truncation_marker use_tokens (removed_units use_tokens (str_len s) total_chars))
        else if str_len s \<le> limit then Some s
        else
          (let total_bytes = str_len s; (left_budget, right_budget) = split_budget limit in
           (case split_string s left_budget right_budget of
              None \<Rightarrow> None
            | Some (removed_chars, left, right) \<Rightarrow>
                Some (assemble_truncated_output left right
                  (format_truncation_marker use_tokens
                    (removed_units use_tokens (total_bytes - limit) removed_chars)))))))"

definition truncate_middle_chars :: "ustr \<Rightarrow> nat \<Rightarrow> ustr option" where
  "truncate_middle_chars s limit = truncate_with_byte_estimate s limit False"

definition truncate_middle_with_token_budget :: "ustr \<Rightarrow> nat \<Rightarrow> (ustr \<times> nat option) option" where
  "truncate_middle_with_token_budget s max_tokens =
    (if s = [] then Some ([], None)
     else if 0 < max_tokens \<and> str_len s \<le> approx_bytes_for_tokens max_tokens then Some (s, None)
     else
       (case truncate_with_byte_estimate s (approx_bytes_for_tokens max_tokens) True of
          None \<Rightarrow> None
        | Some truncated \<Rightarrow>
            (let total_tokens = approx_token_count s in
             if truncated = s then Some (truncated, None) else Some (truncated, Some total_tokens))))"

subsection \<open>What is kept\<close>

text \<open>
  \<open>keeps_ends\<close> says that a text is cut into three parts of which the first and the last are kept:
  each within its budget, and as long as the character next to it allows.
\<close>

definition keeps_ends :: "nat \<Rightarrow> nat \<Rightarrow> ustr \<Rightarrow> ustr \<Rightarrow> ustr \<Rightarrow> ustr \<Rightarrow> bool" where
  "keeps_ends b e s left gap right \<longleftrightarrow>
     s = left @ gap @ right \<and> str_len left \<le> b \<and> str_len right \<le> e
   \<and> (gap \<noteq> [] \<longrightarrow> b < str_len left + len_utf8 (hd gap) \<and> e < str_len right + len_utf8 (last gap))"

lemma scan_suffix:
  "\<lbrakk>b < i; t \<le> i\<rbrakk> \<Longrightarrow> fold (split_step b t) (char_indices i s) (pe, ss, r, True) = (pe, ss, r, True)"
  by (induction s arbitrary: i) (simp_all add: split_step_def)

lemma scan_gap:
  assumes "s \<noteq> [] \<Longrightarrow> b < i + len_utf8 (hd s)"
  shows "\<exists>gap right. s = gap @ right
    \<and> fold (split_step b t) (char_indices i s) (pe, i + str_len s, min r USIZE_MAX, False)
      = (pe, i + str_len gap, min (r + length gap) USIZE_MAX, right \<noteq> [])
    \<and> (right \<noteq> [] \<longrightarrow> t \<le> i + str_len gap) \<and> (gap \<noteq> [] \<longrightarrow> i + str_len (butlast gap) < t)"
  using assms
proof (induction s arbitrary: i r)
  case (Cons c s)
  have b: "b < i + len_utf8 c" using Cons.prems by simp
  show ?case
  proof (cases "t \<le> i")
    case True
    have "fold (split_step b t) (char_indices (i + len_utf8 c) s) (pe, i, min r USIZE_MAX, True)
      = (pe, i, min r USIZE_MAX, True)" using b True by (intro scan_suffix) simp_all
    with b True show ?thesis
      by (intro exI [of _ "[]"] exI [of _ "c # s"]) (simp add: split_step_def)
  next
    case False
    obtain gap right where IH: "s = gap @ right"
      "fold (split_step b t) (char_indices (i + len_utf8 c) s)
        (pe, i + len_utf8 c + str_len s, min (Suc r) USIZE_MAX, False)
        = (pe, i + len_utf8 c + str_len gap, min (Suc r + length gap) USIZE_MAX, right \<noteq> [])"
      "right \<noteq> [] \<longrightarrow> t \<le> i + len_utf8 c + str_len gap" "gap \<noteq> [] \<longrightarrow> i + len_utf8 c + str_len (butlast gap) < t"
      using Cons.IH [of "i + len_utf8 c" "Suc r", OF trans_less_add1 [OF b]] by blast
    have "sat_add (min r USIZE_MAX) 1 = min (Suc r) USIZE_MAX" by (simp add: sat_add_sat)
    with IH b False show ?thesis
      by (intro exI [of _ "c # gap"] exI [of _ right]) (auto simp: split_step_def Let_def add.assoc)
  qed
qed simp

lemma scan_prefix:
  assumes "i \<le> b"
  shows "\<exists>left rest. s = left @ rest \<and> i + str_len left \<le> b \<and> (rest \<noteq> [] \<longrightarrow> b < i + str_len left + len_utf8 (hd rest))
    \<and> fold (split_step b t) (char_indices i s) (i, L, r, False)
      = fold (split_step b t) (char_indices (i + str_len left) rest) (i + str_len left, L, r, False)"
  using assms
proof (induction s arbitrary: i)
  case (Cons c s)
  show ?case
  proof (cases "i + len_utf8 c \<le> b")
    case True
    obtain left rest where IH: "s = left @ rest" "i + len_utf8 c + str_len left \<le> b"
      "rest \<noteq> [] \<longrightarrow> b < i + len_utf8 c + str_len left + len_utf8 (hd rest)"
      "fold (split_step b t) (char_indices (i + len_utf8 c) s) (i + len_utf8 c, L, r, False)
      = fold (split_step b t) (char_indices (i + len_utf8 c + str_len left) rest) (i + len_utf8 c + str_len left, L, r, False)"
      using Cons.IH [OF True] by blast
    with True show ?thesis
      by (intro exI [of _ "c # left"] exI [of _ rest]) (simp add: split_step_def Let_def add.assoc)
  next
    case False
    with Cons.prems show ?thesis by (intro exI [of _ "[]"] exI [of _ "c # s"]) simp
  qed
qed simp

theorem split_string_spec:
  "\<exists>left gap right. split_string s b e = Some (min (length gap) USIZE_MAX, left, right) \<and> keeps_ends b e s left gap right"
proof (cases "s = []")
  case True
  then show ?thesis
    by (intro exI [of _ "[]"]) (simp add: split_string_def keeps_ends_def)
next
  case False
  let ?t = "str_len s - e"
  obtain left rest where l: "s = left @ rest" "str_len left \<le> b" "rest \<noteq> [] \<longrightarrow> b < str_len left + len_utf8 (hd rest)"
    "fold (split_step b ?t) (char_indices 0 s) (0, str_len s, 0, False)
      = fold (split_step b ?t) (char_indices (str_len left) rest) (str_len left, str_len s, 0, False)"
    using scan_prefix [of 0 b s ?t "str_len s" 0] unfolding add_0 by blast
  obtain gap right where g: "rest = gap @ right"
    "fold (split_step b ?t) (char_indices (str_len left) rest) (str_len left, str_len left + str_len rest, 0, False)
      = (str_len left, str_len left + str_len gap, min (length gap) USIZE_MAX, right \<noteq> [])"
    "right \<noteq> [] \<longrightarrow> ?t \<le> str_len left + str_len gap" "gap \<noteq> [] \<longrightarrow> str_len left + str_len (butlast gap) < ?t"
    using scan_gap [of rest b "str_len left" ?t "str_len left" 0] l(3) unfolding add_0 min_0L by blast
  have "split_string s b e = Some (min (length gap) USIZE_MAX, left, right)"
    unfolding split_string_def using False l(4) g(1,2)
    by (simp add: l(1) slice_to_append slice_from_append [of _ "left @ gap", simplified])
  moreover have "keeps_ends b e s left gap right"
  proof -
    have "str_len right \<le> e"
    proof (cases "right = []")
      case False
      with g(3) l(1) g(1) show ?thesis by simp
    qed simp
    moreover have "e < str_len right + len_utf8 (last gap)" if "gap \<noteq> []"
    proof -
      have "str_len gap = str_len (butlast gap) + len_utf8 (last gap)"
        using that by (metis append_butlast_last_id str_len_append str_len_Cons str_len_Nil add_0_right)
      with g(4) that l(1) g(1) show ?thesis by simp
    qed
    moreover have "b < str_len left + len_utf8 (hd gap)" if "gap \<noteq> []"
      using l(3) g(1) that by simp
    ultimately show ?thesis using l(1,2) g(1) by (simp add: keeps_ends_def)
  qed
  ultimately show ?thesis by blast
qed

lemma marker_length:
  assumes "n \<le> USIZE_MAX"
  shows "str_len (format_truncation_marker use_tokens n) \<le> 43"
proof -
  have "n < 10 ^ 20" using assms by (simp add: USIZE_MAX_def)
  then have "length (show_nat n) \<le> 20" by (intro length_show_nat) simp_all
  moreover have "str_len (lit '' tokens truncated'') = 17" "str_len (lit '' chars truncated'') = 16"
    "len_utf8 c_ellipsis = 3" by code_simp+
  ultimately show ?thesis by (simp add: format_truncation_marker_def)
qed

lemma removed_units_le: "removed_units use_tokens bytes chars \<le> USIZE_MAX"
proof -
  have "sat_add bytes 3 div 4 \<le> USIZE_MAX div 4" by (intro div_le_mono) (simp add: sat_add_def)
  also have "\<dots> \<le> USIZE_MAX" by (rule div_le_dividend)
  finally show ?thesis by (simp add: removed_units_def approx_tokens_from_byte_count_def APPROX_BYTES_PER_TOKEN_def)
qed

lemma marker_not_Nil [simp]: "format_truncation_marker use_tokens n \<noteq> []"
  by (simp add: format_truncation_marker_def)

text \<open>The function never panics: it keeps a text that fits, and cuts the others in the middle.\<close>

lemma truncate_cases:
  obtains (fits) "truncate_with_byte_estimate s limit use_tokens = Some s" "s = [] \<or> str_len s \<le> limit"
  | (cut) left gap right where "s \<noteq> []" "limit < str_len s" "keeps_ends (limit div 2) (limit - limit div 2) s left gap right"
      "gap \<noteq> []"
      "truncate_with_byte_estimate s limit use_tokens = Some (left
        @ format_truncation_marker use_tokens (removed_units use_tokens (str_len s - limit) (length gap)) @ right)"
proof (cases "s = [] \<or> str_len s \<le> limit")
  case True
  then show ?thesis
    by (intro fits) (auto simp: truncate_with_byte_estimate_def)
next
  case False
  then have s: "s \<noteq> []" "limit < str_len s" by auto
  obtain left gap right where sp:
    "split_string s (limit div 2) (limit - limit div 2) = Some (min (length gap) USIZE_MAX, left, right)"
    "keeps_ends (limit div 2) (limit - limit div 2) s left gap right"
    using split_string_spec by blast
  have "gap \<noteq> []"
  proof
    assume "gap = []"
    with sp(2) have "str_len s \<le> limit div 2 + (limit - limit div 2)" by (auto simp: keeps_ends_def)
    with s show False by simp
  qed
  have r: "removed_units use_tokens n (min k USIZE_MAX) = removed_units use_tokens n k" for n k
    by (simp add: removed_units_def)
  show ?thesis
  proof (cases "limit = 0")
    case True
    have z: "left = [] \<and> right = [] \<and> gap = s" using sp(2) True by (auto simp: keeps_ends_def)
    then have "truncate_with_byte_estimate s limit use_tokens = Some (left
        @ format_truncation_marker use_tokens (removed_units use_tokens (str_len s - limit) (length gap)) @ right)"
      using True s by (simp add: truncate_with_byte_estimate_def)
    with cut s sp(2) \<open>gap \<noteq> []\<close> show ?thesis by blast
  next
    case False
    then have "truncate_with_byte_estimate s limit use_tokens = Some (left
        @ format_truncation_marker use_tokens (removed_units use_tokens (str_len s - limit) (length gap)) @ right)"
      using sp(1) s by (simp add: truncate_with_byte_estimate_def split_budget_def assemble_truncated_output_def Let_def r)
    with cut s sp(2) \<open>gap \<noteq> []\<close> show ?thesis by blast
  qed
qed

lemma truncate_bound:
  assumes "truncate_with_byte_estimate s limit use_tokens = Some out"
  shows "str_len out \<le> limit + 43 \<and> (out = [] \<longleftrightarrow> s = [])"
proof (cases rule: truncate_cases [of s limit use_tokens])
  case fits
  with assms show ?thesis by auto
next
  case (cut left gap right)
  let ?m = "format_truncation_marker use_tokens (removed_units use_tokens (str_len s - limit) (length gap))"
  from cut(5) assms have out: "out = left @ ?m @ right" by simp
  have "str_len ?m \<le> 43" by (intro marker_length removed_units_le)
  moreover from cut(3) have "str_len left \<le> limit div 2" "str_len right \<le> limit - limit div 2"
    by (simp_all add: keeps_ends_def)
  ultimately show ?thesis using cut(1) by (simp add: out)
qed

lemma truncate_returns: "\<exists>out. truncate_with_byte_estimate s limit use_tokens = Some out"
  by (cases rule: truncate_cases [of s limit use_tokens]) auto

lemma token_truncation:
  obtains out total where "truncate_middle_with_token_budget s n = Some (out, total)"
    "out = s \<and> str_len s \<le> approx_bytes_for_tokens n \<or> truncate_with_byte_estimate s (approx_bytes_for_tokens n) True = Some out"
    "total = (if out = s then None else Some (approx_token_count s))"
proof -
  obtain out where out: "truncate_with_byte_estimate s (approx_bytes_for_tokens n) True = Some out"
    using truncate_returns by blast
  show ?thesis
  proof (cases "s = [] \<or> 0 < n \<and> str_len s \<le> approx_bytes_for_tokens n")
    case True
    then show ?thesis by (intro that [of s None]) (auto simp: truncate_middle_with_token_budget_def)
  next
    case False
    with out show ?thesis
      by (intro that [of out "if out = s then None else Some (approx_token_count s)"])
        (auto simp: truncate_middle_with_token_budget_def)
  qed
qed

subsection \<open>TruncationPolicy (protocol.rs, openai\_models.rs)\<close>

datatype truncation_mode = BytesMode | TokensMode

record truncation_policy_config =
  trunc_mode :: truncation_mode
  trunc_limit :: "64 word"

datatype truncation_policy = Bytes nat | Tokens nat

text \<open>\<open>config.limit as usize\<close> reads the bits of the signed limit as an unsigned number.\<close>

definition policy_from_config :: "truncation_policy_config \<Rightarrow> truncation_policy" where
  "policy_from_config config =
    (case trunc_mode config of
       BytesMode \<Rightarrow> Bytes (unat (trunc_limit config))
     | TokensMode \<Rightarrow> Tokens (unat (trunc_limit config)))"

fun token_budget :: "truncation_policy \<Rightarrow> nat" where
  "token_budget (Bytes bytes) = approx_tokens_from_byte_count bytes"
| "token_budget (Tokens tokens) = tokens"

fun byte_budget :: "truncation_policy \<Rightarrow> nat" where
  "byte_budget (Bytes bytes) = bytes"
| "byte_budget (Tokens tokens) = approx_bytes_for_tokens tokens"

text \<open>
  \<open>policy * 1.2\<close> goes through \<open>f64\<close>: the limit is rounded to 53 bits (ties to even), so is its
  product with the double next to 1.2, which is \<open>0x13333333333333 / 2^52\<close>, and \<open>ceil\<close> and the
  saturating cast end the computation.
\<close>

fun bit_length :: "nat \<Rightarrow> nat" where
  "bit_length n = (if n = 0 then 0 else Suc (bit_length (n div 2)))"

declare bit_length.simps [simp del]

definition round_to_double :: "nat \<Rightarrow> nat" where
  "round_to_double n =
    (if bit_length n \<le> 53 then n
     else
       (let e = bit_length n - 53; q = n div 2 ^ e; r = n mod 2 ^ e; half = 2 ^ (e - 1)
        in if half < r \<or> (r = half \<and> odd q) then (q + 1) * 2 ^ e else q * 2 ^ e))"

definition mul_double :: "nat \<Rightarrow> nat \<Rightarrow> nat" where
  "mul_double mantissa n =
    (let p = round_to_double (round_to_double n * mantissa)
     in min (if p mod 2 ^ 52 = 0 then p div 2 ^ 52 else p div 2 ^ 52 + 1) USIZE_MAX)"

definition double_1_2 :: nat where
  "double_1_2 = 0x13333333333333"

fun policy_mul :: "truncation_policy \<Rightarrow> nat \<Rightarrow> truncation_policy" where
  "policy_mul (Bytes bytes) m = Bytes (mul_double m bytes)"
| "policy_mul (Tokens tokens) m = Tokens (mul_double m tokens)"

lemma mul_double_examples:
  "mul_double double_1_2 10000 = 12000" "mul_double double_1_2 1 = 2" "mul_double double_1_2 5 = 6"
  "mul_double double_1_2 USIZE_MAX = USIZE_MAX"
  by (simp_all add: mul_double_def round_to_double_def double_1_2_def bit_length.simps USIZE_MAX_def)

end
