(* ===== verification/Context_Fragments.thy ===== *)
theory Context_Fragments
  imports Response_Items Text_Truncation
begin

section \<open>Context fragments in messages (core: context/fragment.rs, contextual\_user\_message.rs, event\_mapping.rs)\<close>

text \<open>
  The client injects context as messages of the user or the developer and recognises them later by
  their markers. What the XML and JSON libraries read from a text is a parameter: the text and the
  run id of a hook prompt, and whether a text is an inter-agent communication.
\<close>

record context_libs =
  hook_prompt_xml :: "ustr \<Rightarrow> (ustr \<times> ustr) option"
  inter_agent_json :: "ustr \<Rightarrow> bool"

text \<open>\<open>text.get(..n).is_some_and(|c| c.eq_ignore_ascii_case(m))\<close>, and the same at the end.\<close>

definition has_marker_prefix :: "ustr \<Rightarrow> ustr \<Rightarrow> bool" where
  "has_marker_prefix marker t =
    (case slice_to (str_len marker) t of Some candidate \<Rightarrow> eq_ignore_ascii_case candidate marker | None \<Rightarrow> False)"

definition has_marker_suffix :: "ustr \<Rightarrow> ustr \<Rightarrow> bool" where
  "has_marker_suffix marker t =
    (case slice_from (str_len t - str_len marker) t of
       Some candidate \<Rightarrow> eq_ignore_ascii_case candidate marker | None \<Rightarrow> False)"

definition matches_text :: "ustr \<times> ustr \<Rightarrow> ustr \<Rightarrow> bool" where
  "matches_text = (\<lambda>(start_marker, end_marker) t.
    if start_marker = [] \<or> end_marker = [] then False
    else
      (let trimmed = trim_start t; starts_with_marker = has_marker_prefix start_marker trimmed;
           trimmed = trim_end trimmed
       in starts_with_marker \<and> has_marker_suffix end_marker trimmed))"

definition render_fragment :: "ustr \<times> ustr \<Rightarrow> ustr \<Rightarrow> ustr" where
  "render_fragment = (\<lambda>(start_marker, end_marker) fragment_body.
    if start_marker = [] \<and> end_marker = [] then fragment_body else start_marker @ fragment_body @ end_marker)"

definition fragment_into :: "ustr \<Rightarrow> ustr \<times> ustr \<Rightarrow> ustr \<Rightarrow> 'j response_item" where
  "fragment_into role markers fragment_body =
    Message None role [InputText (render_fragment markers fragment_body)] None None"

text \<open>The markers of the registered user fragments, in the order of \<open>CONTEXTUAL_USER_FRAGMENTS\<close>.\<close>

definition user_instructions_markers :: "ustr \<times> ustr" where
  "user_instructions_markers = (lit ''# AGENTS.md instructions for '', lit ''</INSTRUCTIONS>'')"

definition environment_context_markers :: "ustr \<times> ustr" where
  "environment_context_markers = (lit ''<environment_context>'', lit ''</environment_context>'')"

definition skill_instructions_markers :: "ustr \<times> ustr" where
  "skill_instructions_markers = (lit ''<skill>'', lit ''</skill>'')"

definition user_shell_command_markers :: "ustr \<times> ustr" where
  "user_shell_command_markers = (lit ''<user_shell_command>'', lit ''</user_shell_command>'')"

definition turn_aborted_markers :: "ustr \<times> ustr" where
  "turn_aborted_markers = (lit ''<turn_aborted>'', lit ''</turn_aborted>'')"

definition subagent_notification_markers :: "ustr \<times> ustr" where
  "subagent_notification_markers = (lit ''<subagent_notification>'', lit ''</subagent_notification>'')"

definition CONTEXTUAL_USER_FRAGMENTS :: "(ustr \<times> ustr) list" where
  "CONTEXTUAL_USER_FRAGMENTS =
    [user_instructions_markers, environment_context_markers, skill_instructions_markers,
     user_shell_command_markers, turn_aborted_markers, subagent_notification_markers]"

definition MEMORY_EXCLUDED_CONTEXTUAL_USER_FRAGMENTS :: "(ustr \<times> ustr) list" where
  "MEMORY_EXCLUDED_CONTEXTUAL_USER_FRAGMENTS = [user_instructions_markers, skill_instructions_markers]"

definition is_standard_contextual_user_text :: "ustr \<Rightarrow> bool" where
  "is_standard_contextual_user_text t = list_ex (\<lambda>fragment. matches_text fragment t) CONTEXTUAL_USER_FRAGMENTS"

fun is_memory_excluded_contextual_user_fragment :: "content_item \<Rightarrow> bool" where
  "is_memory_excluded_contextual_user_fragment (InputText t) =
    list_ex (\<lambda>fragment. matches_text fragment t) MEMORY_EXCLUDED_CONTEXTUAL_USER_FRAGMENTS"
| "is_memory_excluded_contextual_user_fragment _ = False"

definition parse_hook_prompt_fragment :: "context_libs \<Rightarrow> ustr \<Rightarrow> (ustr \<times> ustr) option" where
  "parse_hook_prompt_fragment libs t =
    (case hook_prompt_xml libs (trim t) of
       None \<Rightarrow> None
     | Some (prompt, hook_run_id) \<Rightarrow> if trim hook_run_id = [] then None else Some (prompt, hook_run_id))"

fun is_contextual_user_fragment :: "context_libs \<Rightarrow> content_item \<Rightarrow> bool" where
  "is_contextual_user_fragment libs (InputText t) =
    (parse_hook_prompt_fragment libs t \<noteq> None \<or> is_standard_contextual_user_text t)"
| "is_contextual_user_fragment libs _ = False"

fun visible_fragments :: "context_libs \<Rightarrow> content_item list \<Rightarrow> (ustr \<times> ustr) list \<Rightarrow> (ustr \<times> ustr) list option" where
  "visible_fragments libs [] fragments = Some fragments"
| "visible_fragments libs (InputText t # content) fragments =
    (case parse_hook_prompt_fragment libs t of
       Some fragment \<Rightarrow> visible_fragments libs content (fragments @ [fragment])
     | None \<Rightarrow> if is_standard_contextual_user_text t then visible_fragments libs content fragments else None)"
| "visible_fragments libs (_ # content) fragments = None"

text \<open>The fragments \<open>parse_visible_hook_prompt_message\<close> builds its item from.\<close>

definition parse_visible_hook_prompt_message :: "context_libs \<Rightarrow> content_item list \<Rightarrow> (ustr \<times> ustr) list option" where
  "parse_visible_hook_prompt_message libs content =
    (case visible_fragments libs content [] of
       None \<Rightarrow> None
     | Some fragments \<Rightarrow> if fragments = [] then None else Some fragments)"

definition CONTEXTUAL_DEVELOPER_PREFIXES :: "ustr list" where
  "CONTEXTUAL_DEVELOPER_PREFIXES =
    [lit ''<permissions instructions>'', lit ''<skills_instructions>'', lit ''<plugins_instructions>'',
     lit ''<model_switch>'', lit ''<collaboration_mode>'', lit ''<realtime_conversation>'', lit ''<personality_spec>'']"

definition is_contextual_user_message_content :: "context_libs \<Rightarrow> content_item list \<Rightarrow> bool" where
  "is_contextual_user_message_content libs message = list_ex (is_contextual_user_fragment libs) message"

fun is_contextual_dev_content_item :: "content_item \<Rightarrow> bool" where
  "is_contextual_dev_content_item (InputText t) =
    (let trimmed = trim_start t in list_ex (\<lambda>prefix. has_marker_prefix prefix trimmed) CONTEXTUAL_DEVELOPER_PREFIXES)"
| "is_contextual_dev_content_item _ = False"

definition is_contextual_dev_message_content :: "content_item list \<Rightarrow> bool" where
  "is_contextual_dev_message_content message = list_ex is_contextual_dev_content_item message"

definition has_non_contextual_dev_message_content :: "content_item list \<Rightarrow> bool" where
  "has_non_contextual_dev_message_content message = list_ex (\<lambda>i. \<not> is_contextual_dev_content_item i) message"

fun is_message_content :: "context_libs \<Rightarrow> content_item list \<Rightarrow> bool" where
  "is_message_content libs [InputText t] = inter_agent_json libs t"
| "is_message_content libs [OutputText t] = inter_agent_json libs t"
| "is_message_content libs _ = False"

subsection \<open>A rendered fragment is recognised\<close>

lemma has_marker_prefix_append: "has_marker_prefix m (m @ r)"
  by (simp add: has_marker_prefix_def slice_to_append eq_ignore_ascii_case_def)

lemma has_marker_suffix_append: "has_marker_suffix m (r @ m)"
  by (simp add: has_marker_suffix_def slice_from_append eq_ignore_ascii_case_def)

lemma rendered_fragment_matches:
  assumes "start \<noteq> []" "stop \<noteq> []" "\<not> is_whitespace (hd start)" "\<not> is_whitespace (last stop)"
  shows "matches_text (start, stop) (render_fragment (start, stop) fragment_body)"
proof -
  let ?t = "start @ fragment_body @ stop"
  have "trim_start ?t = ?t" using assms unfolding trim_start_def by (intro trim_start_matches_id) simp
  moreover have "trim_end ?t = ?t" using assms unfolding trim_end_def by (intro trim_end_matches_id) simp
  ultimately show ?thesis
    using assms(1,2) has_marker_prefix_append [of start "fragment_body @ stop"]
      has_marker_suffix_append [of stop "start @ fragment_body"]
    by (simp add: matches_text_def render_fragment_def)
qed

text \<open>Every injected user fragment is recognised again.\<close>

lemma user_fragments_recognised:
  assumes "markers \<in> set CONTEXTUAL_USER_FRAGMENTS"
  shows "is_contextual_user_fragment libs (InputText (render_fragment markers fragment_body))"
proof -
  have "\<forall>m\<in>set CONTEXTUAL_USER_FRAGMENTS. fst m \<noteq> [] \<and> snd m \<noteq> [] \<and> \<not> is_whitespace (hd (fst m))
    \<and> \<not> is_whitespace (last (snd m))" by code_simp
  with assms have "matches_text markers (render_fragment markers fragment_body)"
    using rendered_fragment_matches [of "fst markers" "snd markers"] by auto
  with assms show ?thesis by (auto simp: is_standard_contextual_user_text_def list_ex_iff)
qed

end
