(* ===== verification/Output_Truncation.thy ===== *)
theory Output_Truncation
  imports Text_Truncation Response_Items
begin

section \<open>Truncated tool outputs (utils/output-truncation/src/lib.rs)\<close>

definition truncate_text :: "ustr \<Rightarrow> truncation_policy \<Rightarrow> ustr option" where
  "truncate_text content policy =
    (case policy of
       Bytes bytes \<Rightarrow> truncate_middle_chars content bytes
     | Tokens tokens \<Rightarrow> map_option fst (truncate_middle_with_token_budget content tokens))"

definition formatted_truncate_text :: "ustr \<Rightarrow> truncation_policy \<Rightarrow> ustr option" where
  "formatted_truncate_text content policy =
    (if str_len content \<le> byte_budget policy then Some content
     else
       (let total_lines = length (str_lines content) in
        map_option (\<lambda>result. lit ''Total output lines: '' @ show_nat total_lines @ [nl, nl] @ result)
          (truncate_text content policy)))"

definition images_of :: "output_content_item list \<Rightarrow> output_content_item list" where
  "images_of items = filter (\<lambda>i. case i of ItemImage _ _ \<Rightarrow> True | ItemText _ \<Rightarrow> False) items"

text \<open>
  The texts joined by newlines, as the loop does it: no newline is pushed while the combined text
  is still empty.
\<close>

definition combine_texts :: "ustr list \<Rightarrow> ustr" where
  "combine_texts texts = fold (\<lambda>t combined. (if combined \<noteq> [] then combined @ [nl] else combined) @ t) texts []"

definition formatted_truncate_text_content_items_with_policy ::
    "output_content_item list \<Rightarrow> truncation_policy \<Rightarrow> (output_content_item list \<times> nat option) option" where
  "formatted_truncate_text_content_items_with_policy items policy =
    (let text_segments = content_items_text items in
     if text_segments = [] then Some (items, None)
     else
       (let combined = combine_texts text_segments in
        if str_len combined \<le> byte_budget policy then Some (items, None)
        else
          map_option (\<lambda>text. (ItemText text # images_of items, Some (approx_token_count combined)))
            (formatted_truncate_text combined policy)))"

definition policy_budget :: "truncation_policy \<Rightarrow> nat" where
  "policy_budget policy = (case policy of Bytes _ \<Rightarrow> byte_budget policy | Tokens _ \<Rightarrow> token_budget policy)"

definition text_cost :: "truncation_policy \<Rightarrow> ustr \<Rightarrow> nat" where
  "text_cost policy text = (case policy of Bytes _ \<Rightarrow> str_len text | Tokens _ \<Rightarrow> approx_token_count text)"

definition snippet_policy :: "truncation_policy \<Rightarrow> nat \<Rightarrow> truncation_policy" where
  "snippet_policy policy remaining_budget =
    (case policy of Bytes _ \<Rightarrow> Bytes remaining_budget | Tokens _ \<Rightarrow> Tokens remaining_budget)"

text \<open>The loop over the items: output, remaining budget, number of omitted texts.\<close>

fun truncate_items :: "truncation_policy \<Rightarrow> output_content_item list \<Rightarrow> output_content_item list \<Rightarrow> nat \<Rightarrow> nat
    \<Rightarrow> (output_content_item list \<times> nat) option" where
  "truncate_items policy [] out remaining omitted = Some (out, omitted)"
| "truncate_items policy (ItemText text # items) out remaining omitted =
    (if remaining = 0 then truncate_items policy items out remaining (omitted + 1)
     else
       (let cost = text_cost policy text in
        if cost \<le> remaining then truncate_items policy items (out @ [ItemText text]) (remaining - cost) omitted
        else
          (case truncate_text text (snippet_policy policy remaining) of
             None \<Rightarrow> None
           | Some snippet \<Rightarrow>
               if snippet = [] then truncate_items policy items out 0 (omitted + 1)
               else truncate_items policy items (out @ [ItemText snippet]) 0 omitted)))"
| "truncate_items policy (ItemImage url detail # items) out remaining omitted =
    truncate_items policy items (out @ [ItemImage url detail]) remaining omitted"

definition omitted_note :: "nat \<Rightarrow> ustr" where
  "omitted_note n = lit ''[omitted '' @ show_nat n @ lit '' text items ...]''"

definition truncate_function_output_items_with_policy ::
    "output_content_item list \<Rightarrow> truncation_policy \<Rightarrow> output_content_item list option" where
  "truncate_function_output_items_with_policy items policy =
    map_option (\<lambda>(out, omitted_text_items).
        if 0 < omitted_text_items then out @ [ItemText (omitted_note omitted_text_items)] else out)
      (truncate_items policy items [] (policy_budget policy) 0)"

text \<open>\<open>approx_tokens_from_byte_count_i64\<close>: a positive \<open>i64\<close> is a \<open>usize\<close>, a quarter of it an \<open>i64\<close>.\<close>

definition I64_MAX :: int where
  "I64_MAX = 2 ^ 63 - 1"

definition approx_tokens_from_byte_count_i64 :: "int \<Rightarrow> int" where
  "approx_tokens_from_byte_count_i64 bytes =
    (if bytes \<le> 0 then 0 else min (int (approx_tokens_from_byte_count (nat bytes))) I64_MAX)"

subsection \<open>Facts\<close>

text \<open>The bytes a budget stands for, without the saturation of \<open>byte_budget\<close>.\<close>

fun budget_bytes :: "truncation_policy \<Rightarrow> nat" where
  "budget_bytes (Bytes n) = n"
| "budget_bytes (Tokens n) = 4 * n"

definition texts_len :: "output_content_item list \<Rightarrow> nat" where
  "texts_len items = sum_list (map str_len (content_items_text items))"

lemma content_items_text_append [simp]: "content_items_text (a @ b) = content_items_text a @ content_items_text b"
  by (induction a rule: content_items_text.induct) simp_all

lemma texts_len_simps [simp]:
  "texts_len [] = 0" "texts_len (ItemText t # items) = str_len t + texts_len items"
  "texts_len (ItemImage u d # items) = texts_len items" "texts_len (a @ b) = texts_len a + texts_len b"
  by (simp_all add: texts_len_def)

lemma images_of_simps [simp]:
  "images_of [] = []" "images_of (ItemText t # items) = images_of items"
  "images_of (ItemImage u d # items) = ItemImage u d # images_of items" "images_of (a @ b) = images_of a @ images_of b"
  by (simp_all add: images_of_def)

lemma truncate_text_bound:
  obtains out where "truncate_text s policy = Some out" "str_len out \<le> byte_budget policy + 43" "out = [] \<longleftrightarrow> s = []"
proof (cases policy)
  case (Bytes n)
  obtain out where "truncate_with_byte_estimate s n False = Some out" using truncate_returns by blast
  with truncate_bound [OF this] show ?thesis using that [of out] Bytes
    by (simp add: truncate_text_def truncate_middle_chars_def)
next
  case (Tokens n)
  obtain out total where out: "truncate_middle_with_token_budget s n = Some (out, total)"
    "out = s \<and> str_len s \<le> approx_bytes_for_tokens n \<or> truncate_with_byte_estimate s (approx_bytes_for_tokens n) True = Some out"
    using token_truncation by blast
  from out(2) have "str_len out \<le> approx_bytes_for_tokens n + 43 \<and> (out = [] \<longleftrightarrow> s = [])"
    using truncate_bound [of s "approx_bytes_for_tokens n" True out] by auto
  with out(1) that [of out] Tokens show ?thesis by (simp add: truncate_text_def)
qed

lemma formatted_truncate_text_returns: "\<exists>out. formatted_truncate_text s policy = Some out"
  by (rule truncate_text_bound [of s policy]) (simp add: formatted_truncate_text_def Let_def)

lemma cost_covers:
  assumes "str_len text \<le> ISIZE_MAX"
  shows "str_len text \<le> budget_bytes (snippet_policy policy (text_cost policy text))"
proof (cases policy)
  case (Tokens n)
  have "sat_add (str_len text) 3 = str_len text + 3"
    using assms by (intro sat_add_id) (simp add: ISIZE_MAX_def USIZE_MAX_def)
  moreover have "str_len text \<le> 4 * ((str_len text + 3) div 4)" by simp
  ultimately show ?thesis
    using Tokens by (simp add: snippet_policy_def text_cost_def approx_token_count_def APPROX_BYTES_PER_TOKEN_def)
qed (simp_all add: snippet_policy_def text_cost_def)

lemma budget_bytes_add:
  "budget_bytes (snippet_policy policy (a + b)) = budget_bytes (snippet_policy policy a) + budget_bytes (snippet_policy policy b)"
  by (cases policy) (simp_all add: snippet_policy_def)

lemma byte_budget_le: "byte_budget policy \<le> budget_bytes policy"
  by (cases policy) (simp_all add: approx_bytes_for_tokens_def sat_mul_def APPROX_BYTES_PER_TOKEN_def)

lemma budget_policy: "snippet_policy policy (policy_budget policy) = policy"
  by (cases policy) (simp_all add: snippet_policy_def policy_budget_def)

lemma budget_bytes_mono: "a \<le> b \<Longrightarrow> budget_bytes (snippet_policy policy a) \<le> budget_bytes (snippet_policy policy b)"
  by (cases policy) (simp_all add: snippet_policy_def)

text \<open>
  What the loop adds to its output: the images in their order, texts within the remaining budget
  but for one marker, and at most one omission count per text.
\<close>

lemma truncate_items_spec:
  assumes "\<forall>t\<in>set (content_items_text items). str_len t \<le> ISIZE_MAX"
  shows "\<exists>added n. truncate_items policy items out remaining omitted = Some (out @ added, omitted + n)
    \<and> images_of added = images_of items \<and> length (content_items_text added) + n = length (content_items_text items)
    \<and> texts_len added \<le> budget_bytes (snippet_policy policy remaining) + (if remaining = 0 then 0 else 43)"
  using assms
proof (induction items arbitrary: out remaining omitted)
  case Nil
  show ?case by simp
next
  case (Cons item items)
  have ok: "\<forall>t\<in>set (content_items_text items). str_len t \<le> ISIZE_MAX" using Cons.prems by (cases item) simp_all
  note IH = Cons.IH [OF ok]
  show ?case
  proof (cases item)
    case (ItemImage url detail)
    with IH [of "out @ [item]" remaining omitted] show ?thesis by force
  next
    case (ItemText c)
    have len: "str_len c \<le> ISIZE_MAX" using Cons.prems ItemText by simp
    consider (empty) "remaining = 0" | (fits) "remaining \<noteq> 0" "text_cost policy c \<le> remaining"
      | (cut) "remaining \<noteq> 0" "remaining < text_cost policy c" by linarith
    then show ?thesis
    proof cases
      case empty
      with ItemText IH [of out remaining "omitted + 1"] show ?thesis by force
    next
      case fits
      have split: "remaining = text_cost policy c + (remaining - text_cost policy c)" using fits(2) by simp
      have b: "str_len c + budget_bytes (snippet_policy policy (remaining - text_cost policy c))
        \<le> budget_bytes (snippet_policy policy remaining)"
        using cost_covers [OF len, of policy] split budget_bytes_add by (metis add_le_mono1)
      obtain added n where IH': "truncate_items policy items (out @ [item]) (remaining - text_cost policy c) omitted
          = Some ((out @ [item]) @ added, omitted + n)" "images_of added = images_of items"
        "length (content_items_text added) + n = length (content_items_text items)"
        "texts_len added \<le> budget_bytes (snippet_policy policy (remaining - text_cost policy c))
          + (if remaining - text_cost policy c = 0 then 0 else 43)"
        using IH by blast
      have "texts_len (item # added) \<le> budget_bytes (snippet_policy policy remaining) + 43"
        using IH'(4) b ItemText by (auto split: if_splits)
      with IH'(1-3) fits ItemText show ?thesis
        by (intro exI [of _ "item # added"] exI [of _ n]) simp
    next
      case cut
      obtain snippet where s: "truncate_text c (snippet_policy policy remaining) = Some snippet"
        "str_len snippet \<le> byte_budget (snippet_policy policy remaining) + 43" "snippet = [] \<longleftrightarrow> c = []"
        using truncate_text_bound by blast
      have z: "text_cost policy [] = 0" by (cases policy) (simp_all add: text_cost_def approx_token_count_def sat_add_def
        APPROX_BYTES_PER_TOKEN_def)
      with s(3) cut have ne: "snippet \<noteq> []" by auto
      have zero: "budget_bytes (snippet_policy policy 0) = 0" by (cases policy) (simp_all add: snippet_policy_def)
      obtain added n where IH': "truncate_items policy items (out @ [ItemText snippet]) 0 omitted
          = Some ((out @ [ItemText snippet]) @ added, omitted + n)" "images_of added = images_of items"
        "length (content_items_text added) + n = length (content_items_text items)" "texts_len added = 0"
        using IH [of "out @ [ItemText snippet]" 0 omitted] zero by auto
      have "str_len snippet \<le> budget_bytes (snippet_policy policy remaining) + 43"
        using s(2) byte_budget_le [of "snippet_policy policy remaining"] by linarith
      with IH' cut ItemText s(1) ne show ?thesis
        by (intro exI [of _ "ItemText snippet # added"] exI [of _ n]) simp
    qed
  qed
qed

end
