(* ===== verification/Context_History.thy ===== *)
theory Context_History
  imports Context_Normalize Context_Fragments Output_Truncation
begin

section \<open>The history of a thread (core: context\_manager/history.rs)\<close>

text \<open>
  The transcript kept for the model, its truncation on recording, the rollback of turns, and the
  estimates of its size. \<open>'j\<close> are JSON values and \<open>'t\<close> the reference context item, which the code
  only stores. What JSON serialisation and image decoding give is a parameter: the byte length of
  an item, and the width and height of an image from its base64 payload. The cache of image
  estimates is a table of the results of a pure function and is left out.
\<close>

subsection \<open>Token usage (protocol.rs)\<close>

text \<open>\<open>i64\<close> arithmetic: the saturating operations, and \<open>+\<close>, which wraps in a release build.\<close>

definition I64_MIN :: int where
  "I64_MIN = - (2 ^ 63)"

definition sat_i64 :: "int \<Rightarrow> int" where
  "sat_i64 n = max I64_MIN (min n I64_MAX)"

definition wrap_i64 :: "int \<Rightarrow> int" where
  "wrap_i64 n = (n + 2 ^ 63) mod 2 ^ 64 - 2 ^ 63"

record token_usage =
  input_tokens :: int
  cached_input_tokens :: int
  output_tokens :: int
  reasoning_output_tokens :: int
  total_tokens :: int

definition token_usage_default :: token_usage where
  "token_usage_default = \<lparr>input_tokens = 0, cached_input_tokens = 0, output_tokens = 0,
     reasoning_output_tokens = 0, total_tokens = 0\<rparr>"

definition add_assign :: "token_usage \<Rightarrow> token_usage \<Rightarrow> token_usage" where
  "add_assign self other =
    \<lparr>input_tokens = wrap_i64 (input_tokens self + input_tokens other),
     cached_input_tokens = wrap_i64 (cached_input_tokens self + cached_input_tokens other),
     output_tokens = wrap_i64 (output_tokens self + output_tokens other),
     reasoning_output_tokens = wrap_i64 (reasoning_output_tokens self + reasoning_output_tokens other),
     total_tokens = wrap_i64 (total_tokens self + total_tokens other)\<rparr>"

record token_usage_info =
  total_token_usage :: token_usage
  last_token_usage :: token_usage
  model_context_window :: "int option"

definition append_last_usage :: "token_usage_info \<Rightarrow> token_usage \<Rightarrow> token_usage_info" where
  "append_last_usage info usage =
    info\<lparr>total_token_usage := add_assign (total_token_usage info) usage, last_token_usage := usage\<rparr>"

definition new_or_append ::
    "token_usage_info option \<Rightarrow> token_usage option \<Rightarrow> int option \<Rightarrow> token_usage_info option" where
  "new_or_append info usage window =
    (if info = None \<and> usage = None then None
     else
       (let info = (case info of
              Some info \<Rightarrow> info
            | None \<Rightarrow> \<lparr>total_token_usage = token_usage_default, last_token_usage = token_usage_default,
                        model_context_window = window\<rparr>);
            info = (case usage of Some usage \<Rightarrow> append_last_usage info usage | None \<Rightarrow> info)
        in Some (case window of Some w \<Rightarrow> info\<lparr>model_context_window := Some w\<rparr> | None \<Rightarrow> info)))"

definition fill_to_context_window :: "token_usage_info \<Rightarrow> int \<Rightarrow> token_usage_info" where
  "fill_to_context_window info window =
    (let delta = max (wrap_i64 (window - total_tokens (total_token_usage info))) 0 in
     info\<lparr>model_context_window := Some window,
          total_token_usage := token_usage_default\<lparr>total_tokens := window\<rparr>,
          last_token_usage := token_usage_default\<lparr>total_tokens := delta\<rparr>\<rparr>)"

definition full_context_window :: "int \<Rightarrow> token_usage_info" where
  "full_context_window window =
    fill_to_context_window
      \<lparr>total_token_usage = token_usage_default, last_token_usage = token_usage_default,
       model_context_window = Some window\<rparr> window"

subsection \<open>Kinds of items\<close>

fun is_api_message :: "'j response_item \<Rightarrow> bool" where
  "is_api_message (Message _ role _ _ _) = (role \<noteq> lit ''system'')"
| "is_api_message (GhostSnapshot _) = False"
| "is_api_message OtherItem = False"
| "is_api_message _ = True"

fun is_ghost_snapshot :: "'j response_item \<Rightarrow> bool" where
  "is_ghost_snapshot (GhostSnapshot _) = True"
| "is_ghost_snapshot _ = False"

fun is_model_generated_item :: "'j response_item \<Rightarrow> bool" where
  "is_model_generated_item (Message _ role _ _ _) = (role = lit ''assistant'')"
| "is_model_generated_item (FunctionCallOutput _ _) = False"
| "is_model_generated_item (ToolSearchOutput _ _ _ _) = False"
| "is_model_generated_item (CustomToolCallOutput _ _ _) = False"
| "is_model_generated_item (GhostSnapshot _) = False"
| "is_model_generated_item OtherItem = False"
| "is_model_generated_item _ = True"

fun is_codex_generated_item :: "'j response_item \<Rightarrow> bool" where
  "is_codex_generated_item (FunctionCallOutput _ _) = True"
| "is_codex_generated_item (ToolSearchOutput _ _ _ _) = True"
| "is_codex_generated_item (CustomToolCallOutput _ _ _) = True"
| "is_codex_generated_item (Message _ role _ _ _) = (role = lit ''developer'')"
| "is_codex_generated_item _ = False"

fun is_user_turn_boundary :: "context_libs \<Rightarrow> 'j response_item \<Rightarrow> bool" where
  "is_user_turn_boundary libs (Message _ role content _ _) =
    (role = lit ''user'' \<and> \<not> is_contextual_user_message_content libs content
     \<or> role = lit ''assistant'' \<and> is_message_content libs content)"
| "is_user_turn_boundary libs _ = False"

definition user_message_positions :: "context_libs \<Rightarrow> 'j response_item list \<Rightarrow> nat list" where
  "user_message_positions libs items = map fst (filter (\<lambda>(idx, item). is_user_turn_boundary libs item) (enumerate 0 items))"

subsection \<open>ContextManager\<close>

record ('j, 't) context_manager =
  items :: "'j response_item list"
  history_version :: nat
  token_info :: "token_usage_info option"
  reference_context_item :: "'t option"

definition context_new :: "('j, 't) context_manager" where
  "context_new = \<lparr>items = [], history_version = 0, token_info = new_or_append None None None,
     reference_context_item = None\<rparr>"

definition set_token_info :: "token_usage_info option \<Rightarrow> ('j, 't) context_manager \<Rightarrow> ('j, 't) context_manager" where
  "set_token_info info h = h\<lparr>token_info := info\<rparr>"

definition set_reference_context_item :: "'t option \<Rightarrow> ('j, 't) context_manager \<Rightarrow> ('j, 't) context_manager" where
  "set_reference_context_item item h = h\<lparr>reference_context_item := item\<rparr>"

definition set_token_usage_full :: "int \<Rightarrow> ('j, 't) context_manager \<Rightarrow> ('j, 't) context_manager" where
  "set_token_usage_full window h =
    (case token_info h of
       Some info \<Rightarrow> h\<lparr>token_info := Some (fill_to_context_window info window)\<rparr>
     | None \<Rightarrow> h\<lparr>token_info := Some (full_context_window window)\<rparr>)"

definition update_token_info :: "token_usage \<Rightarrow> int option \<Rightarrow> ('j, 't) context_manager \<Rightarrow> ('j, 't) context_manager" where
  "update_token_info usage window h = h\<lparr>token_info := new_or_append (token_info h) (Some usage) window\<rparr>"

definition truncate_function_output_payload :: "output_payload \<Rightarrow> truncation_policy \<Rightarrow> output_payload option" where
  "truncate_function_output_payload p policy =
    (case body p of
       BodyText content \<Rightarrow> map_option (\<lambda>t. \<lparr>body = BodyText t, success = success p\<rparr>) (truncate_text content policy)
     | BodyItems its \<Rightarrow>
         map_option (\<lambda>out. \<lparr>body = BodyItems out, success = success p\<rparr>)
           (truncate_function_output_items_with_policy its policy))"

fun process_item :: "'j response_item \<Rightarrow> truncation_policy \<Rightarrow> 'j response_item option" where
  "process_item (FunctionCallOutput call_id p) policy =
    map_option (FunctionCallOutput call_id) (truncate_function_output_payload p (policy_mul policy double_1_2))"
| "process_item (CustomToolCallOutput call_id name p) policy =
    map_option (CustomToolCallOutput call_id name) (truncate_function_output_payload p (policy_mul policy double_1_2))"
| "process_item item policy = Some item"

fun record_items :: "'j response_item list \<Rightarrow> truncation_policy \<Rightarrow> ('j, 't) context_manager \<Rightarrow> ('j, 't) context_manager option" where
  "record_items [] policy h = Some h"
| "record_items (item # rest) policy h =
    (if \<not> is_api_message item \<and> \<not> is_ghost_snapshot item then record_items rest policy h
     else
       (case process_item item policy of
          None \<Rightarrow> None
        | Some processed \<Rightarrow> record_items rest policy (h\<lparr>items := items h @ [processed]\<rparr>)))"

definition normalize_history ::
    "bool \<Rightarrow> input_modality list \<Rightarrow> ('j, 't) context_manager \<Rightarrow> ('j, 't) context_manager option" where
  "normalize_history debug modalities h = map_option (\<lambda>its. h\<lparr>items := its\<rparr>) (normalize_items debug modalities (items h))"

definition for_prompt :: "bool \<Rightarrow> input_modality list \<Rightarrow> ('j, 't) context_manager \<Rightarrow> 'j response_item list option" where
  "for_prompt debug modalities h =
    map_option (\<lambda>h. filter (\<lambda>i. \<not> is_ghost_snapshot i) (items h)) (normalize_history debug modalities h)"

definition bump :: "('j, 't) context_manager \<Rightarrow> ('j, 't) context_manager" where
  "bump h = h\<lparr>history_version := sat_add (history_version h) 1\<rparr>"

definition remove_first_item :: "('j, 't) context_manager \<Rightarrow> ('j, 't) context_manager" where
  "remove_first_item h =
    (case items h of [] \<Rightarrow> h | removed # rest \<Rightarrow> h\<lparr>items := remove_corresponding_for rest removed\<rparr>)"

definition remove_last_item :: "('j, 't) context_manager \<Rightarrow> bool \<times> ('j, 't) context_manager" where
  "remove_last_item h =
    (if items h = [] then (False, h)
     else (True, bump (h\<lparr>items := remove_corresponding_for (butlast (items h)) (last (items h))\<rparr>)))"

definition replace :: "'j response_item list \<Rightarrow> ('j, 't) context_manager \<Rightarrow> ('j, 't) context_manager" where
  "replace its h = bump (h\<lparr>items := its\<rparr>)"

definition rposition :: "('a \<Rightarrow> bool) \<Rightarrow> 'a list \<Rightarrow> nat option" where
  "rposition p xs = find (\<lambda>i. p (xs ! i)) (rev [0..<length xs])"

fun is_function_call_output :: "'j response_item \<Rightarrow> bool" where
  "is_function_call_output (FunctionCallOutput _ _) = True"
| "is_function_call_output _ = False"

definition replace_images :: "ustr \<Rightarrow> output_content_item list \<Rightarrow> output_content_item list" where
  "replace_images placeholder its = map (\<lambda>i. case i of ItemImage _ _ \<Rightarrow> ItemText placeholder | ItemText t \<Rightarrow> ItemText t) its"

definition replace_last_turn_images ::
    "context_libs \<Rightarrow> ustr \<Rightarrow> ('j, 't) context_manager \<Rightarrow> bool \<times> ('j, 't) context_manager" where
  "replace_last_turn_images libs placeholder h =
    (case rposition (\<lambda>i. is_function_call_output i \<or> is_user_turn_boundary libs i) (items h) of
       None \<Rightarrow> (False, h)
     | Some index \<Rightarrow>
         (case items h ! index of
            FunctionCallOutput call_id p \<Rightarrow>
              (case body p of
                 BodyText _ \<Rightarrow> (False, h)
               | BodyItems its \<Rightarrow>
                   (let replaced = (images_of its \<noteq> []);
                        h' = h\<lparr>items := (items h)[index := FunctionCallOutput call_id (p\<lparr>body := BodyItems (replace_images placeholder its)\<rparr>)]\<rparr>
                    in (replaced, if replaced then bump h' else h')))
          | _ \<Rightarrow> (False, h)))"

text \<open>
  The match of the walk back over the context updates before the cut: whether the item is one, and
  then whether it also holds text that is not, which clears the reference context item.
\<close>

fun context_update :: "context_libs \<Rightarrow> 'j response_item \<Rightarrow> bool option" where
  "context_update libs (Message _ role content _ _) =
    (if role = lit ''developer'' \<and> is_contextual_dev_message_content content then
       Some (has_non_contextual_dev_message_content content)
     else if role = lit ''user'' \<and> is_contextual_user_message_content libs content then Some False
     else None)"
| "context_update libs _ = None"

fun trim_pre_turn_context_updates ::
    "context_libs \<Rightarrow> 'j response_item list \<Rightarrow> nat \<Rightarrow> nat \<Rightarrow> bool \<Rightarrow> nat \<times> bool" where
  "trim_pre_turn_context_updates libs snapshot first_idx cut_idx cleared =
    (if cut_idx \<le> first_idx then (cut_idx, cleared)
     else
       (case context_update libs (snapshot ! (cut_idx - 1)) of
          Some clears \<Rightarrow> trim_pre_turn_context_updates libs snapshot first_idx (cut_idx - 1) (cleared \<or> clears)
        | None \<Rightarrow> (cut_idx, cleared)))"

declare trim_pre_turn_context_updates.simps [simp del]

definition drop_last_n_user_turns ::
    "context_libs \<Rightarrow> nat \<Rightarrow> ('j, 't) context_manager \<Rightarrow> ('j, 't) context_manager" where
  "drop_last_n_user_turns libs num_turns h =
    (if num_turns = 0 then h
     else
       (let snapshot = items h; user_positions = user_message_positions libs snapshot in
        (case user_positions of
           [] \<Rightarrow> replace snapshot h
         | first_instruction_turn_idx # _ \<Rightarrow>
             (let cut_idx = (if length user_positions \<le> num_turns then first_instruction_turn_idx
                             else user_positions ! (length user_positions - num_turns));
                  (cut_idx, cleared) = trim_pre_turn_context_updates libs snapshot first_instruction_turn_idx cut_idx False;
                  h' = (if cleared then h\<lparr>reference_context_item := None\<rparr> else h)
              in replace (take cut_idx snapshot) h'))))"

subsection \<open>Estimates\<close>

record 'j estimate_libs =
  serialized_len :: "'j response_item \<Rightarrow> nat option"
  image_size :: "ustr \<Rightarrow> (nat \<times> nat) option"

definition estimate_reasoning_length :: "nat \<Rightarrow> nat" where
  "estimate_reasoning_length encoded_len = sat_mul encoded_len 3 div 4 - 650"

definition RESIZED_IMAGE_BYTES_ESTIMATE :: int where
  "RESIZED_IMAGE_BYTES_ESTIMATE = 7373"

definition ORIGINAL_IMAGE_PATCH_SIZE :: int where
  "ORIGINAL_IMAGE_PATCH_SIZE = 32"

text \<open>The slice after the scheme cannot panic: the scheme has no comma, so it ends before the metadata does.\<close>

definition parse_base64_image_data_url :: "ustr \<Rightarrow> ustr option" where
  "parse_base64_image_data_url url =
    (if \<not> has_marker_prefix (lit ''data:'') url then None
     else
       (case split_once 44 url of
          None \<Rightarrow> None
        | Some (metadata, payload) \<Rightarrow>
            (case slice_from 5 metadata of
               None \<Rightarrow> None
             | Some metadata_without_scheme \<Rightarrow>
                 (let metadata_parts = split_on 59 metadata_without_scheme;
                      mime_type = hd metadata_parts;
                      has_base64_marker = list_ex (\<lambda>part. eq_ignore_ascii_case part (lit ''base64'')) (tl metadata_parts)
                  in if \<not> has_marker_prefix (lit ''image/'') mime_type then None
                     else if \<not> has_base64_marker then None
                     else Some payload))))"

definition estimate_original_image_bytes :: "'j estimate_libs \<Rightarrow> ustr \<Rightarrow> int option" where
  "estimate_original_image_bytes libs image_url =
    (case parse_base64_image_data_url image_url of
       None \<Rightarrow> None
     | Some payload \<Rightarrow>
         (case image_size libs payload of
            None \<Rightarrow> None
          | Some (width, height) \<Rightarrow>
              (let patches_wide = sat_i64 (int width + (ORIGINAL_IMAGE_PATCH_SIZE - 1)) div ORIGINAL_IMAGE_PATCH_SIZE;
                   patches_high = sat_i64 (int height + (ORIGINAL_IMAGE_PATCH_SIZE - 1)) div ORIGINAL_IMAGE_PATCH_SIZE;
                   patch_count = nat (sat_i64 (patches_wide * patches_high))
               in Some (min (int (approx_bytes_for_tokens patch_count)) I64_MAX))))"

definition accumulate_image :: "'j estimate_libs \<Rightarrow> ustr \<Rightarrow> image_detail option \<Rightarrow> int \<times> int \<Rightarrow> int \<times> int" where
  "accumulate_image libs image_url detail = (\<lambda>(payload_bytes, replacement_bytes).
    case parse_base64_image_data_url image_url of
      None \<Rightarrow> (payload_bytes, replacement_bytes)
    | Some payload \<Rightarrow>
        (sat_i64 (payload_bytes + min (int (str_len payload)) I64_MAX),
         sat_i64 (replacement_bytes
           + (if detail = Some OriginalDetail then
                (case estimate_original_image_bytes libs image_url of Some n \<Rightarrow> n | None \<Rightarrow> RESIZED_IMAGE_BYTES_ESTIMATE)
              else RESIZED_IMAGE_BYTES_ESTIMATE))))"

definition content_images :: "content_item list \<Rightarrow> (ustr \<times> image_detail option) list" where
  "content_images content = List.map_filter (\<lambda>i. case i of InputImage url detail \<Rightarrow> Some (url, detail) | _ \<Rightarrow> None) content"

definition payload_images :: "output_payload \<Rightarrow> (ustr \<times> image_detail option) list" where
  "payload_images p = (case body p of
      BodyText _ \<Rightarrow> []
    | BodyItems its \<Rightarrow> List.map_filter (\<lambda>i. case i of ItemImage url detail \<Rightarrow> Some (url, detail) | _ \<Rightarrow> None) its)"

fun image_data_url_estimate_adjustment :: "'j estimate_libs \<Rightarrow> 'j response_item \<Rightarrow> int \<times> int" where
  "image_data_url_estimate_adjustment libs (Message _ _ content _ _) =
    fold (\<lambda>(url, detail). accumulate_image libs url detail) (content_images content) (0, 0)"
| "image_data_url_estimate_adjustment libs (FunctionCallOutput _ p) =
    fold (\<lambda>(url, detail). accumulate_image libs url detail) (payload_images p) (0, 0)"
| "image_data_url_estimate_adjustment libs (CustomToolCallOutput _ _ p) =
    fold (\<lambda>(url, detail). accumulate_image libs url detail) (payload_images p) (0, 0)"
| "image_data_url_estimate_adjustment libs _ = (0, 0)"

definition serialized_estimate :: "'j estimate_libs \<Rightarrow> 'j response_item \<Rightarrow> int" where
  "serialized_estimate libs item =
    (let raw = (case serialized_len libs item of Some n \<Rightarrow> min (int n) I64_MAX | None \<Rightarrow> 0);
         (payload_bytes, replacement_bytes) = image_data_url_estimate_adjustment libs item
     in if payload_bytes = 0 \<or> replacement_bytes = 0 then raw
        else sat_i64 (sat_i64 (raw - payload_bytes) + replacement_bytes))"

fun estimate_response_item_model_visible_bytes :: "'j estimate_libs \<Rightarrow> 'j response_item \<Rightarrow> int" where
  "estimate_response_item_model_visible_bytes libs (GhostSnapshot _) = 0"
| "estimate_response_item_model_visible_bytes libs (Reasoning _ _ _ (Some content)) =
    min (int (estimate_reasoning_length (str_len content))) I64_MAX"
| "estimate_response_item_model_visible_bytes libs (Compaction content) =
    min (int (estimate_reasoning_length (str_len content))) I64_MAX"
| "estimate_response_item_model_visible_bytes libs item = serialized_estimate libs item"

definition estimate_item_token_count :: "'j estimate_libs \<Rightarrow> 'j response_item \<Rightarrow> int" where
  "estimate_item_token_count libs item =
    approx_tokens_from_byte_count_i64 (estimate_response_item_model_visible_bytes libs item)"

definition sum_i64 :: "int list \<Rightarrow> int" where
  "sum_i64 ns = fold (\<lambda>n acc. sat_i64 (acc + n)) ns 0"

definition estimate_token_count_with_base_instructions :: "'j estimate_libs \<Rightarrow> ustr \<Rightarrow> ('j, 't) context_manager \<Rightarrow> int option" where
  "estimate_token_count_with_base_instructions libs base_instructions h =
    (let base_tokens = min (int (approx_token_count base_instructions)) I64_MAX;
         items_tokens = sum_i64 (map (estimate_item_token_count libs) (items h))
     in Some (sat_i64 (base_tokens + items_tokens)))"

fun has_encrypted_reasoning :: "'j response_item \<Rightarrow> bool" where
  "has_encrypted_reasoning (Reasoning _ _ _ (Some _)) = True"
| "has_encrypted_reasoning _ = False"

definition get_non_last_reasoning_items_tokens :: "context_libs \<Rightarrow> 'j estimate_libs \<Rightarrow> ('j, 't) context_manager \<Rightarrow> int" where
  "get_non_last_reasoning_items_tokens clibs libs h =
    (case rposition (is_user_turn_boundary clibs) (items h) of
       None \<Rightarrow> 0
     | Some last_user_index \<Rightarrow>
         sum_i64 (map (estimate_item_token_count libs) (filter has_encrypted_reasoning (take last_user_index (items h)))))"

definition items_after_last_model_generated_item :: "('j, 't) context_manager \<Rightarrow> 'j response_item list" where
  "items_after_last_model_generated_item h =
    (let start = (case rposition is_model_generated_item (items h) of None \<Rightarrow> length (items h) | Some index \<Rightarrow> sat_add index 1)
     in drop start (items h))"

definition get_total_token_usage :: "context_libs \<Rightarrow> 'j estimate_libs \<Rightarrow> bool \<Rightarrow> ('j, 't) context_manager \<Rightarrow> int" where
  "get_total_token_usage clibs libs server_reasoning_included h =
    (let last_tokens = (case token_info h of Some info \<Rightarrow> total_tokens (last_token_usage info) | None \<Rightarrow> 0);
         after_tokens = sum_i64 (map (estimate_item_token_count libs) (items_after_last_model_generated_item h))
     in if server_reasoning_included then sat_i64 (last_tokens + after_tokens)
        else sat_i64 (sat_i64 (last_tokens + get_non_last_reasoning_items_tokens clibs libs h) + after_tokens))"

record total_token_usage_breakdown =
  last_api_response_total_tokens :: int
  all_history_items_model_visible_bytes :: int
  estimated_tokens_of_items_added :: int
  estimated_bytes_of_items_added :: int

definition get_total_token_usage_breakdown :: "'j estimate_libs \<Rightarrow> ('j, 't) context_manager \<Rightarrow> total_token_usage_breakdown" where
  "get_total_token_usage_breakdown libs h =
    (let last_usage = (case token_info h of Some info \<Rightarrow> last_token_usage info | None \<Rightarrow> token_usage_default);
         added = items_after_last_model_generated_item h
     in \<lparr>last_api_response_total_tokens = total_tokens last_usage,
         all_history_items_model_visible_bytes = sum_i64 (map (estimate_response_item_model_visible_bytes libs) (items h)),
         estimated_tokens_of_items_added = sum_i64 (map (estimate_item_token_count libs) added),
         estimated_bytes_of_items_added = sum_i64 (map (estimate_response_item_model_visible_bytes libs) added)\<rparr>)"

end
