(* ===== verification/Context_Facts.thy ===== *)
theory Context_Facts
  imports Context_History
begin

section \<open>Facts about the history\<close>

subsection \<open>Removing an item with its counterpart\<close>

text \<open>No call id is used by two calls, or by two outputs, of a kind.\<close>

definition unique_keys :: "'j response_item list \<Rightarrow> bool" where
  "unique_keys its \<longleftrightarrow> distinct (List.map_filter call_key its) \<and> distinct (List.map_filter output_key its)"

lemma map_filter_simps:
  "List.map_filter f (x # xs) = (case f x of None \<Rightarrow> List.map_filter f xs | Some y \<Rightarrow> y # List.map_filter f xs)"
  "List.map_filter f (xs @ ys) = List.map_filter f xs @ List.map_filter f ys"
  "List.map_filter f [] = []"
  by (simp_all add: List.map_filter_def split: option.splits)

lemma in_map_filter: "y \<in> set (List.map_filter f xs) \<longleftrightarrow> (\<exists>x\<in>set xs. f x = Some y)"
  by (force simp: List.map_filter_def)

lemma no_other_key:
  "\<lbrakk>distinct (List.map_filter f (i # rest)); f i = Some k; x \<in> set rest\<rbrakk> \<Longrightarrow> f x \<noteq> Some k"
  by (auto simp: map_filter_simps in_map_filter)

lemma distinct_map_filter_filter:
  "distinct (List.map_filter f xs) \<Longrightarrow> distinct (List.map_filter f (filter p xs))"
  by (induction xs) (fastforce simp: map_filter_simps in_map_filter split: option.splits)+

lemma unique_keys_filter: "unique_keys its \<Longrightarrow> unique_keys (filter p its)"
  by (simp add: unique_keys_def distinct_map_filter_filter)

lemma unique_keys_rest: "unique_keys (i # rest) \<Longrightarrow> unique_keys rest"
  by (auto simp: unique_keys_def map_filter_simps split: option.splits)

lemma unique_keys_rotate: "unique_keys (rest @ [i]) \<longleftrightarrow> unique_keys (i # rest)"
  by (auto simp: unique_keys_def map_filter_simps split: option.splits)

lemma remove_first_no_match: "(\<And>x. x \<in> set xs \<Longrightarrow> \<not> p x) \<Longrightarrow> remove_first_matching p xs = xs"
  by (induction xs) auto

lemma remove_first_unique:
  "distinct (List.map_filter f xs) \<Longrightarrow> remove_first_matching (\<lambda>x. f x = Some k) xs = filter (\<lambda>x. f x \<noteq> Some k) xs"
proof (induction xs)
  case (Cons x xs)
  show ?case
  proof (cases "f x = Some k")
    case True
    have "f y \<noteq> Some k" if "y \<in> set xs" for y using no_other_key [OF Cons.prems True that] .
    with True show ?thesis by (simp add: filter_id_conv)
  next
    case False
    have "distinct (List.map_filter f xs)" using Cons.prems by (auto simp: map_filter_simps split: option.splits)
    with False Cons.IH show ?thesis by simp
  qed
qed simp

lemma remove_first_cong:
  "(\<And>x. x \<in> set xs \<Longrightarrow> p x = q x) \<Longrightarrow> remove_first_matching p xs = remove_first_matching q xs"
  by (induction xs) simp_all

text \<open>With unique ids a call takes its output along, and an output its call.\<close>

lemma remove_for_call:
  assumes "unique_keys rest" and "call_key i = Some k"
  shows "remove_corresponding_for rest i = filter (\<lambda>x. output_key x \<noteq> Some k) rest"
proof -
  have "remove_corresponding_for rest i = remove_first_matching (\<lambda>x. output_key x = Some k) rest"
    using assms(2) by (cases i rule: call_key.cases) (auto simp: output_key_fun)
  with assms(1) show ?thesis by (simp add: unique_keys_def remove_first_unique)
qed

lemma remove_for_function_output:
  assumes "distinct (List.map_filter call_key rest)"
  shows "(if list_ex (\<lambda>i. function_call_id i = Some call_id) rest then
       remove_first_matching (\<lambda>i. function_call_id i = Some call_id) rest
     else if list_ex (\<lambda>i. local_shell_call_id i = Some call_id) rest then
       remove_first_matching (\<lambda>i. local_shell_call_id i = Some call_id) rest
     else rest) = remove_first_matching (\<lambda>i. call_key i = Some (FunctionKind, call_id)) rest"
  using assms
proof (induction rest)
  case (Cons x rest)
  have d: "distinct (List.map_filter call_key rest)" using Cons.prems by (auto simp: map_filter_simps split: option.splits)
  show ?case
  proof (cases "call_key x = Some (FunctionKind, call_id)")
    case True
    have n: "call_key y \<noteq> Some (FunctionKind, call_id)" if "y \<in> set rest" for y
      using no_other_key [OF Cons.prems True that] .
    then have "\<not> list_ex (\<lambda>i. function_call_id i = Some call_id) rest"
      by (auto simp: list_ex_iff call_key_iff)
    with True show ?thesis by (auto simp: call_key_iff)
  next
    case False
    then have "function_call_id x \<noteq> Some call_id" "local_shell_call_id x \<noteq> Some call_id" by (auto simp: call_key_iff)
    with False Cons.IH [OF d] show ?thesis by (simp split: if_splits)
  qed
qed simp

lemma remove_for_output:
  assumes "unique_keys rest" and "output_key i = Some k"
  shows "remove_corresponding_for rest i = filter (\<lambda>x. call_key x \<noteq> Some k) rest"
proof -
  have d: "distinct (List.map_filter call_key rest)" using assms(1) by (simp add: unique_keys_def)
  have "remove_corresponding_for rest i = remove_first_matching (\<lambda>x. call_key x = Some k) rest"
    using assms(2) remove_for_function_output [OF d]
    by (cases i rule: output_key.cases) (auto simp: call_key_iff)
  with d show ?thesis by (simp add: remove_first_unique)
qed

lemma remove_for_other:
  "\<lbrakk>call_key i = None; output_key i = None\<rbrakk> \<Longrightarrow> remove_corresponding_for rest i = rest"
  by (cases "(rest, i)" rule: remove_corresponding_for.cases) simp_all

lemma remove_keeps_pairs:
  assumes "unique_keys (i # rest)" and "paired its" and "set its = insert i (set rest)"
  shows "paired (remove_corresponding_for rest i) \<and> unique_keys (remove_corresponding_for rest i)"
proof -
  have u: "unique_keys rest" using assms(1) by (rule unique_keys_rest)
  have dc: "distinct (List.map_filter call_key (i # rest))" and do: "distinct (List.map_filter output_key (i # rest))"
    using assms(1) by (simp_all add: unique_keys_def)
  have a: "\<exists>out\<in>set its. output_key out = Some k" if "x \<in> set rest" "call_key x = Some k" for x k
    using assms(2,3) that unfolding paired_def answered_def by blast
  have c: "\<exists>c\<in>set its. call_key c = Some k" if "x \<in> set rest" "output_key x = Some k" "\<not> from_server x" for x k
    using assms(2,3) that unfolding paired_def called_def by blast
  consider (call) k where "call_key i = Some k" | (out) k where "output_key i = Some k"
    | (other) "call_key i = None" "output_key i = None" by fastforce
  then show ?thesis
  proof cases
    case call
    let ?r = "filter (\<lambda>x. output_key x \<noteq> Some k) rest"
    have i: "output_key i = None" using call by (rule not_both)
    have "answered ?r x" if x: "x \<in> set ?r" for x
      unfolding answered_def
    proof (intro allI impI)
      fix k' assume k': "call_key x = Some k'"
      from x k' have "k' \<noteq> k" using no_other_key [OF dc call, of x] by auto
      moreover obtain out where "out \<in> set its" "output_key out = Some k'" using a [of x k'] x k' by auto
      ultimately show "\<exists>out\<in>set ?r. output_key out = Some k'" using assms(3) i by auto
    qed
    moreover have "called ?r x" if x: "x \<in> set ?r" for x
      unfolding called_def
    proof (intro allI impI)
      fix k' assume k': "output_key x = Some k' \<and> \<not> from_server x"
      with x have "k' \<noteq> k" by auto
      moreover obtain c where c': "c \<in> set its" "call_key c = Some k'" using c [of x k'] x k' by auto
      ultimately have "c \<noteq> i" using call by auto
      with c' assms(3) not_both [OF c'(2)] show "\<exists>c\<in>set ?r. call_key c = Some k'" by auto
    qed
    ultimately show ?thesis
      unfolding remove_for_call [OF u call] using u by (simp add: paired_def unique_keys_filter)
  next
    case out
    let ?r = "filter (\<lambda>x. call_key x \<noteq> Some k) rest"
    have i: "call_key i = None" using out not_both by (cases "call_key i") fastforce+
    have "answered ?r x" if x: "x \<in> set ?r" for x
      unfolding answered_def
    proof (intro allI impI)
      fix k' assume k': "call_key x = Some k'"
      with x have "k' \<noteq> k" by auto
      moreover obtain o' where o': "o' \<in> set its" "output_key o' = Some k'" using a [of x k'] x k' by auto
      ultimately have "o' \<noteq> i" using out by auto
      moreover have "call_key o' = None" using o'(2) not_both by (cases "call_key o'") fastforce+
      ultimately show "\<exists>out\<in>set ?r. output_key out = Some k'" using o' assms(3) by auto
    qed
    moreover have "called ?r x" if x: "x \<in> set ?r" for x
      unfolding called_def
    proof (intro allI impI)
      fix k' assume k': "output_key x = Some k' \<and> \<not> from_server x"
      from x k' have "k' \<noteq> k" using no_other_key [OF do out, of x] by auto
      moreover obtain c where "c \<in> set its" "call_key c = Some k'" using c [of x k'] x k' by auto
      ultimately show "\<exists>c\<in>set ?r. call_key c = Some k'" using assms(3) i by auto
    qed
    ultimately show ?thesis
      unfolding remove_for_output [OF u out] using u by (simp add: paired_def unique_keys_filter)
  next
    case other
    have "answered rest x" if "x \<in> set rest" for x
      using a [OF that] assms(3) other unfolding answered_def by (metis insert_iff option.distinct(1))
    moreover have "called rest x" if "x \<in> set rest" for x
      using c [OF that] assms(3) other unfolding called_def by (metis insert_iff option.distinct(1))
    ultimately show ?thesis
      unfolding remove_for_other [OF other] using u by (simp add: paired_def)
  qed
qed

subsection \<open>Rolling back turns\<close>

lemma context_update_not_boundary:
  "context_update libs i = Some clears \<Longrightarrow> \<not> is_user_turn_boundary libs i"
  by (cases i) (auto split: if_splits)

text \<open>The walk back stays above the first turn and passes no turn boundary.\<close>

lemma trim_spec:
  "trim_pre_turn_context_updates libs snapshot first_idx cut_idx cleared = (stop_idx, cleared') \<Longrightarrow>
     stop_idx \<le> cut_idx \<and> min first_idx cut_idx \<le> stop_idx
   \<and> (\<forall>i. stop_idx \<le> i \<and> i < cut_idx \<longrightarrow> \<not> is_user_turn_boundary libs (snapshot ! i))"
proof (induction libs snapshot first_idx cut_idx cleared rule: trim_pre_turn_context_updates.induct)
  case (1 libs snapshot first_idx cut_idx cleared)
  note e = "1.prems" [unfolded trim_pre_turn_context_updates.simps [of libs snapshot first_idx cut_idx]]
  show ?case
  proof (cases "cut_idx \<le> first_idx \<or> context_update libs (snapshot ! (cut_idx - 1)) = None")
    case True
    with e have "stop_idx = cut_idx" by (auto split: if_splits)
    then show ?thesis by auto
  next
    case False
    then obtain clears where c: "\<not> cut_idx \<le> first_idx" "context_update libs (snapshot ! (cut_idx - 1)) = Some clears" by auto
    with e have t: "trim_pre_turn_context_updates libs snapshot first_idx (cut_idx - 1) (cleared \<or> clears) = (stop_idx, cleared')"
      by simp
    note IH = "1.IH" [OF c t]
    have "\<not> is_user_turn_boundary libs (snapshot ! j)" if j: "stop_idx \<le> j" "j < cut_idx" for j
    proof (cases "j = cut_idx - 1")
      case True
      with context_update_not_boundary [OF c(2)] show ?thesis by simp
    next
      case False
      with j have "j < cut_idx - 1" by linarith
      with IH j show ?thesis by blast
    qed
    moreover have "stop_idx \<le> cut_idx" "min first_idx cut_idx \<le> stop_idx" using IH c(1) by linarith+
    ultimately show ?thesis by blast
  qed
qed

definition turn_count :: "context_libs \<Rightarrow> 'j response_item list \<Rightarrow> nat" where
  "turn_count libs its = length (filter (is_user_turn_boundary libs) its)"

lemma positions_nth:
  assumes "k < length (map fst (filter (\<lambda>(i, x). P x) (enumerate j xs)))"
  shows "\<exists>c. map fst (filter (\<lambda>(i, x). P x) (enumerate j xs)) ! k = j + c \<and> c < length xs \<and> P (xs ! c)
    \<and> length (filter P (take c xs)) = k"
  using assms
proof (induction xs arbitrary: j k)
  case (Cons x xs)
  show ?case
  proof (cases "P x")
    case False
    with Cons.prems have "k < length (map fst (filter (\<lambda>(i, x). P x) (enumerate (Suc j) xs)))" by simp
    from Cons.IH [OF this] obtain c where
      "map fst (filter (\<lambda>(i, x). P x) (enumerate (Suc j) xs)) ! k = Suc j + c" "c < length xs" "P (xs ! c)"
      "length (filter P (take c xs)) = k" by blast
    with False show ?thesis by (intro exI [of _ "Suc c"]) simp
  next
    case True
    show ?thesis
    proof (cases k)
      case 0
      with True show ?thesis by (intro exI [of _ 0]) simp
    next
      case (Suc k')
      with True Cons.prems have "k' < length (map fst (filter (\<lambda>(i, x). P x) (enumerate (Suc j) xs)))" by simp
      from Cons.IH [OF this] obtain c where
        "map fst (filter (\<lambda>(i, x). P x) (enumerate (Suc j) xs)) ! k' = Suc j + c" "c < length xs" "P (xs ! c)"
        "length (filter P (take c xs)) = k'" by blast
      with True Suc show ?thesis by (intro exI [of _ "Suc c"]) simp
    qed
  qed
qed simp

lemma length_filter_enumerate: "length (filter (\<lambda>(i, x). P x) (enumerate j xs)) = length (filter P xs)"
  by (induction xs arbitrary: j) simp_all

lemma length_positions: "length (user_message_positions libs its) = turn_count libs its"
  by (simp add: user_message_positions_def turn_count_def length_filter_enumerate)

lemma position_nth:
  assumes "k < turn_count libs its"
  shows "user_message_positions libs its ! k < length its
    \<and> is_user_turn_boundary libs (its ! (user_message_positions libs its ! k))
    \<and> turn_count libs (take (user_message_positions libs its ! k) its) = k"
proof -
  have "k < length (map fst (filter (\<lambda>(i, x). is_user_turn_boundary libs x) (enumerate 0 its)))"
    using assms by (simp add: turn_count_def length_filter_enumerate)
  from positions_nth [OF this] obtain c where "user_message_positions libs its ! k = c" "c < length its"
    "is_user_turn_boundary libs (its ! c)" "length (filter (is_user_turn_boundary libs) (take c its)) = k"
    unfolding user_message_positions_def by auto
  then show ?thesis by (simp add: turn_count_def)
qed

lemma sorted_positions: "sorted (user_message_positions libs its)"
  unfolding user_message_positions_def by (rule sorted_filter) simp

lemma turn_count_shrink:
  assumes "a \<le> b" and "b \<le> length its" and "\<forall>i. a \<le> i \<and> i < b \<longrightarrow> \<not> is_user_turn_boundary libs (its ! i)"
  shows "turn_count libs (take a its) = turn_count libs (take b its)"
proof -
  have "take b its = take a its @ take (b - a) (drop a its)"
    using assms(1) by (metis take_add le_add_diff_inverse)
  moreover have "filter (is_user_turn_boundary libs) (take (b - a) (drop a its)) = []"
  proof -
    have "\<not> is_user_turn_boundary libs x" if "x \<in> set (take (b - a) (drop a its))" for x
    proof -
      from that obtain n where "n < length (take (b - a) (drop a its))" "take (b - a) (drop a its) ! n = x"
        by (auto simp: in_set_conv_nth)
      with assms show ?thesis by auto
    qed
    then show ?thesis by (simp add: filter_empty_conv)
  qed
  ultimately show ?thesis by (simp add: turn_count_def)
qed

lemma drop_turns:
  assumes "n \<noteq> 0" and "turn_count libs (items h) \<noteq> 0"
  shows "\<exists>c. items (drop_last_n_user_turns libs n h) = take c (items h)
    \<and> turn_count libs (take c (items h)) = turn_count libs (items h) - n
    \<and> user_message_positions libs (items h) ! 0 \<le> c
    \<and> history_version (drop_last_n_user_turns libs n h) = sat_add (history_version h) 1"
proof -
  let ?its = "items h"
  let ?ps = "user_message_positions libs ?its"
  have len: "length ?ps = turn_count libs ?its" by (rule length_positions)
  with assms(2) obtain first more where ps: "?ps = first # more" by (cases ?ps) auto
  let ?k = "turn_count libs ?its - n"
  define cut_idx where "cut_idx = (if length ?ps \<le> n then first else ?ps ! (length ?ps - n))"
  have k: "cut_idx = ?ps ! ?k" using ps len by (auto simp: cut_idx_def)
  have "?k < turn_count libs ?its" using assms by simp
  note at = position_nth [OF this]
  obtain stop_idx cleared where t: "trim_pre_turn_context_updates libs ?its first cut_idx False = (stop_idx, cleared)"
    by (cases "trim_pre_turn_context_updates libs ?its first cut_idx False")
  note trim = trim_spec [OF t]
  have "turn_count libs (take stop_idx ?its) = ?k"
    using turn_count_shrink [of stop_idx cut_idx ?its libs] trim at k by simp
  moreover have "first \<le> cut_idx"
  proof -
    have "sorted ?ps" by (rule sorted_positions)
    then have "?ps ! 0 \<le> ?ps ! ?k" using \<open>?k < turn_count libs ?its\<close> len by (intro sorted_nth_mono) simp_all
    with ps k show ?thesis by simp
  qed
  then have "first \<le> stop_idx" using trim by linarith
  moreover have "drop_last_n_user_turns libs n h
      = replace (take stop_idx ?its) (if cleared then h\<lparr>reference_context_item := None\<rparr> else h)"
    using assms(1) ps t unfolding cut_idx_def by (simp add: drop_last_n_user_turns_def Let_def)
  ultimately show ?thesis
    by (intro exI [of _ stop_idx]) (simp add: ps replace_def bump_def)
qed

subsection \<open>Recording\<close>

text \<open>What the texts of a payload may take: the scaled budget, one marker, and the omission note.\<close>

fun payload_texts :: "output_body \<Rightarrow> ustr list" where
  "payload_texts (BodyText content) = [content]"
| "payload_texts (BodyItems its) = content_items_text its"

fun payload_of :: "'j response_item \<Rightarrow> output_payload option" where
  "payload_of (FunctionCallOutput _ p) = Some p"
| "payload_of (CustomToolCallOutput _ _ p) = Some p"
| "payload_of _ = None"

definition texts_bounded :: "truncation_policy \<Rightarrow> output_body \<Rightarrow> bool" where
  "texts_bounded policy b \<longleftrightarrow> sum_list (map str_len (payload_texts b)) \<le> budget_bytes policy + 88"

text \<open>A body as a running program can hold it.\<close>

definition in_memory :: "output_body \<Rightarrow> bool" where
  "in_memory b \<longleftrightarrow> (\<forall>t\<in>set (payload_texts b). str_len t \<le> ISIZE_MAX) \<and> length (payload_texts b) \<le> ISIZE_MAX"

lemma omitted_note_len: "n \<le> ISIZE_MAX \<Longrightarrow> str_len (omitted_note n) \<le> 45"
proof -
  assume "n \<le> ISIZE_MAX"
  then have "length (show_nat n) \<le> 20" by (intro length_show_nat) (simp_all add: ISIZE_MAX_def)
  moreover have "str_len (lit ''[omitted '') = 9" "str_len (lit '' text items ...]'') = 16" by code_simp+
  ultimately show ?thesis by (simp add: omitted_note_def)
qed

lemma truncated_payload:
  assumes "in_memory (body p)"
  shows "\<exists>q. truncate_function_output_payload p policy = Some q \<and> success q = success p \<and> texts_bounded policy (body q)
    \<and> (\<forall>its its'. body p = BodyItems its \<and> body q = BodyItems its' \<longrightarrow> images_of its' = images_of its)"
proof (cases "body p")
  case (BodyText c)
  obtain out where "truncate_text c policy = Some out" "str_len out \<le> byte_budget policy + 43"
    using truncate_text_bound by blast
  moreover then have "str_len out \<le> budget_bytes policy + 43" using byte_budget_le [of policy] by linarith
  ultimately show ?thesis using BodyText by (simp add: truncate_function_output_payload_def texts_bounded_def)
next
  case (BodyItems its)
  have ok: "\<forall>t\<in>set (content_items_text its). str_len t \<le> ISIZE_MAX" "length (content_items_text its) \<le> ISIZE_MAX"
    using assms BodyItems by (simp_all add: in_memory_def)
  obtain added n where a: "truncate_items policy its [] (policy_budget policy) 0 = Some (added, n)"
    "images_of added = images_of its" "length (content_items_text added) + n = length (content_items_text its)"
    "texts_len added \<le> budget_bytes policy + (if policy_budget policy = 0 then 0 else 43)"
    using truncate_items_spec [OF ok(1), of policy "[]" "policy_budget policy" 0] by (auto simp: budget_policy)
  have len: "texts_len added \<le> budget_bytes policy + 43" using a(4) by (simp split: if_splits)
  have "str_len (omitted_note n) \<le> 45" using a(3) ok(2) by (intro omitted_note_len) linarith
  with a(1,2) len show ?thesis
    using BodyItems
    by (auto simp: truncate_function_output_payload_def truncate_function_output_items_with_policy_def
        texts_bounded_def texts_len_def)
qed

text \<open>How a recorded item is kept: its texts cut, its keys the same, other items as they are.\<close>

definition kept_as :: "truncation_policy \<Rightarrow> 'j response_item \<Rightarrow> 'j response_item \<Rightarrow> bool" where
  "kept_as policy i j \<longleftrightarrow> call_key j = call_key i \<and> output_key j = output_key i
    \<and> (\<forall>q. payload_of j = Some q \<longrightarrow> texts_bounded (policy_mul policy double_1_2) (body q))
    \<and> (payload_of i = None \<longrightarrow> j = i)"

lemma process_item_ok:
  assumes "\<forall>p. payload_of i = Some p \<longrightarrow> in_memory (body p)"
  shows "\<exists>j. process_item i policy = Some j \<and> kept_as policy i j"
proof -
  have other: ?thesis if "payload_of i = None" "process_item i policy = Some i" using that by (simp add: kept_as_def)
  show ?thesis
  proof (cases i)
    case (FunctionCallOutput c p)
    with assms truncated_payload [of p "policy_mul policy double_1_2"] show ?thesis by (auto simp: kept_as_def)
  next
    case (CustomToolCallOutput c n p)
    with assms truncated_payload [of p "policy_mul policy double_1_2"] show ?thesis by (auto simp: kept_as_def)
  qed (use other in simp_all)
qed

definition recorded :: "'j response_item \<Rightarrow> bool" where
  "recorded i \<longleftrightarrow> is_api_message i \<or> is_ghost_snapshot i"

lemma record_items_step:
  "\<not> recorded i \<Longrightarrow> record_items (i # its) policy h = record_items its policy h"
  "\<lbrakk>recorded i; process_item i policy = Some j\<rbrakk> \<Longrightarrow>
    record_items (i # its) policy h = record_items its policy (h\<lparr>items := items h @ [j]\<rparr>)"
  by (auto simp: recorded_def)

lemma record_items_spec:
  assumes "\<forall>i\<in>set its. \<forall>p. payload_of i = Some p \<longrightarrow> in_memory (body p)"
  shows "\<exists>new. record_items its policy h = Some (h\<lparr>items := items h @ new\<rparr>)
    \<and> list_all2 (kept_as policy) (filter recorded its) new"
  using assms
proof (induction its arbitrary: h)
  case (Cons i its)
  then have ok: "\<forall>i\<in>set its. \<forall>p. payload_of i = Some p \<longrightarrow> in_memory (body p)" by simp
  show ?case
  proof (cases "recorded i")
    case False
    with Cons.IH [OF ok, of h] record_items_step(1) [OF False, of its policy h] show ?thesis
      by (simp del: record_items.simps)
  next
    case True
    obtain j where j: "process_item i policy = Some j" "kept_as policy i j"
      using process_item_ok [of i policy] Cons.prems by auto
    obtain new where "record_items its policy (h\<lparr>items := items h @ [j]\<rparr>) = Some (h\<lparr>items := items h @ [j] @ new\<rparr>)"
      "list_all2 (kept_as policy) (filter recorded its) new"
      using Cons.IH [OF ok, of "h\<lparr>items := items h @ [j]\<rparr>"] by auto
    with j(2) True record_items_step(2) [OF True j(1), of its h] show ?thesis
      by (intro exI [of _ "j # new"]) (simp del: record_items.simps)
  qed
qed simp

end
