(* ===== verification/String_Utils.thy ===== *)
theory String_Utils
  imports Text_Truncation
begin

section \<open>Strings for metrics and links (utils/string/src/lib.rs)\<close>

subsection \<open>A prefix within a byte budget\<close>

fun last_fitting :: "nat \<Rightarrow> (nat \<times> nat) list \<Rightarrow> nat \<Rightarrow> nat" where
  "last_fitting maxb [] last_ok = last_ok"
| "last_fitting maxb ((i, ch) # rest) last_ok =
    (let nb = i + len_utf8 ch in if maxb < nb then last_ok else last_fitting maxb rest nb)"

definition take_bytes_at_char_boundary :: "ustr \<Rightarrow> nat \<Rightarrow> ustr option" where
  "take_bytes_at_char_boundary s maxb =
    (if str_len s \<le> maxb then Some s else slice_to (last_fitting maxb (char_indices 0 s) 0) s)"

lemma last_fitting_spec:
  assumes "i \<le> maxb"
  shows "\<exists>r rest. s = r @ rest \<and> last_fitting maxb (char_indices i s) i = i + str_len r \<and> i + str_len r \<le> maxb
    \<and> (rest \<noteq> [] \<longrightarrow> maxb < i + str_len r + len_utf8 (hd rest))"
  using assms
proof (induction s arbitrary: i)
  case (Cons c s)
  show ?case
  proof (cases "maxb < i + len_utf8 c")
    case True
    with Cons.prems show ?thesis by (intro exI [of _ "[]"] exI [of _ "c # s"]) simp
  next
    case False
    then have "i + len_utf8 c \<le> maxb" by simp
    from Cons.IH [OF this] obtain r rest where r: "s = r @ rest"
      "last_fitting maxb (char_indices (i + len_utf8 c) s) (i + len_utf8 c) = i + len_utf8 c + str_len r"
      "i + len_utf8 c + str_len r \<le> maxb" "rest \<noteq> [] \<longrightarrow> maxb < i + len_utf8 c + str_len r + len_utf8 (hd rest)" by blast
    with False show ?thesis by (intro exI [of _ "c # r"] exI [of _ rest]) (simp add: add.assoc)
  qed
qed simp

lemma take_bytes_longest_prefix:
  "\<exists>r rest. take_bytes_at_char_boundary s maxb = Some r \<and> s = r @ rest \<and> str_len r \<le> maxb
    \<and> (rest \<noteq> [] \<longrightarrow> maxb < str_len r + len_utf8 (hd rest))"
proof (cases "str_len s \<le> maxb")
  case True
  then show ?thesis by (intro exI [of _ s] exI [of _ "[]"]) (simp add: take_bytes_at_char_boundary_def)
next
  case False
  obtain r rest where r: "s = r @ rest" "last_fitting maxb (char_indices 0 s) 0 = str_len r" "str_len r \<le> maxb"
    "rest \<noteq> [] \<longrightarrow> maxb < str_len r + len_utf8 (hd rest)"
    using last_fitting_spec [of 0 maxb s] by auto
  with False have "take_bytes_at_char_boundary s maxb = Some r"
    by (simp add: take_bytes_at_char_boundary_def slice_to_append)
  with r show ?thesis by blast
qed

subsection \<open>Metric tags\<close>

definition is_ascii_alphanumeric :: "nat \<Rightarrow> bool" where
  "is_ascii_alphanumeric c \<longleftrightarrow> 48 \<le> c \<and> c \<le> 57 \<or> 65 \<le> c \<and> c \<le> 90 \<or> 97 \<le> c \<and> c \<le> 122"

abbreviation c_underscore :: nat where "c_underscore \<equiv> 95"

definition tag_char :: "nat \<Rightarrow> bool" where
  "tag_char c \<longleftrightarrow> is_ascii_alphanumeric c \<or> c \<in> set [c_dot, c_underscore, c_minus, c_slash]"

definition MAX_LEN :: nat where
  "MAX_LEN = 256"

definition sanitize_metric_tag_value :: "ustr \<Rightarrow> ustr option" where
  "sanitize_metric_tag_value v =
    (let sanitized = map (\<lambda>ch. if tag_char ch then ch else c_underscore) v;
         trimmed = trim_end_matches (\<lambda>c. c = c_underscore) (trim_start_matches (\<lambda>c. c = c_underscore) sanitized)
     in if trimmed = [] \<or> list_all (\<lambda>ch. \<not> is_ascii_alphanumeric ch) trimmed then Some (lit ''unspecified'')
        else if str_len trimmed \<le> MAX_LEN then Some trimmed
        else slice_to MAX_LEN trimmed)"

lemma str_len_ascii: "list_all (\<lambda>c. c < 128) s \<Longrightarrow> str_len s = length s"
  by (induction s) (simp_all add: len_utf8_def)

lemma tag_char_ascii: "tag_char c \<Longrightarrow> c < 128"
  by (auto simp: tag_char_def is_ascii_alphanumeric_def)

lemma sanitize_metric_tag_value_ok:
  "\<exists>r. sanitize_metric_tag_value v = Some r \<and> r \<noteq> [] \<and> str_len r \<le> MAX_LEN \<and> list_all tag_char r"
proof -
  let ?u = "\<lambda>c. c = c_underscore"
  define sanitized where "sanitized = map (\<lambda>ch. if tag_char ch then ch else c_underscore) v"
  define trimmed where "trimmed = trim_end_matches ?u (trim_start_matches ?u sanitized)"
  have "set trimmed \<subseteq> set sanitized"
    unfolding trimmed_def trim_end_matches_def trim_start_matches_def by (auto dest!: set_dropWhileD)
  moreover have "list_all tag_char sanitized" by (auto simp: sanitized_def list_all_iff tag_char_def)
  ultimately have tags: "list_all tag_char trimmed" by (auto simp: list_all_iff)
  then have ascii: "list_all (\<lambda>c. c < 128) trimmed" by (auto simp: list_all_iff tag_char_ascii)
  have e: "sanitize_metric_tag_value v =
    (if trimmed = [] \<or> list_all (\<lambda>ch. \<not> is_ascii_alphanumeric ch) trimmed then Some (lit ''unspecified'')
     else if str_len trimmed \<le> MAX_LEN then Some trimmed else slice_to MAX_LEN trimmed)"
    by (simp only: sanitize_metric_tag_value_def Let_def sanitized_def trimmed_def)
  have u: "lit ''unspecified'' \<noteq> []" "str_len (lit ''unspecified'') \<le> MAX_LEN" "list_all tag_char (lit ''unspecified'')"
    by code_simp+
  consider (none) "trimmed = [] \<or> list_all (\<lambda>ch. \<not> is_ascii_alphanumeric ch) trimmed"
    | (short) "trimmed \<noteq> []" "\<not> list_all (\<lambda>ch. \<not> is_ascii_alphanumeric ch) trimmed" "str_len trimmed \<le> MAX_LEN"
    | (long) "trimmed \<noteq> []" "\<not> list_all (\<lambda>ch. \<not> is_ascii_alphanumeric ch) trimmed" "MAX_LEN < str_len trimmed"
    by linarith
  then show ?thesis
  proof cases
    case none
    then have "sanitize_metric_tag_value v = Some (lit ''unspecified'')" unfolding e by (rule if_P)
    with u show ?thesis by blast
  next
    case short
    with e tags show ?thesis by simp
  next
    case long
    have l: "length trimmed = str_len trimmed" using ascii by (simp add: str_len_ascii)
    have "list_all (\<lambda>c. c < 128) (take MAX_LEN trimmed)" using ascii by (auto simp: list_all_iff dest: in_set_takeD)
    then have n: "str_len (take MAX_LEN trimmed) = MAX_LEN" using l long by (simp add: str_len_ascii)
    have "slice_to MAX_LEN (take MAX_LEN trimmed @ drop MAX_LEN trimmed) = Some (take MAX_LEN trimmed)"
      by (rule slice_to_append) (simp add: n)
    then have "sanitize_metric_tag_value v = Some (take MAX_LEN trimmed)" using e long by simp
    moreover have "list_all tag_char (take MAX_LEN trimmed)" using tags by (auto simp: list_all_iff dest: in_set_takeD)
    ultimately show ?thesis using n long by (intro exI [of _ "take MAX_LEN trimmed"]) (auto simp: MAX_LEN_def)
  qed
qed

subsection \<open>Locations of markdown links\<close>

abbreviation c_hash :: nat where "c_hash \<equiv> 35"

definition parse_markdown_hash_location_point :: "ustr \<Rightarrow> (ustr \<times> ustr option) option" where
  "parse_markdown_hash_location_point point =
    (case strip_prefix (lit ''L'') point of
       None \<Rightarrow> None
     | Some point \<Rightarrow>
         (case split_once 67 point of
            Some (line, column) \<Rightarrow> Some (line, Some column)
          | None \<Rightarrow> Some (point, None)))"

definition push_column :: "ustr option \<Rightarrow> ustr" where
  "push_column column = (case column of None \<Rightarrow> [] | Some column \<Rightarrow> c_colon # column)"

definition normalize_markdown_hash_location_suffix :: "ustr \<Rightarrow> ustr option" where
  "normalize_markdown_hash_location_suffix suffix =
    (case strip_prefix [c_hash] suffix of
       None \<Rightarrow> None
     | Some fragment \<Rightarrow>
         (let (start, stop) = (case split_once c_minus fragment of Some (start, stop) \<Rightarrow> (start, Some stop) | None \<Rightarrow> (fragment, None)) in
          (case parse_markdown_hash_location_point start of
             None \<Rightarrow> None
           | Some (start_line, start_column) \<Rightarrow>
               (let normalized = [c_colon] @ start_line @ push_column start_column in
                (case stop of
                   None \<Rightarrow> Some normalized
                 | Some stop \<Rightarrow>
                     (case parse_markdown_hash_location_point stop of
                        None \<Rightarrow> None
                      | Some (end_line, end_column) \<Rightarrow>
                          Some (normalized @ [c_minus] @ end_line @ push_column end_column)))))))"

lemma parse_point:
  "67 \<notin> set line \<Longrightarrow> parse_markdown_hash_location_point (lit ''L'' @ line @ (case column of None \<Rightarrow> [] | Some c \<Rightarrow> 67 # c))
    = Some (line, column)"
  by (cases column) (simp_all add: parse_markdown_hash_location_point_def split_once_None_iff [THEN iffD2]
      split_once_Some_iff [THEN iffD2])

lemma normalize_range:
  assumes "67 \<notin> set l" "67 \<notin> set l'" "c_minus \<notin> set l" "\<forall>c. column = Some c \<longrightarrow> c_minus \<notin> set c"
  shows "normalize_markdown_hash_location_suffix
      ([c_hash] @ (lit ''L'' @ l @ (case column of None \<Rightarrow> [] | Some c \<Rightarrow> 67 # c))
        @ [c_minus] @ (lit ''L'' @ l' @ (case column' of None \<Rightarrow> [] | Some c \<Rightarrow> 67 # c)))
    = Some ([c_colon] @ l @ push_column column @ [c_minus] @ l' @ push_column column')"
proof -
  let ?p = "lit ''L'' @ l @ (case column of None \<Rightarrow> [] | Some c \<Rightarrow> 67 # c)"
  have "c_minus \<notin> set ?p" using assms(3,4) by (auto simp: lit_def split: option.splits)
  then have "split_once c_minus (?p @ c_minus # r) = Some (?p, r)" for r by (simp add: split_once_Some_iff)
  then show ?thesis
    using parse_point [OF assms(1), of column] parse_point [OF assms(2), of column']
    by (simp add: normalize_markdown_hash_location_suffix_def del: append_assoc)
qed

end
