(* ===== verification/Output_Properties.thy ===== *)
theory Output_Properties
  imports Head_Tail_Buffer Context_Facts String_Utils
begin

section \<open>Properties of outputs and of the history\<close>

text \<open>C24: A text that is too long is cut in the middle and nowhere else. Truncating never panics on
  a character boundary. A text within the budget is returned as it is; of a longer one the result
  keeps a beginning within half of the budget and an end within the other half, both as long as the
  characters next to them allow, around a marker that counts exactly the characters removed. The
  result is never more than the 43 bytes of the longest marker over the budget.\<close>

theorem truncation_keeps_both_ends:
  "\<exists>out. truncate_middle_chars s limit = Some out \<and> str_len out \<le> limit + 43
    \<and> (if s = [] \<or> str_len s \<le> limit then out = s
       else \<exists>left gap right. keeps_ends (limit div 2) (limit - limit div 2) s left gap right \<and> gap \<noteq> []
         \<and> out = left @ format_truncation_marker False (min (length gap) USIZE_MAX) @ right)"
proof (cases rule: truncate_cases [of s limit False])
  case fits
  with truncate_bound [OF fits(1)] show ?thesis by (auto simp: truncate_middle_chars_def)
next
  case (cut left gap right)
  have "removed_units False (str_len s - limit) (length gap) = min (length gap) USIZE_MAX" by (simp add: removed_units_def)
  with cut truncate_bound [OF cut(5)] show ?thesis by (auto simp: truncate_middle_chars_def)
qed

text \<open>C25: The output of a running command is kept as its beginning and its end. For any sequence of
  chunks and drains, the buffer returns everything pushed since the last drain while that fits, and
  otherwise the first half of the limit and the last half, whatever the sizes of the chunks; it
  never holds more than the limit, its length counter is exact, and its count of omitted bytes is
  exact up to saturation.\<close>

theorem retained_output_is_head_and_tail:
  assumes "m \<le> USIZE_MAX"
  shows "to_bytes (run_ops m ops) = (if length (log_of ops) \<le> m then log_of ops
      else take (m div 2) (log_of ops) @ last_bytes (m - m div 2) (log_of ops))
    \<and> concat (snapshot_chunks (run_ops m ops)) = to_bytes (run_ops m ops)
    \<and> retained_bytes (run_ops m ops) = length (to_bytes (run_ops m ops)) \<and> retained_bytes (run_ops m ops) \<le> m
    \<and> omitted_bytes (run_ops m ops) = min (length (log_of ops) - m) USIZE_MAX"
  using holds_to_bytes [OF holds_run_ops [OF assms]] holds_counts [OF holds_run_ops [OF assms] assms] concat_snapshot
  by blast

theorem retained_output_is_head_and_tail_witness:
  "(6::nat) \<le> USIZE_MAX \<and> to_bytes (run_ops 6 [Push [0::nat, 1, 2, 3], Push [4, 5, 6], Push [7, 8, 9]]) = [0, 1, 2, 7, 8, 9]
    \<and> omitted_bytes (run_ops 6 [Push [0::nat, 1, 2, 3], Push [4, 5, 6], Push [7, 8, 9]]) = 4"
proof -
  have m: "(6::nat) \<le> USIZE_MAX" by (simp add: USIZE_MAX_def)
  have "log_of [Push [0::nat, 1, 2, 3], Push [4, 5, 6], Push [7, 8, 9]] = [0, 1, 2, 3, 4, 5, 6, 7, 8, 9]"
    by (simp add: log_of_def)
  with retained_output_is_head_and_tail [OF m, of "[Push [0::nat, 1, 2, 3], Push [4, 5, 6], Push [7, 8, 9]]"] m
  show ?thesis by (simp add: last_bytes_def USIZE_MAX_def)
qed

text \<open>Recording bounds what a tool's output can add to the history. Recording returns for any
  items a process can hold; it appends exactly the recorded items in their order, each with its call
  id and kind, changed only where it is the output of a tool, and then the texts of the output take
  at most the policy's budget, scaled by the serialisation factor, and 88 bytes for the markers.\<close>

lemma recorded_outputs_are_bounded:
  assumes "\<forall>i\<in>set its. \<forall>p. payload_of i = Some p \<longrightarrow> in_memory (body p)"
  shows "\<exists>new. record_items its policy h = Some (h\<lparr>items := items h @ new\<rparr>)
    \<and> list_all2 (kept_as policy) (filter recorded its) new"
  by (rule record_items_spec [OF assms])

text \<open>C26: The history sent to the model is complete. In a release build normalising never fails, and
  gives the recorded items in their order without the outputs that answer no call, each unanswered
  call directly followed by an output that says it was aborted; then every call with a call id has an
  output and every output with one (but those of server side searches) a call, and normalising again
  changes nothing. Items without a call id (a shell call or a tool search that has none, a web search, an
  image generation) are exempt. A debug build panics or gives the same.\<close>

theorem normalized_history_is_paired:
  "normalize_items False modalities its = Some (strip_images_when_unsupported modalities (completed its))
   \<and> paired (strip_images_when_unsupported modalities (completed its))
   \<and> normalize_items False modalities (strip_images_when_unsupported modalities (completed its))
     = Some (strip_images_when_unsupported modalities (completed its))
   \<and> normalize_items True modalities its \<in> {None, normalize_items False modalities its}"
  using normalize_release [of modalities its] paired_completed [of its] normalize_idem [of modalities its]
    normalize_debug [of modalities its] by auto

text \<open>Dropping the oldest or the newest item keeps the history complete: when every call has an
  output, every output a call and no call id is used twice, then removing an item takes its
  counterpart along, and the same holds of what is left.\<close>

lemma removal_keeps_history_paired:
  assumes "paired (items h)" and "unique_keys (items h)"
  shows "(paired (items (remove_first_item h)) \<and> unique_keys (items (remove_first_item h)))
    \<and> (paired (items (snd (remove_last_item h))) \<and> unique_keys (items (snd (remove_last_item h))))"
proof
  show "paired (items (remove_first_item h)) \<and> unique_keys (items (remove_first_item h))"
  proof (cases "items h")
    case Nil
    with assms show ?thesis by (simp add: remove_first_item_def)
  next
    case (Cons i rest)
    then have "set (items h) = insert i (set rest)" by simp
    from remove_keeps_pairs [OF assms(2) [unfolded Cons] assms(1) this] Cons show ?thesis
      by (simp add: remove_first_item_def)
  qed
  show "paired (items (snd (remove_last_item h))) \<and> unique_keys (items (snd (remove_last_item h)))"
  proof (cases "items h = []")
    case True
    with assms show ?thesis by (simp add: remove_last_item_def)
  next
    case False
    then have e: "items h = butlast (items h) @ [last (items h)]" by simp
    then have "unique_keys (last (items h) # butlast (items h))"
      using assms(2) unique_keys_rotate [of "butlast (items h)" "last (items h)"] by simp
    moreover have "set (items h) = insert (last (items h)) (set (butlast (items h)))" by (subst e) simp
    ultimately show ?thesis
      using remove_keeps_pairs [OF _ assms(1)] False by (simp add: remove_last_item_def bump_def)
  qed
qed

definition answered_call :: "unit response_item list" where
  "answered_call = [FunctionCall None (lit ''shell'') None [] (lit ''c1''), OtherItem,
     FunctionCallOutput (lit ''c1'') (payload_from_text [])]"

text \<open>A rollback drops exactly the turns asked for. Dropping the last turns leaves a beginning of
  the history with that many turns fewer (none if there are not so many), and never shortens what
  came before the first turn; without a turn the items stay. Every rollback of a turn or more
  counts as a rewrite of the history, also one that finds no turn to drop.\<close>

lemma rollback_drops_the_last_turns:
  "history_version (drop_last_n_user_turns libs n h) = (if n = 0 then history_version h else sat_add (history_version h) 1)
   \<and> (if n = 0 \<or> turn_count libs (items h) = 0 then items (drop_last_n_user_turns libs n h) = items h
      else \<exists>c. items (drop_last_n_user_turns libs n h) = take c (items h)
        \<and> turn_count libs (items (drop_last_n_user_turns libs n h)) = turn_count libs (items h) - n
        \<and> user_message_positions libs (items h) ! 0 \<le> c)"
proof (cases "n = 0 \<or> turn_count libs (items h) = 0")
  case True
  show ?thesis
  proof (cases "n = 0")
    case True
    then show ?thesis by (simp add: drop_last_n_user_turns_def)
  next
    case False
    with True have "user_message_positions libs (items h) = []" using length_positions [of libs "items h"] by simp
    with True False show ?thesis by (simp add: drop_last_n_user_turns_def replace_def bump_def)
  qed
next
  case False
  then have "n \<noteq> 0" "turn_count libs (items h) \<noteq> 0" by simp_all
  from drop_turns [OF this] False show ?thesis by auto
qed

end
