(* ===== verification/Chunking.thy ===== *)
theory Chunking
  imports Prelude
begin

section \<open>Pacing of streamed lines (tui/src/streaming/chunking.rs)\<close>

text \<open>
  The two-gear policy that decides how many queued lines a tick commits. An \<open>Instant\<close> is a number
  of nanoseconds, so \<open>saturating_duration_since\<close> is subtraction on \<open>nat\<close>.
\<close>

definition from_millis :: "nat \<Rightarrow> nat" where
  "from_millis n = n * 1000000"

definition ENTER_QUEUE_DEPTH_LINES :: nat where
  "ENTER_QUEUE_DEPTH_LINES = 8"

definition ENTER_OLDEST_AGE :: nat where
  "ENTER_OLDEST_AGE = from_millis 120"

definition EXIT_QUEUE_DEPTH_LINES :: nat where
  "EXIT_QUEUE_DEPTH_LINES = 2"

definition EXIT_OLDEST_AGE :: nat where
  "EXIT_OLDEST_AGE = from_millis 40"

definition EXIT_HOLD :: nat where
  "EXIT_HOLD = from_millis 250"

definition REENTER_CATCH_UP_HOLD :: nat where
  "REENTER_CATCH_UP_HOLD = from_millis 250"

definition SEVERE_QUEUE_DEPTH_LINES :: nat where
  "SEVERE_QUEUE_DEPTH_LINES = 64"

definition SEVERE_OLDEST_AGE :: nat where
  "SEVERE_OLDEST_AGE = from_millis 300"

datatype chunking_mode = Smooth | CatchUp

record queue_snapshot =
  snap_lines :: nat
  snap_age :: "nat option"

datatype drain_plan = Single | Batch nat

record chunking_decision =
  decided_mode :: chunking_mode
  entered_catch_up :: bool
  decided_plan :: drain_plan

record chunking_policy =
  policy_mode :: chunking_mode
  below_exit_threshold_since :: "nat option"
  last_catch_up_exit_at :: "nat option"

definition policy_default :: chunking_policy where
  "policy_default = \<lparr>policy_mode = Smooth, below_exit_threshold_since = None, last_catch_up_exit_at = None\<rparr>"

definition policy_reset :: "chunking_policy \<Rightarrow> chunking_policy" where
  "policy_reset p = p\<lparr>policy_mode := Smooth, below_exit_threshold_since := None, last_catch_up_exit_at := None\<rparr>"

definition is_some_and :: "'a option \<Rightarrow> ('a \<Rightarrow> bool) \<Rightarrow> bool" where
  "is_some_and x f = (case x of None \<Rightarrow> False | Some a \<Rightarrow> f a)"

definition should_enter_catch_up :: "queue_snapshot \<Rightarrow> bool" where
  "should_enter_catch_up s \<longleftrightarrow>
     ENTER_QUEUE_DEPTH_LINES \<le> snap_lines s \<or> is_some_and (snap_age s) (\<lambda>oldest. ENTER_OLDEST_AGE \<le> oldest)"

definition should_exit_catch_up :: "queue_snapshot \<Rightarrow> bool" where
  "should_exit_catch_up s \<longleftrightarrow>
     snap_lines s \<le> EXIT_QUEUE_DEPTH_LINES \<and> is_some_and (snap_age s) (\<lambda>oldest. oldest \<le> EXIT_OLDEST_AGE)"

definition is_severe_backlog :: "queue_snapshot \<Rightarrow> bool" where
  "is_severe_backlog s \<longleftrightarrow>
     SEVERE_QUEUE_DEPTH_LINES \<le> snap_lines s \<or> is_some_and (snap_age s) (\<lambda>oldest. SEVERE_OLDEST_AGE \<le> oldest)"

definition reentry_hold_active :: "nat \<Rightarrow> chunking_policy \<Rightarrow> bool" where
  "reentry_hold_active now p = is_some_and (last_catch_up_exit_at p) (\<lambda>exit. now - exit < REENTER_CATCH_UP_HOLD)"

definition maybe_enter_catch_up :: "queue_snapshot \<Rightarrow> nat \<Rightarrow> chunking_policy \<Rightarrow> bool \<times> chunking_policy" where
  "maybe_enter_catch_up s now p =
    (if \<not> should_enter_catch_up s then (False, p)
     else if reentry_hold_active now p \<and> \<not> is_severe_backlog s then (False, p)
     else (True, p\<lparr>policy_mode := CatchUp, below_exit_threshold_since := None, last_catch_up_exit_at := None\<rparr>))"

definition maybe_exit_catch_up :: "queue_snapshot \<Rightarrow> nat \<Rightarrow> chunking_policy \<Rightarrow> chunking_policy" where
  "maybe_exit_catch_up s now p =
    (if \<not> should_exit_catch_up s then p\<lparr>below_exit_threshold_since := None\<rparr>
     else
       (case below_exit_threshold_since p of
          Some since \<Rightarrow>
            if EXIT_HOLD \<le> now - since then
              p\<lparr>policy_mode := Smooth, below_exit_threshold_since := None, last_catch_up_exit_at := Some now\<rparr>
            else p
        | None \<Rightarrow> p\<lparr>below_exit_threshold_since := Some now\<rparr>))"

definition note_catch_up_exit :: "nat \<Rightarrow> chunking_policy \<Rightarrow> chunking_policy" where
  "note_catch_up_exit now p = (if policy_mode p = CatchUp then p\<lparr>last_catch_up_exit_at := Some now\<rparr> else p)"

definition policy_decide :: "queue_snapshot \<Rightarrow> nat \<Rightarrow> chunking_policy \<Rightarrow> chunking_decision \<times> chunking_policy" where
  "policy_decide s now p =
    (if snap_lines s = 0 then
       (let p = (note_catch_up_exit now p)\<lparr>policy_mode := Smooth, below_exit_threshold_since := None\<rparr>
        in (\<lparr>decided_mode = policy_mode p, entered_catch_up = False, decided_plan = Single\<rparr>, p))
     else
       (let (entered, p) = (case policy_mode p of
              Smooth \<Rightarrow> maybe_enter_catch_up s now p
            | CatchUp \<Rightarrow> (False, maybe_exit_catch_up s now p));
            plan = (case policy_mode p of Smooth \<Rightarrow> Single | CatchUp \<Rightarrow> Batch (max (snap_lines s) 1))
        in (\<lparr>decided_mode = policy_mode p, entered_catch_up = entered, decided_plan = plan\<rparr>, p)))"

subsection \<open>Runs of the policy\<close>

text \<open>The policy after a sequence of decisions, each on a snapshot at a time.\<close>

definition after_decision :: "queue_snapshot \<times> nat \<Rightarrow> chunking_policy \<Rightarrow> chunking_policy" where
  "after_decision = (\<lambda>(s, now) p. snd (policy_decide s now p))"

definition policy_after :: "(queue_snapshot \<times> nat) list \<Rightarrow> chunking_policy" where
  "policy_after ins = fold after_decision ins policy_default"

lemma policy_after_simps [simp]:
  "policy_after [] = policy_default" "policy_after (ins @ [x]) = after_decision x (policy_after ins)"
  by (simp_all add: policy_after_def)

definition calm :: "queue_snapshot \<times> nat \<Rightarrow> bool" where
  "calm x \<longleftrightarrow> snap_lines (fst x) \<noteq> 0 \<and> should_exit_catch_up (fst x)"

lemmas decide_defs = policy_decide_def maybe_enter_catch_up_def maybe_exit_catch_up_def note_catch_up_exit_def Let_def

lemma decide_below:
  assumes "below_exit_threshold_since (snd (policy_decide s now p)) = Some t"
  shows "(policy_mode p = CatchUp \<or> below_exit_threshold_since p = Some t)
    \<and> calm (s, now) \<and> (t = now \<and> below_exit_threshold_since p = None \<or> below_exit_threshold_since p = Some t)
   \<or> policy_mode p = Smooth \<and> below_exit_threshold_since p = Some t"
  using assms by (cases "policy_mode p") (auto simp: decide_defs calm_def split: if_splits option.splits)

lemma below_only_in_catch_up: "below_exit_threshold_since (policy_after ins) \<noteq> None \<Longrightarrow> policy_mode (policy_after ins) = CatchUp"
proof (induction ins rule: rev_induct)
  case Nil
  then show ?case by (simp add: policy_default_def)
next
  case (snoc x ins)
  then show ?case
    by (cases x; cases "policy_mode (policy_after ins)")
      (auto simp: after_decision_def decide_defs split: if_splits option.splits)
qed

text \<open>The start of the hold is the time of a decision since when the queue was calm.\<close>

lemma below_since:
  "below_exit_threshold_since (policy_after ins) = Some t \<Longrightarrow>
     \<exists>pre s mid. ins = pre @ (s, t) # mid \<and> list_all calm ((s, t) # mid)"
proof (induction ins rule: rev_induct)
  case Nil
  then show ?case by (simp add: policy_default_def)
next
  case (snoc x ins)
  obtain s now where x: "x = (s, now)" by (cases x)
  have b: "below_exit_threshold_since (snd (policy_decide s now (policy_after ins))) = Some t"
    using snoc.prems by (simp add: x after_decision_def)
  have smooth: "\<not> (policy_mode (policy_after ins) = Smooth \<and> below_exit_threshold_since (policy_after ins) = Some t)"
    using below_only_in_catch_up [of ins] by auto
  from decide_below [OF b] smooth have c: "calm (s, now)"
    "t = now \<and> below_exit_threshold_since (policy_after ins) = None \<or> below_exit_threshold_since (policy_after ins) = Some t"
    by blast+
  from c(2) show ?case
  proof
    assume "t = now \<and> below_exit_threshold_since (policy_after ins) = None"
    with c(1) x show ?thesis by (intro exI [of _ ins] exI [of _ s] exI [of _ "[]"]) simp
  next
    assume "below_exit_threshold_since (policy_after ins) = Some t"
    from snoc.IH [OF this] obtain pre s' mid where m: "ins = pre @ (s', t) # mid" "list_all calm ((s', t) # mid)" by blast
    with c(1) x show ?thesis by (intro exI [of _ pre] exI [of _ s'] exI [of _ "mid @ [x]"]) simp
  qed
qed

text \<open>Catch-up ends with an empty queue, or after the queue was calm for the whole hold.\<close>

lemma exit_after_hold:
  assumes "policy_mode (policy_after ins) = CatchUp" and "policy_mode (policy_after (ins @ [(s, now)])) = Smooth"
  shows "snap_lines s = 0 \<or> (\<exists>pre s' t mid. ins = pre @ (s', t) # mid \<and> EXIT_HOLD \<le> now - t
    \<and> list_all calm ((s', t) # mid @ [(s, now)]))"
proof (cases "snap_lines s = 0")
  case False
  from assms have d: "policy_mode (snd (policy_decide s now (policy_after ins))) = Smooth" by (simp add: after_decision_def)
  with assms(1) False obtain t where t: "below_exit_threshold_since (policy_after ins) = Some t" "EXIT_HOLD \<le> now - t"
    "should_exit_catch_up s"
    by (auto simp: decide_defs split: if_splits option.splits)
  moreover obtain pre s' mid where "ins = pre @ (s', t) # mid" "list_all calm ((s', t) # mid)"
    using below_since [OF t(1)] by blast
  ultimately show ?thesis using False by (auto simp: calm_def)
qed simp

lemma exit_is_noted:
  assumes "policy_mode p = CatchUp" and "policy_mode (snd (policy_decide s now p)) = Smooth"
  shows "last_catch_up_exit_at (snd (policy_decide s now p)) = Some now"
  using assms by (auto simp: decide_defs split: if_splits option.splits)

lemma smooth_keeps_exit:
  assumes "policy_mode p = Smooth" and "policy_mode (snd (policy_decide s now p)) = Smooth"
  shows "last_catch_up_exit_at (snd (policy_decide s now p)) = last_catch_up_exit_at p"
  using assms by (auto simp: decide_defs split: if_splits)

lemma enter_after_hold:
  assumes "policy_mode p = Smooth" and "last_catch_up_exit_at p = Some t"
    and "policy_mode (snd (policy_decide s now p)) = CatchUp"
  shows "REENTER_CATCH_UP_HOLD \<le> now - t \<or> is_severe_backlog s"
  using assms by (auto simp: decide_defs reentry_hold_active_def is_some_and_def split: if_splits)

text \<open>Between the end of one catch-up and the start of the next the hold passes, but for a severe backlog.\<close>

lemma reenter_after_hold:
  assumes "policy_mode (policy_after ins) = CatchUp"
    and "\<forall>k\<le>length mid. policy_mode (policy_after (ins @ [(s, t)] @ take k mid)) = Smooth"
    and "policy_mode (policy_after (ins @ [(s, t)] @ mid @ [(s', now)])) = CatchUp"
  shows "REENTER_CATCH_UP_HOLD \<le> now - t \<or> is_severe_backlog s'"
proof -
  have e: "policy_after (xs @ ys) = fold after_decision ys (policy_after xs)" for xs ys
    by (simp add: policy_after_def)
  have "last_catch_up_exit_at (policy_after (ins @ [(s, t)] @ mid)) = Some t"
    using assms(2)
  proof (induction mid rule: rev_induct)
    case Nil
    then have "policy_mode (snd (policy_decide s t (policy_after ins))) = Smooth" by (simp add: e after_decision_def)
    from exit_is_noted [OF assms(1) this] show ?case by (simp add: e after_decision_def)
  next
    case (snoc x mid)
    obtain sx nx where x: "x = (sx, nx)" by (cases x)
    let ?q = "policy_after (ins @ [(s, t)] @ mid)"
    have "\<forall>k\<le>length mid. policy_mode (policy_after (ins @ [(s, t)] @ take k mid)) = Smooth"
    proof (intro allI impI)
      fix k assume k: "k \<le> length mid"
      with snoc.prems [rule_format, of k] show "policy_mode (policy_after (ins @ [(s, t)] @ take k mid)) = Smooth" by simp
    qed
    with snoc.IH have l: "last_catch_up_exit_at ?q = Some t" by blast
    have q: "policy_mode ?q = Smooth" using snoc.prems [rule_format, of "length mid"] by simp
    have "policy_mode (policy_after (ins @ [(s, t)] @ mid @ [x])) = Smooth"
      using snoc.prems [rule_format, of "Suc (length mid)"] by simp
    then have "policy_mode (snd (policy_decide sx nx ?q)) = Smooth" by (simp add: e x after_decision_def)
    from smooth_keeps_exit [OF q this] l show ?case by (simp add: e x after_decision_def)
  qed
  moreover have "policy_mode (policy_after (ins @ [(s, t)] @ mid)) = Smooth"
    using assms(2) [rule_format, of "length mid"] by simp
  moreover have "policy_mode (snd (policy_decide s' now (policy_after (ins @ [(s, t)] @ mid)))) = CatchUp"
    using assms(3) by (simp add: e after_decision_def)
  ultimately show ?thesis using enter_after_hold by blast
qed

lemma decide_plan:
  "decided_plan (fst (policy_decide s now p)) = Single
   \<or> (\<exists>n. decided_plan (fst (policy_decide s now p)) = Batch n \<and> n = snap_lines s \<and> 0 < n)"
  by (cases "policy_mode p") (auto simp: decide_defs split: if_splits option.splits chunking_mode.splits)

end
