(* ===== verification/Stream_Commit.thy ===== *)
theory Stream_Commit
  imports Chunking
begin

section \<open>Streamed lines of the transcript (tui/src/streaming, markdown\_stream.rs)\<close>

text \<open>
  The collector renders the accumulated markdown after each newline and hands out the lines it has
  not handed out before; the stream state queues them; a commit tick drains the queues of the two
  controllers by the plan of the chunking policy. \<open>render\<close> stands for \<open>append_markdown\<close> at the
  width and the working directory of the stream, which runs a parser outside the repository.
\<close>

subsection \<open>Lines (ratatui, render/line\_utils.rs)\<close>

record 'y span =
  span_style :: 'y
  content :: ustr

record 'y line =
  line_style :: 'y
  spans :: "'y span list"

definition is_blank_line_spaces_only :: "'y line \<Rightarrow> bool" where
  "is_blank_line_spaces_only l =
    (if spans l = [] then True
     else list_all (\<lambda>s. content s = [] \<or> list_all (\<lambda>c. c = c_space) (content s)) (spans l))"

definition prefix_lines :: "'y line list \<Rightarrow> 'y span \<Rightarrow> 'y span \<Rightarrow> 'y line list" where
  "prefix_lines ls initial_prefix subsequent_prefix =
    map (\<lambda>(i, l). \<lparr>line_style = line_style l,
        spans = (if i = 0 then initial_prefix else subsequent_prefix) # spans l\<rparr>) (enumerate 0 ls)"

subsection \<open>MarkdownStreamCollector\<close>

record collector =
  buffer :: ustr
  committed_line_count :: nat

definition collector_new :: collector where
  "collector_new = \<lparr>buffer = [], committed_line_count = 0\<rparr>"

definition collector_clear :: "collector \<Rightarrow> collector" where
  "collector_clear c = c\<lparr>buffer := [], committed_line_count := 0\<rparr>"

definition push_delta :: "ustr \<Rightarrow> collector \<Rightarrow> collector" where
  "push_delta delta c = c\<lparr>buffer := buffer c @ delta\<rparr>"

text \<open>The buffer up to its last newline (\<open>rfind\<close>), if it has one.\<close>

definition complete_source :: "ustr \<Rightarrow> ustr option" where
  "complete_source s = map_option (\<lambda>(a, b). a @ [nl]) (rsplit_once nl s)"

definition complete_line_count :: "'y line list \<Rightarrow> nat" where
  "complete_line_count rendered =
    (if rendered \<noteq> [] \<and> is_blank_line_spaces_only (last rendered) then length rendered - 1 else length rendered)"

definition commit_complete_lines :: "(ustr \<Rightarrow> 'y line list) \<Rightarrow> collector \<Rightarrow> 'y line list \<times> collector" where
  "commit_complete_lines render c =
    (case complete_source (buffer c) of
       None \<Rightarrow> ([], c)
     | Some source \<Rightarrow>
         (let rendered = render source; n = complete_line_count rendered in
          if n \<le> committed_line_count c then ([], c)
          else (drop (committed_line_count c) (take n rendered), c\<lparr>committed_line_count := n\<rparr>)))"

definition final_source :: "ustr \<Rightarrow> ustr" where
  "final_source s = (if ends_with [nl] s then s else s @ [nl])"

definition finalize_and_drain :: "(ustr \<Rightarrow> 'y line list) \<Rightarrow> collector \<Rightarrow> 'y line list \<times> collector" where
  "finalize_and_drain render c =
    (let rendered = render (final_source (buffer c));
         out = (if length rendered \<le> committed_line_count c then [] else drop (committed_line_count c) rendered)
     in (out, collector_clear c))"

subsection \<open>StreamState (streaming/mod.rs)\<close>

record 'y queued_line =
  queued :: "'y line"
  enqueued_at :: nat

record 'y stream_state =
  collector_of :: collector
  queued_lines :: "'y queued_line list"
  has_seen_delta :: bool

definition state_new :: "'y stream_state" where
  "state_new = \<lparr>collector_of = collector_new, queued_lines = [], has_seen_delta = False\<rparr>"

definition state_clear :: "'y stream_state \<Rightarrow> 'y stream_state" where
  "state_clear s = s\<lparr>collector_of := collector_clear (collector_of s), queued_lines := [], has_seen_delta := False\<rparr>"

definition step :: "'y stream_state \<Rightarrow> 'y line list \<times> 'y stream_state" where
  "step s = (case queued_lines s of
      [] \<Rightarrow> ([], s)
    | q # rest \<Rightarrow> ([queued q], s\<lparr>queued_lines := rest\<rparr>))"

definition drain_n :: "nat \<Rightarrow> 'y stream_state \<Rightarrow> 'y line list \<times> 'y stream_state" where
  "drain_n max_lines s =
    (let stop = min max_lines (length (queued_lines s))
     in (map queued (take stop (queued_lines s)), s\<lparr>queued_lines := drop stop (queued_lines s)\<rparr>))"

definition drain_all :: "'y stream_state \<Rightarrow> 'y line list \<times> 'y stream_state" where
  "drain_all s = (map queued (queued_lines s), s\<lparr>queued_lines := []\<rparr>)"

definition is_idle :: "'y stream_state \<Rightarrow> bool" where
  "is_idle s \<longleftrightarrow> queued_lines s = []"

definition queued_len :: "'y stream_state \<Rightarrow> nat" where
  "queued_len s = length (queued_lines s)"

definition oldest_queued_age :: "nat \<Rightarrow> 'y stream_state \<Rightarrow> nat option" where
  "oldest_queued_age now s = (case queued_lines s of [] \<Rightarrow> None | q # _ \<Rightarrow> Some (now - enqueued_at q))"

definition enqueue :: "nat \<Rightarrow> 'y line list \<Rightarrow> 'y stream_state \<Rightarrow> 'y stream_state" where
  "enqueue now ls s = s\<lparr>queued_lines := queued_lines s @ map (\<lambda>l. \<lparr>queued = l, enqueued_at = now\<rparr>) ls\<rparr>"

subsection \<open>Controllers (streaming/controller.rs)\<close>

text \<open>A history cell: the lines of a message and whether they are its first, or the lines of a plan block.\<close>

datatype 'y history_cell = AgentMessageCell "'y line list" bool | ProposedPlanCell "'y line list" bool

record 'y stream_controller =
  state :: "'y stream_state"
  finishing_after_drain :: bool
  header_emitted :: bool

definition controller_new :: "'y stream_controller" where
  "controller_new = \<lparr>state = state_new, finishing_after_drain = False, header_emitted = False\<rparr>"

definition push_state :: "(ustr \<Rightarrow> 'y line list) \<Rightarrow> nat \<Rightarrow> ustr \<Rightarrow> 'y stream_state \<Rightarrow> bool \<times> 'y stream_state" where
  "push_state render now delta s =
    (let s = (if delta \<noteq> [] then s\<lparr>has_seen_delta := True\<rparr> else s);
         s = s\<lparr>collector_of := push_delta delta (collector_of s)\<rparr>
     in if nl \<in> set delta then
          (let (newly_completed, c) = commit_complete_lines render (collector_of s);
               s = s\<lparr>collector_of := c\<rparr>
           in if newly_completed \<noteq> [] then (True, enqueue now newly_completed s) else (False, s))
        else (False, s))"

definition controller_push ::
    "(ustr \<Rightarrow> 'y line list) \<Rightarrow> nat \<Rightarrow> ustr \<Rightarrow> 'y stream_controller \<Rightarrow> bool \<times> 'y stream_controller" where
  "controller_push render now delta c =
    (case push_state render now delta (state c) of (b, s) \<Rightarrow> (b, c\<lparr>state := s\<rparr>))"

definition emit :: "'y line list \<Rightarrow> 'y stream_controller \<Rightarrow> 'y history_cell option \<times> 'y stream_controller" where
  "emit ls c =
    (if ls = [] then (None, c)
     else (Some (AgentMessageCell ls (\<not> header_emitted c)), c\<lparr>header_emitted := True\<rparr>))"

definition finalize_state :: "(ustr \<Rightarrow> 'y line list) \<Rightarrow> nat \<Rightarrow> 'y stream_state \<Rightarrow> 'y line list \<times> 'y stream_state" where
  "finalize_state render now s =
    (let (remaining, c) = finalize_and_drain render (collector_of s);
         s = s\<lparr>collector_of := c\<rparr>;
         s = (if remaining \<noteq> [] then enqueue now remaining s else s);
         (out_lines, s) = drain_all s
     in (out_lines, state_clear s))"

definition controller_finalize ::
    "(ustr \<Rightarrow> 'y line list) \<Rightarrow> nat \<Rightarrow> 'y stream_controller \<Rightarrow> 'y history_cell option \<times> 'y stream_controller" where
  "controller_finalize render now c =
    (case finalize_state render now (state c) of
       (out_lines, s) \<Rightarrow> emit out_lines (c\<lparr>state := s, finishing_after_drain := False\<rparr>))"

definition on_commit_tick :: "'y stream_controller \<Rightarrow> ('y history_cell option \<times> bool) \<times> 'y stream_controller" where
  "on_commit_tick c =
    (case step (state c) of (ls, s) \<Rightarrow>
       (case emit ls (c\<lparr>state := s\<rparr>) of (cell, c) \<Rightarrow> ((cell, is_idle (state c)), c)))"

definition on_commit_tick_batch :: "nat \<Rightarrow> 'y stream_controller \<Rightarrow> ('y history_cell option \<times> bool) \<times> 'y stream_controller" where
  "on_commit_tick_batch max_lines c =
    (case drain_n (max max_lines 1) (state c) of (ls, s) \<Rightarrow>
       (case emit ls (c\<lparr>state := s\<rparr>) of (cell, c) \<Rightarrow> ((cell, is_idle (state c)), c)))"

text \<open>The styles and spans a plan block is drawn with.\<close>

record 'y plan_look =
  plan_header :: "'y line"
  plain_style :: 'y
  plan_style :: 'y

definition space_line :: "'y plan_look \<Rightarrow> 'y line" where
  "space_line look = \<lparr>line_style = plain_style look, spans = [\<lparr>span_style = plain_style look, content = lit '' ''\<rparr>]\<rparr>"

definition plan_indent :: "'y plan_look \<Rightarrow> 'y span" where
  "plan_indent look = \<lparr>span_style = plain_style look, content = lit ''  ''\<rparr>"

record 'y plan_controller =
  plan_state :: "'y stream_state"
  plan_header_emitted :: bool
  top_padding_emitted :: bool

definition plan_controller_new :: "'y plan_controller" where
  "plan_controller_new = \<lparr>plan_state = state_new, plan_header_emitted = False, top_padding_emitted = False\<rparr>"

definition plan_controller_push ::
    "(ustr \<Rightarrow> 'y line list) \<Rightarrow> nat \<Rightarrow> ustr \<Rightarrow> 'y plan_controller \<Rightarrow> bool \<times> 'y plan_controller" where
  "plan_controller_push render now delta c =
    (case push_state render now delta (plan_state c) of (b, s) \<Rightarrow> (b, c\<lparr>plan_state := s\<rparr>))"

definition plan_emit ::
    "'y plan_look \<Rightarrow> 'y line list \<Rightarrow> bool \<Rightarrow> 'y plan_controller \<Rightarrow> 'y history_cell option \<times> 'y plan_controller" where
  "plan_emit look ls include_bottom_padding c =
    (if ls = [] \<and> \<not> include_bottom_padding then (None, c)
     else
       (let is_stream_continuation = plan_header_emitted c;
            out_lines = (if \<not> plan_header_emitted c then [plan_header look, space_line look] else []);
            c = c\<lparr>plan_header_emitted := True\<rparr>;
            top = (if \<not> top_padding_emitted c then [space_line look] else []);
            c = c\<lparr>top_padding_emitted := True\<rparr>;
            plan_lines = top @ ls @ (if include_bottom_padding then [space_line look] else []);
            plan_lines = map (\<lambda>l. l\<lparr>line_style := plan_style look\<rparr>)
              (prefix_lines plan_lines (plan_indent look) (plan_indent look))
        in (Some (ProposedPlanCell (out_lines @ plan_lines) is_stream_continuation), c)))"

definition plan_controller_finalize ::
    "'y plan_look \<Rightarrow> (ustr \<Rightarrow> 'y line list) \<Rightarrow> nat \<Rightarrow> 'y plan_controller \<Rightarrow> 'y history_cell option \<times> 'y plan_controller" where
  "plan_controller_finalize look render now c =
    (case finalize_state render now (plan_state c) of
       (out_lines, s) \<Rightarrow> plan_emit look out_lines True (c\<lparr>plan_state := s\<rparr>))"

definition plan_on_commit_tick ::
    "'y plan_look \<Rightarrow> 'y plan_controller \<Rightarrow> ('y history_cell option \<times> bool) \<times> 'y plan_controller" where
  "plan_on_commit_tick look c =
    (case step (plan_state c) of (ls, s) \<Rightarrow>
       (case plan_emit look ls False (c\<lparr>plan_state := s\<rparr>) of (cell, c) \<Rightarrow> ((cell, is_idle (plan_state c)), c)))"

definition plan_on_commit_tick_batch ::
    "'y plan_look \<Rightarrow> nat \<Rightarrow> 'y plan_controller \<Rightarrow> ('y history_cell option \<times> bool) \<times> 'y plan_controller" where
  "plan_on_commit_tick_batch look max_lines c =
    (case drain_n (max max_lines 1) (plan_state c) of (ls, s) \<Rightarrow>
       (case plan_emit look ls False (c\<lparr>plan_state := s\<rparr>) of (cell, c) \<Rightarrow> ((cell, is_idle (plan_state c)), c)))"

subsection \<open>Commit ticks (streaming/commit\_tick.rs)\<close>

datatype commit_tick_scope = AnyMode | CatchUpOnly

record 'y commit_tick_output =
  cells :: "'y history_cell list"
  has_controller :: bool
  all_idle :: bool

definition commit_tick_output_default :: "'y commit_tick_output" where
  "commit_tick_output_default = \<lparr>cells = [], has_controller = False, all_idle = True\<rparr>"

fun max_duration :: "nat option \<Rightarrow> nat option \<Rightarrow> nat option" where
  "max_duration (Some left) (Some right) = Some (max left right)"
| "max_duration (Some left) None = Some left"
| "max_duration None (Some right) = Some right"
| "max_duration None None = None"

definition stream_queue_snapshot ::
    "'y stream_controller option \<Rightarrow> 'y plan_controller option \<Rightarrow> nat \<Rightarrow> queue_snapshot" where
  "stream_queue_snapshot stream plan now =
    (let (n, age) = (case stream of
            Some c \<Rightarrow> (queued_len (state c), max_duration None (oldest_queued_age now (state c)))
          | None \<Rightarrow> (0, None));
         (n, age) = (case plan of
            Some c \<Rightarrow> (n + queued_len (plan_state c), max_duration age (oldest_queued_age now (plan_state c)))
          | None \<Rightarrow> (n, age))
     in \<lparr>snap_lines = n, snap_age = age\<rparr>)"

text \<open>The trace line of a mode change is left out.\<close>

definition resolve_chunking_plan :: "queue_snapshot \<Rightarrow> nat \<Rightarrow> chunking_policy \<Rightarrow> chunking_decision \<times> chunking_policy" where
  "resolve_chunking_plan snapshot now p = policy_decide snapshot now p"

definition drain_stream_controller ::
    "drain_plan \<Rightarrow> 'y stream_controller \<Rightarrow> ('y history_cell option \<times> bool) \<times> 'y stream_controller" where
  "drain_stream_controller plan c =
    (case plan of Single \<Rightarrow> on_commit_tick c | Batch max_lines \<Rightarrow> on_commit_tick_batch max_lines c)"

definition drain_plan_stream_controller ::
    "'y plan_look \<Rightarrow> drain_plan \<Rightarrow> 'y plan_controller \<Rightarrow> ('y history_cell option \<times> bool) \<times> 'y plan_controller" where
  "drain_plan_stream_controller look plan c =
    (case plan of Single \<Rightarrow> plan_on_commit_tick look c | Batch max_lines \<Rightarrow> plan_on_commit_tick_batch look max_lines c)"

definition note_drained :: "'y history_cell option \<times> bool \<Rightarrow> 'y commit_tick_output \<Rightarrow> 'y commit_tick_output" where
  "note_drained = (\<lambda>(cell, idle) out.
    \<lparr>cells = cells out @ (case cell of Some cell \<Rightarrow> [cell] | None \<Rightarrow> []), has_controller = True,
     all_idle = (all_idle out \<and> idle)\<rparr>)"

definition apply_commit_tick_plan ::
    "'y plan_look \<Rightarrow> drain_plan \<Rightarrow> 'y stream_controller option \<Rightarrow> 'y plan_controller option
     \<Rightarrow> 'y commit_tick_output \<times> 'y stream_controller option \<times> 'y plan_controller option" where
  "apply_commit_tick_plan look drain stream plan =
    (let out = commit_tick_output_default;
         (out, stream) = (case stream of
            Some c \<Rightarrow> (case drain_stream_controller drain c of (r, c) \<Rightarrow> (note_drained r out, Some c))
          | None \<Rightarrow> (out, None));
         (out, plan) = (case plan of
            Some c \<Rightarrow> (case drain_plan_stream_controller look drain c of (r, c) \<Rightarrow> (note_drained r out, Some c))
          | None \<Rightarrow> (out, None))
     in (out, stream, plan))"

record 'y tick_state =
  chunking :: chunking_policy
  stream :: "'y stream_controller option"
  plan_stream :: "'y plan_controller option"

definition run_commit_tick ::
    "'y plan_look \<Rightarrow> commit_tick_scope \<Rightarrow> nat \<Rightarrow> 'y tick_state \<Rightarrow> 'y commit_tick_output \<times> 'y tick_state" where
  "run_commit_tick look scope now t =
    (let snapshot = stream_queue_snapshot (stream t) (plan_stream t) now;
         (decision, policy) = resolve_chunking_plan snapshot now (chunking t);
         t = t\<lparr>chunking := policy\<rparr>
     in if scope = CatchUpOnly \<and> decided_mode decision \<noteq> CatchUp then (commit_tick_output_default, t)
        else
          (case apply_commit_tick_plan look (decided_plan decision) (stream t) (plan_stream t) of
             (out, s, p) \<Rightarrow> (out, t\<lparr>stream := s, plan_stream := p\<rparr>)))"

end
