(* ===== verification/Stream_Commit_Facts.thy ===== *)
theory Stream_Commit_Facts
  imports Stream_Commit
begin

section \<open>Facts about streamed lines\<close>

subsection \<open>What a tick commits\<close>

definition waiting :: "'y stream_controller \<Rightarrow> 'y line list" where
  "waiting c = map queued (queued_lines (state c))"

fun cell_lines :: "'y history_cell \<Rightarrow> 'y line list" where
  "cell_lines (AgentMessageCell ls _) = ls"
| "cell_lines (ProposedPlanCell _ _) = []"

definition message_lines :: "'y history_cell list \<Rightarrow> 'y line list" where
  "message_lines cs = concat (map cell_lines cs)"

lemma message_lines_simps [simp]:
  "message_lines [] = []" "message_lines (a @ b) = message_lines a @ message_lines b"
  "message_lines (c # cs) = cell_lines c @ message_lines cs"
  by (simp_all add: message_lines_def)

text \<open>The lines of the plan blocks, apart from those of the messages.\<close>

fun plan_cell_lines :: "'y history_cell \<Rightarrow> 'y line list" where
  "plan_cell_lines (AgentMessageCell _ _) = []"
| "plan_cell_lines (ProposedPlanCell ls _) = ls"

definition plan_block_lines :: "'y history_cell list \<Rightarrow> 'y line list" where
  "plan_block_lines cs = concat (map plan_cell_lines cs)"

lemma plan_block_lines_simps [simp]:
  "plan_block_lines [] = []" "plan_block_lines (a @ b) = plan_block_lines a @ plan_block_lines b"
  "plan_block_lines (c # cs) = plan_cell_lines c @ plan_block_lines cs"
  by (simp_all add: plan_block_lines_def)

definition cell_list :: "'y history_cell option \<Rightarrow> 'y history_cell list" where
  "cell_list cell = (case cell of Some cell \<Rightarrow> [cell] | None \<Rightarrow> [])"

text \<open>The number of lines a plan takes from a queue.\<close>

definition plan_size :: "drain_plan \<Rightarrow> nat" where
  "plan_size plan = (case plan of Single \<Rightarrow> 1 | Batch n \<Rightarrow> max n 1)"

lemma plan_size_pos: "0 < plan_size plan"
  by (cases plan) (simp_all add: plan_size_def)

lemma step_eq: "step s = (map queued (take 1 (queued_lines s)), s\<lparr>queued_lines := drop 1 (queued_lines s)\<rparr>)"
  by (cases s; cases "queued_lines s") (simp_all add: step_def)

lemma drain_n_eq: "drain_n n s = (map queued (take n (queued_lines s)), s\<lparr>queued_lines := drop n (queued_lines s)\<rparr>)"
  by (cases "n \<le> length (queued_lines s)") (simp_all add: drain_n_def)

lemma emit_lines:
  "emit ls c = (cell, c') \<Longrightarrow>
     message_lines (cell_list cell) = ls \<and> state c' = state c \<and> plan_block_lines (cell_list cell) = []"
  by (auto simp: emit_def cell_list_def split: if_splits)

lemma drain_stream_eq:
  "drain_stream_controller plan c =
    (case emit (take (plan_size plan) (waiting c))
        (c\<lparr>state := (state c)\<lparr>queued_lines := drop (plan_size plan) (queued_lines (state c))\<rparr>\<rparr>) of
      (cell, c) \<Rightarrow> ((cell, is_idle (state c)), c))"
  by (cases plan) (simp_all add: drain_stream_controller_def on_commit_tick_def on_commit_tick_batch_def
      step_eq drain_n_eq plan_size_def waiting_def take_map)

lemma drain_stream:
  assumes "drain_stream_controller plan c = ((cell, idle), c')"
  shows "message_lines (cell_list cell) = take (plan_size plan) (waiting c) \<and> waiting c' = drop (plan_size plan) (waiting c)
    \<and> idle = (waiting c' = []) \<and> collector_of (state c') = collector_of (state c)
    \<and> plan_block_lines (cell_list cell) = []"
proof -
  let ?c = "c\<lparr>state := (state c)\<lparr>queued_lines := drop (plan_size plan) (queued_lines (state c))\<rparr>\<rparr>"
  have e: "emit (take (plan_size plan) (waiting c)) ?c = (cell, c')" and i: "idle = is_idle (state c')"
    using assms by (auto simp: drain_stream_eq split: prod.splits)
  from emit_lines [OF e] i show ?thesis by (simp add: waiting_def is_idle_def drop_map)
qed

definition plan_waiting :: "'y plan_controller \<Rightarrow> 'y line list" where
  "plan_waiting c = map queued (queued_lines (plan_state c))"

text \<open>
  How a line of a plan is drawn, and what stands before the first one: the header and a space line,
  and the padding, each once for the whole stream.
\<close>

definition drawn_plan_line :: "'y plan_look \<Rightarrow> 'y line \<Rightarrow> 'y line" where
  "drawn_plan_line look l = \<lparr>line_style = plan_style look, spans = plan_indent look # spans l\<rparr>"

definition plan_opening :: "'y plan_look \<Rightarrow> 'y plan_controller \<Rightarrow> 'y line list" where
  "plan_opening look c = (if plan_header_emitted c then [] else [plan_header look, space_line look])
    @ (if top_padding_emitted c then [] else [drawn_plan_line look (space_line look)])"

definition plan_shown :: "'y plan_look \<Rightarrow> 'y plan_controller \<Rightarrow> 'y line list \<Rightarrow> 'y line list" where
  "plan_shown look c ls = (if ls = [] then [] else plan_opening look c @ map (drawn_plan_line look) ls)"

lemma prefix_lines_same: "prefix_lines ls p p = map (\<lambda>l. \<lparr>line_style = line_style l, spans = p # spans l\<rparr>) ls"
proof -
  have "prefix_lines ls p p = map ((\<lambda>l. \<lparr>line_style = line_style l, spans = p # spans l\<rparr>) \<circ> snd) (enumerate 0 ls)"
    unfolding prefix_lines_def by (intro map_cong) auto
  then show ?thesis by (simp only: map_map [symmetric] map_snd_enumerate)
qed

lemma plan_emit_state:
  assumes "plan_emit look ls False c = (cell, c')"
  shows "plan_state c' = plan_state c \<and> message_lines (cell_list cell) = []
    \<and> plan_block_lines (cell_list cell) = plan_shown look c ls \<and> (ls \<noteq> [] \<longrightarrow> plan_opening look c' = [])"
  using assms
  by (auto simp: plan_emit_def Let_def cell_list_def plan_shown_def plan_opening_def prefix_lines_same
      drawn_plan_line_def split: if_splits)

lemma drain_plan_stream_eq:
  "drain_plan_stream_controller look plan c =
    (case plan_emit look (take (plan_size plan) (plan_waiting c)) False
        (c\<lparr>plan_state := (plan_state c)\<lparr>queued_lines := drop (plan_size plan) (queued_lines (plan_state c))\<rparr>\<rparr>) of
      (cell, c) \<Rightarrow> ((cell, is_idle (plan_state c)), c))"
  by (cases plan) (simp_all add: drain_plan_stream_controller_def plan_on_commit_tick_def plan_on_commit_tick_batch_def
      step_eq drain_n_eq plan_size_def plan_waiting_def take_map)

lemma drain_plan_stream:
  assumes "drain_plan_stream_controller look plan c = ((cell, idle), c')"
  shows "plan_waiting c' = drop (plan_size plan) (plan_waiting c) \<and> idle = (plan_waiting c' = [])
    \<and> message_lines (cell_list cell) = []
    \<and> plan_block_lines (cell_list cell) @ plan_shown look c' (plan_waiting c') = plan_shown look c (plan_waiting c)"
proof -
  let ?c = "c\<lparr>plan_state := (plan_state c)\<lparr>queued_lines := drop (plan_size plan) (queued_lines (plan_state c))\<rparr>\<rparr>"
  have e: "plan_emit look (take (plan_size plan) (plan_waiting c)) False ?c = (cell, c')" and i: "idle = is_idle (plan_state c')"
    using assms by (auto simp: drain_plan_stream_eq split: prod.splits)
  note st = plan_emit_state [OF e]
  have w: "plan_waiting c' = drop (plan_size plan) (plan_waiting c)" using st by (simp add: plan_waiting_def drop_map)
  have "plan_shown look ?c ls = plan_shown look c ls" for ls by (simp add: plan_shown_def plan_opening_def)
  with st have b: "plan_block_lines (cell_list cell) = plan_shown look c (take (plan_size plan) (plan_waiting c))" by simp
  have "plan_block_lines (cell_list cell) @ plan_shown look c' (plan_waiting c') = plan_shown look c (plan_waiting c)"
  proof (cases "plan_waiting c = []")
    case True
    then show ?thesis by (simp add: b w plan_shown_def)
  next
    case False
    then have "take (plan_size plan) (plan_waiting c) \<noteq> []" using plan_size_pos [of plan] by (cases "plan_waiting c") auto
    with False st have "plan_opening look c' = []" by simp
    with False \<open>take _ _ \<noteq> []\<close> show ?thesis
      unfolding b w plan_shown_def by (simp flip: map_append)
  qed
  with st w i show ?thesis by (auto simp: is_idle_def plan_waiting_def)
qed

text \<open>All that a plan stream has yet to show of the lines that wait.\<close>

definition plan_to_show :: "'y plan_look \<Rightarrow> 'y tick_state \<Rightarrow> 'y line list" where
  "plan_to_show look t = (case plan_stream t of None \<Rightarrow> [] | Some c \<Rightarrow>
     if plan_waiting c = [] then [] else plan_opening look c @ map (drawn_plan_line look) (plan_waiting c))"

lemma plan_to_show_Some: "plan_stream t = Some c \<Longrightarrow> plan_to_show look t = plan_shown look c (plan_waiting c)"
  by (simp add: plan_to_show_def plan_shown_def)

definition stream_waiting :: "'y tick_state \<Rightarrow> 'y line list" where
  "stream_waiting t = (case stream t of Some c \<Rightarrow> waiting c | None \<Rightarrow> [])"

definition plan_stream_waiting :: "'y tick_state \<Rightarrow> 'y line list" where
  "plan_stream_waiting t = (case plan_stream t of Some c \<Rightarrow> plan_waiting c | None \<Rightarrow> [])"

text \<open>A tick that is not suppressed takes at least one line from every queue that has one.\<close>

lemma tick_drains:
  assumes "run_commit_tick look AnyMode now t = (out, t')"
  shows "\<exists>k>0. message_lines (cells out) = take k (stream_waiting t) \<and> stream_waiting t' = drop k (stream_waiting t)
    \<and> plan_stream_waiting t' = drop k (plan_stream_waiting t)
    \<and> plan_block_lines (cells out) @ plan_to_show look t' = plan_to_show look t
    \<and> has_controller out = (stream t' \<noteq> None \<or> plan_stream t' \<noteq> None)
    \<and> all_idle out = (stream_waiting t' = [] \<and> plan_stream_waiting t' = [])
    \<and> (stream t' = None \<longleftrightarrow> stream t = None) \<and> (plan_stream t' = None \<longleftrightarrow> plan_stream t = None)"
proof -
  obtain decision policy where dec: "policy_decide (stream_queue_snapshot (stream t) (plan_stream t) now) now (chunking t) = (decision, policy)"
    by fastforce
  let ?plan = "decided_plan decision"
  have r: "run_commit_tick look AnyMode now t
    = (case apply_commit_tick_plan look ?plan (stream t) (plan_stream t) of
        (out, s, p) \<Rightarrow> (out, t\<lparr>chunking := policy, stream := s, plan_stream := p\<rparr>))"
    using dec by (simp add: run_commit_tick_def resolve_chunking_plan_def)
  show ?thesis
  proof (intro exI [of _ "plan_size ?plan"] conjI)
    show "0 < plan_size ?plan" by (rule plan_size_pos)
    obtain sr where sr: "\<And>c. stream t = Some c \<Longrightarrow> drain_stream_controller ?plan c = sr"
      by (cases "stream t") auto
    obtain pr where pr: "\<And>c. plan_stream t = Some c \<Longrightarrow> drain_plan_stream_controller look ?plan c = pr"
      by (cases "plan_stream t") auto
    obtain scell sidle s' where s: "sr = ((scell, sidle), s')" by (metis prod.exhaust)
    obtain pcell pidle p' where p: "pr = ((pcell, pidle), p')" by (metis prod.exhaust)
    have o: "out = (let out = commit_tick_output_default;
        out = (if stream t = None then out else note_drained (scell, sidle) out)
      in if plan_stream t = None then out else note_drained (pcell, pidle) out)"
      "t' = t\<lparr>chunking := policy, stream := map_option (\<lambda>_. s') (stream t), plan_stream := map_option (\<lambda>_. p') (plan_stream t)\<rparr>"
      using assms r sr pr s p
      by (auto simp: apply_commit_tick_plan_def Let_def split: option.splits)
    have sd: "message_lines (cell_list scell) = take (plan_size ?plan) (waiting c) \<and> waiting s' = drop (plan_size ?plan) (waiting c)
        \<and> sidle = (waiting s' = []) \<and> plan_block_lines (cell_list scell) = []" if "stream t = Some c" for c
      using drain_stream sr [OF that] s by blast
    have pd: "plan_waiting p' = drop (plan_size ?plan) (plan_waiting c) \<and> pidle = (plan_waiting p' = [])
        \<and> message_lines (cell_list pcell) = []
        \<and> plan_block_lines (cell_list pcell) @ plan_shown look p' (plan_waiting p') = plan_shown look c (plan_waiting c)"
      if "plan_stream t = Some c" for c
      using drain_plan_stream pr [OF that] p by blast
    have ml: "message_lines (case cell of None \<Rightarrow> [] | Some c \<Rightarrow> [c]) = message_lines (cell_list cell)"
      "plan_block_lines (case cell of None \<Rightarrow> [] | Some c \<Rightarrow> [c]) = plan_block_lines (cell_list cell)"
      for cell :: "'a history_cell option" by (simp_all add: cell_list_def)
    note simps = o stream_waiting_def plan_stream_waiting_def note_drained_def commit_tick_output_default_def Let_def ml
    show "message_lines (cells out) = take (plan_size ?plan) (stream_waiting t)"
      using sd pd by (cases "stream t"; cases "plan_stream t"; simp add: simps)
    show "stream_waiting t' = drop (plan_size ?plan) (stream_waiting t)"
      using sd by (cases "stream t"; simp add: simps)
    show "plan_stream_waiting t' = drop (plan_size ?plan) (plan_stream_waiting t)"
      using pd by (cases "plan_stream t"; simp add: simps)
    have "plan_block_lines (cells out) = (if plan_stream t = None then [] else plan_block_lines (cell_list pcell))"
      using sd by (cases "stream t"; cases "plan_stream t"; simp add: simps)
    moreover have "plan_to_show look t' = plan_shown look p' (plan_waiting p')" if "plan_stream t = Some c" for c
      using that o by (intro plan_to_show_Some) simp
    moreover have "plan_stream t = None \<Longrightarrow> plan_to_show look t' = [] \<and> plan_to_show look t = []"
      by (simp add: o plan_to_show_def)
    ultimately show "plan_block_lines (cells out) @ plan_to_show look t' = plan_to_show look t"
      using pd plan_to_show_Some [of t _ look] by (cases "plan_stream t") auto
    show "has_controller out = (stream t' \<noteq> None \<or> plan_stream t' \<noteq> None)"
      by (cases "stream t"; cases "plan_stream t"; simp add: simps)
    show "all_idle out = (stream_waiting t' = [] \<and> plan_stream_waiting t' = [])"
      using sd pd by (cases "stream t"; cases "plan_stream t"; simp add: simps)
    show "stream t' = None \<longleftrightarrow> stream t = None" "plan_stream t' = None \<longleftrightarrow> plan_stream t = None"
      by (simp_all add: o)
  qed
qed

text \<open>A run of periodic ticks without further input.\<close>

fun run_ticks :: "'y plan_look \<Rightarrow> nat list \<Rightarrow> 'y tick_state \<Rightarrow> 'y commit_tick_output list \<times> 'y tick_state" where
  "run_ticks look [] t = ([], t)"
| "run_ticks look (now # ts) t =
    (case run_commit_tick look AnyMode now t of (out, t) \<Rightarrow>
       (case run_ticks look ts t of (outs, t) \<Rightarrow> (out # outs, t)))"

lemma ticks_drain:
  assumes "run_ticks look ts t = (outs, t')"
  shows "message_lines (concat (map cells outs)) @ stream_waiting t' = stream_waiting t
    \<and> plan_block_lines (concat (map cells outs)) @ plan_to_show look t' = plan_to_show look t
    \<and> length (stream_waiting t') \<le> length (stream_waiting t) - length ts
    \<and> length (plan_stream_waiting t') \<le> length (plan_stream_waiting t) - length ts
    \<and> (outs \<noteq> [] \<longrightarrow> all_idle (last outs) = (stream_waiting t' = [] \<and> plan_stream_waiting t' = []))"
  using assms
proof (induction ts arbitrary: t outs)
  case (Cons now ts)
  obtain out t1 where o: "run_commit_tick look AnyMode now t = (out, t1)" by fastforce
  obtain outs1 where r: "run_ticks look ts t1 = (outs1, t')" "outs = out # outs1"
    using Cons.prems o by (auto split: prod.splits)
  obtain k where k: "0 < k" "message_lines (cells out) = take k (stream_waiting t)" "stream_waiting t1 = drop k (stream_waiting t)"
    "plan_stream_waiting t1 = drop k (plan_stream_waiting t)"
    "all_idle out = (stream_waiting t1 = [] \<and> plan_stream_waiting t1 = [])"
    "plan_block_lines (cells out) @ plan_to_show look t1 = plan_to_show look t"
    using tick_drains [OF o] by blast
  note IH = Cons.IH [OF r(1)]
  have "message_lines (concat (map cells outs)) @ stream_waiting t' = take k (stream_waiting t) @ stream_waiting t1"
    using IH k(2) r(2) by simp
  moreover have "plan_block_lines (concat (map cells outs)) @ plan_to_show look t' = plan_to_show look t"
    using IH k(6) r(2) by simp
  moreover have "length (stream_waiting t') \<le> length (stream_waiting t) - length (now # ts)"
    "length (plan_stream_waiting t') \<le> length (plan_stream_waiting t) - length (now # ts)"
    using IH k(1) unfolding k(3,4) length_drop length_Cons by linarith+
  moreover have "outs1 = [] \<Longrightarrow> ts = []" using r(1) by (cases ts) (auto split: prod.splits)
  then have "all_idle (last outs) = (stream_waiting t' = [] \<and> plan_stream_waiting t' = [])"
    using IH k(5) r by (cases "outs1 = []") auto
  ultimately show ?case using k(3) by simp
qed simp

subsection \<open>A whole stream\<close>

text \<open>Deltas with drains of any size between them, as the ticks happen to fall.\<close>

datatype stream_event = Delta nat ustr | Drained drain_plan

fun run_events ::
    "(ustr \<Rightarrow> 'y line list) \<Rightarrow> stream_event list \<Rightarrow> 'y stream_controller \<Rightarrow> 'y history_cell list \<times> 'y stream_controller" where
  "run_events render [] c = ([], c)"
| "run_events render (Delta now delta # evs) c = run_events render evs (snd (controller_push render now delta c))"
| "run_events render (Drained plan # evs) c =
    (case drain_stream_controller plan c of ((cell, _), c) \<Rightarrow>
       (case run_events render evs c of (cs, c) \<Rightarrow> (cell_list cell @ cs, c)))"

definition stream_message :: "(ustr \<Rightarrow> 'y line list) \<Rightarrow> nat \<Rightarrow> stream_event list \<Rightarrow> 'y history_cell list" where
  "stream_message render now evs =
    (case run_events render evs controller_new of (cs, c) \<Rightarrow> cs @ cell_list (fst (controller_finalize render now c)))"

fun deltas_of :: "stream_event list \<Rightarrow> ustr list" where
  "deltas_of [] = []"
| "deltas_of (Delta now delta # evs) = delta # deltas_of evs"
| "deltas_of (Drained plan # evs) = deltas_of evs"

text \<open>The lines the collector hands out, without queue and ticks.\<close>

definition commit_point :: "(ustr \<Rightarrow> 'y line list) \<Rightarrow> ustr \<Rightarrow> 'y line list \<Rightarrow> 'y line list" where
  "commit_point render buf acc = (case complete_source buf of
      None \<Rightarrow> acc
    | Some source \<Rightarrow> acc @ drop (length acc) (take (complete_line_count (render source)) (render source)))"

fun handed_out :: "(ustr \<Rightarrow> 'y line list) \<Rightarrow> ustr list \<Rightarrow> ustr \<Rightarrow> 'y line list \<Rightarrow> 'y line list" where
  "handed_out render [] buf acc = acc @ drop (length acc) (render (final_source buf))"
| "handed_out render (d # ds) buf acc =
    handed_out render ds (buf @ d) (if nl \<in> set d then commit_point render (buf @ d) acc else acc)"

lemma complete_line_count_le: "complete_line_count r \<le> length r"
  by (simp add: complete_line_count_def)

lemma commit_lines:
  assumes "commit_complete_lines render c = (ls, c')" and "committed_line_count c = length acc"
  shows "acc @ ls = commit_point render (buffer c) acc \<and> committed_line_count c' = length (commit_point render (buffer c) acc)
    \<and> buffer c' = buffer c"
proof (cases "complete_source (buffer c)")
  case None
  with assms show ?thesis by (auto simp: commit_complete_lines_def commit_point_def)
next
  case (Some source)
  let ?n = "complete_line_count (render source)"
  show ?thesis
  proof (cases "?n \<le> length acc")
    case True
    with assms Some show ?thesis by (auto simp: commit_complete_lines_def commit_point_def)
  next
    case False
    with assms Some complete_line_count_le [of "render source"] show ?thesis
      by (auto simp: commit_complete_lines_def commit_point_def Let_def)
  qed
qed

definition stream_at :: "ustr \<Rightarrow> 'y line list \<Rightarrow> 'y line list \<Rightarrow> 'y stream_controller \<Rightarrow> bool" where
  "stream_at buf acc emitted c \<longleftrightarrow> buffer (collector_of (state c)) = buf
    \<and> committed_line_count (collector_of (state c)) = length acc \<and> acc = emitted @ waiting c"

lemma stream_at_push:
  assumes "stream_at buf acc emitted c"
  shows "stream_at (buf @ d) (if nl \<in> set d then commit_point render (buf @ d) acc else acc) emitted
    (snd (controller_push render now d c))"
proof -
  define s where "s = (if d \<noteq> [] then (state c)\<lparr>has_seen_delta := True\<rparr> else state c)"
  define s1 where "s1 = s\<lparr>collector_of := push_delta d (collector_of s)\<rparr>"
  have s1: "buffer (collector_of s1) = buf @ d" "committed_line_count (collector_of s1) = length acc"
    "acc = emitted @ map queued (queued_lines s1)"
    using assms by (simp_all add: s1_def s_def stream_at_def push_delta_def waiting_def)
  obtain ls col where cm: "commit_complete_lines render (collector_of s1) = (ls, col)" by fastforce
  note cl = commit_lines [OF cm s1(2)]
  have p: "snd (controller_push render now d c) = c\<lparr>state :=
      if nl \<in> set d then (if ls \<noteq> [] then enqueue now ls (s1\<lparr>collector_of := col\<rparr>) else s1\<lparr>collector_of := col\<rparr>) else s1\<rparr>"
    using cm unfolding controller_push_def push_state_def s_def [symmetric] s1_def [symmetric] Let_def
    by (simp split: prod.split)
  show ?thesis
  proof (cases "nl \<in> set d")
    case False
    with p s1 show ?thesis by (simp add: stream_at_def waiting_def)
  next
    case True
    have "map queued (map (\<lambda>l. \<lparr>queued = l, enqueued_at = now\<rparr>) ls) = ls" by (simp add: o_def)
    with True p s1 cl show ?thesis
      by (cases "ls = []") (auto simp: stream_at_def waiting_def enqueue_def o_def)
  qed
qed

lemma stream_at_drain:
  assumes "stream_at buf acc emitted c" and "drain_stream_controller plan c = ((cell, idle), c')"
  shows "stream_at buf acc (emitted @ message_lines (cell_list cell)) c'"
  using assms(1) drain_stream [OF assms(2)] by (simp add: stream_at_def)

lemma stream_at_finalize:
  assumes "stream_at buf acc emitted c"
  shows "emitted @ message_lines (cell_list (fst (controller_finalize render now c)))
    = acc @ drop (length acc) (render (final_source buf))"
proof -
  define remaining where "remaining = drop (length acc) (render (final_source buf))"
  have f: "fst (finalize_and_drain render (collector_of (state c))) = remaining"
    using assms by (auto simp: finalize_and_drain_def Let_def stream_at_def remaining_def)
  have "fst (finalize_state render now (state c)) = waiting c @ remaining"
    using f by (cases "remaining = []")
      (auto simp: finalize_state_def Let_def drain_all_def waiting_def enqueue_def o_def split: prod.splits)
  then have "message_lines (cell_list (fst (controller_finalize render now c))) = waiting c @ remaining"
    by (auto simp: controller_finalize_def emit_def cell_list_def split: prod.splits)
  with assms show ?thesis by (simp add: stream_at_def remaining_def)
qed

lemma run_events_lines:
  assumes "stream_at buf acc emitted c" and "run_events render evs c = (cs, c')"
  shows "emitted @ message_lines cs @ message_lines (cell_list (fst (controller_finalize render now c')))
    = handed_out render (deltas_of evs) buf acc"
  using assms
proof (induction render evs c arbitrary: buf acc emitted cs rule: run_events.induct)
  case (1 render c)
  then show ?case using stream_at_finalize by auto
next
  case (2 render now' delta evs c)
  from "2.prems" "2.IH" [OF stream_at_push [OF "2.prems"(1)]] show ?case by simp
next
  case (3 render plan evs c)
  obtain cell idle c1 where d: "drain_stream_controller plan c = ((cell, idle), c1)" by (metis prod.exhaust)
  obtain cs1 where r: "run_events render evs c1 = (cs1, c')" "cs = cell_list cell @ cs1"
    using "3.prems"(2) d by (auto split: prod.splits)
  from "3.IH" [OF d [symmetric] refl stream_at_drain [OF "3.prems"(1) d] r(1)] r(2) show ?case by simp
qed

text \<open>Pacing does not change the message: its lines are those the collector hands out.\<close>

lemma stream_message_lines:
  "message_lines (stream_message render now evs) = handed_out render (deltas_of evs) [] []"
proof -
  obtain cs c where r: "run_events render evs controller_new = (cs, c)" by fastforce
  have "stream_at [] [] [] (controller_new :: 'a stream_controller)"
    by (simp add: stream_at_def controller_new_def state_new_def collector_new_def waiting_def)
  from run_events_lines [OF this r] r show ?thesis by (simp add: stream_message_def)
qed

subsection \<open>Renderers that settle\<close>

text \<open>
  The lines of a source that ends in a newline, but for a blank last one, stay as they are when
  the source grows.
\<close>

definition settles :: "(ustr \<Rightarrow> 'y line list) \<Rightarrow> bool" where
  "settles render \<longleftrightarrow> (\<forall>a b. ends_with [nl] (a @ b) \<and> ends_with [nl] a \<longrightarrow>
     take (complete_line_count (render a)) (render (a @ b)) = take (complete_line_count (render a)) (render a))"

lemma complete_source_Some:
  assumes "nl \<in> set d"
  obtains e where "complete_source (buf @ d) = Some (buf @ e @ [nl])" "\<exists>r. d = e @ [nl] @ r"
proof -
  obtain e r where d: "d = e @ nl # r" "nl \<notin> set r" using split_list_last [OF assms] by blast
  then have "rsplit_once nl (buf @ d) = Some (buf @ e, r)" by (simp add: rsplit_once_Some_iff)
  then have "complete_source (buf @ d) = Some (buf @ e @ [nl])" by (simp add: complete_source_def)
  with that d show ?thesis by simp
qed

definition lines_settled :: "(ustr \<Rightarrow> 'y line list) \<Rightarrow> ustr \<Rightarrow> 'y line list \<Rightarrow> bool" where
  "lines_settled render buf acc \<longleftrightarrow> (\<forall>b. ends_with [nl] (buf @ b) \<longrightarrow> take (length acc) (render (buf @ b)) = acc)"

lemma settled_append: "lines_settled render buf acc \<Longrightarrow> lines_settled render (buf @ d) acc"
  by (simp add: lines_settled_def)

lemma take_then_drop: "take (length acc) xs = acc \<Longrightarrow> acc @ drop (length acc) xs = xs"
  by (metis append_take_drop_id)

lemma settled_commit:
  assumes "settles render" and "lines_settled render buf acc" and "nl \<in> set d"
  shows "lines_settled render (buf @ d) (commit_point render (buf @ d) acc)"
proof -
  obtain e r where e: "complete_source (buf @ d) = Some (buf @ e @ [nl])" "d = e @ [nl] @ r"
    using complete_source_Some [OF assms(3), of buf] by blast
  let ?src = "buf @ e @ [nl]"
  let ?n = "complete_line_count (render ?src)"
  have acc: "take (length acc) (render ?src) = acc"
    using assms(2) [unfolded lines_settled_def, rule_format, of "e @ [nl]"] by (auto simp: ends_with_iff)
  show ?thesis
  proof (cases "?n \<le> length acc")
    case True
    with e(1) have "commit_point render (buf @ d) acc = acc" by (simp add: commit_point_def)
    with settled_append [OF assms(2)] show ?thesis by simp
  next
    case False
    then have "commit_point render (buf @ d) acc = acc @ drop (length acc) (take ?n (render ?src))"
      using e(1) by (simp add: commit_point_def)
    also have "\<dots> = take ?n (render ?src)"
    proof (rule take_then_drop)
      show "take (length acc) (take ?n (render ?src)) = acc" using acc False by (simp add: min_def)
    qed
    finally have c: "commit_point render (buf @ d) acc = take ?n (render ?src)" .
    show ?thesis
      unfolding lines_settled_def
    proof (intro allI impI)
      fix b assume b: "ends_with [nl] ((buf @ d) @ b)"
      have e1: "ends_with [nl] ?src" by (auto simp: ends_with_iff)
      have src: "(buf @ d) @ b = ?src @ (r @ b)" using e(2) by simp
      have e2: "ends_with [nl] (?src @ (r @ b))" using b unfolding src .
      have "take ?n (render (?src @ (r @ b))) = take ?n (render ?src)"
        by (rule assms(1) [unfolded settles_def, rule_format, OF conjI [OF e2 e1]])
      with c src complete_line_count_le [of "render ?src"]
      show "take (length (commit_point render (buf @ d) acc)) (render ((buf @ d) @ b)) = commit_point render (buf @ d) acc"
        by simp
    qed
  qed
qed

lemma handed_out_settled:
  assumes "settles render" and "lines_settled render buf acc"
  shows "handed_out render ds buf acc = render (final_source (buf @ concat ds))"
  using assms(2)
proof (induction ds arbitrary: buf acc)
  case Nil
  obtain b where b: "final_source buf = buf @ b" "ends_with [nl] (buf @ b)"
    by (metis append_Nil2 ends_with_iff final_source_def)
  with Nil have "take (length acc) (render (final_source buf)) = acc" by (simp add: lines_settled_def)
  then show ?case by (simp add: take_then_drop)
next
  case (Cons d ds)
  show ?case
  proof (cases "nl \<in> set d")
    case True
    with Cons.IH [OF settled_commit [OF assms(1) Cons.prems True]] show ?thesis by simp
  next
    case False
    with Cons.IH [OF settled_append [OF Cons.prems]] show ?thesis by simp
  qed
qed

lemma settled_new: "lines_settled render [] []"
  by (simp add: lines_settled_def)

end
