(* ===== verification/Paste_Burst.thy ===== *)
theory Paste_Burst
  imports Text_Truncation Chunking
begin

section \<open>Pastes that arrive as keys (tui/src/bottom\_pane/paste\_burst.rs)\<close>

text \<open>
  The state machine that tells a paste from typing by the time between characters. Instants are
  numbers of nanoseconds; \<open>duration_since\<close> saturates at zero. \<open>windows\<close> is \<open>cfg(windows)\<close>.
\<close>

definition PASTE_BURST_MIN_CHARS :: nat where
  "PASTE_BURST_MIN_CHARS = 3"

definition PASTE_ENTER_SUPPRESS_WINDOW :: nat where
  "PASTE_ENTER_SUPPRESS_WINDOW = from_millis 120"

definition PASTE_BURST_CHAR_INTERVAL :: "bool \<Rightarrow> nat" where
  "PASTE_BURST_CHAR_INTERVAL windows = (if windows then from_millis 30 else from_millis 8)"

definition PASTE_BURST_ACTIVE_IDLE_TIMEOUT :: "bool \<Rightarrow> nat" where
  "PASTE_BURST_ACTIVE_IDLE_TIMEOUT windows = (if windows then from_millis 60 else from_millis 8)"

record paste_burst =
  last_plain_char_time :: "nat option"
  consecutive_plain_char_burst :: nat
  burst_window_until :: "nat option"
  burst_buffer :: ustr
  burst_active :: bool
  pending_first_char :: "(nat \<times> nat) option"

definition burst_default :: paste_burst where
  "burst_default = \<lparr>last_plain_char_time = None, consecutive_plain_char_burst = 0, burst_window_until = None,
     burst_buffer = [], burst_active = False, pending_first_char = None\<rparr>"

datatype char_decision = BeginBuffer nat | BufferAppend | RetainFirstChar | BeginBufferFromPending

record retro_grab =
  start_byte :: nat
  grabbed :: ustr

datatype flush_result = Paste ustr | Typed nat | NoFlush

definition recommended_flush_delay :: "bool \<Rightarrow> nat" where
  "recommended_flush_delay windows = PASTE_BURST_CHAR_INTERVAL windows + from_millis 1"

definition U16_MAX :: nat where
  "U16_MAX = 2 ^ 16 - 1"

definition note_plain_char :: "bool \<Rightarrow> nat \<Rightarrow> paste_burst \<Rightarrow> paste_burst" where
  "note_plain_char windows now b =
    (let n = (case last_plain_char_time b of
         Some prev \<Rightarrow> if now - prev \<le> PASTE_BURST_CHAR_INTERVAL windows
                      then min (consecutive_plain_char_burst b + 1) U16_MAX else 1
       | None \<Rightarrow> 1)
     in b\<lparr>consecutive_plain_char_burst := n, last_plain_char_time := Some now\<rparr>)"

definition extend_window :: "nat \<Rightarrow> paste_burst \<Rightarrow> paste_burst" where
  "extend_window now b = b\<lparr>burst_window_until := Some (now + PASTE_ENTER_SUPPRESS_WINDOW)\<rparr>"

definition on_plain_char :: "bool \<Rightarrow> nat \<Rightarrow> nat \<Rightarrow> paste_burst \<Rightarrow> char_decision \<times> paste_burst" where
  "on_plain_char windows ch now b =
    (let b = note_plain_char windows now b in
     if burst_active b then (BufferAppend, extend_window now b)
     else
       (case pending_first_char b of
          Some (held, held_at) \<Rightarrow>
            if now - held_at \<le> PASTE_BURST_CHAR_INTERVAL windows then
              (BeginBufferFromPending,
               extend_window now (b\<lparr>burst_active := True, pending_first_char := None, burst_buffer := burst_buffer b @ [held]\<rparr>))
            else if PASTE_BURST_MIN_CHARS \<le> consecutive_plain_char_burst b then
              (BeginBuffer (consecutive_plain_char_burst b - 1), b)
            else (RetainFirstChar, b\<lparr>pending_first_char := Some (ch, now)\<rparr>)
        | None \<Rightarrow>
            if PASTE_BURST_MIN_CHARS \<le> consecutive_plain_char_burst b then
              (BeginBuffer (consecutive_plain_char_burst b - 1), b)
            else (RetainFirstChar, b\<lparr>pending_first_char := Some (ch, now)\<rparr>)))"

definition on_plain_char_no_hold :: "bool \<Rightarrow> nat \<Rightarrow> paste_burst \<Rightarrow> char_decision option \<times> paste_burst" where
  "on_plain_char_no_hold windows now b =
    (let b = note_plain_char windows now b in
     if burst_active b then (Some BufferAppend, extend_window now b)
     else if PASTE_BURST_MIN_CHARS \<le> consecutive_plain_char_burst b then
       (Some (BeginBuffer (consecutive_plain_char_burst b - 1)), b)
     else (None, b))"

definition is_active_internal :: "paste_burst \<Rightarrow> bool" where
  "is_active_internal b \<longleftrightarrow> burst_active b \<or> burst_buffer b \<noteq> []"

definition is_active :: "paste_burst \<Rightarrow> bool" where
  "is_active b \<longleftrightarrow> is_active_internal b \<or> pending_first_char b \<noteq> None"

definition flush_if_due :: "bool \<Rightarrow> nat \<Rightarrow> paste_burst \<Rightarrow> flush_result \<times> paste_burst" where
  "flush_if_due windows now b =
    (let timeout = (if is_active_internal b then PASTE_BURST_ACTIVE_IDLE_TIMEOUT windows else PASTE_BURST_CHAR_INTERVAL windows);
         timed_out = is_some_and (last_plain_char_time b) (\<lambda>t. timeout < now - t)
     in if timed_out \<and> is_active_internal b then
          (Paste (burst_buffer b), b\<lparr>burst_active := False, burst_buffer := []\<rparr>)
        else if timed_out then
          (case pending_first_char b of
             Some (ch, _) \<Rightarrow> (Typed ch, b\<lparr>pending_first_char := None\<rparr>)
           | None \<Rightarrow> (NoFlush, b))
        else (NoFlush, b))"

definition append_newline_if_active :: "nat \<Rightarrow> paste_burst \<Rightarrow> bool \<times> paste_burst" where
  "append_newline_if_active now b =
    (if is_active b then (True, extend_window now (b\<lparr>burst_buffer := burst_buffer b @ [nl]\<rparr>)) else (False, b))"

definition newline_should_insert_instead_of_submit :: "nat \<Rightarrow> paste_burst \<Rightarrow> bool" where
  "newline_should_insert_instead_of_submit now b =
    (is_active b \<or> is_some_and (burst_window_until b) (\<lambda>until. now \<le> until))"

definition begin_with_retro_grabbed :: "ustr \<Rightarrow> nat \<Rightarrow> paste_burst \<Rightarrow> paste_burst" where
  "begin_with_retro_grabbed grab now b =
    extend_window now
      ((if grab \<noteq> [] then b\<lparr>burst_buffer := burst_buffer b @ grab\<rparr> else b)\<lparr>burst_active := True\<rparr>)"

definition append_char_to_buffer :: "nat \<Rightarrow> nat \<Rightarrow> paste_burst \<Rightarrow> paste_burst" where
  "append_char_to_buffer ch now b = extend_window now (b\<lparr>burst_buffer := burst_buffer b @ [ch]\<rparr>)"

definition try_append_char_if_active :: "nat \<Rightarrow> nat \<Rightarrow> paste_burst \<Rightarrow> bool \<times> paste_burst" where
  "try_append_char_if_active ch now b =
    (if burst_active b \<or> burst_buffer b \<noteq> [] then (True, append_char_to_buffer ch now b) else (False, b))"

text \<open>\<open>char_indices().rev().nth(retro_chars - 1)\<close>.\<close>

definition retro_start_index :: "ustr \<Rightarrow> nat \<Rightarrow> nat" where
  "retro_start_index before retro_chars =
    (if retro_chars = 0 then str_len before
     else (let back = rev (char_indices 0 before) in
       if retro_chars - 1 < length back then fst (back ! (retro_chars - 1)) else 0))"

text \<open>The slice from the start index to the end; \<open>None\<close> outside is a panic, inside no grab.\<close>

definition decide_begin_buffer :: "nat \<Rightarrow> ustr \<Rightarrow> nat \<Rightarrow> paste_burst \<Rightarrow> (retro_grab option \<times> paste_burst) option" where
  "decide_begin_buffer now before retro_chars b =
    (let start = retro_start_index before retro_chars in
     map_option (\<lambda>grab.
         if list_ex is_whitespace grab \<or> 16 \<le> length grab then
           (Some \<lparr>start_byte = start, grabbed = grab\<rparr>, begin_with_retro_grabbed grab now b)
         else (None, b))
       (slice_from start before))"

definition flush_before_modified_input :: "paste_burst \<Rightarrow> ustr option \<times> paste_burst" where
  "flush_before_modified_input b =
    (if \<not> is_active b then (None, b)
     else (Some (burst_buffer b @ (case pending_first_char b of Some (ch, _) \<Rightarrow> [ch] | None \<Rightarrow> [])),
           b\<lparr>burst_active := False, burst_buffer := [], pending_first_char := None\<rparr>))"

definition clear_window_after_non_char :: "paste_burst \<Rightarrow> paste_burst" where
  "clear_window_after_non_char b =
    b\<lparr>consecutive_plain_char_burst := 0, last_plain_char_time := None, burst_window_until := None,
      burst_active := False, pending_first_char := None\<rparr>"

definition clear_after_explicit_paste :: "paste_burst \<Rightarrow> paste_burst" where
  "clear_after_explicit_paste b =
    b\<lparr>last_plain_char_time := None, consecutive_plain_char_burst := 0, burst_window_until := None,
      burst_active := False, burst_buffer := [], pending_first_char := None\<rparr>"

subsection \<open>The slice of a retro grab\<close>

lemma length_char_indices [simp]: "length (char_indices i s) = length s"
  by (induction s arbitrary: i) simp_all

lemma char_indices_nth: "k < length s \<Longrightarrow> fst (char_indices i s ! k) = i + str_len (take k s)"
proof (induction s arbitrary: i k)
  case (Cons c s)
  then show ?case by (cases k) simp_all
qed simp

lemma retro_start:
  "retro_start_index before k = str_len (take (length before - k) before)"
proof (cases "k = 0 \<or> length before < k")
  case True
  then show ?thesis by (auto simp: retro_start_index_def Let_def)
next
  case False
  then have k: "k - 1 < length before" "k \<noteq> 0" "length before - Suc (k - 1) = length before - k" by linarith+
  have "rev (char_indices 0 before) ! (k - 1) = char_indices 0 before ! (length before - Suc (k - 1))"
    using k(1) by (subst rev_nth) simp_all
  moreover have "length before - k < length before" using k(1,2) by linarith
  ultimately show ?thesis using k by (simp add: retro_start_index_def Let_def char_indices_nth)
qed

lemma retro_slice: "slice_from (retro_start_index before k) before = Some (drop (length before - k) before)"
  by (metis append_take_drop_id retro_start slice_from_append)

end
