(* ===== verification/Composer_Input.thy ===== *)
theory Composer_Input
  imports Paste_Burst
begin

section \<open>Typing into the composer (tui/src/bottom\_pane/chat\_composer.rs)\<close>

text \<open>
  How the composer feeds plain characters, ticks and Enter to the paste burst and applies its
  decisions to the text area: the text before and after the cursor, the placeholders of large
  pastes, and the bash mode a leading exclamation mark switches on. Pop-ups, history and attached
  images beyond the element an image paste inserts are not modelled. \<open>attach_image\<close> is what
  \<open>handle_paste_image_path\<close> makes of a pasted text: the element it inserts, when the text names an
  image file.
\<close>

record composer_env =
  on_windows :: bool
  image_paste_enabled :: bool
  attach_image :: "ustr \<Rightarrow> ustr option"

record composer =
  text_before :: ustr
  text_after :: ustr
  is_bash_mode :: bool
  pending_pastes :: "(ustr \<times> ustr) list"
  large_paste_counters :: "nat \<rightharpoonup> nat"
  burst :: paste_burst
  disable_paste_burst :: bool

definition composer_new :: composer where
  "composer_new = \<lparr>text_before = [], text_after = [], is_bash_mode = False, pending_pastes = [],
     large_paste_counters = (\<lambda>_. None), burst = burst_default, disable_paste_burst = False\<rparr>"

definition LARGE_PASTE_CHAR_THRESHOLD :: nat where
  "LARGE_PASTE_CHAR_THRESHOLD = 1000"

definition composer_text :: "composer \<Rightarrow> ustr" where
  "composer_text c = text_before c @ text_after c"

text \<open>\<open>textarea.insert_str\<close> at the cursor, and \<open>replace_range(start..cursor, "")\<close>.\<close>

definition textarea_insert :: "ustr \<Rightarrow> composer \<Rightarrow> composer" where
  "textarea_insert t c = c\<lparr>text_before := text_before c @ t\<rparr>"

definition remove_before_cursor :: "nat \<Rightarrow> composer \<Rightarrow> composer" where
  "remove_before_cursor start c =
    (case slice_to start (text_before c) of Some kept \<Rightarrow> c\<lparr>text_before := kept\<rparr> | None \<Rightarrow> c)"

abbreviation c_bang :: nat where "c_bang \<equiv> 33"

definition sync_bash_mode_from_text :: "composer \<Rightarrow> composer" where
  "sync_bash_mode_from_text c =
    (if \<not> is_bash_mode c \<and> starts_with [c_bang] (composer_text c) then
       (case text_before c of
          [] \<Rightarrow> c\<lparr>text_after := tl (text_after c), is_bash_mode := True\<rparr>
        | _ # rest \<Rightarrow> c\<lparr>text_before := rest, is_bash_mode := True\<rparr>)
     else c)"

definition insert_str :: "ustr \<Rightarrow> composer \<Rightarrow> composer" where
  "insert_str t c = sync_bash_mode_from_text (textarea_insert t c)"

definition next_large_paste_placeholder :: "nat \<Rightarrow> composer \<Rightarrow> ustr \<times> composer" where
  "next_large_paste_placeholder char_count c =
    (let base = lit ''[Pasted Content '' @ show_nat char_count @ lit '' chars]'';
         next_suffix = (case large_paste_counters c char_count of Some n \<Rightarrow> n | None \<Rightarrow> 0) + 1;
         c = c\<lparr>large_paste_counters := (large_paste_counters c)(char_count \<mapsto> next_suffix)\<rparr>
     in (if next_suffix = 1 then base else base @ lit '' #'' @ show_nat next_suffix, c))"

text \<open>\<open>replace("\r\n", "\n").replace('\r', "\n")\<close>.\<close>

fun normalize_newlines :: "ustr \<Rightarrow> ustr" where
  "normalize_newlines [] = []"
| "normalize_newlines (x # xs) =
    (if x = cr then nl # (case xs of y # ys \<Rightarrow> if y = nl then normalize_newlines ys else normalize_newlines xs | [] \<Rightarrow> [])
     else x # normalize_newlines xs)"

definition handle_paste :: "composer_env \<Rightarrow> ustr \<Rightarrow> composer \<Rightarrow> composer" where
  "handle_paste env t c =
    (let pasted = normalize_newlines t; char_count = length pasted;
         c = (if LARGE_PASTE_CHAR_THRESHOLD < char_count then
                (case next_large_paste_placeholder char_count c of
                   (placeholder, c) \<Rightarrow>
                     (textarea_insert placeholder c)\<lparr>pending_pastes := pending_pastes c @ [(placeholder, pasted)]\<rparr>)
              else
                (case (if 1 < char_count \<and> image_paste_enabled env then attach_image env pasted else None) of
                   Some element \<Rightarrow> textarea_insert (lit '' '') (textarea_insert element c)
                 | None \<Rightarrow> insert_str pasted c))
     in c\<lparr>burst := clear_after_explicit_paste (burst c)\<rparr>)"

definition set_disable_paste_burst :: "composer_env \<Rightarrow> bool \<Rightarrow> composer \<Rightarrow> composer" where
  "set_disable_paste_burst env disabled c =
    (let was_disabled = disable_paste_burst c; c = c\<lparr>disable_paste_burst := disabled\<rparr> in
     if disabled \<and> \<not> was_disabled then
       (case flush_before_modified_input (burst c) of
          (pasted, b) \<Rightarrow>
            (let c = c\<lparr>burst := b\<rparr>;
                 c = (case pasted of Some t \<Rightarrow> handle_paste env t c | None \<Rightarrow> c)
             in c\<lparr>burst := clear_after_explicit_paste (burst c)\<rparr>))
     else c)"

definition handle_paste_burst_flush :: "composer_env \<Rightarrow> nat \<Rightarrow> composer \<Rightarrow> bool \<times> composer" where
  "handle_paste_burst_flush env now c =
    (case flush_if_due (on_windows env) now (burst c) of
       (r, b) \<Rightarrow>
         (case r of
            Paste pasted \<Rightarrow> (True, handle_paste env pasted (c\<lparr>burst := b\<rparr>))
          | Typed ch \<Rightarrow> (True, insert_str [ch] (c\<lparr>burst := b\<rparr>))
          | NoFlush \<Rightarrow> (False, c\<lparr>burst := b\<rparr>)))"

definition flush_held :: "composer_env \<Rightarrow> composer \<Rightarrow> composer" where
  "flush_held env c =
    (case flush_before_modified_input (burst c) of
       (pasted, b) \<Rightarrow>
         (let c = c\<lparr>burst := b\<rparr> in case pasted of Some t \<Rightarrow> handle_paste env t c | None \<Rightarrow> c))"

definition retain_pending_pastes :: "composer \<Rightarrow> composer" where
  "retain_pending_pastes c =
    c\<lparr>pending_pastes := filter (\<lambda>(placeholder, _). contains_str placeholder (composer_text c)) (pending_pastes c)\<rparr>"

text \<open>
  \<open>BeginBuffer\<close>: grab back what was already inserted, or return nothing to fall through to
  insertion. The grab is the slice up to the cursor, so nothing can panic (\<open>retro_slice\<close>).
\<close>

definition begin_buffer :: "nat \<Rightarrow> nat \<Rightarrow> nat \<Rightarrow> composer \<Rightarrow> composer option \<times> composer" where
  "begin_buffer ch now retro_chars c =
    (case decide_begin_buffer now (text_before c) retro_chars (burst c) of
       None \<Rightarrow> (None, c)
     | Some (None, b) \<Rightarrow> (None, c\<lparr>burst := b\<rparr>)
     | Some (Some grab, b) \<Rightarrow>
         (let c = c\<lparr>burst := b\<rparr>;
              c = (if grabbed grab \<noteq> [] then remove_before_cursor (start_byte grab) c else c)
          in (Some (c\<lparr>burst := append_char_to_buffer ch now (burst c)\<rparr>), c)))"

definition insert_non_ascii :: "composer_env \<Rightarrow> nat \<Rightarrow> composer \<Rightarrow> composer" where
  "insert_non_ascii env ch c = retain_pending_pastes (textarea_insert [ch] (flush_held env c))"

definition handle_non_ascii_char :: "composer_env \<Rightarrow> nat \<Rightarrow> nat \<Rightarrow> composer \<Rightarrow> composer" where
  "handle_non_ascii_char env ch now c =
    (if disable_paste_burst c then retain_pending_pastes (textarea_insert [ch] c)
     else
       (case try_append_char_if_active ch now (burst c) of
          (True, b) \<Rightarrow> c\<lparr>burst := b\<rparr>
        | (False, b) \<Rightarrow>
            (let c = flush_held env (c\<lparr>burst := b\<rparr>) in
             (case on_plain_char_no_hold (on_windows env) now (burst c) of
                (decision, b) \<Rightarrow>
                  (let c = c\<lparr>burst := b\<rparr> in
                   (case decision of
                      Some BufferAppend \<Rightarrow> c\<lparr>burst := append_char_to_buffer ch now (burst c)\<rparr>
                    | Some (BeginBuffer retro_chars) \<Rightarrow>
                        (case begin_buffer ch now retro_chars c of
                           (Some c', _) \<Rightarrow> c'
                         | (None, c') \<Rightarrow> insert_non_ascii env ch c')
                    | _ \<Rightarrow> insert_non_ascii env ch c))))))"

text \<open>
  A plain character without Control or Alt (\<open>handle_input_basic_with_time\<close>), other than the control
  characters the text area reads as cursor keys. Elements are only removed by deletion, so a plain
  character needs no reconciliation.
\<close>

definition insert_plain :: "composer_env \<Rightarrow> nat \<Rightarrow> composer \<Rightarrow> composer" where
  "insert_plain env ch c = sync_bash_mode_from_text (textarea_insert [ch] (flush_held env c))"

definition handle_plain_char :: "composer_env \<Rightarrow> nat \<Rightarrow> nat \<Rightarrow> composer \<Rightarrow> composer" where
  "handle_plain_char env ch now c =
    (let c = snd (handle_paste_burst_flush env now c) in
     if disable_paste_burst c then insert_plain env ch c
     else if 128 \<le> ch then handle_non_ascii_char env ch now c
     else
       (case on_plain_char (on_windows env) ch now (burst c) of
          (decision, b) \<Rightarrow>
            (let c = c\<lparr>burst := b\<rparr> in
             (case decision of
                BufferAppend \<Rightarrow> c\<lparr>burst := append_char_to_buffer ch now (burst c)\<rparr>
              | BeginBuffer retro_chars \<Rightarrow>
                  (case begin_buffer ch now retro_chars c of
                     (Some c', _) \<Rightarrow> c'
                   | (None, c') \<Rightarrow> insert_plain env ch c')
              | BeginBufferFromPending \<Rightarrow> c\<lparr>burst := append_char_to_buffer ch now (burst c)\<rparr>
              | RetainFirstChar \<Rightarrow> c))))"

text \<open>
  Enter outside a slash command (\<open>handle_submission_with_time\<close>, not queued): \<open>None\<close> is a
  submission, which is not modelled further.
\<close>

definition handle_enter :: "nat \<Rightarrow> composer \<Rightarrow> composer option" where
  "handle_enter now c =
    (if \<not> disable_paste_burst c \<and> is_active (burst c) then
       (case append_newline_if_active now (burst c) of
          (True, b) \<Rightarrow> Some (c\<lparr>burst := b\<rparr>)
        | (False, b) \<Rightarrow> None)
     else if \<not> disable_paste_burst c \<and> newline_should_insert_instead_of_submit now (burst c) then
       (let c = textarea_insert [nl] c in Some (c\<lparr>burst := extend_window now (burst c)\<rparr>))
     else None)"

datatype typing = Key nat nat | Tick nat

fun type_one :: "composer_env \<Rightarrow> typing \<Rightarrow> composer \<Rightarrow> composer" where
  "type_one env (Key ch now) c = handle_plain_char env ch now c"
| "type_one env (Tick now) c = snd (handle_paste_burst_flush env now c)"

definition type_all :: "composer_env \<Rightarrow> typing list \<Rightarrow> composer \<Rightarrow> composer" where
  "type_all env evs c = fold (type_one env) evs c"

fun typed_chars :: "typing list \<Rightarrow> ustr" where
  "typed_chars [] = []"
| "typed_chars (Key ch now # evs) = ch # typed_chars evs"
| "typed_chars (Tick now # evs) = typed_chars evs"

subsection \<open>No character is lost\<close>

definition held_chars :: "paste_burst \<Rightarrow> ustr" where
  "held_chars b = burst_buffer b @ (case pending_first_char b of Some (ch, _) \<Rightarrow> [ch] | None \<Rightarrow> [])"

definition shown_chars :: "composer \<Rightarrow> ustr" where
  "shown_chars c = (if is_bash_mode c then [c_bang] else []) @ composer_text c"

text \<open>
  What holds between keys: a burst is active exactly while its buffer is not empty, then no
  character is pending; a pending character was the last one, and its time is known.
\<close>

definition burst_ok :: "paste_burst \<Rightarrow> bool" where
  "burst_ok b \<longleftrightarrow> (burst_active b \<longleftrightarrow> burst_buffer b \<noteq> [])
    \<and> (\<forall>ch t. pending_first_char b = Some (ch, t) \<longrightarrow> burst_buffer b = [] \<and> last_plain_char_time b = Some t)
    \<and> (burst_buffer b \<noteq> [] \<longrightarrow> last_plain_char_time b \<noteq> None)"

definition typing_state :: "ustr \<Rightarrow> composer \<Rightarrow> bool" where
  "typing_state typed c \<longleftrightarrow> burst_ok (burst c) \<and> text_after c = [] \<and> disable_paste_burst c = False
    \<and> shown_chars c @ held_chars (burst c) = typed"

text \<open>The pastes stay small and no image is attached.\<close>

definition text_env :: "composer_env \<Rightarrow> bool" where
  "text_env env \<longleftrightarrow> \<not> image_paste_enabled env"

definition plain_typed :: "ustr \<Rightarrow> bool" where
  "plain_typed typed \<longleftrightarrow> length typed \<le> LARGE_PASTE_CHAR_THRESHOLD \<and> cr \<notin> set typed"

lemma normalize_newlines_id: "cr \<notin> set t \<Longrightarrow> normalize_newlines t = t"
  by (induction t) auto

lemma shown_burst [simp]: "shown_chars (c\<lparr>burst := b\<rparr>) = shown_chars c"
  by (simp add: shown_chars_def composer_text_def)

lemma shown_sync:
  assumes "text_after c = []"
  shows "shown_chars (sync_bash_mode_from_text c) = shown_chars c \<and> text_after (sync_bash_mode_from_text c) = []
    \<and> burst (sync_bash_mode_from_text c) = burst c
    \<and> disable_paste_burst (sync_bash_mode_from_text c) = disable_paste_burst c"
proof (cases "\<not> is_bash_mode c \<and> starts_with [c_bang] (composer_text c)")
  case True
  with assms obtain rest where "text_before c = c_bang # rest" by (auto simp: starts_with_iff composer_text_def)
  with True assms show ?thesis by (simp add: sync_bash_mode_from_text_def shown_chars_def composer_text_def)
next
  case False
  then have "sync_bash_mode_from_text c = c" by (auto simp: sync_bash_mode_from_text_def)
  with assms show ?thesis by simp
qed

lemma shown_insert:
  assumes "text_after c = []"
  shows "shown_chars (textarea_insert t c) = shown_chars c @ t \<and> text_after (textarea_insert t c) = []
    \<and> burst (textarea_insert t c) = burst c \<and> disable_paste_burst (textarea_insert t c) = disable_paste_burst c"
  using assms by (simp add: textarea_insert_def shown_chars_def composer_text_def)

lemma shown_insert_str:
  assumes "text_after c = []"
  shows "shown_chars (insert_str t c) = shown_chars c @ t \<and> text_after (insert_str t c) = []
    \<and> burst (insert_str t c) = burst c \<and> disable_paste_burst (insert_str t c) = disable_paste_burst c"
  using shown_insert [OF assms, of t] shown_sync [of "textarea_insert t c"] unfolding insert_str_def by simp

lemma burst_ok_clear [simp]: "burst_ok (clear_after_explicit_paste b)" "held_chars (clear_after_explicit_paste b) = []"
  by (simp_all add: burst_ok_def held_chars_def clear_after_explicit_paste_def)

lemma small_paste:
  assumes "text_env env" and "plain_typed t" and "text_after c = []"
  shows "shown_chars (handle_paste env t c) = shown_chars c @ t \<and> text_after (handle_paste env t c) = []
    \<and> burst (handle_paste env t c) = clear_after_explicit_paste (burst c)
    \<and> disable_paste_burst (handle_paste env t c) = disable_paste_burst c"
proof -
  have "handle_paste env t c = (insert_str t c)\<lparr>burst := clear_after_explicit_paste (burst (insert_str t c))\<rparr>"
    using assms by (simp add: handle_paste_def Let_def text_env_def plain_typed_def normalize_newlines_id)
  with shown_insert_str [OF assms(3), of t] show ?thesis by simp
qed

lemma plain_typed_part: "plain_typed (a @ b @ c) \<Longrightarrow> plain_typed b"
  by (simp add: plain_typed_def)

lemma held_part:
  assumes "typing_state typed c" and "plain_typed typed"
  shows "plain_typed (held_chars (burst c))"
  using plain_typed_part [of "shown_chars c" "held_chars (burst c)" "[]"] assms by (simp add: typing_state_def)

lemma flush_held_typing:
  assumes "text_env env" and "plain_typed typed" and "typing_state typed c"
  shows "typing_state typed (flush_held env c) \<and> held_chars (burst (flush_held env c)) = []"
proof (cases "is_active (burst c)")
  case False
  then have "flush_held env c = c" by (simp add: flush_held_def flush_before_modified_input_def)
  moreover from False have "held_chars (burst c) = []"
    by (cases "pending_first_char (burst c)") (auto simp: held_chars_def is_active_def is_active_internal_def)
  ultimately show ?thesis using assms(3) by simp
next
  case True
  define b where "b = (burst c)\<lparr>burst_active := False, burst_buffer := [], pending_first_char := None\<rparr>"
  have f: "flush_held env c = handle_paste env (held_chars (burst c)) (c\<lparr>burst := b\<rparr>)"
    using True by (simp add: flush_held_def flush_before_modified_input_def held_chars_def b_def)
  have "text_after (c\<lparr>burst := b\<rparr>) = []" using assms(3) by (simp add: typing_state_def)
  note p = small_paste [OF assms(1) held_part [OF assms(3,2)] this]
  show ?thesis unfolding f typing_state_def using p assms(3) by (simp add: typing_state_def)
qed

text \<open>A tick keeps everything; afterwards a pending character is no older than the interval.\<close>

lemma tick_typing:
  fixes now :: nat
  assumes "text_env env" and "plain_typed typed" and "typing_state typed c"
  defines "c' \<equiv> snd (handle_paste_burst_flush env now c)"
  shows "typing_state typed c'
    \<and> (\<forall>ch t. pending_first_char (burst c') = Some (ch, t) \<longrightarrow> now - t \<le> PASTE_BURST_CHAR_INTERVAL (on_windows env))"
proof -
  obtain r b where f: "flush_if_due (on_windows env) now (burst c) = (r, b)" by fastforce
  have ok: "burst_ok (burst c)" and ta: "text_after c = []" and d: "disable_paste_burst c = False"
    and typed: "shown_chars c @ held_chars (burst c) = typed" using assms(3) by (simp_all add: typing_state_def)
  show ?thesis
  proof (cases r)
    case (Paste pasted)
    with f have p: "pasted = burst_buffer (burst c)" "b = (burst c)\<lparr>burst_active := False, burst_buffer := []\<rparr>"
      "is_active_internal (burst c)"
      by (auto simp: flush_if_due_def Let_def split: if_splits option.splits)
    then have "burst_buffer (burst c) \<noteq> []" using ok by (auto simp: is_active_internal_def burst_ok_def)
    then have n: "pending_first_char (burst c) = None"
      using ok by (cases "pending_first_char (burst c)") (auto simp: burst_ok_def)
    then have h: "held_chars (burst c) = pasted" using p(1) by (simp add: held_chars_def)
    have c': "c' = handle_paste env pasted (c\<lparr>burst := b\<rparr>)"
      using f Paste by (simp add: c'_def handle_paste_burst_flush_def)
    have "plain_typed pasted" using held_part [OF assms(3,2)] h by simp
    from small_paste [OF assms(1) this, of "c\<lparr>burst := b\<rparr>"] ta have
      "shown_chars c' = shown_chars c @ pasted" "text_after c' = []" "burst c' = clear_after_explicit_paste b"
      "disable_paste_burst c' = disable_paste_burst c" by (simp_all add: c')
    moreover then have "pending_first_char (burst c') = None" by (simp add: clear_after_explicit_paste_def)
    ultimately show ?thesis using typed h d by (simp add: typing_state_def)
  next
    case (Typed ch)
    with f obtain t where p: "\<not> is_active_internal (burst c)" "pending_first_char (burst c) = Some (ch, t)"
      "b = (burst c)\<lparr>pending_first_char := None\<rparr>"
      by (auto simp: flush_if_due_def Let_def split: if_splits option.splits)
    have c': "c' = insert_str [ch] (c\<lparr>burst := b\<rparr>)" using f Typed by (simp add: c'_def handle_paste_burst_flush_def)
    from p(1) have e: "burst_buffer (burst c) = []" "\<not> burst_active (burst c)" by (auto simp: is_active_internal_def)
    from shown_insert_str [of "c\<lparr>burst := b\<rparr>" "[ch]"] ta have
      "shown_chars c' = shown_chars c @ [ch]" "text_after c' = []" "burst c' = b"
      "disable_paste_burst c' = disable_paste_burst c" by (simp_all add: c')
    with typed d p e show ?thesis by (auto simp: typing_state_def burst_ok_def held_chars_def)
  next
    case NoFlush
    with f have b: "b = burst c" by (auto simp: flush_if_due_def Let_def split: if_splits option.splits)
    then have c': "c' = c" using f NoFlush by (simp add: c'_def handle_paste_burst_flush_def)
    have "now - t \<le> PASTE_BURST_CHAR_INTERVAL (on_windows env)" if "pending_first_char (burst c) = Some (ch, t)" for ch t
    proof -
      have "last_plain_char_time (burst c) = Some t" "\<not> is_active_internal (burst c)"
        using ok that by (auto simp: burst_ok_def is_active_internal_def)
      with f NoFlush that show ?thesis
        by (auto simp: flush_if_due_def Let_def is_some_and_def split: if_splits)
    qed
    with c' assms(3) show ?thesis by simp
  qed
qed

lemma begin_buffer_typing:
  assumes "typing_state typed c" and "burst_buffer (burst c) = []" and "pending_first_char (burst c) = None"
    and "last_plain_char_time (burst c) \<noteq> None"
    and "begin_buffer ch now k c = (r, c')"
  shows "(case r of Some c2 \<Rightarrow> typing_state (typed @ [ch]) c2 | None \<Rightarrow> c' = c)"
proof -
  let ?grab = "drop (length (text_before c) - k) (text_before c)"
  let ?keep = "take (length (text_before c) - k) (text_before c)"
  show ?thesis
  proof (cases "list_ex is_whitespace ?grab \<or> 16 \<le> length ?grab")
    case False
    then have "decide_begin_buffer now (text_before c) k (burst c) = Some (None, burst c)"
      by (simp add: decide_begin_buffer_def Let_def retro_slice)
    with assms(5) show ?thesis by (auto simp: begin_buffer_def)
  next
    case True
    have ne: "?grab \<noteq> []"
    proof
      assume "?grab = []"
      with True show False by simp
    qed
    have "slice_to (retro_start_index (text_before c) k) (text_before c) = Some ?keep"
      by (metis append_take_drop_id retro_start slice_to_append)
    moreover have "decide_begin_buffer now (text_before c) k (burst c)
        = Some (Some \<lparr>start_byte = retro_start_index (text_before c) k, grabbed = ?grab\<rparr>,
            begin_with_retro_grabbed ?grab now (burst c))"
      using True by (simp add: decide_begin_buffer_def Let_def retro_slice)
    ultimately have "r = Some (c\<lparr>burst := append_char_to_buffer ch now (begin_with_retro_grabbed ?grab now (burst c)),
        text_before := ?keep\<rparr>)"
      using assms(5) ne by (auto simp: begin_buffer_def remove_before_cursor_def Let_def)
    moreover have "text_before c = ?keep @ ?grab" by simp
    ultimately show ?thesis
      using assms(1-4) ne
      by (auto simp: typing_state_def burst_ok_def held_chars_def shown_chars_def composer_text_def
          append_char_to_buffer_def begin_with_retro_grabbed_def extend_window_def)
  qed
qed

lemma held_nil: "held_chars b = [] \<longleftrightarrow> burst_buffer b = [] \<and> pending_first_char b = None"
  by (cases "pending_first_char b") (auto simp: held_chars_def)

lemma typing_insert:
  assumes "typing_state typed c" and "held_chars (burst c) = []"
  shows "typing_state (typed @ [ch]) (textarea_insert [ch] c)"
  using assms shown_insert [of c "[ch]"] by (simp add: typing_state_def)

lemma typing_sync: "typing_state typed c \<Longrightarrow> typing_state typed (sync_bash_mode_from_text c)"
  using shown_sync [of c] by (simp add: typing_state_def)

lemma typing_retain: "typing_state typed c \<Longrightarrow> typing_state typed (retain_pending_pastes c)"
  by (auto simp: typing_state_def retain_pending_pastes_def shown_chars_def composer_text_def)

lemma insert_plain_typing:
  assumes "text_env env" and "plain_typed typed" and "typing_state typed c"
  shows "typing_state (typed @ [ch]) (insert_plain env ch c)"
  unfolding insert_plain_def using flush_held_typing [OF assms] typing_insert typing_sync by blast

lemma insert_non_ascii_typing:
  assumes "text_env env" and "plain_typed typed" and "typing_state typed c"
  shows "typing_state (typed @ [ch]) (insert_non_ascii env ch c)"
  unfolding insert_non_ascii_def using flush_held_typing [OF assms] typing_insert typing_retain by blast

text \<open>Noting a character changes only the clock and the count.\<close>

lemma note_plain_char_simps:
  "burst_active (note_plain_char w now b) = burst_active b" "burst_buffer (note_plain_char w now b) = burst_buffer b"
  "pending_first_char (note_plain_char w now b) = pending_first_char b"
  "last_plain_char_time (note_plain_char w now b) = Some now"
  by (simp_all add: note_plain_char_def Let_def)

lemma append_typing:
  assumes "typing_state typed c" and "burst_active (burst c)" and "burst_buffer b = burst_buffer (burst c)"
    and "pending_first_char b = None" and "burst_active b" and "last_plain_char_time b \<noteq> None"
  shows "typing_state (typed @ [ch]) (c\<lparr>burst := append_char_to_buffer ch now b\<rparr>)"
proof -
  have "burst_buffer (burst c) \<noteq> []" using assms(1,2) by (auto simp: typing_state_def burst_ok_def)
  then have "pending_first_char (burst c) = None"
    using assms(1) by (cases "pending_first_char (burst c)") (auto simp: typing_state_def burst_ok_def)
  with assms show ?thesis
    by (auto simp: typing_state_def burst_ok_def held_chars_def append_char_to_buffer_def extend_window_def)
qed

lemma non_ascii_typing:
  assumes "text_env env" and "plain_typed typed" and "typing_state typed c"
  shows "typing_state (typed @ [ch]) (handle_non_ascii_char env ch now c)"
proof (cases "burst_active (burst c)")
  case True
  have "burst_buffer (burst c) \<noteq> []" using assms(3) True by (auto simp: typing_state_def burst_ok_def)
  then have n: "pending_first_char (burst c) = None" "last_plain_char_time (burst c) \<noteq> None"
    using assms(3) by (cases "pending_first_char (burst c)"; auto simp: typing_state_def burst_ok_def)+
  have "handle_non_ascii_char env ch now c = c\<lparr>burst := append_char_to_buffer ch now (burst c)\<rparr>"
    using True assms(3) by (simp add: handle_non_ascii_char_def try_append_char_if_active_def typing_state_def)
  with append_typing [OF assms(3) True refl n(1) True n(2)] show ?thesis by simp
next
  case False
  then have e: "burst_buffer (burst c) = []" using assms(3) by (auto simp: typing_state_def burst_ok_def)
  define c1 where "c1 = flush_held env c"
  have c1: "typing_state typed c1" "held_chars (burst c1) = []"
    using flush_held_typing [OF assms] by (simp_all add: c1_def)
  then have h: "burst_buffer (burst c1) = []" "pending_first_char (burst c1) = None" by (simp_all add: held_nil)
  then have a: "\<not> burst_active (burst c1)" using c1(1) by (auto simp: typing_state_def burst_ok_def)
  define b where "b = note_plain_char (on_windows env) now (burst c1)"
  define c2 where "c2 = c1\<lparr>burst := b\<rparr>"
  have c2: "typing_state typed c2" "burst_buffer (burst c2) = []" "pending_first_char (burst c2) = None"
    "last_plain_char_time (burst c2) \<noteq> None"
    using c1 h a by (auto simp: c2_def b_def typing_state_def burst_ok_def held_chars_def note_plain_char_simps)
  have u: "handle_non_ascii_char env ch now c
    = (if PASTE_BURST_MIN_CHARS \<le> consecutive_plain_char_burst b then
         (case begin_buffer ch now (consecutive_plain_char_burst b - 1) c2 of
            (Some c', _) \<Rightarrow> c' | (None, c') \<Rightarrow> insert_non_ascii env ch c')
       else insert_non_ascii env ch c2)"
    using False e a assms(3)
    by (simp add: handle_non_ascii_char_def try_append_char_if_active_def typing_state_def on_plain_char_no_hold_def
        Let_def c1_def [symmetric] b_def [symmetric] c2_def [symmetric] note_plain_char_simps)
  obtain r c3 where bb: "begin_buffer ch now (consecutive_plain_char_burst b - 1) c2 = (r, c3)" by fastforce
  note bt = begin_buffer_typing [OF c2 bb]
  note ins = insert_non_ascii_typing [OF assms(1,2) c2(1), of ch]
  show ?thesis
    unfolding u bb using bt ins by (cases r) auto
qed

lemma plain_char_typing:
  assumes "text_env env" and "plain_typed typed" and "typing_state typed c"
  shows "typing_state (typed @ [ch]) (handle_plain_char env ch now c)"
proof -
  define c1 where "c1 = snd (handle_paste_burst_flush env now c)"
  have c1: "typing_state typed c1"
    and fresh: "\<And>ch t. pending_first_char (burst c1) = Some (ch, t) \<Longrightarrow> now - t \<le> PASTE_BURST_CHAR_INTERVAL (on_windows env)"
    using tick_typing [OF assms, of now] by (simp_all add: c1_def)
  have d: "disable_paste_burst c1 = False" using c1 by (simp add: typing_state_def)
  define b where "b = note_plain_char (on_windows env) now (burst c1)"
  have b: "burst_active b = burst_active (burst c1)" "burst_buffer b = burst_buffer (burst c1)"
    "pending_first_char b = pending_first_char (burst c1)" "last_plain_char_time b = Some now"
    by (simp_all add: b_def note_plain_char_simps)
  have ok: "burst_ok (burst c1)" using c1 by (simp add: typing_state_def)
  show ?thesis
  proof (cases "128 \<le> ch")
    case True
    with d non_ascii_typing [OF assms(1,2) c1, of ch now] show ?thesis
      by (simp add: handle_plain_char_def c1_def [symmetric])
  next
    case ascii: False
    have u: "handle_plain_char env ch now c = (case on_plain_char (on_windows env) ch now (burst c1) of
        (decision, b) \<Rightarrow>
          (let c = c1\<lparr>burst := b\<rparr> in
           (case decision of
              BufferAppend \<Rightarrow> c\<lparr>burst := append_char_to_buffer ch now (burst c)\<rparr>
            | BeginBuffer retro_chars \<Rightarrow>
                (case begin_buffer ch now retro_chars c of
                   (Some c', _) \<Rightarrow> c'
                 | (None, c') \<Rightarrow> insert_plain env ch c')
            | BeginBufferFromPending \<Rightarrow> c\<lparr>burst := append_char_to_buffer ch now (burst c)\<rparr>
            | RetainFirstChar \<Rightarrow> c)))"
      using d ascii by (simp add: handle_plain_char_def c1_def [symmetric])
    show ?thesis
    proof (cases "burst_active (burst c1)")
      case True
      have p: "pending_first_char (burst c1) = None"
        using ok True by (cases "pending_first_char (burst c1)") (auto simp: burst_ok_def)
      have "on_plain_char (on_windows env) ch now (burst c1) = (BufferAppend, extend_window now b)"
        using True by (simp add: on_plain_char_def b_def [symmetric] b)
      then have "handle_plain_char env ch now c = c1\<lparr>burst := append_char_to_buffer ch now (extend_window now b)\<rparr>"
        unfolding u by simp
      with append_typing [OF c1 True, of "extend_window now b"] b p True show ?thesis
        by (simp add: extend_window_def)
    next
      case False
      then have e: "burst_buffer (burst c1) = []" using ok by (auto simp: burst_ok_def)
      show ?thesis
      proof (cases "pending_first_char (burst c1)")
        case (Some p)
        obtain held t where p: "p = (held, t)" by (cases p)
        define b' where "b' = b\<lparr>burst_active := True, pending_first_char := None, burst_buffer := burst_buffer b @ [held]\<rparr>"
        have "on_plain_char (on_windows env) ch now (burst c1) = (BeginBufferFromPending, extend_window now b')"
          using False Some p fresh [of held t] by (simp add: on_plain_char_def b_def [symmetric] b b'_def)
        then have "handle_plain_char env ch now c = c1\<lparr>burst := append_char_to_buffer ch now (extend_window now b')\<rparr>"
          unfolding u by simp
        with c1 Some p e b show ?thesis
          by (auto simp: b'_def typing_state_def burst_ok_def held_chars_def append_char_to_buffer_def extend_window_def)
      next
        case None
        define c2 where "c2 = c1\<lparr>burst := b\<rparr>"
        have c2: "typing_state typed c2" "burst_buffer (burst c2) = []" "pending_first_char (burst c2) = None"
          "last_plain_char_time (burst c2) \<noteq> None"
          using c1 b e None False by (auto simp: c2_def typing_state_def burst_ok_def held_chars_def)
        show ?thesis
        proof (cases "PASTE_BURST_MIN_CHARS \<le> consecutive_plain_char_burst b")
          case True
          then have "on_plain_char (on_windows env) ch now (burst c1) = (BeginBuffer (consecutive_plain_char_burst b - 1), b)"
            using False None by (simp add: on_plain_char_def b_def [symmetric] b)
          then have v: "handle_plain_char env ch now c = (case begin_buffer ch now (consecutive_plain_char_burst b - 1) c2 of
              (Some c', _) \<Rightarrow> c' | (None, c') \<Rightarrow> insert_plain env ch c')"
            unfolding u by (simp add: c2_def)
          obtain r c3 where bb: "begin_buffer ch now (consecutive_plain_char_burst b - 1) c2 = (r, c3)" by fastforce
          note bt = begin_buffer_typing [OF c2 bb]
          note ins = insert_plain_typing [OF assms(1,2) c2(1), of ch]
          show ?thesis unfolding v bb using bt ins by (cases r) auto
        next
          case few: False
          then have "on_plain_char (on_windows env) ch now (burst c1) = (RetainFirstChar, b\<lparr>pending_first_char := Some (ch, now)\<rparr>)"
            using False None by (simp add: on_plain_char_def b_def [symmetric] b)
          then have "handle_plain_char env ch now c = c1\<lparr>burst := b\<lparr>pending_first_char := Some (ch, now)\<rparr>\<rparr>"
            unfolding u by simp
          with c1 e None False b show ?thesis
            by (auto simp: typing_state_def burst_ok_def held_chars_def)
        qed
      qed
    qed
  qed
qed

lemma typing_new: "typing_state [] composer_new"
  by (simp add: typing_state_def composer_new_def burst_ok_def burst_default_def held_chars_def shown_chars_def composer_text_def)

lemma plain_typed_prefix: "plain_typed (a @ b) \<Longrightarrow> plain_typed a"
  by (simp add: plain_typed_def)

lemma type_all_typing:
  assumes "text_env env"
  shows "plain_typed (typed @ typed_chars evs) \<Longrightarrow> typing_state typed c \<Longrightarrow>
    typing_state (typed @ typed_chars evs) (type_all env evs c)"
proof (induction evs arbitrary: typed c)
  case Nil
  then show ?case by (simp add: type_all_def)
next
  case (Cons e evs)
  show ?case
  proof (cases e)
    case (Key ch now)
    have "typing_state (typed @ [ch]) (handle_plain_char env ch now c)"
      using plain_char_typing [OF assms plain_typed_prefix [OF Cons.prems(1)] Cons.prems(2)] .
    with Cons.IH [of "typed @ [ch]"] Cons.prems(1) Key show ?thesis by (simp add: type_all_def)
  next
    case (Tick now)
    have "typing_state typed (snd (handle_paste_burst_flush env now c))"
      using tick_typing [OF assms plain_typed_prefix [OF Cons.prems(1)] Cons.prems(2)] by blast
    with Cons.IH [of typed] Cons.prems(1) Tick show ?thesis by (simp add: type_all_def)
  qed
qed

text \<open>A tick after the timeouts shows everything that was held.\<close>

lemma late_tick:
  assumes "text_env env" and "plain_typed typed" and "typing_state typed c"
    and "\<forall>t. last_plain_char_time (burst c) = Some t \<longrightarrow>
      PASTE_BURST_CHAR_INTERVAL (on_windows env) < now - t \<and> PASTE_BURST_ACTIVE_IDLE_TIMEOUT (on_windows env) < now - t"
  shows "held_chars (burst (snd (handle_paste_burst_flush env now c))) = []"
proof -
  have ok: "burst_ok (burst c)" and ta: "text_after c = []" using assms(3) by (simp_all add: typing_state_def)
  have timed: "timeout < now - t" if "last_plain_char_time (burst c) = Some t"
    "timeout = PASTE_BURST_CHAR_INTERVAL (on_windows env) \<or> timeout = PASTE_BURST_ACTIVE_IDLE_TIMEOUT (on_windows env)" for t timeout
    using assms(4) that by auto
  show ?thesis
  proof (cases "burst_buffer (burst c) = []")
    case True
    then have i: "\<not> is_active_internal (burst c)" using ok by (simp add: is_active_internal_def burst_ok_def)
    show ?thesis
    proof (cases "pending_first_char (burst c)")
      case None
      with i have "flush_if_due (on_windows env) now (burst c) = (NoFlush, burst c)" by (simp add: flush_if_due_def Let_def)
      with True None show ?thesis by (simp add: handle_paste_burst_flush_def held_nil)
    next
      case (Some p)
      obtain ch t where p: "p = (ch, t)" by (cases p)
      then have "last_plain_char_time (burst c) = Some t" using ok Some by (auto simp: burst_ok_def)
      with timed have "is_some_and (last_plain_char_time (burst c)) (\<lambda>t. PASTE_BURST_CHAR_INTERVAL (on_windows env) < now - t)"
        by (simp add: is_some_and_def)
      with i Some p have "flush_if_due (on_windows env) now (burst c) = (Typed ch, (burst c)\<lparr>pending_first_char := None\<rparr>)"
        by (simp add: flush_if_due_def Let_def)
      with True shown_insert_str [of "c\<lparr>burst := (burst c)\<lparr>pending_first_char := None\<rparr>\<rparr>" "[ch]"] ta show ?thesis
        by (simp add: handle_paste_burst_flush_def held_nil)
    qed
  next
    case False
    then have i: "is_active_internal (burst c)" by (simp add: is_active_internal_def)
    obtain t where "last_plain_char_time (burst c) = Some t" using ok False by (auto simp: burst_ok_def)
    with timed have "is_some_and (last_plain_char_time (burst c)) (\<lambda>t. PASTE_BURST_ACTIVE_IDLE_TIMEOUT (on_windows env) < now - t)"
      by (simp add: is_some_and_def)
    with i have "flush_if_due (on_windows env) now (burst c)
        = (Paste (burst_buffer (burst c)), (burst c)\<lparr>burst_active := False, burst_buffer := []\<rparr>)"
      by (simp add: flush_if_due_def Let_def)
    moreover have "plain_typed (burst_buffer (burst c))"
      using held_part [OF assms(3,2)] by (auto simp: plain_typed_def held_chars_def)
    ultimately show ?thesis
      using small_paste [OF assms(1), of "burst_buffer (burst c)" "c\<lparr>burst := (burst c)\<lparr>burst_active := False, burst_buffer := []\<rparr>\<rparr>"] ta
      by (simp add: handle_paste_burst_flush_def)
  qed
qed

end
