(* ===== verification/Tui_Properties.thy ===== *)
theory Tui_Properties
  imports Stream_Commit_Facts Composer_Input
begin

section \<open>Properties of the terminal interface\<close>

text \<open>C27: Every queued line is committed, of the message and of the plan. As long as the periodic ticks run, with or
  without more than one stream and whatever gear the policy is in, each tick commits lines from the front of each queue
  in their order; after as many ticks as the longer queue has lines both queues are empty, and what was waiting has been
  committed exactly once and in order: the lines of the message as they are, the lines of the plan indented and in the
  style of the plan after a header and padding that come once. The last tick reports all streams idle, which stops
  the animation.\<close>

theorem ticks_commit_every_line:
  assumes "run_ticks look ts t = (outs, t')"
    and "length (stream_waiting t) \<le> length ts" and "length (plan_stream_waiting t) \<le> length ts"
  shows "message_lines (concat (map cells outs)) = stream_waiting t
    \<and> plan_block_lines (concat (map cells outs)) = plan_to_show look t
    \<and> stream_waiting t' = [] \<and> plan_stream_waiting t' = [] \<and> (outs \<noteq> [] \<longrightarrow> all_idle (last outs))"
proof -
  note d = ticks_drain [OF assms(1)]
  then have e: "stream_waiting t' = []" "plan_stream_waiting t' = []" using assms(2,3) by simp_all
  from e(2) have "plan_to_show look t' = []"
    by (cases "plan_stream t'") (simp_all add: plan_to_show_def plan_stream_waiting_def)
  with d e show ?thesis by simp
qed

definition some_line :: "ustr \<Rightarrow> unit line" where
  "some_line t = \<lparr>line_style = (), spans = [\<lparr>span_style = (), content = t\<rparr>]\<rparr>"

definition two_queued :: "unit tick_state" where
  "two_queued = \<lparr>chunking = policy_default,
     stream = Some (controller_new\<lparr>state := enqueue 0 [some_line (lit ''a''), some_line (lit ''b'')] state_new\<rparr>),
     plan_stream = Some (plan_controller_new\<lparr>plan_state := enqueue 0 [some_line (lit ''c''), some_line (lit ''d'')] state_new\<rparr>)\<rparr>"

definition unit_look :: "unit plan_look" where
  "unit_look = \<lparr>plan_header = some_line (lit ''Proposed Plan''), plain_style = (), plan_style = ()\<rparr>"

definition indented :: "ustr \<Rightarrow> unit line" where
  "indented t = \<lparr>line_style = (), spans = [\<lparr>span_style = (), content = lit ''  ''\<rparr>, \<lparr>span_style = (), content = t\<rparr>]\<rparr>"

theorem ticks_commit_every_line_witness:
  "message_lines (concat (map cells (fst (run_ticks unit_look [10, 20] two_queued)))) = [some_line (lit ''a''), some_line (lit ''b'')]
   \<and> plan_block_lines (concat (map cells (fst (run_ticks unit_look [10, 20] two_queued))))
     = [some_line (lit ''Proposed Plan''), some_line (lit '' ''), indented (lit '' ''), indented (lit ''c''), indented (lit ''d'')]
   \<and> stream_waiting (snd (run_ticks unit_look [10, 20] two_queued)) = []"
proof -
  have w: "stream_waiting two_queued = [some_line (lit ''a''), some_line (lit ''b'')]"
    "plan_stream_waiting two_queued = [some_line (lit ''c''), some_line (lit ''d'')]"
    by (simp_all add: stream_waiting_def plan_stream_waiting_def two_queued_def waiting_def plan_waiting_def
        enqueue_def state_new_def)
  have p: "plan_to_show unit_look two_queued
      = [some_line (lit ''Proposed Plan''), some_line (lit '' ''), indented (lit '' ''), indented (lit ''c''), indented (lit ''d'')]"
    by (simp add: plan_to_show_def plan_opening_def drawn_plan_line_def plan_indent_def space_line_def two_queued_def
        plan_waiting_def enqueue_def state_new_def plan_controller_new_def unit_look_def some_line_def indented_def)
  have "run_ticks unit_look [10, 20] two_queued
    = (fst (run_ticks unit_look [10, 20] two_queued), snd (run_ticks unit_look [10, 20] two_queued))" by simp
  from ticks_commit_every_line [OF this] w p show ?thesis by simp
qed

text \<open>The gears do not flap. From the start of the policy and for any snapshots and times:
  catch-up ends only with an empty queue, or after the queue was calm (not empty, but below both
  exit thresholds) at every decision for the whole exit hold; and between the end of a catch-up and
  the start of the next the re-entry hold passes, unless the backlog is severe.\<close>

lemma gears_are_held:
  assumes "policy_mode (policy_after ins) = CatchUp"
    and "\<forall>k\<le>length mid. policy_mode (policy_after (ins @ [(s, t)] @ take k mid)) = Smooth"
    and "policy_mode (policy_after (ins @ [(s, t)] @ mid @ [(s', now)])) = CatchUp"
  shows "(snap_lines s = 0 \<or> (\<exists>pre x since rest. ins = pre @ (x, since) # rest \<and> EXIT_HOLD \<le> t - since
      \<and> list_all calm ((x, since) # rest @ [(s, t)])))
    \<and> (REENTER_CATCH_UP_HOLD \<le> now - t \<or> is_severe_backlog s')"
proof
  have "policy_mode (policy_after (ins @ [(s, t)])) = Smooth" using assms(2) [rule_format, of 0] by simp
  from exit_after_hold [OF assms(1) this]
  show "snap_lines s = 0 \<or> (\<exists>pre x since rest. ins = pre @ (x, since) # rest \<and> EXIT_HOLD \<le> t - since
      \<and> list_all calm ((x, since) # rest @ [(s, t)]))" .
  show "REENTER_CATCH_UP_HOLD \<le> now - t \<or> is_severe_backlog s'" by (rule reenter_after_hold [OF assms])
qed

definition deep :: queue_snapshot where
  "deep = \<lparr>snap_lines = 9, snap_age = Some 0\<rparr>"

definition drained :: queue_snapshot where
  "drained = \<lparr>snap_lines = 0, snap_age = None\<rparr>"

text \<open>C28: Pacing never changes the message. However the deltas are cut and whatever the ticks drain
  between them, the lines of the cells of a finished message are those the collector hands out:
  after each delta with a newline the complete lines of the rendering that were not handed out yet,
  at the end the rest. With a renderer whose complete lines settle (they stay as they are when the
  source grows) that is the rendering of the whole text, each line once and in order.\<close>

theorem streamed_message_is_the_rendering:
  "message_lines (stream_message render now evs) = handed_out render (deltas_of evs) [] []
   \<and> (settles render \<longrightarrow>
      message_lines (stream_message render now evs) = render (final_source (concat (deltas_of evs))))"
  using stream_message_lines [of render now evs] handed_out_settled [OF _ settled_new, of render "deltas_of evs"] by simp

definition plain_render :: "ustr \<Rightarrow> unit line list" where
  "plain_render s = map some_line (butlast (split_on nl s))"

lemma split_on_at_separator: "split_on c (a @ c # b) = split_on c a @ split_on c b"
  by (induction a) (auto split: list.splits)

lemma plain_render_settles: "settles plain_render"
  unfolding settles_def
proof (intro allI impI)
  fix a b assume "ends_with [nl] (a @ b) \<and> ends_with [nl] a"
  then obtain a' where a: "a = a' @ [nl]" by (auto simp: ends_with_iff)
  have "plain_render a = map some_line (split_on nl a')" by (simp add: a plain_render_def split_on_at_separator)
  moreover have "plain_render (a @ b) = map some_line (split_on nl a') @ map some_line (butlast (split_on nl b))"
    by (simp add: a plain_render_def split_on_at_separator butlast_append)
  moreover have "complete_line_count (plain_render a) \<le> length (plain_render a)" by (rule complete_line_count_le)
  ultimately show "take (complete_line_count (plain_render a)) (plain_render (a @ b))
    = take (complete_line_count (plain_render a)) (plain_render a)" by simp
qed

theorem streamed_message_is_the_rendering_witness:
  "settles plain_render
   \<and> message_lines (stream_message plain_render 9 [Delta 1 (lit ''a'' @ [nl] @ lit ''b''), Drained Single, Delta 2 ([nl] @ lit ''c'')])
     = [some_line (lit ''a''), some_line (lit ''b''), some_line (lit ''c'')]"
proof -
  let ?evs = "[Delta 1 (lit ''a'' @ [nl] @ lit ''b''), Drained Single, Delta 2 ([nl] @ lit ''c'')]"
  have "message_lines (stream_message plain_render 9 ?evs) = plain_render (final_source (concat (deltas_of ?evs)))"
    using streamed_message_is_the_rendering [of plain_render 9 ?evs] plain_render_settles by blast
  moreover have "map (\<lambda>l. map content (spans l)) (plain_render (final_source (concat (deltas_of ?evs))))
      = [[lit ''a''], [lit ''b''], [lit ''c'']]" by code_simp
  moreover have "plain_render (final_source (concat (deltas_of ?evs))) = [some_line (lit ''a''), some_line (lit ''b''), some_line (lit ''c'')]"
    by code_simp
  ultimately show ?thesis using plain_render_settles by simp
qed

text \<open>C29: Typing is never lost or reordered by the detection of pastes. Whatever plain characters
  arrive at whatever times, with ticks between them (short enough not to become a placeholder, and
  without images), what is shown, followed by what is held back, is exactly what was typed; and a
  tick later than both timeouts after the last character shows all of it.\<close>

theorem typing_is_preserved:
  assumes "text_env env" and "plain_typed (typed_chars evs)"
  defines "c \<equiv> type_all env evs composer_new"
  shows "shown_chars c @ held_chars (burst c) = typed_chars evs
    \<and> (\<forall>now. is_some_and (last_plain_char_time (burst c)) (\<lambda>t. PASTE_BURST_CHAR_INTERVAL (on_windows env) < now - t
          \<and> PASTE_BURST_ACTIVE_IDLE_TIMEOUT (on_windows env) < now - t)
        \<longrightarrow> shown_chars (type_one env (Tick now) c) = typed_chars evs)"
proof -
  have c: "typing_state (typed_chars evs) c"
    using type_all_typing [OF assms(1), of "[]" evs composer_new] assms(2) typing_new by (simp add: c_def)
  have "shown_chars (type_one env (Tick now) c) = typed_chars evs"
    if "is_some_and (last_plain_char_time (burst c)) (\<lambda>t. PASTE_BURST_CHAR_INTERVAL (on_windows env) < now - t
          \<and> PASTE_BURST_ACTIVE_IDLE_TIMEOUT (on_windows env) < now - t)" for now
  proof -
    have "\<forall>t. last_plain_char_time (burst c) = Some t \<longrightarrow>
      PASTE_BURST_CHAR_INTERVAL (on_windows env) < now - t \<and> PASTE_BURST_ACTIVE_IDLE_TIMEOUT (on_windows env) < now - t"
      using that by (auto simp: is_some_and_def)
    from late_tick [OF assms(1,2) c this]
    have "held_chars (burst (type_one env (Tick now) c)) = []" by simp
    moreover have "typing_state (typed_chars evs) (type_one env (Tick now) c)"
      using tick_typing [OF assms(1,2) c, of now] by simp
    ultimately show ?thesis by (simp add: typing_state_def)
  qed
  with c show ?thesis by (simp add: typing_state_def)
qed

definition terminal :: composer_env where
  "terminal = \<lparr>on_windows = False, image_paste_enabled = False, attach_image = (\<lambda>_. None)\<rparr>"

definition pasted_hi :: "typing list" where
  "pasted_hi = [Key 104 0, Key 105 1000000, Key 33 2000000]"

theorem typing_is_preserved_witness:
  "shown_chars (type_one terminal (Tick 20000000) (type_all terminal pasted_hi composer_new)) = [104, 105, 33]
   \<and> burst_buffer (burst (type_all terminal pasted_hi composer_new)) = [104, 105, 33]"
proof -
  have p: "text_env terminal" "plain_typed (typed_chars pasted_hi)"
    by (simp_all add: text_env_def terminal_def plain_typed_def pasted_hi_def LARGE_PASTE_CHAR_THRESHOLD_def)
  have l: "last_plain_char_time (burst (type_all terminal pasted_hi composer_new)) = Some 2000000"
    "burst_buffer (burst (type_all terminal pasted_hi composer_new)) = [104, 105, 33]"
    by code_simp+
  have "PASTE_BURST_CHAR_INTERVAL (on_windows terminal) < 20000000 - 2000000"
    "PASTE_BURST_ACTIVE_IDLE_TIMEOUT (on_windows terminal) < 20000000 - 2000000" by code_simp+
  with typing_is_preserved [OF p] l have
    "shown_chars (type_one terminal (Tick 20000000) (type_all terminal pasted_hi composer_new)) = typed_chars pasted_hi"
    by (simp add: is_some_and_def)
  with l(2) show ?thesis by (simp add: pasted_hi_def)
qed

text \<open>Enter breaks what typing preserves. When Enter arrives while a first character is still held
  back (a paste whose first line is one character), the newline is buffered before the character:
  a tick after the timeouts pastes the newline alone and the character is gone; and when the paste
  goes on in time, its text starts with the newline and the character comes after it.\<close>

lemma enter_overtakes_the_held_character:
  assumes "text_env env" and "a < 128" and "b < 128" and "cr \<notin> {a, b}"
    and "d \<le> d'" and "d' \<le> PASTE_BURST_CHAR_INTERVAL (on_windows env)"
    and "PASTE_BURST_CHAR_INTERVAL (on_windows env) + PASTE_BURST_ACTIVE_IDLE_TIMEOUT (on_windows env) + d' < late"
  shows "\<exists>c. handle_enter (now + d) (type_one env (Key a now) composer_new) = Some c
    \<and> composer_text (type_one env (Tick (now + late)) c) = [nl]
    \<and> held_chars (burst (type_one env (Tick (now + late)) c)) = []
    \<and> composer_text (type_one env (Tick (now + late)) (type_one env (Key b (now + d')) c)) = [nl, a, b]"
proof -
  let ?w = "on_windows env"
  define b1 where "b1 = burst_default\<lparr>consecutive_plain_char_burst := 1, last_plain_char_time := Some now,
    pending_first_char := Some (a, now)\<rparr>"
  have "type_one env (Key a now) composer_new = composer_new\<lparr>burst := b1\<rparr>"
    using assms(2) by (simp add: handle_plain_char_def handle_paste_burst_flush_def flush_if_due_def is_active_internal_def
        on_plain_char_def note_plain_char_def composer_new_def burst_default_def b1_def is_some_and_def PASTE_BURST_MIN_CHARS_def)
  moreover define b2 where "b2 = extend_window (now + d) (b1\<lparr>burst_buffer := [nl]\<rparr>)"
  define c where "c = composer_new\<lparr>burst := b2\<rparr>"
  have "handle_enter (now + d) (composer_new\<lparr>burst := b1\<rparr>) = Some c"
    by (simp add: handle_enter_def composer_new_def append_newline_if_active_def is_active_def b1_def b2_def c_def burst_default_def)
  moreover have b2: "burst_active b2 = False" "burst_buffer b2 = [nl]" "pending_first_char b2 = Some (a, now)"
    "last_plain_char_time b2 = Some now" by (simp_all add: b2_def b1_def burst_default_def extend_window_def)
  have small: "plain_typed [nl]" "plain_typed [nl, a, b]" using assms(4) by (simp_all add: plain_typed_def LARGE_PASTE_CHAR_THRESHOLD_def)
  have paste: "composer_text (handle_paste env t (composer_new\<lparr>burst := x\<rparr>)) = t
      \<and> held_chars (burst (handle_paste env t (composer_new\<lparr>burst := x\<rparr>))) = []" if "plain_typed t" "hd t = nl" for t x
  proof -
    have "handle_paste env t (composer_new\<lparr>burst := x\<rparr>)
      = composer_new\<lparr>text_before := t, burst := clear_after_explicit_paste x\<rparr>"
      using assms(1) that by (cases t) (auto simp: handle_paste_def Let_def text_env_def plain_typed_def normalize_newlines_id
          insert_str_def textarea_insert_def sync_bash_mode_from_text_def composer_text_def composer_new_def)
    then show ?thesis by (simp add: composer_text_def composer_new_def)
  qed
  have "PASTE_BURST_ACTIVE_IDLE_TIMEOUT ?w < late" using assms(7) by linarith
  with b2 have "flush_if_due ?w (now + late) (burst c) = (Paste [nl], b2\<lparr>burst_active := False, burst_buffer := []\<rparr>)"
    by (simp add: flush_if_due_def is_active_internal_def is_some_and_def c_def)
  then have "type_one env (Tick (now + late)) c = handle_paste env [nl] (composer_new\<lparr>burst := b2\<lparr>burst_active := False, burst_buffer := []\<rparr>\<rparr>)"
    by (simp add: handle_paste_burst_flush_def c_def)
  with paste [OF small(1)] have one: "composer_text (type_one env (Tick (now + late)) c) = [nl]"
    "held_chars (burst (type_one env (Tick (now + late)) c)) = []" by simp_all
  have "PASTE_BURST_CHAR_INTERVAL ?w \<le> PASTE_BURST_ACTIVE_IDLE_TIMEOUT ?w"
    by (simp add: PASTE_BURST_CHAR_INTERVAL_def PASTE_BURST_ACTIVE_IDLE_TIMEOUT_def from_millis_def)
  then have "flush_if_due ?w (now + d') (burst c) = (NoFlush, b2)"
    using b2 assms(6) by (simp add: flush_if_due_def is_active_internal_def is_some_and_def c_def)
  then have f: "snd (handle_paste_burst_flush env (now + d') c) = c"
    by (simp add: handle_paste_burst_flush_def c_def)
  define b3 where "b3 = append_char_to_buffer b (now + d') (extend_window (now + d') ((note_plain_char ?w (now + d') b2)\<lparr>burst_active := True,
    pending_first_char := None, burst_buffer := [nl, a]\<rparr>))"
  have "type_one env (Key b (now + d')) c = composer_new\<lparr>burst := b3\<rparr>"
    using f assms(3,6) b2 by (simp add: handle_plain_char_def on_plain_char_def note_plain_char_simps b3_def c_def composer_new_def)
  moreover have b3: "burst_active b3" "burst_buffer b3 = [nl, a, b]" "last_plain_char_time b3 = Some (now + d')"
    by (simp_all add: b3_def append_char_to_buffer_def extend_window_def note_plain_char_simps)
  have "PASTE_BURST_ACTIVE_IDLE_TIMEOUT ?w < now + late - (now + d')" using assms(7) by linarith
  with b3 have "flush_if_due ?w (now + late) b3 = (Paste [nl, a, b], b3\<lparr>burst_active := False, burst_buffer := []\<rparr>)"
    by (simp add: flush_if_due_def is_active_internal_def is_some_and_def)
  then have "type_one env (Tick (now + late)) (composer_new\<lparr>burst := b3\<rparr>)
      = handle_paste env [nl, a, b] (composer_new\<lparr>burst := b3\<lparr>burst_active := False, burst_buffer := []\<rparr>\<rparr>)"
    by (simp add: handle_paste_burst_flush_def)
  moreover note paste [OF small(2)] one
  ultimately show ?thesis by (intro exI [of _ c]) simp
qed

end
