(* ===== verification/Chat_Tools.thy ===== *)
theory Chat_Tools
  imports Response_Items
begin

section \<open>Tools of the chat wire (chat-wire-compat/src/request.rs)\<close>

text \<open>
  The tools of a Responses request as functions of a chat completions request: the name each is
  sent under, what a call of that name becomes again (\<open>tool_kinds\<close>), and the chat name of a
  function that is called in the history (\<open>original_function_names\<close>). JSON values are
  \<open>serde_json::Value\<close>, numbers by their text, objects by their entries in the order they are
  built. Printing and parsing JSON and the derived schemas are parameters.
\<close>

subsection \<open>JSON values\<close>

datatype json =
    JNull
  | JBool bool
  | JNumber ustr
  | JString ustr
  | JArray "json list"
  | JObject "(ustr \<times> json) list"

fun json_get :: "ustr \<Rightarrow> json \<Rightarrow> json option" where
  "json_get key (JObject entries) = map_of entries key"
| "json_get key _ = None"

fun as_str :: "json \<Rightarrow> ustr option" where
  "as_str (JString s) = Some s"
| "as_str _ = None"

fun as_array :: "json \<Rightarrow> json list option" where
  "as_array (JArray xs) = Some xs"
| "as_array _ = None"

definition str_at :: "ustr \<Rightarrow> json \<Rightarrow> ustr option" where
  "str_at key v = Option.bind (json_get key v) as_str"

record chat_libs =
  json_text :: "json \<Rightarrow> ustr"
  json_parse :: "ustr \<Rightarrow> json option"
  search_schema :: json
  shell_schema :: json

subsection \<open>Types\<close>

datatype api_error =
    TransportError ustr
  | ApiStatus nat ustr
  | StreamError ustr
  | ContextWindowExceeded
  | QuotaExceeded
  | UsageNotIncluded
  | Retryable ustr "nat option"
  | RateLimited ustr
  | InvalidRequest ustr
  | CyberPolicy ustr
  | ServerOverloaded

datatype tool_output_kind = FunctionTool | NamespacedFunction ustr ustr | CustomTool

type_synonym tool_kinds = "ustr \<rightharpoonup> tool_output_kind"
type_synonym original_names = "ustr option \<times> ustr \<rightharpoonup> ustr"

record chat_function =
  fn_name :: ustr
  fn_description :: ustr
  fn_parameters :: json

record chat_tool =
  tool_type :: ustr
  tool_function :: chat_function

subsection \<open>Names\<close>

abbreviation c_us :: nat where "c_us \<equiv> 95"

definition chat_name_char :: "nat \<Rightarrow> bool" where
  "chat_name_char c \<longleftrightarrow> 65 \<le> c \<and> c \<le> 90 \<or> 97 \<le> c \<and> c \<le> 122 \<or> 48 \<le> c \<and> c \<le> 57 \<or> c = c_us \<or> c = c_minus"

definition sanitize_chat_tool_name :: "ustr \<Rightarrow> ustr" where
  "sanitize_chat_tool_name name =
    (let sanitized = map (\<lambda>c. if chat_name_char c then c else c_us) name
     in if sanitized = [] then lit ''tool'' else sanitized)"

definition namespaced_chat_tool_name :: "ustr \<Rightarrow> ustr \<Rightarrow> ustr" where
  "namespaced_chat_tool_name namespace name =
    (let raw_name = (if ends_with [c_us] namespace \<or> starts_with [c_us] name then namespace @ name
                     else namespace @ [c_us] @ name)
     in sanitize_chat_tool_name raw_name)"

definition CHAT_TOOL_NAME_MAX_LEN :: nat where
  "CHAT_TOOL_NAME_MAX_LEN = 64"

definition truncate_chat_tool_name :: "ustr \<Rightarrow> nat \<Rightarrow> ustr" where
  "truncate_chat_tool_name name max_len = take max_len name"

definition suffixed_name :: "ustr \<Rightarrow> nat \<Rightarrow> ustr" where
  "suffixed_name base_name suffix_number =
    (let suffix = c_us # show_nat suffix_number; prefix_len = CHAT_TOOL_NAME_MAX_LEN - str_len suffix
     in truncate_chat_tool_name base_name prefix_len @ suffix)"

lemma show_nat_ne [simp]: "show_nat n \<noteq> []" "[] \<noteq> show_nat n"
  by (subst show_nat.simps; simp)+

lemma show_nat_digits: "\<forall>c\<in>set (show_nat n). 48 \<le> c \<and> c \<le> 57"
proof (induction n rule: show_nat.induct)
  case (1 n)
  then show ?case by (subst show_nat.simps) auto
qed

lemma show_nat_no_us: "c_us \<notin> set (show_nat n)"
  using show_nat_digits [of n] by force

lemma show_nat_inj: "show_nat m = show_nat n \<Longrightarrow> m = n"
proof (induction m arbitrary: n rule: show_nat.induct)
  case (1 m)
  note eqs = show_nat.simps [of m] show_nat.simps [of n]
  consider "m < 10" "n < 10" | "m < 10" "\<not> n < 10" | "\<not> m < 10" "n < 10" | "\<not> m < 10" "\<not> n < 10" by blast
  then show ?case
  proof cases
    case 1
    with "1.prems" eqs show ?thesis by simp
  next
    case 2
    then have "show_nat m = [48 + m]" "show_nat n = show_nat (n div 10) @ [48 + n mod 10]" using eqs by argo+
    with "1.prems" show ?thesis by simp
  next
    case 3
    then have "show_nat n = [48 + n]" "show_nat m = show_nat (m div 10) @ [48 + m mod 10]" using eqs by argo+
    with "1.prems" show ?thesis by simp
  next
    case 4
    then have "show_nat n = show_nat (n div 10) @ [48 + n mod 10]" "show_nat m = show_nat (m div 10) @ [48 + m mod 10]"
      using eqs by argo+
    with "1.prems" have e: "show_nat (m div 10) = show_nat (n div 10)" "m mod 10 = n mod 10" by simp_all
    from "1.IH" [OF 4(1) e(1)] e(2) show ?thesis by (metis div_mult_mod_eq)
  qed
qed

text \<open>A suffixed name ends in its number, so different numbers give different names.\<close>

lemma suffixed_name_split:
  "rsplit_once c_us (suffixed_name b n)
    = Some (truncate_chat_tool_name b (CHAT_TOOL_NAME_MAX_LEN - str_len (c_us # show_nat n)), show_nat n)"
  unfolding suffixed_name_def Let_def rsplit_once_Some_iff using show_nat_no_us by simp

lemma suffixed_name_inj: "suffixed_name b m = suffixed_name b n \<longleftrightarrow> m = n"
  using suffixed_name_split [of b m] suffixed_name_split [of b n] show_nat_inj [of m n] by auto

text \<open>
  The search for a free suffix. The loop has no bound; it ends because the reserved names are
  finitely many.
\<close>

function free_suffix :: "ustr list \<Rightarrow> ustr \<Rightarrow> nat \<Rightarrow> ustr" where
  "free_suffix reserved base_name suffix_number =
    (if suffixed_name base_name suffix_number \<in> set reserved then free_suffix reserved base_name (suffix_number + 1)
     else suffixed_name base_name suffix_number)"
  by pat_completeness auto
termination
proof (relation "measure (\<lambda>(reserved, b, n). card {k. n \<le> k \<and> suffixed_name b k \<in> set reserved})", goal_cases)
  case (2 reserved b n)
  let ?S = "\<lambda>n. {k. n \<le> k \<and> suffixed_name b k \<in> set reserved}"
  have "inj_on (suffixed_name b) (?S n)" by (simp add: inj_on_def suffixed_name_inj)
  moreover have "finite (suffixed_name b ` ?S n)" by (rule finite_subset [of _ "set reserved"]) auto
  ultimately have "finite (?S n)" by (rule finite_imageD [rotated])
  moreover have "n \<in> ?S n" "n \<notin> ?S (n + 1)" "?S (n + 1) \<subseteq> ?S n" using 2 by auto
  then have "?S (n + 1) \<subset> ?S n" by blast
  ultimately show ?case by (simp add: psubset_card_mono)
qed simp

declare free_suffix.simps [simp del]

definition unique_chat_tool_name :: "ustr \<Rightarrow> ustr list \<Rightarrow> ustr \<times> ustr list" where
  "unique_chat_tool_name base_name reserved =
    (let base_name = truncate_chat_tool_name base_name CHAT_TOOL_NAME_MAX_LEN in
     if base_name \<notin> set reserved then (base_name, base_name # reserved)
     else (let name = free_suffix reserved base_name 2 in (name, name # reserved)))"

subsection \<open>Conversion\<close>

definition invalid_request :: "ustr \<Rightarrow> api_error + 'a" where
  "invalid_request message = Inl (InvalidRequest message)"

definition string_field :: "chat_libs \<Rightarrow> json \<Rightarrow> ustr \<Rightarrow> api_error + ustr" where
  "string_field libs v field =
    (case str_at field v of
       Some s \<Rightarrow> Inr s
     | None \<Rightarrow> invalid_request (lit ''tool is missing a string `'' @ field @ lit ''` field: '' @ json_text libs v))"

definition empty_object_schema :: json where
  "empty_object_schema = JObject
    [(lit ''type'', JString (lit ''object'')), (lit ''properties'', JObject []), (lit ''additionalProperties'', JBool False)]"

text \<open>An object schema with one string property, which is required.\<close>

definition one_string_schema :: "ustr \<Rightarrow> json" where
  "one_string_schema field = JObject
    [(lit ''type'', JString (lit ''object'')),
     (lit ''properties'', JObject [(field, JObject [(lit ''type'', JString (lit ''string''))])]),
     (lit ''required'', JArray [JString field]), (lit ''additionalProperties'', JBool False)]"

definition reserved_flat_name :: "json \<Rightarrow> ustr option" where
  "reserved_flat_name tool =
    (case str_at (lit ''type'') tool of
       None \<Rightarrow> None
     | Some t \<Rightarrow>
         if t = lit ''function'' \<or> t = lit ''custom'' then str_at (lit ''name'') tool
         else if t \<in> {lit ''tool_search'', lit ''local_shell'', lit ''image_generation'', lit ''web_search''} then Some t
         else None)"

definition reserve_flat_chat_tool_names :: "json list \<Rightarrow> ustr list" where
  "reserve_flat_chat_tool_names tools = List.map_filter reserved_flat_name tools"

record tool_tables =
  converted :: "chat_tool list"
  kinds :: tool_kinds
  original_function_names :: original_names
  reserved_chat_names :: "ustr list"

definition function_tool :: "ustr \<Rightarrow> ustr \<Rightarrow> json \<Rightarrow> chat_tool" where
  "function_tool name description parameters =
    \<lparr>tool_type = lit ''function'',
     tool_function = \<lparr>fn_name = name, fn_description = description, fn_parameters = parameters\<rparr>\<rparr>"

definition add_flat :: "chat_tool \<Rightarrow> tool_output_kind \<Rightarrow> tool_tables \<Rightarrow> tool_tables" where
  "add_flat tool kind t =
    t\<lparr>converted := converted t @ [tool], kinds := (kinds t)(fn_name (tool_function tool) \<mapsto> kind)\<rparr>"

text \<open>\<open>string_field(tool, f).unwrap_or_else(..)\<close>, and \<open>tool.get(f).cloned().unwrap_or_else(..)\<close>.\<close>

definition field_or :: "ustr \<Rightarrow> json \<Rightarrow> ustr \<Rightarrow> ustr" where
  "field_or field tool fallback = (case str_at field tool of Some d \<Rightarrow> d | None \<Rightarrow> fallback)"

definition parameters_or :: "json \<Rightarrow> json \<Rightarrow> json" where
  "parameters_or tool fallback = (case json_get (lit ''parameters'') tool of Some p \<Rightarrow> p | None \<Rightarrow> fallback)"

definition convert_namespace_tool :: "chat_libs \<Rightarrow> ustr \<Rightarrow> json \<Rightarrow> tool_tables \<Rightarrow> api_error + tool_tables" where
  "convert_namespace_tool libs namespace tool t =
    (case str_at (lit ''type'') tool of
       None \<Rightarrow> invalid_request (lit ''namespace tool is missing a type field: '' @ json_text libs tool)
     | Some ty \<Rightarrow>
         if ty = lit ''function'' then
           (case string_field libs tool (lit ''name'') of
              Inl e \<Rightarrow> Inl e
            | Inr name \<Rightarrow>
                (case unique_chat_tool_name (namespaced_chat_tool_name namespace name) (reserved_chat_names t) of
                   (chat_name, reserved) \<Rightarrow>
                     Inr (t\<lparr>reserved_chat_names := reserved,
                            converted := converted t @ [function_tool chat_name (field_or (lit ''description'') tool name)
                              (parameters_or tool empty_object_schema)],
                            kinds := (kinds t)(chat_name \<mapsto> NamespacedFunction name namespace),
                            original_function_names := (original_function_names t)((Some namespace, name) \<mapsto> chat_name)\<rparr>)))
         else invalid_request (lit ''unsupported chat wire namespace tool type: '' @ ty))"

fun convert_namespace_tools :: "chat_libs \<Rightarrow> ustr \<Rightarrow> json list \<Rightarrow> tool_tables \<Rightarrow> api_error + tool_tables" where
  "convert_namespace_tools libs namespace [] t = Inr t"
| "convert_namespace_tools libs namespace (tool # tools) t =
    (case convert_namespace_tool libs namespace tool t of
       Inl e \<Rightarrow> Inl e
     | Inr t \<Rightarrow> convert_namespace_tools libs namespace tools t)"

definition convert_tool :: "chat_libs \<Rightarrow> json \<Rightarrow> tool_tables \<Rightarrow> api_error + tool_tables" where
  "convert_tool libs tool t =
    (case str_at (lit ''type'') tool of
       None \<Rightarrow> invalid_request (lit ''tool is missing a type field: '' @ json_text libs tool)
     | Some ty \<Rightarrow>
         if ty = lit ''function'' then
           (case string_field libs tool (lit ''name'') of
              Inl e \<Rightarrow> Inl e
            | Inr name \<Rightarrow>
                (let t = add_flat (function_tool name (field_or (lit ''description'') tool name)
                   (parameters_or tool empty_object_schema)) FunctionTool t
                 in Inr (t\<lparr>original_function_names := (original_function_names t)((None, name) \<mapsto> name)\<rparr>)))
         else if ty = lit ''tool_search'' then
           Inr (add_flat (function_tool (lit ''tool_search'')
             (field_or (lit ''description'') tool (lit ''Search available tools'')) (parameters_or tool (search_schema libs))) FunctionTool t)
         else if ty = lit ''local_shell'' then
           Inr (add_flat (function_tool (lit ''local_shell'')
             (lit ''Run a shell command in the local environment'') (shell_schema libs)) FunctionTool t)
         else if ty = lit ''custom'' then
           (case string_field libs tool (lit ''name'') of
              Inl e \<Rightarrow> Inl e
            | Inr name \<Rightarrow>
                (case string_field libs tool (lit ''description'') of
                   Inl e \<Rightarrow> Inl e
                 | Inr description \<Rightarrow>
                     Inr (add_flat (function_tool name description (one_string_schema (lit ''input''))) CustomTool t)))
         else if ty = lit ''namespace'' then
           (case string_field libs tool (lit ''name'') of
              Inl e \<Rightarrow> Inl e
            | Inr namespace \<Rightarrow>
                (case Option.bind (json_get (lit ''tools'') tool) as_array of
                   None \<Rightarrow> invalid_request (lit ''namespace tool is missing a tools array: '' @ json_text libs tool)
                 | Some tools \<Rightarrow> convert_namespace_tools libs namespace tools t))
         else if ty = lit ''image_generation'' then
           Inr (add_flat (function_tool (lit ''image_generation'')
             (lit ''Generate an image from a text prompt'') (one_string_schema (lit ''prompt''))) FunctionTool t)
         else if ty = lit ''web_search'' then
           Inr (add_flat (function_tool (lit ''web_search'')
             (lit ''Search the web for up-to-date information'') (one_string_schema (lit ''query''))) FunctionTool t)
         else invalid_request (lit ''unsupported chat wire tool type: '' @ ty))"

fun convert_tool_list :: "chat_libs \<Rightarrow> json list \<Rightarrow> tool_tables \<Rightarrow> api_error + tool_tables" where
  "convert_tool_list libs [] t = Inr t"
| "convert_tool_list libs (tool # tools) t =
    (case convert_tool libs tool t of Inl e \<Rightarrow> Inl e | Inr t \<Rightarrow> convert_tool_list libs tools t)"

definition tables_new :: "json list \<Rightarrow> tool_tables" where
  "tables_new tools = \<lparr>converted = [], kinds = (\<lambda>_. None), original_function_names = (\<lambda>_. None),
     reserved_chat_names = reserve_flat_chat_tool_names tools\<rparr>"

definition convert_tools :: "chat_libs \<Rightarrow> json list \<Rightarrow> api_error + chat_tool list option \<times> tool_kinds \<times> original_names" where
  "convert_tools libs tools =
    (case convert_tool_list libs tools (tables_new tools) of
       Inl e \<Rightarrow> Inl e
     | Inr t \<Rightarrow> Inr (if converted t \<noteq> [] then Some (converted t) else None, kinds t, original_function_names t))"

definition chat_function_call_name :: "ustr option \<Rightarrow> ustr \<Rightarrow> original_names \<Rightarrow> ustr" where
  "chat_function_call_name namespace name names =
    (case names (namespace, name) of
       Some chat_name \<Rightarrow> chat_name
     | None \<Rightarrow> (case namespace of Some namespace \<Rightarrow> namespaced_chat_tool_name namespace name | None \<Rightarrow> name))"

subsection \<open>Names are unique and readable\<close>

lemma free_suffix_spec:
  "\<exists>k\<ge>n. free_suffix reserved b n = suffixed_name b k \<and> suffixed_name b k \<notin> set reserved
    \<and> (\<forall>j. n \<le> j \<and> j < k \<longrightarrow> suffixed_name b j \<in> set reserved)"
proof (induction reserved b n rule: free_suffix.induct)
  case (1 reserved b n)
  note eq = free_suffix.simps [of reserved b n]
  show ?case
  proof (cases "suffixed_name b n \<in> set reserved")
    case False
    then have "free_suffix reserved b n = suffixed_name b n" using eq by simp
    with False show ?thesis by auto
  next
    case True
    then have e: "free_suffix reserved b n = free_suffix reserved b (n + 1)" using eq by simp
    from 1 [OF True] obtain k where k: "n + 1 \<le> k" "free_suffix reserved b (n + 1) = suffixed_name b k"
      "suffixed_name b k \<notin> set reserved" "\<forall>j. n + 1 \<le> j \<and> j < k \<longrightarrow> suffixed_name b j \<in> set reserved" by blast
    have "suffixed_name b j \<in> set reserved" if "n \<le> j" "j < k" for j
      using that True k(4) by (cases "j = n") auto
    with k e show ?thesis by (intro exI [of _ k]) auto
  qed
qed

lemma free_suffix_number:
  "\<exists>k. free_suffix reserved b n = suffixed_name b k \<and> suffixed_name b k \<notin> set reserved \<and> k \<le> n + length reserved"
proof -
  obtain k where k: "n \<le> k" "free_suffix reserved b n = suffixed_name b k" "suffixed_name b k \<notin> set reserved"
    "\<forall>j. n \<le> j \<and> j < k \<longrightarrow> suffixed_name b j \<in> set reserved" using free_suffix_spec [of n reserved b] by blast
  have "card (suffixed_name b ` {n..<k}) = k - n" by (subst card_image) (auto simp: inj_on_def suffixed_name_inj)
  moreover have "suffixed_name b ` {n..<k} \<subseteq> set reserved" using k(4) by auto
  then have "card (suffixed_name b ` {n..<k}) \<le> card (set reserved)" by (rule card_mono [rotated]) simp
  ultimately have "k - n \<le> length reserved" using card_length [of reserved] by linarith
  with k show ?thesis by (intro exI [of _ k]) simp
qed

definition valid_chat_name :: "ustr \<Rightarrow> bool" where
  "valid_chat_name c \<longleftrightarrow> c \<noteq> [] \<and> length c \<le> CHAT_TOOL_NAME_MAX_LEN \<and> list_all chat_name_char c"

lemma sanitized: "sanitize_chat_tool_name n \<noteq> [] \<and> list_all chat_name_char (sanitize_chat_tool_name n)"
  by (auto simp: sanitize_chat_tool_name_def Let_def list_all_iff chat_name_char_def lit_def)

lemma suffixed_valid:
  assumes "list_all chat_name_char b" and "n < 10 ^ 20"
  shows "valid_chat_name (suffixed_name b n)"
proof -
  have l: "length (show_nat n) \<le> 20" using assms(2) by (rule length_show_nat) simp
  have d: "list_all chat_name_char (show_nat n)"
    using show_nat_digits [of n] by (auto simp: list_all_iff chat_name_char_def)
  have t: "list_all chat_name_char (take k b)" for k using assms(1) by (auto simp: list_all_iff dest: in_set_takeD)
  have "length (suffixed_name b n) \<le> (64 - (1 + length (show_nat n))) + (1 + length (show_nat n))"
    by (simp add: suffixed_name_def Let_def truncate_chat_tool_name_def CHAT_TOOL_NAME_MAX_LEN_def len_utf8_def)
  also have "\<dots> = 64" using l by simp
  finally have "length (suffixed_name b n) \<le> 64" .
  with d t show ?thesis
    by (simp add: valid_chat_name_def CHAT_TOOL_NAME_MAX_LEN_def suffixed_name_def Let_def truncate_chat_tool_name_def
        chat_name_char_def [of c_us])
qed

lemma unique_name_ok:
  assumes "unique_chat_tool_name (namespaced_chat_tool_name ns n) reserved = (c, r)"
  shows "c \<notin> set reserved \<and> r = c # reserved \<and> (length reserved \<le> 2 * USIZE_MAX \<longrightarrow> valid_chat_name c)"
proof -
  define b where "b = truncate_chat_tool_name (namespaced_chat_tool_name ns n) CHAT_TOOL_NAME_MAX_LEN"
  have b: "b \<noteq> []" "length b \<le> 64" "list_all chat_name_char b"
    using sanitized by (auto simp: b_def truncate_chat_tool_name_def CHAT_TOOL_NAME_MAX_LEN_def list_all_iff
        namespaced_chat_tool_name_def Let_def dest: in_set_takeD)
  show ?thesis
  proof (cases "b \<in> set reserved")
    case False
    then have "(b, b # reserved) = (c, r)"
      using assms by (simp only: unique_chat_tool_name_def b_def [symmetric] Let_def if_True not_False_eq_True)
    then have "c = b" "r = b # reserved" by blast+
    with False b show ?thesis unfolding \<open>c = b\<close> \<open>r = b # reserved\<close> by (simp add: valid_chat_name_def CHAT_TOOL_NAME_MAX_LEN_def)
  next
    case True
    then have "(free_suffix reserved b 2, free_suffix reserved b 2 # reserved) = (c, r)"
      using assms by (simp only: unique_chat_tool_name_def b_def [symmetric] Let_def if_False not_True_eq_False)
    then have c: "c = free_suffix reserved b 2" "r = c # reserved" by blast+
    obtain k where k: "free_suffix reserved b 2 = suffixed_name b k" "suffixed_name b k \<notin> set reserved"
      "k \<le> 2 + length reserved" using free_suffix_number [of reserved b 2] by blast
    have "k < 10 ^ 20" if "length reserved \<le> 2 * USIZE_MAX"
      using k(3) that by (simp add: USIZE_MAX_def)
    with k c b(3) suffixed_valid show ?thesis by simp
  qed
qed

definition is_namespaced :: "tool_kinds \<Rightarrow> ustr \<Rightarrow> bool" where
  "is_namespaced ks c \<longleftrightarrow> (case ks c of Some (NamespacedFunction _ _) \<Rightarrow> True | _ \<Rightarrow> False)"

definition chat_names :: "chat_tool list \<Rightarrow> ustr list" where
  "chat_names tools = map (fn_name \<circ> tool_function) tools"

text \<open>What holds after every tool, with the flat names that were reserved before the first.\<close>

definition tables_ok :: "ustr list \<Rightarrow> tool_tables \<Rightarrow> bool" where
  "tables_ok flat t \<longleftrightarrow>
     set flat \<subseteq> set (reserved_chat_names t) \<and> dom (kinds t) \<subseteq> set (reserved_chat_names t)
   \<and> dom (kinds t) = set (chat_names (converted t))
   \<and> length (reserved_chat_names t) \<le> length flat + length (converted t)
   \<and> (\<forall>ns n c. original_function_names t (Some ns, n) = Some c \<longrightarrow> kinds t c = Some (NamespacedFunction n ns))
   \<and> (\<forall>n c. original_function_names t (None, n) = Some c \<longrightarrow> c = n)
   \<and> (\<forall>c. is_namespaced (kinds t) c \<longrightarrow> c \<notin> set flat
        \<and> (length (reserved_chat_names t) \<le> 2 * USIZE_MAX \<longrightarrow> valid_chat_name c))
   \<and> distinct (filter (is_namespaced (kinds t)) (chat_names (converted t)))"

lemma tables_ok_new: "tables_ok (reserve_flat_chat_tool_names tools) (tables_new tools)"
  by (simp add: tables_ok_def tables_new_def is_namespaced_def chat_names_def)

lemma tables_ok_flat:
  assumes "tables_ok flat t" and "fn_name (tool_function tool) \<in> set flat" and "kind \<in> {FunctionTool, CustomTool}"
  shows "tables_ok flat (add_flat tool kind t)"
proof -
  let ?n = "fn_name (tool_function tool)"
  note ok = assms(1) [unfolded tables_ok_def]
  have n: "\<not> is_namespaced (kinds t) ?n" using ok assms(2) by blast
  have i: "is_namespaced ((kinds t)(?n \<mapsto> kind)) = is_namespaced (kinds t)"
    using n assms(3) by (auto simp: is_namespaced_def fun_eq_iff split: option.splits)
  have k: "((kinds t)(?n \<mapsto> kind)) c = Some (NamespacedFunction x y)"
    if "kinds t c = Some (NamespacedFunction x y)" for c x y
    using that n by (auto simp: is_namespaced_def)
  show ?thesis
    unfolding tables_ok_def add_flat_def using ok assms(2) n k
    by (simp add: i chat_names_def) blast
qed

lemma tables_ok_namespace_tool:
  assumes "tables_ok flat t" and "convert_namespace_tool libs ns tool t = Inr t'"
  shows "tables_ok flat t'"
proof -
  from assms(2) obtain n c r d p where
    u: "unique_chat_tool_name (namespaced_chat_tool_name ns n) (reserved_chat_names t) = (c, r)"
    and t': "t' = t\<lparr>reserved_chat_names := r, converted := converted t @ [function_tool c d p],
      kinds := (kinds t)(c \<mapsto> NamespacedFunction n ns),
      original_function_names := (original_function_names t)((Some ns, n) \<mapsto> c)\<rparr>"
    by (auto simp: convert_namespace_tool_def invalid_request_def split: option.splits if_splits sum.splits prod.splits)
  have c: "c \<notin> set (reserved_chat_names t)" and r: "r = c # reserved_chat_names t"
    and v: "length (reserved_chat_names t) \<le> 2 * USIZE_MAX \<longrightarrow> valid_chat_name c"
    using unique_name_ok [OF u] by auto
  note ok = assms(1) [unfolded tables_ok_def]
  have i: "is_namespaced ((kinds t)(c \<mapsto> NamespacedFunction n ns)) x \<longleftrightarrow> x = c \<or> is_namespaced (kinds t) x" for x
    by (simp add: is_namespaced_def)
  have new: "c \<notin> set (chat_names (converted t))" "kinds t c = None" "c \<notin> set flat" using ok c by auto
  have f: "filter (is_namespaced ((kinds t)(c \<mapsto> NamespacedFunction n ns))) (chat_names (converted t))
      = filter (is_namespaced (kinds t)) (chat_names (converted t))"
    by (rule filter_cong) (use new i in auto)
  have names: "chat_names (converted t @ [function_tool c d p]) = chat_names (converted t) @ [c]"
    by (simp add: chat_names_def function_tool_def)
  have o: "\<forall>x y z. ((original_function_names t)((Some ns, n) \<mapsto> c)) (Some x, y) = Some z
      \<longrightarrow> ((kinds t)(c \<mapsto> NamespacedFunction n ns)) z = Some (NamespacedFunction y x)"
    using ok new(2) by (auto split: if_splits)
  show ?thesis
    unfolding tables_ok_def t' using ok new v i f o by (auto simp: r names)
qed

lemma tables_ok_namespace_tools:
  "\<lbrakk>tables_ok flat t; convert_namespace_tools libs ns tools t = Inr t'\<rbrakk> \<Longrightarrow> tables_ok flat t'"
proof (induction tools arbitrary: t)
  case (Cons tool tools)
  from Cons.prems(2) obtain t1 where "convert_namespace_tool libs ns tool t = Inr t1"
    "convert_namespace_tools libs ns tools t1 = Inr t'" by (auto split: sum.splits)
  with Cons.IH tables_ok_namespace_tool [OF Cons.prems(1)] show ?case by blast
qed simp

lemma convert_flat_tool:
  assumes "convert_tool libs tool t = Inr t'" and "str_at (lit ''type'') tool = Some ty"
    and "ty \<noteq> lit ''namespace''" and "ty \<noteq> lit ''function''"
  shows "\<exists>tl k. t' = add_flat tl k t \<and> k \<in> {FunctionTool, CustomTool} \<and> reserved_flat_name tool = Some (fn_name (tool_function tl))"
proof (cases "ty = lit ''custom''")
  case True
  with assms obtain n d where "str_at (lit ''name'') tool = Some n"
    "t' = add_flat (function_tool n d (one_string_schema (lit ''input''))) CustomTool t"
    by (auto simp: convert_tool_def string_field_def invalid_request_def split: option.splits)
  with True assms(2) show ?thesis
    by (intro exI [of _ "function_tool n d (one_string_schema (lit ''input''))"] exI [of _ CustomTool])
      (simp add: reserved_flat_name_def function_tool_def)
next
  case False
  have "\<exists>d p. t' = add_flat (function_tool ty d p) FunctionTool t \<and> reserved_flat_name tool = Some ty"
    using assms False
    by (auto simp: convert_tool_def invalid_request_def reserved_flat_name_def split: if_splits)
  then obtain d p where "t' = add_flat (function_tool ty d p) FunctionTool t" "reserved_flat_name tool = Some ty" by blast
  then show ?thesis
    by (intro exI [of _ "function_tool ty d p"] exI [of _ FunctionTool]) (simp add: function_tool_def)
qed

lemma tables_ok_own_name:
  "tables_ok flat t \<Longrightarrow> tables_ok flat (t\<lparr>original_function_names := (original_function_names t)((None, n) \<mapsto> n)\<rparr>)"
  unfolding tables_ok_def by auto

lemma tables_ok_tool:
  assumes "tables_ok flat t" and "convert_tool libs tool t = Inr t'"
    and "\<And>n. reserved_flat_name tool = Some n \<Longrightarrow> n \<in> set flat"
  shows "tables_ok flat t'"
proof -
  from assms(2) obtain ty where ty: "str_at (lit ''type'') tool = Some ty"
    by (auto simp: convert_tool_def invalid_request_def split: option.splits)
  show ?thesis
  proof (cases "ty = lit ''namespace''")
    case True
    with assms(2) ty obtain ns tools where "convert_namespace_tools libs ns tools t = Inr t'"
      by (auto simp: convert_tool_def invalid_request_def split: option.splits sum.splits)
    with assms(1) show ?thesis by (rule tables_ok_namespace_tools)
  next
    case False
    show ?thesis
    proof (cases "ty = lit ''function''")
      case True
      with assms(2) ty obtain n d p where n: "str_at (lit ''name'') tool = Some n"
        and t': "t' = (add_flat (function_tool n d p) FunctionTool t)\<lparr>original_function_names :=
          (original_function_names t)((None, n) \<mapsto> n)\<rparr>"
        by (auto simp: convert_tool_def string_field_def invalid_request_def Let_def add_flat_def
            split: option.splits sum.splits)
      have "n \<in> set flat" using assms(3) n ty True by (simp add: reserved_flat_name_def)
      then have "tables_ok flat (add_flat (function_tool n d p) FunctionTool t)"
        by (intro tables_ok_flat [OF assms(1)]) (simp_all add: function_tool_def)
      then show ?thesis
        unfolding t' using tables_ok_own_name [of flat "add_flat (function_tool n d p) FunctionTool t" n]
        by (simp add: add_flat_def)
    next
      case no: False
      have "\<exists>tl k. t' = add_flat tl k t \<and> k \<in> {FunctionTool, CustomTool}
          \<and> reserved_flat_name tool = Some (fn_name (tool_function tl))"
        by (rule convert_flat_tool [OF assms(2) ty False no])
      with assms(3) tables_ok_flat [OF assms(1)] show ?thesis by blast
    qed
  qed
qed

lemma tables_ok_tools:
  "\<lbrakk>tables_ok flat t; convert_tool_list libs tools t = Inr t'; set (reserve_flat_chat_tool_names tools) \<subseteq> set flat\<rbrakk>
    \<Longrightarrow> tables_ok flat t'"
proof (induction tools arbitrary: t)
  case (Cons tool tools)
  from Cons.prems(2) obtain t1 where t1: "convert_tool libs tool t = Inr t1" "convert_tool_list libs tools t1 = Inr t'"
    by (auto split: sum.splits)
  have "tables_ok flat t1"
    using Cons.prems(3) by (intro tables_ok_tool [OF Cons.prems(1) t1(1)])
      (auto simp: reserve_flat_chat_tool_names_def List.map_filter_def)
  then show ?case
    using Cons.prems(3) by (intro Cons.IH [OF _ t1(2)])
      (auto simp: reserve_flat_chat_tool_names_def List.map_filter_def split: option.splits if_splits)
qed simp

lemma convert_tools_ok:
  assumes "convert_tools libs tools = Inr (out, ks, names)"
  shows "\<exists>t. tables_ok (reserve_flat_chat_tool_names tools) t \<and> kinds t = ks \<and> original_function_names t = names
    \<and> converted t = (case out of Some ts \<Rightarrow> ts | None \<Rightarrow> [])"
proof -
  from assms obtain t where "convert_tool_list libs tools (tables_new tools) = Inr t" "kinds t = ks"
    "original_function_names t = names" "out = (if converted t \<noteq> [] then Some (converted t) else None)"
    by (auto simp: convert_tools_def split: sum.splits)
  with tables_ok_tools [OF tables_ok_new this(1)] show ?thesis by (intro exI [of _ t]) auto
qed

text \<open>Every function of a namespace has a name on the wire.\<close>

definition named_functions :: "json list \<Rightarrow> ustr \<Rightarrow> ustr \<Rightarrow> bool" where
  "named_functions tools namespace name \<longleftrightarrow>
    (\<exists>tool\<in>set tools. str_at (lit ''type'') tool = Some (lit ''namespace'') \<and> str_at (lit ''name'') tool = Some namespace
      \<and> (case Option.bind (json_get (lit ''tools'') tool) as_array of
            Some fs \<Rightarrow> \<exists>f\<in>set fs. str_at (lit ''name'') f = Some name | None \<Rightarrow> False))"

lemma convert_namespace_tool_names:
  "convert_namespace_tool libs ns tool t = Inr t' \<Longrightarrow>
    \<exists>n c. str_at (lit ''name'') tool = Some n \<and> original_function_names t' = (original_function_names t)((Some ns, n) \<mapsto> c)"
  by (auto simp: convert_namespace_tool_def invalid_request_def string_field_def
      split: option.splits if_splits sum.splits prod.splits)

lemma convert_namespace_tools_names:
  "convert_namespace_tools libs ns tools t = Inr t' \<Longrightarrow>
    dom (original_function_names t) \<subseteq> dom (original_function_names t')
    \<and> (\<forall>f\<in>set tools. \<forall>n. str_at (lit ''name'') f = Some n \<longrightarrow> (Some ns, n) \<in> dom (original_function_names t'))"
proof (induction tools arbitrary: t)
  case (Cons f fs)
  then obtain t1 where t1: "convert_namespace_tool libs ns f t = Inr t1" "convert_namespace_tools libs ns fs t1 = Inr t'"
    by (auto split: sum.splits)
  obtain n c where "str_at (lit ''name'') f = Some n"
    "original_function_names t1 = (original_function_names t)((Some ns, n) \<mapsto> c)"
    using convert_namespace_tool_names [OF t1(1)] by blast
  then have "dom (original_function_names t1) = insert (Some ns, n) (dom (original_function_names t))"
    and f: "str_at (lit ''name'') f = Some n" by simp_all
  moreover note Cons.IH [OF t1(2)]
  ultimately show ?case by (simp only: list.set ball_simps insert_subset) (simp add: f)
qed simp

lemma convert_tool_names:
  assumes "convert_tool libs tool t = Inr t'"
  shows "dom (original_function_names t) \<subseteq> dom (original_function_names t')"
proof -
  obtain ty where ty: "str_at (lit ''type'') tool = Some ty"
    using assms by (auto simp: convert_tool_def invalid_request_def split: option.splits)
  show ?thesis
  proof (cases "ty = lit ''namespace''")
    case True
    with assms ty obtain ns tools where "convert_namespace_tools libs ns tools t = Inr t'"
      by (auto simp: convert_tool_def invalid_request_def split: option.splits sum.splits)
    with convert_namespace_tools_names show ?thesis by blast
  next
    case False
    show ?thesis
    proof (cases "ty = lit ''function''")
      case True
      with assms ty show ?thesis
        by (auto simp: convert_tool_def string_field_def invalid_request_def Let_def add_flat_def split: option.splits sum.splits)
    next
      case no: False
      show ?thesis using convert_flat_tool [OF assms ty False no] by (auto simp: add_flat_def)
    qed
  qed
qed

lemma convert_tool_list_names:
  "convert_tool_list libs tools t = Inr t' \<Longrightarrow>
    dom (original_function_names t) \<subseteq> dom (original_function_names t')
    \<and> (\<forall>ns n. named_functions tools ns n \<longrightarrow> (Some ns, n) \<in> dom (original_function_names t'))"
proof (induction tools arbitrary: t)
  case (Cons tool tools)
  then obtain t1 where t1: "convert_tool libs tool t = Inr t1" "convert_tool_list libs tools t1 = Inr t'"
    by (auto split: sum.splits)
  note IH = Cons.IH [OF t1(2)]
  have "(Some ns, n) \<in> dom (original_function_names t1)" if n: "named_functions [tool] ns n" for ns n
  proof -
    from n obtain fs where "str_at (lit ''type'') tool = Some (lit ''namespace'')" "str_at (lit ''name'') tool = Some ns"
      "Option.bind (json_get (lit ''tools'') tool) as_array = Some fs" and f: "\<exists>f\<in>set fs. str_at (lit ''name'') f = Some n"
      by (auto simp: named_functions_def split: option.splits)
    with t1(1) have "convert_namespace_tools libs ns fs t = Inr t1" by (simp add: convert_tool_def string_field_def)
    from convert_namespace_tools_names [OF this] f show ?thesis by blast
  qed
  moreover have "named_functions (tool # tools) ns n \<longleftrightarrow> named_functions [tool] ns n \<or> named_functions tools ns n" for ns n
    by (auto simp: named_functions_def)
  moreover note convert_tool_names [OF t1(1)] IH
  ultimately show ?case by blast
qed (simp add: named_functions_def)

definition out_tools :: "chat_tool list option \<Rightarrow> chat_tool list" where
  "out_tools out = (case out of Some tools \<Rightarrow> tools | None \<Rightarrow> [])"

lemma namespaced_name:
  assumes "convert_tools libs tools = Inr (out, ks, names)" and "named_functions tools ns n"
  shows "\<exists>c. names (Some ns, n) = Some c \<and> ks c = Some (NamespacedFunction n ns) \<and> count_list (chat_names (out_tools out)) c = 1
    \<and> (length (reserve_flat_chat_tool_names tools) + length (out_tools out) \<le> 2 * USIZE_MAX \<longrightarrow> valid_chat_name c)"
proof -
  let ?out = "out_tools out"
  obtain t where t: "tables_ok (reserve_flat_chat_tool_names tools) t" "kinds t = ks" "original_function_names t = names"
    "converted t = ?out"
    using convert_tools_ok [OF assms(1)] by (auto simp: out_tools_def)
  obtain t' where "convert_tool_list libs tools (tables_new tools) = Inr t'" "original_function_names t' = names"
    using assms(1) by (auto simp: convert_tools_def split: sum.splits)
  with convert_tool_list_names [OF this(1)] assms(2) have "(Some ns, n) \<in> dom names" by blast
  then obtain c where c: "names (Some ns, n) = Some c" by blast
  note ok = t(1) [unfolded tables_ok_def t(2-4)]
  have k: "ks c = Some (NamespacedFunction n ns)" using ok c by blast
  then have i: "is_namespaced ks c" by (simp add: is_namespaced_def)
  have "c \<in> set (chat_names ?out)" using ok k by blast
  have once: "distinct xs \<Longrightarrow> count_list xs c \<le> 1" for xs
    by (induction xs) (auto simp: count_list_0_iff [symmetric])
  moreover have "distinct (filter (is_namespaced ks) (chat_names ?out))" using ok by blast
  then have "count_list (filter (is_namespaced ks) (chat_names ?out)) c \<le> 1" by (rule once)
  moreover have "count_list (filter (is_namespaced ks) xs) c = count_list xs c" for xs by (induction xs) (auto simp: i)
  moreover from \<open>c \<in> _\<close> have "0 < count_list (chat_names ?out) c" by (metis count_list_0_iff gr0I)
  ultimately have "count_list (chat_names ?out) c = 1" by simp
  moreover have "valid_chat_name c" if "length (reserve_flat_chat_tool_names tools) + length ?out \<le> 2 * USIZE_MAX"
    using ok i that by fastforce
  ultimately show ?thesis using c k by blast
qed

subsection \<open>What the stream relies on\<close>

text \<open>
  The tables that go with a request: a name given to a function of a namespace is known as that
  function. The stream reads the calls of the model with the same tables.
\<close>

locale wire_names =
  fixes kinds_table :: tool_kinds and names_table :: original_names
  assumes name_known: "names_table (Some ns, n) = Some c \<Longrightarrow> kinds_table c = Some (NamespacedFunction n ns)"
begin

lemma call_name_known:
  "names_table (Some ns, n) \<noteq> None \<Longrightarrow>
    kinds_table (chat_function_call_name (Some ns) n names_table) = Some (NamespacedFunction n ns)"
proof -
  assume "names_table (Some ns, n) \<noteq> None"
  then obtain c where c: "names_table (Some ns, n) = Some c" by blast
  from name_known [OF c] c show ?thesis by (simp add: chat_function_call_name_def)
qed

lemma call_name_inj:
  assumes "names_table (Some ns, n) \<noteq> None" and "names_table (Some ns', n') \<noteq> None"
    and "chat_function_call_name (Some ns) n names_table = chat_function_call_name (Some ns') n' names_table"
  shows "ns = ns' \<and> n = n'"
proof -
  have "Some (NamespacedFunction n ns) = Some (NamespacedFunction n' ns')"
    using call_name_known [OF assms(1)] call_name_known [OF assms(2)] unfolding assms(3) by (rule trans [OF sym])
  then show ?thesis by simp
qed

end

definition kinds_of :: "chat_libs \<Rightarrow> json list \<Rightarrow> tool_kinds" where
  "kinds_of libs tools = (case convert_tools libs tools of Inr (out, ks, names) \<Rightarrow> ks | Inl _ \<Rightarrow> \<lambda>_. None)"

definition names_of :: "chat_libs \<Rightarrow> json list \<Rightarrow> original_names" where
  "names_of libs tools = (case convert_tools libs tools of Inr (out, ks, names) \<Rightarrow> names | Inl _ \<Rightarrow> \<lambda>_. None)"

interpretation wire: wire_names "kinds_of libs tools" "names_of libs tools" for libs tools
proof
  fix ns n c assume c: "names_of libs tools (Some ns, n) = Some c"
  then obtain out ks names where r: "convert_tools libs tools = Inr (out, ks, names)" "names (Some ns, n) = Some c"
    by (auto simp: names_of_def split: sum.splits)
  obtain t where "tables_ok (reserve_flat_chat_tool_names tools) t" "kinds t = ks" "original_function_names t = names"
    using convert_tools_ok [OF r(1)] by blast
  with r show "kinds_of libs tools c = Some (NamespacedFunction n ns)"
    by (simp add: tables_ok_def kinds_of_def)
qed

end
