(* ===== verification/Chat_Request.thy ===== *)
theory Chat_Request
  imports Chat_Tools
begin

section \<open>Requests of the chat wire (chat-wire-compat/src/request.rs)\<close>

text \<open>
  A Responses request as a chat completions request. Consecutive assistant texts, reasoning and
  calls are gathered and sent as one assistant message before the next message of another role.
\<close>

subsection \<open>Types (codex-api/src/common.rs, request.rs)\<close>

datatype verbosity = LowVerbosity | MediumVerbosity | HighVerbosity

datatype text_format_type = JsonSchemaFormat

record text_format =
  format_type :: text_format_type
  format_strict :: bool
  format_schema :: json
  format_name :: ustr

record text_controls =
  text_verbosity :: "verbosity option"
  text_format_of :: "text_format option"

text \<open>The fields the conversion reads; the others are not sent over the chat wire.\<close>

record responses_request =
  req_model :: ustr
  req_instructions :: ustr
  req_input :: "json response_item list"
  req_tools :: "json list"
  req_tool_choice :: ustr
  req_parallel_tool_calls :: bool
  req_store :: bool
  req_stream :: bool
  req_service_tier :: "ustr option"
  req_text :: "text_controls option"

record chat_function_call =
  fc_name :: ustr
  fc_arguments :: ustr

record chat_tool_call =
  tc_id :: ustr
  tc_type :: ustr
  tc_function :: chat_function_call

record chat_message =
  msg_role :: ustr
  msg_content :: "json option"
  msg_reasoning :: "ustr option"
  msg_tool_calls :: "chat_tool_call list option"
  msg_tool_call_id :: "ustr option"

record chat_request =
  chat_model :: ustr
  chat_messages :: "chat_message list"
  chat_stream :: bool
  chat_tools :: "chat_tool list option"
  chat_tool_choice :: "ustr option"
  chat_parallel_tool_calls :: "bool option"
  chat_response_format :: "json option"
  chat_service_tier :: "ustr option"
  chat_store :: "bool option"
  chat_reasoning_effort :: "ustr option"
  chat_verbosity :: "ustr option"

subsection \<open>Contents\<close>

fun reasoning_text :: "reasoning_content \<Rightarrow> ustr" where
  "reasoning_text (ReasoningText t) = t"
| "reasoning_text (PlainText t) = t"

definition reasoning_content_text :: "reasoning_content list option \<Rightarrow> ustr option" where
  "reasoning_content_text content =
    (case content of
       None \<Rightarrow> None
     | Some parts \<Rightarrow> (let t = concat (map reasoning_text parts) in if t = [] then None else Some t))"

fun chat_content_is_empty :: "json option \<Rightarrow> bool" where
  "chat_content_is_empty None = True"
| "chat_content_is_empty (Some (JString t)) = (t = [])"
| "chat_content_is_empty (Some (JArray xs)) = (xs = [])"
| "chat_content_is_empty (Some (JObject entries)) = (str_at (lit ''text'') (JObject entries) = Some [])"
| "chat_content_is_empty (Some _) = False"

definition chat_message_role :: "ustr \<Rightarrow> ustr" where
  "chat_message_role role = (if role = lit ''developer'' then lit ''user'' else role)"

definition image_part :: "ustr \<Rightarrow> json" where
  "image_part url = JObject [(lit ''type'', JString (lit ''image_url'')),
     (lit ''image_url'', JObject [(lit ''url'', JString url)])]"

definition text_part :: "ustr \<Rightarrow> json" where
  "text_part t = JObject [(lit ''type'', JString (lit ''text'')), (lit ''text'', JString t)]"

fun content_part :: "content_item \<Rightarrow> json" where
  "content_part (InputText t) = text_part t"
| "content_part (OutputText t) = text_part t"
| "content_part (InputImage url detail) = image_part url"

fun convert_message_content :: "content_item list \<Rightarrow> json option" where
  "convert_message_content [] = None"
| "convert_message_content [InputText t] = Some (JString t)"
| "convert_message_content [OutputText t] = Some (JString t)"
| "convert_message_content [InputImage url detail] = Some (JArray [image_part url])"
| "convert_message_content content = Some (JArray (map content_part content))"

text \<open>The derived serialisation of the output items.\<close>

fun detail_json :: "image_detail \<Rightarrow> json" where
  "detail_json AutoDetail = JString (lit ''auto'')"
| "detail_json LowDetail = JString (lit ''low'')"
| "detail_json HighDetail = JString (lit ''high'')"
| "detail_json OriginalDetail = JString (lit ''original'')"

fun output_item_json :: "output_content_item \<Rightarrow> json" where
  "output_item_json (ItemText t) = JObject [(lit ''type'', JString (lit ''input_text'')), (lit ''text'', JString t)]"
| "output_item_json (ItemImage url detail) = JObject
    ([(lit ''type'', JString (lit ''input_image'')), (lit ''image_url'', JString url)]
     @ (case detail of Some d \<Rightarrow> [(lit ''detail'', detail_json d)] | None \<Rightarrow> []))"

text \<open>One of the two cases always applies; the display of the payload is never reached.\<close>

definition tool_output_text :: "chat_libs \<Rightarrow> output_payload \<Rightarrow> ustr" where
  "tool_output_text libs p =
    (case text_content p of
       Some t \<Rightarrow> t
     | None \<Rightarrow> (case content_items p of Some items \<Rightarrow> json_text libs (JArray (map output_item_json items)) | None \<Rightarrow> []))"

definition tool_search_output_text :: "chat_libs \<Rightarrow> ustr \<Rightarrow> ustr \<Rightarrow> json list \<Rightarrow> ustr" where
  "tool_search_output_text libs status execution tools =
    json_text libs (JObject [(lit ''status'', JString status), (lit ''execution'', JString execution), (lit ''tools'', JArray tools)])"

definition convert_response_format :: "text_controls option \<Rightarrow> json option" where
  "convert_response_format controls =
    (case Option.bind controls text_format_of of
       None \<Rightarrow> None
     | Some f \<Rightarrow> Some (JObject
         [(lit ''type'', case format_type f of JsonSchemaFormat \<Rightarrow> JString (lit ''json_schema'')),
          (lit ''json_schema'', JObject [(lit ''name'', JString (format_name f)), (lit ''schema'', format_schema f),
            (lit ''strict'', JBool (format_strict f))])]))"

fun verbosity_to_string :: "verbosity \<Rightarrow> ustr" where
  "verbosity_to_string LowVerbosity = lit ''low''"
| "verbosity_to_string MediumVerbosity = lit ''medium''"
| "verbosity_to_string HighVerbosity = lit ''high''"

subsection \<open>Messages\<close>

record gathering =
  messages :: "chat_message list"
  pending_reasoning_content :: "ustr option"
  pending_assistant_content :: "json option"
  pending_tool_calls :: "chat_tool_call list"

definition flush_pending_assistant :: "gathering \<Rightarrow> gathering" where
  "flush_pending_assistant g =
    (if pending_assistant_content g = None \<and> pending_tool_calls g = [] then g
     else g\<lparr>messages := messages g @ [\<lparr>msg_role = lit ''assistant'', msg_content = pending_assistant_content g,
              msg_reasoning = pending_reasoning_content g,
              msg_tool_calls = (if pending_tool_calls g \<noteq> [] then Some (pending_tool_calls g) else None),
              msg_tool_call_id = None\<rparr>],
            pending_assistant_content := None, pending_reasoning_content := None, pending_tool_calls := []\<rparr>)"

definition merge_pending_assistant_content :: "json option \<Rightarrow> json option \<Rightarrow> json option" where
  "merge_pending_assistant_content pending addition =
    (case addition of
       None \<Rightarrow> pending
     | Some c \<Rightarrow>
         (case (pending, c) of
            (None, c) \<Rightarrow> Some c
          | (Some (JString existing), JString extra) \<Rightarrow> Some (JString (existing @ extra))
          | (Some (JArray existing), JArray extra) \<Rightarrow> Some (JArray (existing @ extra))
          | (Some existing, extra) \<Rightarrow> Some (JArray [existing, extra])))"

text \<open>A text next to an array is put beside it, not into it: the array becomes an element.\<close>

lemma mixed_content_nests:
  "merge_pending_assistant_content (convert_message_content [OutputText a]) (convert_message_content [OutputText b, OutputText c])
    = Some (JArray [JString a, JArray [text_part b, text_part c]])"
  by (simp add: merge_pending_assistant_content_def)

definition tool_call :: "ustr \<Rightarrow> ustr \<Rightarrow> ustr \<Rightarrow> chat_tool_call" where
  "tool_call call_id name arguments =
    \<lparr>tc_id = call_id, tc_type = lit ''function'', tc_function = \<lparr>fc_name = name, fc_arguments = arguments\<rparr>\<rparr>"

definition tool_message :: "ustr \<Rightarrow> ustr \<Rightarrow> chat_message" where
  "tool_message t call_id = \<lparr>msg_role = lit ''tool'', msg_content = Some (JString t), msg_reasoning = None,
     msg_tool_calls = None, msg_tool_call_id = Some call_id\<rparr>"

definition push_message :: "chat_message \<Rightarrow> gathering \<Rightarrow> gathering" where
  "push_message m g = (let g = flush_pending_assistant g in g\<lparr>messages := messages g @ [m]\<rparr>)"

definition push_call :: "chat_tool_call \<Rightarrow> gathering \<Rightarrow> gathering" where
  "push_call c g = g\<lparr>pending_tool_calls := pending_tool_calls g @ [c]\<rparr>"

definition opt_string_json :: "ustr option \<Rightarrow> json" where
  "opt_string_json v = (case v of Some s \<Rightarrow> JString s | None \<Rightarrow> JNull)"

definition shell_arguments :: "chat_libs \<Rightarrow> local_shell_action \<Rightarrow> ustr" where
  "shell_arguments libs action =
    (case action of ExecAction e \<Rightarrow> json_text libs (JObject
       [(lit ''command'', JArray (map JString (shell_command e))),
        (lit ''workdir'', opt_string_json (shell_working_directory e)),
        (lit ''timeout_ms'', case shell_timeout_ms e of Some n \<Rightarrow> JNumber (show_nat n) | None \<Rightarrow> JNull)]))"

definition missing_call_id :: ustr where
  "missing_call_id = lit ''local_shell history item missing call id''"

fun convert_item :: "chat_libs \<Rightarrow> original_names \<Rightarrow> json response_item \<Rightarrow> gathering \<Rightarrow> api_error + gathering" where
  "convert_item libs names (Message i role content end_turn phase) g =
    (let converted_content = convert_message_content content in
     if role = lit ''assistant'' then
       (if chat_content_is_empty converted_content then Inr g
        else Inr (g\<lparr>pending_assistant_content :=
               merge_pending_assistant_content (pending_assistant_content g) converted_content\<rparr>))
     else Inr (push_message \<lparr>msg_role = chat_message_role role, msg_content = converted_content,
            msg_reasoning = None, msg_tool_calls = None, msg_tool_call_id = None\<rparr> g))"
| "convert_item libs names (FunctionCall i name namespace arguments call_id) g =
    Inr (push_call (tool_call call_id (chat_function_call_name namespace name names) arguments) g)"
| "convert_item libs names (CustomToolCall i status call_id name input) g =
    Inr (push_call (tool_call call_id name (json_text libs (JObject [(lit ''input'', JString input)]))) g)"
| "convert_item libs names (LocalShellCall i call_id status action) g =
    (case (case call_id of Some c \<Rightarrow> Some c | None \<Rightarrow> i) of
       None \<Rightarrow> invalid_request missing_call_id
     | Some c \<Rightarrow> Inr (push_call (tool_call c (lit ''local_shell'') (shell_arguments libs action)) g))"
| "convert_item libs names (ToolSearchCall i call_id status execution arguments) g =
    Inr (push_call (tool_call (case call_id of Some c \<Rightarrow> c | None \<Rightarrow> lit ''tool_search'') (lit ''tool_search'')
      (json_text libs (JObject [(lit ''execution'', JString execution), (lit ''arguments'', arguments)]))) g)"
| "convert_item libs names (FunctionCallOutput call_id p) g =
    Inr (push_message (tool_message (tool_output_text libs p) call_id) g)"
| "convert_item libs names (CustomToolCallOutput call_id name p) g =
    Inr (push_message (tool_message (tool_output_text libs p) call_id) g)"
| "convert_item libs names (ToolSearchOutput call_id status execution tools) g =
    Inr (push_message (tool_message (tool_search_output_text libs status execution tools)
      (case call_id of Some c \<Rightarrow> c | None \<Rightarrow> lit ''tool_search'')) g)"
| "convert_item libs names (Reasoning i summary content encrypted_content) g =
    (case reasoning_content_text content of
       None \<Rightarrow> Inr g
     | Some t \<Rightarrow> Inr (g\<lparr>pending_reasoning_content :=
         Some (case pending_reasoning_content g of Some existing \<Rightarrow> existing @ t | None \<Rightarrow> t)\<rparr>))"
| "convert_item libs names (WebSearchCall i status action) g = Inr g"
| "convert_item libs names (ImageGenerationCall i status revised_prompt result) g = Inr g"
| "convert_item libs names (GhostSnapshot c) g = Inr g"
| "convert_item libs names (Compaction c) g = Inr g"
| "convert_item libs names OtherItem g = Inr g"

fun convert_items :: "chat_libs \<Rightarrow> original_names \<Rightarrow> json response_item list \<Rightarrow> gathering \<Rightarrow> api_error + gathering" where
  "convert_items libs names [] g = Inr g"
| "convert_items libs names (item # items) g =
    (case convert_item libs names item g of Inl e \<Rightarrow> Inl e | Inr g \<Rightarrow> convert_items libs names items g)"

definition system_message :: "ustr \<Rightarrow> chat_message list" where
  "system_message instructions =
    (if trim instructions \<noteq> [] then [\<lparr>msg_role = lit ''system'', msg_content = Some (JString instructions),
        msg_reasoning = None, msg_tool_calls = None, msg_tool_call_id = None\<rparr>] else [])"

text \<open>After the last item: the pending assistant message, and reasoning that nothing followed.\<close>

definition finish_messages :: "gathering \<Rightarrow> chat_message list" where
  "finish_messages g =
    (let g = flush_pending_assistant g in
     messages g @ (case pending_reasoning_content g of
        Some r \<Rightarrow> [\<lparr>msg_role = lit ''assistant'', msg_content = Some (JString []), msg_reasoning = Some r,
                   msg_tool_calls = None, msg_tool_call_id = None\<rparr>]
      | None \<Rightarrow> []))"

definition convert_request :: "chat_libs \<Rightarrow> responses_request \<Rightarrow> api_error + chat_request \<times> tool_kinds" where
  "convert_request libs request =
    (case convert_tools libs (req_tools request) of
       Inl e \<Rightarrow> Inl e
     | Inr (tools, tool_kinds, names) \<Rightarrow>
         (case convert_items libs names (req_input request)
              \<lparr>messages = system_message (req_instructions request), pending_reasoning_content = None,
               pending_assistant_content = None, pending_tool_calls = []\<rparr> of
            Inl e \<Rightarrow> Inl e
          | Inr g \<Rightarrow> Inr
              (\<lparr>chat_model = req_model request, chat_messages = finish_messages g, chat_stream = req_stream request,
                chat_tools = tools, chat_tool_choice = Some (req_tool_choice request),
                chat_parallel_tool_calls = Some (req_parallel_tool_calls request),
                chat_response_format = convert_response_format (req_text request),
                chat_service_tier = req_service_tier request, chat_store = Some (req_store request),
                chat_reasoning_effort = None,
                chat_verbosity = Option.bind (req_text request) (\<lambda>t. map_option verbosity_to_string (text_verbosity t))\<rparr>,
               tool_kinds)))"

subsection \<open>What a conversation says\<close>

text \<open>
  The steps of a conversation that another party sees: a call, an answer to a call, and a message
  of anyone but the assistant; next to them the assistant's text and reasoning.
\<close>

datatype chat_step = Called chat_tool_call | Answered ustr "json option" | Spoke ustr "json option"

definition message_steps :: "chat_message \<Rightarrow> chat_step list" where
  "message_steps m =
    (case msg_tool_call_id m of
       Some i \<Rightarrow> [Answered i (msg_content m)]
     | None \<Rightarrow>
         if msg_role m = lit ''assistant'' then map Called (case msg_tool_calls m of Some cs \<Rightarrow> cs | None \<Rightarrow> [])
         else [Spoke (msg_role m) (msg_content m)])"

fun json_texts :: "json \<Rightarrow> ustr" where
  "json_texts (JString t) = t"
| "json_texts (JArray xs) = concat (map json_texts xs)"
| "json_texts (JObject entries) = (case str_at (lit ''text'') (JObject entries) of Some t \<Rightarrow> t | None \<Rightarrow> [])"
| "json_texts _ = []"

definition opt_texts :: "json option \<Rightarrow> ustr" where
  "opt_texts c = (case c of Some v \<Rightarrow> json_texts v | None \<Rightarrow> [])"

definition opt_text :: "ustr option \<Rightarrow> ustr" where
  "opt_text t = (case t of Some t \<Rightarrow> t | None \<Rightarrow> [])"

definition message_texts :: "chat_message \<Rightarrow> ustr" where
  "message_texts m = (if msg_role m = lit ''assistant'' then opt_texts (msg_content m) else [])"

definition message_reasoning :: "chat_message \<Rightarrow> ustr" where
  "message_reasoning m = opt_text (msg_reasoning m)"

text \<open>The same of the items.\<close>

fun item_steps :: "chat_libs \<Rightarrow> original_names \<Rightarrow> json response_item \<Rightarrow> chat_step list" where
  "item_steps libs names (Message i role content end_turn phase) =
    (if role = lit ''assistant'' then [] else [Spoke (chat_message_role role) (convert_message_content content)])"
| "item_steps libs names (FunctionCall i name namespace arguments call_id) =
    [Called (tool_call call_id (chat_function_call_name namespace name names) arguments)]"
| "item_steps libs names (CustomToolCall i status call_id name input) =
    [Called (tool_call call_id name (json_text libs (JObject [(lit ''input'', JString input)])))]"
| "item_steps libs names (LocalShellCall i call_id status action) =
    (case (case call_id of Some c \<Rightarrow> Some c | None \<Rightarrow> i) of
       Some c \<Rightarrow> [Called (tool_call c (lit ''local_shell'') (shell_arguments libs action))] | None \<Rightarrow> [])"
| "item_steps libs names (ToolSearchCall i call_id status execution arguments) =
    [Called (tool_call (case call_id of Some c \<Rightarrow> c | None \<Rightarrow> lit ''tool_search'') (lit ''tool_search'')
      (json_text libs (JObject [(lit ''execution'', JString execution), (lit ''arguments'', arguments)])))]"
| "item_steps libs names (FunctionCallOutput call_id p) = [Answered call_id (Some (JString (tool_output_text libs p)))]"
| "item_steps libs names (CustomToolCallOutput call_id name p) = [Answered call_id (Some (JString (tool_output_text libs p)))]"
| "item_steps libs names (ToolSearchOutput call_id status execution tools) =
    [Answered (case call_id of Some c \<Rightarrow> c | None \<Rightarrow> lit ''tool_search'')
      (Some (JString (tool_search_output_text libs status execution tools)))]"
| "item_steps libs names _ = []"

fun part_text :: "content_item \<Rightarrow> ustr" where
  "part_text (InputText t) = t"
| "part_text (OutputText t) = t"
| "part_text (InputImage url detail) = []"

fun item_texts :: "json response_item \<Rightarrow> ustr" where
  "item_texts (Message i role content end_turn phase) = (if role = lit ''assistant'' then concat (map part_text content) else [])"
| "item_texts _ = []"

fun item_reasoning :: "json response_item \<Rightarrow> ustr" where
  "item_reasoning (Reasoning i summary content encrypted_content) =
    (case content of Some parts \<Rightarrow> concat (map reasoning_text parts) | None \<Rightarrow> [])"
| "item_reasoning _ = []"

fun anonymous_shell_call :: "json response_item \<Rightarrow> bool" where
  "anonymous_shell_call (LocalShellCall None None status action) = True"
| "anonymous_shell_call _ = False"

text \<open>What a gathering holds, sent or pending.\<close>

definition steps_of :: "gathering \<Rightarrow> chat_step list" where
  "steps_of g = concat (map message_steps (messages g)) @ map Called (pending_tool_calls g)"

definition texts_of :: "gathering \<Rightarrow> ustr" where
  "texts_of g = concat (map message_texts (messages g)) @ opt_texts (pending_assistant_content g)"

definition reasoning_of :: "gathering \<Rightarrow> ustr" where
  "reasoning_of g = concat (map message_reasoning (messages g)) @ opt_text (pending_reasoning_content g)"

lemmas gathered_defs = steps_of_def texts_of_def reasoning_of_def message_steps_def message_texts_def message_reasoning_def
  opt_texts_def opt_text_def

lemma flush_keeps:
  "steps_of (flush_pending_assistant g) = steps_of g \<and> texts_of (flush_pending_assistant g) = texts_of g
   \<and> reasoning_of (flush_pending_assistant g) = reasoning_of g
   \<and> pending_assistant_content (flush_pending_assistant g) = None \<and> pending_tool_calls (flush_pending_assistant g) = []"
  by (auto simp: flush_pending_assistant_def gathered_defs)

lemma push_message_keeps:
  assumes "msg_role m \<noteq> lit ''assistant''" and "msg_reasoning m = None"
  shows "steps_of (push_message m g) = steps_of g @ message_steps m \<and> texts_of (push_message m g) = texts_of g
    \<and> reasoning_of (push_message m g) = reasoning_of g"
proof -
  let ?f = "flush_pending_assistant g"
  have "steps_of (push_message m g) = steps_of ?f @ message_steps m" "texts_of (push_message m g) = texts_of ?f"
    "reasoning_of (push_message m g) = reasoning_of ?f"
    using assms flush_keeps [of g]
    by (simp_all add: push_message_def Let_def steps_of_def texts_of_def reasoning_of_def message_texts_def
        message_reasoning_def opt_texts_def opt_text_def)
  with flush_keeps [of g] show ?thesis by simp
qed

lemma content_part_texts [simp]: "json_texts (content_part c) = part_text c"
  by (cases c) (simp_all add: text_part_def image_part_def str_at_def)

lemma converted_texts: "opt_texts (convert_message_content content) = concat (map part_text content)"
  by (cases content rule: convert_message_content.cases)
    (auto simp: opt_texts_def image_part_def text_part_def str_at_def comp_def)

lemma empty_texts: "chat_content_is_empty (convert_message_content content) \<Longrightarrow> concat (map part_text content) = []"
  using converted_texts [of content]
  by (cases content rule: convert_message_content.cases) (auto simp: opt_texts_def)

lemma merged_texts:
  "opt_texts (merge_pending_assistant_content p (Some c)) = opt_texts p @ json_texts c"
  by (auto simp: merge_pending_assistant_content_def opt_texts_def split: option.splits json.splits)

lemma convert_item_keeps:
  assumes "convert_item libs names i g = Inr g'"
  shows "steps_of g' = steps_of g @ item_steps libs names i \<and> texts_of g' = texts_of g @ item_texts i
    \<and> reasoning_of g' = reasoning_of g @ item_reasoning i"
proof (cases i)
  case (Message j role content end_turn phase)
  show ?thesis
  proof (cases "role = lit ''assistant''")
    case True
    show ?thesis
    proof (cases "chat_content_is_empty (convert_message_content content)")
      case e: True
      with assms Message True empty_texts [OF e] show ?thesis by simp
    next
      case False
      then obtain c where c: "convert_message_content content = Some c" by (cases "convert_message_content content") auto
      have g': "g' = g\<lparr>pending_assistant_content := merge_pending_assistant_content (pending_assistant_content g) (Some c)\<rparr>"
        using assms Message True False c by simp
      have "json_texts c = concat (map part_text content)" using converted_texts [of content] c by (simp add: opt_texts_def)
      with True Message show ?thesis by (simp add: g' steps_of_def texts_of_def reasoning_of_def merged_texts)
    qed
  next
    case False
    define m where "m = \<lparr>msg_role = chat_message_role role, msg_content = convert_message_content content,
      msg_reasoning = None, msg_tool_calls = None, msg_tool_call_id = None\<rparr>"
    have r: "chat_message_role role \<noteq> lit ''assistant''" using False by (simp add: chat_message_role_def)
    then have "msg_role m \<noteq> lit ''assistant''" "msg_reasoning m = None"
      "message_steps m = [Spoke (chat_message_role role) (convert_message_content content)]"
      by (simp_all add: m_def message_steps_def)
    moreover have "g' = push_message m g" using assms Message False by (simp add: m_def)
    ultimately show ?thesis using push_message_keeps [of m g] Message False by simp
  qed
next
  case (Reasoning j summary content encrypted)
  with assms show ?thesis
    by (auto simp: reasoning_content_text_def Let_def reasoning_of_def opt_text_def steps_of_def texts_of_def
        split: option.splits if_splits)
next
  case (LocalShellCall j c st a)
  with assms show ?thesis
    by (auto simp: invalid_request_def push_call_def steps_of_def texts_of_def reasoning_of_def split: option.splits)
next
  case (FunctionCallOutput c p)
  with assms push_message_keeps [of "tool_message (tool_output_text libs p) c" g] show ?thesis
    by (auto simp: tool_message_def message_steps_def)
next
  case (CustomToolCallOutput c n p)
  with assms push_message_keeps [of "tool_message (tool_output_text libs p) c" g] show ?thesis
    by (auto simp: tool_message_def message_steps_def)
next
  case (ToolSearchOutput c st e ts)
  with assms push_message_keeps [of "tool_message (tool_search_output_text libs st e ts)
      (case c of Some c \<Rightarrow> c | None \<Rightarrow> lit ''tool_search'')" g] show ?thesis
    by (auto simp: tool_message_def message_steps_def)
qed (use assms in \<open>auto simp: push_call_def steps_of_def texts_of_def reasoning_of_def\<close>)

lemma convert_items_keep:
  "convert_items libs names its g = Inr g' \<Longrightarrow>
    steps_of g' = steps_of g @ concat (map (item_steps libs names) its)
    \<and> texts_of g' = texts_of g @ concat (map item_texts its)
    \<and> reasoning_of g' = reasoning_of g @ concat (map item_reasoning its)"
proof (induction its arbitrary: g)
  case (Cons i its)
  then obtain g1 where "convert_item libs names i g = Inr g1" "convert_items libs names its g1 = Inr g'"
    by (auto split: sum.splits)
  with convert_item_keeps Cons.IH show ?case by fastforce
qed simp

lemma convert_item_fails: "convert_item libs names i g = Inl e \<longleftrightarrow> anonymous_shell_call i \<and> e = InvalidRequest missing_call_id"
  by (cases i) (auto simp: invalid_request_def Let_def split: option.splits)

lemma convert_items_fail:
  "convert_items libs names its g = Inl e \<longleftrightarrow> list_ex anonymous_shell_call its \<and> e = InvalidRequest missing_call_id"
proof (induction its arbitrary: g)
  case (Cons i its)
  then show ?case using convert_item_fails [of libs names i g] by (cases "convert_item libs names i g") auto
qed simp

lemma finished_messages:
  "concat (map message_steps (finish_messages g)) = steps_of g \<and> concat (map message_texts (finish_messages g)) = texts_of g
   \<and> concat (map message_reasoning (finish_messages g)) = reasoning_of g"
proof -
  let ?f = "flush_pending_assistant g"
  have "concat (map message_steps (finish_messages g)) = steps_of ?f"
    "concat (map message_texts (finish_messages g)) = texts_of ?f"
    "concat (map message_reasoning (finish_messages g)) = reasoning_of ?f"
    using flush_keeps [of g] by (auto simp: finish_messages_def Let_def gathered_defs split: option.splits)
  with flush_keeps [of g] show ?thesis by simp
qed

end
