(* ===== verification/Chat_Stream.thy ===== *)
theory Chat_Stream
  imports Chat_Tools Context_History
begin

section \<open>Streams of the chat wire (chat-wire-compat/src/stream.rs)\<close>

text \<open>
  The server sent events of a chat completions stream as response events: text and reasoning are
  passed on as deltas between the start and the end of an item, the fragments of tool calls are
  gathered and a call is passed on when the next one starts or the stream ends. The events go to a
  channel; a send fails when the receiver is gone, which the counter of a channel says (\<open>None\<close>: the
  receiver stays). Telemetry is left out. Decoding a chunk is the derived deserialisation, a
  parameter.
\<close>

subsection \<open>Chunks\<close>

record function_call_delta =
  fd_name :: "ustr option"
  fd_arguments :: "ustr option"

record tool_call_delta =
  td_index :: "nat option"
  td_id :: "ustr option"
  td_function :: "function_call_delta option"

record chat_delta =
  delta_content :: "json option"
  delta_reasoning_content :: "ustr option"
  delta_reasoning :: "ustr option"
  delta_tool_calls :: "tool_call_delta list option"

record choice =
  choice_delta :: "chat_delta option"
  finish_reason :: "ustr option"

record chat_usage =
  prompt_tokens :: "int option"
  completion_tokens :: "int option"
  usage_total_tokens :: "int option"

record chat_chunk =
  chunk_id :: "ustr option"
  chunk_model :: "ustr option"
  chunk_choices :: "choice list"
  chunk_usage :: "chat_usage option"

subsection \<open>Events (codex-api/src/common.rs) and the channel\<close>

text \<open>The events a chat stream sends; the other constructors come from the responses wire only.\<close>

datatype response_event =
    Created
  | OutputItemDone "json response_item"
  | OutputItemAdded "json response_item"
  | ServerModel ustr
  | Completed ustr "token_usage option"
  | OutputTextDelta ustr
  | ReasoningContentDelta ustr int

record channel =
  sent :: "(api_error + response_event) list"
  room :: "nat option"

definition channel_closed :: api_error where
  "channel_closed = StreamError (lit ''chat stream channel closed'')"

definition send :: "api_error + response_event \<Rightarrow> channel \<Rightarrow> bool \<times> channel" where
  "send e c = (if room c = Some 0 then (False, c)
     else (True, c\<lparr>sent := sent c @ [e], room := map_option (\<lambda>n. n - 1) (room c)\<rparr>))"

subsection \<open>StreamState\<close>

record partial_tool_call =
  part_id :: "ustr option"
  part_name :: "ustr option"
  part_arguments :: ustr

definition partial_default :: partial_tool_call where
  "partial_default = \<lparr>part_id = None, part_name = None, part_arguments = []\<rparr>"

record chat_state =
  response_id :: ustr
  message_item_id :: ustr
  reasoning_item_id :: ustr
  created_sent :: bool
  assistant_item_started :: bool
  assistant_text :: ustr
  reasoning_item_started :: bool
  reasoning_content :: ustr
  tool_calls :: "partial_tool_call list"
  finalized_tool_call_count :: nat
  usage :: "chat_usage option"
  server_model :: "ustr option"
  tx_event :: channel

definition chat_state_new :: "channel \<Rightarrow> chat_state" where
  "chat_state_new tx = \<lparr>response_id = lit ''chatcmpl-compat'', message_item_id = lit ''chat-message-1'',
     reasoning_item_id = lit ''chat-reasoning-1'', created_sent = False, assistant_item_started = False,
     assistant_text = [], reasoning_item_started = False, reasoning_content = [], tool_calls = [],
     finalized_tool_call_count = 0, usage = None, server_model = None, tx_event = tx\<rparr>"

type_synonym stream_step = "(api_error, unit, chat_state) outcome"

definition send_event :: "response_event \<Rightarrow> chat_state \<Rightarrow> stream_step" where
  "send_event e s =
    (case send (Inr e) (tx_event s) of
       (True, c) \<Rightarrow> (Inr (), s\<lparr>tx_event := c\<rparr>)
     | (False, c) \<Rightarrow> (Inl channel_closed, s\<lparr>tx_event := c\<rparr>))"

text \<open>\<open>let _ = tx_event.send(Err(..))\<close>.\<close>

definition send_error :: "api_error \<Rightarrow> chat_state \<Rightarrow> chat_state" where
  "send_error e s = s\<lparr>tx_event := snd (send (Inl e) (tx_event s))\<rparr>"

subsection \<open>Finalisation\<close>

definition message_item :: "chat_state \<Rightarrow> ustr \<Rightarrow> json response_item" where
  "message_item s t = Message (Some (message_item_id s)) (lit ''assistant'') [OutputText t] None None"

definition reasoning_item :: "chat_state \<Rightarrow> ustr \<Rightarrow> json response_item" where
  "reasoning_item s t = Reasoning (reasoning_item_id s) [] (Some [ReasoningText t]) None"

definition finalize_assistant_message :: "chat_state \<Rightarrow> stream_step" where
  "finalize_assistant_message s =
    (if \<not> assistant_item_started s then (Inr (), s)
     else try_then (send_event (OutputItemDone (message_item s (assistant_text s))) s)
       (\<lambda>_ s. (Inr (), s\<lparr>assistant_item_started := False\<rparr>)))"

definition finalize_reasoning :: "chat_state \<Rightarrow> stream_step" where
  "finalize_reasoning s =
    (if \<not> reasoning_item_started s then (Inr (), s)
     else try_then (send_event (OutputItemDone (reasoning_item s (reasoning_content s))) (s\<lparr>reasoning_content := []\<rparr>))
       (\<lambda>_ s. (Inr (), s\<lparr>reasoning_item_started := False\<rparr>)))"

definition custom_input :: "chat_libs \<Rightarrow> ustr \<Rightarrow> ustr" where
  "custom_input libs arguments =
    (case json_parse libs arguments of
       Some v \<Rightarrow> (case str_at (lit ''input'') v of Some input \<Rightarrow> input | None \<Rightarrow> arguments)
     | None \<Rightarrow> arguments)"

definition call_item :: "chat_libs \<Rightarrow> tool_kinds \<Rightarrow> ustr \<Rightarrow> ustr \<Rightarrow> ustr \<Rightarrow> json response_item" where
  "call_item libs tool_kinds name call_id arguments =
    (case tool_kinds name of
       Some FunctionTool \<Rightarrow> FunctionCall None name None arguments call_id
     | Some (NamespacedFunction output_name namespace) \<Rightarrow> FunctionCall None output_name (Some namespace) arguments call_id
     | Some CustomTool \<Rightarrow> CustomToolCall None None call_id name (custom_input libs arguments)
     | None \<Rightarrow> FunctionCall None name None arguments call_id)"

context wire_names
begin

lemma call_comes_back:
  "names_table (Some ns, n) \<noteq> None \<Longrightarrow>
    call_item libs kinds_table (chat_function_call_name (Some ns) n names_table) call_id arguments
      = FunctionCall None n (Some ns) arguments call_id"
  by (simp add: call_item_def call_name_known)

end

definition default_call_id :: "ustr \<Rightarrow> ustr" where
  "default_call_id name = lit ''call_'' @ map (\<lambda>c. if c = c_dot then c_us else c) name"

definition finalize_tool_call :: "chat_libs \<Rightarrow> tool_kinds \<Rightarrow> chat_state \<Rightarrow> stream_step" where
  "finalize_tool_call libs tool_kinds s =
    (let k = finalized_tool_call_count s in
     if length (tool_calls s) \<le> k then (Inl (StreamError (lit ''tool call missing streamed index'')), s)
     else
       (let call = tool_calls s ! k; s = s\<lparr>tool_calls := (tool_calls s)[k := partial_default]\<rparr> in
        case part_name call of
          None \<Rightarrow> (Inl (StreamError (lit ''tool call missing name'')), s)
        | Some name \<Rightarrow>
            (let call_id = (case part_id call of Some i \<Rightarrow> i | None \<Rightarrow> default_call_id name) in
             try_then (send_event (OutputItemDone (call_item libs tool_kinds name call_id (part_arguments call))) s)
               (\<lambda>_ s. (Inr (), s\<lparr>finalized_tool_call_count := finalized_tool_call_count s + 1\<rparr>)))))"

text \<open>Each turn of the loop that does not return counts one call, so the distance is the number of turns.\<close>

fun finalize_turns :: "chat_libs \<Rightarrow> tool_kinds \<Rightarrow> nat \<Rightarrow> chat_state \<Rightarrow> stream_step" where
  "finalize_turns libs tool_kinds 0 s = (Inr (), s)"
| "finalize_turns libs tool_kinds (Suc n) s =
    try_then (finalize_tool_call libs tool_kinds s) (\<lambda>_ s. finalize_turns libs tool_kinds n s)"

definition finalize_tool_calls_until :: "chat_libs \<Rightarrow> tool_kinds \<Rightarrow> nat \<Rightarrow> chat_state \<Rightarrow> stream_step" where
  "finalize_tool_calls_until libs tool_kinds end_index s =
    finalize_turns libs tool_kinds (end_index - finalized_tool_call_count s) s"

definition finalize_tool_calls :: "chat_libs \<Rightarrow> tool_kinds \<Rightarrow> chat_state \<Rightarrow> stream_step" where
  "finalize_tool_calls libs tool_kinds s =
    try_then (finalize_tool_calls_until libs tool_kinds (length (tool_calls s)) s)
      (\<lambda>_ s. (Inr (), s\<lparr>tool_calls := [], finalized_tool_call_count := 0\<rparr>))"

definition or_zero :: "int option \<Rightarrow> int" where
  "or_zero n = (case n of Some n \<Rightarrow> n | None \<Rightarrow> 0)"

definition token_usage_of :: "chat_usage \<Rightarrow> token_usage" where
  "token_usage_of u =
    \<lparr>input_tokens = or_zero (prompt_tokens u), cached_input_tokens = 0, output_tokens = or_zero (completion_tokens u),
     reasoning_output_tokens = 0,
     total_tokens = (case usage_total_tokens u of
         Some n \<Rightarrow> n
       | None \<Rightarrow> wrap_i64 (or_zero (prompt_tokens u) + or_zero (completion_tokens u)))\<rparr>"

definition finalize_and_complete :: "chat_libs \<Rightarrow> tool_kinds \<Rightarrow> chat_state \<Rightarrow> stream_step" where
  "finalize_and_complete libs tool_kinds s =
    try_then (finalize_reasoning s) (\<lambda>_ s.
    try_then (finalize_assistant_message s) (\<lambda>_ s.
    try_then (finalize_tool_calls libs tool_kinds s) (\<lambda>_ s.
    send_event (Completed (response_id s) (map_option token_usage_of (usage s))) s)))"

subsection \<open>One chunk\<close>

definition text_of :: "json \<Rightarrow> ustr list" where
  "text_of v = (case str_at (lit ''text'') v of Some t \<Rightarrow> [t] | None \<Rightarrow> [])"

definition extract_text_deltas :: "json \<Rightarrow> ustr list" where
  "extract_text_deltas content =
    filter (\<lambda>t. t \<noteq> [])
      (case content of
         JString t \<Rightarrow> [t]
       | JArray parts \<Rightarrow> concat (map text_of parts)
       | JObject entries \<Rightarrow> text_of (JObject entries)
       | _ \<Rightarrow> [])"

definition handle_reasoning :: "chat_delta \<Rightarrow> chat_state \<Rightarrow> stream_step" where
  "handle_reasoning d s =
    (case (case delta_reasoning_content d of Some r \<Rightarrow> Some r | None \<Rightarrow> delta_reasoning d) of
       None \<Rightarrow> (Inr (), s)
     | Some r \<Rightarrow>
         if r = [] then (Inr (), s)
         else
           try_then
             (if \<not> reasoning_item_started s then
                send_event (OutputItemAdded (reasoning_item s [])) (s\<lparr>reasoning_item_started := True\<rparr>)
              else (Inr (), s))
             (\<lambda>_ s. send_event (ReasoningContentDelta r 0) (s\<lparr>reasoning_content := reasoning_content s @ r\<rparr>)))"

fun send_text_deltas :: "ustr list \<Rightarrow> chat_state \<Rightarrow> stream_step" where
  "send_text_deltas [] s = (Inr (), s)"
| "send_text_deltas (t # ts) s =
    try_then (send_event (OutputTextDelta t) (s\<lparr>assistant_text := assistant_text s @ t\<rparr>)) (\<lambda>_ s. send_text_deltas ts s)"

definition handle_content :: "chat_delta \<Rightarrow> chat_state \<Rightarrow> stream_step" where
  "handle_content d s =
    (case delta_content d of
       None \<Rightarrow> (Inr (), s)
     | Some content \<Rightarrow>
         (let deltas = extract_text_deltas content in
          if deltas = [] then (Inr (), s)
          else
            try_then
              (if \<not> assistant_item_started s then
                 send_event (OutputItemAdded (message_item s [])) (s\<lparr>assistant_item_started := True\<rparr>)
               else (Inr (), s))
              (\<lambda>_ s. send_text_deltas deltas s)))"

definition ensure_partial_tool_call :: "nat \<Rightarrow> partial_tool_call list \<Rightarrow> partial_tool_call list" where
  "ensure_partial_tool_call index calls = calls @ replicate (Suc index - length calls) partial_default"

definition non_empty :: "ustr option \<Rightarrow> ustr option" where
  "non_empty v = (case v of Some t \<Rightarrow> if t = [] then None else Some t | None \<Rightarrow> None)"

definition extend_partial :: "tool_call_delta \<Rightarrow> partial_tool_call \<Rightarrow> partial_tool_call" where
  "extend_partial d p =
    (let p = (case non_empty (td_id d) of Some i \<Rightarrow> p\<lparr>part_id := Some i\<rparr> | None \<Rightarrow> p) in
     case td_function d of
       None \<Rightarrow> p
     | Some f \<Rightarrow>
         (let p = (case non_empty (fd_name f) of Some n \<Rightarrow> p\<lparr>part_name := Some n\<rparr> | None \<Rightarrow> p) in
          case fd_arguments f of Some a \<Rightarrow> p\<lparr>part_arguments := part_arguments p @ a\<rparr> | None \<Rightarrow> p))"

definition delta_index :: "tool_call_delta \<Rightarrow> chat_state \<Rightarrow> nat" where
  "delta_index d s = (case td_index d of Some i \<Rightarrow> i | None \<Rightarrow> length (tool_calls s) - 1)"

definition starts_new_tool_call :: "tool_call_delta \<Rightarrow> nat \<Rightarrow> chat_state \<Rightarrow> bool" where
  "starts_new_tool_call d index s \<longleftrightarrow> finalized_tool_call_count s < index \<and> td_id d \<noteq> None
     \<and> (case td_function d of Some f \<Rightarrow> fd_name f \<noteq> None | None \<Rightarrow> False)"

definition handle_tool_call :: "chat_libs \<Rightarrow> tool_kinds \<Rightarrow> tool_call_delta \<Rightarrow> chat_state \<Rightarrow> stream_step" where
  "handle_tool_call libs tool_kinds d s =
    (let index = delta_index d s in
     try_then
       (if starts_new_tool_call d index s then finalize_tool_calls_until libs tool_kinds index s else (Inr (), s))
       (\<lambda>_ s. let calls = ensure_partial_tool_call index (tool_calls s) in
          (Inr (), s\<lparr>tool_calls := calls[index := extend_partial d (calls ! index)]\<rparr>)))"

fun handle_tool_calls :: "chat_libs \<Rightarrow> tool_kinds \<Rightarrow> tool_call_delta list \<Rightarrow> chat_state \<Rightarrow> stream_step" where
  "handle_tool_calls libs tool_kinds [] s = (Inr (), s)"
| "handle_tool_calls libs tool_kinds (d # ds) s =
    try_then (handle_tool_call libs tool_kinds d s) (\<lambda>_ s. handle_tool_calls libs tool_kinds ds s)"

definition handle_delta :: "chat_libs \<Rightarrow> tool_kinds \<Rightarrow> chat_delta \<Rightarrow> chat_state \<Rightarrow> stream_step" where
  "handle_delta libs tool_kinds d s =
    try_then (handle_reasoning d s) (\<lambda>_ s.
    try_then (handle_content d s) (\<lambda>_ s.
    (case delta_tool_calls d of Some ds \<Rightarrow> handle_tool_calls libs tool_kinds ds s | None \<Rightarrow> (Inr (), s))))"

definition handle_finish :: "chat_libs \<Rightarrow> tool_kinds \<Rightarrow> ustr option \<Rightarrow> chat_state \<Rightarrow> stream_step" where
  "handle_finish libs tool_kinds reason s =
    (if reason = Some (lit ''tool_calls'') then
       try_then (finalize_reasoning s) (\<lambda>_ s.
       try_then (finalize_assistant_message s) (\<lambda>_ s.
       finalize_tool_calls libs tool_kinds s))
     else (Inr (), s))"

definition handle_choice :: "chat_libs \<Rightarrow> tool_kinds \<Rightarrow> choice \<Rightarrow> chat_state \<Rightarrow> stream_step" where
  "handle_choice libs tool_kinds c s =
    try_then (case choice_delta c of Some d \<Rightarrow> handle_delta libs tool_kinds d s | None \<Rightarrow> (Inr (), s))
      (\<lambda>_ s. handle_finish libs tool_kinds (finish_reason c) s)"

fun handle_choices :: "chat_libs \<Rightarrow> tool_kinds \<Rightarrow> choice list \<Rightarrow> chat_state \<Rightarrow> stream_step" where
  "handle_choices libs tool_kinds [] s = (Inr (), s)"
| "handle_choices libs tool_kinds (c # cs) s =
    try_then (handle_choice libs tool_kinds c s) (\<lambda>_ s. handle_choices libs tool_kinds cs s)"

definition announce_model :: "chat_chunk \<Rightarrow> chat_state \<Rightarrow> stream_step" where
  "announce_model chunk s =
    (case chunk_model chunk of
       None \<Rightarrow> (Inr (), s)
     | Some m \<Rightarrow> if server_model s = Some m then (Inr (), s) else send_event (ServerModel m) (s\<lparr>server_model := Some m\<rparr>))"

definition announce_created :: "chat_state \<Rightarrow> stream_step" where
  "announce_created s = (if created_sent s then (Inr (), s) else send_event Created (s\<lparr>created_sent := True\<rparr>))"

definition handle_chunk :: "chat_libs \<Rightarrow> tool_kinds \<Rightarrow> chat_chunk \<Rightarrow> chat_state \<Rightarrow> stream_step" where
  "handle_chunk libs tool_kinds chunk s =
    (let s = (case chunk_id chunk of Some i \<Rightarrow> s\<lparr>response_id := i\<rparr> | None \<Rightarrow> s) in
     try_then (announce_model chunk s) (\<lambda>_ s.
     try_then (announce_created s) (\<lambda>_ s.
     (let s = (case chunk_usage chunk of Some u \<Rightarrow> s\<lparr>usage := Some u\<rparr> | None \<Rightarrow> s) in
      handle_choices libs tool_kinds (chunk_choices chunk) s))))"

subsection \<open>The loop\<close>

text \<open>What polling the stream gives: an event's data, an error, the end, or a timeout.\<close>

datatype sse_poll = SseData ustr | SseFailed ustr | SseEnd | SseTimeout

definition is_done :: "ustr \<Rightarrow> bool" where
  "is_done d \<longleftrightarrow> trim d = lit ''[DONE]''"

text \<open>
  A failed send or finalisation ends the loop without a further event (\<open>return\<close>). The stream
  ends with \<open>SseEnd\<close>; a list of polls that stops before is a stream that is still open.
\<close>

fun process_chat_sse :: "chat_libs \<Rightarrow> (ustr \<Rightarrow> ustr + chat_chunk) \<Rightarrow> tool_kinds \<Rightarrow> sse_poll list \<Rightarrow> chat_state \<Rightarrow> chat_state" where
  "process_chat_sse libs parse_chunk tool_kinds [] s = s"
| "process_chat_sse libs parse_chunk tool_kinds (SseFailed e # polls) s = send_error (StreamError e) s"
| "process_chat_sse libs parse_chunk tool_kinds (SseEnd # polls) s = snd (finalize_and_complete libs tool_kinds s)"
| "process_chat_sse libs parse_chunk tool_kinds (SseTimeout # polls) s =
    send_error (StreamError (lit ''idle timeout waiting for chat completions SSE'')) s"
| "process_chat_sse libs parse_chunk tool_kinds (SseData d # polls) s =
    (if is_done d then snd (finalize_and_complete libs tool_kinds s)
     else
       (case parse_chunk d of
          Inl e \<Rightarrow> send_error (StreamError (lit ''failed to parse chat completions chunk: '' @ e)) s
        | Inr chunk \<Rightarrow>
            (case handle_chunk libs tool_kinds chunk s of
               (Inl e, s) \<Rightarrow> s
             | (Inr _, s) \<Rightarrow> process_chat_sse libs parse_chunk tool_kinds polls s)))"

definition chat_events ::
    "chat_libs \<Rightarrow> (ustr \<Rightarrow> ustr + chat_chunk) \<Rightarrow> tool_kinds \<Rightarrow> nat option \<Rightarrow> sse_poll list \<Rightarrow> (api_error + response_event) list" where
  "chat_events libs parse_chunk tool_kinds limit polls =
    sent (tx_event (process_chat_sse libs parse_chunk tool_kinds polls (chat_state_new \<lparr>sent = [], room = limit\<rparr>)))"

end
