(* ===== verification/Chat_Protocol.thy ===== *)
theory Chat_Protocol
  imports Chat_Stream
begin

section \<open>The order of the events of a chat stream\<close>

text \<open>
  What a receiver may rely on: a model is announced when it changes, the response is created once
  and before any item, the deltas of an item lie between its start and its end, reasoning ends with
  the text that was streamed, a message with the text of all deltas so far, and nothing follows the
  completion or an error.
\<close>

record protocol =
  p_model :: "ustr option"
  p_created :: bool
  p_message :: bool
  p_text :: ustr
  p_reasoning :: bool
  p_thoughts :: ustr
  p_over :: bool

definition p_start :: protocol where
  "p_start = \<lparr>p_model = None, p_created = False, p_message = False, p_text = [], p_reasoning = False, p_thoughts = [],
     p_over = False\<rparr>"

definition p_added :: "protocol \<Rightarrow> json response_item \<Rightarrow> protocol option" where
  "p_added p item =
    (case item of
       Message i role content e ph \<Rightarrow>
         if p_created p \<and> \<not> p_message p \<and> role = lit ''assistant'' \<and> content = [OutputText []]
         then Some (p\<lparr>p_message := True\<rparr>) else None
     | Reasoning i summary content e \<Rightarrow>
         if p_created p \<and> \<not> p_reasoning p \<and> content = Some [ReasoningText []] then Some (p\<lparr>p_reasoning := True\<rparr>) else None
     | _ \<Rightarrow> None)"

definition p_done :: "protocol \<Rightarrow> json response_item \<Rightarrow> protocol option" where
  "p_done p item =
    (case item of
       Message i role content e ph \<Rightarrow>
         if p_message p \<and> role = lit ''assistant'' \<and> content = [OutputText (p_text p)]
         then Some (p\<lparr>p_message := False\<rparr>) else None
     | Reasoning i summary content e \<Rightarrow>
         if p_reasoning p \<and> content = Some [ReasoningText (p_thoughts p)]
         then Some (p\<lparr>p_reasoning := False, p_thoughts := []\<rparr>) else None
     | FunctionCall i n ns a c \<Rightarrow> if p_created p then Some p else None
     | CustomToolCall i st c n inp \<Rightarrow> if p_created p then Some p else None
     | _ \<Rightarrow> None)"

definition p_event :: "protocol \<Rightarrow> response_event \<Rightarrow> protocol option" where
  "p_event p e =
    (case e of
       Created \<Rightarrow> if p_created p then None else Some (p\<lparr>p_created := True\<rparr>)
     | ServerModel m \<Rightarrow> if p_model p = Some m then None else Some (p\<lparr>p_model := Some m\<rparr>)
     | OutputItemAdded item \<Rightarrow> p_added p item
     | OutputTextDelta t \<Rightarrow> if p_message p \<and> t \<noteq> [] then Some (p\<lparr>p_text := p_text p @ t\<rparr>) else None
     | ReasoningContentDelta t n \<Rightarrow> if p_reasoning p \<and> t \<noteq> [] then Some (p\<lparr>p_thoughts := p_thoughts p @ t\<rparr>) else None
     | OutputItemDone item \<Rightarrow> p_done p item
     | Completed i u \<Rightarrow> if p_message p \<or> p_reasoning p then None else Some (p\<lparr>p_over := True\<rparr>))"

definition p_step :: "protocol \<Rightarrow> api_error + response_event \<Rightarrow> protocol option" where
  "p_step p e = (if p_over p then None else (case e of Inl _ \<Rightarrow> Some (p\<lparr>p_over := True\<rparr>) | Inr e \<Rightarrow> p_event p e))"

fun follows :: "protocol \<Rightarrow> (api_error + response_event) list \<Rightarrow> protocol option" where
  "follows p [] = Some p"
| "follows p (e # es) = Option.bind (p_step p e) (\<lambda>p. follows p es)"

lemma follows_append: "follows p (xs @ ys) = Option.bind (follows p xs) (\<lambda>p. follows p ys)"
  by (induction xs arbitrary: p) (auto split: option.splits simp: bind_eq_None_conv split: bind_splits)

subsection \<open>Correspondence\<close>

definition p_view :: "chat_state \<Rightarrow> protocol" where
  "p_view s = \<lparr>p_model = server_model s, p_created = created_sent s, p_message = assistant_item_started s,
     p_text = assistant_text s, p_reasoning = reasoning_item_started s, p_thoughts = reasoning_content s, p_over = False\<rparr>"

definition received :: "chat_state \<Rightarrow> protocol option" where
  "received s = follows p_start (sent (tx_event s))"

definition in_step :: "bool \<Rightarrow> chat_state \<Rightarrow> bool" where
  "in_step c s \<longleftrightarrow> received s = Some (p_view s) \<and> (tool_calls s \<noteq> [] \<longrightarrow> created_sent s) \<and> (c \<longrightarrow> created_sent s)"

text \<open>A step that succeeds establishes \<open>Q\<close>; one that fails has sent a proper beginning.\<close>

definition leads :: "(chat_state \<Rightarrow> bool) \<Rightarrow> stream_step \<Rightarrow> bool" where
  "leads Q r \<longleftrightarrow> (case r of (Inr _, s) \<Rightarrow> Q s | (Inl _, s) \<Rightarrow> received s \<noteq> None)"

lemma leads_return [simp]: "leads Q (Inr a, s) \<longleftrightarrow> Q s"
  by (simp add: leads_def)

lemma leads_fail [simp]: "leads Q (Inl e, s) \<longleftrightarrow> received s \<noteq> None"
  by (simp add: leads_def)

lemma leads_then:
  "leads Q r \<Longrightarrow> (\<And>a s. Q s \<Longrightarrow> leads R (k a s)) \<Longrightarrow> leads R (try_then r k)"
  by (cases "(r, k)" rule: try_then.cases) auto

lemma leads_weaken: "leads Q r \<Longrightarrow> (\<And>s. Q s \<Longrightarrow> R s) \<Longrightarrow> leads R r"
  by (auto simp: leads_def split: sum.splits)

lemma received_cong: "tx_event s = tx_event t \<Longrightarrow> received s = received t"
  by (simp add: received_def)

lemma send_leads:
  assumes "received s = Some p" and "p_step p (Inr e) = Some q"
    and "\<And>c. received (s\<lparr>tx_event := c\<rparr>) = Some q \<Longrightarrow> Q (s\<lparr>tx_event := c\<rparr>)"
  shows "leads Q (send_event e s)"
  using assms by (auto simp: leads_def send_event_def send_def received_def follows_append)

lemma send_error_leads: "in_step c s \<Longrightarrow> received (send_error e s) \<noteq> None"
  by (auto simp: in_step_def send_error_def send_def received_def follows_append p_step_def p_view_def)

text \<open>A step that ends with a send of an event the receiver expects in the new state.\<close>

lemma send_in_step:
  assumes "received s = Some p" and "p_step p (Inr e) = Some (p_view s)"
    and "tool_calls s \<noteq> [] \<longrightarrow> created_sent s" and "c \<longrightarrow> created_sent s"
  shows "leads (in_step c) (send_event e s)"
  using assms by (intro send_leads [OF assms(1,2)]) (auto simp: in_step_def p_view_def)

lemma announce_model_leads: "in_step c s \<Longrightarrow> leads (in_step c) (announce_model chunk s)"
  by (auto simp: announce_model_def in_step_def p_step_def p_event_def p_view_def received_def
      split: option.splits intro!: send_in_step)

lemma announce_created_leads: "in_step False s \<Longrightarrow> leads (in_step True) (announce_created s)"
  by (auto simp: announce_created_def in_step_def p_step_def p_event_def p_view_def received_def
      intro!: send_in_step)

lemma handle_reasoning_leads:
  assumes "in_step True s" shows "leads (in_step True) (handle_reasoning d s)"
proof -
  have *: "leads (in_step True) (send_event (ReasoningContentDelta r 0) (s\<lparr>reasoning_content := reasoning_content s @ r\<rparr>))"
    if "in_step True s" "reasoning_item_started s" "r \<noteq> []" for r s
    using that by (auto simp: in_step_def p_step_def p_event_def p_view_def received_def intro!: send_in_step)
  have "leads (\<lambda>s. in_step True s \<and> reasoning_item_started s)
      (if \<not> reasoning_item_started s then
         send_event (OutputItemAdded (reasoning_item s [])) (s\<lparr>reasoning_item_started := True\<rparr>)
       else (Inr (), s))"
    using assms by (auto simp: in_step_def p_step_def p_event_def p_added_def p_view_def received_def reasoning_item_def
        intro!: send_leads)
  with * assms show ?thesis
    by (auto simp: handle_reasoning_def split: option.splits intro!: leads_then)
qed

lemma send_text_deltas_leads:
  "\<lbrakk>in_step True s; assistant_item_started s; \<forall>t\<in>set ts. t \<noteq> []\<rbrakk> \<Longrightarrow> leads (in_step True) (send_text_deltas ts s)"
proof (induction ts arbitrary: s)
  case (Cons t ts)
  have "leads (\<lambda>s. in_step True s \<and> assistant_item_started s)
      (send_event (OutputTextDelta t) (s\<lparr>assistant_text := assistant_text s @ t\<rparr>))"
    using Cons.prems by (auto simp: in_step_def p_step_def p_event_def p_view_def received_def intro!: send_leads)
  with Cons.IH Cons.prems(3) show ?case by (auto intro!: leads_then)
qed simp

lemma handle_content_leads:
  assumes "in_step True s" shows "leads (in_step True) (handle_content d s)"
proof -
  have e: "\<forall>t\<in>set (extract_text_deltas v). t \<noteq> []" for v by (simp add: extract_text_deltas_def)
  have "leads (\<lambda>s. in_step True s \<and> assistant_item_started s)
      (if \<not> assistant_item_started s then
         send_event (OutputItemAdded (message_item s [])) (s\<lparr>assistant_item_started := True\<rparr>)
       else (Inr (), s))"
    using assms by (auto simp: in_step_def p_step_def p_event_def p_added_def p_view_def received_def message_item_def
        intro!: send_leads)
  with assms e send_text_deltas_leads show ?thesis
    by (auto simp: handle_content_def Let_def split: option.splits intro!: leads_then)
qed

lemma finalize_assistant_message_leads:
  assumes "in_step c s"
  shows "leads (\<lambda>s'. in_step c s' \<and> \<not> assistant_item_started s' \<and> reasoning_item_started s' = reasoning_item_started s)
    (finalize_assistant_message s)"
proof (cases "assistant_item_started s")
  case True
  have "leads (\<lambda>s'. received s' = Some ((p_view s')\<lparr>p_message := False\<rparr>) \<and> (tool_calls s' \<noteq> [] \<longrightarrow> created_sent s')
      \<and> (c \<longrightarrow> created_sent s') \<and> reasoning_item_started s' = reasoning_item_started s) (send_event (OutputItemDone (message_item s (assistant_text s))) s)"
    using assms True by (auto simp: in_step_def p_step_def p_event_def p_done_def p_view_def message_item_def intro!: send_leads)
  with True show ?thesis
    by (auto simp: finalize_assistant_message_def in_step_def p_view_def received_def elim!: leads_then)
qed (use assms in \<open>simp add: finalize_assistant_message_def\<close>)

lemma finalize_reasoning_leads:
  assumes "in_step c s"
  shows "leads (\<lambda>s. in_step c s \<and> \<not> reasoning_item_started s) (finalize_reasoning s)"
proof (cases "reasoning_item_started s")
  case True
  have "leads (\<lambda>s. received s = Some ((p_view s)\<lparr>p_reasoning := False\<rparr>) \<and> (tool_calls s \<noteq> [] \<longrightarrow> created_sent s)
      \<and> (c \<longrightarrow> created_sent s))
      (send_event (OutputItemDone (reasoning_item s (reasoning_content s))) (s\<lparr>reasoning_content := []\<rparr>))"
    using assms True by (auto simp: in_step_def p_step_def p_event_def p_done_def p_view_def reasoning_item_def
        received_def intro!: send_leads)
  with True show ?thesis
    by (auto simp: finalize_reasoning_def in_step_def p_view_def received_def elim!: leads_then)
qed (use assms in \<open>simp add: finalize_reasoning_def\<close>)

subsection \<open>Tool calls\<close>

lemma call_item_done:
  "p_created p \<Longrightarrow> p_done p (call_item libs ks n c a) = Some p"
  by (auto simp: call_item_def p_done_def split: option.splits tool_output_kind.splits)

definition same_items :: "chat_state \<Rightarrow> chat_state \<Rightarrow> bool" where
  "same_items s s' \<longleftrightarrow> assistant_item_started s' = assistant_item_started s \<and> reasoning_item_started s' = reasoning_item_started s"

lemma finalize_tool_call_leads:
  assumes "in_step c s"
  shows "leads (\<lambda>s'. in_step c s' \<and> same_items s s') (finalize_tool_call libs ks s)"
proof -
  have r: "received (s\<lparr>tool_calls := x\<rparr>) = Some (p_view s)" for x using assms by (simp add: in_step_def received_def)
  have "leads (\<lambda>s'. in_step c s' \<and> same_items s s') (send_event (OutputItemDone (call_item libs ks n i a)) (s\<lparr>tool_calls := x\<rparr>))"
    if "created_sent s" for n i a x
    using that assms call_item_done
    by (intro send_leads [OF r]) (auto simp: in_step_def p_step_def p_event_def p_view_def same_items_def)
  moreover have "in_step c (s'\<lparr>finalized_tool_call_count := k\<rparr>) \<longleftrightarrow> in_step c s'"
    "same_items s (s'\<lparr>finalized_tool_call_count := k\<rparr>) \<longleftrightarrow> same_items s s'" for s' k
    by (simp_all add: in_step_def p_view_def same_items_def received_def)
  ultimately have step: "leads (\<lambda>s'. in_step c s' \<and> same_items s s')
      (try_then (send_event (OutputItemDone (call_item libs ks n i a)) (s\<lparr>tool_calls := x\<rparr>))
        (\<lambda>_ s. (Inr (), s\<lparr>finalized_tool_call_count := finalized_tool_call_count s + 1\<rparr>)))"
    if "created_sent s" for n i a x
    using that by (intro leads_then [where Q = "\<lambda>s'. in_step c s' \<and> same_items s s'"]) simp_all
  have "created_sent s" if "\<not> length (tool_calls s) \<le> k" for k using that assms by (auto simp: in_step_def)
  moreover have "received s \<noteq> None" using assms by (simp add: in_step_def)
  ultimately show ?thesis using step r by (simp add: finalize_tool_call_def Let_def split: option.split)
qed

lemma same_items_trans: "same_items s t \<Longrightarrow> same_items t u \<Longrightarrow> same_items s u"
  by (simp add: same_items_def)

lemma finalize_turns_leads:
  "in_step c s \<Longrightarrow> leads (\<lambda>s'. in_step c s' \<and> same_items s s') (finalize_turns libs ks n s)"
proof (induction n arbitrary: s)
  case 0
  then show ?case by (simp add: same_items_def)
next
  case (Suc n)
  have "leads (\<lambda>s'. in_step c s' \<and> same_items s s') (finalize_turns libs ks n t)" if "in_step c t" "same_items s t" for t
    by (rule leads_weaken [OF Suc.IH [OF that(1)]]) (use that(2) same_items_trans in blast)
  then show ?case by (auto intro!: leads_then [OF finalize_tool_call_leads [OF Suc.prems]])
qed

lemma finalize_tool_calls_leads:
  "in_step c s \<Longrightarrow> leads (\<lambda>s'. in_step c s' \<and> same_items s s') (finalize_tool_calls libs ks s)"
  unfolding finalize_tool_calls_def finalize_tool_calls_until_def
  by (rule leads_then [OF finalize_turns_leads], assumption) (simp add: in_step_def received_def p_view_def same_items_def)

lemma finalize_and_complete_leads:
  assumes "in_step c s" shows "leads (\<lambda>s. received s \<noteq> None) (finalize_and_complete libs ks s)"
proof -
  have c: "leads (\<lambda>s. received s \<noteq> None) (send_event (Completed i u) s)"
    if "in_step c s" "\<not> assistant_item_started s" "\<not> reasoning_item_started s" for s i u
  proof (rule send_leads)
    show "received s = Some (p_view s)" using that by (simp add: in_step_def)
    show "p_step (p_view s) (Inr (Completed i u)) = Some ((p_view s)\<lparr>p_over := True\<rparr>)"
      using that by (simp add: p_step_def p_event_def p_view_def)
  qed simp
  show ?thesis
    unfolding finalize_and_complete_def
  proof (rule leads_then [OF finalize_reasoning_leads [OF assms]])
    fix s assume s: "in_step c s \<and> \<not> reasoning_item_started s"
    show "leads (\<lambda>s. received s \<noteq> None)
        (try_then (finalize_assistant_message s) (\<lambda>_ s. try_then (finalize_tool_calls libs ks s)
          (\<lambda>_ s. send_event (Completed (response_id s) (map_option token_usage_of (usage s))) s)))"
    proof (rule leads_then [OF finalize_assistant_message_leads [OF conjunct1 [OF s]]])
      fix t assume t: "in_step c t \<and> \<not> assistant_item_started t \<and> reasoning_item_started t = reasoning_item_started s"
      show "leads (\<lambda>s. received s \<noteq> None) (try_then (finalize_tool_calls libs ks t)
          (\<lambda>_ s. send_event (Completed (response_id s) (map_option token_usage_of (usage s))) s))"
        by (rule leads_then [OF finalize_tool_calls_leads [OF conjunct1 [OF t]]])
          (use s t c in \<open>auto simp: same_items_def\<close>)
    qed
  qed
qed

lemma leads_received: "leads (\<lambda>s. received s \<noteq> None) r \<Longrightarrow> received (snd r) \<noteq> None"
  by (cases r; cases "fst r") auto

lemma finalize_keeps_in_step:
  assumes "in_step c s"
  shows "leads (in_step c) (finalize_reasoning s)" "leads (in_step c) (finalize_assistant_message s)"
    "leads (in_step c) (finalize_tool_calls libs ks s)" "leads (in_step c) (finalize_turns libs ks n s)"
  by (rule leads_weaken [OF finalize_reasoning_leads [OF assms]], simp)
    (rule leads_weaken [OF finalize_assistant_message_leads [OF assms]], simp,
     rule leads_weaken [OF finalize_tool_calls_leads [OF assms]], simp,
     rule leads_weaken [OF finalize_turns_leads [OF assms]], simp)

lemma handle_tool_call_leads:
  assumes "in_step True s" shows "leads (in_step True) (handle_tool_call libs ks d s)"
proof -
  have "leads (in_step True)
      (if starts_new_tool_call d i s then finalize_tool_calls_until libs ks i s else (Inr (), s))" for i
    using assms finalize_keeps_in_step [OF assms] by (simp add: finalize_tool_calls_until_def)
  moreover have "in_step True (s'\<lparr>tool_calls := x\<rparr>)" if "in_step True s'" for s' x
    using that by (simp add: in_step_def received_def p_view_def)
  ultimately show ?thesis
    unfolding handle_tool_call_def Let_def by (intro leads_then [where Q = "in_step True"]) simp_all
qed

lemma handle_tool_calls_leads: "in_step True s \<Longrightarrow> leads (in_step True) (handle_tool_calls libs ks ds s)"
  by (induction ds arbitrary: s) (auto intro: leads_then handle_tool_call_leads)

lemma handle_finish_leads:
  assumes "in_step True s" shows "leads (in_step True) (handle_finish libs ks r s)"
proof -
  have "leads (in_step True) (try_then (finalize_reasoning s) (\<lambda>_ s. try_then (finalize_assistant_message s)
      (\<lambda>_ s. finalize_tool_calls libs ks s)))"
    by (intro leads_then [where Q = "in_step True"] finalize_keeps_in_step assms)
  with assms show ?thesis by (simp add: handle_finish_def)
qed

lemma handle_choices_leads: "in_step True s \<Longrightarrow> leads (in_step True) (handle_choices libs ks cs s)"
proof (induction cs arbitrary: s)
  case (Cons c cs)
  have d: "leads (in_step True) (handle_delta libs ks d s)" for d
    unfolding handle_delta_def using Cons.prems handle_reasoning_leads handle_content_leads handle_tool_calls_leads
    by (intro leads_then [where Q = "in_step True"]) (auto split: option.splits)
  have "leads (in_step True) (handle_choice libs ks c s)"
    unfolding handle_choice_def using Cons.prems d handle_finish_leads
    by (intro leads_then [where Q = "in_step True"]) (auto split: option.splits)
  with Cons.IH show ?case by (auto intro: leads_then)
qed simp

lemma handle_chunk_leads:
  assumes "in_step c s" shows "leads (in_step True) (handle_chunk libs ks chunk s)"
proof -
  define t where "t = (case chunk_id chunk of Some i \<Rightarrow> s\<lparr>response_id := i\<rparr> | None \<Rightarrow> s)"
  have t: "in_step False t"
    using assms by (auto simp: t_def in_step_def received_def p_view_def split: option.splits)
  have u: "in_step True (case chunk_usage chunk of Some u \<Rightarrow> s\<lparr>usage := Some u\<rparr> | None \<Rightarrow> s)" if "in_step True s" for s
    using that by (auto simp: in_step_def received_def p_view_def split: option.splits)
  show ?thesis
    unfolding handle_chunk_def t_def [symmetric] Let_def
    by (rule leads_then [OF announce_model_leads [OF t]], rule leads_then [OF announce_created_leads], assumption)
      (rule handle_choices_leads [OF u])
qed

lemma process_chat_sse_follows:
  "in_step c s \<Longrightarrow> received (process_chat_sse libs parse ks polls s) \<noteq> None"
proof (induction libs parse ks polls s arbitrary: c rule: process_chat_sse.induct)
  case (1 libs parse ks s)
  then show ?case by (simp add: in_step_def)
next
  case (3 libs parse ks polls s)
  show ?case using leads_received [OF finalize_and_complete_leads [OF 3]] by simp
next
  case (5 libs parse ks d polls s)
  note f = leads_received [OF finalize_and_complete_leads [OF "5.prems", of libs ks]]
  show ?case
  proof (cases "is_done d")
    case True
    with f show ?thesis by simp
  next
    case False
    show ?thesis
    proof (cases "parse d")
      case (Inl e)
      with False send_error_leads [OF "5.prems"] show ?thesis by simp
    next
      case (Inr chunk)
      note h = handle_chunk_leads [OF "5.prems", of libs ks chunk]
      obtain r t where rt: "handle_chunk libs ks chunk s = (r, t)" by (cases "handle_chunk libs ks chunk s")
      show ?thesis
      proof (cases r)
        case (Inl e)
        with h rt False Inr show ?thesis by simp
      next
        case r: (Inr a)
        have "in_step True t" using h rt r by simp
        then have "received (process_chat_sse libs parse ks polls t) \<noteq> None"
          using "5.IH" [OF False Inr rt [symmetric] r] by blast
        with rt r False Inr show ?thesis by simp
      qed
    qed
  qed
qed (use send_error_leads in auto)

lemma chat_events_follow: "follows p_start (chat_events libs parse ks limit polls) \<noteq> None"
proof -
  have "in_step False (chat_state_new \<lparr>sent = [], room = limit\<rparr>)"
    by (simp add: in_step_def received_def p_view_def chat_state_new_def p_start_def)
  from process_chat_sse_follows [OF this] show ?thesis by (simp add: chat_events_def received_def)
qed

end
