(* ===== verification/Chat_Calls.thy ===== *)
theory Chat_Calls
  imports Chat_Stream
begin

section \<open>The tool calls of a chat stream\<close>

text \<open>
  The specification: the fragments are put together call by call, and a call is passed on when it
  is complete. It does not say when; the stream passes a call on when the next one starts.
\<close>

datatype call_step = Fragment tool_call_delta | CallsFinished

definition choice_steps :: "choice \<Rightarrow> call_step list" where
  "choice_steps c =
    (case choice_delta c of Some d \<Rightarrow> (case delta_tool_calls d of Some ds \<Rightarrow> map Fragment ds | None \<Rightarrow> []) | None \<Rightarrow> [])
    @ (if finish_reason c = Some (lit ''tool_calls'') then [CallsFinished] else [])"

definition chunk_steps :: "chat_chunk \<Rightarrow> call_step list" where
  "chunk_steps chunk = concat (map choice_steps (chunk_choices chunk))"

record gathered_calls =
  finished :: "partial_tool_call list"
  current :: "partial_tool_call list"

definition no_calls :: gathered_calls where
  "no_calls = \<lparr>finished = [], current = []\<rparr>"

definition fragment_index :: "tool_call_delta \<Rightarrow> gathered_calls \<Rightarrow> nat" where
  "fragment_index d g = (case td_index d of Some i \<Rightarrow> i | None \<Rightarrow> length (current g) - 1)"

text \<open>A fragment belongs to the last call or starts the next one; anything else is out of order.\<close>

fun gather_step :: "call_step \<Rightarrow> gathered_calls \<Rightarrow> gathered_calls option" where
  "gather_step (Fragment d) g =
    (let i = fragment_index d g in
     if i = length (current g) then Some (g\<lparr>current := current g @ [extend_partial d partial_default]\<rparr>)
     else if Suc i = length (current g) then Some (g\<lparr>current := (current g)[i := extend_partial d (current g ! i)]\<rparr>)
     else None)"
| "gather_step CallsFinished g = Some \<lparr>finished = finished g @ current g, current = []\<rparr>"

fun gather :: "call_step list \<Rightarrow> gathered_calls \<Rightarrow> gathered_calls option" where
  "gather [] g = Some g"
| "gather (x # xs) g = Option.bind (gather_step x g) (gather xs)"

definition all_calls :: "gathered_calls \<Rightarrow> partial_tool_call list" where
  "all_calls g = finished g @ current g"

definition all_named :: "partial_tool_call list \<Rightarrow> bool" where
  "all_named ps \<longleftrightarrow> list_all (\<lambda>p. part_name p \<noteq> None) ps"

text \<open>The items of the calls, up to the first without a name.\<close>

fun call_items :: "chat_libs \<Rightarrow> tool_kinds \<Rightarrow> partial_tool_call list \<Rightarrow> json response_item list" where
  "call_items libs ks [] = []"
| "call_items libs ks (p # ps) =
    (case part_name p of
       None \<Rightarrow> []
     | Some n \<Rightarrow> call_item libs ks n (case part_id p of Some i \<Rightarrow> i | None \<Rightarrow> default_call_id n) (part_arguments p)
         # call_items libs ks ps)"

lemma all_named_simps [simp]:
  "all_named []" "all_named (p # ps) \<longleftrightarrow> part_name p \<noteq> None \<and> all_named ps"
  "all_named (ps @ qs) \<longleftrightarrow> all_named ps \<and> all_named qs"
  by (simp_all add: all_named_def)

lemma call_items_append:
  "call_items libs ks (ps @ qs) = call_items libs ks ps @ (if all_named ps then call_items libs ks qs else [])"
  by (induction ps) (auto split: option.splits)

lemma gather_append: "gather (xs @ ys) g = Option.bind (gather xs g) (gather ys)"
  by (induction xs arbitrary: g) (auto split: bind_splits)

text \<open>Calls that no later fragment can change.\<close>

definition settled_calls :: "gathered_calls \<Rightarrow> partial_tool_call list" where
  "settled_calls g = finished g @ butlast (current g)"

lemma butlast_update_last: "Suc i = length xs \<Longrightarrow> butlast (xs[i := x]) = butlast xs"
  by (simp add: butlast_conv_take take_update_cancel)

lemma gather_step_settled: "gather_step x g = Some g' \<Longrightarrow> \<exists>ys. settled_calls g' = settled_calls g @ ys"
proof (induction x g rule: gather_step.induct)
  case (1 d g)
  have "\<exists>ys. current g = butlast (current g) @ ys" by (cases "current g" rule: rev_cases) auto
  then show ?case
    using 1 by (auto simp: settled_calls_def Let_def butlast_update_last split: if_splits)
next
  case (2 g)
  have "\<exists>ys. current g = butlast (current g) @ ys" by (cases "current g" rule: rev_cases) auto
  with 2 show ?case by (auto simp: settled_calls_def)
qed

lemma gather_settled: "gather xs g = Some g' \<Longrightarrow> \<exists>ys. settled_calls g' = settled_calls g @ ys"
proof (induction xs arbitrary: g)
  case (Cons x xs)
  then obtain g1 where g1: "gather_step x g = Some g1" "gather xs g1 = Some g'" by (auto simp: bind_eq_Some_conv)
  from gather_step_settled [OF g1(1)] Cons.IH [OF g1(2)] show ?case by auto
qed simp

lemma all_calls_settled: "\<exists>ys. all_calls g = settled_calls g @ ys"
  by (cases "current g" rule: rev_cases) (auto simp: all_calls_def settled_calls_def)

subsection \<open>What was sent\<close>

fun is_call :: "json response_item \<Rightarrow> bool" where
  "is_call (FunctionCall i n ns a c) = True"
| "is_call (CustomToolCall i st c n inp) = True"
| "is_call _ = False"

fun event_call :: "api_error + response_event \<Rightarrow> json response_item option" where
  "event_call (Inr (OutputItemDone item)) = (if is_call item then Some item else None)"
| "event_call _ = None"

fun ending :: "api_error + response_event \<Rightarrow> bool" where
  "ending (Inl e) = True"
| "ending (Inr (Completed i u)) = True"
| "ending _ = False"

definition calls_in :: "(api_error + response_event) list \<Rightarrow> json response_item list" where
  "calls_in es = List.map_filter event_call es"

lemma calls_in_simps [simp]:
  "calls_in [] = []" "calls_in (es @ fs) = calls_in es @ calls_in fs"
  "calls_in (e # es) = (case event_call e of Some i \<Rightarrow> i # calls_in es | None \<Rightarrow> calls_in es)"
  by (simp_all add: calls_in_def List.map_filter_def split: option.split)

lemma call_item_is_call [simp]: "is_call (call_item libs ks n c a)"
  by (auto simp: call_item_def split: option.splits tool_output_kind.splits)

text \<open>A receiver that stays.\<close>

abbreviation events_of :: "chat_state \<Rightarrow> (api_error + response_event) list" where
  "events_of s \<equiv> sent (tx_event s)"

abbreviation open_to_all :: "chat_state \<Rightarrow> bool" where
  "open_to_all s \<equiv> room (tx_event s) = None"

lemma send_event_open [simp]:
  "open_to_all s \<Longrightarrow> send_event e s = (Inr (), s\<lparr>tx_event := (tx_event s)\<lparr>sent := events_of s @ [Inr e]\<rparr>\<rparr>)"
  by (simp add: send_event_def send_def)

text \<open>Steps that neither send nor gather calls.\<close>

definition apart :: "chat_state \<Rightarrow> chat_state \<Rightarrow> bool" where
  "apart s t \<longleftrightarrow> open_to_all t \<and> calls_in (events_of t) = calls_in (events_of s)
    \<and> filter ending (events_of t) = filter ending (events_of s) \<and> tool_calls t = tool_calls s
    \<and> finalized_tool_call_count t = finalized_tool_call_count s"

definition calm :: "chat_state \<Rightarrow> stream_step \<Rightarrow> bool" where
  "calm s r \<longleftrightarrow> (\<exists>t. r = (Inr (), t) \<and> apart s t)"

lemma apart_refl: "open_to_all s \<Longrightarrow> apart s s"
  by (simp add: apart_def)

lemma calm_return [simp]: "calm s (Inr (), t) \<longleftrightarrow> apart s t"
  by (simp add: calm_def)

lemma calm_then: "calm s r \<Longrightarrow> (\<And>a t. apart s t \<Longrightarrow> calm s (k a t)) \<Longrightarrow> calm s (try_then r k)"
  by (auto simp: calm_def)

lemma announce_model_calm: "apart s t \<Longrightarrow> calm s (announce_model chunk t)"
  by (auto simp: announce_model_def apart_def split: option.splits)

lemma announce_created_calm: "apart s t \<Longrightarrow> calm s (announce_created t)"
  by (auto simp: announce_created_def apart_def)

lemma handle_reasoning_calm: "apart s t \<Longrightarrow> calm s (handle_reasoning d t)"
  by (auto simp: handle_reasoning_def apart_def split: option.splits)

lemma send_text_deltas_calm: "apart s t \<Longrightarrow> calm s (send_text_deltas ts t)"
  by (induction ts arbitrary: t) (auto simp: apart_def)

lemma handle_content_calm: "apart s t \<Longrightarrow> calm s (handle_content d t)"
  by (auto simp: handle_content_def apart_def Let_def split: option.splits intro!: send_text_deltas_calm)

lemma finalize_reasoning_calm: "apart s t \<Longrightarrow> calm s (finalize_reasoning t)"
  by (auto simp: finalize_reasoning_def apart_def reasoning_item_def)

lemma finalize_assistant_message_calm: "apart s t \<Longrightarrow> calm s (finalize_assistant_message t)"
  by (auto simp: finalize_assistant_message_def apart_def message_item_def)

subsection \<open>Finalisation against the specification\<close>

text \<open>The first \<open>k\<close> of the calls \<open>cs\<close> have been sent, after those in \<open>b\<close>.\<close>

definition sent_until ::
    "chat_libs \<Rightarrow> tool_kinds \<Rightarrow> partial_tool_call list \<Rightarrow> partial_tool_call list \<Rightarrow> nat \<Rightarrow> chat_state \<Rightarrow> bool" where
  "sent_until libs ks b cs k s \<longleftrightarrow>
     open_to_all s \<and> filter ending (events_of s) = [] \<and> all_named (b @ take k cs)
   \<and> calls_in (events_of s) = call_items libs ks (b @ take k cs)
   \<and> finalized_tool_call_count s = k \<and> k \<le> length cs \<and> tool_calls s = replicate k partial_default @ drop k cs"

text \<open>The stream stopped at a call without a name.\<close>

definition stopped ::
    "chat_libs \<Rightarrow> tool_kinds \<Rightarrow> partial_tool_call list \<Rightarrow> chat_state \<Rightarrow> bool" where
  "stopped libs ks ps s \<longleftrightarrow> filter ending (events_of s) = [] \<and> \<not> all_named ps
     \<and> calls_in (events_of s) = call_items libs ks ps"

lemma stopped_append: "stopped libs ks ps s \<Longrightarrow> stopped libs ks (ps @ qs) s"
  by (simp add: stopped_def call_items_append)

lemma sent_until_apart: "sent_until libs ks b cs k s \<Longrightarrow> apart s t \<Longrightarrow> sent_until libs ks b cs k t"
  by (simp add: sent_until_def apart_def)

definition result ::
    "chat_libs \<Rightarrow> tool_kinds \<Rightarrow> partial_tool_call list \<Rightarrow> (chat_state \<Rightarrow> bool) \<Rightarrow> stream_step \<Rightarrow> bool" where
  "result libs ks ps Q r \<longleftrightarrow> (case r of (Inr _, s) \<Rightarrow> Q s | (Inl _, s) \<Rightarrow> stopped libs ks ps s)"

lemma result_simps [simp]:
  "result libs ks ps Q (Inr a, s) \<longleftrightarrow> Q s" "result libs ks ps Q (Inl e, s) \<longleftrightarrow> stopped libs ks ps s"
  by (simp_all add: result_def)

lemma result_then:
  "result libs ks ps Q r \<Longrightarrow> (\<And>a s. Q s \<Longrightarrow> result libs ks ps R (k a s)) \<Longrightarrow> result libs ks ps R (try_then r k)"
  by (cases "(r, k)" rule: try_then.cases) auto

lemma result_weaken:
  "result libs ks ps Q r \<Longrightarrow> (\<And>s. Q s \<Longrightarrow> R s) \<Longrightarrow> result libs ks (ps @ qs) R r"
  by (auto simp: result_def stopped_append split: sum.splits)

lemma calm_result: "calm s r \<Longrightarrow> (\<And>t. apart s t \<Longrightarrow> Q t) \<Longrightarrow> result libs ks ps Q r"
  by (auto simp: calm_def)

lemma finalize_tool_call_result:
  assumes "sent_until libs ks b cs k s" and "k < length cs"
  shows "result libs ks (b @ take (Suc k) cs) (sent_until libs ks b cs (Suc k)) (finalize_tool_call libs ks s)"
proof -
  note s = assms(1) [unfolded sent_until_def]
  have len: "\<not> length (tool_calls s) \<le> finalized_tool_call_count s" using s assms(2) by simp
  have nth: "tool_calls s ! finalized_tool_call_count s = cs ! k" using s assms(2) by (simp add: nth_append)
  have take: "take (Suc k) cs = take k cs @ [cs ! k]" using assms(2) by (simp add: take_Suc_conv_app_nth)
  have upd: "(tool_calls s)[k := partial_default] = replicate (Suc k) partial_default @ drop (Suc k) cs"
    using s assms(2) by (simp add: list_update_append Cons_nth_drop_Suc [symmetric] replicate_app_Cons_same)
  show ?thesis
  proof (cases "part_name (cs ! k)")
    case None
    with s len nth take show ?thesis
      by (simp add: finalize_tool_call_def Let_def stopped_def call_items_append)
  next
    case (Some n)
    with s len nth take upd assms(2) show ?thesis
      by (simp add: finalize_tool_call_def Let_def sent_until_def call_items_append)
  qed
qed

lemma finalize_turns_result:
  "\<lbrakk>sent_until libs ks b cs k s; k + n \<le> length cs\<rbrakk> \<Longrightarrow>
    result libs ks (b @ take (k + n) cs) (sent_until libs ks b cs (k + n)) (finalize_turns libs ks n s)"
proof (induction n arbitrary: k s)
  case (Suc n)
  have "\<exists>qs. take (k + Suc n) cs = take (Suc k) cs @ qs" by (metis add_Suc_right add_Suc take_add)
  then obtain qs where qs: "take (k + Suc n) cs = take (Suc k) cs @ qs" by blast
  have "result libs ks ((b @ take (Suc k) cs) @ qs) (sent_until libs ks b cs (Suc k)) (finalize_tool_call libs ks s)"
    using Suc.prems by (intro result_weaken [OF finalize_tool_call_result]) auto
  then have "result libs ks (b @ take (k + Suc n) cs) (sent_until libs ks b cs (Suc k)) (finalize_tool_call libs ks s)"
    by (simp only: qs append_assoc)
  moreover have "result libs ks (b @ take (k + Suc n) cs) (sent_until libs ks b cs (k + Suc n)) (finalize_turns libs ks n t)"
    if "sent_until libs ks b cs (Suc k) t" for t
    using Suc.IH [OF that] Suc.prems(2) by simp
  ultimately show ?case by (auto intro: result_then)
qed simp

subsection \<open>The stream against the specification\<close>

definition tracks :: "chat_libs \<Rightarrow> tool_kinds \<Rightarrow> gathered_calls \<Rightarrow> chat_state \<Rightarrow> bool" where
  "tracks libs ks g s \<longleftrightarrow>
    (\<exists>k. sent_until libs ks (finished g) (current g) k s \<and> (k = 0 \<or> k < length (current g)))"

lemma tracks_apart: "tracks libs ks g s \<Longrightarrow> apart s t \<Longrightarrow> tracks libs ks g t"
  unfolding tracks_def using sent_until_apart by blast

lemma tracks_open: "tracks libs ks g s \<Longrightarrow> apart s s"
  by (auto simp: tracks_def sent_until_def intro: apart_refl)

lemma gathered_then:
  assumes "result libs ks (settled_calls g) (tracks libs ks g) r" and "gather xs g = Some g'"
    and "\<And>a s. tracks libs ks g s \<Longrightarrow> result libs ks (settled_calls g') (tracks libs ks g') (k a s)"
  shows "result libs ks (settled_calls g') (tracks libs ks g') (try_then r k)"
proof -
  obtain ys where "settled_calls g' = settled_calls g @ ys" using gather_settled [OF assms(2)] by blast
  then have "result libs ks (settled_calls g') (tracks libs ks g) r" using result_weaken [OF assms(1)] by simp
  then show ?thesis using assms(3) by (rule result_then)
qed

lemma store_fragment:
  assumes s: "sent_until libs ks b cs j s" and "j \<le> i"
    and cs': "i = length cs \<and> cs' = cs @ [extend_partial d partial_default]
      \<or> Suc i = length cs \<and> cs' = cs[i := extend_partial d (cs ! i)]"
  shows "sent_until libs ks b cs' j
      (s\<lparr>tool_calls := (ensure_partial_tool_call i (tool_calls s))[i := extend_partial d (ensure_partial_tool_call i (tool_calls s) ! i)]\<rparr>)
    \<and> j < length cs'"
  using cs'
proof (elim disjE conjE)
  assume i: "i = length cs" and c: "cs' = cs @ [extend_partial d partial_default]"
  have t: "tool_calls s = replicate j partial_default @ drop j cs" "j \<le> length cs" using s by (simp_all add: sent_until_def)
  have "ensure_partial_tool_call i (tool_calls s) = tool_calls s @ [partial_default]" "length (tool_calls s) = i"
    using t i by (simp_all add: ensure_partial_tool_call_def)
  with s t c show ?thesis by (simp add: sent_until_def list_update_append nth_append)
next
  assume i: "Suc i = length cs" and c: "cs' = cs[i := extend_partial d (cs ! i)]"
  have t: "tool_calls s = replicate j partial_default @ drop j cs" "j \<le> length cs" using s by (simp_all add: sent_until_def)
  have e: "ensure_partial_tool_call i (tool_calls s) = tool_calls s" using t i by (simp add: ensure_partial_tool_call_def)
  have "tool_calls s ! i = cs ! i" using t i assms(2) by (simp add: nth_append)
  moreover have "(tool_calls s)[i := x] = replicate j partial_default @ drop j (cs[i := x])" for x
    using t i assms(2) by (simp add: list_update_append drop_update_swap)
  ultimately show ?thesis using s e i c assms(2) by (simp add: sent_until_def)
qed

lemma handle_tool_call_result:
  assumes s: "tracks libs ks g s" and g': "gather_step (Fragment d) g = Some g'"
  shows "result libs ks (settled_calls g') (tracks libs ks g') (handle_tool_call libs ks d s)"
proof -
  obtain k where k: "sent_until libs ks (finished g) (current g) k s" "k = 0 \<or> k < length (current g)"
    using s by (auto simp: tracks_def)
  define i where "i = fragment_index d g"
  have di: "delta_index d s = i" "k = finalized_tool_call_count s"
    using k by (auto simp: i_def delta_index_def fragment_index_def sent_until_def split: option.splits)
  have f: "finished g' = finished g"
    and cs': "i = length (current g) \<and> current g' = current g @ [extend_partial d partial_default]
      \<or> Suc i = length (current g) \<and> current g' = (current g)[i := extend_partial d (current g ! i)]"
    using g' by (auto simp: Let_def i_def split: if_splits)
  have i: "k \<le> i" "i \<le> length (current g)" using k(2) cs' by auto
  have settled: "settled_calls g' = finished g @ take i (current g)"
  proof -
    have "length (current g) - Suc 0 = i" if "Suc i = length (current g)" using that by simp
    with cs' f show ?thesis by (auto simp: settled_calls_def butlast_conv_take take_update_cancel)
  qed
  let ?Q = "\<lambda>t. \<exists>j\<le>i. sent_until libs ks (finished g) (current g) j t"
  have "result libs ks (settled_calls g') ?Q (finalize_tool_calls_until libs ks i s)"
    using finalize_turns_result [OF k(1), of "i - k"] i settled di(2)
    by (auto simp: finalize_tool_calls_until_def dest: result_weaken [where qs = "[]" and R = ?Q])
  then have "result libs ks (settled_calls g') ?Q
      (if starts_new_tool_call d i s then finalize_tool_calls_until libs ks i s else (Inr (), s))"
    using k(1) i(1) by auto
  then show ?thesis
    unfolding handle_tool_call_def Let_def di(1)
  proof (rule result_then)
    fix t assume "?Q t"
    then obtain j where j: "j \<le> i" "sent_until libs ks (finished g) (current g) j t" by blast
    from store_fragment [OF j(2,1) cs'] f
    show "result libs ks (settled_calls g') (tracks libs ks g') (Inr (), t\<lparr>tool_calls :=
        (ensure_partial_tool_call i (tool_calls t))[i := extend_partial d (ensure_partial_tool_call i (tool_calls t) ! i)]\<rparr>)"
      by (auto simp: tracks_def)
  qed
qed

lemma handle_tool_calls_result:
  "\<lbrakk>tracks libs ks g s; gather (map Fragment ds) g = Some g'\<rbrakk> \<Longrightarrow>
    result libs ks (settled_calls g') (tracks libs ks g') (handle_tool_calls libs ks ds s)"
proof (induction ds arbitrary: g s)
  case (Cons d ds)
  then obtain g1 where g1: "gather_step (Fragment d) g = Some g1" "gather (map Fragment ds) g1 = Some g'"
    by (auto simp: bind_eq_Some_conv simp del: gather_step.simps)
  from gathered_then [OF handle_tool_call_result [OF Cons.prems(1) g1(1)] g1(2)] Cons.IH [OF _ g1(2)]
  show ?case by simp
qed simp

lemma finalize_tool_calls_result:
  assumes "tracks libs ks g s"
  shows "result libs ks (all_calls g) (sent_until libs ks (all_calls g) [] 0) (finalize_tool_calls libs ks s)"
proof -
  obtain k where k: "sent_until libs ks (finished g) (current g) k s" using assms by (auto simp: tracks_def)
  then have "length (tool_calls s) = length (current g)" "finalized_tool_call_count s = k" "k \<le> length (current g)"
    by (auto simp: sent_until_def)
  with finalize_turns_result [OF k, of "length (current g) - k"] show ?thesis
    unfolding finalize_tool_calls_def finalize_tool_calls_until_def
    by (auto simp: all_calls_def sent_until_def elim!: result_then)
qed

lemma handle_finish_result:
  assumes "tracks libs ks g s"
    and "g' = (if reason = Some (lit ''tool_calls'') then \<lparr>finished = all_calls g, current = []\<rparr> else g)"
  shows "result libs ks (settled_calls g') (tracks libs ks g') (handle_finish libs ks reason s)"
proof (cases "reason = Some (lit ''tool_calls'')")
  case True
  then have g': "settled_calls g' = all_calls g" "sent_until libs ks (all_calls g) [] 0 t \<Longrightarrow> tracks libs ks g' t" for t
    using assms(2) by (simp_all add: settled_calls_def tracks_def)
  have c: "result libs ks (all_calls g) (tracks libs ks g') (finalize_tool_calls libs ks t)" if "tracks libs ks g t" for t
    using result_weaken [where qs = "[]", OF finalize_tool_calls_result [OF that] g'(2)] by simp
  have m: "result libs ks (all_calls g) (tracks libs ks g) (finalize_assistant_message t)" if "tracks libs ks g t" for t
    using that by (auto intro: calm_result finalize_assistant_message_calm tracks_open tracks_apart)
  have r: "result libs ks (all_calls g) (tracks libs ks g) (finalize_reasoning s)"
    using assms(1) by (auto intro: calm_result finalize_reasoning_calm tracks_open tracks_apart)
  show ?thesis unfolding g'(1) handle_finish_def using True m c by (auto intro!: result_then [OF r] result_then [OF m] c)
qed (use assms in \<open>simp add: handle_finish_def\<close>)

lemma handle_choice_result:
  assumes "tracks libs ks g s" and "gather (choice_steps c) g = Some g'"
  shows "result libs ks (settled_calls g') (tracks libs ks g') (handle_choice libs ks c s)"
proof -
  let ?ds = "case choice_delta c of Some d \<Rightarrow> (case delta_tool_calls d of Some ds \<Rightarrow> ds | None \<Rightarrow> []) | None \<Rightarrow> []"
  let ?fin = "if finish_reason c = Some (lit ''tool_calls'') then [CallsFinished] else []"
  have "choice_steps c = map Fragment ?ds @ ?fin" by (auto simp: choice_steps_def split: option.split)
  with assms(2) obtain g1 where g1: "gather (map Fragment ?ds) g = Some g1" "gather ?fin g1 = Some g'"
    by (auto simp: gather_append bind_eq_Some_conv)
  have g': "g' = (if finish_reason c = Some (lit ''tool_calls'') then \<lparr>finished = all_calls g1, current = []\<rparr> else g1)"
    using g1(2) by (auto simp: all_calls_def split: if_splits)
  have "result libs ks (settled_calls g1) (tracks libs ks g1)
      (case choice_delta c of Some d \<Rightarrow> handle_delta libs ks d s | None \<Rightarrow> (Inr (), s))"
  proof (cases "choice_delta c")
    case None
    with assms(1) g1(1) show ?thesis by simp
  next
    case (Some d)
    have h: "result libs ks (settled_calls g1) (tracks libs ks g)
        (handle_reasoning d s)"
      using assms(1) by (auto intro: calm_result handle_reasoning_calm tracks_open tracks_apart)
    have m: "result libs ks (settled_calls g1) (tracks libs ks g) (handle_content d t)" if "tracks libs ks g t" for t
      using that by (auto intro: calm_result handle_content_calm tracks_open tracks_apart)
    have c: "result libs ks (settled_calls g1) (tracks libs ks g1)
        (case delta_tool_calls d of Some ds \<Rightarrow> handle_tool_calls libs ks ds t | None \<Rightarrow> (Inr (), t))" if "tracks libs ks g t" for t
      using handle_tool_calls_result [OF that] g1(1) that Some by (auto split: option.splits)
    show ?thesis unfolding Some option.case handle_delta_def
      by (rule result_then [OF h], rule result_then [OF m], assumption, rule c)
  qed
  from this g1(2) show ?thesis
    unfolding handle_choice_def by (rule gathered_then) (rule handle_finish_result [OF _ g'])
qed

lemma handle_choices_result:
  "\<lbrakk>tracks libs ks g s; gather (concat (map choice_steps cs)) g = Some g'\<rbrakk> \<Longrightarrow>
    result libs ks (settled_calls g') (tracks libs ks g') (handle_choices libs ks cs s)"
proof (induction cs arbitrary: g s)
  case (Cons c cs)
  then obtain g1 where g1: "gather (choice_steps c) g = Some g1" "gather (concat (map choice_steps cs)) g1 = Some g'"
    by (auto simp: gather_append bind_eq_Some_conv)
  from gathered_then [OF handle_choice_result [OF Cons.prems(1) g1(1)] g1(2)] Cons.IH [OF _ g1(2)]
  show ?case by simp
qed simp

lemma handle_chunk_result:
  assumes "tracks libs ks g s" and "gather (chunk_steps chunk) g = Some g'"
  shows "result libs ks (settled_calls g') (tracks libs ks g') (handle_chunk libs ks chunk s)"
proof -
  define t where "t = (case chunk_id chunk of Some i \<Rightarrow> s\<lparr>response_id := i\<rparr> | None \<Rightarrow> s)"
  have t: "tracks libs ks g t"
    using assms(1) by (auto simp: t_def tracks_def sent_until_def split: option.splits)
  have u: "tracks libs ks g (case chunk_usage chunk of Some u \<Rightarrow> s\<lparr>usage := Some u\<rparr> | None \<Rightarrow> s)" if "tracks libs ks g s" for s
    using that by (auto simp: tracks_def sent_until_def split: option.splits)
  have m: "result libs ks (settled_calls g') (tracks libs ks g) (announce_model chunk t)"
    using t by (auto intro: calm_result announce_model_calm tracks_open tracks_apart)
  have c: "result libs ks (settled_calls g') (tracks libs ks g) (announce_created t)" if "tracks libs ks g t" for t
    using that by (auto intro: calm_result announce_created_calm tracks_open tracks_apart)
  show ?thesis
    unfolding handle_chunk_def t_def [symmetric] Let_def
    by (rule result_then [OF m], rule result_then [OF c], assumption)
      (rule handle_choices_result [OF u], assumption, rule assms(2) [unfolded chunk_steps_def])
qed

subsection \<open>The whole stream\<close>

text \<open>What the receiver has when the stream has ended.\<close>

definition delivered :: "chat_libs \<Rightarrow> tool_kinds \<Rightarrow> partial_tool_call list \<Rightarrow> (api_error + response_event) list \<Rightarrow> bool" where
  "delivered libs ks calls es \<longleftrightarrow> calls_in es = call_items libs ks calls
    \<and> (if all_named calls then \<exists>i u. filter ending es = [Inr (Completed i u)] else filter ending es = [])"

lemma stopped_delivered: "stopped libs ks ps s \<Longrightarrow> \<exists>ys. qs = ps @ ys \<Longrightarrow> delivered libs ks qs (events_of s)"
  by (auto simp: stopped_def delivered_def call_items_append)

lemma finalize_and_complete_delivered:
  assumes "tracks libs ks g s"
  shows "delivered libs ks (all_calls g) (events_of (snd (finalize_and_complete libs ks s)))"
proof -
  have r: "result libs ks (all_calls g) (tracks libs ks g) (finalize_reasoning s)"
    using assms by (auto intro: calm_result finalize_reasoning_calm tracks_open tracks_apart)
  have m: "result libs ks (all_calls g) (tracks libs ks g) (finalize_assistant_message t)" if "tracks libs ks g t" for t
    using that by (auto intro: calm_result finalize_assistant_message_calm tracks_open tracks_apart)
  let ?Q = "\<lambda>t. delivered libs ks (all_calls g) (events_of t)"
  have c: "result libs ks (all_calls g) ?Q (send_event (Completed i u) t)"
    if "sent_until libs ks (all_calls g) [] 0 t" for t i u
    using that by (simp add: sent_until_def delivered_def)
  have "result libs ks (all_calls g) ?Q (finalize_and_complete libs ks s)"
    unfolding finalize_and_complete_def
    by (rule result_then [OF r], rule result_then [OF m], assumption,
        rule result_then [OF finalize_tool_calls_result], assumption, rule c)
  moreover have "?Q t" if "stopped libs ks (all_calls g) t" for t using stopped_delivered [OF that] by blast
  ultimately show ?thesis
    by (cases "finalize_and_complete libs ks s"; cases "fst (finalize_and_complete libs ks s)") auto
qed

lemma process_chat_sse_delivers:
  "\<lbrakk>tracks libs ks g s; gather (concat (map chunk_steps chunks)) g = Some g';
    list_all2 (\<lambda>d c. \<not> is_done d \<and> parse d = Inr c) ds chunks; e = SseEnd \<or> (\<exists>d. e = SseData d \<and> is_done d)\<rbrakk> \<Longrightarrow>
    delivered libs ks (all_calls g') (events_of (process_chat_sse libs parse ks (map SseData ds @ [e]) s))"
proof (induction chunks arbitrary: g s ds)
  case Nil
  then show ?case using finalize_and_complete_delivered [OF Nil.prems(1)] by auto
next
  case (Cons chunk chunks)
  then obtain d ds' where d: "ds = d # ds'" "\<not> is_done d" "parse d = Inr chunk"
    "list_all2 (\<lambda>d c. \<not> is_done d \<and> parse d = Inr c) ds' chunks" by (auto simp: list_all2_Cons2)
  from Cons.prems(2) obtain g1 where g1: "gather (chunk_steps chunk) g = Some g1"
    "gather (concat (map chunk_steps chunks)) g1 = Some g'" by (auto simp: gather_append bind_eq_Some_conv)
  from handle_chunk_result [OF Cons.prems(1) g1(1)]
  have r: "result libs ks (settled_calls g1) (tracks libs ks g1) (handle_chunk libs ks chunk s)" .
  obtain v t where vt: "handle_chunk libs ks chunk s = (v, t)" by (cases "handle_chunk libs ks chunk s")
  show ?case
  proof (cases v)
    case (Inl err)
    with r vt have "stopped libs ks (settled_calls g1) t" by simp
    moreover obtain xs ys where "settled_calls g' = settled_calls g1 @ xs" "all_calls g' = settled_calls g' @ ys"
      using gather_settled [OF g1(2)] all_calls_settled [of g'] by blast
    ultimately have "delivered libs ks (all_calls g') (events_of t)" by (intro stopped_delivered) auto
    with d vt Inl show ?thesis by simp
  next
    case (Inr u)
    with r vt have "tracks libs ks g1 t" by simp
    from Cons.IH [OF this g1(2) d(4) Cons.prems(4)] d vt Inr show ?thesis by simp
  qed
qed

lemma chat_events_deliver:
  assumes "gather (concat (map chunk_steps chunks)) no_calls = Some g"
    and "list_all2 (\<lambda>d c. \<not> is_done d \<and> parse d = Inr c) ds chunks" and "e = SseEnd \<or> (\<exists>d. e = SseData d \<and> is_done d)"
  shows "delivered libs ks (all_calls g) (chat_events libs parse ks None (map SseData ds @ [e]))"
proof -
  have "tracks libs ks no_calls (chat_state_new \<lparr>sent = [], room = None\<rparr>)"
    by (simp add: tracks_def sent_until_def no_calls_def chat_state_new_def)
  from process_chat_sse_delivers [OF this assms] show ?thesis by (simp add: chat_events_def)
qed

end
