(* ===== verification/Chat_Properties.thy ===== *)
theory Chat_Properties
  imports Chat_Request Chat_Protocol Chat_Calls
begin

section \<open>Properties of the chat wire\<close>

text \<open>C32: A request is converted to chat messages that say the same: the system message, then
  every function, custom tool, local shell and tool search call, every answer and every message of another role in order, with the
  assistant's texts and its reasoning, each read from first to last, neither lost nor repeated. Items of any other kind
  (web searches and image generations of the server, snapshots, compactions) have no place in a chat and are dropped. The
  conversion fails exactly when a tool cannot be converted or a shell call has neither a call id nor an id.\<close>

theorem conversion_keeps_the_conversation:
  "(case convert_tools libs (req_tools request) of
      Inl e \<Rightarrow> convert_request libs request = Inl e
    | Inr (tools, ks, names) \<Rightarrow>
        (case convert_request libs request of
           Inl e \<Rightarrow> list_ex anonymous_shell_call (req_input request) \<and> e = InvalidRequest missing_call_id
         | Inr (c, ks') \<Rightarrow> \<not> list_ex anonymous_shell_call (req_input request) \<and> ks' = ks \<and> chat_tools c = tools
             \<and> concat (map message_steps (chat_messages c))
               = concat (map message_steps (system_message (req_instructions request)))
                 @ concat (map (item_steps libs names) (req_input request))
             \<and> concat (map message_texts (chat_messages c)) = concat (map item_texts (req_input request))
             \<and> concat (map message_reasoning (chat_messages c)) = concat (map item_reasoning (req_input request))))"
proof (cases "convert_tools libs (req_tools request)")
  case (Inl e)
  then show ?thesis by (simp add: convert_request_def)
next
  case (Inr r)
  obtain tools ks names where r: "r = (tools, ks, names)" by (cases r)
  define g where "g = \<lparr>messages = system_message (req_instructions request), pending_reasoning_content = None,
    pending_assistant_content = None, pending_tool_calls = []\<rparr>"
  have g: "steps_of g = concat (map message_steps (system_message (req_instructions request)))" "texts_of g = []"
    "reasoning_of g = []"
    by (simp_all add: g_def gathered_defs system_message_def lit_def)
  show ?thesis
  proof (cases "convert_items libs names (req_input request) g")
    case e: (Inl e)
    with Inr r convert_items_fail [of libs names "req_input request" g e] show ?thesis
      by (simp add: convert_request_def g_def)
  next
    case g': (Inr g')
    have "\<not> list_ex anonymous_shell_call (req_input request)"
      using convert_items_fail [of libs names "req_input request" g "InvalidRequest missing_call_id"] g' by auto
    with Inr r g' g convert_items_keep [OF g'] finished_messages [of g'] show ?thesis
      by (simp add: convert_request_def g_def)
  qed
qed

text \<open>C33: A call of a namespaced tool finds its way back. Every function of a namespace is sent
  under a chat name that no other tool of the request has, at most 64 letters, digits, underscores
  and hyphens, also when names collide or are too long; a call that the model makes under that name
  is passed on as a call of the function in its namespace.\<close>

theorem namespaced_calls_come_back:
  assumes "convert_tools libs tools = Inr (out, ks, names)" and "named_functions tools ns n"
    and "length tools \<le> USIZE_MAX" and "length (out_tools out) \<le> USIZE_MAX"
  shows "let c = chat_function_call_name (Some ns) n names
    in valid_chat_name c \<and> count_list (chat_names (out_tools out)) c = 1
       \<and> call_item libs ks c call_id arguments = FunctionCall None n (Some ns) arguments call_id"
proof -
  obtain c where c: "names (Some ns, n) = Some c" "count_list (chat_names (out_tools out)) c = 1"
    "length (reserve_flat_chat_tool_names tools) + length (out_tools out) \<le> 2 * USIZE_MAX \<longrightarrow> valid_chat_name c"
    using namespaced_name [OF assms(1,2)] by blast
  have tables: "kinds_of libs tools = ks" "names_of libs tools = names" by (simp_all add: kinds_of_def names_of_def assms(1))
  have "length (reserve_flat_chat_tool_names tools) \<le> length tools"
    by (simp add: reserve_flat_chat_tool_names_def List.map_filter_def)
  moreover have "call_item libs ks (chat_function_call_name (Some ns) n names) call_id arguments
      = FunctionCall None n (Some ns) arguments call_id"
    using wire.call_comes_back [of libs tools ns n libs call_id arguments] c(1) by (simp add: tables)
  ultimately show ?thesis using c assms(3,4) by (simp add: chat_function_call_name_def)
qed

definition sample_wire_libs :: chat_libs where
  "sample_wire_libs = \<lparr>json_text = (\<lambda>_. []), json_parse = (\<lambda>_. None), search_schema = JNull, shell_schema = JNull\<rparr>"

definition sample_wire_tools :: "json list" where
  "sample_wire_tools =
    [JObject [(lit ''type'', JString (lit ''function'')), (lit ''name'', JString (lit ''mcp_run''))],
     JObject [(lit ''type'', JString (lit ''namespace'')), (lit ''name'', JString (lit ''mcp'')),
       (lit ''tools'', JArray [JObject [(lit ''type'', JString (lit ''function'')), (lit ''name'', JString (lit ''run''))]])]]"

lemma sample_converted:
  "(case convert_tools sample_wire_libs sample_wire_tools of
      Inl e \<Rightarrow> False
    | Inr (out, ks, names) \<Rightarrow> length (out_tools out) = 2
        \<and> chat_function_call_name (Some (lit ''mcp'')) (lit ''run'') names = lit ''mcp_run_2'')"
  by code_simp

theorem namespaced_calls_come_back_witness:
  "\<exists>out ks names. convert_tools sample_wire_libs sample_wire_tools = Inr (out, ks, names)
    \<and> call_item sample_wire_libs ks (lit ''mcp_run_2'') [1] [2] = FunctionCall None (lit ''run'') (Some (lit ''mcp'')) [2] [1]"
proof -
  obtain out ks names where c: "convert_tools sample_wire_libs sample_wire_tools = Inr (out, ks, names)"
    and l: "length (out_tools out) = 2"
    and n: "chat_function_call_name (Some (lit ''mcp'')) (lit ''run'') names = lit ''mcp_run_2''"
    using sample_converted by (auto split: sum.splits)
  have "named_functions sample_wire_tools (lit ''mcp'') (lit ''run'')" by code_simp
  moreover have "length sample_wire_tools \<le> USIZE_MAX" by (simp add: sample_wire_tools_def USIZE_MAX_def)
  moreover have "length (out_tools out) \<le> USIZE_MAX" by (simp add: l USIZE_MAX_def)
  ultimately have "call_item sample_wire_libs ks (lit ''mcp_run_2'') [1] [2] = FunctionCall None (lit ''run'') (Some (lit ''mcp'')) [2] [1]"
    using namespaced_calls_come_back [OF c, of "lit ''mcp''" "lit ''run''" "[1]" "[2]"] unfolding n Let_def by blast
  with c show ?thesis by blast
qed

text \<open>C30: The events of a chat stream come in order, whatever the server sends and whenever the
  receiver leaves: the response is created once and before any item, the deltas of an item lie
  between its start and its end and are not empty, an item that ended carries the text of its
  deltas (a message that of all deltas of the stream), the completion comes when no item is open,
  and nothing follows the completion or an error.\<close>

theorem stream_events_are_ordered:
  "follows p_start (chat_events libs parse_chunk tool_kinds limit polls) \<noteq> None"
  by (rule chat_events_follow)

text \<open>C31: The stream passes on the tool calls that the server's fragments spell, in order and each once, however the
  fragments are spread over choices and chunks and although a call is passed on as soon as the next one starts. When
  every call has a name the stream completes; otherwise it ends before the first call without one, with neither a
  completion nor an error. This is for a server that sends the calls one after the other: every fragment belongs to the
  last call or starts the next one, a fragment without an index belongs to the last call, and after the finish reason
  for tool calls the numbering starts again (\<open>gather\<close>, which has no value otherwise). It is for a stream whose data all parse, that
  ends or says it is done, and for a receiver that stays. A later fragment for a call that was already passed on is
  lost without an error, as the example after this theorem shows.\<close>

theorem streamed_calls_are_delivered:
  assumes "gather (concat (map chunk_steps chunks)) no_calls = Some g"
    and "list_all2 (\<lambda>d c. \<not> is_done d \<and> parse_chunk d = Inr c) ds chunks"
    and "e = SseEnd \<or> (\<exists>d. e = SseData d \<and> is_done d)"
  shows "let es = chat_events libs parse_chunk tool_kinds None (map SseData ds @ [e])
    in calls_in es = call_items libs tool_kinds (all_calls g)
       \<and> (if all_named (all_calls g) then \<exists>i u. filter ending es = [Inr (Completed i u)] else filter ending es = [])"
  using chat_events_deliver [OF assms] by (simp add: delivered_def)

definition sample_fragment :: "nat option \<Rightarrow> ustr option \<Rightarrow> ustr option \<Rightarrow> ustr \<Rightarrow> tool_call_delta" where
  "sample_fragment i call_id name arguments =
    \<lparr>td_index = i, td_id = call_id, td_function = Some \<lparr>fd_name = name, fd_arguments = Some arguments\<rparr>\<rparr>"

definition sample_chunk :: "tool_call_delta list \<Rightarrow> chat_chunk" where
  "sample_chunk ds = \<lparr>chunk_id = None, chunk_model = None, chunk_choices =
     [\<lparr>choice_delta = Some \<lparr>delta_content = None, delta_reasoning_content = None, delta_reasoning = None,
         delta_tool_calls = Some ds\<rparr>, finish_reason = None\<rparr>], chunk_usage = None\<rparr>"

definition sample_chunks :: "chat_chunk list" where
  "sample_chunks =
    [sample_chunk [sample_fragment (Some 0) (Some [1]) (Some [97]) [2]],
     sample_chunk [sample_fragment None None None [3], sample_fragment (Some 1) (Some [4]) (Some [98]) [5]]]"

theorem streamed_calls_are_delivered_witness:
  "calls_in (chat_events sample_wire_libs (\<lambda>d. Inr (sample_chunks ! length d)) (\<lambda>_. None) None [SseData [], SseData [0], SseEnd])
    = [FunctionCall None [97] None [2, 3] [1], FunctionCall None [98] None [5] [4]]"
proof -
  let ?g = "\<lparr>finished = [], current = [\<lparr>part_id = Some [1], part_name = Some [97], part_arguments = [2, 3]\<rparr>,
    \<lparr>part_id = Some [4], part_name = Some [98], part_arguments = [5]\<rparr>]\<rparr>"
  have "gather (concat (map chunk_steps sample_chunks)) no_calls = Some ?g" by code_simp
  moreover have "list_all2 (\<lambda>d c. \<not> is_done d \<and> Inr (sample_chunks ! length d) = (Inr c :: ustr + chat_chunk))
      [[], [0]] sample_chunks"
    by (simp add: sample_chunks_def is_done_def lit_def) code_simp
  ultimately have "let es = chat_events sample_wire_libs (\<lambda>d. Inr (sample_chunks ! length d)) (\<lambda>_. None) None
        (map SseData [[], [0]] @ [SseEnd])
    in calls_in es = call_items sample_wire_libs (\<lambda>_. None) (all_calls ?g)
       \<and> (if all_named (all_calls ?g) then \<exists>i u. filter ending es = [Inr (Completed i u)] else filter ending es = [])"
    by (rule streamed_calls_are_delivered) simp
  then show ?thesis by (simp add: Let_def all_calls_def call_item_def)
qed

text \<open>
  Interleaved calls lose their arguments: the second fragment of call 0 comes after call 1 has started and call 0 has
  been passed on, so its text goes nowhere and the stream still completes.
\<close>

definition interleaved_chunks :: "chat_chunk list" where
  "interleaved_chunks =
    [sample_chunk [sample_fragment (Some 0) (Some [1]) (Some [97]) [2], sample_fragment (Some 1) (Some [4]) (Some [98]) [5],
       sample_fragment (Some 0) None None [3]]]"

fun name_and_arguments :: "json response_item \<Rightarrow> ustr \<times> ustr" where
  "name_and_arguments (FunctionCall i n ns a c) = (n, a)"
| "name_and_arguments _ = ([], [])"

lemma late_fragment_is_lost:
  "gather (concat (map chunk_steps interleaved_chunks)) no_calls = None"
  "let es = chat_events sample_wire_libs (\<lambda>_. Inr (interleaved_chunks ! 0)) (\<lambda>_. None) None [SseData [], SseEnd]
   in map name_and_arguments (calls_in es) = [([97], [2]), ([98], [5])] \<and> length (filter ending es) = 1"
  by code_simp+

end
