(* ===== verification/Net_Address.thy ===== *)
theory Net_Address
  imports Prelude "HOL-Library.Word"
begin

section \<open>Addresses of the network proxy (network-proxy/src/policy.rs)\<close>

text \<open>
  IP addresses as words, the classifications of \<open>std::net\<close> the proxy uses, its own test for
  addresses that are not public, and the parser of \<open>str::parse::<IpAddr>\<close>.
\<close>

unbundle bit_operations_syntax

type_synonym ipv4 = "32 word"
type_synonym ipv6 = "128 word"

datatype ip_addr = V4 ipv4 | V6 ipv6

subsection \<open>Octets and segments (std)\<close>

definition octet :: "nat \<Rightarrow> ipv4 \<Rightarrow> nat" where
  "octet i ip = unat (take_bit 8 (drop_bit (24 - 8 * i) ip))"

definition segment :: "nat \<Rightarrow> ipv6 \<Rightarrow> nat" where
  "segment i ip = unat (take_bit 16 (drop_bit (112 - 16 * i) ip))"

definition dotted :: "nat \<Rightarrow> nat \<Rightarrow> nat \<Rightarrow> nat \<Rightarrow> nat" where
  "dotted a b c d = ((a * 256 + b) * 256 + c) * 256 + d"

definition ipv4_of :: "nat \<Rightarrow> nat \<Rightarrow> nat \<Rightarrow> nat \<Rightarrow> ipv4" where
  "ipv4_of a b c d = of_nat (dotted a b c d)"

definition is_loopback4 :: "ipv4 \<Rightarrow> bool" where
  "is_loopback4 ip \<longleftrightarrow> octet 0 ip = 127"

definition is_private4 :: "ipv4 \<Rightarrow> bool" where
  "is_private4 ip \<longleftrightarrow> octet 0 ip = 10 \<or> octet 0 ip = 172 \<and> 16 \<le> octet 1 ip \<and> octet 1 ip \<le> 31
     \<or> octet 0 ip = 192 \<and> octet 1 ip = 168"

definition is_link_local4 :: "ipv4 \<Rightarrow> bool" where
  "is_link_local4 ip \<longleftrightarrow> octet 0 ip = 169 \<and> octet 1 ip = 254"

definition is_multicast4 :: "ipv4 \<Rightarrow> bool" where
  "is_multicast4 ip \<longleftrightarrow> 224 \<le> octet 0 ip \<and> octet 0 ip \<le> 239"

definition is_loopback6 :: "ipv6 \<Rightarrow> bool" where
  "is_loopback6 ip \<longleftrightarrow> ip = 1"

definition is_multicast6 :: "ipv6 \<Rightarrow> bool" where
  "is_multicast6 ip \<longleftrightarrow> unat (drop_bit 120 ip) = 255"

definition is_unique_local6 :: "ipv6 \<Rightarrow> bool" where
  "is_unique_local6 ip \<longleftrightarrow> segment 0 ip AND 0xfe00 = 0xfc00"

definition is_unicast_link_local6 :: "ipv6 \<Rightarrow> bool" where
  "is_unicast_link_local6 ip \<longleftrightarrow> segment 0 ip AND 0xffc0 = 0xfe80"

text \<open>Mapped and compatible addresses alike.\<close>

definition to_ipv4 :: "ipv6 \<Rightarrow> ipv4 option" where
  "to_ipv4 ip =
    (if list_all (\<lambda>i. segment i ip = 0) [0, 1, 2, 3, 4] \<and> (segment 5 ip = 0 \<or> segment 5 ip = 0xffff)
     then Some (ucast ip) else None)"

fun is_loopback_ip :: "ip_addr \<Rightarrow> bool" where
  "is_loopback_ip (V4 ip) = is_loopback4 ip"
| "is_loopback_ip (V6 ip) = is_loopback6 ip"

subsection \<open>Addresses that are not public\<close>

definition ipv4_in_cidr :: "ipv4 \<Rightarrow> ipv4 \<Rightarrow> nat \<Rightarrow> bool" where
  "ipv4_in_cidr ip base prefix =
    (let m = (if prefix = 0 then 0 else push_bit (32 - prefix) (- 1)) in (ip AND m) = (base AND m))"

definition is_non_public_ipv4 :: "ipv4 \<Rightarrow> bool" where
  "is_non_public_ipv4 ip \<longleftrightarrow>
     is_loopback4 ip \<or> is_private4 ip \<or> is_link_local4 ip \<or> ip = 0 \<or> is_multicast4 ip \<or> ip = - 1
   \<or> ipv4_in_cidr ip (ipv4_of 0 0 0 0) 8
   \<or> ipv4_in_cidr ip (ipv4_of 100 64 0 0) 10
   \<or> ipv4_in_cidr ip (ipv4_of 192 0 0 0) 24
   \<or> ipv4_in_cidr ip (ipv4_of 192 0 2 0) 24
   \<or> ipv4_in_cidr ip (ipv4_of 198 18 0 0) 15
   \<or> ipv4_in_cidr ip (ipv4_of 198 51 100 0) 24
   \<or> ipv4_in_cidr ip (ipv4_of 203 0 113 0) 24
   \<or> ipv4_in_cidr ip (ipv4_of 240 0 0 0) 4"

definition is_non_public_ipv6 :: "ipv6 \<Rightarrow> bool" where
  "is_non_public_ipv6 ip =
    (case to_ipv4 ip of
       Some v4 \<Rightarrow> is_non_public_ipv4 v4 \<or> is_loopback6 ip
     | None \<Rightarrow> is_loopback6 ip \<or> ip = 0 \<or> is_multicast6 ip \<or> is_unique_local6 ip \<or> is_unicast_link_local6 ip)"

fun is_non_public_ip :: "ip_addr \<Rightarrow> bool" where
  "is_non_public_ip (V4 ip) = is_non_public_ipv4 ip"
| "is_non_public_ip (V6 ip) = is_non_public_ipv6 ip"

subsection \<open>Parsing (std)\<close>

text \<open>The parser reads bytes; those of other than ASCII characters are no digits and no separators.\<close>

definition digit_of :: "nat \<Rightarrow> nat \<Rightarrow> nat option" where
  "digit_of radix c =
    (let v = (if 48 \<le> c \<and> c \<le> 57 then Some (c - 48) else if 97 \<le> c \<and> c \<le> 122 then Some (c - 87)
              else if 65 \<le> c \<and> c \<le> 90 then Some (c - 55) else None)
     in case v of Some d \<Rightarrow> if d < radix then Some d else None | None \<Rightarrow> None)"

definition read_number :: "nat \<Rightarrow> nat \<Rightarrow> bool \<Rightarrow> nat \<Rightarrow> ustr \<Rightarrow> (nat \<times> ustr) option" where
  "read_number radix max_digits allow_zero_prefix limit s =
    (let ds = takeWhile (\<lambda>c. digit_of radix c \<noteq> None) s;
         v = foldl (\<lambda>n c. n * radix + (case digit_of radix c of Some d \<Rightarrow> d | None \<Rightarrow> 0)) 0 ds
     in if ds = [] \<or> max_digits < length ds \<or> limit \<le> v \<or> \<not> allow_zero_prefix \<and> hd ds = 48 \<and> 1 < length ds then None
        else Some (v, drop (length ds) s))"

definition read_separator :: "nat \<Rightarrow> nat \<Rightarrow> (ustr \<Rightarrow> ('a \<times> ustr) option) \<Rightarrow> ustr \<Rightarrow> ('a \<times> ustr) option" where
  "read_separator sep i inner s =
    (if i = 0 then inner s else (case s of c # r \<Rightarrow> if c = sep then inner r else None | [] \<Rightarrow> None))"

fun read_octets :: "nat \<Rightarrow> nat \<Rightarrow> ustr \<Rightarrow> (nat list \<times> ustr) option" where
  "read_octets 0 i s = Some ([], s)"
| "read_octets (Suc n) i s =
    (case read_separator c_dot i (read_number 10 3 False 256) s of
       None \<Rightarrow> None
     | Some (v, r) \<Rightarrow> (case read_octets n (Suc i) r of None \<Rightarrow> None | Some (vs, r) \<Rightarrow> Some (v # vs, r)))"

definition value_of :: "nat \<Rightarrow> nat list \<Rightarrow> nat" where
  "value_of base ds = foldl (\<lambda>n d. n * base + d) 0 ds"

definition read_ipv4 :: "ustr \<Rightarrow> (nat \<times> ustr) option" where
  "read_ipv4 s = map_option (\<lambda>(vs, r). (value_of 256 vs, r)) (read_octets 4 0 s)"

text \<open>The groups read, whether the last two are an IPv4 address, and the rest.\<close>

fun read_groups :: "nat \<Rightarrow> nat \<Rightarrow> ustr \<Rightarrow> nat list \<times> bool \<times> ustr" where
  "read_groups 0 i s = ([], False, s)"
| "read_groups (Suc n) i s =
    (case (if 0 < n then read_separator c_colon i read_ipv4 s else None) of
       Some (v4, r) \<Rightarrow> ([v4 div 65536, v4 mod 65536], True, r)
     | None \<Rightarrow>
         (case read_separator c_colon i (read_number 16 4 True 65536) s of
            None \<Rightarrow> ([], False, s)
          | Some (g, r) \<Rightarrow> (case read_groups n (Suc i) r of (gs, v4, r) \<Rightarrow> (g # gs, v4, r))))"

definition read_ipv6 :: "ustr \<Rightarrow> (nat \<times> ustr) option" where
  "read_ipv6 s =
    (case read_groups 8 0 s of (head, head_ipv4, r) \<Rightarrow>
       if length head = 8 then Some (value_of 65536 head, r)
       else if head_ipv4 then None
       else if take 2 r = [c_colon, c_colon] then
         (case read_groups (7 - length head) 0 (drop 2 r) of (tail, _, r) \<Rightarrow>
            Some (value_of 65536 (head @ replicate (8 - length head - length tail) 0 @ tail), r))
       else None)"

definition parse_ip :: "ustr \<Rightarrow> ip_addr option" where
  "parse_ip s =
    (case read_ipv4 s of
       Some (v, r) \<Rightarrow> if r = [] then Some (V4 (of_nat v)) else None
     | None \<Rightarrow>
         (case read_ipv6 s of
            Some (v, r) \<Rightarrow> if r = [] then Some (V6 (of_nat v)) else None
          | None \<Rightarrow> None))"

subsection \<open>Ranges\<close>

lemma unat_take_drop: "unat (take_bit n (drop_bit k (w :: 'a::len word))) = unat w div 2 ^ k mod 2 ^ n"
  unfolding unsigned_take_bit_eq unat_drop_bit_eq by (simp add: drop_bit_eq_div take_bit_eq_mod)

lemma octet_div: "octet i ip = unat ip div 2 ^ (24 - 8 * i) mod 256"
  by (simp add: octet_def unat_take_drop)

lemma and_not_mask_parts:
  fixes a :: "'a::len word"
  shows "a AND NOT (mask k) = push_bit k (drop_bit k a)" and "drop_bit k (a AND NOT (mask k)) = drop_bit k a"
  by (rule bit_eqI; auto simp: bit_simps dest: bit_imp_le_length)+

lemma and_not_mask_eq_iff:
  fixes a b :: "'a::len word"
  shows "a AND NOT (mask k) = b AND NOT (mask k) \<longleftrightarrow> drop_bit k a = drop_bit k b"
  using and_not_mask_parts by metis

lemma ipv4_in_cidr_div:
  assumes "0 < p" and "p \<le> 32"
  shows "ipv4_in_cidr ip base p \<longleftrightarrow> unat ip div 2 ^ (32 - p) = unat base div 2 ^ (32 - p)"
proof -
  have "ipv4_in_cidr ip base p \<longleftrightarrow> drop_bit (32 - p) ip = drop_bit (32 - p) base"
    using assms by (simp add: ipv4_in_cidr_def Let_def and_not_mask_eq_iff)
  also have "\<dots> \<longleftrightarrow> unat (drop_bit (32 - p) ip) = unat (drop_bit (32 - p) base)" by (simp add: word_unat_eq_iff)
  finally show ?thesis unfolding unat_drop_bit_eq by (simp add: drop_bit_eq_div)
qed

text \<open>The blocks that are not public, first and last address.\<close>

definition reserved_ipv4 :: "(nat \<times> nat) list" where
  "reserved_ipv4 =
    [(dotted 0 0 0 0, dotted 0 255 255 255), (dotted 10 0 0 0, dotted 10 255 255 255),
     (dotted 100 64 0 0, dotted 100 127 255 255), (dotted 127 0 0 0, dotted 127 255 255 255),
     (dotted 169 254 0 0, dotted 169 254 255 255), (dotted 172 16 0 0, dotted 172 31 255 255),
     (dotted 192 0 0 0, dotted 192 0 0 255), (dotted 192 0 2 0, dotted 192 0 2 255),
     (dotted 192 168 0 0, dotted 192 168 255 255), (dotted 198 18 0 0, dotted 198 19 255 255),
     (dotted 198 51 100 0, dotted 198 51 100 255), (dotted 203 0 113 0, dotted 203 0 113 255),
     (dotted 224 0 0 0, dotted 255 255 255 255)]"

definition in_ranges :: "(nat \<times> nat) list \<Rightarrow> nat \<Rightarrow> bool" where
  "in_ranges rs n \<longleftrightarrow> list_ex (\<lambda>(a, b). a \<le> n \<and> n \<le> b) rs"

lemma unat_ipv4_of: "dotted a b c d < 2 ^ 32 \<Longrightarrow> unat (ipv4_of a b c d) = dotted a b c d"
  by (simp add: ipv4_of_def unsigned_of_nat take_bit_nat_eq_self)

lemma div_eq_range: "0 < (k :: nat) \<Longrightarrow> n div k = q \<longleftrightarrow> q * k \<le> n \<and> n < (q + 1) * k"
  by (metis Suc_eq_plus1 div_less_iff_less_mult less_Suc_eq_le less_eq_div_iff_mult_less_eq le_antisym order_refl)

lemma block:
  assumes "lo \<le> hi" and "hi < 256"
  shows "h div 256 = q \<and> lo \<le> h mod 256 \<and> h mod 256 \<le> hi \<longleftrightarrow> q * 256 + lo \<le> h \<and> h \<le> q * 256 + (hi :: nat)"
proof -
  have h: "h = h div 256 * 256 + h mod 256" by simp
  have q: "h div 256 = q \<longleftrightarrow> q * 256 \<le> h \<and> h < (q + 1) * 256" by (rule div_eq_range) simp
  show ?thesis
  proof (cases "h div 256 = q")
    case True
    with h have "h = q * 256 + h mod 256" by simp
    with True show ?thesis by linarith
  next
    case False
    with q assms show ?thesis by auto
  qed
qed

lemma non_public_ipv4_ranges: "is_non_public_ipv4 ip \<longleftrightarrow> in_ranges reserved_ipv4 (unat ip)"
proof -
  define n where "n = unat ip"
  define h where "h = n div 65536"
  have "unat ip < 2 ^ LENGTH(32)" by (rule unsigned_less)
  then have n: "n < 4294967296" by (simp add: n_def)
  have o0: "octet 0 ip = h div 256"
    using n by (simp add: octet_div n_def [symmetric] h_def div_mult2_eq [symmetric] less_mult_imp_div_less)
  have o1: "octet 1 ip = h mod 256" by (simp add: octet_div n_def [symmetric] h_def)
  have hr: "a \<le> h \<and> h \<le> b \<longleftrightarrow> a * 65536 \<le> n \<and> n \<le> b * 65536 + 65535" for a b
  proof -
    have "h < Suc b \<longleftrightarrow> n < Suc b * 65536" by (simp only: h_def div_less_iff_less_mult zero_less_numeral)
    moreover have "a \<le> h \<longleftrightarrow> a * 65536 \<le> n" by (simp only: h_def less_eq_div_iff_mult_less_eq zero_less_numeral)
    ultimately show ?thesis by auto
  qed
  have c: "ipv4_in_cidr ip (ipv4_of a b c d) p \<longleftrightarrow> n div 2 ^ (32 - p) = dotted a b c d div 2 ^ (32 - p)"
    if "0 < p" "p \<le> 32" "dotted a b c d < 2 ^ 32" for a b c d p
    using that by (simp add: ipv4_in_cidr_div unat_ipv4_of n_def)
  let ?in = "\<lambda>a b. a \<le> n \<and> n \<le> b"
  have h1: "h div 256 = 127 \<longleftrightarrow> 32512 \<le> h \<and> h \<le> 32767" by (subst div_eq_range; simp; linarith)
  have h2: "h div 256 = 10 \<longleftrightarrow> 2560 \<le> h \<and> h \<le> 2815" by (subst div_eq_range; simp; linarith)
  have h3: "h div 256 = 172 \<and> 16 \<le> h mod 256 \<and> h mod 256 \<le> 31 \<longleftrightarrow> 44048 \<le> h \<and> h \<le> 44063"
    by (subst block; simp)
  have h4: "h div 256 = 192 \<and> h mod 256 = 168 \<longleftrightarrow> 49320 \<le> h \<and> h \<le> 49320"
    using block [of 168 168 h 192] by (simp add: eq_iff [of _ 168] conj_commute)
  have h5: "h div 256 = 169 \<and> h mod 256 = 254 \<longleftrightarrow> 43518 \<le> h \<and> h \<le> 43518"
    using block [of 254 254 h 169] by (simp add: eq_iff [of _ 254] conj_commute)
  have h6: "224 \<le> h div 256 \<and> h div 256 \<le> 239 \<longleftrightarrow> 57344 \<le> h \<and> h \<le> 61439"
    using less_eq_div_iff_mult_less_eq [of 256 224 h] div_less_iff_less_mult [of 256 h 240] by linarith
  note h = h1 h2 h3 h4 h5 h6
  have loop: "is_loopback4 ip \<longleftrightarrow> ?in (dotted 127 0 0 0) (dotted 127 255 255 255)"
    unfolding is_loopback4_def o0 h hr dotted_def by simp
  have priv: "is_private4 ip \<longleftrightarrow> ?in (dotted 10 0 0 0) (dotted 10 255 255 255)
      \<or> ?in (dotted 172 16 0 0) (dotted 172 31 255 255) \<or> ?in (dotted 192 168 0 0) (dotted 192 168 255 255)"
    unfolding is_private4_def o0 o1 h hr dotted_def by simp
  have link: "is_link_local4 ip \<longleftrightarrow> ?in (dotted 169 254 0 0) (dotted 169 254 255 255)"
    unfolding is_link_local4_def o0 o1 h hr dotted_def by simp
  have multi: "is_multicast4 ip \<longleftrightarrow> ?in (dotted 224 0 0 0) (dotted 239 255 255 255)"
    unfolding is_multicast4_def o0 h hr dotted_def by simp
  have zero: "ip = 0 \<longleftrightarrow> n = 0" and ones: "ip = - 1 \<longleftrightarrow> n = 4294967295"
    by (simp_all add: n_def word_unat_eq_iff unsigned_minus_1_eq_mask mask_eq_exp_minus_1)
  have cidrs: "ipv4_in_cidr ip (ipv4_of 0 0 0 0) 8 \<longleftrightarrow> ?in (dotted 0 0 0 0) (dotted 0 255 255 255)"
    "ipv4_in_cidr ip (ipv4_of 100 64 0 0) 10 \<longleftrightarrow> ?in (dotted 100 64 0 0) (dotted 100 127 255 255)"
    "ipv4_in_cidr ip (ipv4_of 192 0 0 0) 24 \<longleftrightarrow> ?in (dotted 192 0 0 0) (dotted 192 0 0 255)"
    "ipv4_in_cidr ip (ipv4_of 192 0 2 0) 24 \<longleftrightarrow> ?in (dotted 192 0 2 0) (dotted 192 0 2 255)"
    "ipv4_in_cidr ip (ipv4_of 198 18 0 0) 15 \<longleftrightarrow> ?in (dotted 198 18 0 0) (dotted 198 19 255 255)"
    "ipv4_in_cidr ip (ipv4_of 198 51 100 0) 24 \<longleftrightarrow> ?in (dotted 198 51 100 0) (dotted 198 51 100 255)"
    "ipv4_in_cidr ip (ipv4_of 203 0 113 0) 24 \<longleftrightarrow> ?in (dotted 203 0 113 0) (dotted 203 0 113 255)"
    "ipv4_in_cidr ip (ipv4_of 240 0 0 0) 4 \<longleftrightarrow> ?in (dotted 240 0 0 0) (dotted 255 255 255 255)"
    by (subst c, simp, simp, simp add: dotted_def, simp add: dotted_def div_eq_range, linarith)+
  have z: "n = 0 \<Longrightarrow> ?in (dotted 0 0 0 0) (dotted 0 255 255 255)" by (simp add: dotted_def)
  have top: "?in (dotted 224 0 0 0) (dotted 239 255 255 255) \<or> n = 4294967295 \<or> ?in (dotted 240 0 0 0) (dotted 255 255 255 255)
      \<longleftrightarrow> ?in (dotted 224 0 0 0) (dotted 255 255 255 255)"
    using n by (auto simp: dotted_def)
  show ?thesis
    unfolding is_non_public_ipv4_def loop priv link multi zero ones cidrs in_ranges_def reserved_ipv4_def n_def [symmetric]
      list_ex_Cons_iff list_ex_Nil_iff prod.case using z top by argo
qed

lemma segment_div: "segment i ip = unat ip div 2 ^ (112 - 16 * i) mod 65536"
  by (simp add: segment_def unat_take_drop)

text \<open>An address with an embedded IPv4 address starts with 80 zero bits and 16 equal ones.\<close>

lemma to_ipv4_ranges:
  "to_ipv4 ip = (if unat ip < 2 ^ 32 \<or> 0xffff * 2 ^ 32 \<le> unat ip \<and> unat ip < 2 ^ 48 then Some (ucast ip) else None)"
proof -
  define n where "n = unat ip"
  define k where "k = n div 2 ^ 32"
  have "unat ip < 2 ^ LENGTH(128)" by (rule unsigned_less)
  then have n: "n < 2 ^ 128" by (simp add: n_def)
  have s: "segment i ip = n div 2 ^ (112 - 16 * i) mod 65536" for i by (simp add: segment_div n_def)
  have zeros: "list_all (\<lambda>i. segment i ip = 0) [0, 1, 2, 3, 4] \<longleftrightarrow> n div 2 ^ 48 = 0"
  proof
    assume "list_all (\<lambda>i. segment i ip = 0) [0, 1, 2, 3, 4]"
    then have z: "n div 2 ^ 112 mod 65536 = 0" "n div 2 ^ 96 mod 65536 = 0" "n div 2 ^ 80 mod 65536 = 0"
      "n div 2 ^ 64 mod 65536 = 0" "n div 2 ^ 48 mod 65536 = 0" by (simp_all add: s)
    have up: "n div 2 ^ j = 0" if "n div 2 ^ (j + 16) = 0" "n div 2 ^ j mod 65536 = 0" for j
    proof -
      have "n div 2 ^ (j + 16) = n div 2 ^ j div 65536" by (simp add: power_add div_mult2_eq)
      with that div_mult_mod_eq [of "n div 2 ^ j" 65536] show ?thesis by simp
    qed
    have "n div 2 ^ (112 + 16) = 0" using n by simp
    from up [OF this z(1)] have "n div 2 ^ (96 + 16) = 0" by simp
    from up [OF this z(2)] have "n div 2 ^ (80 + 16) = 0" by simp
    from up [OF this z(3)] have "n div 2 ^ (64 + 16) = 0" by simp
    from up [OF this z(4)] have "n div 2 ^ (48 + 16) = 0" by simp
    from up [OF this z(5)] show "n div 2 ^ 48 = 0" .
  next
    assume "n div 2 ^ 48 = 0"
    then have "n div 2 ^ (48 + j) = 0" for j by (simp add: power_add div_mult2_eq)
    from this [of 0] this [of 16] this [of 32] this [of 48] this [of 64]
    show "list_all (\<lambda>i. segment i ip = 0) [0, 1, 2, 3, 4]" by (simp add: s)
  qed
  have five: "segment 5 ip = n div 2 ^ 32 mod 65536" by (simp add: s)
  have k: "n div 2 ^ 48 = k div 65536" by (simp add: k_def div_mult2_eq [symmetric])
  have "list_all (\<lambda>i. segment i ip = 0) [0, 1, 2, 3, 4] \<and> (segment 5 ip = 0 \<or> segment 5 ip = 0xffff) \<longleftrightarrow> k = 0 \<or> k = 0xffff"
    unfolding zeros five k k_def [symmetric] by (auto simp: div_eq_0_iff)
  moreover have "k = 0 \<longleftrightarrow> n < 2 ^ 32" by (simp add: k_def div_eq_0_iff)
  moreover have "k = 0xffff \<longleftrightarrow> 0xffff * 2 ^ 32 \<le> n \<and> n < 2 ^ 48" unfolding k_def by (subst div_eq_range) simp_all
  ultimately show ?thesis unfolding to_ipv4_def n_def [symmetric] by presburger
qed

lemma and_push_mask:
  assumes "h < 2 ^ (k + m)"
  shows "h AND push_bit k (mask m) = h div 2 ^ k * (2 :: nat) ^ k"
proof -
  have "bit h n \<Longrightarrow> n < k + m" for n
    using assms by (metis bit_take_bit_iff take_bit_nat_eq_self)
  then have "h AND push_bit k (mask m) = push_bit k (drop_bit k h)"
    by (intro bit_eqI) (auto simp: bit_simps less_diff_conv2 add.commute)
  then show ?thesis by (simp add: push_bit_eq_mult drop_bit_eq_div)
qed

definition reserved_ipv6 :: "(nat \<times> nat) list" where
  "reserved_ipv6 = [(0xfc00 * 2 ^ 112, 0xfe00 * 2 ^ 112 - 1), (0xfe80 * 2 ^ 112, 0xfec0 * 2 ^ 112 - 1), (0xff00 * 2 ^ 112, 2 ^ 128 - 1)]"

lemma non_public_ipv6_ranges:
  "is_non_public_ipv6 ip \<longleftrightarrow>
    (if unat ip < 2 ^ 32 \<or> 0xffff * 2 ^ 32 \<le> unat ip \<and> unat ip < 2 ^ 48 then in_ranges reserved_ipv4 (unat ip mod 2 ^ 32)
     else in_ranges reserved_ipv6 (unat ip))"
proof (cases "unat ip < 2 ^ 32 \<or> 0xffff * 2 ^ 32 \<le> unat ip \<and> unat ip < 2 ^ 48")
  case True
  have u: "unat (ucast ip :: ipv4) = unat ip mod 2 ^ 32" by (simp add: unsigned_ucast_eq take_bit_eq_mod)
  have "is_loopback6 ip \<Longrightarrow> in_ranges reserved_ipv4 (unat ip mod 2 ^ 32)"
    by (simp add: is_loopback6_def in_ranges_def reserved_ipv4_def dotted_def)
  with True u show ?thesis by (auto simp: is_non_public_ipv6_def to_ipv4_ranges non_public_ipv4_ranges)
next
  case False
  define n where "n = unat ip"
  define h where "h = n div 2 ^ 112"
  have "unat ip < 2 ^ LENGTH(128)" by (rule unsigned_less)
  then have n: "n < 2 ^ 128" by (simp add: n_def)
  then have h: "segment 0 ip = h" "h < 65536" by (simp_all add: segment_div n_def h_def less_mult_imp_div_less)
  have masks: "0xfe00 = push_bit 9 (mask 7 :: nat)" "0xffc0 = push_bit 6 (mask 10 :: nat)"
    by (simp_all add: push_bit_eq_mult mask_eq_exp_minus_1)
  have "is_unique_local6 ip \<longleftrightarrow> h div 512 * 512 = 0xfc00"
    unfolding is_unique_local6_def h(1) masks(1) using and_push_mask [of h 9 7] h(2) by simp
  also have "\<dots> \<longleftrightarrow> h div 512 = 126" by auto
  finally have local: "is_unique_local6 ip \<longleftrightarrow> 0xfc00 \<le> h \<and> h < 0xfe00" by (simp add: div_eq_range)
  have "is_unicast_link_local6 ip \<longleftrightarrow> h div 64 * 64 = 0xfe80"
    unfolding is_unicast_link_local6_def h(1) masks(2) using and_push_mask [of h 6 10] h(2) by simp
  also have "\<dots> \<longleftrightarrow> h div 64 = 1018" by auto
  finally have link: "is_unicast_link_local6 ip \<longleftrightarrow> 0xfe80 \<le> h \<and> h < 0xfec0" by (simp add: div_eq_range)
  have "is_multicast6 ip \<longleftrightarrow> n div 2 ^ 120 = 255" unfolding is_multicast6_def n_def unat_drop_bit_eq by (simp add: drop_bit_eq_div)
  also have "n div 2 ^ 120 = h div 256" by (simp add: h_def div_mult2_eq [symmetric])
  finally have multi: "is_multicast6 ip \<longleftrightarrow> 0xff00 \<le> h" using h(2) by (simp add: div_eq_range)
  have hr: "a \<le> h \<longleftrightarrow> a * 2 ^ 112 \<le> n" "h < b \<longleftrightarrow> n < b * 2 ^ 112" for a b
    unfolding h_def by (simp_all only: less_eq_div_iff_mult_less_eq div_less_iff_less_mult zero_less_power zero_less_numeral)
  have "\<not> is_loopback6 ip" "ip \<noteq> 0" using False by (auto simp: is_loopback6_def)
  moreover have "to_ipv4 ip = None" unfolding to_ipv4_ranges using False by (rule if_not_P)
  ultimately have "is_non_public_ipv6 ip \<longleftrightarrow> is_multicast6 ip \<or> is_unique_local6 ip \<or> is_unicast_link_local6 ip"
    by (simp add: is_non_public_ipv6_def)
  also have "\<dots> \<longleftrightarrow> in_ranges reserved_ipv6 n"
    unfolding local link multi hr in_ranges_def reserved_ipv6_def list_ex_Cons_iff list_ex_Nil_iff prod.case
    using n by auto
  finally show ?thesis unfolding n_def if_not_P [OF False] .
qed

end
