(* ===== verification/Net_Policy.thy ===== *)
theory Net_Policy
  imports Net_Address
begin

section \<open>Host patterns of the network proxy (network-proxy/src/policy.rs)\<close>

text \<open>
  Hosts and patterns in normal form, patterns as globs, and the comparison of patterns that
  enforces the organisation's constraints. The glob compiler, the host parser of the \<open>url\<close> crate,
  the resolver and the certificates of the interception are outside the repository: \<open>net_libs\<close>.
  \<open>globs_build\<close> is \<open>GlobSetBuilder::build\<close>; a set matches a host that one of its globs matches,
  without regard to case.
\<close>

datatype dns_result = Resolved "ip_addr list" | LookupFailed | LookupTimedOut

record net_libs =
  glob_build :: "ustr \<Rightarrow> bool"
  globs_build :: "ustr list \<Rightarrow> bool"
  glob_match :: "ustr \<Rightarrow> ustr \<Rightarrow> bool"
  url_host :: "ustr \<Rightarrow> ustr option"
  lookup_host :: "ustr \<Rightarrow> nat \<Rightarrow> dns_result"
  mitm_new :: "bool \<Rightarrow> ustr option"
  debug_list :: "ustr list \<Rightarrow> ustr"

datatype net_error =
    EmptyHost
  | UnsupportedGlobalWildcard
  | InvalidGlob ustr
  | InvalidGlobSet
  | InvalidSocketPath nat ustr
  | InvalidValue ustr ustr ustr
  | MitmFailed ustr
  | ReloadFailed ustr
  | MissingHost ustr

subsection \<open>Normal forms\<close>

abbreviation c_question :: nat where "c_question \<equiv> 63"
abbreviation c_open :: nat where "c_open \<equiv> 91"
abbreviation c_close :: nat where "c_close \<equiv> 93"
abbreviation c_percent :: nat where "c_percent \<equiv> 37"

abbreviation star :: ustr where "star \<equiv> [c_star]"
abbreviation star_dot :: ustr where "star_dot \<equiv> [c_star, c_dot]"
abbreviation star_star_dot :: ustr where "star_star_dot \<equiv> [c_star, c_star, c_dot]"

definition trim_end_dots :: "ustr \<Rightarrow> ustr" where
  "trim_end_dots s = trim_end_matches (\<lambda>c. c = c_dot) s"

definition normalize_dns_host :: "ustr \<Rightarrow> ustr" where
  "normalize_dns_host host = trim_end_dots (to_ascii_lowercase host)"

definition normalize_host :: "ustr \<Rightarrow> ustr" where
  "normalize_host host =
    (let host = trim host in
     if starts_with [c_open] host \<and> c_close \<in> set host then normalize_dns_host (takeWhile (\<lambda>c. c \<noteq> c_close) (tl host))
     else if count_list host c_colon = 1 then normalize_dns_host (takeWhile (\<lambda>c. c \<noteq> c_colon) host)
     else normalize_dns_host host)"

definition host_parse :: "ustr \<Rightarrow> net_error + ustr" where
  "host_parse input = (let normalized = normalize_host input in if normalized = [] then Inl EmptyHost else Inr normalized)"

definition without_scope :: "ustr \<Rightarrow> ustr" where
  "without_scope host = (case split_once c_percent host of Some (ip, _) \<Rightarrow> ip | None \<Rightarrow> host)"

definition is_loopback_host :: "ustr \<Rightarrow> bool" where
  "is_loopback_host host =
    (let host = without_scope host in
     if host = lit ''localhost'' then True
     else (case parse_ip host of Some ip \<Rightarrow> is_loopback_ip ip | None \<Rightarrow> False))"

definition normalize_pattern :: "ustr \<Rightarrow> ustr" where
  "normalize_pattern pattern =
    (let pattern = trim pattern in
     if pattern = star then star
     else
       (case strip_prefix star_star_dot pattern of
          Some domain \<Rightarrow> star_star_dot @ normalize_host domain
        | None \<Rightarrow>
            (case strip_prefix star_dot pattern of
               Some domain \<Rightarrow> star_dot @ normalize_host domain
             | None \<Rightarrow> normalize_host pattern)))"

subsection \<open>Patterns\<close>

datatype domain_pattern = ApexAndSubdomains ustr | SubdomainsOnly ustr | Exact ustr

definition parse_domain :: "ustr \<Rightarrow> (ustr \<Rightarrow> domain_pattern) \<Rightarrow> domain_pattern" where
  "parse_domain domain build = (let domain = trim domain in if domain = [] then Exact [] else build domain)"

definition pattern_parse :: "ustr \<Rightarrow> domain_pattern" where
  "pattern_parse input =
    (let input = trim input in
     if input = [] then Exact []
     else
       (case strip_prefix star_star_dot input of
          Some domain \<Rightarrow> parse_domain domain ApexAndSubdomains
        | None \<Rightarrow>
            (case strip_prefix star_dot input of
               Some domain \<Rightarrow> parse_domain domain SubdomainsOnly
             | None \<Rightarrow> Exact input)))"

definition parse_domain_for_constraints :: "net_libs \<Rightarrow> ustr \<Rightarrow> ustr" where
  "parse_domain_for_constraints libs domain =
    (let domain = trim_end_dots (trim domain) in
     if domain = [] then []
     else
       (let host = (if starts_with [c_open] domain \<and> ends_with [c_close] domain then take (length domain - 2) (drop 1 domain)
                    else domain) in
        if c_star \<in> set host \<or> c_question \<in> set host \<or> c_percent \<in> set host then domain
        else (case url_host libs host of Some h \<Rightarrow> h | None \<Rightarrow> [])))"

definition parse_for_constraints :: "net_libs \<Rightarrow> ustr \<Rightarrow> domain_pattern" where
  "parse_for_constraints libs input =
    (let input = trim input in
     if input = [] then Exact []
     else
       (case strip_prefix star_star_dot input of
          Some domain \<Rightarrow> ApexAndSubdomains (parse_domain_for_constraints libs domain)
        | None \<Rightarrow>
            (case strip_prefix star_dot input of
               Some domain \<Rightarrow> SubdomainsOnly (parse_domain_for_constraints libs domain)
             | None \<Rightarrow> Exact (parse_domain_for_constraints libs input))))"

definition normalize_domain :: "ustr \<Rightarrow> ustr" where
  "normalize_domain domain = to_ascii_lowercase (trim_end_dots domain)"

definition domain_eq :: "ustr \<Rightarrow> ustr \<Rightarrow> bool" where
  "domain_eq left right \<longleftrightarrow> normalize_domain left = normalize_domain right"

definition is_subdomain_or_equal :: "ustr \<Rightarrow> ustr \<Rightarrow> bool" where
  "is_subdomain_or_equal child parent =
    (let child = normalize_domain child; parent = normalize_domain parent
     in if child = parent then True else ends_with (c_dot # parent) child)"

definition is_strict_subdomain :: "ustr \<Rightarrow> ustr \<Rightarrow> bool" where
  "is_strict_subdomain child parent =
    (let child = normalize_domain child; parent = normalize_domain parent
     in child \<noteq> parent \<and> ends_with (c_dot # parent) child)"

fun pattern_allows :: "domain_pattern \<Rightarrow> domain_pattern \<Rightarrow> bool" where
  "pattern_allows (Exact domain) (Exact candidate) = domain_eq candidate domain"
| "pattern_allows (Exact domain) _ = False"
| "pattern_allows (SubdomainsOnly domain) (Exact candidate) = is_strict_subdomain candidate domain"
| "pattern_allows (SubdomainsOnly domain) (SubdomainsOnly candidate) = is_subdomain_or_equal candidate domain"
| "pattern_allows (SubdomainsOnly domain) (ApexAndSubdomains candidate) = is_strict_subdomain candidate domain"
| "pattern_allows (ApexAndSubdomains domain) (Exact candidate) = is_subdomain_or_equal candidate domain"
| "pattern_allows (ApexAndSubdomains domain) (SubdomainsOnly candidate) = is_subdomain_or_equal candidate domain"
| "pattern_allows (ApexAndSubdomains domain) (ApexAndSubdomains candidate) = is_subdomain_or_equal candidate domain"

subsection \<open>Globs\<close>

definition subdomain_glob :: "ustr \<Rightarrow> ustr" where
  "subdomain_glob domain = [c_question, c_star, c_dot] @ domain"

definition expand_domain_pattern :: "ustr \<Rightarrow> ustr list" where
  "expand_domain_pattern pattern =
    (case pattern_parse pattern of
       Exact domain \<Rightarrow> [domain]
     | SubdomainsOnly domain \<Rightarrow> [subdomain_glob domain]
     | ApexAndSubdomains domain \<Rightarrow> [domain, subdomain_glob domain])"

definition is_global_wildcard_domain_pattern :: "ustr \<Rightarrow> bool" where
  "is_global_wildcard_domain_pattern pattern \<longleftrightarrow> star \<in> set (expand_domain_pattern (normalize_pattern pattern))"

datatype global_wildcard = AllowWildcard | RejectWildcard

fun add_globs :: "net_libs \<Rightarrow> ustr list \<Rightarrow> ustr list \<Rightarrow> net_error + ustr list" where
  "add_globs libs [] globs = Inr globs"
| "add_globs libs (candidate # candidates) globs =
    (if candidate \<in> set globs then add_globs libs candidates globs
     else if \<not> glob_build libs candidate then Inl (InvalidGlob candidate)
     else add_globs libs candidates (globs @ [candidate]))"

fun add_patterns :: "net_libs \<Rightarrow> global_wildcard \<Rightarrow> ustr list \<Rightarrow> ustr list \<Rightarrow> net_error + ustr list" where
  "add_patterns libs w [] globs = Inr globs"
| "add_patterns libs w (pattern # patterns) globs =
    (if w = RejectWildcard \<and> is_global_wildcard_domain_pattern pattern then Inl UnsupportedGlobalWildcard
     else (case add_globs libs (expand_domain_pattern (normalize_pattern pattern)) globs of
             Inl e \<Rightarrow> Inl e
           | Inr globs \<Rightarrow> add_patterns libs w patterns globs))"

definition compile_globset_with_policy :: "net_libs \<Rightarrow> ustr list \<Rightarrow> global_wildcard \<Rightarrow> net_error + ustr list" where
  "compile_globset_with_policy libs patterns w =
    (case add_patterns libs w patterns [] of
       Inl e \<Rightarrow> Inl e
     | Inr globs \<Rightarrow> if globs_build libs globs then Inr globs else Inl InvalidGlobSet)"

definition compile_allowlist_globset :: "net_libs \<Rightarrow> ustr list \<Rightarrow> net_error + ustr list" where
  "compile_allowlist_globset libs patterns = compile_globset_with_policy libs patterns AllowWildcard"

definition compile_denylist_globset :: "net_libs \<Rightarrow> ustr list \<Rightarrow> net_error + ustr list" where
  "compile_denylist_globset libs patterns = compile_globset_with_policy libs patterns RejectWildcard"

definition globs_match :: "net_libs \<Rightarrow> ustr list \<Rightarrow> ustr \<Rightarrow> bool" where
  "globs_match libs globs host \<longleftrightarrow> list_ex (\<lambda>g. glob_match libs g host) globs"

subsection \<open>Compiling\<close>

lemma add_globs_set: "add_globs libs cs globs = Inr gs \<Longrightarrow> set gs = set globs \<union> set cs"
  by (induction libs cs globs rule: add_globs.induct) (auto split: if_splits)

lemma add_patterns_set:
  "add_patterns libs w ps globs = Inr gs \<Longrightarrow>
    set gs = set globs \<union> (\<Union>p\<in>set ps. set (expand_domain_pattern (normalize_pattern p)))
    \<and> (w = RejectWildcard \<longrightarrow> (\<forall>p\<in>set ps. \<not> is_global_wildcard_domain_pattern p))"
  by (induction libs w ps globs rule: add_patterns.induct) (auto split: if_splits sum.splits dest: add_globs_set)

lemma compiled_globs:
  "compile_globset_with_policy libs ps w = Inr gs \<Longrightarrow>
    set gs = (\<Union>p\<in>set ps. set (expand_domain_pattern (normalize_pattern p)))"
  by (auto simp: compile_globset_with_policy_def split: sum.splits if_splits dest: add_patterns_set)

lemma globs_match_compiled:
  assumes "compile_globset_with_policy libs ps w = Inr gs"
  shows "globs_match libs gs h \<longleftrightarrow>
    (\<exists>p\<in>set ps. \<exists>g\<in>set (expand_domain_pattern (normalize_pattern p)). glob_match libs g h)"
  using compiled_globs [OF assms] by (auto simp: globs_match_def list_ex_iff)

end
