(* ===== verification/Net_Config.thy ===== *)
theory Net_Config
  imports Net_Policy Paths
begin

section \<open>Settings of the network proxy (network-proxy/src/config.rs)\<close>

text \<open>
  The settings and the operations on their lists of domains and sockets, the addresses the proxy
  listens on, and what a configured Unix socket path must look like. Logging is left out.
\<close>

subsection \<open>Domains\<close>

datatype domain_permission = DomainNone | DomainAllow | DomainDeny

fun permission_rank :: "domain_permission \<Rightarrow> nat" where
  "permission_rank DomainNone = 0"
| "permission_rank DomainAllow = 1"
| "permission_rank DomainDeny = 2"

text \<open>The derived order: \<open>None < Allow < Deny\<close>.\<close>

instantiation domain_permission :: linorder
begin

definition less_eq_domain_permission :: "domain_permission \<Rightarrow> domain_permission \<Rightarrow> bool" where
  "less_eq_domain_permission a b \<longleftrightarrow> permission_rank a \<le> permission_rank b"

definition less_domain_permission :: "domain_permission \<Rightarrow> domain_permission \<Rightarrow> bool" where
  "less_domain_permission a b \<longleftrightarrow> permission_rank a < permission_rank b"

instance
proof
  fix a b :: domain_permission
  show "a \<le> b \<Longrightarrow> b \<le> a \<Longrightarrow> a = b" by (cases a; cases b) (auto simp: less_eq_domain_permission_def)
qed (auto simp: less_eq_domain_permission_def less_domain_permission_def)

end

record domain_entry =
  de_pattern :: ustr
  de_permission :: domain_permission

type_synonym domain_permissions = "domain_entry list"

definition raise_permission :: "domain_entry \<Rightarrow> domain_entry \<Rightarrow> domain_entry" where
  "raise_permission e x = (if de_pattern x = de_pattern e \<and> de_permission x < de_permission e
     then x\<lparr>de_permission := de_permission e\<rparr> else x)"

definition add_effective :: "domain_entry list \<Rightarrow> domain_entry \<Rightarrow> domain_entry list" where
  "add_effective acc e = (if list_ex (\<lambda>x. de_pattern x = de_pattern e) acc then map (raise_permission e) acc else acc @ [e])"

definition effective_entries :: "domain_permissions \<Rightarrow> domain_entry list" where
  "effective_entries entries = foldl add_effective [] entries"

subsection \<open>Settings\<close>

datatype unix_socket_permission = SocketAllow | SocketNone

text \<open>A \<open>BTreeMap\<close> is the list of its pairs, in the order of the keys.\<close>

type_synonym unix_socket_permissions = "(ustr \<times> unix_socket_permission) list"

datatype network_mode = Limited | Full

fun allows_method :: "network_mode \<Rightarrow> ustr \<Rightarrow> bool" where
  "allows_method Full m = True"
| "allows_method Limited m = (m = lit ''GET'' \<or> m = lit ''HEAD'' \<or> m = lit ''OPTIONS'')"

record network_settings =
  enabled :: bool
  proxy_url :: ustr
  enable_socks5 :: bool
  socks_url :: ustr
  enable_socks5_udp :: bool
  allow_upstream_proxy :: bool
  allow_non_loopback_proxy :: bool
  allow_all_unix_sockets :: bool
  mode :: network_mode
  domains :: "domain_permissions option"
  unix_sockets :: "unix_socket_permissions option"
  allow_local_binding :: bool
  mitm :: bool

definition default_settings :: network_settings where
  "default_settings = \<lparr>enabled = False, proxy_url = lit ''http://127.0.0.1:3128'', enable_socks5 = True,
     socks_url = lit ''http://127.0.0.1:8081'', enable_socks5_udp = True, allow_upstream_proxy = True,
     allow_non_loopback_proxy = False, allow_all_unix_sockets = False, mode = Full, domains = None,
     unix_sockets = None, allow_local_binding = False, mitm = False\<rparr>"

definition domain_entries :: "domain_permission \<Rightarrow> network_settings \<Rightarrow> ustr list option" where
  "domain_entries permission s =
    (case domains s of
       None \<Rightarrow> None
     | Some ds \<Rightarrow>
         (let entries = map de_pattern (filter (\<lambda>e. de_permission e = permission) (effective_entries ds))
          in if entries = [] then None else Some entries))"

definition allowed_domains :: "network_settings \<Rightarrow> ustr list option" where
  "allowed_domains s = domain_entries DomainAllow s"

definition denied_domains :: "network_settings \<Rightarrow> ustr list option" where
  "denied_domains s = domain_entries DomainDeny s"

definition or_empty :: "'a list option \<Rightarrow> 'a list" where
  "or_empty v = (case v of Some xs \<Rightarrow> xs | None \<Rightarrow> [])"

definition allow_unix_sockets :: "network_settings \<Rightarrow> ustr list" where
  "allow_unix_sockets s = (case unix_sockets s of
     Some m \<Rightarrow> map fst (filter (\<lambda>(_, p). p = SocketAllow) m) | None \<Rightarrow> [])"

definition some_if_any :: "'a list \<Rightarrow> 'a list option" where
  "some_if_any xs = (if xs = [] then None else Some xs)"

definition upsert_domain_permission :: "ustr \<Rightarrow> domain_permission \<Rightarrow> (ustr \<Rightarrow> ustr) \<Rightarrow> network_settings \<Rightarrow> network_settings" where
  "upsert_domain_permission host permission canon s =
    (let normalized_host = canon host;
         entries = filter (\<lambda>e. canon (de_pattern e) \<noteq> normalized_host) (or_empty (domains s))
     in s\<lparr>domains := some_if_any (entries @ [\<lparr>de_pattern = host, de_permission = permission\<rparr>])\<rparr>)"

fun push_entries :: "domain_permission \<Rightarrow> ustr list \<Rightarrow> domain_permissions \<Rightarrow> domain_permissions" where
  "push_entries permission [] es = es"
| "push_entries permission (p # ps) es =
    push_entries permission ps
      (let e = \<lparr>de_pattern = p, de_permission = permission\<rparr> in if e \<in> set es then es else es @ [e])"

definition set_domain_entries :: "ustr list \<Rightarrow> domain_permission \<Rightarrow> network_settings \<Rightarrow> network_settings" where
  "set_domain_entries entries permission s =
    s\<lparr>domains := some_if_any (push_entries permission entries
        (filter (\<lambda>e. de_permission e \<noteq> permission) (or_empty (domains s))))\<rparr>"

definition set_allowed_domains :: "ustr list \<Rightarrow> network_settings \<Rightarrow> network_settings" where
  "set_allowed_domains ds s = set_domain_entries ds DomainAllow s"

definition set_denied_domains :: "ustr list \<Rightarrow> network_settings \<Rightarrow> network_settings" where
  "set_denied_domains ds s = set_domain_entries ds DomainDeny s"

text \<open>The order of strings is that of their code points, as that of their UTF-8 bytes.\<close>

fun before :: "ustr \<Rightarrow> ustr \<Rightarrow> bool" where
  "before [] s = (s \<noteq> [])"
| "before (c # cs) [] = False"
| "before (c # cs) (d # ds) = (c < d \<or> c = d \<and> before cs ds)"

fun insert_socket :: "ustr \<Rightarrow> unix_socket_permission \<Rightarrow> unix_socket_permissions \<Rightarrow> unix_socket_permissions" where
  "insert_socket k v [] = [(k, v)]"
| "insert_socket k v ((k', v') # m) =
    (if k = k' then (k, v) # m else if before k k' then (k, v) # (k', v') # m else (k', v') # insert_socket k v m)"

definition set_unix_socket_entries :: "ustr list \<Rightarrow> unix_socket_permission \<Rightarrow> network_settings \<Rightarrow> network_settings" where
  "set_unix_socket_entries entries permission s =
    s\<lparr>unix_sockets := some_if_any (fold (\<lambda>e. insert_socket e permission) entries
        (filter (\<lambda>(_, p). p \<noteq> permission) (or_empty (unix_sockets s))))\<rparr>"

definition set_allow_unix_sockets :: "ustr list \<Rightarrow> network_settings \<Rightarrow> network_settings" where
  "set_allow_unix_sockets entries s = set_unix_socket_entries entries SocketAllow s"

lemma insert_socket_set:
  "map_of (insert_socket k v m) = (map_of m)(k \<mapsto> v)"
  by (induction m) (auto simp: fun_eq_iff)

lemma insert_sockets: "map_of (fold (\<lambda>e. insert_socket e p) es m) k = (if k \<in> set es then Some p else map_of m k)"
  by (induction es arbitrary: m) (auto simp: insert_socket_set)

text \<open>The sockets that are allowed are kept as such.\<close>

lemma set_sockets_allowed:
  "k \<in> set entries \<Longrightarrow> map_of (or_empty (unix_sockets (set_allow_unix_sockets entries s))) k = Some SocketAllow"
  using insert_sockets [of SocketAllow entries _ k]
  by (auto simp: set_allow_unix_sockets_def set_unix_socket_entries_def some_if_any_def or_empty_def [of "Some _"] or_empty_def [of None]
      split: if_splits) (metis map_of.simps(1) option.distinct(1))

subsection \<open>Addresses to listen on\<close>

type_synonym socket_addr = "ip_addr \<times> nat"

definition localhost_at :: "nat \<Rightarrow> socket_addr" where
  "localhost_at port = (V4 (ipv4_of 127 0 0 1), port)"

definition clamp_non_loopback :: "socket_addr \<Rightarrow> bool \<Rightarrow> socket_addr" where
  "clamp_non_loopback addr allow_non_loopback =
    (if is_loopback_ip (fst addr) then addr else if allow_non_loopback then addr else localhost_at (snd addr))"

definition clamp_bind_addrs :: "socket_addr \<Rightarrow> socket_addr \<Rightarrow> network_settings \<Rightarrow> socket_addr \<times> socket_addr" where
  "clamp_bind_addrs http_addr socks_addr cfg =
    (let http_addr = clamp_non_loopback http_addr (allow_non_loopback_proxy cfg);
         socks_addr = clamp_non_loopback socks_addr (allow_non_loopback_proxy cfg)
     in if allow_unix_sockets cfg = [] \<and> \<not> allow_all_unix_sockets cfg then (http_addr, socks_addr)
        else (localhost_at (snd http_addr), localhost_at (snd socks_addr)))"

text \<open>\<open>str::parse::<u16>\<close>: digits, with a plus sign or without.\<close>

definition parse_u16 :: "ustr \<Rightarrow> nat option" where
  "parse_u16 s =
    (let ds = (if length s > 1 \<and> hd s = c_plus then tl s else s)
     in if ds \<noteq> [] \<and> list_all is_ascii_digit ds \<and> foldl (\<lambda>n c. n * 10 + (c - 48)) 0 ds < 65536
        then Some (foldl (\<lambda>n c. n * 10 + (c - 48)) 0 ds) else None)"

definition port_or :: "nat \<Rightarrow> ustr \<Rightarrow> nat" where
  "port_or default_port s = (case parse_u16 s of Some p \<Rightarrow> p | None \<Rightarrow> default_port)"

definition after_scheme :: "ustr \<Rightarrow> ustr" where
  "after_scheme s =
    (case find_index_in (\<lambda>i. starts_with (lit ''://'') (drop i s)) 0 (length s) of
       Some i \<Rightarrow> drop (i + 3) s | None \<Rightarrow> s)"

definition host_with_port :: "ustr \<Rightarrow> ustr \<Rightarrow> nat \<Rightarrow> net_error + ustr \<times> nat" where
  "host_with_port input host port = (if host = [] then Inl (MissingHost input) else Inr (host, port))"

definition parse_host_port_fallback :: "ustr \<Rightarrow> nat \<Rightarrow> net_error + ustr \<times> nat" where
  "parse_host_port_fallback input default_port =
    (let host_port = takeWhile (\<lambda>c. c \<noteq> c_slash) (after_scheme input);
         host_port = (case rsplit_once c_at host_port of Some (_, rest) \<Rightarrow> rest | None \<Rightarrow> host_port)
     in if starts_with [c_open] host_port \<and> c_close \<in> set host_port then
          (let host = takeWhile (\<lambda>c. c \<noteq> c_close) (tl host_port);
               port = (case strip_prefix [c_colon] (drop (length host + 2) host_port) of
                         Some p \<Rightarrow> port_or default_port p | None \<Rightarrow> default_port)
           in host_with_port input host port)
        else
          (case (if count_list host_port c_colon = 1 then rsplit_once c_colon host_port else None) of
             Some (host, port) \<Rightarrow> host_with_port input host (port_or default_port port)
           | None \<Rightarrow> host_with_port input host_port default_port))"

text \<open>\<open>Url::parse\<close> is a parameter: the host and the port of a URL that has a host.\<close>

definition trim_brackets :: "ustr \<Rightarrow> ustr" where
  "trim_brackets s = trim_end_matches (\<lambda>c. c = c_open \<or> c = c_close) (trim_start_matches (\<lambda>c. c = c_open \<or> c = c_close) s)"

definition parse_host_port :: "(ustr \<Rightarrow> (ustr \<times> nat option) option) \<Rightarrow> ustr \<Rightarrow> nat \<Rightarrow> net_error + ustr \<times> nat" where
  "parse_host_port url_parse url default_port =
    (let trimmed = trim url in
     if trimmed = [] then Inl (MissingHost url)
     else if (case parse_ip trimmed of Some (V6 v) \<Rightarrow> True | _ \<Rightarrow> False) \<and> \<not> starts_with [c_open] trimmed
     then Inr (trimmed, default_port)
     else
       (case url_parse (if contains_str (lit ''://'') trimmed then trimmed else lit ''http://'' @ trimmed) of
          Some (host, port) \<Rightarrow>
            host_with_port url (trim_brackets host) (case port of Some p \<Rightarrow> p | None \<Rightarrow> default_port)
        | None \<Rightarrow> parse_host_port_fallback trimmed default_port))"

definition resolve_addr :: "(ustr \<Rightarrow> (ustr \<times> nat option) option) \<Rightarrow> ustr \<Rightarrow> nat \<Rightarrow> net_error + socket_addr" where
  "resolve_addr url_parse url default_port =
    (case parse_host_port url_parse url default_port of
       Inl e \<Rightarrow> Inl e
     | Inr (host, port) \<Rightarrow>
         (let host = (if eq_ignore_ascii_case host (lit ''localhost'') then lit ''127.0.0.1'' else host)
          in Inr (case parse_ip host of Some ip \<Rightarrow> (ip, port) | None \<Rightarrow> localhost_at port)))"

definition format_host_and_port :: "ustr \<Rightarrow> nat \<Rightarrow> ustr" where
  "format_host_and_port host port =
    (if c_colon \<in> set host then [c_open] @ host @ [c_close, c_colon] @ show_nat port else host @ [c_colon] @ show_nat port)"

definition host_and_port_from_network_addr :: "(ustr \<Rightarrow> (ustr \<times> nat option) option) \<Rightarrow> ustr \<Rightarrow> nat \<Rightarrow> ustr" where
  "host_and_port_from_network_addr url_parse v default_port =
    (let trimmed = trim v in
     if trimmed = [] then lit ''<missing>''
     else
       (case parse_host_port url_parse trimmed default_port of
          Inr (host, port) \<Rightarrow> format_host_and_port host port
        | Inl _ \<Rightarrow> format_host_and_port trimmed default_port))"

subsection \<open>Unix sockets\<close>

text \<open>On a Unix build a path is absolute exactly when it starts with a slash.\<close>

definition socket_path_ok :: "ustr \<Rightarrow> bool" where
  "socket_path_ok socket_path \<longleftrightarrow> is_absolute (path_of socket_path)"

fun validate_socket_paths :: "nat \<Rightarrow> ustr list \<Rightarrow> net_error + unit" where
  "validate_socket_paths index [] = Inr ()"
| "validate_socket_paths index (p # ps) =
    (if socket_path_ok p then validate_socket_paths (Suc index) ps else Inl (InvalidSocketPath index p))"

definition validate_unix_socket_allowlist_paths :: "network_settings \<Rightarrow> net_error + unit" where
  "validate_unix_socket_allowlist_paths cfg = validate_socket_paths 0 (allow_unix_sockets cfg)"

definition resolve_runtime :: "(ustr \<Rightarrow> (ustr \<times> nat option) option) \<Rightarrow> network_settings \<Rightarrow> net_error + socket_addr \<times> socket_addr" where
  "resolve_runtime url_parse cfg =
    (case validate_unix_socket_allowlist_paths cfg of
       Inl e \<Rightarrow> Inl e
     | Inr _ \<Rightarrow>
         (case resolve_addr url_parse (proxy_url cfg) 3128 of
            Inl e \<Rightarrow> Inl e
          | Inr http_addr \<Rightarrow>
              (case resolve_addr url_parse (socks_url cfg) 8081 of
                 Inl e \<Rightarrow> Inl e
               | Inr socks_addr \<Rightarrow> Inr (clamp_bind_addrs http_addr socks_addr cfg))))"

end
