(* ===== verification/Net_State.thy ===== *)
theory Net_State
  imports Net_Config
begin

section \<open>Policy of the network proxy (network-proxy/src/state.rs, runtime.rs, network_policy.rs)\<close>

text \<open>
  The constraints of the organisation and their check, the state of the proxy behind its lock, the
  decision about a host, and the decider that may be asked. What the reloader returns is an argument
  of each operation. Logging and audit events are left out.
\<close>

subsection \<open>Constraints (state.rs)\<close>

record proxy_constraints =
  max_enabled :: "bool option"
  max_mode :: "network_mode option"
  max_upstream_proxy :: "bool option"
  max_non_loopback_proxy :: "bool option"
  max_all_unix_sockets :: "bool option"
  managed_allowed_domains :: "ustr list option"
  allowlist_expansion_enabled :: "bool option"
  managed_denied_domains :: "ustr list option"
  denylist_expansion_enabled :: "bool option"
  managed_unix_sockets :: "ustr list option"
  max_local_binding :: "bool option"

fun network_mode_rank :: "network_mode \<Rightarrow> nat" where
  "network_mode_rank Limited = 0"
| "network_mode_rank Full = 1"

fun mode_debug :: "network_mode \<Rightarrow> ustr" where
  "mode_debug Limited = lit ''Limited''"
| "mode_debug Full = lit ''Full''"

definition validate_non_global_wildcard_domain_patterns :: "ustr \<Rightarrow> ustr list \<Rightarrow> net_error + unit" where
  "validate_non_global_wildcard_domain_patterns field patterns =
    (case find is_global_wildcard_domain_pattern patterns of
       Some p \<Rightarrow> Inl (InvalidValue field (trim p) (lit ''exact hosts or scoped wildcards like *.example.com or **.example.com''))
     | None \<Rightarrow> Inr ())"

definition disabled_by_managed_config :: ustr where
  "disabled_by_managed_config = lit ''false (disabled by managed config)''"

text \<open>A switch that may only be on when the organisation lets it.\<close>

definition validate_switch :: "ustr \<Rightarrow> bool \<Rightarrow> bool \<Rightarrow> net_error + unit" where
  "validate_switch field candidate allowed =
    (if candidate \<and> \<not> allowed then Inl (InvalidValue field (lit ''true'') disabled_by_managed_config) else Inr ())"

definition at_most :: "bool option \<Rightarrow> bool" where
  "at_most m = (case m of Some b \<Rightarrow> b | None \<Rightarrow> True)"

definition validate_mode :: "network_mode option \<Rightarrow> network_mode \<Rightarrow> net_error + unit" where
  "validate_mode m candidate =
    (case m of
       None \<Rightarrow> Inr ()
     | Some highest \<Rightarrow>
         if network_mode_rank highest < network_mode_rank candidate
         then Inl (InvalidValue (lit ''network.mode'') (mode_debug candidate) (mode_debug highest @ lit '' or more restrictive''))
         else Inr ())"

definition lowered :: "ustr list \<Rightarrow> ustr list" where
  "lowered entries = remdups (map to_ascii_lowercase entries)"

text \<open>The missing entries are listed as the organisation lists them; the code lists a hash set in no fixed order.\<close>

definition validate_allowed_domains ::
    "net_libs \<Rightarrow> proxy_constraints \<Rightarrow> ustr list \<Rightarrow> ustr list \<Rightarrow> net_error + unit" where
  "validate_allowed_domains libs c overrides candidate =
    (case managed_allowed_domains c of
       None \<Rightarrow> Inr ()
     | Some managed \<Rightarrow>
         (case validate_non_global_wildcard_domain_patterns (lit ''network.allowed_domains'') managed of
            Inl e \<Rightarrow> Inl e
          | Inr _ \<Rightarrow>
              (case allowlist_expansion_enabled c of
                 Some True \<Rightarrow>
                   (let missing = filter (\<lambda>e. e \<notin> set (lowered candidate) \<and> e \<notin> set overrides) (lowered managed) in
                    if missing = [] then Inr ()
                    else Inl (InvalidValue (lit ''network.allowed_domains'') (lit ''missing managed allowed_domains entries'') (debug_list libs missing)))
               | Some False \<Rightarrow>
                   (if set (lowered candidate) = set (lowered managed) - set overrides then Inr ()
                    else Inl (InvalidValue (lit ''network.allowed_domains'') (debug_list libs candidate) (lit ''must match managed allowed_domains'')))
               | None \<Rightarrow>
                   (let invalid = filter (\<lambda>e. \<not> list_ex (\<lambda>m. pattern_allows (parse_for_constraints libs m) (parse_for_constraints libs e)) managed) candidate in
                    if invalid = [] then Inr ()
                    else Inl (InvalidValue (lit ''network.allowed_domains'') (debug_list libs invalid) (lit ''subset of managed allowed_domains''))))))"

definition validate_denied_domains :: "net_libs \<Rightarrow> proxy_constraints \<Rightarrow> ustr list \<Rightarrow> net_error + unit" where
  "validate_denied_domains libs c candidate =
    (case managed_denied_domains c of
       None \<Rightarrow> Inr ()
     | Some managed \<Rightarrow>
         (case validate_non_global_wildcard_domain_patterns (lit ''network.denied_domains'') managed of
            Inl e \<Rightarrow> Inl e
          | Inr _ \<Rightarrow>
              if denylist_expansion_enabled c = Some False then
                (if set (lowered candidate) = set (lowered managed) then Inr ()
                 else Inl (InvalidValue (lit ''network.denied_domains'') (debug_list libs candidate) (lit ''must match managed denied_domains'')))
              else
                (let missing = filter (\<lambda>e. e \<notin> set (lowered candidate)) (lowered managed) in
                 if missing = [] then Inr ()
                 else Inl (InvalidValue (lit ''network.denied_domains'') (lit ''missing managed denied_domains entries'') (debug_list libs missing)))))"

definition validate_unix_sockets :: "net_libs \<Rightarrow> proxy_constraints \<Rightarrow> ustr list \<Rightarrow> net_error + unit" where
  "validate_unix_sockets libs c candidate =
    (case managed_unix_sockets c of
       None \<Rightarrow> Inr ()
     | Some managed \<Rightarrow>
         (let invalid = filter (\<lambda>e. to_ascii_lowercase e \<notin> set (lowered managed)) candidate in
          if invalid = [] then Inr ()
          else Inl (InvalidValue (lit ''network.allow_unix_sockets'') (debug_list libs invalid) (lit ''subset of managed allow_unix_sockets''))))"

fun first_error :: "(net_error + unit) list \<Rightarrow> net_error + unit" where
  "first_error [] = Inr ()"
| "first_error (Inl e # rs) = Inl e"
| "first_error (Inr _ # rs) = first_error rs"

definition validate_policy_against_constraints :: "net_libs \<Rightarrow> network_settings \<Rightarrow> proxy_constraints \<Rightarrow> net_error + unit" where
  "validate_policy_against_constraints libs cfg c =
    (let allowed = or_empty (allowed_domains cfg); denied = or_empty (denied_domains cfg) in
     first_error
       [validate_non_global_wildcard_domain_patterns (lit ''network.denied_domains'') denied,
        validate_switch (lit ''network.enabled'') (enabled cfg) (at_most (max_enabled c)),
        validate_mode (max_mode c) (mode cfg),
        validate_switch (lit ''network.allow_upstream_proxy'') (allow_upstream_proxy cfg) (at_most (max_upstream_proxy c)),
        validate_switch (lit ''network.dangerously_allow_non_loopback_proxy'') (allow_non_loopback_proxy cfg)
          (at_most (max_non_loopback_proxy c)),
        validate_switch (lit ''network.dangerously_allow_all_unix_sockets'') (allow_all_unix_sockets cfg)
          (case max_all_unix_sockets c of Some b \<Rightarrow> b | None \<Rightarrow> managed_unix_sockets c = None),
        validate_switch (lit ''network.allow_local_binding'') (allow_local_binding cfg) (at_most (max_local_binding c)),
        validate_allowed_domains libs c (lowered denied) allowed,
        validate_denied_domains libs c denied,
        validate_unix_sockets libs c (allow_unix_sockets cfg)])"

subsection \<open>State (runtime.rs)\<close>

record blocked_request =
  br_host :: ustr
  br_reason :: ustr
  br_client :: "ustr option"
  br_method :: "ustr option"
  br_mode :: "network_mode option"
  br_protocol :: ustr
  br_decision :: "ustr option"
  br_source :: "ustr option"
  br_port :: "nat option"
  br_timestamp :: int

record config_state =
  settings :: network_settings
  allow_set :: "ustr list"
  deny_set :: "ustr list"
  has_mitm :: bool
  constraints :: proxy_constraints
  blocked :: "blocked_request list"
  blocked_total :: nat

definition build_config_state :: "net_libs \<Rightarrow> network_settings \<Rightarrow> proxy_constraints \<Rightarrow> net_error + config_state" where
  "build_config_state libs cfg c =
    (let allowed = or_empty (allowed_domains cfg); denied = or_empty (denied_domains cfg) in
     case validate_unix_socket_allowlist_paths cfg of Inl e \<Rightarrow> Inl e | Inr _ \<Rightarrow>
     case validate_non_global_wildcard_domain_patterns (lit ''network.denied_domains'') denied of Inl e \<Rightarrow> Inl e | Inr _ \<Rightarrow>
     case compile_denylist_globset libs denied of Inl e \<Rightarrow> Inl e | Inr deny \<Rightarrow>
     case compile_allowlist_globset libs allowed of Inl e \<Rightarrow> Inl e | Inr allow \<Rightarrow>
     case (if mitm cfg then mitm_new libs (allow_upstream_proxy cfg) else None) of Some e \<Rightarrow> Inl (MitmFailed e) | None \<Rightarrow>
     Inr \<lparr>settings = cfg, allow_set = allow, deny_set = deny, has_mitm = mitm cfg, constraints = c, blocked = [], blocked_total = 0\<rparr>)"

type_synonym reload = "net_error + config_state option"
type_synonym 'a proxy_step = "(net_error, 'a, config_state) outcome"

definition reload_if_needed :: "reload \<Rightarrow> config_state \<Rightarrow> unit proxy_step" where
  "reload_if_needed r s =
    (case r of
       Inl e \<Rightarrow> (Inl e, s)
     | Inr None \<Rightarrow> (Inr (), s)
     | Inr (Some n) \<Rightarrow> (Inr (), n\<lparr>blocked := blocked s, blocked_total := blocked_total s\<rparr>))"

definition force_reload :: "net_error + config_state \<Rightarrow> config_state \<Rightarrow> unit proxy_step" where
  "force_reload r s = (case r of Inl e \<Rightarrow> (Inl e, s) | Inr n \<Rightarrow> (Inr (), n\<lparr>blocked := blocked s\<rparr>))"

definition replace_config_state :: "reload \<Rightarrow> config_state \<Rightarrow> config_state \<Rightarrow> unit proxy_step" where
  "replace_config_state r n s =
    try_then (reload_if_needed r s) (\<lambda>_ s. (Inr (), n\<lparr>blocked := blocked s, blocked_total := blocked_total s\<rparr>))"

definition read_state :: "reload \<Rightarrow> (config_state \<Rightarrow> 'a) \<Rightarrow> config_state \<Rightarrow> 'a proxy_step" where
  "read_state r f s = try_then (reload_if_needed r s) (\<lambda>_ s. (Inr (f s), s))"

definition current_cfg :: "reload \<Rightarrow> config_state \<Rightarrow> network_settings proxy_step" where
  "current_cfg r s = read_state r settings s"

definition current_patterns :: "reload \<Rightarrow> config_state \<Rightarrow> (ustr list \<times> ustr list) proxy_step" where
  "current_patterns r s =
    read_state r (\<lambda>s. (or_empty (allowed_domains (settings s)), or_empty (denied_domains (settings s)))) s"

definition proxy_enabled :: "reload \<Rightarrow> config_state \<Rightarrow> bool proxy_step" where
  "proxy_enabled r s = read_state r (\<lambda>s. enabled (settings s)) s"

definition current_mode :: "reload \<Rightarrow> config_state \<Rightarrow> network_mode proxy_step" where
  "current_mode r s = read_state r (\<lambda>s. mode (settings s)) s"

definition mitm_state :: "reload \<Rightarrow> config_state \<Rightarrow> bool proxy_step" where
  "mitm_state r s = read_state r has_mitm s"

definition upstream_proxy_allowed :: "reload \<Rightarrow> config_state \<Rightarrow> bool proxy_step" where
  "upstream_proxy_allowed r s = read_state r (\<lambda>s. allow_upstream_proxy (settings s)) s"

definition method_allowed :: "reload \<Rightarrow> ustr \<Rightarrow> config_state \<Rightarrow> bool proxy_step" where
  "method_allowed r m s = read_state r (\<lambda>s. allows_method (mode (settings s)) m) s"

subsection \<open>Hosts\<close>

datatype host_block_reason = Denied | NotAllowed | NotAllowedLocal
datatype host_block_decision = Allowed | Blocked host_block_reason

fun reason_str :: "host_block_reason \<Rightarrow> ustr" where
  "reason_str Denied = lit ''denied''"
| "reason_str NotAllowed = lit ''not_allowed''"
| "reason_str NotAllowedLocal = lit ''not_allowed_local''"

definition is_explicit_local_allowlisted :: "ustr list \<Rightarrow> ustr \<Rightarrow> bool" where
  "is_explicit_local_allowlisted allowed host \<longleftrightarrow>
    list_ex (\<lambda>p. let p = trim p in
        if p = star \<or> starts_with star_dot p \<or> starts_with star_star_dot p then False
        else if c_star \<in> set p \<or> c_question \<in> set p then False
        else normalize_host p = host) allowed"

definition host_resolves_to_non_public_ip :: "net_libs \<Rightarrow> ustr \<Rightarrow> nat \<Rightarrow> bool" where
  "host_resolves_to_non_public_ip libs host port =
    (case parse_ip host of
       Some ip \<Rightarrow> is_non_public_ip ip
     | None \<Rightarrow>
         (case lookup_host libs host port of
            Resolved addrs \<Rightarrow> list_ex is_non_public_ip addrs
          | LookupFailed \<Rightarrow> True
          | LookupTimedOut \<Rightarrow> True))"

definition local_literal :: "ustr \<Rightarrow> bool" where
  "local_literal host =
    (if is_loopback_host host then True
     else (case parse_ip (without_scope host) of Some ip \<Rightarrow> is_non_public_ip ip | None \<Rightarrow> False))"

definition decide_host :: "net_libs \<Rightarrow> ustr \<Rightarrow> nat \<Rightarrow> config_state \<Rightarrow> host_block_decision" where
  "decide_host libs host port s =
    (let allowed = allowed_domains (settings s) in
     if globs_match libs (deny_set s) host then Blocked Denied
     else if \<not> allow_local_binding (settings s)
          \<and> (if local_literal host then \<not> is_explicit_local_allowlisted (or_empty allowed) host
             else host_resolves_to_non_public_ip libs host port)
     then Blocked NotAllowedLocal
     else if allowed = None \<or> \<not> globs_match libs (allow_set s) host then Blocked NotAllowed
     else Allowed)"

definition host_blocked :: "net_libs \<Rightarrow> reload \<Rightarrow> ustr \<Rightarrow> nat \<Rightarrow> config_state \<Rightarrow> host_block_decision proxy_step" where
  "host_blocked libs r host port s =
    try_then (reload_if_needed r s)
      (\<lambda>_ s. case host_parse host of
          Inl _ \<Rightarrow> (Inr (Blocked NotAllowed), s)
        | Inr host \<Rightarrow> (Inr (decide_host libs host port s), s))"

subsection \<open>Blocked requests\<close>

definition MAX_BLOCKED_EVENTS :: nat where
  "MAX_BLOCKED_EVENTS = 200"

definition U64_MAX :: nat where
  "U64_MAX = 2 ^ 64 - 1"

definition record_blocked :: "reload \<Rightarrow> blocked_request \<Rightarrow> config_state \<Rightarrow> unit proxy_step" where
  "record_blocked r entry s =
    try_then (reload_if_needed r s)
      (\<lambda>_ s. let b = blocked s @ [entry] in
         (Inr (), s\<lparr>blocked := drop (length b - MAX_BLOCKED_EVENTS) b, blocked_total := min (blocked_total s + 1) U64_MAX\<rparr>))"

definition blocked_snapshot :: "reload \<Rightarrow> config_state \<Rightarrow> blocked_request list proxy_step" where
  "blocked_snapshot r s = read_state r blocked s"

definition drain_blocked :: "reload \<Rightarrow> config_state \<Rightarrow> blocked_request list proxy_step" where
  "drain_blocked r s = try_then (reload_if_needed r s) (\<lambda>_ s. (Inr (blocked s), s\<lparr>blocked := []\<rparr>))"

subsection \<open>Unix sockets\<close>

text \<open>
  \<open>macos\<close> is the build's \<open>cfg!(target_os = "macos")\<close>, \<open>canonicalize\<close> the file system's. Entries
  that are no absolute path are ignored.
\<close>

definition socket_matches :: "(path_buf \<Rightarrow> path_buf option) \<Rightarrow> path_buf \<Rightarrow> ustr \<Rightarrow> bool" where
  "socket_matches canonicalize requested allowed =
    (let allowed_path = normalize_path (path_of allowed) in
     socket_path_ok allowed \<and>
     (allowed_path = requested \<or> (canonicalize requested \<noteq> None \<and> canonicalize allowed_path = canonicalize requested)))"

definition is_unix_socket_allowed ::
    "bool \<Rightarrow> (path_buf \<Rightarrow> path_buf option) \<Rightarrow> reload \<Rightarrow> ustr \<Rightarrow> config_state \<Rightarrow> bool proxy_step" where
  "is_unix_socket_allowed macos canonicalize r p s =
    try_then (reload_if_needed r s)
      (\<lambda>_ s. (Inr
         (if \<not> macos then False
          else if \<not> is_absolute (path_of p) then False
          else if allow_all_unix_sockets (settings s) then True
          else list_ex (socket_matches canonicalize (normalize_path (path_of p))) (allow_unix_sockets (settings s))), s))"

subsection \<open>Changes\<close>

text \<open>
  An operation that changes the policy reads the state, computes without the lock, and writes when
  nobody changed the state in between; otherwise it starts again. A turn is what the reloader
  returns and what other tasks do between the read and the write. With the turns used up the
  operation has not returned yet (\<open>None\<close>).
\<close>

type_synonym turn = "reload \<times> (config_state \<Rightarrow> config_state)"

fun set_network_mode :: "net_libs \<Rightarrow> network_mode \<Rightarrow> turn list \<Rightarrow> config_state \<Rightarrow> unit proxy_step option" where
  "set_network_mode libs m [] s = None"
| "set_network_mode libs m ((r, others) # turns) s =
    (case reload_if_needed r s of
       (Inl e, s) \<Rightarrow> Some (Inl e, s)
     | (Inr _, s) \<Rightarrow>
         (case validate_policy_against_constraints libs ((settings s)\<lparr>mode := m\<rparr>) (constraints s) of
            Inl e \<Rightarrow> Some (Inl e, others s)
          | Inr _ \<Rightarrow>
              (let now = others s in
               if constraints now \<noteq> constraints s then set_network_mode libs m turns now
               else Some (Inr (), now\<lparr>settings := (settings now)\<lparr>mode := m\<rparr>\<rparr>))))"

datatype domain_list_kind = AllowList | DenyList

fun kind_permission :: "domain_list_kind \<Rightarrow> domain_permission" where
  "kind_permission AllowList = DomainAllow"
| "kind_permission DenyList = DomainDeny"

fun kind_entries :: "domain_list_kind \<Rightarrow> network_settings \<Rightarrow> ustr list" where
  "kind_entries AllowList s = or_empty (allowed_domains s)"
| "kind_entries DenyList s = or_empty (denied_domains s)"

fun kind_opposite_entries :: "domain_list_kind \<Rightarrow> network_settings \<Rightarrow> ustr list" where
  "kind_opposite_entries AllowList s = or_empty (denied_domains s)"
| "kind_opposite_entries DenyList s = or_empty (allowed_domains s)"

definition lists_host :: "ustr \<Rightarrow> ustr list \<Rightarrow> bool" where
  "lists_host host entries \<longleftrightarrow> list_ex (\<lambda>e. normalize_host e = host) entries"

fun update_turns :: "net_libs \<Rightarrow> ustr \<Rightarrow> domain_list_kind \<Rightarrow> turn list \<Rightarrow> config_state \<Rightarrow> unit proxy_step option" where
  "update_turns libs host k [] s = None"
| "update_turns libs host k ((r, others) # turns) s =
    (case reload_if_needed r s of
       (Inl e, s) \<Rightarrow> Some (Inl e, s)
     | (Inr _, s) \<Rightarrow>
         if lists_host host (kind_entries k (settings s)) \<and> \<not> lists_host host (kind_opposite_entries k (settings s))
         then Some (Inr (), others s)
         else
           (let candidate = upsert_domain_permission host (kind_permission k) normalize_host (settings s) in
            case validate_policy_against_constraints libs candidate (constraints s) of
              Inl e \<Rightarrow> Some (Inl e, others s)
            | Inr _ \<Rightarrow>
                (case build_config_state libs candidate (constraints s) of
                   Inl e \<Rightarrow> Some (Inl e, others s)
                 | Inr n \<Rightarrow>
                     (let now = others s in
                      if constraints now \<noteq> constraints s \<or> settings now \<noteq> settings s then update_turns libs host k turns now
                      else Some (Inr (), n\<lparr>blocked := blocked s, blocked_total := blocked_total s\<rparr>)))))"

definition update_domain_list ::
    "net_libs \<Rightarrow> ustr \<Rightarrow> domain_list_kind \<Rightarrow> turn list \<Rightarrow> config_state \<Rightarrow> unit proxy_step option" where
  "update_domain_list libs host k turns s =
    (case host_parse host of
       Inl e \<Rightarrow> Some (Inl e, s)
     | Inr host \<Rightarrow> update_turns libs host k turns s)"

subsection \<open>Decisions (network_policy.rs)\<close>

datatype network_protocol = Http | HttpsConnect | Socks5Tcp | Socks5Udp

datatype network_policy_decision = PolicyDeny | PolicyAsk

datatype network_decision_source = BaselinePolicy | ModeGuard | ProxyState | Decider

record network_policy_request =
  req_protocol :: network_protocol
  req_host :: ustr
  req_port :: nat
  req_client_addr :: "ustr option"
  req_method :: "ustr option"
  req_command :: "ustr option"
  req_exec_policy_hint :: "ustr option"

datatype network_decision = NetAllow | NetDeny ustr network_decision_source network_policy_decision

definition reason_or_default :: "ustr \<Rightarrow> ustr" where
  "reason_or_default reason = (if reason = [] then lit ''policy_denied'' else reason)"

definition deny_with_source :: "ustr \<Rightarrow> network_decision_source \<Rightarrow> network_decision" where
  "deny_with_source reason source = NetDeny (reason_or_default reason) source PolicyDeny"

definition ask_with_source :: "ustr \<Rightarrow> network_decision_source \<Rightarrow> network_decision" where
  "ask_with_source reason source = NetDeny (reason_or_default reason) source PolicyAsk"

fun map_decider_decision :: "network_decision \<Rightarrow> network_decision" where
  "map_decider_decision NetAllow = NetAllow"
| "map_decider_decision (NetDeny reason source decision) = NetDeny reason Decider decision"

type_synonym decider = "network_policy_request \<Rightarrow> network_decision"

definition evaluate_host_policy ::
    "net_libs \<Rightarrow> reload \<Rightarrow> decider option \<Rightarrow> network_policy_request \<Rightarrow> config_state \<Rightarrow> network_decision proxy_step" where
  "evaluate_host_policy libs r decider request s =
    try_then (host_blocked libs r (req_host request) (req_port request) s)
      (\<lambda>d s. (Inr
         (case d of
            Allowed \<Rightarrow> NetAllow
          | Blocked NotAllowed \<Rightarrow>
              (case decider of
                 Some decide \<Rightarrow> map_decider_decision (decide request)
               | None \<Rightarrow> deny_with_source (reason_str NotAllowed) BaselinePolicy)
          | Blocked reason \<Rightarrow> deny_with_source (reason_str reason) BaselinePolicy), s))"

end
