(* ===== verification/Net_Requests.thy ===== *)
theory Net_Requests
  imports Net_State
begin

section \<open>Requests to the network proxy (network-proxy/src/http_proxy.rs, socks5.rs, mitm.rs, responses.rs)\<close>

text \<open>
  What the listeners do with a request until they answer it or hand it on: \<open>CONNECT\<close>, plain HTTP,
  SOCKS over TCP and UDP, and the requests inside an intercepted tunnel. Reading the request from the
  connection, logging and audit events are left out; that the state is attached to the request, which
  the listeners do, is taken for granted.

  The state is shared. Each access is one moment: what the reloader returns, what the other tasks
  did since the last access, and the time.
\<close>

record moment =
  reloaded :: reload
  meanwhile :: "config_state \<Rightarrow> config_state"
  clock :: int

type_synonym world = "nat \<Rightarrow> moment"

definition at :: "world \<Rightarrow> nat \<Rightarrow> (reload \<Rightarrow> config_state \<Rightarrow> 'a proxy_step) \<Rightarrow> config_state \<Rightarrow> 'a proxy_step" where
  "at w k operation s = operation (reloaded (w k)) (meanwhile (w k) s)"

text \<open>\<open>map_err\<close> to a fixed answer.\<close>

definition or_answer :: "'r \<Rightarrow> 'a proxy_step \<Rightarrow> ('r, 'a, config_state) outcome" where
  "or_answer answer m = (case m of (Inl _, s) \<Rightarrow> (Inl answer, s) | (Inr a, s) \<Rightarrow> (Inr a, s))"

subsection \<open>Answers (responses.rs, reasons.rs)\<close>

definition REASON_METHOD_NOT_ALLOWED :: ustr where "REASON_METHOD_NOT_ALLOWED = lit ''method_not_allowed''"
definition REASON_MITM_REQUIRED :: ustr where "REASON_MITM_REQUIRED = lit ''mitm_required''"
definition REASON_PROXY_DISABLED :: ustr where "REASON_PROXY_DISABLED = lit ''proxy_disabled''"

fun protocol_str :: "network_protocol \<Rightarrow> ustr" where
  "protocol_str Http = lit ''http''"
| "protocol_str HttpsConnect = lit ''https_connect''"
| "protocol_str Socks5Tcp = lit ''socks5_tcp''"
| "protocol_str Socks5Udp = lit ''socks5_udp''"

fun decision_str :: "network_policy_decision \<Rightarrow> ustr" where
  "decision_str PolicyDeny = lit ''deny''"
| "decision_str PolicyAsk = lit ''ask''"

fun source_str :: "network_decision_source \<Rightarrow> ustr" where
  "source_str BaselinePolicy = lit ''baseline_policy''"
| "source_str ModeGuard = lit ''mode_guard''"
| "source_str ProxyState = lit ''proxy_state''"
| "source_str Decider = lit ''decider''"

definition blocked_header_value :: "ustr \<Rightarrow> ustr" where
  "blocked_header_value reason =
    (if reason = reason_str NotAllowed \<or> reason = reason_str NotAllowedLocal then lit ''blocked-by-allowlist''
     else if reason = reason_str Denied then lit ''blocked-by-denylist''
     else if reason = REASON_METHOD_NOT_ALLOWED then lit ''blocked-by-method-policy''
     else if reason = REASON_MITM_REQUIRED then lit ''blocked-by-mitm-required''
     else lit ''blocked-by-policy'')"

definition blocked_message :: "ustr \<Rightarrow> ustr" where
  "blocked_message reason =
    (if reason = reason_str NotAllowed then lit ''Domain not in allowlist.''
     else if reason = reason_str NotAllowedLocal then lit ''Sandbox policy blocks local/private network addresses.''
     else if reason = reason_str Denied then lit ''Domain denied by the sandbox policy.''
     else if reason = REASON_METHOD_NOT_ALLOWED then lit ''Method not allowed in limited mode.''
     else if reason = REASON_MITM_REQUIRED then lit ''MITM required for limited HTTPS.''
     else if reason = REASON_PROXY_DISABLED then lit ''network proxy is disabled''
     else lit ''Request blocked by network policy.'')"

record policy_details =
  pd_decision :: network_policy_decision
  pd_reason :: ustr
  pd_source :: network_decision_source
  pd_protocol :: network_protocol
  pd_host :: ustr
  pd_port :: nat

record blocked_response =
  bl_host :: ustr
  bl_reason :: ustr
  bl_decision :: "ustr option"
  bl_source :: "ustr option"
  bl_protocol :: "ustr option"
  bl_port :: "nat option"
  bl_message :: "ustr option"

text \<open>A text is \<open>text/plain\<close>, the description of a blocked request JSON, with \<open>"status": "blocked"\<close>.\<close>

datatype response_body = TextBody ustr | JsonBody blocked_response

record http_response =
  status :: nat
  proxy_error :: "ustr option"
  response_body :: response_body

definition text_response :: "nat \<Rightarrow> ustr \<Rightarrow> http_response" where
  "text_response code body = \<lparr>status = code, proxy_error = None, response_body = TextBody body\<rparr>"

definition blocked_message_with_policy :: "ustr \<Rightarrow> policy_details \<Rightarrow> ustr" where
  "blocked_message_with_policy reason details = blocked_message reason"

definition blocked_text_response :: "ustr \<Rightarrow> http_response" where
  "blocked_text_response reason =
    \<lparr>status = 403, proxy_error = Some (blocked_header_value reason), response_body = TextBody (blocked_message reason)\<rparr>"

definition blocked_text_response_with_policy :: "ustr \<Rightarrow> policy_details \<Rightarrow> http_response" where
  "blocked_text_response_with_policy reason details =
    \<lparr>status = 403, proxy_error = Some (blocked_header_value reason),
     response_body = TextBody (blocked_message_with_policy reason details)\<rparr>"

definition json_blocked :: "ustr \<Rightarrow> ustr \<Rightarrow> policy_details option \<Rightarrow> http_response" where
  "json_blocked host reason details =
    \<lparr>status = 403, proxy_error = Some (blocked_header_value reason), response_body = JsonBody
      \<lparr>bl_host = host, bl_reason = reason,
       bl_decision = map_option (\<lambda>d. decision_str (pd_decision d)) details,
       bl_source = map_option (\<lambda>d. source_str (pd_source d)) details,
       bl_protocol = map_option (\<lambda>d. protocol_str (pd_protocol d)) details,
       bl_port = map_option pd_port details,
       bl_message = map_option (blocked_message_with_policy reason) details\<rparr>\<rparr>"

definition internal_error :: http_response where
  "internal_error = text_response 500 (lit ''error'')"

text \<open>A refusal is recorded, whether or not the recording fails, and answered.\<close>

definition refuse :: "world \<Rightarrow> nat \<Rightarrow> blocked_request \<Rightarrow> 'r \<Rightarrow> config_state \<Rightarrow> ('r, 'a, config_state) outcome" where
  "refuse w k entry answer s = (Inl answer, snd (at w k (\<lambda>r. record_blocked r (entry\<lparr>br_timestamp := clock (w k)\<rparr>)) s))"

definition policy_entry :: "policy_details \<Rightarrow> ustr option \<Rightarrow> ustr option \<Rightarrow> network_mode option \<Rightarrow> ustr \<Rightarrow> blocked_request" where
  "policy_entry d client meth md label =
    \<lparr>br_host = pd_host d, br_reason = pd_reason d, br_client = client, br_method = meth, br_mode = md,
     br_protocol = label, br_decision = Some (decision_str (pd_decision d)), br_source = Some (source_str (pd_source d)),
     br_port = Some (pd_port d), br_timestamp = 0\<rparr>"

definition proxy_disabled_response ::
    "world \<Rightarrow> nat \<Rightarrow> ustr \<Rightarrow> nat \<Rightarrow> ustr option \<Rightarrow> ustr option \<Rightarrow> network_protocol \<Rightarrow> config_state \<Rightarrow>
      (http_response, 'a, config_state) outcome" where
  "proxy_disabled_response w k host port client meth protocol s =
    (let d = \<lparr>pd_decision = PolicyDeny, pd_reason = REASON_PROXY_DISABLED, pd_source = ProxyState,
              pd_protocol = protocol, pd_host = host, pd_port = port\<rparr>
     in refuse w k (policy_entry d client meth None (protocol_str protocol))
          (text_response 503 (blocked_message_with_policy REASON_PROXY_DISABLED d)) s)"

text \<open>
  The policy is asked. A denial is recorded and answered with \<open>denied\<close>; an error is answered with \<open>failed\<close>.
\<close>

definition ask_policy ::
    "net_libs \<Rightarrow> world \<Rightarrow> nat \<Rightarrow> decider option \<Rightarrow> network_policy_request \<Rightarrow> ustr \<Rightarrow> 'r \<Rightarrow>
      (policy_details \<Rightarrow> 'r) \<Rightarrow> config_state \<Rightarrow> ('r, unit, config_state) outcome" where
  "ask_policy libs w k decider request label failed denied s =
    try_then (or_answer failed (at w k (\<lambda>r. evaluate_host_policy libs r decider request) s))
      (\<lambda>decision s. case decision of
          NetAllow \<Rightarrow> (Inr (), s)
        | NetDeny reason source decision \<Rightarrow>
            (let d = \<lparr>pd_decision = decision, pd_reason = reason, pd_source = source,
                      pd_protocol = req_protocol request, pd_host = req_host request, pd_port = req_port request\<rparr>
             in refuse w (k + 1) (policy_entry d (req_client_addr request) (req_method request) None label) (denied d) s))"

subsection \<open>Requests (http_proxy.rs)\<close>

text \<open>
  What the HTTP library reads off a request: the context (the authority as it stands, with the port it
  names or the default of its scheme), the \<open>Host\<close> header, and the header that names a Unix socket
  (\<open>None\<close> inside when it is not text).
\<close>

record request_context =
  ctx_authority :: "ustr \<times> nat option"
  ctx_host_with_port :: "ustr \<times> nat"
  ctx_default_port :: bool

record proxy_request =
  rq_method :: ustr
  rq_client :: "ustr option"
  rq_context :: "request_context option"
  rq_absolute :: bool
  rq_host_header :: "unit + (ustr \<times> nat option) option"
  rq_unix_socket :: "ustr option option"

definition policy_request :: "network_protocol \<Rightarrow> ustr \<Rightarrow> nat \<Rightarrow> ustr option \<Rightarrow> ustr option \<Rightarrow> network_policy_request" where
  "policy_request protocol host port client meth =
    \<lparr>req_protocol = protocol, req_host = host, req_port = port, req_client_addr = client, req_method = meth,
     req_command = None, req_exec_policy_hint = None\<rparr>"

record tunnel_grant =
  tg_target :: "ustr \<times> nat"
  tg_mode :: network_mode
  tg_mitm :: bool

definition http_connect_accept ::
    "net_libs \<Rightarrow> world \<Rightarrow> decider option \<Rightarrow> proxy_request \<Rightarrow> config_state \<Rightarrow> (http_response, tunnel_grant, config_state) outcome" where
  "http_connect_accept libs w decider req s =
    (case rq_context req of
       None \<Rightarrow> (Inl (text_response 400 (lit ''missing authority'')), s)
     | Some ctx \<Rightarrow>
         (case ctx_host_with_port ctx of (target_host, port) \<Rightarrow>
          (let host = normalize_host target_host; meth = Some (lit ''CONNECT'') in
           if host = [] then (Inl (text_response 400 (lit ''invalid host'')), s)
           else
             try_then (or_answer internal_error (at w 0 proxy_enabled s)) (\<lambda>on s.
             if \<not> on then proxy_disabled_response w 1 host port (rq_client req) meth HttpsConnect s
             else
             try_then (ask_policy libs w 1 decider (policy_request HttpsConnect host port (rq_client req) meth)
                 (lit ''http-connect'') (text_response 500 (lit ''error''))
                 (\<lambda>d. blocked_text_response_with_policy (pd_reason d) d) s) (\<lambda>_ s.
             try_then (or_answer internal_error (at w 3 current_mode s)) (\<lambda>m s.
             try_then (or_answer (text_response 500 (lit ''error'')) (at w 4 mitm_state s)) (\<lambda>has s.
             if m = Limited \<and> \<not> has then
               (let d = \<lparr>pd_decision = PolicyDeny, pd_reason = REASON_MITM_REQUIRED, pd_source = ModeGuard,
                         pd_protocol = HttpsConnect, pd_host = host, pd_port = port\<rparr>
                in refuse w 5 (policy_entry d (rq_client req) meth (Some Limited) (lit ''http-connect''))
                     (blocked_text_response_with_policy REASON_MITM_REQUIRED d) s)
             else (Inr \<lparr>tg_target = (target_host, port), tg_mode = m, tg_mitm = has\<rparr>, s))))))))"

datatype tunnel =
    Intercept ustr nat network_mode
  | ForwardTunnel bool

text \<open>
  The tunnel after the answer: intercepted, or forwarded, with the proxy of the environment or without.
\<close>

definition http_connect_proxy :: "world \<Rightarrow> tunnel_grant \<Rightarrow> config_state \<Rightarrow> tunnel \<times> config_state" where
  "http_connect_proxy w g s =
    (case tg_target g of (target_host, port) \<Rightarrow>
     if tg_mode g = Limited \<and> tg_mitm g then (Intercept (normalize_host target_host) port (tg_mode g), s)
     else (case at w 0 upstream_proxy_allowed s of
             (Inr allowed, s) \<Rightarrow> (ForwardTunnel allowed, s)
           | (Inl _, s) \<Rightarrow> (ForwardTunnel False, s)))"

text \<open>\<open>same_host\<close> is the comparison of hosts of the HTTP library.\<close>

definition host_mismatch :: ustr where
  "host_mismatch = lit ''Host header does not match request target''"

definition validate_absolute_form_host_header ::
    "(ustr \<Rightarrow> ustr \<Rightarrow> bool) \<Rightarrow> proxy_request \<Rightarrow> request_context \<Rightarrow> ustr + unit" where
  "validate_absolute_form_host_header same_host req ctx =
    (if \<not> rq_absolute req then Inr ()
     else
       (case rq_host_header req of
          Inl _ \<Rightarrow> Inl (lit ''invalid Host header'')
        | Inr None \<Rightarrow> Inr ()
        | Inr (Some (host, port)) \<Rightarrow>
            (case ctx_authority ctx of (ctx_host, ctx_port) \<Rightarrow>
             if \<not> same_host host ctx_host then Inl host_mismatch
             else
               (case port of
                  Some p \<Rightarrow> if Some p \<noteq> ctx_port then Inl host_mismatch else Inr ()
                | None \<Rightarrow> if \<not> ctx_default_port ctx then Inl host_mismatch else Inr ()))))"

datatype hand_on =
    ServeUpstream bool
  | ServeUnixSocket ustr

text \<open>Where a plain request goes; what comes back from there is not modelled.\<close>

definition serve_unix_socket ::
    "bool \<Rightarrow> (path_buf \<Rightarrow> path_buf option) \<Rightarrow> world \<Rightarrow> bool \<Rightarrow> proxy_request \<Rightarrow> ustr option \<Rightarrow> config_state \<Rightarrow>
      (http_response, hand_on, config_state) outcome" where
  "serve_unix_socket macos canonicalize w method_ok req header s =
    (case header of
       None \<Rightarrow> (Inl (text_response 400 (lit ''invalid x-unix-socket header'')), s)
     | Some socket_path \<Rightarrow>
         try_then (or_answer internal_error (at w 1 proxy_enabled s)) (\<lambda>on s.
         if \<not> on then proxy_disabled_response w 2 socket_path 0 (rq_client req) (Some (rq_method req)) Http s
         else if \<not> method_ok then (Inl (json_blocked (lit ''unix-socket'') REASON_METHOD_NOT_ALLOWED None), s)
         else if \<not> macos then (Inl (text_response 501 (lit ''unix sockets unsupported'')), s)
         else
           try_then (or_answer (text_response 500 (lit ''error''))
               (at w 2 (\<lambda>r. is_unix_socket_allowed macos canonicalize r socket_path) s)) (\<lambda>ok s.
           if ok then (Inr (ServeUnixSocket socket_path), s)
           else (Inl (json_blocked (lit ''unix-socket'') (reason_str NotAllowed) None), s))))"

definition serve_host ::
    "net_libs \<Rightarrow> (ustr \<Rightarrow> ustr \<Rightarrow> bool) \<Rightarrow> world \<Rightarrow> decider option \<Rightarrow> bool \<Rightarrow> proxy_request \<Rightarrow> config_state \<Rightarrow>
      (http_response, hand_on, config_state) outcome" where
  "serve_host libs same_host w decider method_ok req s =
    (case rq_context req of
       None \<Rightarrow> (Inl (text_response 400 (lit ''missing host'')), s)
     | Some ctx \<Rightarrow>
         (case ctx_host_with_port ctx of (target_host, port) \<Rightarrow>
          (let host = normalize_host target_host; meth = Some (rq_method req) in
           case validate_absolute_form_host_header same_host req ctx of
             Inl reason \<Rightarrow> (Inl (text_response 400 reason), s)
           | Inr _ \<Rightarrow>
               try_then (or_answer internal_error (at w 1 proxy_enabled s)) (\<lambda>on s.
               if \<not> on then proxy_disabled_response w 2 host port (rq_client req) meth Http s
               else
               try_then (ask_policy libs w 2 decider (policy_request Http host port (rq_client req) meth)
                   (lit ''http'') (text_response 500 (lit ''error''))
                   (\<lambda>d. json_blocked host (pd_reason d) (Some d)) s) (\<lambda>_ s.
               if \<not> method_ok then
                 (let d = \<lparr>pd_decision = PolicyDeny, pd_reason = REASON_METHOD_NOT_ALLOWED, pd_source = ModeGuard,
                           pd_protocol = Http, pd_host = host, pd_port = port\<rparr>
                  in refuse w 4 (policy_entry d (rq_client req) meth (Some Limited) (lit ''http''))
                       (json_blocked host REASON_METHOD_NOT_ALLOWED (Some d)) s)
               else
                 try_then (or_answer internal_error (at w 4 upstream_proxy_allowed s))
                   (\<lambda>allowed s. (Inr (ServeUpstream allowed), s)))))))"

definition http_plain_proxy ::
    "net_libs \<Rightarrow> bool \<Rightarrow> (path_buf \<Rightarrow> path_buf option) \<Rightarrow> (ustr \<Rightarrow> ustr \<Rightarrow> bool) \<Rightarrow> world \<Rightarrow> decider option \<Rightarrow>
      proxy_request \<Rightarrow> config_state \<Rightarrow> (http_response, hand_on, config_state) outcome" where
  "http_plain_proxy libs macos canonicalize same_host w decider req s =
    try_then (or_answer internal_error (at w 0 (\<lambda>r. method_allowed r (rq_method req)) s)) (\<lambda>method_ok s.
    case rq_unix_socket req of
      Some header \<Rightarrow> serve_unix_socket macos canonicalize w method_ok req header s
    | None \<Rightarrow> serve_host libs same_host w decider method_ok req s)"

subsection \<open>SOCKS (socks5.rs)\<close>

datatype socks_error = InvalidHost | ProxyFailure | PolicyDenied ustr

definition policy_denied_error :: "ustr \<Rightarrow> policy_details \<Rightarrow> socks_error" where
  "policy_denied_error reason details = PolicyDenied (blocked_message_with_policy reason details)"

text \<open>The two handlers differ in the protocol and in what they do in the end.\<close>

definition inspect_socks ::
    "net_libs \<Rightarrow> network_protocol \<Rightarrow> ustr \<Rightarrow> world \<Rightarrow> decider option \<Rightarrow> ustr \<times> nat \<Rightarrow> ustr option \<Rightarrow> config_state \<Rightarrow>
      (socks_error, unit, config_state) outcome" where
  "inspect_socks libs protocol label w decider target client s =
    (case target of (target_host, port) \<Rightarrow>
     (let host = normalize_host target_host;
          d = \<lparr>pd_decision = PolicyDeny, pd_reason = REASON_PROXY_DISABLED, pd_source = ProxyState,
               pd_protocol = protocol, pd_host = host, pd_port = port\<rparr> in
      if host = [] then (Inl InvalidHost, s)
      else
        try_then (or_answer ProxyFailure (at w 0 proxy_enabled s)) (\<lambda>on s.
        if \<not> on then refuse w 1 (policy_entry d client None None label) (policy_denied_error REASON_PROXY_DISABLED d) s
        else
        try_then (or_answer ProxyFailure (at w 1 current_mode s)) (\<lambda>m s.
        case m of
          Limited \<Rightarrow>
            (let d = d\<lparr>pd_reason := REASON_METHOD_NOT_ALLOWED, pd_source := ModeGuard\<rparr>
             in refuse w 2 (policy_entry d client None (Some Limited) label) (policy_denied_error REASON_METHOD_NOT_ALLOWED d) s)
        | Full \<Rightarrow>
            ask_policy libs w 2 decider (policy_request protocol host port client None) label ProxyFailure
              (\<lambda>d. policy_denied_error (pd_reason d) d) s))))"

definition handle_socks5_tcp ::
    "net_libs \<Rightarrow> world \<Rightarrow> decider option \<Rightarrow> ustr \<times> nat \<Rightarrow> ustr option \<Rightarrow> config_state \<Rightarrow> (socks_error, unit, config_state) outcome" where
  "handle_socks5_tcp libs = inspect_socks libs Socks5Tcp (lit ''socks5'')"

definition inspect_socks5_udp ::
    "net_libs \<Rightarrow> world \<Rightarrow> decider option \<Rightarrow> ustr \<times> nat \<Rightarrow> ustr option \<Rightarrow> config_state \<Rightarrow> (socks_error, unit, config_state) outcome" where
  "inspect_socks5_udp libs = inspect_socks libs Socks5Udp (lit ''socks5-udp'')"

subsection \<open>Inside an intercepted tunnel (mitm.rs)\<close>

record inner_request =
  in_method :: ustr
  in_client :: "ustr option"
  in_host_header :: "ustr option"
  in_uri_authority :: "ustr option"

definition extract_request_host :: "inner_request \<Rightarrow> ustr option" where
  "extract_request_host req = (case in_host_header req of Some v \<Rightarrow> Some v | None \<Rightarrow> in_uri_authority req)"

definition inner_entry :: "ustr \<Rightarrow> nat \<Rightarrow> network_mode \<Rightarrow> inner_request \<Rightarrow> ustr \<Rightarrow> blocked_request" where
  "inner_entry host port m req reason =
    \<lparr>br_host = host, br_reason = reason, br_client = in_client req, br_method = Some (in_method req), br_mode = Some m,
     br_protocol = lit ''https'', br_decision = None, br_source = None, br_port = Some port, br_timestamp = 0\<rparr>"

text \<open>\<open>Inl (Some r)\<close> is the answer to a blocked request, \<open>Inl None\<close> an error of the check, \<open>Inr ()\<close> lets it pass.\<close>

definition mitm_blocking_response ::
    "net_libs \<Rightarrow> world \<Rightarrow> ustr \<Rightarrow> nat \<Rightarrow> network_mode \<Rightarrow> inner_request \<Rightarrow> config_state \<Rightarrow>
      (http_response option, unit, config_state) outcome" where
  "mitm_blocking_response libs w target_host target_port m req s =
    (if in_method req = lit ''CONNECT'' then (Inl (Some (text_response 405 (lit ''CONNECT not supported inside MITM''))), s)
     else if (case extract_request_host req of
                Some h \<Rightarrow> normalize_host h \<noteq> [] \<and> normalize_host h \<noteq> target_host | None \<Rightarrow> False)
     then (Inl (Some (text_response 400 (lit ''host mismatch''))), s)
     else
       try_then (or_answer None (at w 0 (\<lambda>r. host_blocked libs r target_host target_port) s)) (\<lambda>d s.
       if d = Blocked NotAllowedLocal then
         refuse w 1 (inner_entry target_host target_port m req (reason_str NotAllowedLocal))
           (Some (blocked_text_response (reason_str NotAllowedLocal))) s
       else if \<not> allows_method m (in_method req) then
         refuse w 1 (inner_entry target_host target_port m req REASON_METHOD_NOT_ALLOWED)
           (Some (blocked_text_response REASON_METHOD_NOT_ALLOWED)) s
       else (Inr (), s)))"

definition authority_header_value :: "ustr \<Rightarrow> nat \<Rightarrow> ustr" where
  "authority_header_value host port =
    (if c_colon \<in> set host then
       (if port = 443 then [c_open] @ host @ [c_close] else [c_open] @ host @ [c_close, c_colon] @ show_nat port)
     else if port = 443 then host else host @ [c_colon] @ show_nat port)"

definition build_https_uri :: "ustr \<Rightarrow> ustr \<Rightarrow> ustr" where
  "build_https_uri authority path_and_query = lit ''https://'' @ authority @ path_and_query"

text \<open>
  Where a request of the tunnel is sent, whatever target it names itself: the address, the new
  \<open>Host\<close> header, or the answer (an error is answered with 502). \<open>uri_ok\<close> and \<open>header_ok\<close> are the
  HTTP library's: what it accepts as an address and as a header value.
\<close>

definition forward_request ::
    "net_libs \<Rightarrow> (ustr \<Rightarrow> bool) \<Rightarrow> (ustr \<Rightarrow> bool) \<Rightarrow> world \<Rightarrow> ustr \<Rightarrow> nat \<Rightarrow> network_mode \<Rightarrow> inner_request \<Rightarrow>
      ustr option \<Rightarrow> config_state \<Rightarrow> (http_response, ustr \<times> ustr, config_state) outcome" where
  "forward_request libs uri_ok header_ok w target_host target_port m req path_and_query s =
    (let failed = text_response 502 (lit ''mitm upstream error'') in
     case mitm_blocking_response libs w target_host target_port m req s of
       (Inl (Some answer), s) \<Rightarrow> (Inl answer, s)
     | (Inl None, s) \<Rightarrow> (Inl failed, s)
     | (Inr _, s) \<Rightarrow>
         (let authority = authority_header_value target_host target_port;
              uri = build_https_uri authority (case path_and_query of Some p \<Rightarrow> p | None \<Rightarrow> [c_slash])
          in if uri_ok uri \<and> header_ok authority then (Inr (uri, authority), s) else (Inl failed, s)))"

subsection \<open>Hop-by-hop headers (http_proxy.rs)\<close>

text \<open>
  A header map is a value of the HTTP library: \<open>hget\<close> gives the first value of a name as text
  (\<open>None\<close> inside when it is not text), \<open>hremove\<close> removes the name, \<open>header_name\<close> reads a name.
\<close>

record 'h header_ops =
  hget :: "'h \<Rightarrow> ustr \<Rightarrow> ustr option option"
  hremove :: "'h \<Rightarrow> ustr \<Rightarrow> 'h"
  header_name :: "ustr \<Rightarrow> ustr option"

definition connection_tokens :: "ustr \<Rightarrow> ustr list" where
  "connection_tokens raw = filter (\<lambda>t. t \<noteq> []) (map trim (split_on 44 raw))"

definition remove_token :: "('h, 'b) header_ops_scheme \<Rightarrow> ustr \<Rightarrow> 'h \<Rightarrow> 'h" where
  "remove_token ops token h = (case header_name ops token of Some n \<Rightarrow> hremove ops h n | None \<Rightarrow> h)"

partial_function (option) remove_connection :: "('h, 'b) header_ops_scheme \<Rightarrow> 'h \<Rightarrow> 'h option" where
  "remove_connection ops h =
    (case hget ops h (lit ''connection'') of
       None \<Rightarrow> Some h
     | Some raw \<Rightarrow>
         (let h = hremove ops h (lit ''connection'');
              h = (case raw of Some v \<Rightarrow> fold (remove_token ops) (connection_tokens v) h | None \<Rightarrow> h)
          in remove_connection ops h))"

definition fixed_hop_headers :: "ustr list" where
  "fixed_hop_headers = [lit ''keep-alive'', lit ''proxy-connection'', lit ''proxy-authorization'', lit ''trailer'',
     lit ''transfer-encoding'', lit ''upgrade'']"

definition remove_hop_by_hop_request_headers :: "('h, 'b) header_ops_scheme \<Rightarrow> 'h \<Rightarrow> 'h option" where
  "remove_hop_by_hop_request_headers ops h =
    map_option (\<lambda>h. remove_token ops (lit ''te'') (fold (\<lambda>n h. hremove ops h n) fixed_hop_headers h))
      (remove_connection ops h)"

end
