(* ===== verification/Net_Facts.thy ===== *)
theory Net_Facts
  imports Net_State
begin

section \<open>Facts about the policy of the network proxy\<close>

text \<open>
  Plain patterns, which the comparison of patterns and the globs read alike; allowed patterns match no
  more than what allows them; the effect of a change on the lists; and the invariant of the state.
\<close>

subsection \<open>Patterns in plain characters\<close>

definition plain_char :: "nat \<Rightarrow> bool" where
  "plain_char c \<longleftrightarrow> \<not> is_whitespace c \<and> c \<notin> {c_colon, c_open, c_close, 123, 125, 92, c_percent}"

definition plain :: "ustr \<Rightarrow> bool" where
  "plain s \<longleftrightarrow> list_all plain_char s"

definition wildcard_free :: "ustr \<Rightarrow> bool" where
  "wildcard_free s \<longleftrightarrow> c_star \<notin> set s \<and> c_question \<notin> set s"

definition pattern_parts :: "ustr \<Rightarrow> (ustr \<Rightarrow> domain_pattern) \<times> ustr \<times> ustr" where
  "pattern_parts p =
    (case strip_prefix star_star_dot p of
       Some d \<Rightarrow> (ApexAndSubdomains, star_star_dot, d)
     | None \<Rightarrow> (case strip_prefix star_dot p of Some d \<Rightarrow> (SubdomainsOnly, star_dot, d) | None \<Rightarrow> (Exact, [], p)))"

text \<open>
  A pattern that the two readings of the code agree on: plain characters, a domain that does not
  start with a star or a dot and that the URL parser, when it has no wildcard, leaves as it is but for
  the case.
\<close>

definition plain_pattern :: "net_libs \<Rightarrow> ustr \<Rightarrow> bool" where
  "plain_pattern libs p \<longleftrightarrow> plain p \<and>
    (case pattern_parts p of (k, prefix, d) \<Rightarrow>
       normalize_dns_host d \<noteq> [] \<and> hd d \<noteq> c_star \<and> hd d \<noteq> c_dot
     \<and> (wildcard_free (trim_end_dots d) \<longrightarrow>
          (case url_host libs (trim_end_dots d) of Some h \<Rightarrow> normalize_domain h = normalize_dns_host d | None \<Rightarrow> False)))"

fun globs_of :: "domain_pattern \<Rightarrow> ustr list" where
  "globs_of (Exact d) = [d]"
| "globs_of (SubdomainsOnly d) = [subdomain_glob d]"
| "globs_of (ApexAndSubdomains d) = [d, subdomain_glob d]"

lemma expand_globs_of: "expand_domain_pattern p = globs_of (pattern_parse p)"
  by (cases "pattern_parse p") (simp_all add: expand_domain_pattern_def)

lemma length_lower [simp]: "length (to_ascii_lowercase s) = length s"
  by (simp add: to_ascii_lowercase_def)

lemma lower_Nil [simp]: "to_ascii_lowercase s = [] \<longleftrightarrow> s = []" "to_ascii_lowercase [] = []"
  by (simp_all add: to_ascii_lowercase_def)

lemma lower_append: "to_ascii_lowercase (s @ t) = to_ascii_lowercase s @ to_ascii_lowercase t"
  by (simp add: to_ascii_lowercase_def)

lemma trim_end_dots_Nil [simp]: "trim_end_dots [] = []"
  by (simp add: trim_end_dots_def)

lemma trim_end_dots_snoc: "trim_end_dots (s @ [c]) = (if c = c_dot then trim_end_dots s else s @ [c])"
  by (simp add: trim_end_dots_def trim_end_matches_snoc)

lemma trim_end_dots_append: "trim_end_dots t \<noteq> [] \<Longrightarrow> trim_end_dots (s @ t) = s @ trim_end_dots t"
proof (induction t rule: rev_induct)
  case (snoc c t)
  then show ?case using trim_end_dots_snoc [of "s @ t" c] trim_end_dots_snoc [of t c] by (auto split: if_splits)
qed simp

lemma trim_end_dots_lower: "trim_end_dots (to_ascii_lowercase s) = to_ascii_lowercase (trim_end_dots s)"
proof (induction s rule: rev_induct)
  case (snoc c s)
  then show ?case by (simp add: lower_append trim_end_dots_snoc) (simp add: to_ascii_lowercase_def trim_end_dots_snoc)
qed simp

lemma trim_end_dots_idem [simp]: "trim_end_dots (trim_end_dots s) = trim_end_dots s"
  unfolding trim_end_dots_def by (rule trim_end_matches_id) (rule trim_end_matches_last)

lemma trim_end_dots_part: "\<exists>r. s = trim_end_dots s @ r"
  using trim_end_matches_prefix [of s "\<lambda>c. c = c_dot"] by (auto simp: trim_end_dots_def)

lemma normalize_dns_domain: "normalize_dns_host s = normalize_domain s"
  by (simp add: normalize_dns_host_def normalize_domain_def trim_end_dots_lower)

lemma normalize_domain_idem [simp]: "normalize_domain (normalize_domain s) = normalize_domain s"
  by (simp add: normalize_domain_def trim_end_dots_lower)

lemma normalize_domain_trimmed [simp]: "normalize_domain (trim_end_dots s) = normalize_domain s"
  by (simp add: normalize_domain_def)

lemma normalize_domain_append:
  "trim_end_dots t \<noteq> [] \<Longrightarrow> normalize_domain (s @ t) = to_ascii_lowercase s @ normalize_domain t"
  by (simp add: normalize_domain_def trim_end_dots_append lower_append)

lemma plain_append [simp]: "plain (s @ t) \<longleftrightarrow> plain s \<and> plain t"
  by (simp add: plain_def)

lemma plain_char_lower: "plain_char (if 65 \<le> c \<and> c \<le> 90 then c + 32 else c) \<longleftrightarrow> plain_char c"
proof (cases "65 \<le> c \<and> c \<le> 90")
  case True
  then have "plain_char c" "plain_char (c + 32)" by (simp_all add: plain_char_def is_whitespace_def)
  with True show ?thesis by simp
next
  case False
  then show ?thesis by (simp only: if_False)
qed

lemma plain_lower [simp]: "plain (to_ascii_lowercase s) \<longleftrightarrow> plain s"
  unfolding plain_def to_ascii_lowercase_def list.pred_map comp_def plain_char_lower ..

lemma plain_trim_end_dots: "plain s \<Longrightarrow> plain (trim_end_dots s)"
  using trim_end_dots_part [of s] by (metis plain_append)

lemma plain_normalize: "plain s \<Longrightarrow> plain (normalize_domain s)"
  by (simp add: normalize_domain_def plain_trim_end_dots)

lemma plain_trim [simp]: "plain s \<Longrightarrow> trim s = s"
proof -
  assume "plain s"
  then have "\<not> is_whitespace c" if "c \<in> set s" for c using that unfolding plain_def list_all_iff plain_char_def by blast
  then show "trim s = s" using hd_in_set [of s] last_in_set [of s] by (intro trim_id) blast+
qed

lemma plain_free: "plain s \<Longrightarrow> c_colon \<notin> set s \<and> c_open \<notin> set s \<and> c_percent \<notin> set s"
  by (auto simp: plain_def plain_char_def list_all_iff)

lemma plain_count_colon: "plain s \<Longrightarrow> count_list s c_colon = 0"
  using plain_free by (simp add: count_list_0_iff)

lemma plain_no_open: "plain s \<Longrightarrow> \<not> starts_with [c_open] s"
  using plain_free [of s] by (cases s) auto

lemma plain_normalize_host: "plain d \<Longrightarrow> normalize_host d = normalize_domain d"
  by (simp add: normalize_host_def plain_no_open plain_count_colon normalize_dns_domain)

lemma hd_normalize_domain:
  assumes "normalize_domain d \<noteq> []" shows "hd (normalize_domain d) = hd (to_ascii_lowercase d)"
proof -
  obtain r where "d = trim_end_dots d @ r" using trim_end_dots_part by blast
  then have "to_ascii_lowercase d = normalize_domain d @ to_ascii_lowercase r"
    by (metis lower_append normalize_domain_def)
  with assms show ?thesis by simp
qed

lemma hd_lower_special: "d \<noteq> [] \<Longrightarrow> hd (to_ascii_lowercase d) = c_star \<longleftrightarrow> hd d = c_star"
  "d \<noteq> [] \<Longrightarrow> hd (to_ascii_lowercase d) = c_dot \<longleftrightarrow> hd d = c_dot"
  by (cases d; simp add: to_ascii_lowercase_def; force)+

lemma pattern_parse_parts:
  assumes "plain k" and "k \<noteq> []" and "hd k \<noteq> c_star"
  shows "pattern_parse k = Exact k" "pattern_parse (star_dot @ k) = SubdomainsOnly k"
    "pattern_parse (star_star_dot @ k) = ApexAndSubdomains k"
proof -
  have s: "plain star_dot" "plain star_star_dot" by (simp_all add: plain_def plain_char_def is_whitespace_def)
  have t: "trim k = k" "trim (star_dot @ k) = star_dot @ k" "trim (star_star_dot @ k) = star_star_dot @ k"
    using assms(1) s by (simp_all only: plain_trim plain_append simp_thms)
  show "pattern_parse k = Exact k" using assms t(1) by (cases k) (simp_all add: pattern_parse_def)
  show "pattern_parse (star_dot @ k) = SubdomainsOnly k" using assms t by (simp add: pattern_parse_def parse_domain_def)
  show "pattern_parse (star_star_dot @ k) = ApexAndSubdomains k" using assms t by (simp add: pattern_parse_def parse_domain_def)
qed

lemma pattern_parts_prefix:
  "pattern_parts p = (k, prefix, d) \<Longrightarrow> p = prefix @ d \<and>
    (k = Exact \<and> prefix = [] \<or> k = SubdomainsOnly \<and> prefix = star_dot \<or> k = ApexAndSubdomains \<and> prefix = star_star_dot)"
  by (auto simp: pattern_parts_def strip_prefix_Some_iff split: option.splits)

text \<open>Both readings give a pattern of the same kind with the same domain in normal form.\<close>

lemma plain_pattern_readings:
  assumes "plain_pattern libs p"
  shows "\<exists>k d key. (\<exists>prefix d0. pattern_parts p = (k, prefix, d0) \<and> key = normalize_domain d0) \<and> key \<noteq> [] \<and> plain key \<and> hd key \<noteq> c_star \<and> hd key \<noteq> c_dot \<and> normalize_domain d = key
    \<and> (k = Exact \<or> k = SubdomainsOnly \<or> k = ApexAndSubdomains)
    \<and> parse_for_constraints libs p = k d \<and> expand_domain_pattern (normalize_pattern p) = globs_of (k key)"
proof -
  obtain k prefix d where parts: "pattern_parts p = (k, prefix, d)" by (cases "pattern_parts p")
  define key where "key = normalize_domain d"
  have dns: "normalize_dns_host d = key" by (simp add: key_def normalize_dns_domain)
  have p: "plain p" "key \<noteq> []" "hd d \<noteq> c_star" "hd d \<noteq> c_dot"
    and url: "wildcard_free (trim_end_dots d) \<Longrightarrow>
      (case url_host libs (trim_end_dots d) of Some h \<Rightarrow> normalize_domain h = key | None \<Rightarrow> False)"
    using assms [unfolded plain_pattern_def parts prod.case dns] by blast+
  note pk = pattern_parts_prefix [OF parts]
  have d: "plain d" "d \<noteq> []" using pk p by (auto simp: key_def normalize_domain_def)
  have key: "plain key" "hd key \<noteq> c_star" "hd key \<noteq> c_dot"
    using plain_normalize [OF d(1)] hd_normalize_domain [of d] p hd_lower_special [OF d(2)] by (simp_all add: key_def)
  have dots: "trim_end_dots d \<noteq> []" "plain (trim_end_dots d)"
    using p(2) plain_trim_end_dots [OF d(1)] by (auto simp: key_def normalize_domain_def)
  define d' where "d' = parse_domain_for_constraints libs d"
  have d': "normalize_domain d' = key"
  proof (cases "wildcard_free (trim_end_dots d)")
    case True
    then obtain h where h: "url_host libs (trim_end_dots d) = Some h" "normalize_domain h = key"
      using url by (auto split: option.splits)
    have "d' = h"
      using True dots d plain_free [OF dots(2)] plain_no_open [OF dots(2)] h(1)
      by (simp add: d'_def parse_domain_for_constraints_def Let_def wildcard_free_def)
    with h show ?thesis by simp
  next
    case False
    then have "d' = trim_end_dots d"
      using dots d plain_no_open [OF dots(2)] by (auto simp: d'_def parse_domain_for_constraints_def Let_def wildcard_free_def)
    then show ?thesis by (simp add: key_def)
  qed
  have trims: "trim p = p" "p \<noteq> []" "p \<noteq> star"
    using p pk d by (auto simp: plain_def)
  have "parse_for_constraints libs p = k d'"
    using parts trims unfolding parse_for_constraints_def Let_def pattern_parts_def d'_def
    by (auto split: option.splits)
  moreover have "normalize_pattern p = prefix @ key"
    using parts trims pk unfolding normalize_pattern_def Let_def pattern_parts_def
    by (auto split: option.splits simp: plain_normalize_host d key_def)
  then have "expand_domain_pattern (normalize_pattern p) = globs_of (k key)"
    using pk pattern_parse_parts [OF key(1) p(2) key(2)] by (auto simp: expand_globs_of)
  ultimately show ?thesis using pk p(2) key d' parts key_def by blast
qed

subsection \<open>Allowed patterns match no more\<close>

text \<open>
  The glob \<open>?*.d\<close> matches whatever a longer glob that ends in \<open>.d\<close> matches: a question mark stands
  for a character, a star for any characters.
\<close>

definition globs_widen :: "net_libs \<Rightarrow> bool" where
  "globs_widen libs \<longleftrightarrow> (\<forall>x d h. x \<noteq> [] \<and> hd x \<noteq> c_star \<and> plain x \<and> plain d \<and> glob_match libs (x @ c_dot # d) h
     \<longrightarrow> glob_match libs (subdomain_glob d) h)"

lemma allows_globs:
  assumes "pattern_allows (k1 d1) (k2 d2)" and "normalize_domain d1 = key1" and "normalize_domain d2 = key2"
    and "k1 = Exact \<or> k1 = SubdomainsOnly \<or> k1 = ApexAndSubdomains" and "k2 = Exact \<or> k2 = SubdomainsOnly \<or> k2 = ApexAndSubdomains"
    and "key2 \<noteq> []" and "hd key2 \<noteq> c_star" and "hd key2 \<noteq> c_dot" and "g \<in> set (globs_of (k2 key2))"
  shows "g \<in> set (globs_of (k1 key1)) \<or>
    (\<exists>x. x \<noteq> [] \<and> hd x \<noteq> c_star \<and> g = x @ c_dot # key1 \<and> subdomain_glob key1 \<in> set (globs_of (k1 key1)))"
proof -
  have sub: "key2 = key1 \<or> (\<exists>y. y \<noteq> [] \<and> hd y \<noteq> c_star \<and> key2 = y @ c_dot # key1)" if "is_subdomain_or_equal d2 d1"
  proof (cases "key2 = key1")
    case False
    with that assms(2,3) obtain y where y: "key2 = y @ c_dot # key1"
      by (auto simp: is_subdomain_or_equal_def Let_def ends_with_iff split: if_splits)
    with assms(7,8) show ?thesis by (cases y) auto
  qed simp
  have strict: "is_subdomain_or_equal d2 d1 \<and> key2 \<noteq> key1" if "is_strict_subdomain d2 d1"
    using that assms(2,3) by (simp add: is_strict_subdomain_def is_subdomain_or_equal_def Let_def)
  have wide: "\<exists>x. x \<noteq> [] \<and> hd x \<noteq> c_star \<and> subdomain_glob (y @ c_dot # key1) = x @ c_dot # key1" for y
    by (intro exI [of _ "[c_question, c_star, c_dot] @ y"]) (simp add: subdomain_glob_def)
  from assms(4,5) show ?thesis
    using assms(1,9) sub strict wide
    by (elim disjE) (auto simp: domain_eq_def assms(2,3))
qed

lemma allowed_globs_match:
  assumes "globs_widen libs" and "plain_pattern libs m" and "plain_pattern libs e"
    and "pattern_allows (parse_for_constraints libs m) (parse_for_constraints libs e)"
    and "g \<in> set (expand_domain_pattern (normalize_pattern e))" and "glob_match libs g h"
  shows "\<exists>g'\<in>set (expand_domain_pattern (normalize_pattern m)). glob_match libs g' h"
proof -
  from plain_pattern_readings [OF assms(2)] obtain k1 d1 key1 where m: "plain key1" "normalize_domain d1 = key1"
    "k1 = Exact \<or> k1 = SubdomainsOnly \<or> k1 = ApexAndSubdomains" "parse_for_constraints libs m = k1 d1"
    "expand_domain_pattern (normalize_pattern m) = globs_of (k1 key1)" by blast
  from plain_pattern_readings [OF assms(3)] obtain k2 d2 key2 where e: "key2 \<noteq> []" "plain key2" "hd key2 \<noteq> c_star"
    "hd key2 \<noteq> c_dot" "normalize_domain d2 = key2" "k2 = Exact \<or> k2 = SubdomainsOnly \<or> k2 = ApexAndSubdomains"
    "parse_for_constraints libs e = k2 d2" "expand_domain_pattern (normalize_pattern e) = globs_of (k2 key2)" by blast
  have g: "g \<in> set (globs_of (k2 key2))" using assms(5) e(8) by simp
  have plain_g: "plain g"
    using g e(2,6) by (elim disjE) (auto simp: subdomain_glob_def plain_def plain_char_def is_whitespace_def)
  from allows_globs [OF _ m(2) e(5) m(3) e(6) e(1,3,4) g] assms(4) m(4) e(7)
  consider "g \<in> set (globs_of (k1 key1))"
    | x where "x \<noteq> []" "hd x \<noteq> c_star" "g = x @ c_dot # key1" "subdomain_glob key1 \<in> set (globs_of (k1 key1))" by auto
  then show ?thesis
  proof cases
    case 1
    with m(5) assms(6) show ?thesis by auto
  next
    case 2
    with plain_g have "plain x" by simp
    with 2 m(1) assms(1,6) have "glob_match libs (subdomain_glob key1) h" unfolding globs_widen_def by blast
    with 2(4) m(5) show ?thesis by auto
  qed
qed

lemma first_error_iff: "first_error rs = Inr () \<longleftrightarrow> (\<forall>r\<in>set rs. \<exists>u. r = Inr u)"
  by (induction rs rule: first_error.induct) auto

lemma validated_allowed_domains:
  assumes "validate_policy_against_constraints libs cfg c = Inr ()"
  shows "validate_allowed_domains libs c (lowered (or_empty (denied_domains cfg))) (or_empty (allowed_domains cfg)) = Inr ()"
  using assms by (auto simp: validate_policy_against_constraints_def Let_def first_error_iff)

lemma validate_allowed_subset:
  assumes "validate_allowed_domains libs c overrides candidate = Inr ()" and "managed_allowed_domains c = Some managed"
    and "allowlist_expansion_enabled c = None" and "e \<in> set candidate"
  shows "\<exists>m\<in>set managed. pattern_allows (parse_for_constraints libs m) (parse_for_constraints libs e)"
  using assms by (auto simp: validate_allowed_domains_def Let_def filter_empty_conv list_ex_iff split: sum.splits if_splits)

subsection \<open>Domain lists\<close>

lemma or_empty_domain_entries:
  "or_empty (domain_entries perm s) =
    map de_pattern (filter (\<lambda>e. de_permission e = perm) (effective_entries (or_empty (domains s))))"
  by (auto simp: domain_entries_def or_empty_def effective_entries_def Let_def split: option.splits)

lemma patterns_add_effective: "de_pattern ` set (add_effective acc e) = insert (de_pattern e) (de_pattern ` set acc)"
proof -
  have "de_pattern (raise_permission e x) = de_pattern x" for x by (simp add: raise_permission_def)
  then have "de_pattern ` raise_permission e ` set acc = de_pattern ` set acc" by (simp add: image_comp comp_def)
  moreover have "de_pattern e \<in> de_pattern ` set acc" if "list_ex (\<lambda>x. de_pattern x = de_pattern e) acc"
    using that unfolding list_ex_iff by (metis imageI)
  ultimately show ?thesis by (simp add: add_effective_def insert_absorb)
qed

lemma patterns_foldl: "de_pattern ` set (foldl add_effective acc es) = de_pattern ` set acc \<union> de_pattern ` set es"
  by (induction es arbitrary: acc) (simp_all add: patterns_add_effective)

lemma patterns_effective [simp]: "de_pattern ` set (effective_entries es) = de_pattern ` set es"
  by (simp add: effective_entries_def patterns_foldl)

lemma effective_snoc:
  assumes "de_pattern n \<notin> de_pattern ` set es"
  shows "effective_entries (es @ [n]) = effective_entries es @ [n]"
proof -
  have "de_pattern n \<notin> de_pattern ` set (effective_entries es)" using assms by simp
  then have "\<not> list_ex (\<lambda>x. de_pattern x = de_pattern n) (effective_entries es)" unfolding list_ex_iff by (metis imageI)
  then show ?thesis by (simp add: effective_entries_def add_effective_def)
qed

lemma upserted_entries:
  assumes "normalize_host h = h"
  shows "or_empty (domain_entries perm (upsert_domain_permission h q normalize_host s)) =
    map de_pattern (filter (\<lambda>e. de_permission e = perm)
      (effective_entries (filter (\<lambda>e. normalize_host (de_pattern e) \<noteq> h) (or_empty (domains s)))))
    @ (if perm = q then [h] else [])"
proof -
  let ?es = "filter (\<lambda>e. normalize_host (de_pattern e) \<noteq> h) (or_empty (domains s))"
  let ?n = "\<lparr>de_pattern = h, de_permission = q\<rparr>"
  have "de_pattern ?n \<notin> de_pattern ` set ?es" using assms by auto
  then have "effective_entries (?es @ [?n]) = effective_entries ?es @ [?n]" by (rule effective_snoc)
  then show ?thesis
    by (simp add: or_empty_domain_entries upsert_domain_permission_def Let_def some_if_any_def or_empty_def [of "Some _"] assms)
qed

lemma upserted_lists:
  assumes "normalize_host h = h"
  shows "lists_host h (or_empty (domain_entries perm (upsert_domain_permission h q normalize_host s))) \<longleftrightarrow> perm = q"
proof -
  let ?es = "filter (\<lambda>e. normalize_host (de_pattern e) \<noteq> h) (or_empty (domains s))"
  have "normalize_host (de_pattern e) \<noteq> h" if "e \<in> set (effective_entries ?es)" for e
  proof -
    have "de_pattern e \<in> de_pattern ` set (effective_entries ?es)" using that by (rule imageI)
    then show ?thesis unfolding patterns_effective by auto
  qed
  then have "\<not> list_ex (\<lambda>p. normalize_host p = h)
      (map de_pattern (filter (\<lambda>e. de_permission e = perm) (effective_entries ?es)))"
    unfolding list_ex_iff set_map set_filter by blast
  then show ?thesis unfolding upserted_entries [OF assms] lists_host_def list_ex_append by (simp add: assms)
qed

subsection \<open>The state follows its settings\<close>

definition follows_settings :: "net_libs \<Rightarrow> config_state \<Rightarrow> bool" where
  "follows_settings libs s \<longleftrightarrow>
     validate_policy_against_constraints libs (settings s) (constraints s) = Inr ()
   \<and> compile_denylist_globset libs (or_empty (denied_domains (settings s))) = Inr (deny_set s)
   \<and> compile_allowlist_globset libs (or_empty (allowed_domains (settings s))) = Inr (allow_set s)
   \<and> length (blocked s) \<le> MAX_BLOCKED_EVENTS \<and> blocked_total s \<le> U64_MAX"

definition reload_ok :: "net_libs \<Rightarrow> reload \<Rightarrow> bool" where
  "reload_ok libs r \<longleftrightarrow> (case r of Inr (Some n) \<Rightarrow> follows_settings libs n | _ \<Rightarrow> True)"

definition turns_ok :: "net_libs \<Rightarrow> turn list \<Rightarrow> bool" where
  "turns_ok libs turns \<longleftrightarrow> (\<forall>(r, others)\<in>set turns. reload_ok libs r \<and> (\<forall>s. follows_settings libs s \<longrightarrow> follows_settings libs (others s)))"

lemma built_policy_ok:
  assumes "build_config_state libs cfg c = Inr n" and "validate_policy_against_constraints libs cfg c = Inr ()"
  shows "follows_settings libs n \<and> settings n = cfg \<and> constraints n = c"
  using assms
  by (auto simp: build_config_state_def follows_settings_def Let_def MAX_BLOCKED_EVENTS_def split: sum.splits option.splits)

lemma reload_policy_ok: "follows_settings libs s \<Longrightarrow> reload_ok libs r \<Longrightarrow> follows_settings libs (snd (reload_if_needed r s))"
  by (auto simp: reload_if_needed_def reload_ok_def follows_settings_def split: sum.splits option.splits)

text \<open>Only the check of the mode looks at the mode, and it looks at nothing else.\<close>

lemma validate_mode_change:
  assumes "validate_policy_against_constraints libs (cfg\<lparr>mode := m\<rparr>) c = Inr ()"
    and "validate_policy_against_constraints libs cfg' c = Inr ()"
  shows "validate_policy_against_constraints libs (cfg'\<lparr>mode := m\<rparr>) c = Inr ()"
proof -
  have d: "domain_entries p (cfg\<lparr>mode := m\<rparr>) = domain_entries p cfg" for p and cfg :: network_settings
    by (simp add: domain_entries_def)
  have u: "allow_unix_sockets (cfg\<lparr>mode := m\<rparr>) = allow_unix_sockets cfg" for cfg :: network_settings
    by (simp add: allow_unix_sockets_def)
  show ?thesis
    using assms unfolding validate_policy_against_constraints_def Let_def first_error_iff allowed_domains_def denied_domains_def d u
    by simp
qed

lemma set_network_mode_ok:
  "\<lbrakk>set_network_mode libs m turns s = Some (v, s'); follows_settings libs s; turns_ok libs turns\<rbrakk> \<Longrightarrow> follows_settings libs s'"
proof (induction libs m turns s arbitrary: v s' rule: set_network_mode.induct)
  case (2 libs m r others turns s)
  obtain w t where t: "reload_if_needed r s = (w, t)" by (cases "reload_if_needed r s")
  have ok: "follows_settings libs t" "follows_settings libs (others t)" "turns_ok libs turns"
    using 2(3,4) reload_policy_ok [of libs s r] t by (auto simp: turns_ok_def)
  show ?case
  proof (cases w)
    case (Inl e)
    with 2(2) t ok show ?thesis by simp
  next
    case (Inr u)
    show ?thesis
    proof (cases "validate_policy_against_constraints libs ((settings t)\<lparr>mode := m\<rparr>) (constraints t)")
      case (Inl e)
      with 2(2) t Inr ok show ?thesis by simp
    next
      case v: (Inr u')
      show ?thesis
      proof (cases "constraints (others t) = constraints t")
        case False
        with 2(2) t Inr v have "set_network_mode libs m turns (others t) = Some (v, s')" by (simp add: Let_def)
        with 2(1) [OF t [symmetric] Inr v refl] False ok show ?thesis by (simp add: Let_def)
      next
        case True
        with 2(2) t Inr v have s': "s' = (others t)\<lparr>settings := (settings (others t))\<lparr>mode := m\<rparr>\<rparr>" by (simp add: Let_def)
        have "validate_policy_against_constraints libs ((settings (others t))\<lparr>mode := m\<rparr>) (constraints (others t)) = Inr ()"
          using validate_mode_change [of libs m "settings t" "constraints t" "settings (others t)"] v ok(2) True
          by (simp add: follows_settings_def)
        with ok(2) show ?thesis
          by (simp add: follows_settings_def s' allowed_domains_def denied_domains_def domain_entries_def)
      qed
    qed
  qed
qed simp

lemma update_turns_ok:
  "\<lbrakk>update_turns libs h k turns s = Some (v, s'); follows_settings libs s; turns_ok libs turns\<rbrakk> \<Longrightarrow> follows_settings libs s'"
proof (induction libs h k turns s arbitrary: v s' rule: update_turns.induct)
  case (2 libs h k r others turns s)
  obtain w t where t: "reload_if_needed r s = (w, t)" by (cases "reload_if_needed r s")
  have ok: "follows_settings libs t" "follows_settings libs (others t)" "turns_ok libs turns"
    using 2(3,4) reload_policy_ok [of libs s r] t by (auto simp: turns_ok_def)
  show ?case
  proof (cases w)
    case (Inl e)
    with 2(2) t ok show ?thesis by simp
  next
    case w: (Inr u)
    let ?c = "upsert_domain_permission h (kind_permission k) normalize_host (settings t)"
    show ?thesis
    proof (cases "lists_host h (kind_entries k (settings t)) \<and> \<not> lists_host h (kind_opposite_entries k (settings t))")
      case True
      with 2(2) t w ok show ?thesis by simp
    next
      case listed: False
      show ?thesis
      proof (cases "validate_policy_against_constraints libs ?c (constraints t)")
        case (Inl e)
        with 2(2) t w listed ok show ?thesis by (simp add: Let_def)
      next
        case v: (Inr u')
        show ?thesis
        proof (cases "build_config_state libs ?c (constraints t)")
          case (Inl e)
          with 2(2) t w listed v ok show ?thesis by (simp add: Let_def)
        next
          case b: (Inr n)
          show ?thesis
          proof (cases "constraints (others t) = constraints t \<and> settings (others t) = settings t")
            case False
            with 2(2) t w listed v b have "update_turns libs h k turns (others t) = Some (v, s')" by (simp add: Let_def)
            with 2(1) [OF t [symmetric] w listed refl v b refl] False ok show ?thesis by blast
          next
            case True
            with 2(2) t w listed v b have s': "s' = n\<lparr>blocked := blocked t, blocked_total := blocked_total t\<rparr>" by (simp add: Let_def)
            from built_policy_ok [OF b] v have "follows_settings libs n" by simp
            with ok(1) show ?thesis by (simp add: follows_settings_def s')
          qed
        qed
      qed
    qed
  qed
qed simp

end
