(* ===== verification/Net_Properties.thy ===== *)
theory Net_Properties
  imports Net_Facts
begin

section \<open>Properties of the network proxy\<close>

text \<open>
  The addresses that are not public, what the decision about a host lets through, the allow list of the
  organisation, the invariant of the shared state and the effect of a denial, with instances over a
  library with simple globs.
\<close>

subsection \<open>A library to run with\<close>

text \<open>Globs with stars and question marks, without regard to case.\<close>

function simple_glob :: "ustr \<Rightarrow> ustr \<Rightarrow> bool" where
  "simple_glob [] s = (s = [])"
| "simple_glob (p # ps) [] = (p = c_star \<and> simple_glob ps [])"
| "simple_glob (p # ps) (c # cs) =
    (if p = c_star then simple_glob ps (c # cs) \<or> simple_glob (p # ps) cs
     else (p = c_question \<or> to_ascii_lowercase [p] = to_ascii_lowercase [c]) \<and> simple_glob ps cs)"
  by pat_completeness auto
termination by (relation "measure (\<lambda>(p, s). length p + length s)") auto

lemma simple_glob_star: "simple_glob (c_star # ps) s \<longleftrightarrow> (\<exists>a b. s = a @ b \<and> simple_glob ps b)"
proof (induction s)
  case (Cons c cs)
  have "(\<exists>a b. c # cs = a @ b \<and> simple_glob ps b) \<longleftrightarrow> simple_glob ps (c # cs) \<or> (\<exists>a b. cs = a @ b \<and> simple_glob ps b)"
    by (auto simp: Cons_eq_append_conv)
  with Cons show ?case by simp
qed simp

lemma simple_glob_char:
  "p \<noteq> c_star \<Longrightarrow> simple_glob (p # ps) s \<longleftrightarrow>
    (\<exists>c cs. s = c # cs \<and> (p = c_question \<or> to_ascii_lowercase [p] = to_ascii_lowercase [c]) \<and> simple_glob ps cs)"
  by (cases s) simp_all

lemma simple_glob_append: "simple_glob (p @ q) s \<longleftrightarrow> (\<exists>a b. s = a @ b \<and> simple_glob p a \<and> simple_glob q b)"
proof (induction p arbitrary: s)
  case (Cons p ps)
  show ?case
  proof (cases "p = c_star")
    case True
    show ?thesis
      unfolding True append_Cons simple_glob_star Cons.IH by (auto, metis append_assoc, metis append_assoc)
  next
    case False
    show ?thesis
      unfolding append_Cons simple_glob_char [OF False] Cons.IH by (metis (no_types, opaque_lifting) append_Cons)
  qed
qed simp

definition sample_net :: net_libs where
  "sample_net = \<lparr>glob_build = (\<lambda>_. True), globs_build = (\<lambda>_. True), glob_match = simple_glob,
     url_host = (\<lambda>d. Some (to_ascii_lowercase d)), lookup_host = (\<lambda>_ _. Resolved [V4 (ipv4_of 8 8 8 8)]),
     mitm_new = (\<lambda>_. None), debug_list = concat\<rparr>"

lemma sample_net_widens: "globs_widen sample_net"
proof -
  have "simple_glob (subdomain_glob d) h" if x: "x \<noteq> []" "hd x \<noteq> c_star" "simple_glob (x @ c_dot # d) h" for x d h
  proof -
    obtain a b where h: "h = a @ b" "simple_glob x a" "simple_glob (c_dot # d) b" using x(3) simple_glob_append by blast
    from x(1,2) h(2) obtain c cs where "a = c # cs" by (cases x; cases a) auto
    with h have "\<exists>a' b'. cs @ b = a' @ b' \<and> simple_glob (c_dot # d) b'" by blast
    then show ?thesis using \<open>a = c # cs\<close> h(1) by (simp add: subdomain_glob_def simple_glob_star)
  qed
  then show ?thesis by (simp add: globs_widen_def sample_net_def) blast
qed

subsection \<open>Addresses\<close>

text \<open>C34: The addresses the proxy keeps requests from are these blocks and no others: thirteen blocks of
  IPv4 addresses, the same for IPv6 addresses that embed one (mapped and compatible), and the unique
  local, link local and multicast blocks of IPv6.\<close>

theorem non_public_addresses:
  "is_non_public_ip ip \<longleftrightarrow>
    (case ip of
       V4 a \<Rightarrow> in_ranges reserved_ipv4 (unat a)
     | V6 a \<Rightarrow>
         if unat a < 2 ^ 32 \<or> 0xffff * 2 ^ 32 \<le> unat a \<and> unat a < 2 ^ 48
         then in_ranges reserved_ipv4 (unat a mod 2 ^ 32) else in_ranges reserved_ipv6 (unat a))"
  by (cases ip) (simp_all only: is_non_public_ip.simps ip_addr.case non_public_ipv4_ranges non_public_ipv6_ranges)

text \<open>The address of the IPv4 loopback behind a NAT64 gateway and a documentation address count as public.\<close>

lemma public_by_omission:
  "parse_ip (lit ''64:ff9b::127.0.0.1'') = Some (V6 0x0064ff9b00000000000000007f000001)"
  "\<not> is_non_public_ip (V6 0x0064ff9b00000000000000007f000001)" "\<not> is_non_public_ip (V6 0x20010db8000000000000000000000001)"
  by (code_simp, simp_all add: non_public_ipv6_ranges in_ranges_def reserved_ipv6_def)

text \<open>With Unix sockets, or without the dangerous setting, the proxy listens on loopback addresses only.\<close>

lemma listens_on_loopback:
  assumes "resolve_runtime url_parse cfg = Inr (http, socks)"
    and "\<not> allow_non_loopback_proxy cfg \<or> allow_unix_sockets cfg \<noteq> [] \<or> allow_all_unix_sockets cfg"
  shows "is_loopback_ip (fst http) \<and> is_loopback_ip (fst socks)"
proof -
  have l: "is_loopback_ip (fst (localhost_at p))" for p
    by (simp add: localhost_at_def is_loopback4_def octet_div unat_ipv4_of dotted_def)
  obtain a b where "clamp_bind_addrs a b cfg = (http, socks)"
    using assms(1) by (auto simp: resolve_runtime_def split: sum.splits)
  with assms(2) l show ?thesis
    by (auto simp: clamp_bind_addrs_def clamp_non_loopback_def Let_def split: if_splits)
qed

subsection \<open>Requests\<close>

text \<open>
  What the policy lets through: a host that no deny pattern matches; unless local binding is on, a
  loopback or other address literal that is not public is named itself, without a wildcard, in the
  allow list, and any other host is a public address or resolves, at that moment, to public addresses
  only; and an allow pattern matches the host, or the decider allows the request. For a host that is
  empty only the decider can.
\<close>

definition decider_allows :: "decider option \<Rightarrow> network_policy_request \<Rightarrow> bool" where
  "decider_allows decider request \<longleftrightarrow> (\<exists>decide. decider = Some decide \<and> decide request = NetAllow)"

definition reaches_no_local :: "net_libs \<Rightarrow> config_state \<Rightarrow> ustr \<Rightarrow> nat \<Rightarrow> bool" where
  "reaches_no_local libs s h port \<longleftrightarrow>
    (if local_literal h
     then \<exists>p\<in>set (or_empty (allowed_domains (settings s))). wildcard_free (trim p) \<and> normalize_host (trim p) = h
     else case parse_ip h of
            Some ip \<Rightarrow> \<not> is_non_public_ip ip
          | None \<Rightarrow> \<exists>addrs. lookup_host libs h port = Resolved addrs \<and> (\<forall>a\<in>set addrs. \<not> is_non_public_ip a))"

definition lets_through :: "net_libs \<Rightarrow> decider option \<Rightarrow> network_policy_request \<Rightarrow> config_state \<Rightarrow> bool" where
  "lets_through libs decider request s \<longleftrightarrow>
    (case host_parse (req_host request) of
       Inl e \<Rightarrow> decider_allows decider request
     | Inr h \<Rightarrow> \<not> globs_match libs (deny_set s) h
         \<and> (allow_local_binding (settings s) \<or> reaches_no_local libs s h (req_port request))
         \<and> (allowed_domains (settings s) \<noteq> None \<and> globs_match libs (allow_set s) h \<or> decider_allows decider request))"

lemma decide_host_allows:
  assumes "decide_host libs h port s = d" and "d = Allowed \<or> d = Blocked NotAllowed"
  shows "\<not> globs_match libs (deny_set s) h \<and> (allow_local_binding (settings s) \<or> reaches_no_local libs s h port)
    \<and> (d = Allowed \<longrightarrow> allowed_domains (settings s) \<noteq> None \<and> globs_match libs (allow_set s) h)"
proof -
  have explicit: "\<exists>p\<in>set allowed. wildcard_free (trim p) \<and> normalize_host (trim p) = h"
    if "is_explicit_local_allowlisted allowed h" for allowed
    using that by (auto simp: is_explicit_local_allowlisted_def list_ex_iff Let_def wildcard_free_def split: if_splits)
  have public: "case parse_ip h of Some ip \<Rightarrow> \<not> is_non_public_ip ip
      | None \<Rightarrow> \<exists>addrs. lookup_host libs h port = Resolved addrs \<and> (\<forall>a\<in>set addrs. \<not> is_non_public_ip a)"
    if "\<not> host_resolves_to_non_public_ip libs h port"
    using that by (auto simp: host_resolves_to_non_public_ip_def list_ex_iff split: option.splits dns_result.splits)
  show ?thesis
    using assms explicit public
    by (auto simp: decide_host_def reaches_no_local_def Let_def split: if_splits)
qed

text \<open>A request that is allowed is one the policy lets through: explicit denials win, and neither a
  wildcard nor the decider opens the local network.\<close>

lemma admitted_requests:
  assumes "evaluate_host_policy libs r decider request s = (Inr NetAllow, s')"
  shows "lets_through libs decider request s'"
proof -
  from assms obtain d where d: "host_blocked libs r (req_host request) (req_port request) s = (Inr d, s')"
    and e: "(case d of Allowed \<Rightarrow> NetAllow
      | Blocked NotAllowed \<Rightarrow> (case decider of Some decide \<Rightarrow> map_decider_decision (decide request)
          | None \<Rightarrow> deny_with_source (reason_str NotAllowed) BaselinePolicy)
      | Blocked reason \<Rightarrow> deny_with_source (reason_str reason) BaselinePolicy) = NetAllow"
    unfolding evaluate_host_policy_def try_then_Inr_iff by blast
  have m: "map_decider_decision x = NetAllow \<longleftrightarrow> x = NetAllow" for x by (cases x) simp_all
  from e have allow: "d = Allowed \<or> d = Blocked NotAllowed \<and> (\<exists>decide. decider = Some decide \<and> decide request = NetAllow)"
    by (simp add: deny_with_source_def m split: host_block_decision.splits host_block_reason.splits option.splits)
  show ?thesis
  proof (cases "host_parse (req_host request)")
    case (Inl e)
    with d have "d = Blocked NotAllowed" by (auto simp: host_blocked_def try_then_Inr_iff)
    with allow Inl show ?thesis by (simp add: lets_through_def decider_allows_def)
  next
    case (Inr h)
    with d have "decide_host libs h (req_port request) s' = d" by (auto simp: host_blocked_def try_then_Inr_iff)
    with allow decide_host_allows [OF this] Inr show ?thesis
      by (auto simp: lets_through_def decider_allows_def)
  qed
qed


definition sample_settings :: "ustr list \<Rightarrow> ustr list \<Rightarrow> network_settings" where
  "sample_settings allow deny = set_denied_domains deny (set_allowed_domains allow (default_settings\<lparr>enabled := True\<rparr>))"

definition free_constraints :: proxy_constraints where
  "free_constraints = \<lparr>max_enabled = None, max_mode = None, max_upstream_proxy = None, max_non_loopback_proxy = None,
     max_all_unix_sockets = None, managed_allowed_domains = None, allowlist_expansion_enabled = None,
     managed_denied_domains = None, denylist_expansion_enabled = None, managed_unix_sockets = None, max_local_binding = None\<rparr>"

definition sample_constraints :: "ustr list \<Rightarrow> proxy_constraints" where
  "sample_constraints managed = free_constraints\<lparr>managed_allowed_domains := Some managed\<rparr>"

definition connect_request :: "ustr \<Rightarrow> network_policy_request" where
  "connect_request host = \<lparr>req_protocol = HttpsConnect, req_host = host, req_port = 443, req_client_addr = None,
     req_method = None, req_command = None, req_exec_policy_hint = None\<rparr>"

definition sample_state :: config_state where
  "sample_state = \<lparr>settings = sample_settings [lit ''*.good.com''] [lit ''bad.com''], allow_set = [lit ''?*.good.com''],
     deny_set = [lit ''bad.com''], has_mitm = False, constraints = sample_constraints [lit ''**.good.com''],
     blocked = [], blocked_total = 0\<rparr>"

lemma sample_state_built:
  "build_config_state sample_net (sample_settings [lit ''*.good.com''] [lit ''bad.com'']) (sample_constraints [lit ''**.good.com''])
    = Inr sample_state"
  by code_simp

lemma sample_state_validated:
  "validate_policy_against_constraints sample_net (settings sample_state) (constraints sample_state) = Inr ()"
  by code_simp

lemma connect_admitted:
  "evaluate_host_policy sample_net (Inr None) None (connect_request (lit ''API.good.com.:443'')) sample_state
    = (Inr NetAllow, sample_state)"
  by code_simp

subsection \<open>The organisation's allow list\<close>

text \<open>C37: The organisation's allow list bounds what the proxy lets through by itself. In a state that
  follows its settings, whose constraints list domains and leave the expansion open, a request that is
  allowed without a decider names a host that a pattern of the organisation matches, as long as the
  patterns on both sides are plain, so that the comparison of patterns and the globs read them alike.\<close>

theorem managed_allowlist_is_respected:
  assumes "follows_settings libs s" and "reload_ok libs r" and "globs_widen libs"
    and "evaluate_host_policy libs r None request s = (Inr NetAllow, s')"
    and "managed_allowed_domains (constraints s') = Some managed" and "allowlist_expansion_enabled (constraints s') = None"
    and "\<forall>p\<in>set managed \<union> set (or_empty (allowed_domains (settings s'))). plain_pattern libs p"
  shows "\<exists>h. host_parse (req_host request) = Inr h
    \<and> (\<exists>m\<in>set managed. globs_match libs (expand_domain_pattern (normalize_pattern m)) h)"
proof -
  from assms(4) obtain d where d: "host_blocked libs r (req_host request) (req_port request) s = (Inr d, s')"
    and "(case d of Allowed \<Rightarrow> NetAllow
      | Blocked NotAllowed \<Rightarrow> deny_with_source (reason_str NotAllowed) BaselinePolicy
      | Blocked reason \<Rightarrow> deny_with_source (reason_str reason) BaselinePolicy) = NetAllow"
    unfolding evaluate_host_policy_def try_then_Inr_iff option.case by blast
  then have "d = Allowed" by (simp add: deny_with_source_def split: host_block_decision.splits host_block_reason.splits)
  with d have hosts: "reload_if_needed r s = (Inr (), s')"
    "\<exists>h. host_parse (req_host request) = Inr h \<and> decide_host libs h (req_port request) s' = Allowed"
    by (cases "host_parse (req_host request)"; auto simp: host_blocked_def try_then_Inr_iff)+
  from hosts(2) obtain h where h: "host_parse (req_host request) = Inr h" "decide_host libs h (req_port request) s' = Allowed"
    by blast
  from reload_policy_ok [OF assms(1,2)] hosts(1) have ok: "follows_settings libs s'" by simp
  then have v: "validate_policy_against_constraints libs (settings s') (constraints s') = Inr ()"
    and allow: "compile_globset_with_policy libs (or_empty (allowed_domains (settings s'))) AllowWildcard = Inr (allow_set s')"
    by (simp_all add: follows_settings_def compile_allowlist_globset_def)
  from decide_host_allows [OF h(2)] have "globs_match libs (allow_set s') h" by simp
  then obtain e g where eg: "e \<in> set (or_empty (allowed_domains (settings s')))"
    "g \<in> set (expand_domain_pattern (normalize_pattern e))" "glob_match libs g h"
    unfolding globs_match_compiled [OF allow] by blast
  from validate_allowed_subset [OF validated_allowed_domains [OF v] assms(5,6) eg(1)] obtain m
    where m: "m \<in> set managed" "pattern_allows (parse_for_constraints libs m) (parse_for_constraints libs e)" by blast
  have "\<exists>g'\<in>set (expand_domain_pattern (normalize_pattern m)). glob_match libs g' h"
    using assms(7) m(1) eg(1) by (intro allowed_globs_match [OF assms(3) _ _ m(2) eg(2,3)]) simp_all
  with h(1) m(1) show ?thesis by (auto simp: globs_match_def list_ex_iff)
qed

lemma sample_patterns_plain: "list_all (plain_pattern sample_net) [lit ''**.good.com'', lit ''*.good.com'']"
  by code_simp

lemma sample_state_ok: "follows_settings sample_net sample_state"
  by code_simp

theorem managed_allowlist_is_respected_witness:
  "\<exists>h. host_parse (lit ''API.good.com.:443'') = Inr h
    \<and> globs_match sample_net (expand_domain_pattern (normalize_pattern (lit ''**.good.com''))) h"
proof -
  have c: "managed_allowed_domains (constraints sample_state) = Some [lit ''**.good.com'']"
    "allowlist_expansion_enabled (constraints sample_state) = None"
    "or_empty (allowed_domains (settings sample_state)) = [lit ''*.good.com'']"
    "req_host (connect_request (lit ''API.good.com.:443'')) = lit ''API.good.com.:443''" by code_simp+
  have r: "reload_ok sample_net (Inr None)" by (simp add: reload_ok_def)
  have p: "\<forall>p\<in>set [lit ''**.good.com''] \<union> set (or_empty (allowed_domains (settings sample_state))). plain_pattern sample_net p"
    unfolding c(3) using sample_patterns_plain by simp
  from managed_allowlist_is_respected [OF sample_state_ok r sample_net_widens connect_admitted c(1,2) p]
  show ?thesis unfolding c(4) by simp
qed

text \<open>C38: The comparison can be led astray. An entry with a star is compared as it stands, and
  \<open>x:*.d\<close> ends like a subdomain of \<open>d\<close>; the glob made from it leaves out what follows the
  colon. So an organisation that allows \<open>**.d\<close> accepts an entry that lets any host \<open>x\<close> through.\<close>

theorem managed_allowlist_bypass:
  assumes "managed_allowed_domains c = Some [star_star_dot @ d]" and "allowlist_expansion_enabled c = None"
    and "plain_pattern libs (star_star_dot @ d)" and "plain x" and "x \<noteq> []" and "hd x \<noteq> c_star" and "normalize_domain x = x"
  shows "validate_allowed_domains libs c overrides [x @ c_colon # star_dot @ d] = Inr ()
    \<and> expand_domain_pattern (normalize_pattern (x @ c_colon # star_dot @ d)) = [x]"
proof -
  let ?e = "x @ c_colon # star_dot @ d"
  have parts: "pattern_parts (star_star_dot @ d) = (ApexAndSubdomains, star_star_dot, d)" by (simp add: pattern_parts_def)
  from plain_pattern_readings [OF assms(3), unfolded parts] obtain d' where d': "normalize_domain d \<noteq> []"
    "hd (normalize_domain d) \<noteq> c_star" "normalize_domain d' = normalize_domain d"
    "parse_for_constraints libs (star_star_dot @ d) = ApexAndSubdomains d'"
    "expand_domain_pattern (normalize_pattern (star_star_dot @ d)) = [normalize_domain d, subdomain_glob (normalize_domain d)]"
    by auto
  have d: "plain d" "d \<noteq> []" "trim_end_dots d \<noteq> []"
    using assms(3) d'(1) by (auto simp: plain_pattern_def parts plain_def normalize_domain_def)
  have ends: "\<not> is_whitespace (hd ?e)" "\<not> is_whitespace (last ?e)"
    using assms(4,5) d(1,2) hd_in_set [of x] last_in_set [of d] by (auto simp: plain_def plain_char_def list_all_iff)
  have e: "trim ?e = ?e" "\<not> starts_with [c_open] ?e" "strip_prefix star_star_dot ?e = None" "strip_prefix star_dot ?e = None"
    "count_list ?e c_colon = 1" "takeWhile (\<lambda>c. c \<noteq> c_colon) ?e = x"
  proof -
    show "trim ?e = ?e" using ends by (intro trim_id) auto
    show "\<not> starts_with [c_open] ?e" "strip_prefix star_star_dot ?e = None" "strip_prefix star_dot ?e = None"
      using assms(4-6) plain_no_open [of x] by (cases x; simp)+
    show "count_list ?e c_colon = 1" using plain_count_colon assms(4) d(1) by simp
    show "takeWhile (\<lambda>c. c \<noteq> c_colon) ?e = x" using plain_free [OF assms(4)] by (subst takeWhile_append2) auto
  qed
  have *: "parse_for_constraints libs ?e = Exact (x @ c_colon # star_dot @ trim_end_dots d)"
    using e d(3) trim_end_dots_append [of d "x @ c_colon # star_dot"] assms(5) plain_no_open [OF assms(4)]
    by (cases x) (simp_all add: parse_for_constraints_def parse_domain_for_constraints_def Let_def)
  have "pattern_allows (parse_for_constraints libs (star_star_dot @ d)) (parse_for_constraints libs ?e)"
  proof -
    have "normalize_domain (x @ c_colon # star_dot @ trim_end_dots d) = to_ascii_lowercase (x @ [c_colon, c_star]) @ c_dot # normalize_domain d"
      using d(3) normalize_domain_append [of "trim_end_dots d" "x @ [c_colon, c_star, c_dot]"]
      by (simp add: lower_append) (simp add: to_ascii_lowercase_def)
    then show ?thesis unfolding * d'(4) by (auto simp: is_subdomain_or_equal_def d'(3) ends_with_iff)
  qed
  moreover have "\<not> is_global_wildcard_domain_pattern (star_star_dot @ d)"
    unfolding is_global_wildcard_domain_pattern_def d'(5) using d'(2) by (cases "normalize_domain d") (auto simp: subdomain_glob_def)
  moreover have "normalize_pattern ?e = x"
    using e assms(6,7) by (simp add: normalize_pattern_def normalize_host_def normalize_dns_domain)
  ultimately show ?thesis
    using assms(1,2) pattern_parse_parts(1) [OF assms(4-6)]
    by (simp add: validate_allowed_domains_def validate_non_global_wildcard_domain_patterns_def expand_globs_of)
qed

theorem managed_allowlist_bypass_witness:
  "validate_allowed_domains sample_net (sample_constraints [lit ''**.good.com'']) [] [lit ''evil.com:*.good.com''] = Inr ()
    \<and> expand_domain_pattern (normalize_pattern (lit ''evil.com:*.good.com'')) = [lit ''evil.com'']"
proof -
  let ?c = "sample_constraints [lit ''**.good.com'']"
  have l: "lit ''**.good.com'' = star_star_dot @ lit ''good.com''"
    "lit ''evil.com:*.good.com'' = lit ''evil.com'' @ c_colon # star_dot @ lit ''good.com''" by code_simp+
  have c: "managed_allowed_domains ?c = Some [lit ''**.good.com'']" "allowlist_expansion_enabled ?c = None" by code_simp+
  have p: "plain_pattern sample_net (lit ''**.good.com'')" using sample_patterns_plain by simp
  have x: "plain (lit ''evil.com'')" "lit ''evil.com'' \<noteq> []" "hd (lit ''evil.com'') \<noteq> c_star"
    "normalize_domain (lit ''evil.com'') = lit ''evil.com''" by code_simp+
  from managed_allowlist_bypass [OF c(1) [unfolded l(1)] c(2) [unfolded l(1)] p [unfolded l(1)] x]
  show ?thesis unfolding l by blast
qed

subsection \<open>Changes\<close>

text \<open>
  What the program may do with the state: the operations, whatever they return. The reloader and those
  who hand a state to the proxy promise that it follows its settings; so do the other tasks between
  the turns of an operation.
\<close>

inductive policy_step :: "net_libs \<Rightarrow> config_state \<Rightarrow> config_state \<Rightarrow> bool" for libs :: net_libs where
  step_force_reload: "(\<And>n. r = Inr n \<Longrightarrow> follows_settings libs n) \<Longrightarrow> policy_step libs s (snd (force_reload r s))"
| step_replace: "reload_ok libs r \<Longrightarrow> follows_settings libs n \<Longrightarrow> policy_step libs s (snd (replace_config_state r n s))"
| step_mode: "set_network_mode libs m turns s = Some (v, s') \<Longrightarrow> turns_ok libs turns \<Longrightarrow> policy_step libs s s'"
| step_domain: "update_domain_list libs host k turns s = Some (v, s') \<Longrightarrow> turns_ok libs turns \<Longrightarrow> policy_step libs s s'"
| step_record: "reload_ok libs r \<Longrightarrow> policy_step libs s (snd (record_blocked r entry s))"
| step_drain: "reload_ok libs r \<Longrightarrow> policy_step libs s (snd (drain_blocked r s))"
| step_request: "reload_ok libs r \<Longrightarrow> policy_step libs s (snd (evaluate_host_policy libs r decider request s))"
| step_read: "reload_ok libs r \<Longrightarrow> policy_step libs s (snd (reload_if_needed r s))"

inductive_cases policy_stepE: "policy_step libs s s'"

lemma policy_step_ok: "policy_step libs s s' \<Longrightarrow> follows_settings libs s \<Longrightarrow> follows_settings libs s'"
proof (induction rule: policy_step.induct)
  case (step_force_reload r s)
  then show ?case by (auto simp: force_reload_def follows_settings_def split: sum.splits)
next
  case (step_replace r n s)
  then show ?case
    unfolding replace_config_state_def by (intro try_then_state [where P = "follows_settings libs"] reload_policy_ok) (simp_all add: follows_settings_def)
next
  case (step_record r s entry)
  then show ?case
    unfolding record_blocked_def by (intro try_then_state [where P = "follows_settings libs"] reload_policy_ok) (simp_all add: follows_settings_def Let_def)
next
  case (step_drain r s)
  then show ?case
    unfolding drain_blocked_def by (intro try_then_state [where P = "follows_settings libs"] reload_policy_ok) (simp_all add: follows_settings_def)
next
  case (step_request r s decider request)
  then show ?case
    unfolding evaluate_host_policy_def host_blocked_def
    by (intro try_then_state [where P = "follows_settings libs"] reload_policy_ok) (simp_all split: sum.split)
next
  case (step_read r s)
  then show ?case by (simp add: reload_policy_ok)
next
  case (step_domain host k turns s v s')
  then show ?case by (auto simp: update_domain_list_def intro: update_turns_ok split: sum.splits)
qed (rule set_network_mode_ok)

text \<open>What every step keeps holds in every state that is reached.\<close>

locale kept_by_steps =
  fixes holds :: "'s \<Rightarrow> bool" and step :: "'s \<Rightarrow> 's \<Rightarrow> bool"
  assumes step_keeps: "step s s' \<Longrightarrow> holds s \<Longrightarrow> holds s'"
begin

lemma reached_holds: "step\<^sup>*\<^sup>* s s' \<Longrightarrow> holds s \<Longrightarrow> holds s'"
  by (induction rule: rtranclp_induct) (auto dest: step_keeps)

end

interpretation policy_steps: kept_by_steps "follows_settings libs" "policy_step libs" for libs
  by unfold_locales (rule policy_step_ok)

text \<open>C39: Whatever the operations do, in whatever order and however often they have to start again, the
  state follows its settings: the settings keep to the constraints of the organisation, the globs that
  decide are those of the lists of allowed and denied domains, and the record of blocked requests
  stays within its bounds. The states that come from outside the proxy are promised to be so: those the reloader or a
  caller of the replacement hands over, and those the other tasks leave between the turns of an operation (the loader
  of the program validates before it builds a state).\<close>

theorem policy_stays_ok:
  assumes "(policy_step libs)\<^sup>*\<^sup>* s s'" and "follows_settings libs s"
  shows "follows_settings libs s'"
  using assms by (rule policy_steps.reached_holds)

definition sample_blocked :: blocked_request where
  "sample_blocked = \<lparr>br_host = lit ''bad.com'', br_reason = lit ''denied'', br_client = None, br_method = None,
     br_mode = None, br_protocol = lit ''http'', br_decision = None, br_source = None, br_port = Some 80, br_timestamp = 0\<rparr>"

theorem policy_stays_ok_witness:
  "follows_settings sample_net (snd (drain_blocked (Inr None) (snd (record_blocked (Inr None) sample_blocked sample_state))))"
proof -
  have r: "reload_ok sample_net (Inr None)" by (simp add: reload_ok_def)
  let ?t = "snd (record_blocked (Inr None) sample_blocked sample_state)"
  have "policy_step sample_net sample_state ?t" "policy_step sample_net ?t (snd (drain_blocked (Inr None) ?t))"
    by (rule step_record [OF r], rule step_drain [OF r])
  then have "(policy_step sample_net)\<^sup>*\<^sup>* sample_state (snd (drain_blocked (Inr None) ?t))" by simp
  then show ?thesis using sample_state_ok by (rule policy_stays_ok)
qed

text \<open>A change that nobody disturbs leaves the host in its list and not in the other one.\<close>

definition quiet :: "turn list \<Rightarrow> bool" where
  "quiet turns \<longleftrightarrow> (\<forall>(r, others)\<in>set turns. others = id)"

lemma kind_entries_upserted:
  assumes "normalize_host h = h"
  shows "lists_host h (kind_entries k (upsert_domain_permission h (kind_permission k) normalize_host s))
    \<and> \<not> lists_host h (kind_opposite_entries k (upsert_domain_permission h (kind_permission k) normalize_host s))"
  using upserted_lists [OF assms] by (cases k) (simp_all add: allowed_domains_def denied_domains_def)

lemma updated_turns_list_host:
  "\<lbrakk>update_turns libs h k turns s = Some (Inr (), s'); normalize_host h = h; quiet turns\<rbrakk> \<Longrightarrow>
    lists_host h (kind_entries k (settings s')) \<and> \<not> lists_host h (kind_opposite_entries k (settings s'))"
proof (induction libs h k turns s rule: update_turns.induct)
  case (2 libs h k r others turns s)
  have id: "others = id" using 2(4) by (simp add: quiet_def)
  obtain w t where t: "reload_if_needed r s = (w, t)" by (cases "reload_if_needed r s")
  let ?c = "upsert_domain_permission h (kind_permission k) normalize_host (settings t)"
  from 2(2) obtain u where w: "w = Inr u" by (cases w) (simp_all add: t)
  show ?case
  proof (cases "lists_host h (kind_entries k (settings t)) \<and> \<not> lists_host h (kind_opposite_entries k (settings t))")
    case True
    with 2(2) t w id show ?thesis by simp
  next
    case False
    with 2(2) t w id obtain n where n: "validate_policy_against_constraints libs ?c (constraints t) = Inr ()"
      "build_config_state libs ?c (constraints t) = Inr n" "s' = n\<lparr>blocked := blocked t, blocked_total := blocked_total t\<rparr>"
      by (auto simp: Let_def split: sum.splits)
    from built_policy_ok [OF n(2,1)] n(3) have "settings s' = ?c" by simp
    with kind_entries_upserted [OF 2(3)] show ?thesis by simp
  qed
qed simp

lemma trim_end_dots_Cons: "c \<noteq> c_dot \<Longrightarrow> trim_end_dots (c # s) = c # trim_end_dots s"
proof (induction s rule: rev_induct)
  case Nil
  then show ?case using trim_end_dots_snoc [of "[]" c] by simp
next
  case (snoc x s)
  then show ?case using trim_end_dots_snoc [of "c # s" x] trim_end_dots_snoc [of s x] by simp
qed

lemma trim_trim [simp]: "trim (trim s) = trim s"
proof (rule trim_id)
  show "trim s = [] \<or> \<not> is_whitespace (last (trim s))"
    unfolding trim_def trim_end_def by (rule trim_end_matches_last)
  obtain r where r: "trim_start s = trim s @ r"
    using trim_end_matches_prefix [of "trim_start s" is_whitespace] by (auto simp: trim_def trim_end_def)
  show "trim s = [] \<or> \<not> is_whitespace (hd (trim s))"
  proof (rule disjCI)
    assume *: "\<not> \<not> is_whitespace (hd (trim s))"
    have "trim_start s = [] \<or> \<not> is_whitespace (hd (trim_start s))"
      unfolding trim_start_def trim_start_matches_def by (metis dropWhile_eq_Nil_conv hd_dropWhile)
    with * r show "trim s = []" by (cases "trim s") auto
  qed
qed

text \<open>An entry that stands for a host without wildcards has it as its one glob.\<close>

lemma entry_of_host:
  assumes "normalize_host e = h" and "plain h" and "wildcard_free h" and "h \<noteq> []"
  shows "expand_domain_pattern (normalize_pattern e) = [h]"
proof -
  have "False" if t: "trim e = c_star # x" for x
  proof -
    have "\<exists>y. normalize_dns_host (c_star # y) = h"
      using assms(1) unfolding normalize_host_def Let_def t by (simp split: if_splits) blast+
    then obtain y where "normalize_dns_host (c_star # y) = h" ..
    then have "c_star \<in> set h"
      by (auto simp: normalize_dns_domain normalize_domain_def trim_end_dots_Cons to_ascii_lowercase_def)
    with assms(3) show False by (simp add: wildcard_free_def)
  qed
  then have n: "trim e \<noteq> star" "strip_prefix star_star_dot (trim e) = None" "strip_prefix star_dot (trim e) = None"
    by (auto simp: strip_prefix_Some_iff simp flip: not_Some_eq)
  have "normalize_pattern e = h"
    using n assms(1) by (simp add: normalize_pattern_def normalize_host_def)
  moreover have "hd h \<noteq> c_star" using assms(3,4) by (cases h) (auto simp: wildcard_free_def)
  ultimately show ?thesis using pattern_parse_parts(1) [OF assms(2,4)] by (simp add: expand_globs_of)
qed

lemma host_parse_normal: "host_parse host = Inr h \<Longrightarrow> h \<noteq> [] \<and> normalize_domain h = h"
  by (auto simp: host_parse_def normalize_host_def Let_def normalize_dns_domain split: if_splits)

text \<open>C40: A host that is added to the list of denied domains is refused from then on, on every port and
  whatever the decider says, when the change meets no other and the host is plain, without a wildcard.\<close>

theorem denied_domain_is_refused:
  assumes "update_domain_list libs host DenyList turns s = Some (Inr (), s')" and "quiet turns" and "turns_ok libs turns"
    and "follows_settings libs s" and "host_parse host = Inr h" and "plain h" and "wildcard_free h" and "glob_match libs h h"
    and "host_parse (req_host request) = Inr h"
  shows "evaluate_host_policy libs (Inr None) decider request s' = (Inr (deny_with_source (reason_str Denied) BaselinePolicy), s')"
proof -
  note h = host_parse_normal [OF assms(5)]
  have nh: "normalize_host h = h" using plain_normalize_host [OF assms(6)] h by simp
  have u: "update_turns libs h DenyList turns s = Some (Inr (), s')" using assms(1,5) by (simp add: update_domain_list_def)
  from updated_turns_list_host [OF u nh assms(2)] obtain e where
    e: "e \<in> set (or_empty (denied_domains (settings s')))" "normalize_host e = h" by (auto simp: lists_host_def list_ex_iff)
  have "follows_settings libs s'" using u assms(4,3) by (rule update_turns_ok)
  then have c: "compile_globset_with_policy libs (or_empty (denied_domains (settings s'))) RejectWildcard = Inr (deny_set s')"
    by (simp add: follows_settings_def compile_denylist_globset_def)
  have "globs_match libs (deny_set s') h"
    unfolding globs_match_compiled [OF c] using e entry_of_host [OF e(2) assms(6,7)] h assms(8) by force
  then have "decide_host libs h (req_port request) s' = Blocked Denied" by (simp add: decide_host_def)
  then show ?thesis using assms(9) by (simp add: evaluate_host_policy_def host_blocked_def reload_if_needed_def)
qed

theorem denied_domain_is_refused_witness:
  "\<exists>s'. update_domain_list sample_net (lit ''API.good.com'') DenyList [(Inr None, id)] sample_state = Some (Inr (), s')
    \<and> evaluate_host_policy sample_net (Inr None) (Some (\<lambda>_. NetAllow)) (connect_request (lit ''api.good.com:443'')) s'
      = (Inr (deny_with_source (reason_str Denied) BaselinePolicy), s')"
proof -
  let ?turns = "[(Inr None, id)] :: turn list"
  have "(case update_domain_list sample_net (lit ''API.good.com'') DenyList ?turns sample_state of Some (Inr _, _) \<Rightarrow> True | _ \<Rightarrow> False)"
    by code_simp
  then obtain s' where s': "update_domain_list sample_net (lit ''API.good.com'') DenyList ?turns sample_state = Some (Inr (), s')"
    by (auto split: option.splits sum.splits prod.splits)
  have t: "quiet ?turns" "turns_ok sample_net ?turns" by (simp_all add: quiet_def turns_ok_def reload_ok_def)
  have h: "host_parse (lit ''API.good.com'') = Inr (lit ''api.good.com'')" "plain (lit ''api.good.com'')"
    "wildcard_free (lit ''api.good.com'')" "glob_match sample_net (lit ''api.good.com'') (lit ''api.good.com'')"
    "host_parse (req_host (connect_request (lit ''api.good.com:443''))) = Inr (lit ''api.good.com'')" by code_simp+
  from denied_domain_is_refused [OF s' t sample_state_ok h] s' show ?thesis by blast
qed

end
