(* ===== verification/Net_Guards.thy ===== *)
theory Net_Guards
  imports Net_Requests Net_Properties
begin

section \<open>Properties of the requests to the network proxy\<close>

text \<open>
  What a request that is handed on has passed, in whatever way other tasks and reloads change the state
  between two accesses.
\<close>

subsection \<open>Accesses\<close>

text \<open>The state an access sees, and the state after a row of accesses.\<close>

definition seen :: "world \<Rightarrow> config_state \<Rightarrow> nat \<Rightarrow> config_state" where
  "seen w s k = snd (reload_if_needed (reloaded (w k)) (meanwhile (w k) s))"

definition after :: "world \<Rightarrow> nat list \<Rightarrow> config_state \<Rightarrow> config_state" where
  "after w ks s = foldl (seen w) s ks"

lemma after_simps [simp]: "after w [] s = s" "after w (k # ks) s = after w ks (seen w s k)"
  by (simp_all add: after_def)

lemma read_state_Inr: "read_state r f s = (Inr v, t) \<Longrightarrow> t = snd (reload_if_needed r s) \<and> v = f t"
  by (auto simp: read_state_def try_then_Inr_iff)

lemma read_at:
  "at w k proxy_enabled s = (Inr on, t) \<Longrightarrow> t = seen w s k \<and> on = enabled (settings t)"
  "at w k current_mode s = (Inr m, t) \<Longrightarrow> t = seen w s k \<and> m = mode (settings t)"
  "at w k mitm_state s = (Inr has, t) \<Longrightarrow> t = seen w s k \<and> has = has_mitm t"
  "at w k upstream_proxy_allowed s = (Inr up, t) \<Longrightarrow> t = seen w s k \<and> up = allow_upstream_proxy (settings t)"
  "at w k (\<lambda>r. method_allowed r meth) s = (Inr ok, t) \<Longrightarrow> t = seen w s k \<and> ok = allows_method (mode (settings t)) meth"
  by (auto simp: at_def seen_def proxy_enabled_def current_mode_def mitm_state_def upstream_proxy_allowed_def method_allowed_def
      dest: read_state_Inr)

lemma host_blocked_Inr: "host_blocked libs r h port s = (Inr d, t) \<Longrightarrow> t = snd (reload_if_needed r s)"
  by (cases "host_parse h") (auto simp: host_blocked_def try_then_Inr_iff)

lemma evaluate_Inr: "evaluate_host_policy libs r decider request s = (Inr d, t) \<Longrightarrow> t = snd (reload_if_needed r s)"
  by (auto simp: evaluate_host_policy_def try_then_Inr_iff dest: host_blocked_Inr)

lemma or_answer_Inr_iff: "or_answer e m = (Inr a, s) \<longleftrightarrow> m = (Inr a, s)"
  by (auto simp: or_answer_def split: prod.splits sum.splits)

lemma refuse_Inr: "refuse w k entry e s \<noteq> (Inr a, s')"
  by (simp add: refuse_def)

lemma proxy_disabled_Inr: "proxy_disabled_response w k host port client meth protocol s \<noteq> (Inr a, s')"
  by (simp add: proxy_disabled_response_def refuse_Inr Let_def)

lemmas passing = try_then_Inr_iff or_answer_Inr_iff refuse_Inr proxy_disabled_Inr

lemma ask_policy_Inr:
  assumes "ask_policy libs w k decider request label e denied s = (Inr u, s')"
  shows "s' = seen w s k \<and> lets_through libs decider request s'"
proof -
  from assms obtain decision t where e: "evaluate_host_policy libs (reloaded (w k)) decider request (meanwhile (w k) s) = (Inr decision, t)"
    and d: "(case decision of NetAllow \<Rightarrow> (Inr (), t)
      | NetDeny reason source decision \<Rightarrow> refuse w (k + 1)
          (policy_entry \<lparr>pd_decision = decision, pd_reason = reason, pd_source = source, pd_protocol = req_protocol request,
             pd_host = req_host request, pd_port = req_port request\<rparr> (req_client_addr request) (req_method request) None label)
          (denied \<lparr>pd_decision = decision, pd_reason = reason, pd_source = source, pd_protocol = req_protocol request,
             pd_host = req_host request, pd_port = req_port request\<rparr>) t) = (Inr u, s')"
    unfolding ask_policy_def try_then_Inr_iff or_answer_Inr_iff at_def Let_def by blast
  from d have "decision = NetAllow \<and> t = s'" by (cases decision) (simp_all add: refuse_Inr)
  with e evaluate_Inr [OF e] admitted_requests show ?thesis by (simp add: seen_def)
qed

text \<open>A refusal is the newest entry of the record, unless the reload before it fails.\<close>

lemma refusal_is_recorded:
  assumes "reloaded (w k) = Inr r"
  shows "last (blocked (snd (refuse w k entry answer s))) = entry\<lparr>br_timestamp := clock (w k)\<rparr>"
proof -
  have l: "last (drop (length (b @ [x]) - MAX_BLOCKED_EVENTS) (b @ [x])) = x" for b and x :: blocked_request
    by (subst last_drop) (simp_all add: MAX_BLOCKED_EVENTS_def)
  show ?thesis using assms by (cases r) (simp_all add: refuse_def at_def record_blocked_def reload_if_needed_def Let_def l [simplified])
qed

subsection \<open>What is handed on\<close>

lemma connect_passes:
  assumes "http_connect_accept libs w decider req s = (Inr g, s')"
  shows "\<exists>ctx. rq_context req = Some ctx \<and> tg_target g = ctx_host_with_port ctx
    \<and> enabled (settings (after w [0] s))
    \<and> lets_through libs decider (policy_request HttpsConnect (normalize_host (fst (ctx_host_with_port ctx)))
          (snd (ctx_host_with_port ctx)) (rq_client req) (Some (lit ''CONNECT''))) (after w [0, 1] s)
    \<and> tg_mode g = mode (settings (after w [0, 1, 3] s)) \<and> tg_mitm g = has_mitm (after w [0, 1, 3, 4] s)
    \<and> (tg_mode g = Limited \<longrightarrow> tg_mitm g)"
proof -
  obtain ctx where ctx: "rq_context req = Some ctx" using assms by (cases "rq_context req") (simp_all add: http_connect_accept_def)
  obtain host port where hp: "ctx_host_with_port ctx = (host, port)" by (cases "ctx_host_with_port ctx")
  have "normalize_host host \<noteq> []" using assms by (auto simp: http_connect_accept_def ctx hp Let_def)
  then obtain on t u t1 m t2 has t3 where
    steps: "at w 0 proxy_enabled s = (Inr on, t)" "on"
      "ask_policy libs w 1 decider (policy_request HttpsConnect (normalize_host host) port (rq_client req) (Some (lit ''CONNECT'')))
         (lit ''http-connect'') (text_response 500 (lit ''error'')) (\<lambda>d. blocked_text_response_with_policy (pd_reason d) d) t = (Inr u, t1)"
      "at w 3 current_mode t1 = (Inr m, t2)" "at w 4 mitm_state t2 = (Inr has, t3)"
      "\<not> (m = Limited \<and> \<not> has)" "g = \<lparr>tg_target = (host, port), tg_mode = m, tg_mitm = has\<rparr>"
    using assms unfolding http_connect_accept_def ctx option.case hp prod.case Let_def if_not_P
    by (auto simp: passing split: if_splits)
  then show ?thesis using ctx hp ask_policy_Inr [OF steps(3)] by (auto dest!: read_at)
qed

lemma serve_host_passes:
  assumes "serve_host libs same_host w decider method_ok req s = (Inr out, s')"
  shows "\<exists>ctx. rq_context req = Some ctx \<and> method_ok \<and> enabled (settings (after w [1] s))
    \<and> lets_through libs decider (policy_request Http (normalize_host (fst (ctx_host_with_port ctx))) (snd (ctx_host_with_port ctx))
          (rq_client req) (Some (rq_method req))) (after w [1, 2] s)
    \<and> out = ServeUpstream (allow_upstream_proxy (settings (after w [1, 2, 4] s)))"
proof -
  obtain ctx where ctx: "rq_context req = Some ctx" using assms by (cases "rq_context req") (simp_all add: serve_host_def)
  obtain host port where hp: "ctx_host_with_port ctx = (host, port)" by (cases "ctx_host_with_port ctx")
  have "validate_absolute_form_host_header same_host req ctx = Inr ()"
    using assms by (cases "validate_absolute_form_host_header same_host req ctx") (auto simp: serve_host_def ctx hp Let_def)
  with assms obtain on t u t1 up where
    steps: "at w 1 proxy_enabled s = (Inr on, t)" "on" "method_ok"
      "ask_policy libs w 2 decider (policy_request Http (normalize_host host) port (rq_client req) (Some (rq_method req)))
         (lit ''http'') (text_response 500 (lit ''error''))
         (\<lambda>d. json_blocked (normalize_host host) (pd_reason d) (Some d)) t = (Inr u, t1)"
      "at w 4 upstream_proxy_allowed t1 = (Inr up, s')" "out = ServeUpstream up"
    by (auto simp: serve_host_def ctx hp Let_def passing split: if_splits)
  then show ?thesis using ctx hp ask_policy_Inr [OF steps(4)] by (auto dest!: read_at)
qed

lemma plain_passes:
  assumes "http_plain_proxy libs macos canonicalize same_host w decider req s = (Inr out, s')"
  shows "allows_method (mode (settings (after w [0] s))) (rq_method req)
    \<and> (rq_unix_socket req = None \<longrightarrow>
        (\<exists>ctx. rq_context req = Some ctx \<and> enabled (settings (after w [0, 1] s))
          \<and> lets_through libs decider (policy_request Http (normalize_host (fst (ctx_host_with_port ctx)))
              (snd (ctx_host_with_port ctx)) (rq_client req) (Some (rq_method req))) (after w [0, 1, 2] s)
          \<and> out = ServeUpstream (allow_upstream_proxy (settings (after w [0, 1, 2, 4] s)))))"
proof -
  from assms obtain ok t where t: "at w 0 (\<lambda>r. method_allowed r (rq_method req)) s = (Inr ok, t)"
    "(case rq_unix_socket req of Some header \<Rightarrow> serve_unix_socket macos canonicalize w ok req header t
      | None \<Rightarrow> serve_host libs same_host w decider ok req t) = (Inr out, s')"
    unfolding http_plain_proxy_def passing by blast
  from read_at(5) [OF t(1)] have r: "t = after w [0] s" "ok = allows_method (mode (settings (after w [0] s))) (rq_method req)" by simp_all
  show ?thesis
  proof (cases "rq_unix_socket req")
    case None
    with t(2) have "serve_host libs same_host w decider ok req t = (Inr out, s')" by simp
    from serve_host_passes [OF this] r show ?thesis by auto
  next
    case (Some header)
    with t(2) have "serve_unix_socket macos canonicalize w ok req header t = (Inr out, s')" by simp
    then have "ok" by (cases header) (auto simp: serve_unix_socket_def passing split: if_splits)
    with r(2) Some show ?thesis by simp
  qed
qed

lemma socks_passes:
  assumes "inspect_socks libs protocol label w decider target client s = (Inr u, s')"
  shows "enabled (settings (after w [0] s)) \<and> mode (settings (after w [0, 1] s)) = Full
    \<and> lets_through libs decider (policy_request protocol (normalize_host (fst target)) (snd target) client None) (after w [0, 1, 2] s)"
proof -
  obtain host port where hp: "target = (host, port)" by (cases target)
  have "normalize_host host \<noteq> []" using assms by (auto simp: inspect_socks_def hp Let_def)
  with assms obtain on t m t1 where
    steps: "at w 0 proxy_enabled s = (Inr on, t)" "on" "at w 1 current_mode t = (Inr m, t1)" "m = Full"
      "ask_policy libs w 2 decider (policy_request protocol (normalize_host host) port client None) label ProxyFailure
         (\<lambda>d. policy_denied_error (pd_reason d) d) t1 = (Inr u, s')"
    by (auto simp: inspect_socks_def hp Let_def passing split: if_splits network_mode.splits; meson network_mode.exhaust)
  then show ?thesis using hp ask_policy_Inr [OF steps(5)] by (auto dest!: read_at)
qed

text \<open>C35: Whatever is handed on was admitted. A tunnel, a plain request that is not for a Unix socket and
  a SOCKS connection or datagram go on only when the proxy was on at the first access that asks for it
  and, at the access after the guards, the policy let the very host and port through: no deny pattern
  matches, the local network stays closed, and an allow pattern matches or the decider allows it.
  Reloads and other tasks may change the state before every access.\<close>

theorem forwarded_requests_are_admitted:
  assumes "rq_context req = Some ctx" and "ctx_host_with_port ctx = (host, port)"
  shows "(http_connect_accept libs w decider req s = (Inr g, s1) \<longrightarrow>
        tg_target g = (host, port) \<and> enabled (settings (after w [0] s))
      \<and> lets_through libs decider (policy_request HttpsConnect (normalize_host host) port (rq_client req) (Some (lit ''CONNECT'')))
          (after w [0, 1] s))
    \<and> (http_plain_proxy libs macos canonicalize same_host w decider req s = (Inr out, s2) \<and> rq_unix_socket req = None \<longrightarrow>
        enabled (settings (after w [0, 1] s))
      \<and> lets_through libs decider (policy_request Http (normalize_host host) port (rq_client req) (Some (rq_method req)))
          (after w [0, 1, 2] s))
    \<and> (inspect_socks libs protocol label w decider (host, port) client s = (Inr u, s3) \<longrightarrow>
        enabled (settings (after w [0] s))
      \<and> lets_through libs decider (policy_request protocol (normalize_host host) port client None) (after w [0, 1, 2] s))"
proof (rule conjI [OF impI conjI [OF impI impI]])
  assume "http_connect_accept libs w decider req s = (Inr g, s1)"
  from connect_passes [OF this] assms
  show "tg_target g = (host, port) \<and> enabled (settings (after w [0] s))
      \<and> lets_through libs decider (policy_request HttpsConnect (normalize_host host) port (rq_client req) (Some (lit ''CONNECT'')))
          (after w [0, 1] s)"
    by (auto simp del: after_simps)
next
  assume *: "http_plain_proxy libs macos canonicalize same_host w decider req s = (Inr out, s2) \<and> rq_unix_socket req = None"
  from plain_passes [OF conjunct1 [OF *]] * assms
  show "enabled (settings (after w [0, 1] s))
      \<and> lets_through libs decider (policy_request Http (normalize_host host) port (rq_client req) (Some (rq_method req)))
          (after w [0, 1, 2] s)"
    by (auto simp del: after_simps)
next
  assume "inspect_socks libs protocol label w decider (host, port) client s = (Inr u, s3)"
  from socks_passes [OF this]
  show "enabled (settings (after w [0] s))
      \<and> lets_through libs decider (policy_request protocol (normalize_host host) port client None) (after w [0, 1, 2] s)"
    by (auto simp del: after_simps)
qed

definition calm_world :: world where
  "calm_world k = \<lparr>reloaded = Inr None, meanwhile = id, clock = 0\<rparr>"

definition get_request :: proxy_request where
  "get_request = \<lparr>rq_method = lit ''GET'', rq_client = None,
     rq_context = Some \<lparr>ctx_authority = (lit ''API.good.com'', Some 443), ctx_host_with_port = (lit ''API.good.com'', 443), ctx_default_port = True\<rparr>,
     rq_absolute = False, rq_host_header = Inr None, rq_unix_socket = None\<rparr>"

lemma get_request_served:
  "http_plain_proxy sample_net False (\<lambda>_. None) (=) calm_world None get_request sample_state = (Inr (ServeUpstream True), sample_state)"
  by code_simp

theorem forwarded_requests_are_admitted_witness:
  "lets_through sample_net None (policy_request Http (normalize_host (lit ''API.good.com'')) 443 None (Some (lit ''GET'')))
    (after calm_world [0, 1, 2] sample_state)"
proof -
  let ?ctx = "\<lparr>ctx_authority = (lit ''API.good.com'', Some 443), ctx_host_with_port = (lit ''API.good.com'', 443::nat), ctx_default_port = True\<rparr>"
  have c: "rq_context get_request = Some ?ctx" "ctx_host_with_port ?ctx = (lit ''API.good.com'', 443)"
    "rq_client get_request = None" "rq_method get_request = lit ''GET''" "rq_unix_socket get_request = None"
    by (simp_all add: get_request_def)
  have "enabled (settings (after calm_world [0, 1] sample_state)) \<and>
    lets_through sample_net None (policy_request Http (normalize_host (lit ''API.good.com'')) 443 (rq_client get_request)
      (Some (rq_method get_request))) (after calm_world [0, 1, 2] sample_state)"
    by (rule conjunct1 [OF conjunct2 [OF forwarded_requests_are_admitted [OF c(1,2)]], THEN mp, OF conjI [OF get_request_served c(5)]])
  from conjunct2 [OF this] show ?thesis unfolding c(3,4) .
qed

subsection \<open>Limited mode\<close>

definition read_only :: "ustr \<Rightarrow> bool" where
  "read_only m \<longleftrightarrow> m = lit ''GET'' \<or> m = lit ''HEAD'' \<or> m = lit ''OPTIONS''"

definition stays_limited :: "world \<Rightarrow> bool" where
  "stays_limited w \<longleftrightarrow> (\<forall>k s. mode (settings s) = Limited \<longrightarrow> mode (settings (seen w s k)) = Limited)"

lemma limited_after: "stays_limited w \<Longrightarrow> mode (settings s) = Limited \<Longrightarrow> mode (settings (after w ks s)) = Limited"
  by (induction ks arbitrary: s) (auto simp: stays_limited_def)

lemma forward_request_method:
  assumes "forward_request libs uri_ok header_ok w h p m req path s = (Inr x, s')" shows "allows_method m (in_method req)"
proof -
  from assms have "\<exists>t. mitm_blocking_response libs w h p m req s = (Inr (), t)"
    by (auto simp: forward_request_def Let_def split: prod.splits sum.splits option.splits if_splits)
  then show ?thesis by (auto simp: mitm_blocking_response_def passing split: if_splits)
qed

text \<open>C36: Limited mode lets nothing but reading through. While the mode stays limited, a plain request that
  is handed on, to a Unix socket too, has a method that reads; SOCKS hands nothing on; and a tunnel
  that is granted is intercepted, in limited mode even if the mode changes later, so that whatever leaves it has
  such a method as well. So the method policy does apply to HTTPS, as the section of the README on limited mode says, and
  not as its security notes say.\<close>

theorem limited_mode_is_read_only:
  assumes "mode (settings s) = Limited" and "stays_limited w"
  shows "(http_plain_proxy libs macos canonicalize same_host w decider req s = (Inr out, s1) \<longrightarrow> read_only (rq_method req))
    \<and> inspect_socks libs protocol label w decider target client s \<noteq> (Inr u, s2)
    \<and> (http_connect_accept libs w decider req s = (Inr g, s3) \<longrightarrow>
        (\<exists>h p. http_connect_proxy w' g s3 = (Intercept h p Limited, s3)
          \<and> (forward_request libs uri_ok header_ok w'' h p Limited inner path t = (Inr x, s4) \<longrightarrow> read_only (in_method inner))))"
proof (rule conjI [OF impI conjI [OF _ impI]])
  assume "http_plain_proxy libs macos canonicalize same_host w decider req s = (Inr out, s1)"
  from plain_passes [OF this] limited_after [OF assms(2,1)] show "read_only (rq_method req)" by (simp add: read_only_def del: after_simps)
next
  show "inspect_socks libs protocol label w decider target client s \<noteq> (Inr u, s2)"
  proof
    assume "inspect_socks libs protocol label w decider target client s = (Inr u, s2)"
    from socks_passes [OF this] limited_after [OF assms(2,1), of "[0, 1]"] show False by (simp del: after_simps)
  qed
next
  assume "http_connect_accept libs w decider req s = (Inr g, s3)"
  from connect_passes [OF this] limited_after [OF assms(2,1), of "[0, 1, 3]"]
  have "tg_mode g = Limited" "tg_mitm g" by (auto simp del: after_simps)
  then show "\<exists>h p. http_connect_proxy w' g s3 = (Intercept h p Limited, s3)
      \<and> (forward_request libs uri_ok header_ok w'' h p Limited inner path t = (Inr x, s4) \<longrightarrow> read_only (in_method inner))"
    using forward_request_method [of libs uri_ok header_ok w'' _ _ Limited inner path t x s4]
    by (cases "tg_target g") (auto simp: http_connect_proxy_def read_only_def)
qed

definition limited_state :: config_state where
  "limited_state = sample_state\<lparr>settings := (settings sample_state)\<lparr>mode := Limited, mitm := True\<rparr>, has_mitm := True\<rparr>"

theorem limited_mode_is_read_only_witness:
  "(\<exists>s1. http_plain_proxy sample_net False (\<lambda>_. None) (=) calm_world None get_request limited_state = (Inr (ServeUpstream True), s1))
    \<and> read_only (rq_method get_request)"
proof -
  have l: "mode (settings limited_state) = Limited" "stays_limited calm_world"
    by (simp_all add: limited_state_def stays_limited_def seen_def calm_world_def reload_if_needed_def)
  have p: "http_plain_proxy sample_net False (\<lambda>_. None) (=) calm_world None get_request limited_state = (Inr (ServeUpstream True), limited_state)"
    by code_simp
  from conjunct1 [OF limited_mode_is_read_only [OF l]] p show ?thesis by blast
qed

subsection \<open>Hop-by-hop headers\<close>

text \<open>Removing a name leaves the others as they are.\<close>

definition header_laws :: "('h, 'b) header_ops_scheme \<Rightarrow> bool" where
  "header_laws ops \<longleftrightarrow> (\<forall>h n m. hget ops (hremove ops h n) m = (if m = n then None else hget ops h m))"

lemma removed_tokens:
  "header_laws ops \<Longrightarrow>
    hget ops (fold (remove_token ops) ts h) m = (if \<exists>t\<in>set ts. header_name ops t = Some m then None else hget ops h m)"
  by (induction ts arbitrary: h) (auto simp: remove_token_def header_laws_def split: option.splits)

lemma removed_names:
  "header_laws ops \<Longrightarrow> hget ops (fold (\<lambda>n h. hremove ops h n) ns h) m = (if m \<in> set ns then None else hget ops h m)"
  by (induction ns arbitrary: h) (auto simp: header_laws_def)

lemma connection_removed:
  assumes "header_laws ops"
  shows "\<exists>h'. remove_connection ops h = Some h' \<and> (\<forall>m. hget ops h' m =
    (if m = lit ''connection''
        \<or> (\<exists>v. hget ops h (lit ''connection'') = Some (Some v) \<and> (\<exists>t\<in>set (connection_tokens v). header_name ops t = Some m))
     then None else hget ops h m))"
proof -
  have stop: "remove_connection ops h = Some h" if "hget ops h (lit ''connection'') = None" for h
    using that by (simp add: remove_connection.simps [of ops h])
  show ?thesis
  proof (cases "hget ops h (lit ''connection'')")
    case None
    with stop [OF None] show ?thesis by auto
  next
    case (Some raw)
    let ?h = "case raw of Some v \<Rightarrow> fold (remove_token ops) (connection_tokens v) (hremove ops h (lit ''connection''))
      | None \<Rightarrow> hremove ops h (lit ''connection'')"
    have g: "hget ops (hremove ops h n) m = (if m = n then None else hget ops h m)" for h n m
      using assms by (simp add: header_laws_def)
    have m: "hget ops ?h m = (if m = lit ''connection''
        \<or> (\<exists>v. raw = Some v \<and> (\<exists>t\<in>set (connection_tokens v). header_name ops t = Some m)) then None else hget ops h m)" for m
      by (cases raw) (auto simp: g removed_tokens [OF assms])
    then have "remove_connection ops ?h = Some ?h" by (intro stop) simp
    then have "remove_connection ops h = Some ?h" by (subst remove_connection.simps) (cases raw; simp add: Some Let_def)
    with m Some show ?thesis by simp
  qed
qed

text \<open>
  The headers that are removed: the fixed ones and those that the first \<open>Connection\<close> header names.
  A second one is removed with the first, so what it names is kept.
\<close>

lemma hop_by_hop_headers_removed:
  assumes "header_laws ops"
  shows "\<exists>h'. remove_hop_by_hop_request_headers ops h = Some h' \<and> (\<forall>m. hget ops h' m =
    (if m = lit ''connection'' \<or> m \<in> set fixed_hop_headers \<or> header_name ops (lit ''te'') = Some m
        \<or> (\<exists>v. hget ops h (lit ''connection'') = Some (Some v) \<and> (\<exists>t\<in>set (connection_tokens v). header_name ops t = Some m))
     then None else hget ops h m))"
proof -
  obtain h1 where h1: "remove_connection ops h = Some h1" "\<And>m. hget ops h1 m =
    (if m = lit ''connection''
        \<or> (\<exists>v. hget ops h (lit ''connection'') = Some (Some v) \<and> (\<exists>t\<in>set (connection_tokens v). header_name ops t = Some m))
     then None else hget ops h m)"
    using connection_removed [OF assms, of h] by blast
  have te: "hget ops (remove_token ops t h) m = (if header_name ops t = Some m then None else hget ops h m)" for t h m
    using removed_tokens [OF assms, of "[t]" h m] by simp
  show ?thesis
    by (intro exI conjI allI)
      (simp add: remove_hop_by_hop_request_headers_def h1(1), auto simp: te removed_names [OF assms] h1(2))
qed

end
