(* ===== verification/Spec2Isabelle.thy ===== *)
theory Spec2Isabelle
  imports Patch_Properties Approval_Properties Stream_Properties Permission_Properties Output_Properties Tui_Properties
    Chat_Properties Net_Guards
begin

text \<open>
  Open Interpreter (a fork of the Codex coding agent): the decision and editing core of
  \<open>codex-rs\<close>.

  \<^bold>\<open>The program.\<close> An agent turns the output of a language model into actions on the user's
  machine. The parts modelled here are the ones that decide what may happen and that carry it
  out on files: the model proposes a shell command; \<open>shell-command\<close> finds the plain commands
  inside it and classifies them; \<open>execpolicy\<close> matches them against the rules of the user and
  of the organisation; \<open>core/src/exec_policy.rs\<close> combines both with the approval settings into
  "run", "ask" or "refuse", and adds the rules the user accepts; a patch is recognised in the
  command line, previewed, checked against the file system permissions by \<open>core/src/safety.rs\<close>
  and applied by \<open>apply-patch\<close>. The permissions themselves, from the settings of the session to
  the roots the platform sandbox is handed, are \<open>protocol/src/permissions.rs\<close>; extra permissions
  that the user grants are combined with them by \<open>sandboxing/src/policy_transforms.rs\<close>. Assistant
  text arrives in chunks and is split into visible text, citations and plans by
  \<open>utils/stream-parser\<close>. What a command prints is kept as a head and a tail, cut to a budget and
  recorded in the history of the conversation, which is made complete before it is sent to the model
  again (\<open>core/src/context_manager\<close>). In the terminal, the answer is shown line by line at a
  pace that follows its backlog, and keys that arrive too fast to be typed are taken for a paste
  (\<open>tui\<close>). Models behind a chat completions endpoint are reached through
  \<open>chat-wire-compat\<close>, which rewrites the request and reads the answer back into the same events.
  What a sandboxed command may reach on the network is decided by \<open>network-proxy\<close>, host by host.

  \<^bold>\<open>Theories and code.\<close>
  \<^item> \<open>Prelude\<close>: strings as lists of code points with their UTF-8 widths, trimming, splitting,
    searching, and fallible state transformers (\<open>?\<close> as \<open>try_then\<close>), shared by all theories.
  \<^item> \<open>Seek_Sequence\<close> (\<open>apply-patch/src/seek_sequence.rs\<close>): the search for a block of lines; the
    locale \<open>line_seeker\<close> states what the replacements rely on.
  \<^item> \<open>Paths\<close> (\<open>utils/absolute-path\<close>): lexical paths as lists of components.
  \<^item> \<open>Patch_Parser\<close>, \<open>Patch_Grammar\<close> (\<open>apply-patch/src/parser.rs\<close>): the parser with its modes and
    errors, and the printer of the documented grammar it is shown to invert.
  \<^item> \<open>Patch_Replace\<close>, \<open>Patch_Apply\<close> (\<open>apply-patch/src/lib.rs\<close>): replacements on lines, and the
    hunks applied through an abstract executor file system.
  \<^item> \<open>Patch_Invocation\<close> (\<open>apply-patch/src/invocation.rs\<close>): recognising the call and the preview.
  \<^item> \<open>Exec_Rule\<close>, \<open>Exec_Policy\<close> (\<open>execpolicy/src/decision.rs\<close>, \<open>rule.rs\<close>, \<open>policy.rs\<close>): ordered
    decisions, prefix rules, network rules, the policy tables and every operation on them; the
    locale \<open>command_rule\<close> is the trait \<open>Rule\<close>.
  \<^item> \<open>Exec_Policy_Parser\<close> (\<open>execpolicy/src/parser.rs\<close>, \<open>amend.rs\<close>): the policy builder, the
    builtins of policy files and the lines appended to them.
  \<^item> \<open>Shell_Parse\<close>, \<open>Command_Safety\<close> (\<open>shell-command\<close>): the walk over the syntax tree of a
    script, shell detection, and the two classifiers of commands (the Linux build).
  \<^item> \<open>Exec_Manager\<close> (\<open>core/src/exec_policy.rs\<close>, \<open>core/src/tools/sandboxing.rs\<close>): the approval
    requirement, amendments, loading of rules files and the session's approvals.
  \<^item> \<open>Stream_Text\<close>, \<open>Tag_Search\<close>, \<open>Inline_Tags\<close>, \<open>Tagged_Lines\<close> (\<open>utils/stream-parser/src\<close>): the
    contract of the streaming parsers as the locales \<open>text_stream\<close> and \<open>stream_text_parser\<close>, the
    hidden inline tags and the line based plan blocks.
  \<^item> \<open>Utf8\<close>, \<open>Utf8_Stream\<close>, \<open>Assistant_Text\<close> (same crate): decoding bytes around any parser that
    keeps the contract, and the assistant parser that stacks citations and plans.
  \<^item> \<open>Protocol_Types\<close> (\<open>protocol/src/protocol.rs\<close>): approval and sandbox settings.
  \<^item> \<open>Fs_Environment\<close>, \<open>Access_Policy\<close>, \<open>Sandbox_Roots\<close>, \<open>Legacy_Policy\<close>
    (\<open>protocol/src/permissions.rs\<close> and the parts of \<open>protocol.rs\<close> and \<open>utils/absolute-path\<close> it
    calls): the questions put to the operating system, the access of a path, what the sandbox is
    handed, and the older policy. \<open>Access_Decision\<close> and \<open>Sandbox_Facts\<close> hold the lemmas; the
    locale \<open>precedence\<close> states when the greatest covering entry decides.
  \<^item> \<open>Permission_Profiles\<close> (\<open>protocol/src/models.rs\<close>), \<open>Policy_Transforms\<close>
    (\<open>sandboxing/src/policy_transforms.rs\<close>): profiles, and merging and intersecting them;
    \<open>Grant_Facts\<close> holds the lemmas.
  \<^item> \<open>Patch_Safety\<close> (\<open>core/src/safety.rs\<close>): whether a patch is applied without asking.
  \<^item> \<open>Head_Tail_Buffer\<close> (\<open>core/src/unified_exec/head_tail_buffer.rs\<close>): the output of a running
    command.
  \<^item> \<open>Text_Truncation\<close>, \<open>String_Utils\<close> (\<open>utils/string/src\<close>), \<open>Output_Truncation\<close>
    (\<open>utils/output-truncation\<close>): cutting texts on character boundaries, the truncation policies of
    \<open>protocol.rs\<close> with their scaling by a double, and the output items of a tool under a policy.
  \<^item> \<open>Response_Items\<close> (\<open>protocol/src/models.rs\<close>), \<open>Context_Normalize\<close>, \<open>Context_Fragments\<close>,
    \<open>Context_History\<close> (\<open>core/src/context_manager/normalize.rs\<close>, \<open>history.rs\<close>,
    \<open>core/src/context\<close>, \<open>event_mapping.rs\<close>): the items of a conversation, pairing calls with
    outputs, recognising injected context, and the history with its token estimates;
    \<open>Context_Facts\<close> holds the lemmas.
  \<^item> \<open>Chunking\<close>, \<open>Stream_Commit\<close> (\<open>tui/src/streaming\<close>, \<open>markdown_stream.rs\<close>): the pacing
    policy, the collector, the queues, the controllers and the commit ticks;
    \<open>Stream_Commit_Facts\<close> holds the lemmas.
  \<^item> \<open>Paste_Burst\<close>, \<open>Composer_Input\<close> (\<open>tui/src/bottom_pane\<close>): the detection of pastes and the
    keys the composer feeds it.
  \<^item> \<open>Chat_Tools\<close>, \<open>Chat_Request\<close> (\<open>chat-wire-compat/src/request.rs\<close>), \<open>Chat_Stream\<close>
    (\<open>stream.rs\<close>): tools and their names on the wire, the conversion of a request, and the event
    stream; the locale \<open>wire_names\<close> states what the stream relies on. \<open>Chat_Protocol\<close> and
    \<open>Chat_Calls\<close> hold the order of events and the specification of tool calls, with their lemmas.
  \<^item> \<open>Net_Address\<close>, \<open>Net_Policy\<close> (\<open>network-proxy/src/policy.rs\<close>): addresses as words with the
    classes of \<open>std::net\<close>, hosts and patterns; \<open>Net_Config\<close> (\<open>config.rs\<close>): the settings;
    \<open>Net_State\<close> (\<open>state.rs\<close>, \<open>runtime.rs\<close>, \<open>network_policy.rs\<close>): the constraints of the
    organisation, the shared state with its reloads and changes, and the decision about a host;
    \<open>Net_Requests\<close> (\<open>http_proxy.rs\<close>, \<open>socks5.rs\<close>, \<open>mitm.rs\<close>, \<open>responses.rs\<close>): what happens to a
    request until it is answered or handed on, each access to the shared state a moment of its own.
    \<open>Net_Facts\<close> holds the lemmas; the locale \<open>kept_by_steps\<close> carries an invariant along steps.
  \<^item> \<open>Patch_Properties\<close>, \<open>Exec_Properties\<close>, \<open>Approval_Properties\<close>, \<open>Stream_Properties\<close>,
    \<open>Permission_Properties\<close>, \<open>Output_Properties\<close>, \<open>Tui_Properties\<close>,
    \<open>Chat_Properties\<close>, \<open>Net_Properties\<close>, \<open>Net_Guards\<close>: the properties, each with
    an instance at a concrete input where it has hypotheses, and further lemmas of the components.

  \<^bold>\<open>What is shown.\<close> Of patches: the parser inverts the printer, its modes agree, replacements are
  splices, application changes only files that its targets name or are linked to (hard and symbolic
  links are a relation the properties take as a parameter) and realises the preview when its targets are
  apart, and an automatically approved patch is aimed at writable paths only. Of commands: the strictest
  rule wins, added rules take effect and loosen nothing, an overlay adds its exact matches to those of
  the base, policy files that load are checked, safe git commands hold none of a list of options spelled
  out apart from the classifier, dangerous commands need consent, and the requirement respects the rules. Of streams: every parser reads what a
  reading of the whole text gives, however the text is cut, and returns. Of permissions: the
  closest entry decides, the sandbox is handed no more than the policy allows, grants stay within
  requests, and the older policy survives its conversions. Of outputs and the history: truncation
  keeps both ends and stays within its budget up to the marker, the buffer is the first and last
  half of the log, normalising pairs every call with an output, and rollback drops the turns asked
  for. Of the terminal: ticks commit every line of the message and of the plan once and in order, the finished message is the
  rendering of the whole text, the gears do not flap, and typing is preserved but for the Enter that
  overtakes a held character. Of the chat wire: a converted request says what the request said,
  namespaced tools get unique readable names and their calls come back under the original ones,
  events come in order, and the calls passed on are those the fragments spell, for a server that
  sends one call after the other. Of the network: the
  addresses kept from requests are listed exactly, a request that is handed on reaches no denied
  host and no local address that is not named, limited mode lets nothing but reading through, the list of the organisation bounds the allow list
  for plain patterns (and does not for others), and the globs follow the settings under every
  sequence of reloads and changes.

  \<^bold>\<open>State and operations.\<close> A struct is a record, an enum a datatype with the source's
  constructors, a method a function that takes the state and returns it updated; an error is the
  left of a sum, a panic or a call that does not return is \<open>None\<close>. File systems, policy files and
  the manager's lock are explicit states passed through \<open>try_then\<close>.

  \<^bold>\<open>What is a parameter.\<close> Code outside the repository is an argument of the definitions that use
  it: the executor file system (a record of its operations), the Starlark evaluator, the
  tree-sitter parsers, \<open>shlex\<close>, the rendering of JSON strings, derived \<open>Debug\<close> texts, the
  PowerShell parser process, compiled glob patterns, and the environment (home and current
  directory, \<open>TMPDIR\<close>, the kind of a path, \<open>realpath\<close>). So are the length of a
  serialised item, the decoding of XML and JSON texts and of image sizes, the markdown renderer,
  the recognition of a pasted image path, printing and parsing of JSON on the chat wire, two derived
  JSON schemas and the decoding of a chunk; compiled globs, the URL parser, the resolver, the
  certificates, the reloader and the header map of the network proxy. Times are numbers of nanoseconds the caller passes. Where a property
  relies on how such code behaves, the behaviour is a hypothesis of the property (for files
  \<open>fs_local\<close> and \<open>fs_durable\<close> of \<open>Patch_Apply\<close>, shown to hold of a small file system with hard links).

  \<^bold>\<open>Numbers.\<close> IP addresses are words of 32 and 128 bits. Lengths and counts are natural numbers; where the code saturates (\<open>usize\<close>,
  \<open>u16\<close>) or adds \<open>i64\<close> values, the bound, the saturation or the wrap-around is written out
  (\<open>sat_add\<close>, \<open>sat_i64\<close>, \<open>wrap_i64\<close>), and a cast from \<open>i64\<close> reads a \<open>64 word\<close>. The
  product of a budget with the double 1.2 is the exact product rounded to 53 bits. Hypotheses bound
  a text by \<open>isize::MAX\<close>, as the allocator does.

  \<^bold>\<open>Termination and fuel.\<close> No definition uses fuel. The loops of the parsers and scanners are
  recursive functions with a measure on the remaining lines or words. An operation that starts again
  when the network policy changed in between runs over the list of its turns, and has not returned
  when they are used up. The loop of the inline tag
  parser is a partial function: it does not return for empty delimiters, which the constructor
  rejects, and is proved to return otherwise.

  \<^bold>\<open>Not modelled.\<close> Rendering, network and process input and output, serialisation, the
  asynchronous session loop, the Windows branches that the Linux build leaves out, context updates
  (\<open>updates.rs\<close>) and the cache of image estimates, the client and the proxy of the chat wire, the listeners and certificates of the network proxy, the composer's pop-ups, history, cursor keys,
  elements and slash commands, and the parts named in the list of components as not modelled.
\<close>

end
